(* ===== verification/KPrelude.thy ===== *)
theory KPrelude
  imports Main "HOL-Library.Word" "HOL-Library.Monad_Syntax"
begin

unbundle bit_operations_syntax

text \<open>
  Shared vocabulary of the development: the result codes of the server (ECRESULT) and of
  the client side (HRESULT), the byte and word types the components use, and the generic
  lemmas on options, lists and words that several components need.

  A computation that the C++ language leaves undefined (a null or dangling pointer is
  followed, an array is read out of range) has the value \<open>None\<close> wherever an operation
  returns an \<open>option\<close>; error codes are ordinary values.
\<close>

section \<open>Types\<close>

type_synonym byte = "8 word"
type_synonym uint32 = "32 word"
type_synonym bytes = "byte list"

section \<open>Proof collections\<close>

named_theorems kc_op \<open>definitions of the operations, unfolded by the component proofs\<close>
named_theorems kc_inv \<open>invariant preservation facts\<close>

section \<open>Result codes\<close>

text \<open>The ECRESULT codes of kcodes.h, in the order of that file.\<close>

datatype ecresult =
    erSuccess
  | KCERR_UNKNOWN
  | KCERR_NOT_FOUND
  | KCERR_NO_ACCESS
  | KCERR_NETWORK_ERROR
  | KCERR_SERVER_NOT_RESPONDING
  | KCERR_INVALID_TYPE
  | KCERR_DATABASE_ERROR
  | KCERR_COLLISION
  | KCERR_LOGON_FAILED
  | KCERR_HAS_MESSAGES
  | KCERR_HAS_FOLDERS
  | KCERR_HAS_RECIPIENTS
  | KCERR_HAS_ATTACHMENTS
  | KCERR_NOT_ENOUGH_MEMORY
  | KCERR_TOO_COMPLEX
  | KCERR_END_OF_SESSION
  | KCWARN_CALL_KEEPALIVE
  | KCERR_UNABLE_TO_ABORT
  | KCERR_NOT_IN_QUEUE
  | KCERR_INVALID_PARAMETER
  | KCWARN_PARTIAL_COMPLETION
  | KCERR_INVALID_ENTRYID
  | KCERR_BAD_VALUE
  | KCERR_NO_SUPPORT
  | KCERR_TOO_BIG
  | KCWARN_POSITION_CHANGED
  | KCERR_FOLDER_CYCLE
  | KCERR_STORE_FULL
  | KCERR_PLUGIN_ERROR
  | KCERR_UNKNOWN_OBJECT
  | KCERR_NOT_IMPLEMENTED
  | KCERR_DATABASE_NOT_FOUND
  | KCERR_INVALID_VERSION
  | KCERR_UNKNOWN_DATABASE
  | KCERR_NOT_INITIALIZED
  | KCERR_CALL_FAILED
  | KCERR_SSO_CONTINUE
  | KCERR_TIMEOUT
  | KCERR_INVALID_BOOKMARK
  | KCERR_UNABLE_TO_COMPLETE
  | KCERR_UNKNOWN_INSTANCE_ID
  | KCERR_IGNORE_ME
  | KCERR_BUSY
  | KCERR_OBJECT_DELETED
  | KCERR_USER_CANCEL
  | KCERR_UNKNOWN_FLAGS
  | KCERR_SUBMITTED

text \<open>
  The HRESULT codes the modelled code produces. \<open>HR_ECRESULT\<close> is an ECRESULT number handed
  through unchanged, which \<open>kcerr_to_mapierr\<close> does for one internal code.
\<close>

datatype hresult =
    hrSuccess
  | MAPI_E_NOT_FOUND
  | MAPI_E_NO_ACCESS
  | MAPI_E_NETWORK_ERROR
  | MAPI_E_INVALID_TYPE
  | MAPI_E_DISK_ERROR
  | MAPI_E_COLLISION
  | MAPI_E_LOGON_FAILED
  | MAPI_E_HAS_MESSAGES
  | MAPI_E_HAS_FOLDERS
  | MAPI_E_NOT_ENOUGH_MEMORY
  | MAPI_E_TOO_COMPLEX
  | MAPI_E_END_OF_SESSION
  | MAPI_E_UNABLE_TO_ABORT
  | MAPI_E_NOT_IN_QUEUE
  | MAPI_E_INVALID_PARAMETER
  | MAPI_W_PARTIAL_COMPLETION
  | MAPI_W_ERRORS_RETURNED
  | MAPI_E_INVALID_ENTRYID
  | MAPI_E_TOO_BIG
  | MAPI_W_POSITION_CHANGED
  | MAPI_E_FOLDER_CYCLE
  | MAPI_E_STORE_FULL
  | MAPI_E_NOT_INITIALIZED
  | MAPI_E_CALL_FAILED
  | MAPI_E_TIMEOUT
  | MAPI_E_INVALID_BOOKMARK
  | MAPI_E_UNABLE_TO_COMPLETE
  | MAPI_E_VERSION
  | MAPI_E_OBJECT_DELETED
  | MAPI_E_USER_CANCEL
  | MAPI_E_UNKNOWN_FLAGS
  | MAPI_E_SUBMITTED
  | MAPI_E_NO_SUPPORT
  | MAPI_E_CORRUPT_DATA
  | MAPI_E_BAD_CHARWIDTH
  | MAPI_E_NOT_ME
  | HR_ECRESULT ecresult

fun kcerr_to_mapierr :: "ecresult \<Rightarrow> hresult \<Rightarrow> hresult" where
  "kcerr_to_mapierr erSuccess d = hrSuccess"
| "kcerr_to_mapierr KCERR_NOT_FOUND d = MAPI_E_NOT_FOUND"
| "kcerr_to_mapierr KCERR_NO_ACCESS d = MAPI_E_NO_ACCESS"
| "kcerr_to_mapierr KCERR_NETWORK_ERROR d = MAPI_E_NETWORK_ERROR"
| "kcerr_to_mapierr KCERR_SERVER_NOT_RESPONDING d = MAPI_E_NETWORK_ERROR"
| "kcerr_to_mapierr KCERR_INVALID_TYPE d = MAPI_E_INVALID_TYPE"
| "kcerr_to_mapierr KCERR_DATABASE_ERROR d = MAPI_E_DISK_ERROR"
| "kcerr_to_mapierr KCERR_COLLISION d = MAPI_E_COLLISION"
| "kcerr_to_mapierr KCERR_LOGON_FAILED d = MAPI_E_LOGON_FAILED"
| "kcerr_to_mapierr KCERR_HAS_MESSAGES d = MAPI_E_HAS_MESSAGES"
| "kcerr_to_mapierr KCERR_HAS_FOLDERS d = MAPI_E_HAS_FOLDERS"
| "kcerr_to_mapierr KCERR_NOT_ENOUGH_MEMORY d = MAPI_E_NOT_ENOUGH_MEMORY"
| "kcerr_to_mapierr KCERR_TOO_COMPLEX d = MAPI_E_TOO_COMPLEX"
| "kcerr_to_mapierr KCERR_END_OF_SESSION d = MAPI_E_END_OF_SESSION"
| "kcerr_to_mapierr KCERR_UNABLE_TO_ABORT d = MAPI_E_UNABLE_TO_ABORT"
| "kcerr_to_mapierr KCWARN_CALL_KEEPALIVE d = HR_ECRESULT KCWARN_CALL_KEEPALIVE"
| "kcerr_to_mapierr KCERR_NOT_IN_QUEUE d = MAPI_E_NOT_IN_QUEUE"
| "kcerr_to_mapierr KCERR_INVALID_PARAMETER d = MAPI_E_INVALID_PARAMETER"
| "kcerr_to_mapierr KCWARN_PARTIAL_COMPLETION d = MAPI_W_PARTIAL_COMPLETION"
| "kcerr_to_mapierr KCERR_INVALID_ENTRYID d = MAPI_E_INVALID_ENTRYID"
| "kcerr_to_mapierr KCERR_TOO_BIG d = MAPI_E_TOO_BIG"
| "kcerr_to_mapierr KCWARN_POSITION_CHANGED d = MAPI_W_POSITION_CHANGED"
| "kcerr_to_mapierr KCERR_FOLDER_CYCLE d = MAPI_E_FOLDER_CYCLE"
| "kcerr_to_mapierr KCERR_STORE_FULL d = MAPI_E_STORE_FULL"
| "kcerr_to_mapierr KCERR_NOT_INITIALIZED d = MAPI_E_NOT_INITIALIZED"
| "kcerr_to_mapierr KCERR_CALL_FAILED d = MAPI_E_CALL_FAILED"
| "kcerr_to_mapierr KCERR_TIMEOUT d = MAPI_E_TIMEOUT"
| "kcerr_to_mapierr KCERR_INVALID_BOOKMARK d = MAPI_E_INVALID_BOOKMARK"
| "kcerr_to_mapierr KCERR_UNABLE_TO_COMPLETE d = MAPI_E_UNABLE_TO_COMPLETE"
| "kcerr_to_mapierr KCERR_INVALID_VERSION d = MAPI_E_VERSION"
| "kcerr_to_mapierr KCERR_OBJECT_DELETED d = MAPI_E_OBJECT_DELETED"
| "kcerr_to_mapierr KCERR_USER_CANCEL d = MAPI_E_USER_CANCEL"
| "kcerr_to_mapierr KCERR_UNKNOWN_FLAGS d = MAPI_E_UNKNOWN_FLAGS"
| "kcerr_to_mapierr KCERR_SUBMITTED d = MAPI_E_SUBMITTED"
| "kcerr_to_mapierr KCERR_NO_SUPPORT d = MAPI_E_NO_SUPPORT"
| "kcerr_to_mapierr KCERR_NOT_IMPLEMENTED d = MAPI_E_NO_SUPPORT"
| "kcerr_to_mapierr _ d = d"

lemma kcerr_to_mapierr_success:
  "kcerr_to_mapierr e d = hrSuccess \<longleftrightarrow>
     e = erSuccess \<or> (kcerr_to_mapierr e d = d \<and> d = hrSuccess)"
  by (cases e) auto

section \<open>Options\<close>

lemma bind_Some_iff: "Option.bind x f = Some y \<longleftrightarrow> (\<exists>a. x = Some a \<and> f a = Some y)"
  by (cases x) auto

lemma bind_SomeI: "x = Some a \<Longrightarrow> f a = y \<Longrightarrow> Option.bind x f = y"
  by simp

section \<open>Lists\<close>

lemma takeWhile_dropWhile_mid:
  "(\<And>x. x \<in> set xs \<Longrightarrow> P x) \<Longrightarrow> (\<And>y. y \<in> set ys \<Longrightarrow> \<not> P y) \<Longrightarrow>
     takeWhile P (xs @ ys) = xs \<and> dropWhile P (xs @ ys) = ys"
  by (induction xs) (cases ys; auto)+

text \<open>Array accesses that are undefined outside the array.\<close>

definition nth_opt :: "'a list \<Rightarrow> nat \<Rightarrow> 'a option" where
  "nth_opt xs i = (if i < length xs then Some (xs ! i) else None)"

definition set_nth :: "'a list \<Rightarrow> nat \<Rightarrow> 'a \<Rightarrow> 'a list option" where
  "set_nth xs i x = (if i < length xs then Some (xs[i := x]) else None)"

lemma nth_opt_Some [simp]: "i < length xs \<Longrightarrow> nth_opt xs i = Some (xs ! i)"
  by (simp add: nth_opt_def)

lemma set_nth_Some [simp]: "i < length xs \<Longrightarrow> set_nth xs i x = Some (xs[i := x])"
  by (simp add: set_nth_def)

section \<open>Words\<close>

lemma unat_of_nat_small: "n < 2 ^ LENGTH('a) \<Longrightarrow> unat (of_nat n :: 'a::len word) = n"
  by (simp add: unsigned_of_nat take_bit_nat_eq_self)

lemma unat_add_small: "unat x + unat y < 2 ^ LENGTH('a) \<Longrightarrow> unat (x + y :: 'a::len word) = unat x + unat y"
  by (simp add: unat_word_ariths)

lemma unat_less_word32: "unat (w :: uint32) < 4294967296"
  using unsigned_less [of w] by simp

end
