(* ===== verification/KeyTableRow.thy ===== *)
theory KeyTableRow
  imports KPrelude
begin

text \<open>
  The row keys and sort keys of the server's table engine (common/ECKeyTable.cpp and
  common/include/kopano/ECKeyTable.h, class ECTableRow): the order on row ids, the
  comparison of sort keys column by column, and the fact that, on the rows of one sort
  order, it is a strict weak order. The locale \<open>strict_weak_order\<close> holds what a sorted
  sequence needs of a comparison, and is interpreted on \<open>rowcompare\<close>.

  A sort column is its byte string; its length is the code's lpSortLen entry. The flags
  of a row are one byte per column, or None for the null pointer.
\<close>

section \<open>Row ids\<close>

datatype objkey = ObjKey (ulObjId: uint32) (ulOrderId: uint32)

definition ObjectTableKeyCompare :: "objkey \<Rightarrow> objkey \<Rightarrow> bool" where
  "ObjectTableKeyCompare a b \<longleftrightarrow>
     ulObjId a < ulObjId b \<or> (ulObjId a = ulObjId b \<and> ulOrderId a < ulOrderId b)"

instantiation objkey :: linorder
begin

definition less_objkey :: "objkey \<Rightarrow> objkey \<Rightarrow> bool" where
  "less_objkey a b \<longleftrightarrow> ObjectTableKeyCompare a b"

definition less_eq_objkey :: "objkey \<Rightarrow> objkey \<Rightarrow> bool" where
  "less_eq_objkey a b \<longleftrightarrow> a < b \<or> a = b"

instance
proof
  fix x y :: objkey
  show "x \<le> y \<or> y \<le> x"
    by (cases x; cases y) (auto simp: less_objkey_def less_eq_objkey_def ObjectTableKeyCompare_def)
qed (auto simp: less_objkey_def less_eq_objkey_def ObjectTableKeyCompare_def)

end

section \<open>Comparing one column\<close>

definition TABLEROW_FLAG_DESC :: byte where "TABLEROW_FLAG_DESC = 1"
definition TABLEROW_FLAG_FLOAT :: byte where "TABLEROW_FLAG_FLOAT = 2"
definition TABLEROW_FLAG_STRING :: byte where "TABLEROW_FLAG_STRING = 4"

text \<open>memcmp over the shorter of the two lengths, as a sign.\<close>

fun memcmp :: "bytes \<Rightarrow> bytes \<Rightarrow> int" where
  "memcmp (x # xs) (y # ys) = (if x < y then -1 else if y < x then 1 else memcmp xs ys)"
| "memcmp _ _ = 0"

text \<open>
  An IEEE double read from eight little-endian bytes: its bit pattern, whether it is a
  NaN, and an integer that orders the other values (both zeros give 0).
\<close>

fun le_word64 :: "bytes \<Rightarrow> 64 word" where
  "le_word64 [] = 0"
| "le_word64 (b # bs) = ucast b + 256 * le_word64 bs"

definition dbl_magnitude :: "64 word \<Rightarrow> 64 word" where
  "dbl_magnitude w = w AND 0x7FFFFFFFFFFFFFFF"

definition dbl_nan :: "bytes \<Rightarrow> bool" where
  "dbl_nan bs \<longleftrightarrow> 0x7FF0000000000000 < dbl_magnitude (le_word64 bs)"

definition dbl_rank :: "bytes \<Rightarrow> int" where
  "dbl_rank bs = (let w = le_word64 bs; m = uint (dbl_magnitude w)
                  in if 0x8000000000000000 \<le> w then - m else m)"

definition dblcmp :: "bytes \<Rightarrow> bytes \<Rightarrow> int" where
  "dblcmp a b =
     (if \<not> dbl_nan a \<and> \<not> dbl_nan b \<and> dbl_rank a = dbl_rank b then 0
      else if \<not> dbl_nan a \<and> \<not> dbl_nan b \<and> dbl_rank a < dbl_rank b then -1
      else 1)"

text \<open>
  The comparison of collation keys (compareSortKeys with ICU: CollationKey::compareTo) is
  library code: \<open>ck\<close> stands for it. \<open>ck_laws\<close> is what ICU documents of it, that it is a
  three-way comparison of a total preorder.
\<close>

type_synonym ckcompare = "bytes \<Rightarrow> bytes \<Rightarrow> int"

definition ck_laws :: "ckcompare \<Rightarrow> bool" where
  "ck_laws ck \<longleftrightarrow>
     (\<forall>a b. (ck a b < 0 \<longleftrightarrow> 0 < ck b a)) \<and>
     (\<forall>a b c. ck a b \<le> 0 \<longrightarrow> ck b c \<le> 0 \<longrightarrow> ck a c \<le> 0)"

definition colcompare :: "ckcompare \<Rightarrow> byte \<Rightarrow> bytes \<Rightarrow> bytes \<Rightarrow> int" where
  "colcompare ck f a b =
     (if f AND TABLEROW_FLAG_FLOAT \<noteq> 0 then
        (if length a \<noteq> 8 \<or> length b \<noteq> 8 then 0 else dblcmp a b)
      else if f AND TABLEROW_FLAG_STRING \<noteq> 0 then ck a b
      else memcmp a b)"

section \<open>Comparing rows\<close>

text \<open>
  The loop over the common columns: None when it ran to the end, otherwise the raw result
  and the flags of the column that decided.
\<close>

fun rowcompare_loop ::
    "ckcompare \<Rightarrow> byte list \<Rightarrow> bytes list \<Rightarrow> bytes list \<Rightarrow> (bool \<times> byte) option" where
  "rowcompare_loop ck (f # fs) (a # as) (b # bs) =
     (let cmp = colcompare ck f a b in
      if cmp < 0 then Some (True, f)
      else if cmp = 0 then
        (if length a = length b then rowcompare_loop ck fs as bs
         else Some (length a < length b, f))
      else Some (False, f))"
| "rowcompare_loop ck _ _ _ = None"

definition sortflags :: "byte list option \<Rightarrow> bytes list \<Rightarrow> byte list" where
  "sortflags fl keys = (case fl of None \<Rightarrow> replicate (length keys) 0 | Some fs \<Rightarrow> fs)"

definition rowcompare_cols ::
    "ckcompare \<Rightarrow> bytes list \<Rightarrow> byte list option \<Rightarrow> bytes list \<Rightarrow> bool \<Rightarrow> bool" where
  "rowcompare_cols ck keysA flagsA keysB fIgnoreOrder =
     (case rowcompare_loop ck (sortflags flagsA keysA) keysA keysB of
        None \<Rightarrow> (if length keysA = length keysB then False
                 else length keysA < length keysB)
      | Some (ret, f) \<Rightarrow>
          (if \<not> fIgnoreOrder \<and> f AND TABLEROW_FLAG_DESC \<noteq> 0 then \<not> ret else ret))"

definition rowcompareprefix ::
    "ckcompare \<Rightarrow> nat \<Rightarrow> bytes list \<Rightarrow> byte list option \<Rightarrow> bytes list \<Rightarrow> bool" where
  "rowcompareprefix ck ulPrefix keysA flagsA keysB =
     rowcompare_cols ck (take ulPrefix keysA) (map_option (take ulPrefix) flagsA)
       (take ulPrefix keysB) False"

section \<open>Sorted sequences over a strict weak order\<close>

definition sorted_by :: "('a \<Rightarrow> 'a \<Rightarrow> bool) \<Rightarrow> 'a list \<Rightarrow> bool" where
  "sorted_by lt xs = sorted_wrt (\<lambda>a b. \<not> lt b a) xs"

text \<open>Insertion behind every element that is not greater: equal rows keep their age order.\<close>

definition insert_by :: "('a \<Rightarrow> 'a \<Rightarrow> bool) \<Rightarrow> 'a \<Rightarrow> 'a list \<Rightarrow> 'a list" where
  "insert_by lt x xs = takeWhile (\<lambda>a. \<not> lt x a) xs @ x # dropWhile (\<lambda>a. \<not> lt x a) xs"

locale strict_weak_order =
  fixes ok :: "'a \<Rightarrow> bool" and lt :: "'a \<Rightarrow> 'a \<Rightarrow> bool"
  assumes irrefl: "ok a \<Longrightarrow> \<not> lt a a"
    and trans: "ok a \<Longrightarrow> ok b \<Longrightarrow> ok c \<Longrightarrow> lt a b \<Longrightarrow> lt b c \<Longrightarrow> lt a c"
    and cotrans: "ok a \<Longrightarrow> ok b \<Longrightarrow> ok c \<Longrightarrow> lt a c \<Longrightarrow> lt a b \<or> lt b c"
begin

lemma asym: "ok a \<Longrightarrow> ok b \<Longrightarrow> lt a b \<Longrightarrow> \<not> lt b a"
  using irrefl trans by blast

lemma less_up: "ok x \<Longrightarrow> ok a \<Longrightarrow> ok b \<Longrightarrow> lt x a \<Longrightarrow> \<not> lt b a \<Longrightarrow> lt x b"
  using cotrans by blast

lemma less_down: "ok x \<Longrightarrow> ok a \<Longrightarrow> ok b \<Longrightarrow> lt b x \<Longrightarrow> \<not> lt b a \<Longrightarrow> lt a x"
  using cotrans by blast

lemma sorted_split_less:
  assumes "sorted_by lt (xs @ a # ys)" "\<And>y. y \<in> set (xs @ a # ys) \<Longrightarrow> ok y" "ok x" "lt x a"
  shows "\<forall>y \<in> set ys. lt x y"
proof
  fix y assume y: "y \<in> set ys"
  with assms(1) have "\<not> lt y a" by (auto simp: sorted_by_def sorted_wrt_append)
  with y assms show "lt x y" by (intro less_up [of x a y]) auto
qed

lemma sorted_split_not_less:
  assumes "sorted_by lt (xs @ a # ys)" "\<And>y. y \<in> set (xs @ a # ys) \<Longrightarrow> ok y" "ok x" "\<not> lt x a"
  shows "\<forall>y \<in> set xs. \<not> lt x y"
proof
  fix y assume y: "y \<in> set xs"
  with assms(1) have "\<not> lt a y" by (auto simp: sorted_by_def sorted_wrt_append)
  with y assms show "\<not> lt x y" using less_up [of x y a] by auto
qed

lemma sorted_dropWhile:
  assumes "sorted_by lt xs" "\<And>y. y \<in> set xs \<Longrightarrow> ok y" "ok x"
  shows "\<forall>y \<in> set (dropWhile (\<lambda>a. \<not> lt x a) xs). lt x y"
proof (cases "dropWhile (\<lambda>a. \<not> lt x a) xs")
  case Nil
  show ?thesis unfolding Nil by simp
next
  case (Cons d ds)
  have eq: "xs = takeWhile (\<lambda>a. \<not> lt x a) xs @ d # ds"
    using takeWhile_dropWhile_id [of "\<lambda>a. \<not> lt x a" xs] Cons by simp
  have "lt x d"
    using hd_dropWhile [of "\<lambda>a. \<not> lt x a" xs] Cons by simp
  have "\<forall>y \<in> set ds. lt x y"
    using sorted_split_less [of "takeWhile (\<lambda>a. \<not> lt x a) xs" d ds x] assms eq \<open>lt x d\<close>
    by metis
  with \<open>lt x d\<close> show ?thesis unfolding Cons by simp
qed

lemma sorted_insert:
  assumes "sorted_by lt xs" "\<And>y. y \<in> set xs \<Longrightarrow> ok y" "ok x"
  shows "sorted_by lt (insert_by lt x xs)"
proof -
  let ?P = "\<lambda>a. \<not> lt x a"
  have srt: "sorted_wrt (\<lambda>a b. \<not> lt b a) (takeWhile ?P xs @ dropWhile ?P xs)"
    using assms(1) by (simp add: sorted_by_def)
  have lo: "\<forall>y \<in> set (takeWhile ?P xs). \<not> lt x y"
    by (auto dest: set_takeWhileD)
  have hi: "\<forall>y \<in> set (dropWhile ?P xs). \<not> lt y x"
  proof
    fix y assume y: "y \<in> set (dropWhile ?P xs)"
    have "lt x y"
      using sorted_dropWhile [OF assms] y by (rule bspec)
    moreover have "ok y"
      using y by (rule assms(2) [OF set_dropWhileD])
    ultimately show "\<not> lt y x" using asym [of x y] assms(3) by simp
  qed
  have glue: "sorted_wrt R (ts @ x # ds)"
    if "sorted_wrt R (ts @ ds)" "\<forall>y \<in> set ts. R y x" "\<forall>y \<in> set ds. R x y" for R ts ds
    using that by (auto simp: sorted_wrt_append)
  show ?thesis
    unfolding sorted_by_def insert_by_def by (rule glue [OF srt]) (use lo hi in simp_all)
qed

lemma insert_unique:
  assumes "sorted_by lt (xs @ ys)" "\<And>y. y \<in> set (xs @ ys) \<Longrightarrow> ok y" "ok x"
    and "\<forall>y \<in> set xs. \<not> lt x y" "\<forall>y \<in> set ys. lt x y"
  shows "insert_by lt x (xs @ ys) = xs @ x # ys"
  using takeWhile_dropWhile_mid [of xs "\<lambda>a. \<not> lt x a" ys] assms(4,5)
  by (simp add: insert_by_def)

end

section \<open>rowcompare is a strict weak order\<close>

text \<open>
  All rows of one table carry the flags of its sort order \<open>F\<close>, cut to their number of
  columns (a category header has fewer). \<open>rowkey_ok\<close> says so, and that no column that is
  compared as a double holds a NaN.
\<close>

type_synonym rowkey = "bytes list \<times> byte list option"

definition col_ok :: "byte \<Rightarrow> bytes \<Rightarrow> bool" where
  "col_ok f a \<longleftrightarrow> (f AND TABLEROW_FLAG_FLOAT \<noteq> 0 \<longrightarrow> length a = 8 \<longrightarrow> \<not> dbl_nan a)"

definition rowkey_ok :: "ckcompare \<Rightarrow> byte list \<Rightarrow> rowkey \<Rightarrow> bool" where
  "rowkey_ok ck F r \<longleftrightarrow> ck_laws ck \<and> length (fst r) \<le> length F \<and>
     sortflags (snd r) (fst r) = take (length (fst r)) F \<and> list_all2 col_ok (take (length (fst r)) F) (fst r)"

definition rowkey_less :: "ckcompare \<Rightarrow> rowkey \<Rightarrow> rowkey \<Rightarrow> bool" where
  "rowkey_less ck a b = rowcompare_cols ck (fst a) (snd a) (fst b) False"

text \<open>The three-way comparison that the loop decides: by column, then by the columns' lengths.\<close>

definition col3 :: "ckcompare \<Rightarrow> byte \<Rightarrow> bytes \<Rightarrow> bytes \<Rightarrow> int" where
  "col3 ck f a b =
     (let c = colcompare ck f a b in if c \<noteq> 0 then c else int (length a) - int (length b))"

fun row3 :: "ckcompare \<Rightarrow> byte list \<Rightarrow> bytes list \<Rightarrow> bytes list \<Rightarrow> int" where
  "row3 ck F [] [] = 0"
| "row3 ck F [] (b # bs) = -1"
| "row3 ck F (a # as) [] = 1"
| "row3 ck [] (a # as) (b # bs) = 0"
| "row3 ck (f # F) (a # as) (b # bs) =
     (if col3 ck f a b \<noteq> 0
      then (if f AND TABLEROW_FLAG_DESC \<noteq> 0 then - col3 ck f a b else col3 ck f a b)
      else row3 ck F as bs)"

lemma memcmp_flip: "memcmp b a = - memcmp a b"
  by (induction a b rule: memcmp.induct) auto

lemma memcmp_flip_iff: "memcmp a b < 0 \<longleftrightarrow> 0 < memcmp b a" "memcmp a b = 0 \<longleftrightarrow> memcmp b a = 0"
  using memcmp_flip [of a b] by auto

definition lex3 :: "bytes \<Rightarrow> bytes \<Rightarrow> int" where
  "lex3 a b = (if memcmp a b \<noteq> 0 then memcmp a b else int (length a) - int (length b))"

lemma lex3_simps:
  "lex3 [] [] = 0" "lex3 [] (y # ys) < 0" "0 < lex3 (x # xs) []"
  "lex3 (x # xs) (y # ys) = (if x < y then -1 else if y < x then 1 else lex3 xs ys)"
  by (auto simp: lex3_def)

lemma lex3_trans: "lex3 a b \<le> 0 \<Longrightarrow> lex3 b c \<le> 0 \<Longrightarrow> lex3 a c \<le> 0"
proof (induction a arbitrary: b c)
  case Nil
  then show ?case by (cases c) (auto simp: lex3_simps less_imp_le)
next
  case (Cons x xs)
  then obtain y ys where b: "b = y # ys"
    using lex3_simps(3) [of x xs] by (cases b) auto
  then obtain z zs where c: "c = z # zs"
    using Cons.prems(2) lex3_simps(3) [of y ys] by (cases c) auto
  show ?case
    using Cons.prems Cons.IH [of ys zs] unfolding b c
    by (auto simp: lex3_simps split: if_splits)
qed

lemma dblcmp_flip:
  "\<not> dbl_nan a \<Longrightarrow> \<not> dbl_nan b \<Longrightarrow> dblcmp a b < 0 \<longleftrightarrow> 0 < dblcmp b a"
  by (auto simp: dblcmp_def)

lemma dblcmp_le:
  "\<not> dbl_nan a \<Longrightarrow> \<not> dbl_nan b \<Longrightarrow> dblcmp a b \<le> 0 \<longleftrightarrow> dbl_rank a \<le> dbl_rank b"
  by (auto simp: dblcmp_def)

text \<open>Every column comparison, with its tie break on lengths, is three-way and transitive.\<close>

lemma col3_flip:
  assumes "ck_laws ck" "col_ok f a" "col_ok f b"
  shows "col3 ck f a b < 0 \<longleftrightarrow> 0 < col3 ck f b a"
proof -
  consider (flt) "f AND TABLEROW_FLAG_FLOAT \<noteq> 0"
    | (str) "f AND TABLEROW_FLAG_FLOAT = 0" "f AND TABLEROW_FLAG_STRING \<noteq> 0"
    | (mem) "f AND TABLEROW_FLAG_FLOAT = 0" "f AND TABLEROW_FLAG_STRING = 0"
    by blast
  then show ?thesis
  proof cases
    case flt
    then show ?thesis
      using assms(2,3) by (auto simp: col3_def colcompare_def col_ok_def dblcmp_def Let_def)
  next
    case str
    have "ck a b < 0 \<longleftrightarrow> 0 < ck b a" "ck b a < 0 \<longleftrightarrow> 0 < ck a b"
      using assms(1) by (auto simp: ck_laws_def)
    with str show ?thesis by (simp add: col3_def colcompare_def Let_def) linarith
  next
    case mem
    then show ?thesis
      using memcmp_flip [of a b] by (simp add: col3_def colcompare_def Let_def)
  qed
qed

lemma col3_trans:
  assumes ck: "ck_laws ck" and ok: "col_ok f a" "col_ok f b" "col_ok f c"
    and le: "col3 ck f a b \<le> 0" "col3 ck f b c \<le> 0"
  shows "col3 ck f a c \<le> 0"
proof (cases "f AND TABLEROW_FLAG_FLOAT \<noteq> 0")
  case True
  then have flt: "col3 ck f x y = (if length x = 8 \<and> length y = 8 then dblcmp x y
      else int (length x) - int (length y))" for x y
    by (auto simp: col3_def colcompare_def Let_def dblcmp_def)
  have nan: "length x = 8 \<longrightarrow> \<not> dbl_nan x" if "col_ok f x" for x
    using that True by (simp add: col_ok_def)
  show ?thesis
    using le nan [OF ok(1)] nan [OF ok(2)] nan [OF ok(3)]
    by (auto simp: flt dblcmp_le split: if_splits)
next
  case nofloat: False
  show ?thesis
  proof (cases "f AND TABLEROW_FLAG_STRING \<noteq> 0")
    case True
    have flip: "\<And>x y. ck x y < 0 \<longleftrightarrow> 0 < ck y x"
      and tr: "\<And>x y z. ck x y \<le> 0 \<Longrightarrow> ck y z \<le> 0 \<Longrightarrow> ck x z \<le> 0"
      using ck unfolding ck_laws_def by blast+
    have "ck a b \<le> 0" "ck b c \<le> 0"
      using le nofloat True by (auto simp: col3_def colcompare_def Let_def split: if_splits)
    moreover have "ck c a \<le> 0 \<Longrightarrow> ck a b = 0 \<and> ck b c = 0"
      using calculation tr [of c a b] tr [of b c a] flip [of b a] flip [of c b] flip [of a b] flip [of b c]
      by linarith
    ultimately show ?thesis
      using le nofloat True flip [of a c] flip [of c a] tr [of a b c]
      by (auto simp: col3_def colcompare_def Let_def split: if_splits)
  next
    case False
    then have "col3 ck f x y = lex3 x y" for x y
      using nofloat by (simp add: col3_def colcompare_def lex3_def Let_def)
    with le lex3_trans show ?thesis by metis
  qed
qed

lemma row3_flip:
  "ck_laws ck \<Longrightarrow> length as \<le> length F \<Longrightarrow> length bs \<le> length F \<Longrightarrow>
   list_all2 col_ok (take (length as) F) as \<Longrightarrow> list_all2 col_ok (take (length bs) F) bs \<Longrightarrow>
   row3 ck F as bs < 0 \<longleftrightarrow> 0 < row3 ck F bs as"
proof (induction ck F as bs rule: row3.induct)
  case (5 ck f F a as b bs)
  then show ?case
    using col3_flip [of ck f a b] col3_flip [of ck f b a] by auto
qed auto

lemma row3_trans:
  "ck_laws ck \<Longrightarrow> length as \<le> length F \<Longrightarrow> length bs \<le> length F \<Longrightarrow> length cs \<le> length F \<Longrightarrow>
   list_all2 col_ok (take (length as) F) as \<Longrightarrow> list_all2 col_ok (take (length bs) F) bs \<Longrightarrow>
   list_all2 col_ok (take (length cs) F) cs \<Longrightarrow>
   row3 ck F as bs \<le> 0 \<Longrightarrow> row3 ck F bs cs \<le> 0 \<Longrightarrow> row3 ck F as cs \<le> 0"
proof (induction F arbitrary: as bs cs)
  case Nil
  then show ?case by auto
next
  case (Cons f F)
  show ?case
  proof (cases as)
    case Nil
    then show ?thesis by (cases cs) auto
  next
    case as: (Cons a as')
    obtain b bs' where bs: "bs = b # bs'"
      using Cons.prems(8) as by (cases bs) auto
    obtain c cs' where cs: "cs = c # cs'"
      using Cons.prems(9) bs by (cases cs) auto
    have ok: "col_ok f a" "col_ok f b" "col_ok f c"
      using Cons.prems(5,6,7) by (auto simp: as bs cs)
    have IH: "row3 ck F as' bs' \<le> 0 \<Longrightarrow> row3 ck F bs' cs' \<le> 0 \<Longrightarrow> row3 ck F as' cs' \<le> 0"
      using Cons.prems by (intro Cons.IH [of as' bs' cs']) (auto simp: as bs cs)
    have tr: "\<And>x y z. col_ok f x \<Longrightarrow> col_ok f y \<Longrightarrow> col_ok f z \<Longrightarrow>
        col3 ck f x y \<le> 0 \<Longrightarrow> col3 ck f y z \<le> 0 \<Longrightarrow> col3 ck f x z \<le> 0"
      using col3_trans Cons.prems(1) by blast
    have fl: "col3 ck f y x \<le> 0 \<longleftrightarrow> 0 \<le> col3 ck f x y" if "col_ok f x" "col_ok f y" for x y
      using col3_flip [of ck f x y] that Cons.prems(1) by (simp add: not_less [symmetric])
    note fls = fl [OF ok(1) ok(2)] fl [OF ok(2) ok(3)] fl [OF ok(1) ok(3)]
    have up: "col3 ck f a b \<le> 0 \<Longrightarrow> col3 ck f b c \<le> 0 \<Longrightarrow>
        col3 ck f a c < 0 \<or> (col3 ck f a b = 0 \<and> col3 ck f b c = 0 \<and> col3 ck f a c = 0)"
      using tr [OF ok] tr [OF ok(3) ok(1) ok(2)] tr [OF ok(2) ok(3) ok(1)] unfolding fls by linarith
    have down: "0 \<le> col3 ck f a b \<Longrightarrow> 0 \<le> col3 ck f b c \<Longrightarrow>
        0 < col3 ck f a c \<or> (col3 ck f a b = 0 \<and> col3 ck f b c = 0 \<and> col3 ck f a c = 0)"
      using tr [OF ok(3) ok(2) ok(1)] tr [OF ok(1) ok(3) ok(2)] tr [OF ok(2) ok(1) ok(3)]
      unfolding fls by linarith
    show ?thesis
    proof (cases "f AND TABLEROW_FLAG_DESC \<noteq> 0")
      case True
      then have "0 \<le> col3 ck f a b" "0 \<le> col3 ck f b c"
        using Cons.prems(8,9) unfolding as bs cs by (simp_all split: if_splits)
      from down [OF this] show ?thesis
        using True Cons.prems(8,9) IH unfolding as bs cs by auto
    next
      case False
      then have "col3 ck f a b \<le> 0" "col3 ck f b c \<le> 0"
        using Cons.prems(8,9) unfolding as bs cs by (simp_all split: if_splits)
      from up [OF this] show ?thesis
        using False Cons.prems(8,9) IH unfolding as bs cs by auto
    qed
  qed
qed

lemma rowcompare_row3:
  assumes "rowkey_ok ck F a" "rowkey_ok ck F b"
  shows "rowkey_less ck a b \<longleftrightarrow> row3 ck F (fst a) (fst b) < 0"
proof -
  have "length as \<le> length F \<Longrightarrow> length bs \<le> length F \<Longrightarrow>
      (case rowcompare_loop ck (take (length as) F) as bs of
         None \<Rightarrow> length as < length bs
       | Some (ret, f) \<Rightarrow> (if f AND TABLEROW_FLAG_DESC \<noteq> 0 then \<not> ret else ret)) \<longleftrightarrow>
      row3 ck F as bs < 0" for as bs
  proof (induction ck F as bs rule: row3.induct)
    case (5 ck f F a as b bs)
    then show ?case by (auto simp: col3_def Let_def split: if_splits option.splits)
  qed auto
  from this [of "fst a" "fst b"] assms show ?thesis
    by (auto simp: rowkey_less_def rowcompare_cols_def rowkey_ok_def simp del: not_less
          split: option.split_asm option.split prod.split_asm prod.split)
qed

interpretation rowcmp: strict_weak_order "rowkey_ok ck F" "rowkey_less ck" for ck F
proof
  fix a b c
  assume a: "rowkey_ok ck F a"
  show "\<not> rowkey_less ck a a"
    using a row3_flip [of ck "fst a" F "fst a"] rowcompare_row3 [OF a a] by (auto simp: rowkey_ok_def)
  assume b: "rowkey_ok ck F b" and c: "rowkey_ok ck F c"
  have flip: "row3 ck F (fst y) (fst x) \<le> 0 \<longleftrightarrow> 0 \<le> row3 ck F (fst x) (fst y)"
    if "rowkey_ok ck F x" "rowkey_ok ck F y" for x y
    using that row3_flip [of ck "fst x" F "fst y"] by (auto simp: rowkey_ok_def not_less [symmetric])
  have tr: "row3 ck F (fst x) (fst y) \<le> 0 \<Longrightarrow> row3 ck F (fst y) (fst z) \<le> 0 \<Longrightarrow> row3 ck F (fst x) (fst z) \<le> 0"
    if "rowkey_ok ck F x" "rowkey_ok ck F y" "rowkey_ok ck F z" for x y z
    using that row3_trans [of ck "fst x" F "fst y" "fst z"] by (auto simp: rowkey_ok_def)
  note r3 = rowcompare_row3 [OF a b] rowcompare_row3 [OF b c] rowcompare_row3 [OF a c]
  note flips = flip [OF a b] flip [OF b c] flip [OF a c]
  show "rowkey_less ck a b \<Longrightarrow> rowkey_less ck b c \<Longrightarrow> rowkey_less ck a c"
    using tr [OF a b c] tr [OF c a b] unfolding r3 flips by linarith
  show "rowkey_less ck a c \<Longrightarrow> rowkey_less ck a b \<or> rowkey_less ck b c"
    using tr [OF c b a] unfolding r3 flips by linarith
qed

end
