(* ===== verification/KeyTable.thy ===== *)
theory KeyTable
  imports KeyTableRow
begin

text \<open>
  The table engine itself (class ECKeyTable of common/ECKeyTable.cpp): an AVL tree of row
  objects linked by parent and child pointers, an index from row id to row object, a cursor
  and bookmarks.

  Row objects live in a heap from addresses to objects. \<open>new\<close> takes the next unused address
  and \<open>delete\<close> removes the object, so following a null pointer or a pointer to a deleted
  row gives None. Every pointer loop has a fuel argument; its call site passes \<open>nextptr\<close>
  of the table (or a small multiple), which bounds the number of row objects. Counters
  are 32 bit words, as in the code.
\<close>

section \<open>State\<close>

record ectablerow =
  sKey :: objkey
  lppSortKeys :: "bytes list"
  lpFlags :: "byte list option"
  lpParent :: "nat option"
  lpLeft :: "nat option"
  lpRight :: "nat option"
  ulBranchCount :: uint32
  ulHeight :: uint32
  fLeft :: bool
  fRoot :: bool
  fHidden :: bool

record sbookmark =
  ulFirstRowPosition :: uint32
  lpPosition :: "nat option"

record keytable =
  heap :: "nat \<rightharpoonup> ectablerow"
  nextptr :: nat
  lpRoot :: nat
  lpCurrent :: "nat option"
  mapRow :: "objkey \<rightharpoonup> nat"
  m_mapBookmarks :: "(uint32 \<times> sbookmark) list"
  m_ulBookmarkPosition :: uint32

datatype updatetype = TABLE_CHANGE | TABLE_ERR | TABLE_ROW_ADD | TABLE_ROW_DELETE | TABLE_ROW_MODIFY
  | TABLE_SORT | TABLE_RESTRICT | TABLE_SETCOL | TABLE_DO_RELOAD

definition new_ECTableRow :: "objkey \<Rightarrow> bytes list \<Rightarrow> byte list option \<Rightarrow> bool \<Rightarrow> ectablerow" where
  "new_ECTableRow k keys flags hidden =
     \<lparr>sKey = k, lppSortKeys = keys, lpFlags = flags, lpParent = None, lpLeft = None,
      lpRight = None, ulBranchCount = 0, ulHeight = 0, fLeft = False, fRoot = False,
      fHidden = hidden\<rparr>"

definition new_ECKeyTable :: keytable where
  "new_ECKeyTable =
     \<lparr>heap = [0 \<mapsto> (new_ECTableRow (ObjKey 0 0) [] None False)\<lparr>fRoot := True\<rparr>],
      nextptr = 1, lpRoot = 0, lpCurrent = Some 0, mapRow = Map.empty,
      m_mapBookmarks = [], m_ulBookmarkPosition = 3\<rparr>"

text \<open>Field assignment through a pointer.\<close>

definition upd :: "nat \<Rightarrow> (ectablerow \<Rightarrow> ectablerow) \<Rightarrow> keytable \<Rightarrow> keytable option" where
  "upd a f s = (case heap s a of None \<Rightarrow> None | Some r \<Rightarrow> Some (s\<lparr>heap := (heap s)(a \<mapsto> f r)\<rparr>))"

text \<open>\<open>if (fl) p->lpLeft = v; else p->lpRight = v;\<close>\<close>

definition set_leg :: "nat option \<Rightarrow> bool \<Rightarrow> nat option \<Rightarrow> keytable \<Rightarrow> keytable option" where
  "set_leg p fl v s =
     (case p of None \<Rightarrow> None
      | Some a \<Rightarrow> upd a (\<lambda>r. if fl then r\<lparr>lpLeft := v\<rparr> else r\<lparr>lpRight := v\<rparr>) s)"

definition upd_ptr :: "nat option \<Rightarrow> (ectablerow \<Rightarrow> ectablerow) \<Rightarrow> keytable \<Rightarrow> keytable option" where
  "upd_ptr p f s = (case p of None \<Rightarrow> Some s | Some a \<Rightarrow> upd a f s)"

definition deref :: "keytable \<Rightarrow> nat option \<Rightarrow> ectablerow option" where
  "deref s p = (case p of None \<Rightarrow> None | Some a \<Rightarrow> heap s a)"

section \<open>Comparing row objects\<close>

definition rowcompare :: "ckcompare \<Rightarrow> ectablerow \<Rightarrow> ectablerow \<Rightarrow> bool" where
  "rowcompare ck a b =
     (if fRoot a \<and> \<not> fRoot b then True
      else if fRoot b then False
      else rowcompare_cols ck (lppSortKeys a) (lpFlags a) (lppSortKeys b) False)"

section \<open>Counts and rotations\<close>

text \<open>Counter and height of an optional child; a null child counts as zero.\<close>

definition branch :: "keytable \<Rightarrow> nat option \<Rightarrow> (uint32 \<times> uint32) option" where
  "branch s p = (case p of None \<Rightarrow> Some (0, 0)
     | Some a \<Rightarrow> map_option (\<lambda>r. (ulBranchCount r, ulHeight r)) (heap s a))"

fun UpdateCountsN :: "nat \<Rightarrow> nat option \<Rightarrow> keytable \<Rightarrow> keytable option" where
  "UpdateCountsN n None s = Some s"
| "UpdateCountsN 0 (Some a) s = None"
| "UpdateCountsN (Suc n) (Some a) s = do {
     r \<leftarrow> heap s a;
     (lc, lh) \<leftarrow> branch s (lpLeft r);
     (rc, rh) \<leftarrow> branch s (lpRight r);
     let (c, h) = (if a = lpRoot s then (0, 0) else if fHidden r then (0, 1) else (1, 1));
     UpdateCountsN n (lpParent r)
       (s\<lparr>heap := (heap s)(a \<mapsto> r\<lparr>ulBranchCount := c + lc + rc,
            ulHeight := h + (if lh < rh then rh else lh)\<rparr>)\<rparr>)
   }"

definition UpdateCounts :: "nat option \<Rightarrow> keytable \<Rightarrow> keytable option" where
  "UpdateCounts p s = UpdateCountsN (nextptr s) p s"

definition RotateL :: "nat \<Rightarrow> keytable \<Rightarrow> keytable option" where
  "RotateL lpPivot s = do {
     pv \<leftarrow> heap s lpPivot;
     l \<leftarrow> lpLeft pv;
     s \<leftarrow> upd l (\<lambda>r. r\<lparr>lpParent := lpParent pv, fLeft := fLeft pv\<rparr>) s;
     s \<leftarrow> set_leg (lpParent pv) (fLeft pv) (Some l) s;
     lr \<leftarrow> heap s l;
     s \<leftarrow> upd lpPivot (\<lambda>r. r\<lparr>lpLeft := lpRight lr\<rparr>) s;
     s \<leftarrow> upd_ptr (lpRight lr) (\<lambda>r. r\<lparr>fLeft := True, lpParent := Some lpPivot\<rparr>) s;
     s \<leftarrow> upd l (\<lambda>r. r\<lparr>lpRight := Some lpPivot\<rparr>) s;
     s \<leftarrow> upd lpPivot (\<lambda>r. r\<lparr>lpParent := Some l, fLeft := False\<rparr>) s;
     s \<leftarrow> UpdateCounts (Some lpPivot) s;
     UpdateCounts (Some l) s
   }"

definition RotateR :: "nat \<Rightarrow> keytable \<Rightarrow> keytable option" where
  "RotateR lpPivot s = do {
     pv \<leftarrow> heap s lpPivot;
     l \<leftarrow> lpRight pv;
     s \<leftarrow> upd l (\<lambda>r. r\<lparr>lpParent := lpParent pv, fLeft := fLeft pv\<rparr>) s;
     s \<leftarrow> set_leg (lpParent pv) (fLeft pv) (Some l) s;
     lr \<leftarrow> heap s l;
     s \<leftarrow> upd lpPivot (\<lambda>r. r\<lparr>lpRight := lpLeft lr\<rparr>) s;
     s \<leftarrow> upd_ptr (lpLeft lr) (\<lambda>r. r\<lparr>fLeft := False, lpParent := Some lpPivot\<rparr>) s;
     s \<leftarrow> upd l (\<lambda>r. r\<lparr>lpLeft := Some lpPivot\<rparr>) s;
     s \<leftarrow> upd lpPivot (\<lambda>r. r\<lparr>lpParent := Some l, fLeft := True\<rparr>) s;
     s \<leftarrow> UpdateCounts (Some lpPivot) s;
     UpdateCounts (Some l) s
   }"

definition RotateLR :: "nat \<Rightarrow> keytable \<Rightarrow> keytable option" where
  "RotateLR lpPivot s = do {
     pv \<leftarrow> heap s lpPivot;
     s \<leftarrow> RotateR lpPivot s;
     par \<leftarrow> lpParent pv;
     RotateL par s
   }"

definition RotateRL :: "nat \<Rightarrow> keytable \<Rightarrow> keytable option" where
  "RotateRL lpPivot s = do {
     pv \<leftarrow> heap s lpPivot;
     s \<leftarrow> RotateL lpPivot s;
     par \<leftarrow> lpParent pv;
     RotateR par s
   }"

definition GetBalance :: "nat option \<Rightarrow> keytable \<Rightarrow> int option" where
  "GetBalance lpPivot s =
     (case lpPivot of None \<Rightarrow> Some 0
      | Some a \<Rightarrow> do {
          r \<leftarrow> heap s a;
          (_, lh) \<leftarrow> branch s (lpLeft r);
          (_, rh) \<leftarrow> branch s (lpRight r);
          Some (sint (lh - rh))
        })"

definition Restructure :: "nat \<Rightarrow> keytable \<Rightarrow> keytable option" where
  "Restructure lpPivot s = do {
     r \<leftarrow> heap s lpPivot;
     balance \<leftarrow> GetBalance (Some lpPivot) s;
     if 1 < balance then do {
       balance \<leftarrow> GetBalance (lpLeft r) s;
       if 0 \<le> balance then RotateL lpPivot s
       else do { l \<leftarrow> lpLeft r; RotateLR l s }
     }
     else if balance < -1 then do {
       balance \<leftarrow> GetBalance (lpRight r) s;
       if balance \<le> 0 then RotateR lpPivot s
       else do { l \<leftarrow> lpRight r; RotateRL l s }
     }
     else Some s
   }"

fun RestructureRecursiveN :: "nat \<Rightarrow> nat option \<Rightarrow> keytable \<Rightarrow> keytable option" where
  "RestructureRecursiveN n None s = Some s"
| "RestructureRecursiveN 0 (Some a) s = (if a = lpRoot s then Some s else None)"
| "RestructureRecursiveN (Suc n) (Some a) s =
     (if a = lpRoot s then Some s
      else do {
        s \<leftarrow> Restructure a s;
        r \<leftarrow> heap s a;
        RestructureRecursiveN n (lpParent r) s
      })"

definition RestructureRecursive :: "nat option \<Rightarrow> keytable \<Rightarrow> keytable option" where
  "RestructureRecursive p s = RestructureRecursiveN (2 * nextptr s) p s"

section \<open>Positions\<close>

text \<open>The climb of CurrentRow from a row towards the root, adding what lies to its left.\<close>

fun CurrentRowN :: "nat \<Rightarrow> nat option \<Rightarrow> uint32 \<Rightarrow> keytable \<Rightarrow> uint32 option" where
  "CurrentRowN n None cur s = Some cur"
| "CurrentRowN 0 (Some a) cur s = None"
| "CurrentRowN (Suc n) (Some a) cur s = do {
     r \<leftarrow> heap s a;
     (case lpParent r of None \<Rightarrow> Some cur
      | Some p \<Rightarrow>
          (if p = lpRoot s then Some cur
           else do {
             pr \<leftarrow> heap s p;
             CurrentRowN n (Some p)
               (if \<not> fLeft r then cur + (ulBranchCount pr - ulBranchCount r) else cur) s
           }))
   }"

definition CurrentRow :: "nat option \<Rightarrow> keytable \<Rightarrow> uint32 option" where
  "CurrentRow lpRow s =
     (case lpRow of None \<Rightarrow> map_option ulBranchCount (heap s (lpRoot s))
      | Some a \<Rightarrow>
          (if a = lpRoot s then Some 0
           else do {
             r \<leftarrow> heap s a;
             (lc, _) \<leftarrow> branch s (lpLeft r);
             CurrentRowN (nextptr s) (Some a) lc s
           }))"

text \<open>The row count and the cursor position.\<close>

definition GetRowCount :: "keytable \<Rightarrow> (uint32 \<times> uint32) option" where
  "GetRowCount s = do {
     cur \<leftarrow> CurrentRow (lpCurrent s) s;
     root \<leftarrow> heap s (lpRoot s);
     Some (ulBranchCount root, cur)
   }"

definition GetBookmark :: "uint32 \<Rightarrow> keytable \<Rightarrow> (ecresult \<times> uint32 option) option" where
  "GetBookmark ulbkPosition s =
     (case map_of (m_mapBookmarks s) ulbkPosition of
        None \<Rightarrow> Some (KCERR_INVALID_BOOKMARK, None)
      | Some bk \<Rightarrow> do {
          cur \<leftarrow> CurrentRow (lpPosition bk) s;
          Some (if ulFirstRowPosition bk \<noteq> cur then KCWARN_POSITION_CHANGED else erSuccess,
                Some cur)
        })"

definition BOOKMARK_LIMIT :: nat where "BOOKMARK_LIMIT = 100"

definition CreateBookmark :: "keytable \<Rightarrow> (ecresult \<times> uint32 option \<times> keytable) option" where
  "CreateBookmark s =
     (if BOOKMARK_LIMIT \<le> length (m_mapBookmarks s) then Some (KCERR_UNABLE_TO_COMPLETE, None, s)
      else do {
        (_, cur) \<leftarrow> GetRowCount s;
        let bk = m_ulBookmarkPosition s;
        let s = s\<lparr>m_ulBookmarkPosition := bk + 1\<rparr>;
        Some (erSuccess, Some bk,
          (if map_of (m_mapBookmarks s) bk = None
           then s\<lparr>m_mapBookmarks :=
                    (bk, \<lparr>ulFirstRowPosition = cur, lpPosition = lpCurrent s\<rparr>) # m_mapBookmarks s\<rparr>
           else s))
      })"

definition FreeBookmark :: "uint32 \<Rightarrow> keytable \<Rightarrow> ecresult \<times> keytable" where
  "FreeBookmark ulbkPosition s =
     (if map_of (m_mapBookmarks s) ulbkPosition = None then (KCERR_INVALID_BOOKMARK, s)
      else (erSuccess, s\<lparr>m_mapBookmarks := filter (\<lambda>b. fst b \<noteq> ulbkPosition) (m_mapBookmarks s)\<rparr>))"

definition InvalidateBookmark :: "nat \<Rightarrow> keytable \<Rightarrow> keytable" where
  "InvalidateBookmark lpRow s =
     s\<lparr>m_mapBookmarks := filter (\<lambda>b. lpPosition (snd b) \<noteq> Some lpRow) (m_mapBookmarks s)\<rparr>"

section \<open>Moving the cursor\<close>

definition EC_SEEK_SET :: uint32 where "EC_SEEK_SET = 0"
definition EC_SEEK_CUR :: uint32 where "EC_SEEK_CUR = 1"
definition EC_SEEK_END :: uint32 where "EC_SEEK_END = 2"

text \<open>The descent of SeekRow: Some None is "after the end of the table".\<close>

fun SeekRowN :: "nat \<Rightarrow> nat \<Rightarrow> uint32 \<Rightarrow> keytable \<Rightarrow> nat option option" where
  "SeekRowN 0 a lDestRow s = None"
| "SeekRowN (Suc n) a lDestRow s = do {
     r \<leftarrow> heap s a;
     (lc, _) \<leftarrow> branch s (lpLeft r);
     let own = (if fHidden r then 0 else 1);
     if (lpLeft r = None \<and> lDestRow = 0) \<or> (lpLeft r \<noteq> None \<and> lc = lDestRow)
     then Some (Some a)
     else (case (lpLeft r, lpRight r) of
         (None, None) \<Rightarrow> Some None
       | (Some l, None) \<Rightarrow> SeekRowN n l lDestRow s
       | (None, Some rr) \<Rightarrow> SeekRowN n rr (lDestRow - own) s
       | (Some l, Some rr) \<Rightarrow>
           (if lc < lDestRow then SeekRowN n rr (lDestRow - (lc + own)) s
            else SeekRowN n l lDestRow s))
   }"

text \<open>SeekRow returns the code, the rows sought, and the table with its moved cursor.\<close>

definition SeekRow :: "uint32 \<Rightarrow> uint32 \<Rightarrow> keytable \<Rightarrow> (ecresult \<times> uint32 \<times> keytable) option" where
  "SeekRow lbkOrgin lSeekTo s = do {
     (ulRowCount, ulCurrentRow) \<leftarrow> GetRowCount s;
     (er, dest) \<leftarrow>
       (if lbkOrgin = EC_SEEK_SET then Some (erSuccess, Some lSeekTo)
        else if lbkOrgin = EC_SEEK_CUR then Some (erSuccess, Some (ulCurrentRow + lSeekTo))
        else if lbkOrgin = EC_SEEK_END then Some (erSuccess, Some (ulRowCount + lSeekTo))
        else do {
          (er, pos) \<leftarrow> GetBookmark lbkOrgin s;
          if er \<noteq> KCWARN_POSITION_CHANGED \<and> er \<noteq> erSuccess then Some (er, None)
          else Some (er, map_option (\<lambda>p. p + lSeekTo) pos)
        });
     (case dest of None \<Rightarrow> Some (er, 0, s)
      | Some lDestRow \<Rightarrow> do {
          let lDestRow = (if sint lDestRow < 0 then 0 else lDestRow);
          let lDestRow = (if ulRowCount \<le> lDestRow then ulRowCount else lDestRow);
          let lRowsSought =
            (if lbkOrgin = EC_SEEK_SET then lDestRow
             else if lbkOrgin = EC_SEEK_CUR then lDestRow - ulCurrentRow
             else if lbkOrgin = EC_SEEK_END then lDestRow - ulRowCount
             else lDestRow - ulCurrentRow);
          if ulRowCount = 0 then Some (er, lRowsSought, s\<lparr>lpCurrent := Some (lpRoot s)\<rparr>)
          else do {
            root \<leftarrow> heap s (lpRoot s);
            top \<leftarrow> lpRight root;
            p \<leftarrow> SeekRowN (nextptr s) top lDestRow s;
            Some (er, lRowsSought, s\<lparr>lpCurrent := p\<rparr>)
          }
        })
   }"

definition SeekId :: "objkey \<Rightarrow> keytable \<Rightarrow> ecresult \<times> keytable" where
  "SeekId k s =
     (case mapRow s k of None \<Rightarrow> (KCERR_NOT_FOUND, s)
      | Some a \<Rightarrow> (erSuccess, s\<lparr>lpCurrent := Some a\<rparr>))"

text \<open>Leftmost and rightmost row of a branch.\<close>

fun leftmostN :: "nat \<Rightarrow> nat \<Rightarrow> keytable \<Rightarrow> nat option" where
  "leftmostN 0 a s = None"
| "leftmostN (Suc n) a s = do {
     r \<leftarrow> heap s a;
     (case lpLeft r of None \<Rightarrow> Some a | Some l \<Rightarrow> leftmostN n l s)
   }"

fun rightmostN :: "nat \<Rightarrow> nat \<Rightarrow> keytable \<Rightarrow> nat option" where
  "rightmostN 0 a s = None"
| "rightmostN (Suc n) a s = do {
     r \<leftarrow> heap s a;
     (case lpRight r of None \<Rightarrow> Some a | Some l \<Rightarrow> rightmostN n l s)
   }"

text \<open>\<open>while (p && p->fLeft == fl) p = p->lpParent;\<close>\<close>

fun climbN :: "nat \<Rightarrow> bool \<Rightarrow> nat option \<Rightarrow> keytable \<Rightarrow> nat option option" where
  "climbN n fl None s = Some None"
| "climbN 0 fl (Some a) s = None"
| "climbN (Suc n) fl (Some a) s = do {
     r \<leftarrow> heap s a;
     if fLeft r = fl then climbN n fl (lpParent r) s else Some (Some a)
   }"

definition parent_of :: "nat option \<Rightarrow> keytable \<Rightarrow> nat option option" where
  "parent_of p s = (case p of None \<Rightarrow> Some None | Some a \<Rightarrow> map_option lpParent (heap s a))"

definition Next :: "keytable \<Rightarrow> keytable option" where
  "Next s =
     (case lpCurrent s of None \<Rightarrow> Some s
      | Some a \<Rightarrow> do {
          r \<leftarrow> heap s a;
          p \<leftarrow> (case lpRight r of
                 Some rr \<Rightarrow> map_option Some (leftmostN (nextptr s) rr s)
               | None \<Rightarrow> do { q \<leftarrow> climbN (nextptr s) False (Some a) s; parent_of q s });
          Some (s\<lparr>lpCurrent := p\<rparr>)
        })"

definition Prev :: "keytable \<Rightarrow> keytable option" where
  "Prev s =
     (case lpCurrent s of
        None \<Rightarrow> map_option (\<lambda>(_, _, s'). s') (SeekRow EC_SEEK_END (- 1) s)
      | Some a \<Rightarrow> do {
          r \<leftarrow> heap s a;
          p \<leftarrow> (case lpLeft r of
                 Some l \<Rightarrow> map_option Some (rightmostN (nextptr s) l s)
               | None \<Rightarrow> do { q \<leftarrow> climbN (nextptr s) True (Some a) s; parent_of q s });
          Some (s\<lparr>lpCurrent := p\<rparr>)
        })"

end
