(* ===== verification/KeyTableOps.thy ===== *)
theory KeyTableOps
  imports KeyTable
begin

text \<open>
  The public operations of ECKeyTable on top of the pointer primitives of KeyTable:
  inserting, modifying and deleting rows, reading rows, hiding and unhiding the rows of a
  category, searching by sort key, and clearing the table.
\<close>

section \<open>Deleting a row\<close>

text \<open>The subtree-for-row replacement of a row with at most one child.\<close>

definition replace_row :: "ectablerow \<Rightarrow> nat option \<Rightarrow> keytable \<Rightarrow> keytable option" where
  "replace_row row child s = do {
     s \<leftarrow> set_leg (lpParent row) (fLeft row) child s;
     s \<leftarrow> upd_ptr child (\<lambda>r. r\<lparr>lpParent := lpParent row, fLeft := fLeft row\<rparr>) s;
     s \<leftarrow> UpdateCounts (lpParent row) s;
     RestructureRecursive (lpParent row) s
   }"

text \<open>A row with two children is replaced by its predecessor.\<close>

definition replace_by_predecessor :: "nat \<Rightarrow> nat \<Rightarrow> objkey \<Rightarrow> keytable \<Rightarrow> keytable option" where
  "replace_by_predecessor lpRow l k s = do {
     pred \<leftarrow> rightmostN (nextptr s) l s;
     pr \<leftarrow> heap s pred;
     s \<leftarrow> set_leg (lpParent pr) (fLeft pr) (lpLeft pr) s;
     s \<leftarrow> upd_ptr (lpLeft pr) (\<lambda>r. r\<lparr>lpParent := lpParent pr, fLeft := fLeft pr\<rparr>) s;
     row \<leftarrow> heap s lpRow;
     s \<leftarrow> set_leg (lpParent row) (fLeft row) (Some pred) s;
     s \<leftarrow> upd pred (\<lambda>r. r\<lparr>lpParent := lpParent row, fLeft := fLeft row,
                             lpLeft := lpLeft row, lpRight := lpRight row\<rparr>) s;
     s \<leftarrow> upd_ptr (lpLeft row) (\<lambda>r. r\<lparr>lpParent := Some pred\<rparr>) s;
     s \<leftarrow> upd_ptr (lpRight row) (\<lambda>r. r\<lparr>lpParent := Some pred\<rparr>) s;
     s \<leftarrow> UpdateCounts (lpParent pr) s;
     s \<leftarrow> UpdateCounts (Some pred) s;
     s \<leftarrow> RestructureRecursive (Some pred) s;
     pp \<leftarrow> lpParent pr;
     ppr \<leftarrow> heap s pp;
     if sKey ppr \<noteq> k then RestructureRecursive (Some pp) s else Some s
   }"

definition unlink_row :: "nat \<Rightarrow> objkey \<Rightarrow> keytable \<Rightarrow> keytable option" where
  "unlink_row lpRow k s = do {
     row \<leftarrow> heap s lpRow;
     (case (lpLeft row, lpRight row) of
        (None, None) \<Rightarrow> replace_row row None s
      | (Some l, None) \<Rightarrow> replace_row row (Some l) s
      | (None, Some r) \<Rightarrow> replace_row row (Some r) s
      | (Some l, Some r) \<Rightarrow> replace_by_predecessor lpRow l k s)
   }"

text \<open>UpdateRow with TABLE_ROW_DELETE.\<close>

definition UpdateRow_delete :: "objkey \<Rightarrow> keytable \<Rightarrow> (ecresult \<times> keytable) option" where
  "UpdateRow_delete k s =
     (case mapRow s k of None \<Rightarrow> Some (KCERR_NOT_FOUND, s)
      | Some lpRow \<Rightarrow> do {
          s \<leftarrow> unlink_row lpRow k s;
          s \<leftarrow> (if lpCurrent s = Some lpRow then do {
                   (_, _, s) \<leftarrow> SeekRow EC_SEEK_CUR (- 1) s;
                   (_, _, s) \<leftarrow> SeekRow EC_SEEK_CUR 1 s;
                   Some s
                 } else Some s);
          let s = InvalidateBookmark lpRow s;
          Some (erSuccess, s\<lparr>heap := (heap s)(lpRow := None), mapRow := (mapRow s)(k := None)\<rparr>)
        })"

section \<open>Adding and modifying a row\<close>

text \<open>The predecessor that is reported when the row did not move.\<close>

definition unmoved_predecessor :: "nat \<Rightarrow> keytable \<Rightarrow> objkey option" where
  "unmoved_predecessor lpRow s = do {
     row \<leftarrow> heap s lpRow;
     p \<leftarrow> (case lpLeft row of
            Some l \<Rightarrow> map_option Some (rightmostN (nextptr s) l s)
          | None \<Rightarrow> do { q \<leftarrow> climbN (nextptr s) True (Some lpRow) s; parent_of q s });
     (case p of None \<Rightarrow> Some (ObjKey 0 0) | Some a \<Rightarrow> map_option sKey (heap s a))
   }"

text \<open>The binary search for the insertion point: the parent and the side.\<close>

fun find_leafN :: "ckcompare \<Rightarrow> nat \<Rightarrow> ectablerow \<Rightarrow> nat \<Rightarrow> keytable \<Rightarrow> (nat \<times> bool) option" where
  "find_leafN ck 0 new a s = None"
| "find_leafN ck (Suc n) new a s = do {
     r \<leftarrow> heap s a;
     if rowcompare ck new r
     then (case lpLeft r of None \<Rightarrow> Some (a, True) | Some l \<Rightarrow> find_leafN ck n new l s)
     else (case lpRight r of None \<Rightarrow> Some (a, False) | Some rr \<Rightarrow> find_leafN ck n new rr s)
   }"

definition leaf_predecessor :: "nat \<Rightarrow> bool \<Rightarrow> keytable \<Rightarrow> objkey option" where
  "leaf_predecessor lpRow fl s =
     (if fl then do {
        q \<leftarrow> climbN (nextptr s) True (Some lpRow) s;
        p \<leftarrow> parent_of q s;
        (case p of None \<Rightarrow> Some (ObjKey 0 0) | Some a \<Rightarrow> map_option sKey (heap s a))
      } else map_option sKey (heap s lpRow))"

text \<open>Linking a new row object into the tree: the second half of TABLE_ROW_ADD.\<close>

definition link_row :: "ckcompare \<Rightarrow> objkey \<Rightarrow> bytes list \<Rightarrow> byte list option \<Rightarrow> bool \<Rightarrow> keytable \<Rightarrow>
    (nat \<times> objkey \<times> keytable) option" where
  "link_row ck k keys flags hidden s = do {
     let new = new_ECTableRow k keys flags hidden;
     let a = nextptr s;
     (lpRow, fl) \<leftarrow> find_leafN ck (nextptr s) new (lpRoot s) s;
     prev \<leftarrow> leaf_predecessor lpRow fl s;
     let s = s\<lparr>heap := (heap s)(a \<mapsto> new\<lparr>lpParent := Some lpRow, fLeft := fl\<rparr>), nextptr := Suc a\<rparr>;
     s \<leftarrow> set_leg (Some lpRow) fl (Some a) s;
     let s = s\<lparr>mapRow := (mapRow s)(k \<mapsto> a)\<rparr>;
     s \<leftarrow> UpdateCounts (Some a) s;
     s \<leftarrow> RestructureRecursive (Some a) s;
     Some (a, prev, s)
   }"

record updateresult =
  ur_er :: ecresult
  ur_prev :: "objkey option"
  ur_action :: "updatetype option"

text \<open>UpdateRow with TABLE_ROW_ADD or TABLE_ROW_MODIFY.\<close>

definition UpdateRow_add :: "ckcompare \<Rightarrow> objkey \<Rightarrow> bytes list \<Rightarrow> byte list option \<Rightarrow> bool \<Rightarrow> keytable \<Rightarrow>
    (updateresult \<times> keytable) option" where
  "UpdateRow_add ck k keys flags hidden s =
     (case mapRow s k of
        None \<Rightarrow> do {
          (_, prev, s) \<leftarrow> link_row ck k keys flags hidden s;
          Some (\<lparr>ur_er = erSuccess, ur_prev = Some prev, ur_action = Some TABLE_ROW_ADD\<rparr>, s)
        }
      | Some old \<Rightarrow> do {
          let new = new_ECTableRow k keys flags hidden;
          let fRelocateCursor = (lpCurrent s = Some old);
          row \<leftarrow> heap s old;
          if \<not> rowcompare ck row new \<and> \<not> rowcompare ck new row then do {
            prev \<leftarrow> unmoved_predecessor old s;
            Some (\<lparr>ur_er = erSuccess, ur_prev = Some prev, ur_action = Some TABLE_ROW_MODIFY\<rparr>, s)
          }
          else do {
            (er, s) \<leftarrow> UpdateRow_delete k s;
            if er \<noteq> erSuccess
            then Some (\<lparr>ur_er = er, ur_prev = None, ur_action = Some TABLE_ROW_MODIFY\<rparr>, s)
            else do {
              (a, prev, s) \<leftarrow> link_row ck k keys flags hidden s;
              Some (\<lparr>ur_er = erSuccess, ur_prev = Some prev, ur_action = Some TABLE_ROW_MODIFY\<rparr>,
                    if fRelocateCursor then s\<lparr>lpCurrent := Some a\<rparr> else s)
            }
          }
        })"

definition UpdateRow :: "ckcompare \<Rightarrow> updatetype \<Rightarrow> objkey \<Rightarrow> bytes list \<Rightarrow> byte list option \<Rightarrow> bool \<Rightarrow>
    keytable \<Rightarrow> (updateresult \<times> keytable) option" where
  "UpdateRow ck ulType k keys flags hidden s =
     (case ulType of
        TABLE_ROW_DELETE \<Rightarrow> do {
          (er, s) \<leftarrow> UpdateRow_delete k s;
          Some (\<lparr>ur_er = er, ur_prev = None,
                  ur_action = (if er = erSuccess then Some TABLE_ROW_DELETE else None)\<rparr>, s)
        }
      | TABLE_ROW_ADD \<Rightarrow> UpdateRow_add ck k keys flags hidden s
      | TABLE_ROW_MODIFY \<Rightarrow> UpdateRow_add ck k keys flags hidden s
      | _ \<Rightarrow> Some (\<lparr>ur_er = erSuccess, ur_prev = None, ur_action = None\<rparr>, s))"

section \<open>Clearing the table\<close>

text \<open>The depth-first loop that deletes every row but the root.\<close>

fun ClearN :: "nat \<Rightarrow> nat \<Rightarrow> keytable \<Rightarrow> keytable option" where
  "ClearN 0 a s = None"
| "ClearN (Suc n) a s = do {
     r \<leftarrow> heap s a;
     (case lpLeft r of
        Some l \<Rightarrow> ClearN n l s
      | None \<Rightarrow>
          (case lpRight r of
             Some rr \<Rightarrow> ClearN n rr s
           | None \<Rightarrow>
               (if a = lpRoot s then Some s
                else do {
                  p \<leftarrow> lpParent r;
                  s \<leftarrow> set_leg (Some p) (fLeft r) None s;
                  ClearN n p (s\<lparr>heap := (heap s)(a := None)\<rparr>)
                })))
   }"

definition Clear :: "keytable \<Rightarrow> keytable option" where
  "Clear s = do {
     s \<leftarrow> ClearN (2 * nextptr s) (lpRoot s) s;
     s \<leftarrow> upd (lpRoot s) (\<lambda>r. r\<lparr>ulBranchCount := 0\<rparr>) (s\<lparr>lpCurrent := Some (lpRoot s)\<rparr>);
     Some (s\<lparr>mapRow := Map.empty, m_mapBookmarks := []\<rparr>)
   }"

section \<open>Reading rows\<close>

text \<open>
  The loop of QueryRows. Its first argument bounds the number of iterations; each iteration
  moves the cursor by one row or ends the loop.
\<close>

fun QueryRowsN :: "nat \<Rightarrow> uint32 \<Rightarrow> bool \<Rightarrow> bool \<Rightarrow> keytable \<Rightarrow> (objkey list \<times> keytable) option" where
  "QueryRowsN n ulRows back hid s =
     (if ulRows = 0 \<or> lpCurrent s = None then Some ([], s)
      else (case n of 0 \<Rightarrow> None
        | Suc m \<Rightarrow> do {
            r \<leftarrow> deref s (lpCurrent s);
            let show_row = (\<not> fHidden r \<or> hid);
            let ulRows = (if show_row then ulRows - 1 else ulRows);
            root \<leftarrow> heap s (lpRoot s);
            if back \<and> lpCurrent s = lpRight root
            then Some (if show_row then [sKey r] else [], s)
            else do {
              s \<leftarrow> (if back then Prev s else Next s);
              (ks, s) \<leftarrow> QueryRowsN m ulRows back hid s;
              Some (if show_row then sKey r # ks else ks, s)
            }
          }))"

definition EC_TABLE_NOADVANCE :: uint32 where "EC_TABLE_NOADVANCE = 1"

definition QueryRows :: "uint32 \<Rightarrow> bool \<Rightarrow> uint32 \<Rightarrow> bool \<Rightarrow> keytable \<Rightarrow> (objkey list \<times> keytable) option" where
  "QueryRows ulRows bDirBackward ulFlags bShowHidden s = do {
     let lpOrig = lpCurrent s;
     root \<leftarrow> heap s (lpRoot s);
     s \<leftarrow> (if bDirBackward \<and> lpCurrent s = None
           then map_option (\<lambda>(_, _, s'). s') (SeekRow EC_SEEK_CUR (- 1) s)
           else if lpCurrent s = Some (lpRoot s) \<and> ulBranchCount root \<noteq> 0
           then map_option (\<lambda>(_, _, s'). s') (SeekRow EC_SEEK_SET 0 s)
           else Some s);
     let ulRows = (if ulBranchCount root < ulRows then ulBranchCount root else ulRows);
     (ks, s) \<leftarrow> QueryRowsN (Suc (nextptr s)) ulRows bDirBackward bShowHidden s;
     Some (ks, if ulFlags AND EC_TABLE_NOADVANCE \<noteq> 0 then s\<lparr>lpCurrent := lpOrig\<rparr> else s)
   }"

text \<open>\<open>while (lpCurrent && lpCurrent->fHidden)\<close> followed by Prev or Next.\<close>

fun skip_hiddenN :: "nat \<Rightarrow> bool \<Rightarrow> keytable \<Rightarrow> keytable option" where
  "skip_hiddenN n back s =
     (case lpCurrent s of None \<Rightarrow> Some s
      | Some a \<Rightarrow> do {
          r \<leftarrow> heap s a;
          if \<not> fHidden r then Some s
          else (case n of 0 \<Rightarrow> None
            | Suc m \<Rightarrow> do { s \<leftarrow> (if back then Prev s else Next s); skip_hiddenN m back s })
        })"

definition GetPreviousRow :: "objkey \<Rightarrow> keytable \<Rightarrow> (ecresult \<times> objkey option \<times> keytable) option" where
  "GetPreviousRow k s0 =
     (case SeekId k s0 of (er, s) \<Rightarrow>
        if er \<noteq> erSuccess then Some (er, None, s)
        else do {
          s \<leftarrow> Prev s;
          s \<leftarrow> skip_hiddenN (nextptr s) True s;
          let s' = s\<lparr>lpCurrent := lpCurrent s0\<rparr>;
          (case lpCurrent s of
             None \<Rightarrow> Some (KCERR_NOT_FOUND, None, s')
           | Some a \<Rightarrow> do { r \<leftarrow> heap s a; Some (erSuccess, Some (sKey r), s') })
        })"

section \<open>Rows with a common sort prefix\<close>

text \<open>
  The three operations walk from a header row over the rows that do not sort behind its
  sort key. \<open>hdr\<close> is the header's sort data, which the code keeps in local pointers.
\<close>

definition past_prefix :: "ckcompare \<Rightarrow> ectablerow \<Rightarrow> ectablerow \<Rightarrow> bool" where
  "past_prefix ck hdr r =
     rowcompareprefix ck (length (lppSortKeys hdr)) (lppSortKeys hdr) (lpFlags hdr) (lppSortKeys r)"

fun PrefixRowsN :: "ckcompare \<Rightarrow> nat \<Rightarrow> ectablerow \<Rightarrow> keytable \<Rightarrow> (objkey list \<times> keytable) option" where
  "PrefixRowsN ck n hdr s =
     (case lpCurrent s of None \<Rightarrow> Some ([], s)
      | Some a \<Rightarrow> do {
          r \<leftarrow> heap s a;
          if past_prefix ck hdr r then Some ([], s)
          else (case n of 0 \<Rightarrow> None
            | Suc m \<Rightarrow> do {
                s \<leftarrow> Next s;
                (ks, s) \<leftarrow> PrefixRowsN ck m hdr s;
                Some (sKey r # ks, s)
              })
        })"

definition GetRowsBySortPrefix :: "ckcompare \<Rightarrow> objkey \<Rightarrow> keytable \<Rightarrow> (ecresult \<times> objkey list \<times> keytable) option" where
  "GetRowsBySortPrefix ck k s0 =
     (case SeekId k s0 of (er, s) \<Rightarrow>
        if er \<noteq> erSuccess then Some (er, [], s)
        else do {
          hdr \<leftarrow> deref s (lpCurrent s);
          (ks, s) \<leftarrow> PrefixRowsN ck (nextptr s) hdr s;
          Some (erSuccess, ks, s\<lparr>lpCurrent := lpCurrent s0\<rparr>)
        })"

fun HideRowsN :: "ckcompare \<Rightarrow> nat \<Rightarrow> ectablerow \<Rightarrow> nat option \<Rightarrow> keytable \<Rightarrow>
    (objkey list \<times> bool \<times> keytable) option" where
  "HideRowsN ck n hdr lpCursor s =
     (case lpCurrent s of None \<Rightarrow> Some ([], False, s)
      | Some a \<Rightarrow> do {
          r \<leftarrow> heap s a;
          if past_prefix ck hdr r then Some ([], False, s)
          else (case n of 0 \<Rightarrow> None
            | Suc m \<Rightarrow> do {
                s \<leftarrow> upd a (\<lambda>r. r\<lparr>fHidden := True\<rparr>) s;
                s \<leftarrow> UpdateCounts (Some a) s;
                s \<leftarrow> Next s;
                (ks, cursorHidden, s) \<leftarrow> HideRowsN ck m hdr lpCursor s;
                Some (sKey r # ks, lpCursor = Some a \<or> cursorHidden, s)
              })
        })"

definition HideRows :: "ckcompare \<Rightarrow> objkey \<Rightarrow> keytable \<Rightarrow> (ecresult \<times> objkey list \<times> keytable) option" where
  "HideRows ck k s0 =
     (case SeekId k s0 of (er, s) \<Rightarrow>
        if er \<noteq> erSuccess then Some (er, [], s)
        else do {
          hdr \<leftarrow> deref s (lpCurrent s);
          s \<leftarrow> Next s;
          (ks, fCursorHidden, s) \<leftarrow> HideRowsN ck (nextptr s) hdr (lpCurrent s0) s;
          s \<leftarrow> (if \<not> fCursorHidden then Some (s\<lparr>lpCurrent := lpCurrent s0\<rparr>)
                else skip_hiddenN (nextptr s) False s);
          Some (erSuccess, ks, s)
        })"

fun UnhideRowsN :: "ckcompare \<Rightarrow> nat \<Rightarrow> ectablerow \<Rightarrow> nat \<Rightarrow> keytable \<Rightarrow> (objkey list \<times> keytable) option" where
  "UnhideRowsN ck n hdr ulFirstCols s =
     (case lpCurrent s of None \<Rightarrow> Some ([], s)
      | Some a \<Rightarrow> do {
          r \<leftarrow> heap s a;
          if past_prefix ck hdr r then Some ([], s)
          else (case n of 0 \<Rightarrow> None
            | Suc m \<Rightarrow>
                (if length (lppSortKeys r) = ulFirstCols then do {
                   s \<leftarrow> upd a (\<lambda>r. r\<lparr>fHidden := False\<rparr>) s;
                   s \<leftarrow> UpdateCounts (Some a) s;
                   s \<leftarrow> Next s;
                   (ks, s) \<leftarrow> UnhideRowsN ck m hdr ulFirstCols s;
                   Some (sKey r # ks, s)
                 } else do {
                   s \<leftarrow> Next s;
                   UnhideRowsN ck m hdr ulFirstCols s
                 }))
        })"

definition UnhideRows :: "ckcompare \<Rightarrow> objkey \<Rightarrow> keytable \<Rightarrow> (ecresult \<times> objkey list \<times> keytable) option" where
  "UnhideRows ck k s0 =
     (case SeekId k s0 of (er, s) \<Rightarrow>
        if er \<noteq> erSuccess then Some (er, [], s)
        else do {
          hdr \<leftarrow> deref s (lpCurrent s);
          if fHidden hdr then Some (KCERR_NOT_FOUND, [], s)
          else do {
            s \<leftarrow> Next s;
            (case lpCurrent s of
               None \<Rightarrow> Some (erSuccess, [], s)
             | Some a \<Rightarrow> do {
                 r \<leftarrow> heap s a;
                 (ks, s) \<leftarrow> UnhideRowsN ck (nextptr s) hdr (length (lppSortKeys r)) s;
                 Some (erSuccess, ks, s)
               })
          }
        })"

section \<open>Searching by sort key\<close>

fun LowerBoundN :: "ckcompare \<Rightarrow> nat \<Rightarrow> bytes list \<Rightarrow> byte list option \<Rightarrow> nat option \<Rightarrow> keytable \<Rightarrow> keytable option" where
  "LowerBoundN ck n keys flags p s =
     (case p of None \<Rightarrow> Some (s\<lparr>lpCurrent := None\<rparr>)
      | Some a \<Rightarrow> (case n of 0 \<Rightarrow> None
        | Suc m \<Rightarrow> do {
            r \<leftarrow> heap s a;
            if rowcompare_cols ck (lppSortKeys r) (lpFlags r) keys False
            then (case lpRight r of
                    None \<Rightarrow> Next (s\<lparr>lpCurrent := Some a\<rparr>)
                  | Some rr \<Rightarrow> LowerBoundN ck m keys flags (Some rr) s)
            else (case lpLeft r of
                    None \<Rightarrow> Some (s\<lparr>lpCurrent := Some a\<rparr>)
                  | Some l \<Rightarrow> LowerBoundN ck m keys flags (Some l) s)
          }))"

definition LowerBound :: "ckcompare \<Rightarrow> bytes list \<Rightarrow> byte list option \<Rightarrow> keytable \<Rightarrow> keytable option" where
  "LowerBound ck keys flags s = do {
     root \<leftarrow> heap s (lpRoot s);
     LowerBoundN ck (nextptr s) keys flags (lpRight root) s
   }"

definition Find :: "ckcompare \<Rightarrow> bytes list \<Rightarrow> byte list option \<Rightarrow> keytable \<Rightarrow> (ecresult \<times> objkey option \<times> keytable) option" where
  "Find ck keys flags s0 = do {
     s \<leftarrow> LowerBound ck keys flags s0;
     (case lpCurrent s of
        None \<Rightarrow> Some (KCERR_NOT_FOUND, None, s\<lparr>lpCurrent := lpCurrent s0\<rparr>)
      | Some a \<Rightarrow> do {
          r \<leftarrow> heap s a;
          if rowcompare_cols ck keys flags (lppSortKeys r) False
          then Some (KCERR_NOT_FOUND, None, s\<lparr>lpCurrent := lpCurrent s0\<rparr>)
          else Some (erSuccess, Some (sKey r), s\<lparr>lpCurrent := lpCurrent s0\<rparr>)
        })
   }"

text \<open>GetRow hands out the row object and restores the cursor.\<close>

definition GetRow :: "objkey \<Rightarrow> keytable \<Rightarrow> ecresult \<times> nat option \<times> keytable" where
  "GetRow k s0 =
     (case SeekId k s0 of (er, s) \<Rightarrow>
        if er \<noteq> erSuccess then (er, None, s\<lparr>lpCurrent := lpCurrent s0\<rparr>)
        else (er, lpCurrent s, s\<lparr>lpCurrent := lpCurrent s0\<rparr>))"

definition UpdatePartialSortKey :: "ckcompare \<Rightarrow> objkey \<Rightarrow> nat \<Rightarrow> bytes \<Rightarrow> byte \<Rightarrow> keytable \<Rightarrow>
    (updateresult \<times> bool option \<times> keytable) option" where
  "UpdatePartialSortKey ck k ulColumn lpSortData ulFlags s =
     (case GetRow k s of (er, p, s) \<Rightarrow>
        if er \<noteq> erSuccess
        then Some (\<lparr>ur_er = er, ur_prev = None, ur_action = None\<rparr>, None, s)
        else do {
          row \<leftarrow> deref s p;
          if length (lppSortKeys row) \<le> ulColumn
          then Some (\<lparr>ur_er = KCERR_INVALID_PARAMETER, ur_prev = None, ur_action = None\<rparr>, None, s)
          else do {
            flags \<leftarrow> lpFlags row;
            (res, s) \<leftarrow> UpdateRow ck TABLE_ROW_MODIFY k
                         ((lppSortKeys row)[ulColumn := lpSortData])
                         (Some (flags[ulColumn := ulFlags])) (fHidden row) s;
            Some (res, Some (fHidden row), s)
          }
        })"

end
