(* ===== verification/KeyTableRep.thy ===== *)
theory KeyTableRep
  imports KeyTableOps
begin

text \<open>
  What the pointer tree of ECKeyTable represents. \<open>ptree\<close> is a binary tree of row
  addresses; \<open>rep\<close> says that a heap holds such a tree below a pointer with the parent
  pointers and side flags the code keeps; \<open>repc\<close> says the same of the part of the table
  around a subtree (a path to the root object with the sibling trees). \<open>shape\<close> and \<open>KT\<close>
  are the table invariants, without and with the cached counts and heights.
\<close>

datatype ptree = PL | PN ptree nat ptree

type_synonym pctx = "(bool \<times> nat \<times> ptree) list"

fun inord :: "ptree \<Rightarrow> nat list" where
  "inord PL = []"
| "inord (PN l a r) = inord l @ a # inord r"

fun ht :: "ptree \<Rightarrow> nat" where
  "ht PL = 0"
| "ht (PN l a r) = Suc (max (ht l) (ht r))"

fun fill :: "pctx \<Rightarrow> ptree \<Rightarrow> ptree" where
  "fill [] t = t"
| "fill ((d, a, u) # c) t = fill c (if d then PN t a u else PN u a t)"

abbreviation nodes :: "ptree \<Rightarrow> nat set" where "nodes t \<equiv> set (inord t)"

fun cnodes :: "pctx \<Rightarrow> nat set" where
  "cnodes [] = {}"
| "cnodes ((d, a, u) # c) = insert a (nodes u \<union> cnodes c)"

fun cdistinct :: "pctx \<Rightarrow> bool" where
  "cdistinct [] = True"
| "cdistinct ((d, a, u) # c) \<longleftrightarrow>
     distinct (inord u) \<and> a \<notin> nodes u \<and> a \<notin> cnodes c \<and> nodes u \<inter> cnodes c = {} \<and> cdistinct c"

text \<open>Link fields, data fields and cached fields of a row object.\<close>

definition lk where "lk r = (lpParent r, lpLeft r, lpRight r, fLeft r)"
definition dt where "dt r = (sKey r, lppSortKeys r, KeyTable.lpFlags r, fRoot r, fHidden r)"
definition ct where "ct r = (ulBranchCount r, ulHeight r)"

type_synonym rowheap = "nat \<rightharpoonup> ectablerow"

definition hdt :: "rowheap \<Rightarrow> nat \<Rightarrow> _" where "hdt h a = map_option dt (h a)"
definition hlk :: "rowheap \<Rightarrow> nat \<Rightarrow> _" where "hlk h a = map_option lk (h a)"
definition hct :: "rowheap \<Rightarrow> nat \<Rightarrow> _" where "hct h a = map_option ct (h a)"

fun rep :: "rowheap \<Rightarrow> nat option \<Rightarrow> nat option \<Rightarrow> bool \<Rightarrow> ptree \<Rightarrow> bool" where
  "rep h p par fl PL \<longleftrightarrow> p = None"
| "rep h p par fl (PN l a r) \<longleftrightarrow> p = Some a \<and>
     (\<exists>lp rp. hlk h a = Some (par, lp, rp, fl) \<and> rep h lp (Some a) True l \<and> rep h rp (Some a) False r)"

fun repc :: "rowheap \<Rightarrow> nat \<Rightarrow> nat option \<Rightarrow> nat option \<Rightarrow> bool \<Rightarrow> pctx \<Rightarrow> bool" where
  "repc h root p par fl [] \<longleftrightarrow> par = Some root \<and> \<not> fl \<and> hlk h root = Some (None, None, p, False)"
| "repc h root p par fl ((d, a, u) # c) \<longleftrightarrow> par = Some a \<and> fl = d \<and>
     (\<exists>q par' fl'. hlk h a = Some (if d then (par', p, q, fl') else (par', q, p, fl')) \<and>
        rep h q (Some a) (\<not> d) u \<and> repc h root (Some a) par' fl' c)"

definition hid :: "rowheap \<Rightarrow> nat \<Rightarrow> bool" where
  "hid h a = (case h a of None \<Rightarrow> False | Some r \<Rightarrow> fHidden r)"

definition vis :: "rowheap \<Rightarrow> nat list \<Rightarrow> nat" where
  "vis h xs = length (filter (\<lambda>a. \<not> hid h a) xs)"

fun cntok :: "rowheap \<Rightarrow> ptree \<Rightarrow> bool" where
  "cntok h PL = True"
| "cntok h (PN l a r) \<longleftrightarrow>
     hct h a = Some (of_nat (vis h (inord (PN l a r))), of_nat (ht (PN l a r))) \<and> cntok h l \<and> cntok h r"

text \<open>The counts of the siblings along a path.\<close>

definition sibok :: "rowheap \<Rightarrow> pctx \<Rightarrow> bool" where
  "sibok h c \<longleftrightarrow> (\<forall>(d, a, u) \<in> set c. cntok h u)"

section \<open>Frame lemmas\<close>

lemma hid_hdt: "hdt h a = hdt h' a \<Longrightarrow> hid h a = hid h' a"
  by (auto simp: hid_def hdt_def dt_def split: option.splits)

lemma vis_simps [simp]:
  "vis h [] = 0" "vis h (a # xs) = (if hid h a then 0 else 1) + vis h xs" "vis h (xs @ ys) = vis h xs + vis h ys"
  by (auto simp: vis_def)

lemma vis_cong: "(\<And>a. a \<in> set xs \<Longrightarrow> hdt h a = hdt h' a) \<Longrightarrow> vis h xs = vis h' xs"
  unfolding vis_def by (metis (no_types, lifting) filter_cong hid_hdt)

lemma rep_cong: "(\<And>a. a \<in> nodes t \<Longrightarrow> hlk h a = hlk h' a) \<Longrightarrow> rep h p par fl t = rep h' p par fl t"
  by (induction t arbitrary: p par fl) auto

lemma repc_cong:
  "(\<And>a. a \<in> insert root (cnodes c) \<Longrightarrow> hlk h a = hlk h' a) \<Longrightarrow> repc h root p par fl c = repc h' root p par fl c"
proof (induction c arbitrary: p par fl)
  case (Cons x c)
  obtain d a u where x: "x = (d, a, u)" by (cases x)
  have "rep h q par fl u = rep h' q par fl u" for q par fl
    using Cons.prems by (intro rep_cong) (auto simp: x)
  moreover have "repc h root q par fl c = repc h' root q par fl c" for q par fl
    using Cons.prems by (intro Cons.IH) (auto simp: x)
  moreover have "hlk h a = hlk h' a" using Cons.prems by (auto simp: x)
  ultimately show ?case by (simp add: x)
qed auto

lemma cntok_cong:
  "(\<And>a. a \<in> nodes t \<Longrightarrow> hct h a = hct h' a \<and> hdt h a = hdt h' a) \<Longrightarrow> cntok h t = cntok h' t"
proof (induction t)
  case (PN l a r)
  have "vis h (inord l) = vis h' (inord l)" "vis h (inord r) = vis h' (inord r)" "hid h a = hid h' a"
    using PN.prems by (auto intro!: vis_cong hid_hdt)
  with PN show ?case by simp
qed simp

lemma sibok_cong:
  "(\<And>a. a \<in> cnodes c \<Longrightarrow> hct h a = hct h' a \<and> hdt h a = hdt h' a) \<Longrightarrow> sibok h c = sibok h' c"
proof (induction c)
  case (Cons x c)
  obtain d a u where x: "x = (d, a, u)" by (cases x)
  have "cntok h u = cntok h' u" using Cons.prems by (intro cntok_cong) (auto simp: x)
  with Cons show ?case by (auto simp: sibok_def x)
qed (simp add: sibok_def)

section \<open>Paths\<close>

lemma fill_append: "fill (c @ c') t = fill c' (fill c t)"
  by (induction c t rule: fill.induct) auto

lemma nodes_fill: "nodes (fill c t) = nodes t \<union> cnodes c"
  by (induction c t rule: fill.induct) auto

lemma distinct_fill:
  "distinct (inord (fill c t)) \<longleftrightarrow> distinct (inord t) \<and> cdistinct c \<and> nodes t \<inter> cnodes c = {}"
  by (induction c t rule: fill.induct) (auto simp: nodes_fill)

fun cbefore :: "pctx \<Rightarrow> nat list" where
  "cbefore [] = []"
| "cbefore ((d, a, u) # c) = cbefore c @ (if d then [] else inord u @ [a])"

fun cafter :: "pctx \<Rightarrow> nat list" where
  "cafter [] = []"
| "cafter ((d, a, u) # c) = (if d then a # inord u else []) @ cafter c"

lemma inord_fill: "inord (fill c t) = cbefore c @ inord t @ cafter c"
  by (induction c t rule: fill.induct) auto

text \<open>A table is a tree below the root object exactly when every split of it is.\<close>

lemma rep_fill:
  "(\<exists>p. rep h p (Some root) False (fill c t) \<and> repc h root p (Some root) False []) \<longleftrightarrow>
   (\<exists>p par fl. rep h p par fl t \<and> repc h root p par fl c)"
proof (induction c t rule: fill.induct)
  case (2 d a u c t)
  show ?case
    unfolding fill.simps 2 by (cases d) (auto; metis)+
qed auto

lemma repc_unique: "repc h root p par fl c \<Longrightarrow> repc h root p par' fl' c \<Longrightarrow> par = par' \<and> fl = fl'"
  by (cases c) auto

section \<open>Counts\<close>

lemma ht_le: "ht t \<le> length (inord t)"
  by (induction t) auto

lemma of_nat_max32:
  assumes "x < 2 ^ 32" "y < 2 ^ 32"
  shows "(if (of_nat x :: uint32) < of_nat y then of_nat y else of_nat x :: uint32) = of_nat (max x y)"
proof -
  have "unat (of_nat x :: uint32) = x" "unat (of_nat y :: uint32) = y"
    using assms by (simp_all add: unat_of_nat)
  then show ?thesis by (auto simp: word_less_nat_alt max_def)
qed

text \<open>One step of the climb at a row object.\<close>

lemma UpdateCountsN_step:
  assumes "heap s a = Some r" "a \<noteq> lpRoot s"
    and "branch s (lpLeft r) = Some (of_nat lc, of_nat lh)" "branch s (lpRight r) = Some (of_nat rc, of_nat rh)"
    and "lh < 2 ^ 32" "rh < 2 ^ 32"
  shows "UpdateCountsN (Suc m) (Some a) s = UpdateCountsN m (lpParent r)
     (s\<lparr>heap := (heap s)(a \<mapsto> r\<lparr>ulBranchCount := of_nat ((if fHidden r then 0 else 1) + lc + rc),
                             ulHeight := of_nat (Suc (max lh rh))\<rparr>)\<rparr>)"
  using assms of_nat_max32 [OF assms(5,6)] by (simp add: add.assoc)

lemma branch_rep:
  "rep h p par fl t \<Longrightarrow> cntok h t \<Longrightarrow> heap s = h \<Longrightarrow>
   branch s p = Some (of_nat (vis h (inord t)), of_nat (ht t))"
  by (cases t) (auto simp: branch_def hct_def ct_def)

definition rootcnt :: "rowheap \<Rightarrow> nat \<Rightarrow> ptree \<Rightarrow> bool" where
  "rootcnt h root T \<longleftrightarrow> map_option fst (hct h root) = Some (of_nat (vis h (inord T)))"

lemma hlk_Some: "hlk h a = Some x \<Longrightarrow> \<exists>r. h a = Some r \<and> lk r = x"
  by (auto simp: hlk_def)

lemma kt_heap_upd:
  "heap (s\<lparr>heap := h\<rparr>) = h" "lpRoot (s\<lparr>heap := h\<rparr>) = lpRoot s" "nextptr (s\<lparr>heap := h\<rparr>) = nextptr s"
  "lpCurrent (s\<lparr>heap := h\<rparr>) = lpCurrent s" "mapRow (s\<lparr>heap := h\<rparr>) = mapRow s" "s\<lparr>heap := h, heap := h'\<rparr> = s\<lparr>heap := h'\<rparr>"
  by simp_all

lemma UpdateCountsN_ok:
  assumes "repc (heap s) root p par fl c" "rep (heap s) p par fl t"
    and "cntok (heap s) t" "sibok (heap s) c" "distinct (inord (fill c t))" "root \<notin> nodes (fill c t)"
    and "root = lpRoot s" "length c < n" "length (inord (fill c t)) < 2 ^ 32"
  shows "\<exists>h'. UpdateCountsN n par s = Some (s\<lparr>heap := h'\<rparr>) \<and> hlk h' = hlk (heap s) \<and> hdt h' = hdt (heap s) \<and>
     cntok h' (fill c t) \<and> rootcnt h' root (fill c t)"
  using assms
proof (induction c arbitrary: s p par fl t n)
  case Nil
  then obtain m where n: "n = Suc m" by (cases n) auto
  from Nil.prems obtain r where r: "heap s root = Some r" "lk r = (None, None, p, False)"
    by (auto dest: hlk_Some)
  have bp: "branch s p = Some (of_nat (vis (heap s) (inord t)), of_nat (ht t))"
    using Nil.prems by (intro branch_rep) auto
  let ?r = "r\<lparr>ulBranchCount := of_nat (vis (heap s) (inord t)), ulHeight := (if 0 < (of_nat (ht t) :: uint32) then of_nat (ht t) else 0)\<rparr>"
  let ?h = "(heap s)(root \<mapsto> ?r)"
  have "UpdateCountsN n par s = Some (s\<lparr>heap := ?h\<rparr>)"
    using r bp Nil.prems by (simp add: n lk_def branch_def)
  moreover have lk: "hlk ?h = hlk (heap s)" and dt: "hdt ?h = hdt (heap s)"
    using r by (auto simp: hlk_def hdt_def lk_def dt_def fun_eq_iff)
  moreover have "cntok ?h t"
    using Nil.prems by (subst cntok_cong [of t ?h "heap s"]) (auto simp: hct_def hdt_def)
  moreover have "rootcnt ?h root t"
    using vis_cong [of "inord t" ?h "heap s"] dt by (simp add: rootcnt_def hct_def ct_def)
  ultimately show ?case by auto
next
  case (Cons x c)
  obtain d a u where x: "x = (d, a, u)" by (cases x)
  from Cons.prems obtain m where n: "n = Suc m" "length c < m" by (cases n) auto
  from Cons.prems(1) obtain q par' fl' where par: "par = Some a" and fl: "fl = d"
    and lka: "hlk (heap s) a = Some (if d then (par', p, q, fl') else (par', q, p, fl'))"
    and repu: "rep (heap s) q (Some a) (\<not> d) u" and repc: "repc (heap s) root (Some a) par' fl' c"
    by (auto simp: x)
  then obtain r where r: "heap s a = Some r" "lk r = (if d then (par', p, q, fl') else (par', q, p, fl'))"
    by (auto dest: hlk_Some)
  let ?t = "if d then PN t a u else PN u a t"
  have fill: "fill (x # c) t = fill c ?t" by (simp add: x)
  have dist: "distinct (inord ?t)" "nodes ?t \<inter> cnodes c = {}" "cdistinct c" "a \<notin> nodes t" "a \<notin> nodes u" "a \<notin> cnodes c"
    using Cons.prems(5) unfolding fill distinct_fill by (auto split: if_splits)
  have aroot: "a \<noteq> root" using Cons.prems(6) unfolding fill nodes_fill by (auto split: if_splits)
  have small: "ht t < 2 ^ 32" "ht u < 2 ^ 32"
  proof -
    have "length (inord t) + length (inord u) \<le> length (inord (fill c ?t))"
      by (simp add: inord_fill)
    then show "ht t < 2 ^ 32" "ht u < 2 ^ 32"
      using Cons.prems(9) ht_le [of t] ht_le [of u] unfolding fill by linarith+
  qed
  have bt: "branch s p = Some (of_nat (vis (heap s) (inord t)), of_nat (ht t))"
    using Cons.prems by (intro branch_rep) auto
  have bu: "branch s q = Some (of_nat (vis (heap s) (inord u)), of_nat (ht u))"
    using Cons.prems repu by (intro branch_rep) (auto simp: sibok_def x)
  let ?cnt = "of_nat (vis (heap s) (inord ?t)) :: uint32" and ?ht = "of_nat (ht ?t) :: uint32"
  let ?h = "(heap s)(a \<mapsto> r\<lparr>ulBranchCount := ?cnt, ulHeight := ?ht\<rparr>)"
  have hid: "hid (heap s) a = fHidden r" using r by (simp add: hid_def)
  have ar: "a \<noteq> lpRoot s" using aroot Cons.prems(7) by simp
  have step: "UpdateCountsN n par s = UpdateCountsN m par' (s\<lparr>heap := ?h\<rparr>)"
  proof (cases d)
    case True
    then have l: "lpLeft r = p" "lpRight r = q" "lpParent r = par'" using r(2) by (simp_all add: lk_def)
    have "?cnt = of_nat ((if fHidden r then 0 else 1) + vis (heap s) (inord t) + vis (heap s) (inord u))"
      "?ht = of_nat (Suc (max (ht t) (ht u)))"
      using True by (simp_all add: hid)
    then show ?thesis
      unfolding n par using UpdateCountsN_step [OF r(1) ar, of "vis (heap s) (inord t)" "ht t" "vis (heap s) (inord u)" "ht u" m]
      bt bu small by (simp only: l)
  next
    case False
    then have l: "lpLeft r = q" "lpRight r = p" "lpParent r = par'" using r(2) by (simp_all add: lk_def)
    have "?cnt = of_nat ((if fHidden r then 0 else 1) + vis (heap s) (inord u) + vis (heap s) (inord t))"
      "?ht = of_nat (Suc (max (ht u) (ht t)))"
      using False by (simp_all add: hid)
    then show ?thesis
      unfolding n par using UpdateCountsN_step [OF r(1) ar, of "vis (heap s) (inord u)" "ht u" "vis (heap s) (inord t)" "ht t" m]
      bt bu small by (simp only: l)
  qed
  have lk: "hlk ?h = hlk (heap s)" and dt: "hdt ?h = hdt (heap s)"
    using r by (auto simp: hlk_def hdt_def lk_def dt_def fun_eq_iff)
  have ct: "hct ?h b = hct (heap s) b" if "b \<noteq> a" for b using that by (simp add: hct_def)
  have visq: "vis ?h xs = vis (heap s) xs" for xs by (rule vis_cong) (simp add: dt)
  have "cntok ?h t = cntok (heap s) t" using dist(4) ct dt by (intro cntok_cong) metis
  moreover have "cntok ?h u = cntok (heap s) u" using dist(5) ct dt by (intro cntok_cong) metis
  moreover have "cntok (heap s) u" "sibok (heap s) c" using Cons.prems(4) by (auto simp: sibok_def x)
  ultimately have cnt: "cntok ?h t" "cntok ?h u" "sibok (heap s) c"
    using Cons.prems(3) by (simp_all only:)
  have "hct ?h a = Some (of_nat (vis ?h (inord ?t)), of_nat (ht ?t))"
    unfolding visq by (simp add: hct_def ct_def del: of_nat_Suc of_nat_add vis_simps ht.simps inord.simps)
  with cnt(1,2) have ctt: "cntok ?h ?t" by (cases d) (simp_all only: cntok.simps if_True if_False simp_thms)
  have "sibok ?h c = sibok (heap s) c" using dist(6) ct dt by (intro sibok_cong) metis
  with cnt have sib: "sibok ?h c" by (simp only:)
  have repq: "rep ?h q par fl v = rep (heap s) q par fl v" for q par fl v by (rule rep_cong) (simp add: lk)
  have repcq: "repc ?h root (Some a) par' fl' c" using repc repc_cong [of root c ?h "heap s"] lk by (simp only:)
  have rept: "rep ?h (Some a) par' fl' ?t"
    unfolding repq using lka repu Cons.prems(2) par fl by (cases d) auto
  have "\<exists>h'. UpdateCountsN m par' (s\<lparr>heap := ?h\<rparr>) = Some (s\<lparr>heap := ?h, heap := h'\<rparr>) \<and>
      hlk h' = hlk (heap (s\<lparr>heap := ?h\<rparr>)) \<and> hdt h' = hdt (heap (s\<lparr>heap := ?h\<rparr>)) \<and>
      cntok h' (fill c ?t) \<and> rootcnt h' root (fill c ?t)"
    by (rule Cons.IH [where p = "Some a" and fl = fl'])
      (use repcq rept ctt sib n Cons.prems(5-9) in \<open>simp_all only: fill kt_heap_upd length_Cons Suc_less_eq not_False_eq_True\<close>)
  then show ?case unfolding step by (simp only: lk dt fill kt_heap_upd)
qed

section \<open>The table invariant\<close>

text \<open>
  \<open>shape s T\<close>: the row objects below the root object form the tree T, with parent pointers
  and sides as the code maintains them; addresses are in use; only the root object is
  marked as root. \<open>counted\<close>: every cached counter and height is what it should be.
\<close>

definition shape :: "keytable \<Rightarrow> ptree \<Rightarrow> bool" where
  "shape s T \<longleftrightarrow>
     (\<exists>p. hlk (heap s) (lpRoot s) = Some (None, None, p, False) \<and> rep (heap s) p (Some (lpRoot s)) False T) \<and>
     distinct (lpRoot s # inord T) \<and> (\<forall>a \<in> set (lpRoot s # inord T). a < nextptr s) \<and>
     nextptr s < 2 ^ 31"

definition counted :: "keytable \<Rightarrow> ptree \<Rightarrow> bool" where
  "counted s T \<longleftrightarrow> cntok (heap s) T \<and> rootcnt (heap s) (lpRoot s) T"

lemma shape_length: "shape s T \<Longrightarrow> length (inord T) < nextptr s"
proof -
  assume a: "shape s T"
  then have "set (lpRoot s # inord T) \<subseteq> {..<nextptr s}" by (auto simp: shape_def)
  then have "card (set (lpRoot s # inord T)) \<le> nextptr s" using card_mono [OF finite_lessThan] by fastforce
  then show ?thesis using a distinct_card [of "lpRoot s # inord T"] by (simp add: shape_def)
qed

lemma shape_split:
  "shape s (fill c t) \<longleftrightarrow>
     (\<exists>p par fl. rep (heap s) p par fl t \<and> repc (heap s) (lpRoot s) p par fl c) \<and>
     distinct (lpRoot s # inord (fill c t)) \<and> (\<forall>a \<in> set (lpRoot s # inord (fill c t)). a < nextptr s) \<and>
     nextptr s < 2 ^ 31"
  using rep_fill [of "heap s" "lpRoot s" c t] by (auto simp: shape_def)

lemma cntok_fill: "cntok h (fill c t) \<Longrightarrow> cntok h t \<and> sibok h c"
proof (induction c t rule: fill.induct)
  case (2 d a u c t)
  then show ?case by (cases d) (simp_all add: sibok_def del: vis_simps of_nat_Suc)
qed (simp add: sibok_def)

lemma length_ctx: "length c \<le> length (cbefore c) + length (cafter c)"
  by (induction c rule: cbefore.induct) auto

lemma length_ctx_le: "length c \<le> length (inord (fill c t))"
  using length_ctx [of c] by (simp add: inord_fill)

text \<open>UpdateCounts from the parent of a subtree restores all counts.\<close>

lemma UpdateCounts_ctx:
  assumes "shape s (fill c t)" "repc (heap s) (lpRoot s) p par fl c" "rep (heap s) p par fl t"
    and "cntok (heap s) t" "sibok (heap s) c"
  shows "\<exists>h'. UpdateCounts par s = Some (s\<lparr>heap := h'\<rparr>) \<and> hlk h' = hlk (heap s) \<and> hdt h' = hdt (heap s) \<and>
     shape (s\<lparr>heap := h'\<rparr>) (fill c t) \<and> counted (s\<lparr>heap := h'\<rparr>) (fill c t)"
proof -
  have len: "length c < nextptr s" "length (inord (fill c t)) < 2 ^ 32"
    using length_ctx_le [of c t] shape_length [OF assms(1)] assms(1) by (auto simp: shape_def)
  obtain h' where h': "UpdateCountsN (nextptr s) par s = Some (s\<lparr>heap := h'\<rparr>)" "hlk h' = hlk (heap s)"
    "hdt h' = hdt (heap s)" "cntok h' (fill c t)" "rootcnt h' (lpRoot s) (fill c t)"
    using UpdateCountsN_ok [OF assms(2-5) _ _ _ len] assms(1) by (auto simp: shape_def)
  have "rep h' p' par' fl' T = rep (heap s) p' par' fl' T" for p' par' fl' T by (rule rep_cong) (simp add: h'(2))
  then have "shape (s\<lparr>heap := h'\<rparr>) (fill c t)" using assms(1) by (simp add: shape_def h'(2))
  with h' show ?thesis by (auto simp: UpdateCounts_def counted_def)
qed

text \<open>UpdateCounts from the node of a subtree whose children are counted.\<close>

lemma UpdateCounts_node:
  assumes "shape s (fill c (PN l a r))" "cntok (heap s) l" "cntok (heap s) r" "sibok (heap s) c"
  shows "\<exists>h'. UpdateCounts (Some a) s = Some (s\<lparr>heap := h'\<rparr>) \<and> hlk h' = hlk (heap s) \<and> hdt h' = hdt (heap s) \<and>
     shape (s\<lparr>heap := h'\<rparr>) (fill c (PN l a r)) \<and> counted (s\<lparr>heap := h'\<rparr>) (fill c (PN l a r))"
proof -
  obtain p par fl where r: "rep (heap s) p par fl (PN l a r)" "repc (heap s) (lpRoot s) p par fl c"
    using assms(1) unfolding shape_split by blast
  from r(1) obtain lp rp where l: "p = Some a" "hlk (heap s) a = Some (par, lp, rp, fl)"
    "rep (heap s) lp (Some a) True l" "rep (heap s) rp (Some a) False r" by auto
  have "fill ((True, a, r) # c) l = fill c (PN l a r)" by simp
  moreover have "repc (heap s) (lpRoot s) lp (Some a) True ((True, a, r) # c)" using l r by auto
  moreover have "sibok (heap s) ((True, a, r) # c)" using assms by (auto simp: sibok_def)
  ultimately show ?thesis
    using UpdateCounts_ctx [of s "(True, a, r) # c" l lp "Some a" True] assms l by auto
qed

end
