(* ===== verification/KeyTableAvl.thy ===== *)
theory KeyTableAvl
  imports KeyTableRep
begin

text \<open>
  The rotations of ECKeyTable and what they do to the represented tree: links, counters,
  heights and in-order sequence, and the AVL balance that RestructureRecursive restores
  after an insertion.
\<close>

section \<open>Link updates\<close>

definition linked where
  "linked s L s' \<longleftrightarrow> (\<exists>h'. s' = s\<lparr>heap := h'\<rparr> \<and> hlk h' = L \<and> hdt h' = hdt (heap s) \<and> hct h' = hct (heap s))"

lemma linked_refl: "linked s (hlk (heap s)) s"
  by (auto simp: linked_def intro: exI [of _ "heap s"])

lemma linked_heap: "linked s L s' \<Longrightarrow> hlk (heap s') = L \<and> hdt (heap s') = hdt (heap s) \<and> hct (heap s') = hct (heap s)
   \<and> lpRoot s' = lpRoot s \<and> nextptr s' = nextptr s"
  by (auto simp: linked_def)

lemma linked_row: "linked s L s' \<Longrightarrow> L a = Some (p, l, r, f) \<Longrightarrow>
   \<exists>row. heap s' a = Some row \<and> lpParent row = p \<and> lpLeft row = l \<and> lpRight row = r \<and> fLeft row = f"
  by (auto simp: linked_def dest!: hlk_Some) (auto simp: lk_def)

lemma upd_linked:
  assumes "linked s L s1" "L a = Some x" "\<And>r. lk (f r) = g (lk r)" "\<And>r. dt (f r) = dt r" "\<And>r. ct (f r) = ct r"
  shows "\<exists>s2. upd a f s1 = Some s2 \<and> linked s (L(a \<mapsto> g x)) s2"
proof -
  from assms(1) obtain h where h: "s1 = s\<lparr>heap := h\<rparr>" "hlk h = L" "hdt h = hdt (heap s)" "hct h = hct (heap s)"
    by (auto simp: linked_def)
  then obtain r where r: "h a = Some r" "lk r = x" using assms(2) by (auto dest: hlk_Some)
  have "hlk (h(a \<mapsto> f r)) = (hlk h)(a \<mapsto> g x)" "hdt (h(a \<mapsto> f r)) = hdt h" "hct (h(a \<mapsto> f r)) = hct h"
    using r assms(3-5) by (auto simp: hlk_def hdt_def hct_def)
  then have "hlk (h(a \<mapsto> f r)) = L(a \<mapsto> g x)" "hdt (h(a \<mapsto> f r)) = hdt (heap s)" "hct (h(a \<mapsto> f r)) = hct (heap s)"
    using h by simp_all
  then show ?thesis using r h by (auto simp: upd_def linked_def)
qed

lemma upd_parent:
  assumes "linked s L s1" "L a = Some (p, l, r, f)"
  shows "\<exists>s2. upd a (\<lambda>r. r\<lparr>lpParent := q, fLeft := b\<rparr>) s1 = Some s2 \<and> linked s (L(a \<mapsto> (q, l, r, b))) s2"
    "\<exists>s2. upd a (\<lambda>r. r\<lparr>fLeft := b, lpParent := q\<rparr>) s1 = Some s2 \<and> linked s (L(a \<mapsto> (q, l, r, b))) s2"
  using upd_linked [OF assms, of _ "\<lambda>(_, l, r, _). (q, l, r, b)"] by (simp_all add: lk_def dt_def ct_def)

lemma upd_leg:
  assumes "linked s L s1" "L a = Some (p, l, r, f)"
  shows "\<exists>s2. upd a (\<lambda>r. r\<lparr>lpLeft := v\<rparr>) s1 = Some s2 \<and> linked s (L(a \<mapsto> (p, v, r, f))) s2"
    "\<exists>s2. upd a (\<lambda>r. r\<lparr>lpRight := v\<rparr>) s1 = Some s2 \<and> linked s (L(a \<mapsto> (p, l, v, f))) s2"
    "\<exists>s2. set_leg (Some a) d v s1 = Some s2 \<and> linked s (L(a \<mapsto> (p, if d then v else l, if d then r else v, f))) s2"
  using upd_linked [OF assms, of _ "\<lambda>(p, l, r, f). (p, v, r, f)"] upd_linked [OF assms, of _ "\<lambda>(p, l, r, f). (p, l, v, f)"]
  by (auto simp: lk_def dt_def ct_def set_leg_def)

lemma upd_ptr_parent:
  assumes "linked s L s1" "case b of None \<Rightarrow> True | Some a \<Rightarrow> L a = Some (p, l, r, f)"
  shows "\<exists>s2. upd_ptr b (\<lambda>r. r\<lparr>fLeft := d, lpParent := q\<rparr>) s1 = Some s2 \<and>
     linked s (case b of None \<Rightarrow> L | Some a \<Rightarrow> L(a \<mapsto> (q, l, r, d))) s2"
  using assms upd_parent(2) [OF assms(1)] by (auto simp: upd_ptr_def split: option.splits)

section \<open>Reattaching subtrees\<close>

lemma rep_reparent:
  assumes "rep h p par fl t" "distinct (inord t)"
    and "\<And>a. a \<in> nodes t \<Longrightarrow> hlk h' a = (if Some a = p then map_option (\<lambda>(_, l, r, _). (par', l, r, fl')) (hlk h a) else hlk h a)"
  shows "rep h' p par' fl' t"
proof (cases t)
  case (PN l a r)
  then obtain lp rp where x: "p = Some a" "hlk h a = Some (par, lp, rp, fl)" "rep h lp (Some a) True l" "rep h rp (Some a) False r"
    using assms(1) by auto
  have same: "hlk h' b = hlk h b" if "b \<in> nodes l \<union> nodes r" for b
    using assms(2) assms(3) [of b] that x(1) PN by auto
  then have "rep h' lp (Some a) True l = rep h lp (Some a) True l" "rep h' rp (Some a) False r = rep h rp (Some a) False r"
    by (auto intro!: rep_cong simp del: Un_iff)
  then show ?thesis using x PN assms(3) [of a] by simp
qed (use assms in auto)

lemma repc_par: "repc h root p par fl c \<Longrightarrow> \<exists>q x. par = Some q \<and> q \<in> insert root (cnodes c) \<and> hlk h q = Some x"
  by (cases c) auto

lemma repc_leg:
  assumes "repc h root p par fl c" "cdistinct c" "root \<notin> cnodes c"
    and "\<And>a. a \<in> insert root (cnodes c) \<Longrightarrow> hlk h' a =
       (if Some a = par then map_option (\<lambda>(q, l, r, f). (q, if fl then v else l, if fl then r else v, f)) (hlk h a) else hlk h a)"
  shows "repc h' root v par fl c"
proof (cases c)
  case (Cons x c')
  obtain d a u where x: "x = (d, a, u)" by (cases x)
  from assms(1) obtain q par' fl' where y: "par = Some a" "fl = d"
    "hlk h a = Some (if d then (par', p, q, fl') else (par', q, p, fl'))" "rep h q (Some a) (\<not> d) u" "repc h root (Some a) par' fl' c'"
    by (auto simp: Cons x)
  have "rep h' q (Some a) (\<not> d) u = rep h q (Some a) (\<not> d) u"
    using assms(2,3,4) by (intro rep_cong) (auto simp: Cons x y)
  moreover have "repc h' root (Some a) par' fl' c' = repc h root (Some a) par' fl' c'"
    using assms(2,3,4) by (intro repc_cong) (auto simp: Cons x y)
  ultimately show ?thesis using y assms(4) [of a] by (auto simp: Cons x)
qed (use assms in auto)

section \<open>Rotations\<close>

lemma rotated_shape:
  assumes sh: "shape s (fill c T)" and dn: "distinct (inord T')" and nd: "nodes T' = nodes T" and ln: "linked s L s'"
    and rep: "rep (heap s') (Some t) par fl T'" and repc: "repc (heap s') (lpRoot s) (Some t) par fl c"
  shows "shape s' (fill c T')"
proof -
  have "distinct (inord (fill c T')) \<longleftrightarrow> distinct (inord (fill c T))" "nodes (fill c T') = nodes (fill c T)"
    using dn nd sh unfolding distinct_fill nodes_fill shape_def by (auto simp: distinct_fill)
  with assms linked_heap [OF ln] show ?thesis unfolding shape_split by (auto simp del: inord_fill)
qed

text \<open>RotateL and RotateR are mirror images: one proof with the side as a parameter.\<close>

definition PD :: "bool \<Rightarrow> ptree \<Rightarrow> nat \<Rightarrow> ptree \<Rightarrow> ptree" where
  "PD d x a y = (if d then PN x a y else PN y a x)"

definition lkd where
  "lkd d par x y fl = (par, if d then x else y :: nat option, if d then y else x :: nat option, fl :: bool)"

definition leg where "leg d r = (if d then lpLeft r else lpRight r)"

definition rotd :: "bool \<Rightarrow> nat \<Rightarrow> keytable \<Rightarrow> keytable option" where
  "rotd d lpPivot s = do {
     pv \<leftarrow> heap s lpPivot;
     l \<leftarrow> leg d pv;
     s \<leftarrow> upd l (\<lambda>r. r\<lparr>lpParent := lpParent pv, fLeft := fLeft pv\<rparr>) s;
     s \<leftarrow> set_leg (lpParent pv) (fLeft pv) (Some l) s;
     lr \<leftarrow> heap s l;
     s \<leftarrow> set_leg (Some lpPivot) d (leg (\<not> d) lr) s;
     s \<leftarrow> upd_ptr (leg (\<not> d) lr) (\<lambda>r. r\<lparr>fLeft := d, lpParent := Some lpPivot\<rparr>) s;
     s \<leftarrow> set_leg (Some l) (\<not> d) (Some lpPivot) s;
     s \<leftarrow> upd lpPivot (\<lambda>r. r\<lparr>lpParent := Some l, fLeft := \<not> d\<rparr>) s;
     s \<leftarrow> UpdateCounts (Some lpPivot) s;
     UpdateCounts (Some l) s
   }"

lemma rotd_eq: "RotateL = rotd True" "RotateR = rotd False"
  by (auto simp: fun_eq_iff RotateL_def RotateR_def rotd_def leg_def set_leg_def)

lemma lkd_eq [simp]: "lkd d a x y f = lkd d a' x' y' f' \<longleftrightarrow> a = a' \<and> x = x' \<and> y = y' \<and> f = f'"
  "lkd (\<not> d) a x y f = lkd d a y x f"
  by (auto simp: lkd_def)

lemma lkd_surj: "\<exists>x y. z = lkd d (fst z) x y (snd (snd (snd z)))"
  by (cases z; cases d) (auto simp: lkd_def)

lemma rep_PD: "rep h p par fl (PD d x a y) \<longleftrightarrow> p = Some a \<and>
   (\<exists>xp yp. hlk h a = Some (lkd d par xp yp fl) \<and> rep h xp (Some a) d x \<and> rep h yp (Some a) (\<not> d) y)"
  by (cases d) (auto simp: PD_def lkd_def)

lemma nodes_PD [simp]: "nodes (PD d x a y) = insert a (nodes x \<union> nodes y)"
  "distinct (inord (PD d x a y)) \<longleftrightarrow> a \<notin> nodes x \<and> a \<notin> nodes y \<and> nodes x \<inter> nodes y = {} \<and> distinct (inord x) \<and> distinct (inord y)"
  by (auto simp: PD_def)

lemma repc_link: "repc h root p par fl c \<Longrightarrow>
   \<exists>q qp y qf. par = Some q \<and> q \<in> insert root (cnodes c) \<and> hlk h q = Some (lkd fl qp p y qf)"
  by (cases c) (auto simp: lkd_def)

lemma linked_row_lkd: "linked s L s' \<Longrightarrow> L a = Some (lkd d p x y f) \<Longrightarrow>
   \<exists>row. heap s' a = Some row \<and> lpParent row = p \<and> leg d row = x \<and> leg (\<not> d) row = y \<and> fLeft row = f"
  by (cases d) (auto simp: lkd_def leg_def dest!: linked_row)

lemma set_leg_lkd:
  assumes "linked s L s1" "L a = Some (lkd d p x y f)"
  shows "\<exists>s2. set_leg (Some a) d v s1 = Some s2 \<and> linked s (L(a \<mapsto> lkd d p v y f)) s2"
    "\<exists>s2. set_leg (Some a) (\<not> d) v s1 = Some s2 \<and> linked s (L(a \<mapsto> lkd d p x v f)) s2"
  using upd_leg(3) [OF assms(1), of a, of p _ _ f d v] upd_leg(3) [OF assms(1), of a, of p _ _ f "\<not> d" v] assms(2)
  by (cases d; auto simp: lkd_def)+

lemma upd_parent_lkd:
  assumes "linked s L s1" "L a = Some (lkd d p x y f)"
  shows "\<exists>s2. upd a (\<lambda>r. r\<lparr>lpParent := q, fLeft := b\<rparr>) s1 = Some s2 \<and> linked s (L(a \<mapsto> lkd d q x y b)) s2"
  using upd_parent(1) [OF assms(1), of a] assms(2) by (cases d) (auto simp: lkd_def)

lemma UpdateCounts_PD:
  assumes "shape s (fill c (PD d l a r))" "cntok (heap s) l" "cntok (heap s) r" "sibok (heap s) c"
  shows "\<exists>h'. UpdateCounts (Some a) s = Some (s\<lparr>heap := h'\<rparr>) \<and> hlk h' = hlk (heap s) \<and> hdt h' = hdt (heap s) \<and>
     shape (s\<lparr>heap := h'\<rparr>) (fill c (PD d l a r)) \<and> counted (s\<lparr>heap := h'\<rparr>) (fill c (PD d l a r))"
  using UpdateCounts_node [of s c l a r] UpdateCounts_node [of s c r a l] assms by (cases d) (auto simp: PD_def)

text \<open>The links after the rotation, and the tree they represent.\<close>

definition rotlinks where
  "rotlinks d L l pv q par fl ap bp cp qp qy qf bl br =
     (let L3 = L(l \<mapsto> lkd d par ap bp fl, q \<mapsto> lkd fl qp (Some l) qy qf, pv \<mapsto> lkd d par bp cp fl);
          L4 = (case bp of None \<Rightarrow> L3 | Some b \<Rightarrow> L3(b \<mapsto> (Some pv, bl, br, d)))
      in L4(l \<mapsto> lkd d par ap (Some pv) fl, pv \<mapsto> lkd d (Some l) bp cp (\<not> d)))"

lemma rotlinks_rep:
  fixes h h' :: rowheap
  assumes L: "hlk h' = rotlinks d (hlk h) l pv q par fl ap bp cp qp qy qf bl br"
    and reps: "rep h ap (Some l) d A" "rep h bp (Some l) (\<not> d) B" "rep h cp (Some pv) (\<not> d) C"
    and repc: "repc h root (Some pv) par fl c" "par = Some q" "q \<in> insert root (cnodes c)" "hlk h q = Some (lkd fl qp (Some pv) qy qf)"
    and b: "case bp of None \<Rightarrow> True | Some b \<Rightarrow> b \<in> nodes B \<and> hlk h b = Some (Some l, bl, br, \<not> d)"
    and dist: "distinct (inord (PD d (PD d A l B) pv C))" "cdistinct c" "root \<notin> cnodes c"
      "nodes (PD d (PD d A l B) pv C) \<inter> insert root (cnodes c) = {}"
  shows "rep h' (Some l) par fl (PD d A l (PD d B pv C)) \<and> repc h' root (Some l) par fl c"
proof -
  have ne: "l \<noteq> pv" "q \<noteq> l" "q \<noteq> pv" "bp \<noteq> Some l" "bp \<noteq> Some pv" "bp \<noteq> Some q"
    and bB: "Some x = bp \<Longrightarrow> x \<in> nodes B" for x
    using dist(1,4) b repc(3) by auto
  have frame: "hlk h' x = hlk h x" if "x \<noteq> l" "x \<noteq> pv" "x \<noteq> q" "Some x \<noteq> bp" for x
    using that by (auto simp: L rotlinks_def Let_def split: option.splits)
  have val: "hlk h' l = Some (lkd d par ap (Some pv) fl)" "hlk h' pv = Some (lkd d (Some l) bp cp (\<not> d))"
    "hlk h' q = Some (lkd fl qp (Some l) qy qf)" "\<And>b. bp = Some b \<Longrightarrow> hlk h' b = Some (Some pv, bl, br, d)"
    using ne by (auto simp: L rotlinks_def Let_def split: option.splits)
  have "rep h' ap (Some l) d A = rep h ap (Some l) d A" "rep h' cp (Some pv) (\<not> d) C = rep h cp (Some pv) (\<not> d) C"
    using dist(1,4) repc(3) bB by (intro rep_cong frame; force)+
  moreover have "rep h' bp (Some pv) d B"
  proof (rule rep_reparent [OF reps(2)])
    show "distinct (inord B)" using dist(1) by simp
    fix x assume "x \<in> nodes B"
    then have "x \<noteq> l" "x \<noteq> pv" "x \<noteq> q" using dist(1,4) repc(3) by auto
    then show "hlk h' x = (if Some x = bp then map_option (\<lambda>(_, l, r, _). (Some pv, l, r, d)) (hlk h x) else hlk h x)"
      using frame [of x] val(4) [of x] b by (auto split: option.splits)
  qed
  ultimately have "rep h' (Some l) par fl (PD d A l (PD d B pv C))" using reps val by (simp add: rep_PD)
  moreover have "repc h' root (Some l) par fl c"
  proof (rule repc_leg [OF repc(1) dist(2,3)])
    fix x assume "x \<in> insert root (cnodes c)"
    then have "x \<noteq> l" "x \<noteq> pv" "Some x \<noteq> bp" using dist(4) bB by auto
    then show "hlk h' x = (if Some x = par then map_option (\<lambda>(q, x, r, f). (q, if fl then Some l else x, if fl then r else Some l, f)) (hlk h x) else hlk h x)"
      using frame [of x] val(3) repc by (cases fl) (auto simp: lkd_def)
  qed
  ultimately show ?thesis by simp
qed

lemma rotd_links:
  assumes L: "hlk (heap s) pv = Some (lkd d par (Some l) cp fl)" "hlk (heap s) l = Some (lkd d (Some pv) ap bp d)"
    and q: "par = Some q" "hlk (heap s) q = Some (lkd fl qp (Some pv) qy qf)"
    and b: "case bp of None \<Rightarrow> True | Some b \<Rightarrow> hlk (heap s) b = Some (Some l, bl, br, \<not> d)"
    and ne: "l \<noteq> pv" "q \<noteq> l" "q \<noteq> pv" "bp \<noteq> Some l" "bp \<noteq> Some pv" "bp \<noteq> Some q"
  shows "\<exists>s6. linked s (rotlinks d (hlk (heap s)) l pv q par fl ap bp cp qp qy qf bl br) s6 \<and>
     rotd d pv s = (UpdateCounts (Some pv) s6 \<bind> UpdateCounts (Some l))"
proof -
  let ?L = "hlk (heap s)"
  define L2 where "L2 = ?L(l \<mapsto> lkd d par ap bp fl, q \<mapsto> lkd fl qp (Some l) qy qf)"
  define L3 where "L3 = L2(pv \<mapsto> lkd d par bp cp fl)"
  define L4 where "L4 = (case bp of None \<Rightarrow> L3 | Some b \<Rightarrow> L3(b \<mapsto> (Some pv, bl, br, d)))"
  obtain s1 where s1: "upd l (\<lambda>r. r\<lparr>lpParent := par, fLeft := fl\<rparr>) s = Some s1" "linked s (?L(l \<mapsto> lkd d par ap bp fl)) s1"
    using upd_parent_lkd [OF linked_refl L(2)] by blast
  obtain s2 where s2: "set_leg (Some q) fl (Some l) s1 = Some s2" "linked s L2 s2"
    using set_leg_lkd(1) [OF s1(2), of q fl qp "Some pv" qy qf "Some l"] q ne unfolding L2_def by auto
  have s2l: "L2 l = Some (lkd d par ap bp fl)" "L2 pv = Some (lkd d par (Some l) cp fl)" using ne L by (simp_all add: L2_def)
  obtain s3 where s3: "set_leg (Some pv) d bp s2 = Some s3" "linked s L3 s3"
    using set_leg_lkd(1) [OF s2(2) s2l(2)] unfolding L3_def by blast
  have s3b: "case bp of None \<Rightarrow> True | Some b \<Rightarrow> L3 b = Some (Some l, bl, br, \<not> d)"
    using b ne by (auto simp: L3_def L2_def split: option.splits)
  obtain s4 where s4: "upd_ptr bp (\<lambda>r. r\<lparr>fLeft := d, lpParent := Some pv\<rparr>) s3 = Some s4" "linked s L4 s4"
    using upd_ptr_parent [OF s3(2) s3b, where d = d and q = "Some pv"] unfolding L4_def by blast
  have s4l: "L4 l = Some (lkd d par ap bp fl)" "L4 pv = Some (lkd d par bp cp fl)"
    using ne s2l by (auto simp: L4_def L3_def split: option.splits)
  obtain s5 where s5: "set_leg (Some l) (\<not> d) (Some pv) s4 = Some s5" "linked s (L4(l \<mapsto> lkd d par ap (Some pv) fl)) s5"
    using set_leg_lkd(2) [OF s4(2) s4l(1)] by blast
  have s5p: "(L4(l \<mapsto> lkd d par ap (Some pv) fl)) pv = Some (lkd d par bp cp fl)" using ne s4l by simp
  obtain s6 where s6: "upd pv (\<lambda>r. r\<lparr>lpParent := Some l, fLeft := \<not> d\<rparr>) s5 = Some s6"
      "linked s (L4(l \<mapsto> lkd d par ap (Some pv) fl, pv \<mapsto> lkd d (Some l) bp cp (\<not> d))) s6"
    using upd_parent_lkd [OF s5(2) s5p, where q = "Some l" and b = "\<not> d"] by blast
  have "rotd d pv s = (UpdateCounts (Some pv) s6 \<bind> UpdateCounts (Some l))"
    using linked_row_lkd [OF linked_refl L(1)] linked_row_lkd [OF s2(2) s2l(1)] s1(1) s2(1) s3(1) s4(1) s5(1) s6(1)
    by (auto simp: rotd_def q(1))
  with s6(2) show ?thesis unfolding rotlinks_def Let_def L4_def L3_def L2_def by blast
qed

lemma rotd_ok:
  assumes sh: "shape s (fill c (PD d (PD d A l B) pv C))"
    and cnt: "cntok (heap s) A" "cntok (heap s) B" "cntok (heap s) C" "sibok (heap s) c"
  defines "T \<equiv> fill c (PD d A l (PD d B pv C))"
  shows "\<exists>h'. rotd d pv s = Some (s\<lparr>heap := h'\<rparr>) \<and> hdt h' = hdt (heap s) \<and> shape (s\<lparr>heap := h'\<rparr>) T \<and> counted (s\<lparr>heap := h'\<rparr>) T"
proof -
  from sh obtain p par fl where p: "rep (heap s) p par fl (PD d (PD d A l B) pv C)" "repc (heap s) (lpRoot s) p par fl c"
    unfolding shape_split by blast
  then obtain ap bp cp where lks: "p = Some pv" "hlk (heap s) pv = Some (lkd d par (Some l) cp fl)" "hlk (heap s) l = Some (lkd d (Some pv) ap bp d)"
    and reps: "rep (heap s) ap (Some l) d A" "rep (heap s) bp (Some l) (\<not> d) B" "rep (heap s) cp (Some pv) (\<not> d) C"
    by (auto simp: rep_PD)
  note repc = p(2) [unfolded lks(1)]
  from repc obtain q qp qy qf where q: "par = Some q" "q \<in> insert (lpRoot s) (cnodes c)" "hlk (heap s) q = Some (lkd fl qp (Some pv) qy qf)"
    by (metis repc_link)
  have dist: "distinct (inord (PD d (PD d A l B) pv C))" "cdistinct c" "lpRoot s \<notin> cnodes c"
    "nodes (PD d (PD d A l B) pv C) \<inter> insert (lpRoot s) (cnodes c) = {}"
    using sh unfolding shape_def distinct.simps distinct_fill nodes_fill by auto
  have "\<exists>bl br. case bp of None \<Rightarrow> True | Some b \<Rightarrow> b \<in> nodes B \<and> hlk (heap s) b = Some (Some l, bl, br, \<not> d)"
    using reps(2) by (cases B) auto
  then obtain bl br where b: "case bp of None \<Rightarrow> True | Some b \<Rightarrow> b \<in> nodes B \<and> hlk (heap s) b = Some (Some l, bl, br, \<not> d)" by blast
  have ne: "l \<noteq> pv" "q \<noteq> l" "q \<noteq> pv" "bp \<noteq> Some l" "bp \<noteq> Some pv" "bp \<noteq> Some q" using dist(1,4) b q(2) by auto
  have b': "case bp of None \<Rightarrow> True | Some b \<Rightarrow> hlk (heap s) b = Some (Some l, bl, br, \<not> d)" using b by (auto split: option.splits)
  obtain s6 where s6: "linked s (rotlinks d (hlk (heap s)) l pv q par fl ap bp cp qp qy qf bl br) s6"
      "rotd d pv s = (UpdateCounts (Some pv) s6 \<bind> UpdateCounts (Some l))"
    using rotd_links [OF lks(2,3) q(1,3) b' ne] by blast
  have h6: "lpRoot s6 = lpRoot s" "hct (heap s6) = hct (heap s)" "hdt (heap s6) = hdt (heap s)"
    using linked_heap [OF s6(1)] by auto
  have rep6: "rep (heap s6) (Some l) par fl (PD d A l (PD d B pv C)) \<and> repc (heap s6) (lpRoot s) (Some l) par fl c"
    using rotlinks_rep [OF _ reps repc q b dist] linked_heap [OF s6(1)] by blast
  have sh6: "shape s6 T" unfolding T_def
    by (rule rotated_shape [OF sh _ _ s6(1), where t = l and par = par and fl = fl]) (use dist(1) rep6 in auto)
  have cnt6: "cntok (heap s6) A" "cntok (heap s6) B" "cntok (heap s6) C" "sibok (heap s6) c"
    using cnt cntok_cong [of _ "heap s6" "heap s"] sibok_cong [of c "heap s6" "heap s"] by (auto simp: h6)
  have eq: "T = fill ((\<not> d, l, A) # c) (PD d B pv C)" by (simp add: T_def PD_def)
  obtain h7 where h7: "UpdateCounts (Some pv) s6 = Some (s6\<lparr>heap := h7\<rparr>)" "hdt h7 = hdt (heap s6)"
      "shape (s6\<lparr>heap := h7\<rparr>) T" "counted (s6\<lparr>heap := h7\<rparr>) T"
    using UpdateCounts_PD [of s6 "(\<not> d, l, A) # c" d B pv C] sh6 cnt6 unfolding eq by (auto simp: sibok_def)
  from h7(4) have "cntok h7 A" "cntok h7 (PD d B pv C)" "sibok h7 c"
    using cntok_fill [of h7 c "PD d A l (PD d B pv C)"] unfolding T_def by (auto simp: counted_def PD_def split: if_splits)
  then obtain h8 where h8: "UpdateCounts (Some l) (s6\<lparr>heap := h7\<rparr>) = Some (s6\<lparr>heap := h8\<rparr>)" "hdt h8 = hdt h7"
      "shape (s6\<lparr>heap := h8\<rparr>) T" "counted (s6\<lparr>heap := h8\<rparr>) T"
    using UpdateCounts_PD [of "s6\<lparr>heap := h7\<rparr>" c d A l "PD d B pv C"] h7(3) unfolding T_def by auto
  have "s6\<lparr>heap := h8\<rparr> = s\<lparr>heap := h8\<rparr>" using s6(1) by (auto simp: linked_def)
  then show ?thesis using h7(1,2) h8 h6(3) s6(2) by (auto intro: exI [of _ h8])
qed

end
