(* ===== verification/KeyTableIns.thy ===== *)
theory KeyTableIns
  imports KeyTableAvl
begin

text \<open>
  Restructuring keeps the rows in order and restores the AVL balance, and linking a new row
  inserts it at its place in the order.
\<close>

section \<open>Balance\<close>

definition bal :: "ptree \<Rightarrow> int" where
  "bal t = (case t of PL \<Rightarrow> 0 | PN l a r \<Rightarrow> int (ht l) - int (ht r))"

lemma sint_diff32:
  assumes "x < 2 ^ 31" "y < 2 ^ 31"
  shows "sint (of_nat x - of_nat y :: uint32) = int x - int y"
proof -
  have "(of_nat x - of_nat y :: uint32) = word_of_int (int x - int y)" by simp
  then have "sint (of_nat x - of_nat y :: uint32) = (int x - int y + 2 ^ 31) mod 2 ^ 32 - 2 ^ 31"
    by (simp only: int_word_sint) simp
  then show ?thesis using assms by simp
qed

lemma GetBalance_rep:
  assumes "rep (heap s) p par fl t" "cntok (heap s) t" "ht t < 2 ^ 31"
  shows "GetBalance p s = Some (bal t)"
proof (cases t)
  case (PN l a r)
  then obtain lp rp where x: "p = Some a" "hlk (heap s) a = Some (par, lp, rp, fl)"
    "rep (heap s) lp (Some a) True l" "rep (heap s) rp (Some a) False r" using assms(1) by auto
  then obtain row where row: "heap s a = Some row" "lpLeft row = lp" "lpRight row = rp"
    by (auto dest!: hlk_Some simp: lk_def)
  have "branch s lp = Some (of_nat (vis (heap s) (inord l)), of_nat (ht l))"
    "branch s rp = Some (of_nat (vis (heap s) (inord r)), of_nat (ht r))"
    using branch_rep x assms(2) PN by auto
  then show ?thesis using row x assms(3) sint_diff32 [of "ht l" "ht r"] by (simp add: GetBalance_def PN bal_def)
qed (use assms in \<open>auto simp: GetBalance_def bal_def\<close>)

text \<open>Restructuring as a function on trees.\<close>

definition pick :: "bool \<Rightarrow> ptree \<Rightarrow> nat \<Rightarrow> ptree \<Rightarrow> ptree" where
  "pick d X a C =
     (case X of PL \<Rightarrow> PD d X a C
      | PN l x r \<Rightarrow>
          (let A = (if d then l else r); B = (if d then r else l)
           in if ht B \<le> ht A then PD d A x (PD d B a C)
              else (case B of PL \<Rightarrow> PD d X a C
                | PN bl b br \<Rightarrow>
                    PD d (PD d A x (if d then bl else br)) b (PD d (if d then br else bl) a C))))"

fun rebal :: "ptree \<Rightarrow> ptree" where
  "rebal PL = PL"
| "rebal (PN L a R) =
     (if ht R + 1 < ht L then pick True L a R
      else if ht L + 1 < ht R then pick False R a L
      else PN L a R)"

fun avl :: "ptree \<Rightarrow> bool" where
  "avl PL = True"
| "avl (PN l a r) \<longleftrightarrow> ht l \<le> ht r + 1 \<and> ht r \<le> ht l + 1 \<and> avl l \<and> avl r"

lemma inord_pick: "inord (pick d X a C) = inord (PD d X a C)"
  by (cases d; auto simp: pick_def PD_def Let_def split: ptree.split)

lemma inord_rebal: "inord (rebal t) = inord t"
  by (cases t) (auto simp: inord_pick PD_def)

lemma ht_PD: "ht (PD d l a r) = Suc (max (ht l) (ht r))"
  by (auto simp: PD_def)

lemma avl_PD: "avl (PD d l a r) \<longleftrightarrow> ht l \<le> ht r + 1 \<and> ht r \<le> ht l + 1 \<and> avl l \<and> avl r"
  by (auto simp: PD_def)

lemma PD_cases: "t \<noteq> PL \<Longrightarrow> \<exists>l a r. t = PD d l a r"
  by (cases t; cases d) (auto simp: PD_def)

lemma pick_PD: "pick d (PD d A x B) a C =
   (if ht B \<le> ht A then PD d A x (PD d B a C)
    else (case B of PL \<Rightarrow> PD d (PD d A x B) a C
      | PN bl b br \<Rightarrow> PD d (PD d A x (if d then bl else br)) b (PD d (if d then br else bl) a C)))"
  by (cases d) (auto simp: pick_def PD_def Let_def split: ptree.split)

lemma pick_double: "ht A < ht (PD d B1 b B2) \<Longrightarrow>
   pick d (PD d A x (PD d B1 b B2)) a C = PD d (PD d A x B1) b (PD d B2 a C)"
  using pick_PD [of d A x "PD d B1 b B2" a C] by (cases d) (simp_all add: PD_def)

lemma avl_pick:
  assumes "avl X" "avl C" "ht X = ht C + 2"
  shows "avl (pick d X a C)" "ht (pick d X a C) = ht X \<or> ht (pick d X a C) = Suc (ht X)"
proof -
  obtain A x B where X: "X = PD d A x B" using PD_cases [of X d] assms(3) by (cases X) auto
  show "avl (pick d X a C)" "ht (pick d X a C) = ht X \<or> ht (pick d X a C) = Suc (ht X)"
  proof (atomize (full), cases "ht B \<le> ht A")
    case True
    then show "avl (pick d X a C) \<and> (ht (pick d X a C) = ht X \<or> ht (pick d X a C) = Suc (ht X))"
      using assms unfolding X by (auto simp: pick_PD avl_PD ht_PD)
  next
    case False
    then obtain B1 b B2 where B: "B = PD d B1 b B2" using PD_cases [of B d] by (cases B) auto
    show "avl (pick d X a C) \<and> (ht (pick d X a C) = ht X \<or> ht (pick d X a C) = Suc (ht X))"
      using assms False unfolding X B by (auto simp: pick_double avl_PD ht_PD)
  qed
qed

lemma avl_rebal:
  assumes "avl L" "avl R" "ht L \<le> ht R + 2" "ht R \<le> ht L + 2"
  shows "avl (rebal (PN L a R))" "ht (rebal (PN L a R)) \<le> Suc (max (ht L) (ht R))" "max (ht L) (ht R) \<le> ht (rebal (PN L a R))"
    "ht L \<le> ht R + 1 \<and> ht R \<le> ht L + 1 \<Longrightarrow> rebal (PN L a R) = PN L a R"
  using assms avl_pick [of L R True a] avl_pick [of R L False a] by (auto split: if_splits)

section \<open>Restructuring a node\<close>

lemma counted_fillD: "counted s (fill c t) \<Longrightarrow> cntok (heap s) t \<and> sibok (heap s) c"
  using cntok_fill by (auto simp: counted_def)

lemma cntok_PD: "cntok h (PD d l a r) \<Longrightarrow> cntok h l \<and> cntok h r"
  by (cases d) (auto simp: PD_def)

lemma shape_node:
  assumes "shape s (fill c (PD d l a r))"
  shows "\<exists>row par fl. heap s a = Some row \<and> lpParent row = par \<and> fLeft row = fl \<and>
     rep (heap s) (Some a) par fl (PD d l a r) \<and> repc (heap s) (lpRoot s) (Some a) par fl c \<and>
     rep (heap s) (leg d row) (Some a) d l \<and> rep (heap s) (leg (\<not> d) row) (Some a) (\<not> d) r"
proof -
  from assms obtain p par fl where p: "rep (heap s) p par fl (PD d l a r)" "repc (heap s) (lpRoot s) p par fl c"
    unfolding shape_split by blast
  then obtain xp yp where x: "p = Some a" "hlk (heap s) a = Some (lkd d par xp yp fl)" "rep (heap s) xp (Some a) d l"
    "rep (heap s) yp (Some a) (\<not> d) r" by (auto simp: rep_PD)
  obtain row where "heap s a = Some row" "lpParent row = par" "leg d row = xp" "leg (\<not> d) row = yp" "fLeft row = fl"
    using linked_row_lkd [OF linked_refl x(2)] by blast
  with p x show ?thesis by blast
qed

lemma ht_lt31: "shape s (fill c t) \<Longrightarrow> ht t < 2 ^ 31"
  using shape_length [of s "fill c t"] ht_le [of t] by (auto simp: shape_def inord_fill)

lemma GetBalance_node:
  assumes "shape s (fill c (PN l a r))" "counted s (fill c (PN l a r))"
  shows "\<exists>row. heap s a = Some row \<and> GetBalance (Some a) s = Some (int (ht l) - int (ht r)) \<and>
     GetBalance (lpLeft row) s = Some (bal l) \<and> GetBalance (lpRight row) s = Some (bal r) \<and>
     rep (heap s) (lpLeft row) (Some a) True l \<and> rep (heap s) (lpRight row) (Some a) False r"
proof -
  have c: "cntok (heap s) (PN l a r)" using counted_fillD [OF assms(2)] by simp
  then have cl: "cntok (heap s) l" "cntok (heap s) r" by auto
  have h: "ht (PN l a r) < 2 ^ 31" using assms(1) by (rule ht_lt31)
  then have hl: "ht l < 2 ^ 31" "ht r < 2 ^ 31" by auto
  obtain row par fl where row: "heap s a = Some row" "rep (heap s) (Some a) par fl (PN l a r)" "repc (heap s) (lpRoot s) (Some a) par fl c"
    "lpParent row = par" "fLeft row = fl"
    "rep (heap s) (lpLeft row) (Some a) True l" "rep (heap s) (lpRight row) (Some a) False r"
    using shape_node [of s c True l a r] assms(1) by (auto simp: PD_def leg_def)
  then show ?thesis
    using GetBalance_rep [OF row(2) c h] GetBalance_rep [OF row(6) cl(1) hl(1)] GetBalance_rep [OF row(7) cl(2) hl(2)]
    by (auto simp: bal_def)
qed

definition rot2 :: "bool \<Rightarrow> nat \<Rightarrow> nat \<Rightarrow> keytable \<Rightarrow> keytable option" where
  "rot2 d l pv s = rotd (\<not> d) l s \<bind> rotd d pv"

lemma rot2_ok:
  assumes "shape s (fill c (PD d (PD d A l (PD d B1 b B2)) pv C))" "counted s (fill c (PD d (PD d A l (PD d B1 b B2)) pv C))"
  defines "T \<equiv> fill c (PD d (PD d A l B1) b (PD d B2 pv C))"
  shows "\<exists>h'. rot2 d l pv s = Some (s\<lparr>heap := h'\<rparr>) \<and> hdt h' = hdt (heap s) \<and> shape (s\<lparr>heap := h'\<rparr>) T \<and> counted (s\<lparr>heap := h'\<rparr>) T"
proof -
  have neg: "PD (\<not> d) x a y = PD d y a x" for x a y by (auto simp: PD_def)
  have f: "fill ((d, pv, C) # c) t = fill c (PD d t pv C)" for t by (simp add: PD_def)
  have "cntok (heap s) (PD d (PD d A l (PD d B1 b B2)) pv C)" "sibok (heap s) c" using counted_fillD [OF assms(2)] by auto
  then have cnt: "cntok (heap s) A" "cntok (heap s) B1" "cntok (heap s) B2" "cntok (heap s) C" "sibok (heap s) ((d, pv, C) # c)"
    by (auto dest!: cntok_PD simp: sibok_def)
  obtain h1 where h1: "rotd (\<not> d) l s = Some (s\<lparr>heap := h1\<rparr>)" "hdt h1 = hdt (heap s)"
    "shape (s\<lparr>heap := h1\<rparr>) (fill c (PD d (PD d (PD d A l B1) b B2) pv C))"
    "counted (s\<lparr>heap := h1\<rparr>) (fill c (PD d (PD d (PD d A l B1) b B2) pv C))"
    using rotd_ok [of s "(d, pv, C) # c" "\<not> d" B2 b B1 l A] assms(1) cnt unfolding neg f by auto
  have "cntok h1 (PD d (PD d (PD d A l B1) b B2) pv C)" "sibok h1 c" using counted_fillD [OF h1(4)] by auto
  then have cnt1: "cntok h1 (PD d A l B1)" "cntok h1 B2" "cntok h1 C" "sibok h1 c" by (auto dest!: cntok_PD)
  obtain h2 where h2: "rotd d pv (s\<lparr>heap := h1\<rparr>) = Some (s\<lparr>heap := h2\<rparr>)" "hdt h2 = hdt h1"
    "shape (s\<lparr>heap := h2\<rparr>) T" "counted (s\<lparr>heap := h2\<rparr>) T"
    using rotd_ok [OF h1(3)] cnt1 unfolding T_def by auto
  show ?thesis using h1 h2 by (auto simp: rot2_def intro: exI [of _ h2])
qed

lemma rot_pick_ok:
  assumes sh: "shape s (fill c (PD d (PD d A x B) a C))" and cnt: "counted s (fill c (PD d (PD d A x B) a C))"
    and eq: "Restructure a s = (if ht B \<le> ht A then rotd d a s else rot2 d x a s)"
  defines "T \<equiv> fill c (pick d (PD d A x B) a C)"
  shows "\<exists>h'. Restructure a s = Some (s\<lparr>heap := h'\<rparr>) \<and> hdt h' = hdt (heap s) \<and> shape (s\<lparr>heap := h'\<rparr>) T \<and> counted (s\<lparr>heap := h'\<rparr>) T"
proof (cases "ht B \<le> ht A")
  case True
  have "cntok (heap s) (PD d (PD d A x B) a C)" "sibok (heap s) c" using counted_fillD [OF cnt] by auto
  then have "cntok (heap s) A" "cntok (heap s) B" "cntok (heap s) C" "sibok (heap s) c" by (auto dest!: cntok_PD)
  from rotd_ok [OF sh this] show ?thesis using True eq by (simp add: T_def pick_PD)
next
  case False
  then obtain B1 b B2 where B: "B = PD d B1 b B2" using PD_cases [of B d] by (cases B) auto
  show ?thesis using rot2_ok [of s c d A x B1 b B2 a C] sh cnt False eq by (simp add: T_def pick_double B)
qed

lemma RotateLR_rot2: "heap s l = Some row \<Longrightarrow> lpParent row = Some a \<Longrightarrow> RotateLR l s = rot2 True l a s"
  by (simp add: RotateLR_def rot2_def rotd_eq)

lemma RotateRL_rot2: "heap s l = Some row \<Longrightarrow> lpParent row = Some a \<Longrightarrow> RotateRL l s = rot2 False l a s"
  by (simp add: RotateRL_def rot2_def rotd_eq)

lemma rep_row: "rep h p par fl (PN l a r) \<Longrightarrow>
   p = Some a \<and> (\<exists>row. h a = Some row \<and> lpParent row = par \<and> fLeft row = fl)"
  by (auto dest!: hlk_Some simp: lk_def)

lemma Restructure_ok:
  assumes sh: "shape s (fill c (PN L a R))" and cnt: "counted s (fill c (PN L a R))"
  defines "T \<equiv> fill c (rebal (PN L a R))"
  shows "\<exists>h'. Restructure a s = Some (s\<lparr>heap := h'\<rparr>) \<and> hdt h' = hdt (heap s) \<and> shape (s\<lparr>heap := h'\<rparr>) T \<and> counted (s\<lparr>heap := h'\<rparr>) T"
proof -
  obtain row where row: "heap s a = Some row" "GetBalance (Some a) s = Some (int (ht L) - int (ht R))"
    "GetBalance (lpLeft row) s = Some (bal L)" "GetBalance (lpRight row) s = Some (bal R)"
    "rep (heap s) (lpLeft row) (Some a) True L" "rep (heap s) (lpRight row) (Some a) False R"
    using GetBalance_node [OF sh cnt] by blast
  consider "ht R + 1 < ht L" | "ht L + 1 < ht R" | "ht L \<le> ht R + 1" "ht R \<le> ht L + 1" by linarith
  then show ?thesis
  proof cases
    case 1
    then obtain A x B where L: "L = PN A x B" by (cases L) auto
    then have b: "bal L = int (ht A) - int (ht B)" by (simp add: bal_def)
    obtain row' where x: "lpLeft row = Some x" "heap s x = Some row'" "lpParent row' = Some a"
      using rep_row [OF row(5) [unfolded L]] by blast
    note rot = RotateLR_rot2 [OF x(2,3)]
    have "1 < int (ht L) - int (ht R)" using 1 by simp
    then have "Restructure a s = (if ht B \<le> ht A then rotd True a s else rot2 True x a s)"
      using row(1-3) x(1) rot unfolding b by (simp add: Restructure_def rotd_eq)
    then show ?thesis using rot_pick_ok [of s c True A x B a R] sh cnt 1 by (simp add: T_def L PD_def)
  next
    case 2
    then obtain A x B where R: "R = PN A x B" by (cases R) auto
    then have b: "bal R = int (ht A) - int (ht B)" by (simp add: bal_def)
    obtain row' where x: "lpRight row = Some x" "heap s x = Some row'" "lpParent row' = Some a"
      using rep_row [OF row(6) [unfolded R]] by blast
    note rot = RotateRL_rot2 [OF x(2,3)]
    have "int (ht L) - int (ht R) < - 1" using 2 by simp
    then have "Restructure a s = (if ht A \<le> ht B then rotd False a s else rot2 False x a s)"
      using row(1,2,4) x(1) rot unfolding b by (simp add: Restructure_def rotd_eq)
    then show ?thesis using rot_pick_ok [of s c False B x A a L] sh cnt 2 by (simp add: T_def R PD_def)
  next
    case 3
    then have "Restructure a s = Some s" using row by (simp add: Restructure_def)
    then show ?thesis using 3 sh cnt by (auto simp: T_def intro!: exI [of _ "heap s"])
  qed
qed

section \<open>Restructuring up to the root\<close>

text \<open>The siblings along a path are AVL and fit the heights the path had before.\<close>

fun okc :: "pctx \<Rightarrow> nat \<Rightarrow> bool" where
  "okc [] g = True"
| "okc ((d, a, u) # c) g \<longleftrightarrow> avl u \<and> g \<le> ht u + 1 \<and> ht u \<le> g + 1 \<and> okc c (Suc (max g (ht u)))"

lemma avl_fill: "avl (fill c t) \<Longrightarrow> avl t \<and> okc c (ht t)"
proof (induction c t rule: fill.induct)
  case (2 d a u c t)
  then show ?case by (cases d) (auto simp: max.commute)
qed simp

lemma inord_fill_cong: "inord t = inord t' \<Longrightarrow> inord (fill c t) = inord (fill c t')"
  by (simp add: inord_fill)

lemma rebal_PD: "rebal (PN L a R) = PN L a R \<or> (\<exists>d P x Q S. rebal (PN L a R) = PD d P x (PD d Q a S))"
proof -
  have "pick d X a C = PD d X a C \<or> (\<exists>P x Q S. pick d X a C = PD d P x (PD d Q a S))" for d X C
  proof (cases X)
    case (PN l x r)
    then obtain A y B where X: "X = PD d A y B" using PD_cases [of X d] by auto
    then show ?thesis by (auto simp: pick_PD split: ptree.split)
  qed (simp add: pick_def)
  from this [of True L R] this [of False R L]
  have "pick True L a R = PN L a R \<or> (\<exists>d P x Q S. pick True L a R = PD d P x (PD d Q a S))"
    "pick False R a L = PN L a R \<or> (\<exists>d P x Q S. pick False R a L = PD d P x (PD d Q a S))"
    by (metis PD_def)+
  then show ?thesis by simp
qed

definition cpar :: "nat \<Rightarrow> pctx \<Rightarrow> nat" where
  "cpar root c = (case c of [] \<Rightarrow> root | (_, a, _) # _ \<Rightarrow> a)"

lemma repc_cpar: "repc h root p par fl c \<Longrightarrow> par = Some (cpar root c)"
  by (cases c) (auto simp: cpar_def)

text \<open>One or two iterations bring the loop from a row to the parent of its subtree.\<close>

lemma RR_level:
  assumes sh: "shape s (fill c (PN L a R))" and cnt: "counted s (fill c (PN L a R))"
    and avl: "avl L" "avl R" "ht L \<le> ht R + 2" "ht R \<le> ht L + 2"
  defines "t \<equiv> rebal (PN L a R)"
  shows "\<exists>h' k. hdt h' = hdt (heap s) \<and> shape (s\<lparr>heap := h'\<rparr>) (fill c t) \<and> counted (s\<lparr>heap := h'\<rparr>) (fill c t) \<and> k \<le> 2 \<and>
     (\<forall>n. RestructureRecursiveN (n + k) (Some a) s = RestructureRecursiveN n (Some (cpar (lpRoot s) c)) (s\<lparr>heap := h'\<rparr>))"
proof -
  have aroot: "b \<noteq> lpRoot s" if "b \<in> nodes (PN L a R)" for b using sh that unfolding shape_def distinct.simps nodes_fill by auto
  obtain h1 where h1: "Restructure a s = Some (s\<lparr>heap := h1\<rparr>)" "hdt h1 = hdt (heap s)"
    "shape (s\<lparr>heap := h1\<rparr>) (fill c t)" "counted (s\<lparr>heap := h1\<rparr>) (fill c t)"
    using Restructure_ok [OF sh cnt] unfolding t_def by blast
  obtain l b r where t: "t = PN l b r" using inord_rebal [of "PN L a R"] unfolding t_def by (cases "rebal (PN L a R)") auto
  then have bn: "b \<in> nodes (PN L a R)" unfolding inord_rebal [of "PN L a R", symmetric] t_def by simp
  obtain p par fl where p: "rep h1 p par fl t" "repc h1 (lpRoot s) p par fl c"
    using h1(3) unfolding shape_split by auto
  have avlt: "avl t" unfolding t_def by (rule avl_rebal) (use avl in auto)
  show ?thesis
  proof (cases "b = a")
    case True
    then obtain row where "h1 a = Some row" "lpParent row = par" using rep_row [OF p(1) [unfolded t]] by blast
    then have "RestructureRecursiveN (n + 1) (Some a) s = RestructureRecursiveN n par (s\<lparr>heap := h1\<rparr>)" for n
      using h1(1) aroot by simp
    then show ?thesis using h1(2-4) unfolding repc_cpar [OF p(2)] by (intro exI [of _ h1] exI [of _ 1]) simp
  next
    case False
    have par: "\<exists>row. h1 a = Some row \<and> lpParent row = Some b"
    proof -
      obtain d P x Q S where eq: "t = PD d P x (PD d Q a S)" using rebal_PD [of L a R] False t unfolding t_def by auto
      then have "x = b" using t by (auto simp: PD_def split: if_splits)
      then have "\<exists>p l r f. hlk h1 a = Some (Some b, l, r, f)" using p(1) unfolding eq by (cases d) (auto simp: rep_PD lkd_def)
      then show ?thesis by (auto dest!: hlk_Some simp: lk_def)
    qed
    obtain h2 where h2: "Restructure b (s\<lparr>heap := h1\<rparr>) = Some (s\<lparr>heap := h2\<rparr>)" "hdt h2 = hdt h1"
      "shape (s\<lparr>heap := h2\<rparr>) (fill c t)" "counted (s\<lparr>heap := h2\<rparr>) (fill c t)"
      using Restructure_ok [of "s\<lparr>heap := h1\<rparr>" c l b r] h1(3,4) avlt unfolding t by auto
    obtain p2 par2 fl2 where p2: "rep h2 p2 par2 fl2 t" "repc h2 (lpRoot s) p2 par2 fl2 c"
      using h2(3) unfolding shape_split by auto
    obtain row where "h2 b = Some row" "lpParent row = par2" using rep_row [OF p2(1) [unfolded t]] by blast
    then have "RestructureRecursiveN (n + 2) (Some a) s = RestructureRecursiveN n par2 (s\<lparr>heap := h2\<rparr>)" for n
      using h1(1) h2(1) aroot bn par by (auto simp: numeral_2_eq_2)
    then show ?thesis using h1(2) h2(2-4) unfolding repc_cpar [OF p2(2)] by (intro exI [of _ h2] exI [of _ 2]) simp
  qed
qed

declare RestructureRecursiveN.simps(3) [simp del]
declare rebal.simps(2) [simp del]

lemma RR_root: "RestructureRecursiveN n (Some (lpRoot s)) s = Some s"
  by (cases n) (simp_all add: RestructureRecursiveN.simps)

lemma level_arith:
  fixes t u g q :: nat
  assumes "t \<le> g + 1" "g \<le> t + 1" "g \<le> u + 1" "u \<le> g + 1" "q \<le> Suc (max t u)" "max t u \<le> q"
    and "t \<le> u + 1 \<and> u \<le> t + 1 \<Longrightarrow> q = Suc (max t u)"
  shows "Suc (max g u) \<le> q + 1 \<and> q \<le> Suc (max g u) + 1"
  using assms by (cases "t \<le> u + 1 \<and> u \<le> t + 1") (auto simp: max_def split: if_splits)

lemma RR_ok:
  assumes "shape s (fill c (PN L a R))" "counted s (fill c (PN L a R))"
    and "avl L" "avl R" "ht L \<le> ht R + 2" "ht R \<le> ht L + 2"
    and "okc c g" "g \<le> ht (rebal (PN L a R)) + 1" "ht (rebal (PN L a R)) \<le> g + 1" "2 * length c + 2 \<le> n"
  shows "\<exists>h' T. RestructureRecursiveN n (Some a) s = Some (s\<lparr>heap := h'\<rparr>) \<and> hdt h' = hdt (heap s) \<and>
     shape (s\<lparr>heap := h'\<rparr>) T \<and> counted (s\<lparr>heap := h'\<rparr>) T \<and> avl T \<and> inord T = inord (fill c (PN L a R))"
  using assms
proof (induction c arbitrary: s L a R g n)
  case Nil
  let ?t = "rebal (PN L a R)"
  obtain h' k where h': "hdt h' = hdt (heap s)" "shape (s\<lparr>heap := h'\<rparr>) ?t" "counted (s\<lparr>heap := h'\<rparr>) ?t" "k \<le> 2"
    "\<And>n. RestructureRecursiveN (n + k) (Some a) s = RestructureRecursiveN n (Some (lpRoot s)) (s\<lparr>heap := h'\<rparr>)"
    using RR_level [OF Nil.prems(1-6)] unfolding cpar_def fill.simps list.case by blast
  have "RestructureRecursiveN n (Some a) s = Some (s\<lparr>heap := h'\<rparr>)"
    using h'(5) [of "n - k"] h'(4) Nil.prems(10) RR_root [of "n - k" "s\<lparr>heap := h'\<rparr>"] by simp
  moreover have "avl ?t" by (rule avl_rebal) (use Nil.prems in auto)
  ultimately show ?case using h' inord_rebal [of "PN L a R"] by (intro exI [of _ h'] exI [of _ ?t]) simp
next
  case (Cons x c)
  obtain d b u where x: "x = (d, b, u)" by (cases x)
  let ?t = "rebal (PN L a R)"
  obtain h1 k where h1: "hdt h1 = hdt (heap s)" "shape (s\<lparr>heap := h1\<rparr>) (fill (x # c) ?t)" "counted (s\<lparr>heap := h1\<rparr>) (fill (x # c) ?t)" "k \<le> 2"
    "\<And>n. RestructureRecursiveN (n + k) (Some a) s = RestructureRecursiveN n (Some b) (s\<lparr>heap := h1\<rparr>)"
    using RR_level [OF Cons.prems(1-6)] unfolding cpar_def x list.case prod.case by blast
  have avlt: "avl ?t" "ht ?t \<le> g + 1" "g \<le> ht ?t + 1"
    using avl_rebal [of L R a] Cons.prems by auto
  have sib: "avl u" "g \<le> ht u + 1" "ht u \<le> g + 1" "okc c (Suc (max g (ht u)))" using Cons.prems(7) by (auto simp: x)
  define l r where "l = (if d then ?t else u)" and "r = (if d then u else ?t)"
  have f: "fill (x # c) ?t = fill c (PN l b r)" by (simp add: x l_def r_def)
  have "\<exists>h' T. RestructureRecursiveN (n - k) (Some b) (s\<lparr>heap := h1\<rparr>) = Some (s\<lparr>heap := h1, heap := h'\<rparr>) \<and>
      hdt h' = hdt (heap (s\<lparr>heap := h1\<rparr>)) \<and> shape (s\<lparr>heap := h1, heap := h'\<rparr>) T \<and> counted (s\<lparr>heap := h1, heap := h'\<rparr>) T \<and>
      avl T \<and> inord T = inord (fill c (PN l b r))"
  proof (rule Cons.IH)
    show "shape (s\<lparr>heap := h1\<rparr>) (fill c (PN l b r))" "counted (s\<lparr>heap := h1\<rparr>) (fill c (PN l b r))" using h1(2,3) unfolding f .
    show "avl l" "avl r" "ht l \<le> ht r + 2" "ht r \<le> ht l + 2" using avlt sib by (auto simp: l_def r_def)
    show "okc c (Suc (max g (ht u)))" by (rule sib(4))
    have q: "ht (rebal (PN l b r)) \<le> Suc (max (ht l) (ht r))" "max (ht l) (ht r) \<le> ht (rebal (PN l b r))"
      "ht l \<le> ht r + 1 \<and> ht r \<le> ht l + 1 \<Longrightarrow> ht (rebal (PN l b r)) = Suc (max (ht l) (ht r))"
      using avl_rebal [of l r b] avlt sib by (auto simp: l_def r_def split: if_splits)
    have "{ht l, ht r} = {ht ?t, ht u}" "max (ht l) (ht r) = max (ht ?t) (ht u)" by (auto simp: l_def r_def)
    then have "Suc (max g (ht u)) \<le> ht (rebal (PN l b r)) + 1 \<and> ht (rebal (PN l b r)) \<le> Suc (max g (ht u)) + 1"
      using q avlt(2,3) sib(2,3) by (intro level_arith [of "ht ?t"]) (auto simp: doubleton_eq_iff)
    then show "Suc (max g (ht u)) \<le> ht (rebal (PN l b r)) + 1" "ht (rebal (PN l b r)) \<le> Suc (max g (ht u)) + 1" by auto
    show "2 * length c + 2 \<le> n - k" using Cons.prems(10) h1(4) by simp
  qed
  then obtain h' T where h': "RestructureRecursiveN (n - k) (Some b) (s\<lparr>heap := h1\<rparr>) = Some (s\<lparr>heap := h'\<rparr>)" "hdt h' = hdt h1"
    "shape (s\<lparr>heap := h'\<rparr>) T" "counted (s\<lparr>heap := h'\<rparr>) T" "avl T" "inord T = inord (fill c (PN l b r))" by auto
  moreover have "RestructureRecursiveN n (Some a) s = Some (s\<lparr>heap := h'\<rparr>)"
    using h1(5) [of "n - k"] h1(4) Cons.prems(10) h'(1) by simp
  moreover have "inord (fill c (PN l b r)) = inord (fill (x # c) (PN L a R))"
    unfolding f [symmetric] by (rule inord_fill_cong) (rule inord_rebal)
  ultimately show ?case using h1(1) by auto
qed

end
