(* ===== verification/KeyTableNav.thy ===== *)
theory KeyTableNav
  imports KeyTableRep
begin

text \<open>
  Moving through the table: Next and Prev step along the in-order sequence headed by the
  root object, CurrentRow is the number of visible rows before a row, and the descents to
  the ends of a branch find its first and last row.
\<close>

section \<open>Finding a row in the tree\<close>

lemma split_node: "a \<in> nodes T \<Longrightarrow> \<exists>c l r. T = fill c (PN l a r)"
proof (induction T)
  case (PN tl b tr)
  consider "a = b" | "a \<in> nodes tl" | "a \<in> nodes tr" using PN.prems by auto
  then show ?case
  proof cases
    case 1
    then show ?thesis by (intro exI [of _ "[]"]) auto
  next
    case 2
    then obtain c l r where "tl = fill c (PN l a r)" using PN.IH(1) by blast
    then have "PN tl b tr = fill (c @ [(True, b, tr)]) (PN l a r)" by (simp add: fill_append)
    then show ?thesis by blast
  next
    case 3
    then obtain c l r where "tr = fill c (PN l a r)" using PN.IH(2) by blast
    then have "PN tl b tr = fill (c @ [(False, b, tl)]) (PN l a r)" by (simp add: fill_append)
    then show ?thesis by blast
  qed
qed simp

lemma shape_at:
  assumes "shape s (fill c (PN l a r))"
  shows "\<exists>row. heap s a = Some row \<and> repc (heap s) (lpRoot s) (Some a) (lpParent row) (fLeft row) c \<and>
    rep (heap s) (lpLeft row) (Some a) True l \<and> rep (heap s) (lpRight row) (Some a) False r"
proof -
  from assms obtain p par fl where p: "rep (heap s) p par fl (PN l a r)" "repc (heap s) (lpRoot s) p par fl c"
    unfolding shape_split by blast
  then obtain lp rp where x: "p = Some a" "hlk (heap s) a = Some (par, lp, rp, fl)"
    "rep (heap s) lp (Some a) True l" "rep (heap s) rp (Some a) False r" by auto
  then obtain row where "heap s a = Some row" "lk row = (par, lp, rp, fl)" using hlk_Some by blast
  with p x show ?thesis by (auto simp: lk_def)
qed

lemma shape_root:
  assumes "shape s T"
  shows "\<exists>row. heap s (lpRoot s) = Some row \<and> lpParent row = None \<and> lpLeft row = None \<and> \<not> fLeft row \<and>
    rep (heap s) (lpRight row) (Some (lpRoot s)) False T"
  using assms unfolding shape_def by (auto dest!: hlk_Some simp: lk_def)

section \<open>Ends of a branch\<close>

lemma rep_Some: "rep h (Some a) par fl t \<Longrightarrow> \<exists>l r row. t = PN l a r \<and> h a = Some row \<and> lpParent row = par \<and> fLeft row = fl \<and>
   rep h (lpLeft row) (Some a) True l \<and> rep h (lpRight row) (Some a) False r"
  by (cases t) (auto dest!: hlk_Some simp: lk_def)

lemma rep_None: "rep h None par fl t \<Longrightarrow> t = PL"
  by (cases t) auto

lemma leftmostN_rep: "rep (heap s) (Some a) par fl t \<Longrightarrow> ht t \<le> n \<Longrightarrow> leftmostN n a s = Some (hd (inord t))"
proof (induction n arbitrary: a par fl t)
  case (Suc n)
  then obtain l r row where x: "t = PN l a r" "heap s a = Some row" "rep (heap s) (lpLeft row) (Some a) True l"
    using rep_Some by blast
  show ?case
  proof (cases "lpLeft row")
    case None
    then show ?thesis using x rep_None [of "heap s" "Some a" True l] by simp
  next
    case (Some b)
    then have "leftmostN n b s = Some (hd (inord l))" "inord l \<noteq> []"
      using Suc.IH [of b "Some a" True l] x Suc.prems by (auto dest: rep_Some)
    then show ?thesis using x Some by simp
  qed
qed (auto dest: rep_Some)

lemma rightmostN_rep: "rep (heap s) (Some a) par fl t \<Longrightarrow> ht t \<le> n \<Longrightarrow> rightmostN n a s = Some (last (inord t))"
proof (induction n arbitrary: a par fl t)
  case (Suc n)
  then obtain l r row where x: "t = PN l a r" "heap s a = Some row" "rep (heap s) (lpRight row) (Some a) False r"
    using rep_Some by blast
  show ?case
  proof (cases "lpRight row")
    case None
    then show ?thesis using x rep_None [of "heap s" "Some a" False r] by simp
  next
    case (Some b)
    then have "rightmostN n b s = Some (last (inord r))" "inord r \<noteq> []"
      using Suc.IH [of b "Some a" False r] x Suc.prems by (auto dest: rep_Some)
    then show ?thesis using x Some by simp
  qed
qed (auto dest: rep_Some)

section \<open>Climbing\<close>

lemma climb_left:
  assumes "repc (heap s) root p (lpParent row) (fLeft row) c" "heap s a = Some row" "length c < n"
  shows "\<exists>q. climbN n True (Some a) s = Some (Some q) \<and> parent_of (Some q) s = Some (Some (last (root # cbefore c)))"
  using assms
proof (induction c arbitrary: p row a n)
  case Nil
  then show ?case by (cases n) (auto simp: parent_of_def)
next
  case (Cons x c)
  obtain d b u where x: "x = (d, b, u)" by (cases x)
  obtain m where n: "n = Suc m" using Cons.prems(3) by (cases n) auto
  from Cons.prems(1) have par: "lpParent row = Some b" "fLeft row = d" by (auto simp: x)
  from Cons.prems(1) obtain row' where row': "heap s b = Some row'" "repc (heap s) root (Some b) (lpParent row') (fLeft row') c"
    by (auto simp: x dest!: hlk_Some) (auto simp: lk_def)
  show ?case
  proof (cases d)
    case True
    then show ?thesis using Cons.IH [OF row'(2,1), of m] Cons.prems(2,3) par by (auto simp: n x)
  next
    case False
    then show ?thesis using par Cons.prems(2) by (auto simp: n x parent_of_def)
  qed
qed

lemma climb_right:
  assumes "repc (heap s) root p (lpParent row) (fLeft row) c" "heap s a = Some row" "length c + 1 < n"
  shows "\<exists>q. climbN n False (Some a) s = Some q \<and> parent_of q s = Some (case cafter c of [] \<Rightarrow> None | x # _ \<Rightarrow> Some x)"
  using assms
proof (induction c arbitrary: p row a n)
  case Nil
  obtain m where n: "n = Suc (Suc m)" using Nil.prems(3) by (metis add.commute less_imp_Suc_add list.size(3) plus_1_eq_Suc add_Suc)
  from Nil.prems obtain row' where "heap s root = Some row'" "lpParent row' = None" "\<not> fLeft row'" "lpParent row = Some root" "\<not> fLeft row"
    by (auto dest!: hlk_Some simp: lk_def)
  then show ?case using Nil.prems(2) by (simp add: n parent_of_def)
next
  case (Cons x c)
  obtain d b u where x: "x = (d, b, u)" by (cases x)
  obtain m where n: "n = Suc m" using Cons.prems(3) by (cases n) auto
  from Cons.prems(1) have par: "lpParent row = Some b" "fLeft row = d" by (auto simp: x)
  from Cons.prems(1) obtain row' where row': "heap s b = Some row'" "repc (heap s) root (Some b) (lpParent row') (fLeft row') c"
    by (auto simp: x dest!: hlk_Some) (auto simp: lk_def)
  show ?case
  proof (cases d)
    case False
    then show ?thesis using Cons.IH [OF row'(2,1), of m] Cons.prems(2,3) par by (auto simp: n x)
  next
    case True
    then show ?thesis using par Cons.prems(2) by (auto simp: n x parent_of_def)
  qed
qed

section \<open>Next and Prev\<close>

lemma split_unique: "distinct (xs @ a # ys) \<Longrightarrow> xs @ a # ys = xs' @ a # ys' \<Longrightarrow> xs' = xs \<and> ys' = ys"
  by (metis append_Cons_eq_iff distinct_append not_distinct_conv_prefix distinct.simps(2) disjoint_iff list.set_intros(1))

lemma shape_bounds:
  assumes "shape s (fill c t)"
  shows "ht t < nextptr s" "length c + length (inord t) < nextptr s"
  using shape_length [OF assms] ht_le [of t] length_ctx [of c] by (auto simp: inord_fill)

lemma fill_node_split:
  assumes "shape s (fill c (PN l a r))" "lpRoot s # inord (fill c (PN l a r)) = xs @ a # ys"
  shows "xs = lpRoot s # cbefore c @ inord l \<and> ys = inord r @ cafter c"
proof -
  have "distinct (lpRoot s # inord (fill c (PN l a r)))" using assms(1) unfolding shape_def by blast
  moreover have eq: "lpRoot s # inord (fill c (PN l a r)) = (lpRoot s # cbefore c @ inord l) @ a # (inord r @ cafter c)"
    by (simp add: inord_fill)
  ultimately show ?thesis using assms(2) split_unique by metis
qed

lemma Next_row:
  assumes sh: "shape s (fill c (PN l a r))" and cur: "lpCurrent s = Some a"
  shows "Next s = Some (s\<lparr>lpCurrent := (case inord r @ cafter c of [] \<Rightarrow> None | y # _ \<Rightarrow> Some y)\<rparr>)"
proof -
  obtain row where row: "heap s a = Some row" "repc (heap s) (lpRoot s) (Some a) (lpParent row) (fLeft row) c"
    "rep (heap s) (lpRight row) (Some a) False r" using shape_at [OF sh] by blast
  have b: "ht r \<le> nextptr s" "length c + 1 < nextptr s"
    using shape_bounds [OF sh] by auto
  show ?thesis
  proof (cases "lpRight row")
    case None
    then have "r = PL" using row(3) rep_None by metis
    with climb_right [OF row(2,1) b(2)] show ?thesis using cur row(1) None by (auto simp: Next_def)
  next
    case (Some q)
    then have "leftmostN (nextptr s) q s = Some (hd (inord r))" "inord r \<noteq> []"
      using row(3) leftmostN_rep [of s q "Some a" False r "nextptr s"] b rep_Some by fastforce+
    then show ?thesis using cur row(1) Some by (auto simp: Next_def neq_Nil_conv)
  qed
qed

lemma Next_step:
  assumes sh: "shape s T" and cur: "lpCurrent s = Some a" and eq: "lpRoot s # inord T = xs @ a # ys"
  shows "Next s = Some (s\<lparr>lpCurrent := (case ys of [] \<Rightarrow> None | y # _ \<Rightarrow> Some y)\<rparr>)"
proof (cases xs)
  case Nil
  then have a: "a = lpRoot s" "ys = inord T" using eq by auto
  obtain row where row: "heap s (lpRoot s) = Some row" "lpParent row = None" "\<not> fLeft row"
    "rep (heap s) (lpRight row) (Some (lpRoot s)) False T" using shape_root [OF sh] by blast
  obtain n where n: "nextptr s = Suc n" using sh unfolding shape_def by (cases "nextptr s") auto
  show ?thesis
  proof (cases "lpRight row")
    case None
    then have "T = PL" using row(4) rep_None by metis
    then show ?thesis using a row cur None n by (simp add: Next_def parent_of_def)
  next
    case (Some q)
    then have "leftmostN (nextptr s) q s = Some (hd (inord T))" "inord T \<noteq> []"
      using row(4) leftmostN_rep [of s q "Some (lpRoot s)" False T "nextptr s"] ht_le [of T] shape_length [OF sh] rep_Some by fastforce+
    then show ?thesis using cur row(1) Some a by (auto simp: Next_def neq_Nil_conv)
  qed
next
  case (Cons x xs')
  then have "a \<in> nodes T" using eq by auto
  then obtain c l r where T: "T = fill c (PN l a r)" using split_node by blast
  show ?thesis using fill_node_split [of s c l a r xs ys] Next_row [of s c l a r] sh cur eq unfolding T by simp
qed

lemma Prev_step:
  assumes sh: "shape s T" and cur: "lpCurrent s = Some a" and eq: "inord T = xs @ a # ys"
  shows "Prev s = Some (s\<lparr>lpCurrent := Some (last (lpRoot s # xs))\<rparr>)"
proof -
  have "a \<in> nodes T" using eq by auto
  then obtain c l r where T: "T = fill c (PN l a r)" using split_node by blast
  have xs: "xs = cbefore c @ inord l" using fill_node_split [of s c l a r "lpRoot s # xs" ys] sh eq unfolding T by simp
  obtain row where row: "heap s a = Some row" "repc (heap s) (lpRoot s) (Some a) (lpParent row) (fLeft row) c"
    "rep (heap s) (lpLeft row) (Some a) True l" using shape_at sh unfolding T by blast
  have b: "ht l \<le> nextptr s" "length c < nextptr s"
    using shape_bounds [of s c "PN l a r"] sh unfolding T by auto
  show ?thesis
  proof (cases "lpLeft row")
    case None
    then have "l = PL" using row(3) rep_None by metis
    with climb_left [OF row(2,1) b(2)] show ?thesis using cur row(1) None xs by (auto simp: Prev_def)
  next
    case (Some q)
    then have "rightmostN (nextptr s) q s = Some (last (inord l))" "inord l \<noteq> []"
      using row(3) rightmostN_rep [of s q "Some a" True l "nextptr s"] b rep_Some by fastforce+
    then show ?thesis using cur row(1) Some xs by (auto simp: Prev_def)
  qed
qed

section \<open>Positions\<close>

lemma counted_at:
  assumes "cntok (heap s) (PN l a r)" "heap s a = Some row"
  shows "ulBranchCount row = of_nat (vis (heap s) (inord (PN l a r)))" "fHidden row = hid (heap s) a"
  using assms by (simp_all add: hct_def ct_def hid_def)

lemma CurrentRowN_ok:
  assumes "repc (heap s) (lpRoot s) (Some a) (lpParent row) (fLeft row) c" "heap s a = Some row"
    and "t = PN l a r" "cntok (heap s) (fill c t)" "lpRoot s \<notin> cnodes c" "length c < n"
  shows "CurrentRowN n (Some a) cur s = Some (cur + of_nat (vis (heap s) (cbefore c)))"
  using assms
proof (induction c arbitrary: a row t l r n cur)
  case Nil
  then show ?case by (cases n) auto
next
  case (Cons x c)
  obtain d b u where x: "x = (d, b, u)" by (cases x)
  obtain m where n: "n = Suc m" using Cons.prems(6) by (cases n) auto
  from Cons.prems(1) obtain row' where row': "lpParent row = Some b" "fLeft row = d" "heap s b = Some row'"
    "repc (heap s) (lpRoot s) (Some b) (lpParent row') (fLeft row') c"
    by (auto simp: x dest!: hlk_Some) (auto simp: lk_def)
  let ?t = "if d then PN t b u else PN u b t"
  have "fill (x # c) t = fill c ?t" by (simp add: x)
  then have ct: "cntok (heap s) ?t" "cntok (heap s) (fill c ?t)" using Cons.prems(4) cntok_fill by metis+
  then have "cntok (heap s) t" by (cases d) auto
  then have rc: "ulBranchCount row = of_nat (vis (heap s) (inord t))"
    using counted_at(1) Cons.prems(2,3) by blast
  obtain l' r' where t': "?t = PN l' b r'" by (cases d) auto
  have rc': "ulBranchCount row' = of_nat (vis (heap s) (inord ?t))"
    using counted_at(1) [OF _ row'(3), of l' r'] ct(1) unfolding t' by blast
  have "CurrentRowN m (Some b) cur' s = Some (cur' + of_nat (vis (heap s) (cbefore c)))" for cur'
    using Cons.IH [OF row'(4,3) t' ct(2), of m cur'] Cons.prems(5,6) by (auto simp: n x)
  then show ?case
    using row' Cons.prems(2,5) rc rc' by (cases d) (simp_all add: n x)
qed

lemma CurrentRow_ok:
  assumes sh: "shape s T" and cnt: "counted s T" and eq: "inord T = xs @ a # ys"
  shows "CurrentRow (Some a) s = Some (of_nat (vis (heap s) xs))"
proof -
  have "a \<in> nodes T" using eq by auto
  then obtain c l r where T: "T = fill c (PN l a r)" using split_node by blast
  have xs: "xs = cbefore c @ inord l" using fill_node_split [of s c l a r "lpRoot s # xs" ys] sh eq unfolding T by simp
  obtain row where row: "heap s a = Some row" "repc (heap s) (lpRoot s) (Some a) (lpParent row) (fLeft row) c"
    "rep (heap s) (lpLeft row) (Some a) True l" using shape_at sh unfolding T by blast
  have ct: "cntok (heap s) (fill c (PN l a r))" using cnt unfolding T counted_def by blast
  then have "cntok (heap s) l" using cntok_fill [of "heap s" c "PN l a r"] by simp
  then have br: "branch s (lpLeft row) = Some (of_nat (vis (heap s) (inord l)), of_nat (ht l))"
    using branch_rep row(3) by blast
  have nr: "a \<noteq> lpRoot s" "lpRoot s \<notin> cnodes c"
    using sh unfolding T shape_def distinct.simps nodes_fill by auto
  show ?thesis
    using CurrentRowN_ok [OF row(2,1) refl ct nr(2)] shape_bounds(2) [of s c "PN l a r"] sh nr(1) row(1) br
    unfolding T by (simp add: CurrentRow_def xs add.commute)
qed

lemma rowcount_ok:
  assumes "shape s T" "counted s T"
  shows "\<exists>root. heap s (lpRoot s) = Some root \<and> ulBranchCount root = of_nat (vis (heap s) (inord T))"
  using assms by (auto simp: counted_def rootcnt_def hct_def ct_def)

lemma CurrentRow_end:
  "shape s T \<Longrightarrow> counted s T \<Longrightarrow> CurrentRow None s = Some (of_nat (vis (heap s) (inord T)))"
  using rowcount_ok by (fastforce simp: CurrentRow_def)

lemma CurrentRow_root: "CurrentRow (Some (lpRoot s)) s = Some 0"
  by (simp add: CurrentRow_def)

section \<open>Seeking\<close>

lemma vis_le_length: "vis h xs \<le> length xs"
  by (simp add: vis_def)

text \<open>What the descent promises: a row with k visible rows before it, or that k is past the end.\<close>

definition seekpost :: "rowheap \<Rightarrow> nat list \<Rightarrow> nat \<Rightarrow> nat option \<Rightarrow> bool" where
  "seekpost h xs k p \<longleftrightarrow> (case p of None \<Rightarrow> vis h xs \<le> k | Some b \<Rightarrow> \<exists>us ys. xs = us @ b # ys \<and> vis h us = k)"

lemma seekpost_here: "seekpost h (xs @ a # ys) (vis h xs) (Some a)"
  by (auto simp: seekpost_def)

lemma seekpost_left:
  "seekpost h xs k p \<Longrightarrow> (p = None \<Longrightarrow> vis h (xs @ a # ys) \<le> k) \<Longrightarrow> seekpost h (xs @ a # ys) k p"
  unfolding seekpost_def by (cases p) (simp, force)

lemma seekpost_right:
  assumes "seekpost h ys (k - vis h (xs @ [a])) p" "vis h (xs @ [a]) \<le> k"
  shows "seekpost h (xs @ a # ys) k p"
proof (cases p)
  case (Some b)
  then obtain us vs where "ys = us @ b # vs" "vis h us = k - vis h (xs @ [a])" using assms(1) by (auto simp: seekpost_def)
  then have "xs @ a # ys = (xs @ a # us) @ b # vs" "vis h (xs @ a # us) = k" using assms(2) by simp_all
  then show ?thesis unfolding seekpost_def Some option.case by blast
qed (use assms in \<open>auto simp: seekpost_def\<close>)

lemma of_nat_word32:
  assumes "i < 2 ^ 32" "j < 2 ^ 32"
  shows "(of_nat i :: uint32) = of_nat j \<longleftrightarrow> i = j" "(of_nat i :: uint32) < of_nat j \<longleftrightarrow> i < j"
  using assms by (simp_all add: word_less_nat_alt unat_of_nat word_unat_eq_iff)

lemma SeekRowN_ok:
  assumes "rep (heap s) (Some a) par fl t" "cntok (heap s) t" "ht t \<le> n" "k < 2 ^ 32" "length (inord t) < 2 ^ 32"
  shows "\<exists>p. SeekRowN n a (of_nat k) s = Some p \<and> seekpost (heap s) (inord t) k p"
  using assms
proof (induction n arbitrary: a par fl t k)
  case (Suc n)
  then obtain l r row where x: "t = PN l a r" "heap s a = Some row" "rep (heap s) (lpLeft row) (Some a) True l"
    "rep (heap s) (lpRight row) (Some a) False r" using rep_Some by blast
  let ?own = "if hid (heap s) a then 0 else 1 :: nat" and ?vl = "vis (heap s) (inord l)"
  have ct: "cntok (heap s) l" "cntok (heap s) r" "fHidden row = hid (heap s) a"
    using Suc.prems(2) counted_at(2) [OF _ x(2)] unfolding x(1) by auto
  have br: "branch s (lpLeft row) = Some (of_nat ?vl, of_nat (ht l))" using branch_rep [OF x(3) ct(1)] by blast
  have h: "ht l \<le> n" "ht r \<le> n" "?vl < 2 ^ 32" "length (inord l) < 2 ^ 32" "length (inord r) < 2 ^ 32"
    using Suc.prems(3,5) vis_le_length [of "heap s" "inord l"] by (auto simp: x(1))
  note w = of_nat_word32 [OF h(3) Suc.prems(4)] of_nat_word32(1) [OF Suc.prems(4), of 0]
  have eq: "inord t = inord l @ a # inord r" by (simp add: x(1))
  have own: "vis (heap s) (inord l @ [a]) = ?vl + ?own" by simp
  have goR: ?case if q: "lpRight row = Some q" and step: "SeekRowN (Suc n) a (of_nat k) s = SeekRowN n q (of_nat k - of_nat (?vl + ?own)) s"
    and le: "?vl + ?own \<le> k" for q
  proof -
    have "(of_nat k - of_nat (?vl + ?own) :: uint32) = of_nat (k - (?vl + ?own))" using le by (simp add: of_nat_diff)
    moreover obtain p where "SeekRowN n q (of_nat (k - (?vl + ?own))) s = Some p" "seekpost (heap s) (inord r) (k - (?vl + ?own)) p"
      using Suc.IH [of q "Some a" False r "k - (?vl + ?own)"] x(4) ct(2) h(2,5) less_imp_diff_less [OF Suc.prems(4)] q by auto
    ultimately show ?thesis using seekpost_right [of "heap s" "inord r" k "inord l" a p] le unfolding eq own step by auto
  qed
  have goL: ?case if q: "lpLeft row = Some q" and step: "SeekRowN (Suc n) a (of_nat k) s = SeekRowN n q (of_nat k) s"
    and le: "?vl \<le> k \<Longrightarrow> vis (heap s) (inord l @ a # inord r) \<le> k" for q
  proof -
    obtain p where p: "SeekRowN n q (of_nat k) s = Some p" "seekpost (heap s) (inord l) k p"
      using Suc.IH [of q "Some a" True l k] x(3) ct(1) h(1,4) Suc.prems(4) q by auto
    then have "p = None \<Longrightarrow> ?vl \<le> k" by (simp add: seekpost_def)
    then show ?thesis using p step seekpost_left [of "heap s" "inord l" k p a "inord r"] le unfolding eq by simp
  qed
  have stop: ?case if "?vl = k" "SeekRowN (Suc n) a (of_nat k) s = Some (Some a)"
    using that seekpost_here [of "heap s" "inord l" a "inord r"] unfolding eq by auto
  show ?case
  proof (cases "lpLeft row")
    case None
    then have l: "l = PL" using x(3) rep_None by metis
    show ?thesis
    proof (cases "k = 0")
      case True
      then show ?thesis using stop x(2) br None l by simp
    next
      case False
      then have k: "(of_nat k :: uint32) \<noteq> 0" using w(3) by simp
      show ?thesis
      proof (cases "lpRight row")
        case None': None
        then have "r = PL" using x(4) rep_None by metis
        then show ?thesis using x(2) br None None' k False unfolding eq by (simp add: seekpost_def l)
      next
        case (Some q)
        have "SeekRowN (Suc n) a (of_nat k) s = SeekRowN n q (of_nat k - of_nat (?vl + ?own)) s"
          using x(2) br None Some k ct(3) l by simp
        then show ?thesis using goR [OF Some] False l by simp
      qed
    qed
  next
    case (Some q)
    show ?thesis
    proof (cases "?vl = k")
      case True
      then show ?thesis using stop x(2) br Some by simp
    next
      case ne: False
      then have k: "(of_nat ?vl :: uint32) \<noteq> of_nat k" using w(1) by simp
      show ?thesis
      proof (cases "lpRight row")
        case None
        then have r: "r = PL" using x(4) rep_None by metis
        show ?thesis by (rule goL [OF Some]) (use x(2) br Some None k ne r in auto)
      next
        case (Some q')
        show ?thesis
        proof (cases "?vl < k")
          case True
          have "SeekRowN (Suc n) a (of_nat k) s = SeekRowN n q' (of_nat k - of_nat (?vl + ?own)) s"
            using x(2) br Some k ct(3) w(2) True \<open>lpLeft row = Some q\<close> by simp
          then show ?thesis using goR [OF Some] True by simp
        next
          case False
          show ?thesis by (rule goL [OF \<open>lpLeft row = Some q\<close>]) (use x(2) br Some k False w(2) \<open>lpLeft row = Some q\<close> ne in auto)
        qed
      qed
    qed
  qed
qed (auto dest: rep_Some)

end
