(* ===== verification/KeyTableQuery.thy ===== *)
theory KeyTableQuery
  imports KeyTableNav
begin

text \<open>
  SeekRow and QueryRows against the visible sequence of the table: seeking clamps the target
  position to the table, and reading from a position returns the visible rows from there.
\<close>

definition curok :: "keytable \<Rightarrow> ptree \<Rightarrow> bool" where
  "curok s T \<longleftrightarrow> (case lpCurrent s of None \<Rightarrow> True | Some a \<Rightarrow> a = lpRoot s \<or> a \<in> nodes T)"

definition KT :: "keytable \<Rightarrow> ptree \<Rightarrow> bool" where
  "KT s T \<longleftrightarrow> shape s T \<and> counted s T \<and> curok s T"

text \<open>The row count, the position of the cursor, and the visible rows.\<close>

definition rowcount :: "keytable \<Rightarrow> ptree \<Rightarrow> nat" where
  "rowcount s T = vis (heap s) (inord T)"

definition curpos :: "keytable \<Rightarrow> ptree \<Rightarrow> nat" where
  "curpos s T = (case lpCurrent s of None \<Rightarrow> rowcount s T
     | Some a \<Rightarrow> if a = lpRoot s then 0 else vis (heap s) (takeWhile (\<lambda>b. b \<noteq> a) (inord T)))"

lemma takeWhile_split: "distinct (xs @ a # ys) \<Longrightarrow> takeWhile (\<lambda>b. b \<noteq> a) (xs @ a # ys) = xs"
  by (induction xs) auto

lemma CurrentRow_cur:
  assumes "KT s T"
  shows "CurrentRow (lpCurrent s) s = Some (of_nat (curpos s T))"
proof -
  have K: "shape s T" "counted s T" "curok s T" using assms by (simp_all add: KT_def)
  show ?thesis
  proof (cases "lpCurrent s")
    case None
    then show ?thesis using CurrentRow_end [OF K(1,2)] by (simp add: curpos_def rowcount_def)
  next
    case (Some a)
    show ?thesis
    proof (cases "a = lpRoot s")
      case True
      then show ?thesis using Some by (simp add: curpos_def CurrentRow_root)
    next
      case False
      then obtain xs ys where eq: "inord T = xs @ a # ys" using K(3) Some split_list by (fastforce simp: curok_def)
      moreover have "distinct (inord T)" using K(1) by (simp add: shape_def)
      ultimately show ?thesis using CurrentRow_ok [OF K(1,2) eq] Some False by (simp add: curpos_def takeWhile_split)
    qed
  qed
qed

lemma GetRowCount_ok: "KT s T \<Longrightarrow> GetRowCount s = Some (of_nat (rowcount s T), of_nat (curpos s T))"
  using CurrentRow_cur rowcount_ok by (fastforce simp: GetRowCount_def KT_def rowcount_def)

lemma rowcount_bound: "KT s T \<Longrightarrow> rowcount s T < 2 ^ 31"
  using shape_length [of s T] vis_le_length [of "heap s" "inord T"] by (simp add: KT_def shape_def rowcount_def)

lemma vis_takeWhile: "vis h (takeWhile P xs) \<le> vis h xs"
  by (metis takeWhile_dropWhile_id le_add1 vis_simps(3))

lemma curpos_bound: "curpos s T \<le> rowcount s T"
  by (auto simp: curpos_def rowcount_def vis_takeWhile split: option.split)

section \<open>SeekRow\<close>

lemma sint_word_of_int32: "- (2 ^ 31) \<le> z \<Longrightarrow> z < 2 ^ 31 \<Longrightarrow> sint (word_of_int z :: uint32) = z"
  unfolding int_word_sint by simp

definition seek_base :: "uint32 \<Rightarrow> keytable \<Rightarrow> ptree \<Rightarrow> int" where
  "seek_base org s T = (if org = EC_SEEK_SET then 0 else if org = EC_SEEK_CUR then int (curpos s T) else int (rowcount s T))"

definition clamp_pos :: "int \<Rightarrow> nat \<Rightarrow> nat" where
  "clamp_pos z n = (if z < 0 then 0 else min (nat z) n)"

lemma clamp32:
  assumes "n < 2 ^ 31" "- (2 ^ 31) \<le> y" "y < 2 ^ 31"
  shows "(let x = (if sint (word_of_int y :: uint32) < 0 then 0 else word_of_int y) in if of_nat n \<le> x then of_nat n else x) = (of_nat (clamp_pos y n) :: uint32)"
proof (cases "y < 0")
  case True
  then show ?thesis using assms unfolding sint_word_of_int32 [OF assms(2,3)]
    by (simp add: clamp_pos_def unat_of_nat word_le_nat_alt Let_def)
next
  case False
  define m where "m = nat y"
  then have y: "y = int m" "m < 2 ^ 31" using False assms(3) by auto
  have "(of_nat n :: uint32) \<le> of_nat m \<longleftrightarrow> n \<le> m"
    using of_nat_word32(2) [of m n] assms(1) y(2) by (simp add: not_less [symmetric])
  then show ?thesis using assms(1) y(2) False unfolding sint_word_of_int32 [OF assms(2,3)]
    by (simp add: y(1) clamp_pos_def Let_def min_def)
qed

lemma seek_org_distinct [simp]:
  "EC_SEEK_SET \<noteq> EC_SEEK_CUR" "EC_SEEK_SET \<noteq> EC_SEEK_END" "EC_SEEK_CUR \<noteq> EC_SEEK_END"
  "EC_SEEK_CUR \<noteq> EC_SEEK_SET" "EC_SEEK_END \<noteq> EC_SEEK_SET" "EC_SEEK_END \<noteq> EC_SEEK_CUR"
  by (simp_all add: EC_SEEK_SET_def EC_SEEK_CUR_def EC_SEEK_END_def)

lemma SeekRow_dest:
  fixes w :: uint32
  assumes "GetRowCount s = Some (rc, cur)" "org \<in> {EC_SEEK_SET, EC_SEEK_CUR, EC_SEEK_END}"
  defines "b \<equiv> (if org = EC_SEEK_SET then 0 else if org = EC_SEEK_CUR then cur else rc)"
  defines "x \<equiv> (let x = (if sint (b + w) < 0 then 0 else b + w) in if rc \<le> x then rc else x)"
  shows "SeekRow org w s = (if rc = 0 then Some (erSuccess, x - b, s\<lparr>lpCurrent := Some (lpRoot s)\<rparr>)
     else do { root \<leftarrow> heap s (lpRoot s); top \<leftarrow> lpRight root; p \<leftarrow> SeekRowN (nextptr s) top x s;
               Some (erSuccess, x - b, s\<lparr>lpCurrent := p\<rparr>) })"
  using assms(2) unfolding x_def b_def by (auto simp: SeekRow_def assms(1) Let_def)

lemma SeekRow_ok:
  assumes K: "KT s T" and org: "org \<in> {EC_SEEK_SET, EC_SEEK_CUR, EC_SEEK_END}"
    and z: "- (2 ^ 31) \<le> seek_base org s T + z" "seek_base org s T + z < 2 ^ 31"
  defines "d \<equiv> clamp_pos (seek_base org s T + z) (rowcount s T)"
  shows "\<exists>p. SeekRow org (word_of_int z) s = Some (erSuccess, word_of_int (int d - seek_base org s T), s\<lparr>lpCurrent := p\<rparr>) \<and>
    (if rowcount s T = 0 then p = Some (lpRoot s) else seekpost (heap s) (inord T) d p)"
proof -
  let ?b = "seek_base org s T" and ?n = "rowcount s T"
  have n: "?n < 2 ^ 31" using K by (rule rowcount_bound)
  have d: "d \<le> ?n" by (simp add: d_def clamp_pos_def)
  obtain root where root: "heap s (lpRoot s) = Some root" "rep (heap s) (lpRight root) (Some (lpRoot s)) False T"
    using shape_root K by (fastforce simp: KT_def)
  have base: "(if org = EC_SEEK_SET then 0 else if org = EC_SEEK_CUR then of_nat (curpos s T) else of_nat ?n) = (word_of_int ?b :: uint32)"
    by (simp add: seek_base_def)
  have wd: "(word_of_int ?b + word_of_int z :: uint32) = word_of_int (?b + z)" by simp
  have rc0: "(of_nat ?n :: uint32) = 0 \<longleftrightarrow> ?n = 0" using of_nat_word32(1) [of ?n 0] n by simp
  have sought: "(of_nat d - word_of_int ?b :: uint32) = word_of_int (int d - ?b)" by simp
  note eq = SeekRow_dest [OF GetRowCount_ok [OF K] org, of "word_of_int z", unfolded base wd clamp32 [OF n z] rc0 sought, folded d_def]
  show ?thesis
  proof (cases "?n = 0")
    case True
    then show ?thesis using eq by auto
  next
    case False
    then obtain q where q: "lpRight root = Some q" using root(2) by (cases T) (auto simp: rowcount_def)
    have "ht T \<le> nextptr s" "d < 2 ^ 32" "length (inord T) < 2 ^ 32"
      using K n d shape_length [of s T] ht_le [of T] by (auto simp: KT_def shape_def)
    then obtain p where "SeekRowN (nextptr s) q (of_nat d) s = Some p" "seekpost (heap s) (inord T) d p"
      using SeekRowN_ok [of s q "Some (lpRoot s)" False T "nextptr s" d] root(2) K q by (auto simp: KT_def counted_def)
    then show ?thesis using eq root(1) q False by auto
  qed
qed

text \<open>The position after a seek is the clamped target.\<close>

lemma seekpost_curpos:
  assumes "KT s T" "seekpost (heap s) (inord T) d p" "d \<le> rowcount s T"
  shows "KT (s\<lparr>lpCurrent := p\<rparr>) T \<and> curpos (s\<lparr>lpCurrent := p\<rparr>) T = d"
proof -
  have K: "shape (s\<lparr>lpCurrent := p\<rparr>) T" "counted (s\<lparr>lpCurrent := p\<rparr>) T" "distinct (inord T)" "lpRoot s \<notin> nodes T"
    using assms(1) by (simp_all add: KT_def shape_def counted_def)
  show ?thesis
  proof (cases p)
    case None
    then show ?thesis using K assms(2,3) by (simp add: KT_def curok_def curpos_def seekpost_def rowcount_def)
  next
    case (Some b)
    then obtain us ys where eq: "inord T = us @ b # ys" "vis (heap s) us = d" using assms(2) by (auto simp: seekpost_def)
    then have "takeWhile (\<lambda>a. a \<noteq> b) (inord T) = us" "b \<noteq> lpRoot s" using K(3,4) takeWhile_split [of us b ys] by auto
    then show ?thesis using K eq Some by (auto simp: KT_def curok_def curpos_def)
  qed
qed

section \<open>QueryRows\<close>

fun qrest :: "(nat \<Rightarrow> bool) \<Rightarrow> nat \<Rightarrow> nat list \<Rightarrow> nat list" where
  "qrest P 0 zs = zs"
| "qrest P (Suc k) [] = []"
| "qrest P (Suc k) (z # zs) = (if P z then qrest P k zs else qrest P (Suc k) zs)"

definition head_opt :: "nat list \<Rightarrow> nat option" where
  "head_opt zs = (case zs of [] \<Rightarrow> None | z # _ \<Rightarrow> Some z)"

definition key_of :: "rowheap \<Rightarrow> nat \<Rightarrow> objkey" where
  "key_of h a = (case h a of None \<Rightarrow> ObjKey 0 0 | Some r \<Rightarrow> sKey r)"

declare QueryRowsN.simps [simp del]

lemma QueryRowsN_step:
  assumes "lpCurrent s = Some z" "heap s z = Some row" "heap s (lpRoot s) = Some root" "ulRows \<noteq> 0" "Next s = Some s'"
  shows "QueryRowsN (Suc m) ulRows False hidden s = do {
     (ks, t) \<leftarrow> QueryRowsN m (if \<not> fHidden row \<or> hidden then ulRows - 1 else ulRows) False hidden s';
     Some (if \<not> fHidden row \<or> hidden then sKey row # ks else ks, t) }"
  by (subst QueryRowsN.simps) (simp add: assms deref_def)

lemma QueryRowsN_stop: "ulRows = 0 \<or> lpCurrent s = None \<Longrightarrow> QueryRowsN n ulRows back hidden s = Some ([], s)"
  by (subst QueryRowsN.simps) auto

lemma QueryRowsN_ok:
  assumes "shape s T" "lpCurrent s = head_opt zs" "lpRoot s # inord T = pre @ zs" "length zs \<le> n" "k < 2 ^ 32"
  shows "QueryRowsN n (of_nat k) False hidden s =
    Some (map (key_of (heap s)) (take k (filter (\<lambda>a. hidden \<or> \<not> hid (heap s) a) zs)),
          s\<lparr>lpCurrent := head_opt (qrest (\<lambda>a. hidden \<or> \<not> hid (heap s) a) k zs)\<rparr>)"
  using assms
proof (induction zs arbitrary: s k n pre)
  case Nil
  then show ?case by (cases k) (simp_all add: head_opt_def QueryRowsN_stop)
next
  case (Cons z zs)
  obtain m where n: "n = Suc m" using Cons.prems(4) by (cases n) auto
  obtain root where root: "heap s (lpRoot s) = Some root" using shape_root Cons.prems(1) by blast
  have "z = lpRoot s \<or> z \<in> nodes T" using Cons.prems(3) by (metis in_set_conv_decomp set_ConsD)
  then obtain row where row: "heap s z = Some row"
    using root shape_at split_node Cons.prems(1) by metis
  have hidz: "hid (heap s) z = fHidden row" "key_of (heap s) z = sKey row" using row by (simp_all add: hid_def key_of_def)
  have nx: "Next s = Some (s\<lparr>lpCurrent := head_opt zs\<rparr>)"
    using Next_step [OF Cons.prems(1) _ Cons.prems(3)] Cons.prems(2) by (simp add: head_opt_def)
  have k0: "(of_nat k :: uint32) = 0 \<longleftrightarrow> k = 0" using of_nat_word32(1) [OF Cons.prems(5), of 0] by simp
  have sh: "shape (s\<lparr>lpCurrent := head_opt zs\<rparr>) T" using Cons.prems(1) by (simp add: shape_def)
  have IH: "QueryRowsN m (of_nat k') False hidden (s\<lparr>lpCurrent := head_opt zs\<rparr>) =
    Some (map (key_of (heap s)) (take k' (filter (\<lambda>a. hidden \<or> \<not> hid (heap s) a) zs)),
          s\<lparr>lpCurrent := head_opt (qrest (\<lambda>a. hidden \<or> \<not> hid (heap s) a) k' zs)\<rparr>)" if "k' \<le> k" for k'
    using Cons.IH [OF sh, of "pre @ [z]" m k'] Cons.prems that by (simp add: n)
  show ?case
  proof (cases k)
    case 0
    then show ?thesis using Cons.prems(2) by (simp add: QueryRowsN_stop)
  next
    case (Suc k')
    have w: "(of_nat k - 1 :: uint32) = of_nat k'" by (simp add: Suc)
    have "(of_nat k :: uint32) \<noteq> 0" using k0 Suc by simp
    then show ?thesis
      using QueryRowsN_step [OF _ row root _ nx, of "of_nat k" m hidden] Cons.prems(2) IH [of k] IH [of k'] hidz
      unfolding n w by (auto simp: head_opt_def Suc)
  qed
qed

definition visrows :: "keytable \<Rightarrow> ptree \<Rightarrow> nat list" where
  "visrows s T = filter (\<lambda>a. \<not> hid (heap s) a) (inord T)"

lemma length_visrows: "length (visrows s T) = rowcount s T"
  by (simp add: visrows_def rowcount_def vis_def)

lemma QueryRows_forward:
  assumes K: "KT s T" and eq: "inord T = pre @ zs" and cur: "lpCurrent s = head_opt zs" and k: "k < 2 ^ 32"
  shows "QueryRows (of_nat k) False fl False s =
     Some (map (key_of (heap s)) (take k (filter (\<lambda>a. \<not> hid (heap s) a) zs)),
       s\<lparr>lpCurrent := if fl AND EC_TABLE_NOADVANCE \<noteq> 0 then lpCurrent s
                      else head_opt (qrest (\<lambda>a. \<not> hid (heap s) a) (min (rowcount s T) k) zs)\<rparr>)"
proof -
  let ?n = "rowcount s T"
  have sh: "shape s T" "counted s T" using K by (simp_all add: KT_def)
  obtain root where root: "heap s (lpRoot s) = Some root" "ulBranchCount root = of_nat ?n"
    using rowcount_ok [OF sh] by (auto simp: rowcount_def)
  have ne: "lpCurrent s \<noteq> Some (lpRoot s)" using sh(1) eq cur by (auto simp: shape_def head_opt_def split: list.splits)
  have n: "?n < 2 ^ 32" using rowcount_bound [OF K] by simp
  have m: "(if (of_nat ?n :: uint32) < of_nat k then of_nat ?n else of_nat k) = (of_nat (min ?n k) :: uint32)"
    using of_nat_word32(2) [OF n k] by (simp add: min_def)
  have len: "length zs \<le> Suc (nextptr s)" using shape_length [OF sh(1)] eq by simp
  have mk: "min ?n k < 2 ^ 32" using n by simp
  have "length (filter (\<lambda>a. \<not> hid (heap s) a) zs) \<le> ?n" by (simp add: rowcount_def vis_def eq)
  then have tk: "take (min ?n k) (filter (\<lambda>a. \<not> hid (heap s) a) zs) = take k (filter (\<lambda>a. \<not> hid (heap s) a) zs)"
    by (simp add: min_def)
  have pre: "lpRoot s # inord T = (lpRoot s # pre) @ zs" using eq by simp
  have "QueryRows (of_nat k) False fl False s = do {
      (ks, t) \<leftarrow> QueryRowsN (Suc (nextptr s)) (if (of_nat ?n :: uint32) < of_nat k then of_nat ?n else of_nat k) False False s;
      Some (ks, if fl AND EC_TABLE_NOADVANCE \<noteq> 0 then t\<lparr>lpCurrent := lpCurrent s\<rparr> else t) }"
    unfolding QueryRows_def Let_def using root ne by simp
  then show ?thesis
    using QueryRowsN_ok [OF sh(1) cur pre len mk, of False] tk unfolding m by simp
qed

lemma seekpost_suffix:
  assumes "seekpost h xs k p" "k < vis h xs"
  shows "\<exists>pre zs. xs = pre @ zs \<and> p = head_opt zs \<and> filter (\<lambda>a. \<not> hid h a) zs = drop k (filter (\<lambda>a. \<not> hid h a) xs)"
proof -
  obtain b us ys where x: "p = Some b" "xs = us @ b # ys" "vis h us = k" using assms by (auto simp: seekpost_def split: option.splits)
  then show ?thesis by (intro exI [of _ us] exI [of _ "b # ys"]) (auto simp: head_opt_def vis_def)
qed

lemma seekpost_end:
  assumes "seekpost h xs k p" "vis h xs \<le> k"
  shows "\<exists>pre zs. xs = pre @ zs \<and> p = head_opt zs \<and> filter (\<lambda>a. \<not> hid h a) zs = []"
proof (cases p)
  case None
  then show ?thesis by (intro exI [of _ xs] exI [of _ "[]"]) (simp add: head_opt_def)
next
  case (Some b)
  then obtain us ys where x: "xs = us @ b # ys" "vis h us = k" using assms by (auto simp: seekpost_def)
  then have "length (filter (\<lambda>a. \<not> hid h a) (b # ys)) = 0" using assms(2) unfolding vis_def by simp
  then show ?thesis using x(1) Some by (intro exI [of _ us] exI [of _ "b # ys"]) (simp add: head_opt_def split: if_splits)
qed

lemma SeekRow_set_suffix:
  assumes K: "KT s T" and k: "k < 2 ^ 31" and ne: "rowcount s T \<noteq> 0"
  shows "\<exists>r pre zs. SeekRow EC_SEEK_SET (of_nat k) s = Some (erSuccess, r, s\<lparr>lpCurrent := head_opt zs\<rparr>) \<and>
    inord T = pre @ zs \<and> filter (\<lambda>a. \<not> hid (heap s) a) zs = drop k (visrows s T) \<and> KT (s\<lparr>lpCurrent := head_opt zs\<rparr>) T"
proof -
  let ?d = "min k (rowcount s T)"
  have b: "seek_base EC_SEEK_SET s T = 0" by (simp add: seek_base_def)
  obtain p where p: "SeekRow EC_SEEK_SET (of_nat k) s = Some (erSuccess, of_nat ?d, s\<lparr>lpCurrent := p\<rparr>)"
    "seekpost (heap s) (inord T) ?d p"
    using SeekRow_ok [OF K, of EC_SEEK_SET "int k"] k ne unfolding b by (auto simp: clamp_pos_def)
  have "\<exists>pre zs. inord T = pre @ zs \<and> p = head_opt zs \<and> filter (\<lambda>a. \<not> hid (heap s) a) zs = drop k (visrows s T)"
  proof (cases "k < rowcount s T")
    case True
    then show ?thesis using seekpost_suffix [OF p(2)] by (simp add: visrows_def rowcount_def)
  next
    case False
    then have "drop k (visrows s T) = []" by (simp add: length_visrows)
    then show ?thesis using False seekpost_end [OF p(2)] by (simp add: rowcount_def)
  qed
  then show ?thesis using p seekpost_curpos [OF K p(2)] by auto
qed

lemma seek_query:
  assumes K: "KT s T" and k: "k < 2 ^ 31" and n: "n < 2 ^ 32"
  shows "\<exists>r s1 s2. SeekRow EC_SEEK_SET (of_nat k) s = Some (erSuccess, r, s1) \<and>
    QueryRows (of_nat n) False fl False s1 = Some (map (key_of (heap s)) (take n (drop k (visrows s T))), s2) \<and> heap s2 = heap s"
proof (cases "rowcount s T = 0")
  case True
  then have v: "visrows s T = []" using length_visrows [of s T] by simp
  have b: "seek_base EC_SEEK_SET s T = 0" by (simp add: seek_base_def)
  obtain r where "SeekRow EC_SEEK_SET (of_nat k) s = Some (erSuccess, r, s\<lparr>lpCurrent := Some (lpRoot s)\<rparr>)"
    using SeekRow_ok [OF K, of EC_SEEK_SET "int k"] k True unfolding b by (auto simp: clamp_pos_def)
  moreover obtain root where "heap s (lpRoot s) = Some root" "ulBranchCount root = 0"
    using rowcount_ok [of s T] K True by (auto simp: rowcount_def KT_def)
  ultimately show ?thesis by (auto simp: QueryRows_def v QueryRowsN_stop Let_def word_gt_0)
next
  case False
  obtain r pre zs where s1: "SeekRow EC_SEEK_SET (of_nat k) s = Some (erSuccess, r, s\<lparr>lpCurrent := head_opt zs\<rparr>)"
    "inord T = pre @ zs" "filter (\<lambda>a. \<not> hid (heap s) a) zs = drop k (visrows s T)" "KT (s\<lparr>lpCurrent := head_opt zs\<rparr>) T"
    using SeekRow_set_suffix [OF K k False] by blast
  show ?thesis using s1 QueryRows_forward [OF s1(4,2) _ n, of fl] by auto
qed

end
