(* ===== verification/KeyTableLink.thy ===== *)
theory KeyTableLink
  imports KeyTableIns KeyTableQuery
begin

text \<open>
  Adding a row refines insertion into the ordered sequence of rows: the table invariant
  \<open>tinv\<close>, the abstraction \<open>view\<close> of a table as its list of rows, and the proof that
  link_row inserts at the place its comparison function gives and keeps the tree balanced.
\<close>

section \<open>The leaf position\<close>

fun leafctx :: "(nat \<Rightarrow> bool) \<Rightarrow> ptree \<Rightarrow> pctx \<Rightarrow> pctx" where
  "leafctx P PL c = c"
| "leafctx P (PN l a r) c = (if P a then leafctx P l ((True, a, r) # c) else leafctx P r ((False, a, l) # c))"

lemma fill_leafctx: "fill (leafctx P t c) PL = fill c t"
  by (induction P t c rule: leafctx.induct) auto

lemma leafctx_order:
  assumes "sorted_wrt (\<lambda>a b. P a \<longrightarrow> P b) (inord t)"
  shows "cbefore (leafctx P t c) = cbefore c @ filter (\<lambda>a. \<not> P a) (inord t) \<and>
    cafter (leafctx P t c) = filter P (inord t) @ cafter c"
  using assms
proof (induction P t c rule: leafctx.induct)
  case (2 P l a r c)
  have srt: "sorted_wrt (\<lambda>a b. P a \<longrightarrow> P b) (inord l)" "sorted_wrt (\<lambda>a b. P a \<longrightarrow> P b) (inord r)"
    "\<forall>b \<in> nodes r. P a \<longrightarrow> P b" "\<forall>b \<in> nodes l. P b \<longrightarrow> P a"
    using "2.prems" unfolding inord.simps sorted_wrt_append sorted_wrt.simps(2) by (blast intro: list.set_intros)+
  show ?case
  proof (cases "P a")
    case True
    then have "filter (\<lambda>a. \<not> P a) (inord r) = []" "filter P (inord r) = inord r"
      using srt(3) unfolding filter_empty_conv filter_id_conv by blast+
    then show ?thesis using "2.IH"(1) [OF True srt(1)] True by simp
  next
    case False
    then have "filter P (inord l) = []" "filter (\<lambda>a. \<not> P a) (inord l) = inord l"
      using srt(4) unfolding filter_empty_conv filter_id_conv by blast+
    then show ?thesis using "2.IH"(2) [OF False srt(2)] False by simp
  qed
qed simp

definition cside :: "pctx \<Rightarrow> bool" where
  "cside c = (case c of [] \<Rightarrow> False | (d, _, _) # _ \<Rightarrow> d)"

lemma repc_cside: "repc h root p par fl c \<Longrightarrow> par = Some (cpar root c) \<and> fl = cside c"
  by (cases c) (auto simp: cpar_def cside_def)

lemma find_leafN_ok:
  assumes "rep (heap s) (Some a) par fl t" "ht t \<le> n"
    and "\<And>b row. b \<in> nodes t \<Longrightarrow> heap s b = Some row \<Longrightarrow> rowcompare ck new row = P b"
  shows "find_leafN ck n new a s = Some (cpar root (leafctx P t c), cside (leafctx P t c))"
  using assms
proof (induction n arbitrary: a par fl t c)
  case (Suc n)
  then obtain l r row where x: "t = PN l a r" "heap s a = Some row" "rep (heap s) (lpLeft row) (Some a) True l"
    "rep (heap s) (lpRight row) (Some a) False r" using rep_Some by blast
  have P: "rowcompare ck new row = P a" using Suc.prems(3) x by simp
  have h: "ht l \<le> n" "ht r \<le> n" using Suc.prems(2) by (auto simp: x(1))
  show ?case
  proof (cases "P a")
    case True
    show ?thesis
    proof (cases "lpLeft row")
      case None
      then have "l = PL" using x(3) rep_None by metis
      then show ?thesis using x(1,2) P True None by (simp add: cpar_def cside_def)
    next
      case (Some q)
      have "find_leafN ck n new q s = Some (cpar root (leafctx P l ((True, a, r) # c)), cside (leafctx P l ((True, a, r) # c)))"
        by (rule Suc.IH) (use x Some h Suc.prems(3) in auto)
      then show ?thesis using x(1,2) P True Some by simp
    qed
  next
    case False
    show ?thesis
    proof (cases "lpRight row")
      case None
      then have "r = PL" using x(4) rep_None by metis
      then show ?thesis using x(1,2) P False None by (simp add: cpar_def cside_def)
    next
      case (Some q)
      have "find_leafN ck n new q s = Some (cpar root (leafctx P r ((False, a, l) # c)), cside (leafctx P r ((False, a, l) # c)))"
        by (rule Suc.IH) (use x Some h Suc.prems(3) in auto)
      then show ?thesis using x(1,2) P False Some by simp
    qed
  qed
qed (auto dest: rep_Some)

text \<open>The predecessor that is reported for a leaf position.\<close>

lemma leaf_predecessor_ok:
  assumes "shape s (fill c PL)"
  shows "leaf_predecessor (cpar (lpRoot s) c) (cside c) s = Some (key_of (heap s) (last (lpRoot s # cbefore c)))"
proof -
  from assms obtain par fl where rc: "repc (heap s) (lpRoot s) None par fl c" unfolding shape_split by auto
  have row: "\<exists>row. heap s b = Some row" if "b \<in> insert (lpRoot s) (nodes (fill c PL))" for b
    using that shape_root [OF assms] shape_at split_node assms by (metis insertE)
  show ?thesis
  proof (cases c)
    case Nil
    then show ?thesis using row [of "lpRoot s"] by (auto simp: leaf_predecessor_def cpar_def cside_def key_of_def)
  next
    case (Cons x c')
    obtain d b u where x: "x = (d, b, u)" by (cases x)
    have b: "b \<in> nodes (fill c PL)" by (simp add: Cons x nodes_fill)
    then obtain row where r: "heap s b = Some row" using row by blast
    have last: "last (lpRoot s # cbefore c) \<in> insert (lpRoot s) (nodes (fill c PL))"
      using last_in_set [of "lpRoot s # cbefore c"] by (auto simp: inord_fill)
    show ?thesis
    proof (cases d)
      case True
      have "repc (heap s) (lpRoot s) (Some b) (lpParent row) (fLeft row) c'"
        using rc r by (auto simp: Cons x True hlk_def lk_def)
      then obtain q where "climbN (nextptr s) True (Some b) s = Some (Some q)"
        "parent_of (Some q) s = Some (Some (last (lpRoot s # cbefore c')))"
        using climb_left [OF _ r, of "lpRoot s" "Some b" c' "nextptr s"] shape_bounds(2) [OF assms] by (auto simp: Cons)
      then show ?thesis using row [OF last] by (auto simp: leaf_predecessor_def Cons x True cpar_def cside_def key_of_def)
    next
      case False
      then show ?thesis using r by (simp add: leaf_predecessor_def Cons x cpar_def cside_def key_of_def)
    qed
  qed
qed

section \<open>The invariant of a table\<close>

definition sortkey :: "rowheap \<Rightarrow> nat \<Rightarrow> rowkey" where
  "sortkey h a = (case h a of None \<Rightarrow> ([], None) | Some r \<Rightarrow> (lppSortKeys r, KeyTable.lpFlags r))"

definition rows_ok :: "ckcompare \<Rightarrow> byte list \<Rightarrow> keytable \<Rightarrow> ptree \<Rightarrow> bool" where
  "rows_ok ck F s T \<longleftrightarrow>
     (\<forall>a \<in> nodes T. (\<exists>r. heap s a = Some r \<and> \<not> fRoot r) \<and> rowkey_ok ck F (sortkey (heap s) a)) \<and>
     (\<exists>r. heap s (lpRoot s) = Some r \<and> fRoot r \<and> sKey r = ObjKey 0 0) \<and>
     sorted_by (rowkey_less ck) (map (sortkey (heap s)) (inord T))"

definition index_ok :: "keytable \<Rightarrow> ptree \<Rightarrow> bool" where
  "index_ok s T \<longleftrightarrow> (\<forall>k a. mapRow s k = Some a \<longleftrightarrow> a \<in> nodes T \<and> key_of (heap s) a = k) \<and>
     dom (heap s) = insert (lpRoot s) (nodes T)"

definition tinv :: "ckcompare \<Rightarrow> byte list \<Rightarrow> keytable \<Rightarrow> ptree \<Rightarrow> bool" where
  "tinv ck F s T \<longleftrightarrow> KT s T \<and> avl T \<and> rows_ok ck F s T \<and> index_ok s T"

text \<open>A table as the list of its rows: id, sort data and visibility.\<close>

type_synonym rowview = "objkey \<times> rowkey \<times> bool"

definition rview :: "rowheap \<Rightarrow> nat \<Rightarrow> rowview" where
  "rview h a = (key_of h a, sortkey h a, hid h a)"

definition view :: "keytable \<Rightarrow> ptree \<Rightarrow> rowview list" where
  "view s T = map (rview (heap s)) (inord T)"

definition vless :: "ckcompare \<Rightarrow> rowview \<Rightarrow> rowview \<Rightarrow> bool" where
  "vless ck a b = rowkey_less ck (fst (snd a)) (fst (snd b))"

lemma hdt_view: "hdt h a = hdt h' a \<Longrightarrow> rview h a = rview h' a"
  by (auto simp: rview_def hdt_def key_of_def sortkey_def hid_def dt_def split: option.splits)

lemma sorted_wrt_P:
  assumes K: "rows_ok ck F s T" and k: "rowkey_ok ck F k"
  shows "sorted_wrt (\<lambda>a b. rowkey_less ck k (sortkey (heap s) a) \<longrightarrow> rowkey_less ck k (sortkey (heap s) b)) (inord T)"
proof -
  have srt: "sorted_wrt (\<lambda>a b. \<not> rowkey_less ck (sortkey (heap s) b) (sortkey (heap s) a)) (inord T)"
    using K by (simp add: rows_ok_def sorted_by_def sorted_wrt_map)
  have ok: "rowkey_ok ck F (sortkey (heap s) a)" if "a \<in> nodes T" for a using K that by (simp add: rows_ok_def)
  show ?thesis
    by (rule sorted_wrt_mono_rel [OF _ srt]) (use rowcmp.less_up [OF k ok ok] in blast)
qed

lemma filter_takeWhile:
  "sorted_wrt (\<lambda>a b. P a \<longrightarrow> P b) xs \<Longrightarrow> filter (\<lambda>a. \<not> P a) xs = takeWhile (\<lambda>a. \<not> P a) xs \<and> filter P xs = dropWhile (\<lambda>a. \<not> P a) xs"
proof (induction xs)
  case (Cons x xs)
  then have IH: "filter (\<lambda>a. \<not> P a) xs = takeWhile (\<lambda>a. \<not> P a) xs \<and> filter P xs = dropWhile (\<lambda>a. \<not> P a) xs" by simp
  show ?case
  proof (cases "P x")
    case True
    then have "\<forall>y \<in> set xs. P y" using Cons.prems unfolding sorted_wrt.simps by blast
    then show ?thesis using True by (simp add: filter_empty_conv filter_id_conv)
  qed (use IH in simp)
qed simp

lemma takeWhile_map_P: "takeWhile P (map f xs) = map f (takeWhile (\<lambda>a. P (f a)) xs)"
  "dropWhile P (map f xs) = map f (dropWhile (\<lambda>a. P (f a)) xs)"
  by (induction xs) auto

text \<open>The new leaf sits where insertion into the ordered list puts it.\<close>

lemma leaf_insert:
  assumes K: "rows_ok ck F s T" and k: "rowkey_ok ck F k"
  defines "c \<equiv> leafctx (\<lambda>a. rowkey_less ck k (sortkey (heap s) a)) T []"
  shows "insert_by (vless ck) (kid, k, hidden) (view s T) =
    map (rview (heap s)) (cbefore c) @ (kid, k, hidden) # map (rview (heap s)) (cafter c)"
    "insert_by (rowkey_less ck) k (map (sortkey (heap s)) (inord T)) =
    map (sortkey (heap s)) (cbefore c) @ k # map (sortkey (heap s)) (cafter c)"
proof -
  let ?P = "\<lambda>a. rowkey_less ck k (sortkey (heap s) a)"
  have "cbefore c = takeWhile (\<lambda>a. \<not> ?P a) (inord T)" "cafter c = dropWhile (\<lambda>a. \<not> ?P a) (inord T)"
    using leafctx_order [OF sorted_wrt_P [OF K k], of "[]"] filter_takeWhile [OF sorted_wrt_P [OF K k]]
    unfolding c_def by simp_all
  then show "insert_by (vless ck) (kid, k, hidden) (view s T) =
    map (rview (heap s)) (cbefore c) @ (kid, k, hidden) # map (rview (heap s)) (cafter c)"
    "insert_by (rowkey_less ck) k (map (sortkey (heap s)) (inord T)) =
    map (sortkey (heap s)) (cbefore c) @ k # map (sortkey (heap s)) (cafter c)"
    by (simp_all add: insert_by_def view_def takeWhile_map_P vless_def rview_def)
qed

section \<open>Linking a row\<close>

lemma find_leaf_root:
  assumes K: "shape s T" "rows_ok ck F s T" and new: "\<not> fRoot new" "k = (lppSortKeys new, KeyTable.lpFlags new)"
  defines "c \<equiv> leafctx (\<lambda>a. rowkey_less ck k (sortkey (heap s) a)) T []"
  shows "find_leafN ck (nextptr s) new (lpRoot s) s = Some (cpar (lpRoot s) c, cside c)"
proof -
  obtain root where root: "heap s (lpRoot s) = Some root" "rep (heap s) (lpRight root) (Some (lpRoot s)) False T" "fRoot root"
    using shape_root [OF K(1)] K(2) by (auto simp: rows_ok_def)
  obtain n where n: "nextptr s = Suc n" using K(1) unfolding shape_def by (cases "nextptr s") auto
  have rc: "\<not> rowcompare ck new root" using new root by (simp add: rowcompare_def)
  show ?thesis
  proof (cases "lpRight root")
    case None
    then have "T = PL" using root(2) rep_None by metis
    then show ?thesis using root rc None by (simp add: n c_def cpar_def cside_def)
  next
    case (Some q)
    have "rowcompare ck new row = rowkey_less ck k (sortkey (heap s) b)" if "b \<in> nodes T" "heap s b = Some row" for b row
      using K(2) that new by (auto simp: rowcompare_def rows_ok_def rowkey_less_def sortkey_def)
    moreover have "ht T \<le> n" using shape_length [OF K(1)] ht_le [of T] n by simp
    ultimately have "find_leafN ck n new q s = Some (cpar (lpRoot s) c, cside c)"
      unfolding c_def using root(2) Some by (intro find_leafN_ok [where par = "Some (lpRoot s)" and fl = False]) auto
    then show ?thesis using root rc Some by (simp add: n)
  qed
qed

text \<open>Attaching the new row object as a leaf.\<close>

lemma attach_leaf:
  assumes K: "KT s (fill c PL)" "avl (fill c PL)" and fresh: "heap s (nextptr s) = None" and n: "nextptr s + 1 < 2 ^ 31"
    and new: "lpLeft new = None" "lpRight new = None"
  defines "a \<equiv> nextptr s" and "s1 \<equiv> s\<lparr>heap := (heap s)(nextptr s \<mapsto> new\<lparr>lpParent := Some (cpar (lpRoot s) c), fLeft := cside c\<rparr>), nextptr := Suc (nextptr s)\<rparr>"
  shows "\<exists>h'. set_leg (Some (cpar (lpRoot s) c)) (cside c) (Some a) s1 = Some (s1\<lparr>heap := h'\<rparr>) \<and>
    shape (s1\<lparr>heap := h'\<rparr>) (fill c (PN PL a PL)) \<and> sibok h' c \<and> hdt h' = (hdt (heap s))(a \<mapsto> dt new) \<and>
    dom h' = insert a (dom (heap s))"
proof -
  let ?q = "cpar (lpRoot s) c" and ?new = "new\<lparr>lpParent := Some (cpar (lpRoot s) c), fLeft := cside c\<rparr>"
  have sh: "shape s (fill c PL)" "counted s (fill c PL)" using K by (simp_all add: KT_def)
  obtain par fl where r: "repc (heap s) (lpRoot s) None par fl c" using sh(1) unfolding shape_split by auto
  with repc_cside [OF r] have rc: "repc (heap s) (lpRoot s) None (Some ?q) (cside c) c" by simp
  obtain x where q: "?q \<in> insert (lpRoot s) (cnodes c)" "hlk (heap s) ?q = Some x" using repc_par [OF rc] by auto
  obtain row where row: "heap s ?q = Some row" using q(2) by (auto simp: hlk_def)
  have aq: "a \<noteq> ?q" using row fresh by (auto simp: a_def)
  have anew: "a \<notin> insert (lpRoot s) (cnodes c)" using sh(1) unfolding shape_def nodes_fill a_def by (auto simp: nodes_fill)
  let ?f = "\<lambda>r. if cside c then r\<lparr>lpLeft := Some a\<rparr> else r\<lparr>lpRight := Some a\<rparr>"
  define h' where "h' = (heap s)(a \<mapsto> ?new, ?q \<mapsto> ?f row)"
  have set: "set_leg (Some ?q) (cside c) (Some a) s1 = Some (s1\<lparr>heap := h'\<rparr>)"
    using row aq by (simp add: s1_def a_def [symmetric] set_leg_def upd_def h'_def)
  have lk: "hlk h' b = (if b = ?q then map_option (\<lambda>(q, l, r, f). (q, if cside c then Some a else l, if cside c then r else Some a, f)) (hlk (heap s) b)
      else hlk (heap s) b)" if "b \<noteq> a" for b
    using that row by (auto simp: h'_def hlk_def lk_def)
  have cd: "cdistinct c" "lpRoot s \<notin> cnodes c" using sh(1) unfolding shape_def distinct.simps distinct_fill nodes_fill by auto
  have "repc h' (lpRoot s) (Some a) (Some ?q) (cside c) c"
  proof (rule repc_leg [OF rc cd])
    fix b assume "b \<in> insert (lpRoot s) (cnodes c)"
    then have "b \<noteq> a" using anew by blast
    then show "hlk h' b = (if Some b = Some ?q then map_option (\<lambda>(q, l, r, f). (q, if cside c then Some a else l, if cside c then r else Some a, f)) (hlk (heap s) b) else hlk (heap s) b)"
      using lk by simp
  qed
  moreover have "rep h' (Some a) (Some ?q) (cside c) (PN PL a PL)"
    using aq new by (simp add: h'_def hlk_def lk_def)
  moreover have "distinct (lpRoot s # inord (fill c (PN PL a PL)))" "\<forall>b \<in> set (lpRoot s # inord (fill c (PN PL a PL))). b < Suc (nextptr s)"
    using sh(1) anew unfolding shape_def distinct.simps distinct_fill nodes_fill by (auto simp: a_def nodes_fill less_Suc_eq)
  ultimately have "shape (s1\<lparr>heap := h'\<rparr>) (fill c (PN PL a PL))"
    unfolding shape_split using n by (auto simp: s1_def)
  moreover have "sibok h' c \<longleftrightarrow> sibok (heap s) c"
    using anew row by (intro sibok_cong) (auto simp: h'_def hct_def hdt_def ct_def dt_def)
  moreover have "hdt h' = (hdt (heap s))(a \<mapsto> dt new)"
    using row aq by (auto simp: h'_def hdt_def dt_def fun_eq_iff)
  moreover have "dom h' = insert a (dom (heap s))" using row by (auto simp: h'_def)
  ultimately show ?thesis using set counted_fillD [OF sh(2)] by auto
qed

text \<open>link_row refines insertion into the ordered list of rows.\<close>

lemma views_upd: "h' a = Some r \<Longrightarrow> sortkey h' a = (lppSortKeys r, KeyTable.lpFlags r)" "h' a = Some r \<Longrightarrow> key_of h' a = sKey r"
  "h' a = Some r \<Longrightarrow> rview h' a = (sKey r, (lppSortKeys r, KeyTable.lpFlags r), fHidden r)"
  by (simp_all add: sortkey_def key_of_def rview_def hid_def)

lemma hdt_same:
  assumes "hdt h' b = hdt h b"
  shows "sortkey h' b = sortkey h b" "key_of h' b = key_of h b" "rview h' b = rview h b"
    "(\<exists>r. h' b = Some r \<and> P (fRoot r) (sKey r)) \<longleftrightarrow> (\<exists>r. h b = Some r \<and> P (fRoot r) (sKey r))"
  using assms by (cases "h b"; cases "h' b"; simp add: hdt_def sortkey_def key_of_def rview_def hid_def dt_def)+

lemma hdt_None: "hdt h a = None \<longleftrightarrow> h a = None"
  by (simp add: hdt_def)

lemma tinv_insert:
  assumes I: "tinv ck F s T" and k: "rowkey_ok ck F (keys, flags)" and new: "mapRow s kid = None"
    and T': "inord T' = cbefore c @ nextptr s # cafter c" "c = leafctx (\<lambda>a. rowkey_less ck (keys, flags) (sortkey (heap s) a)) T []"
    and s': "s' = s\<lparr>heap := h', nextptr := Suc (nextptr s), mapRow := (mapRow s)(kid \<mapsto> nextptr s)\<rparr>"
    and h': "hdt h' = (hdt (heap s))(nextptr s \<mapsto> (kid, keys, flags, False, hidden))"
    and K: "shape s' T'" "counted s' T'" "avl T'"
  shows "tinv ck F s' T' \<and> view s' T' = insert_by (vless ck) (kid, (keys, flags), hidden) (view s T)"
proof -
  let ?a = "nextptr s"
  have T: "inord T = cbefore c @ cafter c" using fill_leafctx [of _ T "[]"] inord_fill [of c PL] unfolding T'(2) by simp
  have I': "KT s T" "rows_ok ck F s T" "index_ok s T" using I by (simp_all add: tinv_def)
  have fresh: "?a \<notin> nodes T" "?a \<noteq> lpRoot s" using I'(1) by (auto simp: KT_def shape_def)
  obtain row where row: "h' ?a = Some row" "sKey row = kid" "lppSortKeys row = keys" "KeyTable.lpFlags row = flags" "\<not> fRoot row" "fHidden row = hidden"
    using fun_cong [OF h', of ?a] by (auto simp: hdt_def dt_def)
  have same: "hdt h' b = hdt (heap s) b" if "b \<noteq> ?a" for b using that by (simp add: h')
  have mp: "map f (cbefore c) = map g (cbefore c)" "map f (cafter c) = map g (cafter c)" if "\<And>b. b \<noteq> ?a \<Longrightarrow> f b = g b" for f g :: "nat \<Rightarrow> 'z"
  proof -
    have "b \<noteq> ?a" if "b \<in> set (cbefore c @ cafter c)" for b using that fresh(1) unfolding T by blast
    then show "map f (cbefore c) = map g (cbefore c)" "map f (cafter c) = map g (cafter c)"
      using that by (simp_all add: map_eq_conv)
  qed
  note li = leaf_insert [OF I'(2) k, folded T'(2)]
  have v: "view s' T' = insert_by (vless ck) (kid, (keys, flags), hidden) (view s T)"
    unfolding li(1) using mp [of "rview h'" "rview (heap s)"] hdt_same(3) [OF same] views_upd(3) [of h' ?a, OF row(1)] row
    by (simp add: view_def s' T'(1))
  have "map (sortkey h') (inord T') = insert_by (rowkey_less ck) (keys, flags) (map (sortkey (heap s)) (inord T))"
    unfolding li(2) using mp [of "sortkey h'" "sortkey (heap s)"] hdt_same(1) [OF same] views_upd(1) [of h' ?a, OF row(1)] row
    by (simp add: T'(1))
  moreover have "sorted_by (rowkey_less ck) (insert_by (rowkey_less ck) (keys, flags) (map (sortkey (heap s)) (inord T)))"
    using I'(2) k by (intro rowcmp.sorted_insert [of _ _ F]) (auto simp: rows_ok_def)
  moreover have "(\<exists>r. h' b = Some r \<and> \<not> fRoot r) \<and> rowkey_ok ck F (sortkey h' b)" if "b \<in> nodes T'" for b
  proof (cases "b = ?a")
    case True
    then show ?thesis using row k views_upd(1) [of h' ?a, OF row(1)] by simp
  next
    case False
    then have "b \<in> nodes T" using that unfolding T T'(1) by auto
    then have "(\<exists>r. heap s b = Some r \<and> \<not> fRoot r) \<and> rowkey_ok ck F (sortkey (heap s) b)" using I'(2) by (simp add: rows_ok_def)
    then show ?thesis using hdt_same(4) [OF same [OF False], of "\<lambda>x _. \<not> x"] hdt_same(1) [OF same [OF False]] by simp
  qed
  moreover have "\<exists>r. h' (lpRoot s) = Some r \<and> fRoot r \<and> sKey r = ObjKey 0 0"
    using I'(2) hdt_same(4) [OF same [OF fresh(2) [symmetric]], of "\<lambda>x k. x \<and> k = ObjKey 0 0"] by (simp add: rows_ok_def)
  ultimately have ro: "rows_ok ck F s' T'" by (simp add: rows_ok_def s')
  have nT': "nodes T' = insert ?a (nodes T)" unfolding T T'(1) by auto
  have key: "key_of h' ?a = kid" "\<And>b. b \<noteq> ?a \<Longrightarrow> key_of h' b = key_of (heap s) b"
    using views_upd(2) [of h' ?a, OF row(1)] row hdt_same(2) [OF same] by auto
  have nk: "key_of (heap s) b \<noteq> kid" if "b \<in> nodes T" for b using I'(3) new that unfolding index_ok_def by (metis option.simps(3))
  have io: "mapRow s' k = Some b \<longleftrightarrow> b \<in> nodes T' \<and> key_of h' b = k" for k b
  proof (cases "b = ?a")
    case True
    have "mapRow s k \<noteq> Some ?a" using I'(3) fresh(1) unfolding index_ok_def by blast
    then show ?thesis using True key(1) by (auto simp: s' nT')
  next
    case False
    have "mapRow s k = Some b \<longleftrightarrow> b \<in> nodes T \<and> key_of (heap s) b = k" using I'(3) unfolding index_ok_def by blast
    then show ?thesis using False key(2) [OF False] nk [of b] by (auto simp: s' nT')
  qed
  have "h' b = None \<longleftrightarrow> b \<noteq> ?a \<and> heap s b = None" for b
    using fun_cong [OF h', of b] hdt_None [of h' b] hdt_None [of "heap s" b] by (cases "b = ?a") auto
  then have "dom h' = insert ?a (dom (heap s))" by (auto simp: dom_def)
  moreover have "dom (heap s) = insert (lpRoot s) (nodes T)" using I'(3) by (simp add: index_ok_def)
  ultimately have "dom (heap s') = insert (lpRoot s') (nodes T')" by (simp add: s' nT' insert_commute)
  moreover have "heap s' = h'" by (simp add: s')
  ultimately have ix: "index_ok s' T'" using io unfolding index_ok_def by simp
  have "curok s' T'" using I'(1) by (auto simp: KT_def curok_def s' nT' split: option.splits)
  with K ro ix v show ?thesis by (simp add: tinv_def KT_def)
qed

definition prevkey :: "rowview list \<Rightarrow> objkey" where
  "prevkey vs = (if vs = [] then ObjKey 0 0 else fst (last vs))"

lemma link_row_ok:
  fixes hidden :: bool
  assumes I: "tinv ck F s T" and k: "rowkey_ok ck F (keys, flags)" and new: "mapRow s kid = None"
    and n: "nextptr s + 1 < 2 ^ 31"
  defines "v \<equiv> (kid, (keys, flags), hidden)"
  shows "\<exists>s' T'. link_row ck kid keys flags hidden s =
      Some (nextptr s, prevkey (takeWhile (\<lambda>w. \<not> vless ck v w) (view s T)), s') \<and>
    tinv ck F s' T' \<and> view s' T' = insert_by (vless ck) v (view s T) \<and> nextptr s' = Suc (nextptr s) \<and> lpCurrent s' = lpCurrent s"
proof -
  let ?a = "nextptr s" and ?new = "new_ECTableRow kid keys flags hidden"
  define c where "c = leafctx (\<lambda>a. rowkey_less ck (keys, flags) (sortkey (heap s) a)) T []"
  have T: "T = fill c PL" using fill_leafctx [of _ T "[]"] by (simp add: c_def)
  have I': "KT s T" "avl T" "rows_ok ck F s T" "index_ok s T" using I by (simp_all add: tinv_def)
  have sh: "shape s T" "counted s T" using I'(1) by (simp_all add: KT_def)
  have "?a \<notin> insert (lpRoot s) (nodes T)" using sh(1) by (auto simp: shape_def)
  then have fresh: "heap s ?a = None" "?a \<notin> nodes T"
    using I'(4) unfolding index_ok_def by (metis domIff insertCI)+
  have fl: "find_leafN ck (nextptr s) ?new (lpRoot s) s = Some (cpar (lpRoot s) c, cside c)"
    unfolding c_def using find_leaf_root [OF sh(1) I'(3), of ?new "(keys, flags)"] by (simp add: new_ECTableRow_def)
  have lp: "leaf_predecessor (cpar (lpRoot s) c) (cside c) s = Some (key_of (heap s) (last (lpRoot s # cbefore c)))"
    using leaf_predecessor_ok sh(1) unfolding T by blast
  have cb: "cbefore c = takeWhile (\<lambda>a. \<not> rowkey_less ck (keys, flags) (sortkey (heap s) a)) (inord T)"
    using leafctx_order [OF sorted_wrt_P [OF I'(3) k], of "[]"] filter_takeWhile [OF sorted_wrt_P [OF I'(3) k]] by (simp add: c_def)
  obtain r0 where "heap s (lpRoot s) = Some r0" "sKey r0 = ObjKey 0 0" using I'(3) by (auto simp: rows_ok_def)
  then have prev: "key_of (heap s) (last (lpRoot s # cbefore c)) = prevkey (takeWhile (\<lambda>w. \<not> vless ck v w) (view s T))"
    by (simp add: view_def takeWhile_map_P vless_def rview_def v_def cb [symmetric] prevkey_def last_map key_of_def)
  define s1 where "s1 = s\<lparr>heap := (heap s)(?a \<mapsto> ?new\<lparr>lpParent := Some (cpar (lpRoot s) c), fLeft := cside c\<rparr>), nextptr := Suc ?a\<rparr>"
  obtain h1 where h1: "set_leg (Some (cpar (lpRoot s) c)) (cside c) (Some ?a) s1 = Some (s1\<lparr>heap := h1\<rparr>)"
    "shape (s1\<lparr>heap := h1\<rparr>) (fill c (PN PL ?a PL))" "sibok h1 c" "hdt h1 = (hdt (heap s))(?a \<mapsto> dt ?new)"
    using attach_leaf [of s c ?new] I'(1,2) fresh(1) n unfolding T s1_def by (auto simp: new_ECTableRow_def)
  define s2 where "s2 = s1\<lparr>heap := h1, mapRow := (mapRow s1)(kid \<mapsto> ?a)\<rparr>"
  have sh2: "shape s2 (fill c (PN PL ?a PL))" "sibok (heap s2) c" using h1(2,3) by (simp_all add: s2_def shape_def)
  obtain h3 where h3: "UpdateCounts (Some ?a) s2 = Some (s2\<lparr>heap := h3\<rparr>)" "hdt h3 = hdt h1"
    "shape (s2\<lparr>heap := h3\<rparr>) (fill c (PN PL ?a PL))" "counted (s2\<lparr>heap := h3\<rparr>) (fill c (PN PL ?a PL))"
    using UpdateCounts_node [OF sh2(1) _ _ sh2(2)] by (auto simp: s2_def)
  have okc: "okc c 0" using avl_fill [of c PL] I'(2) unfolding T by simp
  have len: "2 * length c + 2 \<le> 2 * nextptr (s2\<lparr>heap := h3\<rparr>)"
    using shape_bounds(2) [OF h3(3)] by simp
  obtain h4 T' where h4: "RestructureRecursive (Some ?a) (s2\<lparr>heap := h3\<rparr>) = Some (s2\<lparr>heap := h4\<rparr>)" "hdt h4 = hdt h3"
    "shape (s2\<lparr>heap := h4\<rparr>) T'" "counted (s2\<lparr>heap := h4\<rparr>) T'" "avl T'" "inord T' = inord (fill c (PN PL ?a PL))"
    using RR_ok [OF h3(3,4) _ _ _ _ okc _ _ len] by (auto simp: RestructureRecursive_def rebal.simps)
  have link: "link_row ck kid keys flags hidden s = Some (?a, prevkey (takeWhile (\<lambda>w. \<not> vless ck v w) (view s T)), s2\<lparr>heap := h4\<rparr>)"
    using fl lp prev h1(1) h3(1) h4(1) by (simp add: link_row_def Let_def s1_def [symmetric]) (simp add: s2_def s1_def)
  have "tinv ck F (s2\<lparr>heap := h4\<rparr>) T' \<and> view (s2\<lparr>heap := h4\<rparr>) T' = insert_by (vless ck) v (view s T)"
    unfolding v_def
    by (rule tinv_insert [OF I k new, of _ c _ h4])
      (use h4 h3(2) h1(4) c_def in \<open>auto simp: inord_fill s2_def s1_def dt_def new_ECTableRow_def\<close>)
  then show ?thesis using link by (intro exI [of _ "s2\<lparr>heap := h4\<rparr>"] exI [of _ T']) (simp add: s2_def s1_def)
qed

end
