(* ===== verification/KeyTableSpec.thy ===== *)
theory KeyTableSpec
  imports KeyTableLink "HOL-Library.Multiset"
begin

text \<open>
  The properties of the table engine: adding rows refines insertion into an ordered list,
  reading a window gives that window of the visible rows, the cursor walks the rows in
  order, rotations keep the order and the counts, and the tree stays balanced. A small
  demonstration table, built by the table's own operations, shows that the hypotheses hold.
\<close>

section \<open>The empty table and a demonstration table\<close>

lemma tinv_new: "tinv ck F new_ECKeyTable PL"
  by (auto simp: tinv_def KT_def shape_def counted_def curok_def rootcnt_def rows_ok_def index_ok_def
      new_ECKeyTable_def new_ECTableRow_def hlk_def lk_def hct_def ct_def sorted_by_def split: if_splits)

lemma view_new: "view new_ECKeyTable PL = []" "mapRow new_ECKeyTable k = None" "nextptr new_ECKeyTable = 1"
  by (simp_all add: view_def new_ECKeyTable_def)

text \<open>Binary order on sort data, as one comparison function that satisfies the laws.\<close>

lemma lex3_flip: "lex3 b a = - lex3 a b"
  using memcmp_flip [of a b] by (simp add: lex3_def)

lemma ck_laws_lex3: "ck_laws lex3"
  unfolding ck_laws_def using lex3_trans lex3_flip by (metis neg_less_0_iff_less neg_0_less_iff_less)

lemma demo_row_ok: "rowkey_ok lex3 [0] ([[b]], Some [0])"
  by (simp add: rowkey_ok_def ck_laws_lex3 sortflags_def col_ok_def)

lemma mapRow_None: "tinv ck F s T \<Longrightarrow> mapRow s k = None \<longleftrightarrow> k \<notin> fst ` set (view s T)"
proof -
  assume "tinv ck F s T"
  then have "\<And>k a. mapRow s k = Some a \<longleftrightarrow> a \<in> nodes T \<and> key_of (heap s) a = k" by (simp add: tinv_def index_ok_def)
  then have "mapRow s k \<noteq> None \<longleftrightarrow> (\<exists>a \<in> nodes T. key_of (heap s) a = k)" by (metis not_None_eq)
  moreover have "fst ` set (view s T) = key_of (heap s) ` nodes T" by (simp add: view_def rview_def image_image)
  ultimately show ?thesis by auto
qed

definition demo_row :: "byte \<Rightarrow> rowview" where
  "demo_row n = (ObjKey (ucast n) 0, ([[n]], Some [0]), False)"

definition demo_add :: "byte \<Rightarrow> keytable \<Rightarrow> keytable" where
  "demo_add n s = (case UpdateRow lex3 TABLE_ROW_ADD (ObjKey (ucast n) 0) [[n]] (Some [0]) False s of
     Some (_, t) \<Rightarrow> t | None \<Rightarrow> s)"

definition demo_table :: keytable where
  "demo_table = demo_add 1 (demo_add 3 (demo_add 2 new_ECKeyTable))"

lemma demo_add_ok:
  assumes "tinv lex3 [0] s T" "fst (demo_row n) \<notin> fst ` set (view s T)" "nextptr s + 1 < 2 ^ 31"
  shows "\<exists>T'. tinv lex3 [0] (demo_add n s) T' \<and> view (demo_add n s) T' = insert_by (vless lex3) (demo_row n) (view s T) \<and>
    nextptr (demo_add n s) = Suc (nextptr s)"
proof -
  have new: "mapRow s (ObjKey (ucast n) 0) = None" using assms mapRow_None [OF assms(1)] by (simp add: demo_row_def)
  then show ?thesis
    using link_row_ok [OF assms(1) demo_row_ok new assms(3), of n False]
    by (auto simp: demo_add_def UpdateRow_def UpdateRow_add_def demo_row_def)
qed

lemma vless_demo: "vless lex3 (demo_row a) (demo_row b) \<longleftrightarrow> a < b"
  by (auto simp: vless_def rowkey_less_def rowcompare_cols_def sortflags_def demo_row_def colcompare_def)

lemma demo_table_ok: "\<exists>T. tinv lex3 [0] demo_table T \<and> view demo_table T = map demo_row [1, 2, 3] \<and> nextptr demo_table = 4"
proof -
  let ?s1 = "demo_add 2 new_ECKeyTable"
  let ?s2 = "demo_add 3 ?s1"
  have k: "fst (demo_row n) = ObjKey (ucast n) 0" for n by (simp add: demo_row_def)
  obtain T1 where 1: "tinv lex3 [0] ?s1 T1" "view ?s1 T1 = [demo_row 2]" "nextptr ?s1 = 2"
    using demo_add_ok [OF tinv_new, of 2] by (auto simp: view_new insert_by_def)
  obtain T2 where 2: "tinv lex3 [0] ?s2 T2" "view ?s2 T2 = map demo_row [2, 3]" "nextptr ?s2 = 3"
    using demo_add_ok [OF 1(1), of 3] 1 by (auto simp: insert_by_def vless_demo k)
  show ?thesis
    using demo_add_ok [OF 2(1), of 1] 2 unfolding demo_table_def by (auto simp: insert_by_def vless_demo k)
qed

text \<open>
  C1: Adding a row with a new id succeeds, keeps the table invariant and refines insertion into
  the ordered list of rows; the reported predecessor is the row before the insertion point.
\<close>

theorem add_refines_insert:
  fixes hidden :: bool
  assumes "tinv ck F s T" "rowkey_ok ck F (keys, flags)" "mapRow s kid = None" "nextptr s + 1 < 2 ^ 31"
  defines "v \<equiv> (kid, (keys, flags), hidden)"
  shows "\<exists>s' T'. UpdateRow ck TABLE_ROW_ADD kid keys flags hidden s =
      Some (\<lparr>ur_er = erSuccess, ur_prev = Some (prevkey (takeWhile (\<lambda>w. \<not> vless ck v w) (view s T))),
              ur_action = Some TABLE_ROW_ADD\<rparr>, s') \<and>
    tinv ck F s' T' \<and> view s' T' = insert_by (vless ck) v (view s T)"
  using link_row_ok [OF assms(1-4), of hidden] assms(3)
  by (auto simp: UpdateRow_def UpdateRow_add_def v_def)

theorem add_refines_insert_witness:
  "\<exists>s' T'. UpdateRow lex3 TABLE_ROW_ADD (ObjKey 7 0) [[9]] (Some [0]) True new_ECKeyTable =
      Some (\<lparr>ur_er = erSuccess, ur_prev = Some (ObjKey 0 0), ur_action = Some TABLE_ROW_ADD\<rparr>, s') \<and>
    tinv lex3 [0] s' T' \<and> view s' T' = [(ObjKey 7 0, ([[9]], Some [0]), True)]"
  using add_refines_insert [OF tinv_new demo_row_ok view_new(2), of "ObjKey 7 0" 9 True]
  by (simp add: view_new insert_by_def prevkey_def)

text \<open>
  C2: Seeking to position k and then querying n rows returns the n visible rows from position k
  on, in table order, and changes no row.
\<close>

theorem seek_query_window:
  assumes "KT s T" "k < 2 ^ 31" "n < 2 ^ 32"
  shows "\<exists>r s1 s2. SeekRow EC_SEEK_SET (of_nat k) s = Some (erSuccess, r, s1) \<and>
    QueryRows (of_nat n) False fl False s1 = Some (map (key_of (heap s)) (take n (drop k (visrows s T))), s2) \<and>
    heap s2 = heap s"
  by (rule seek_query [OF assms])

lemma visrows_view: "map (key_of (heap s)) (visrows s T) = map fst (filter (\<lambda>v. \<not> snd (snd v)) (view s T))"
  by (simp add: visrows_def view_def filter_map comp_def rview_def)

theorem seek_query_window_witness:
  "\<exists>r s1 s2. SeekRow EC_SEEK_SET (of_nat 1) demo_table = Some (erSuccess, r, s1) \<and>
     QueryRows (of_nat 5) False 0 False s1 = Some ([ObjKey 2 0, ObjKey 3 0], s2) \<and> heap s2 = heap demo_table"
proof -
  obtain T where T: "KT demo_table T" "view demo_table T = map demo_row [1, 2, 3]"
    using demo_table_ok by (auto simp: tinv_def)
  have "map (key_of (heap demo_table)) (visrows demo_table T) = [ObjKey 1 0, ObjKey 2 0, ObjKey 3 0]"
    unfolding visrows_view T(2) by (simp add: demo_row_def)
  then have "map (key_of (heap demo_table)) (take 5 (drop 1 (visrows demo_table T))) = [ObjKey 2 0, ObjKey 3 0]"
    by (simp only: take_map [symmetric] drop_map [symmetric]) simp
  then show ?thesis using seek_query_window [OF T(1), of 1 5 0] by simp
qed

text \<open>
  A seek relative to the start, the cursor or the end of the table clamps its target to the
  table, reports the distance moved, and leaves the cursor at the clamped position.
\<close>

lemma seek_clamps:
  assumes "KT s T" "org \<in> {EC_SEEK_SET, EC_SEEK_CUR, EC_SEEK_END}" "rowcount s T \<noteq> 0"
    and "- (2 ^ 31) \<le> seek_base org s T + z" "seek_base org s T + z < 2 ^ 31"
  defines "d \<equiv> clamp_pos (seek_base org s T + z) (rowcount s T)"
  shows "\<exists>s'. SeekRow org (word_of_int z) s = Some (erSuccess, word_of_int (int d - seek_base org s T), s') \<and>
    KT s' T \<and> curpos s' T = d \<and> GetRowCount s' = Some (of_nat (rowcount s T), of_nat d)"
proof -
  obtain p where p: "SeekRow org (word_of_int z) s = Some (erSuccess, word_of_int (int d - seek_base org s T), s\<lparr>lpCurrent := p\<rparr>)"
    "seekpost (heap s) (inord T) d p"
    using SeekRow_ok [OF assms(1,2,4,5)] assms(3) unfolding d_def by auto
  have "KT (s\<lparr>lpCurrent := p\<rparr>) T \<and> curpos (s\<lparr>lpCurrent := p\<rparr>) T = d"
    by (rule seekpost_curpos [OF assms(1) p(2)]) (simp add: d_def clamp_pos_def)
  moreover have "rowcount (s\<lparr>lpCurrent := p\<rparr>) T = rowcount s T" by (simp add: rowcount_def)
  ultimately show ?thesis using p(1) GetRowCount_ok [of "s\<lparr>lpCurrent := p\<rparr>" T] by auto
qed

lemma inord_Nil: "inord t = [] \<longleftrightarrow> t = PL" "ht t \<le> Suc 0 \<longleftrightarrow> t = PL \<or> (\<exists>a. t = PN PL a PL)" "ht t = 0 \<longleftrightarrow> t = PL"
  by (cases t; auto; metis ht.simps(1) ptree.exhaust ht.simps(2) nat.distinct(1))+

lemma avl3: "avl T \<Longrightarrow> inord T = [a, b, c] \<Longrightarrow> T = PN (PN PL a PL) b (PN PL c PL)"
proof (cases T)
  case (PN l x r)
  assume a: "avl T" "inord T = [a, b, c]"
  then have i: "inord l @ x # inord r = [a, b, c]" "ht l \<le> ht r + 1" "ht r \<le> ht l + 1" by (simp_all add: PN)
  then consider "l = PL" "inord r = [b, c]" | "inord l = [a]" "inord r = [c]" "x = b" | "r = PL" "inord l = [a, b]"
    by (auto simp: append_eq_Cons_conv inord_Nil)
  then show ?thesis
  proof cases
    case 1
    then show ?thesis using i(3) by (auto simp: inord_Nil)
  next
    case 2
    then show ?thesis by (cases l; cases r) (auto simp: PN append_eq_Cons_conv inord_Nil)
  next
    case 3
    then show ?thesis using i(2) by (auto simp: inord_Nil)
  qed
qed simp

lemma demo_split:
  "\<exists>T a b c. shape demo_table T \<and> counted demo_table T \<and> inord T = [a, b, c] \<and>
     map (key_of (heap demo_table)) [a, b, c] = [ObjKey 1 0, ObjKey 2 0, ObjKey 3 0] \<and> \<not> hid (heap demo_table) a"
proof -
  obtain T where T: "shape demo_table T" "counted demo_table T" "view demo_table T = map demo_row [1, 2, 3]"
    using demo_table_ok by (auto simp: tinv_def KT_def)
  then obtain a b c where "inord T = [a, b, c]" by (auto simp: view_def map_eq_Cons_conv)
  with T show ?thesis by (auto simp: view_def rview_def demo_row_def)
qed

text \<open>
  Next and Prev step between neighbouring rows of the table order and undo each other.
\<close>

lemma next_prev_walk:
  assumes "shape s T" "inord T = xs @ a # b # ys"
  shows "Next (s\<lparr>lpCurrent := Some a\<rparr>) = Some (s\<lparr>lpCurrent := Some b\<rparr>) \<and>
    Prev (s\<lparr>lpCurrent := Some b\<rparr>) = Some (s\<lparr>lpCurrent := Some a\<rparr>)"
proof -
  have "shape (s\<lparr>lpCurrent := p\<rparr>) T" for p using assms(1) by (simp add: shape_def)
  then show ?thesis
    using Next_step [of "s\<lparr>lpCurrent := Some a\<rparr>" T a "lpRoot s # xs" "b # ys"]
      Prev_step [of "s\<lparr>lpCurrent := Some b\<rparr>" T b "xs @ [a]" ys] assms(2) by simp
qed

text \<open>
  The position of a row is the number of visible rows before it.
\<close>

lemma position_is_visible_before:
  assumes "shape s T" "counted s T" "inord T = xs @ a # ys"
  shows "CurrentRow (Some a) s = Some (of_nat (length (filter (\<lambda>b. \<not> hid (heap s) b) xs)))"
  using CurrentRow_ok [OF assms] by (simp add: vis_def)

text \<open>
  RotateL and RotateR keep the order, the counters and the heights of the tree, and RotateR
  undoes RotateL.
\<close>

lemma rotations_inverse:
  assumes "shape s (fill c (PN (PN A l B) pv C))" "counted s (fill c (PN (PN A l B) pv C))"
  shows "\<exists>h h'. RotateL pv s = Some (s\<lparr>heap := h\<rparr>) \<and> hdt h = hdt (heap s) \<and>
      shape (s\<lparr>heap := h\<rparr>) (fill c (PN A l (PN B pv C))) \<and> counted (s\<lparr>heap := h\<rparr>) (fill c (PN A l (PN B pv C))) \<and>
    RotateR l (s\<lparr>heap := h\<rparr>) = Some (s\<lparr>heap := h'\<rparr>) \<and> hdt h' = hdt (heap s) \<and>
      shape (s\<lparr>heap := h'\<rparr>) (fill c (PN (PN A l B) pv C)) \<and> counted (s\<lparr>heap := h'\<rparr>) (fill c (PN (PN A l B) pv C))"
proof -
  have "cntok (heap s) A" "cntok (heap s) B" "cntok (heap s) C" "sibok (heap s) c" using counted_fillD [OF assms(2)] by auto
  then obtain h where h: "RotateL pv s = Some (s\<lparr>heap := h\<rparr>)" "hdt h = hdt (heap s)"
    "shape (s\<lparr>heap := h\<rparr>) (fill c (PN A l (PN B pv C)))" "counted (s\<lparr>heap := h\<rparr>) (fill c (PN A l (PN B pv C)))"
    using rotd_ok [of s c True A l B pv C] assms(1) by (auto simp: rotd_eq PD_def)
  have "cntok h A" "cntok h B" "cntok h C" "sibok h c" using counted_fillD [OF h(4)] by auto
  then show ?thesis using h rotd_ok [of "s\<lparr>heap := h\<rparr>" c False C pv B l A] by (auto simp: rotd_eq PD_def)
qed

lemma avl_size: "avl t \<Longrightarrow> 2 ^ (ht t div 2) \<le> length (inord t) + 1"
proof (induction "ht t" arbitrary: t rule: less_induct)
  case less
  show ?case
  proof (cases t)
    case (PN l a r)
    let ?h = "(ht t - 2) div 2"
    have l: "2 ^ (ht l div 2) \<le> length (inord l) + 1" "2 ^ (ht r div 2) \<le> length (inord r) + 1"
      using less PN by (auto simp: less_Suc_eq_le)
    have "ht t - 2 \<le> ht l" "ht t - 2 \<le> ht r" using less.prems PN by auto
    then have "?h \<le> ht l div 2" "?h \<le> ht r div 2" by (simp_all only: div_le_mono)
    then have "2 ^ ?h \<le> (2 :: nat) ^ (ht l div 2)" "2 ^ ?h \<le> (2 :: nat) ^ (ht r div 2)"
      by (simp_all only: power_increasing one_le_numeral)
    then have s: "2 * 2 ^ ?h \<le> length (inord t) + 1" using l unfolding PN inord.simps length_append list.size by linarith
    show ?thesis
    proof (cases "ht t < 2")
      case True
      then show ?thesis by simp
    next
      case False
      then have "ht t div 2 = Suc ?h" by simp
      then show ?thesis using s by simp
    qed
  qed simp
qed

lemma node_balance:
  assumes "avl T" "shape s T" "counted s T" "a \<in> nodes T"
  shows "GetBalance (Some a) s \<in> {Some (-1), Some 0, Some 1}"
proof -
  obtain c l r where T: "T = fill c (PN l a r)" using split_node [OF assms(4)] by blast
  then have "avl (PN l a r)" using assms(1) avl_fill by blast
  then show ?thesis using GetBalance_node [of s c l a r] assms(2,3) unfolding T by auto
qed

text \<open>Adding rows one after the other with the table's own operation.\<close>

fun add_rows :: "ckcompare \<Rightarrow> rowview list \<Rightarrow> keytable \<Rightarrow> keytable option" where
  "add_rows ck [] s = Some s"
| "add_rows ck ((kid, (keys, flags), hidden) # vs) s =
     Option.bind (UpdateRow ck TABLE_ROW_ADD kid keys flags hidden s) (\<lambda>(_, s'). add_rows ck vs s')"

lemma insert_by_mset: "mset (insert_by lt v xs) = add_mset v (mset xs)"
proof -
  have "mset (takeWhile P xs) + mset (dropWhile P xs) = mset xs" for P
    unfolding mset_append [symmetric] by simp
  then show ?thesis by (simp add: insert_by_def)
qed

lemma add_rows_ok:
  "\<forall>v \<in> set vs. rowkey_ok ck F (fst (snd v)) \<Longrightarrow> distinct (map fst vs) \<Longrightarrow> fst ` set vs \<inter> fst ` set (view s T) = {} \<Longrightarrow>
   tinv ck F s T \<Longrightarrow> nextptr s + length vs < 2 ^ 31 \<Longrightarrow>
   \<exists>s' T'. add_rows ck vs s = Some s' \<and> tinv ck F s' T' \<and> mset (view s' T') = mset (view s T) + mset vs"
proof (induction vs arbitrary: s T)
  case (Cons v vs)
  obtain kid keys flags hidden where v: "v = (kid, (keys, flags), hidden)" by (cases v) auto
  have new: "mapRow s kid = None" using mapRow_None [OF Cons.prems(4)] Cons.prems(3) by (auto simp: v)
  have k: "rowkey_ok ck F (keys, flags)" and n: "nextptr s + 1 < 2 ^ 31" using Cons.prems(1,5) by (simp_all add: v)
  obtain s1 T1 where one: "link_row ck kid keys flags hidden s =
      Some (nextptr s, prevkey (takeWhile (\<lambda>w. \<not> vless ck v w) (view s T)), s1)"
    and T1: "tinv ck F s1 T1" "view s1 T1 = insert_by (vless ck) v (view s T)" "nextptr s1 = Suc (nextptr s)"
    using link_row_ok [OF Cons.prems(4) k new n, of hidden] by (auto simp: v)
  have add: "add_rows ck (v # vs) s = add_rows ck vs s1"
    using one new by (simp add: v UpdateRow_def UpdateRow_add_def)
  have m: "mset (view s1 T1) = add_mset v (mset (view s T))" unfolding T1(2) by (rule insert_by_mset)
  then have "set (view s1 T1) = insert v (set (view s T))" by (metis set_mset_add_mset_insert set_mset_mset)
  then have "fst ` set vs \<inter> fst ` set (view s1 T1) = {}" using Cons.prems(2,3) by auto
  then obtain s' T' where "add_rows ck vs s1 = Some s'" "tinv ck F s' T'" "mset (view s' T') = mset (view s1 T1) + mset vs"
    using Cons.IH [OF _ _ _ T1(1)] Cons.prems(1,2,5) T1(3) by auto
  then show ?case using add m by auto
qed auto

text \<open>
  C3: Searches stay fast. Start with the empty table and add any number of rows below 2^31 - 1 with different
  ids, in any order, whose sort data fit the columns of the table: every addition succeeds, and the pointers
  of the table then form a tree T of exactly these rows in which GetBalance finds -1, 0 or 1 at every row, and
  whose height is at most twice the logarithm of the number of rows. The rotations of the code have to keep
  this at each step; deleting rows is not covered.
\<close>

theorem table_height_logarithmic:
  assumes "\<forall>v \<in> set vs. rowkey_ok ck F (fst (snd v))" "distinct (map fst vs)" "length vs < 2 ^ 31 - 1"
  shows "\<exists>s T. add_rows ck vs new_ECKeyTable = Some s \<and> shape s T \<and> mset (view s T) = mset vs \<and>
    2 ^ (ht T div 2) \<le> length vs + 1 \<and> (\<forall>a \<in> nodes T. GetBalance (Some a) s \<in> {Some (-1), Some 0, Some 1})"
proof -
  obtain s T where s: "add_rows ck vs new_ECKeyTable = Some s" "tinv ck F s T" "mset (view s T) = mset vs"
    using add_rows_ok [OF assms(1,2) _ tinv_new] assms(3) by (auto simp: view_new)
  have I: "avl T" "shape s T" "counted s T" using s(2) by (simp_all add: tinv_def KT_def)
  have "length (inord T) = length vs" using arg_cong [OF s(3), of size] by (simp add: view_def)
  then show ?thesis using s I avl_size [OF I(1)] node_balance [OF I] by metis
qed

text \<open>Applied to fourteen rows in ascending order, which a tree without rotations would make a list of height 14.\<close>

definition ascending_rows :: "rowview list" where
  "ascending_rows = map demo_row [1, 2, 3, 4, 5, 6, 7, 8, 9, 10, 11, 12, 13, 14]"

theorem table_height_logarithmic_witness:
  "\<exists>s T. add_rows lex3 ascending_rows new_ECKeyTable = Some s \<and> shape s T \<and> ht T \<le> 7 \<and> length (view s T) = 14"
proof -
  have len: "length ascending_rows = 14" by (simp add: ascending_rows_def)
  have "\<forall>v \<in> set ascending_rows. rowkey_ok lex3 [0] (fst (snd v))"
    using demo_row_ok by (auto simp: ascending_rows_def demo_row_def)
  moreover have "distinct (map fst ascending_rows)" by code_simp
  ultimately obtain s T where s: "add_rows lex3 ascending_rows new_ECKeyTable = Some s" "shape s T"
      "mset (view s T) = mset ascending_rows" "2 ^ (ht T div 2) \<le> length ascending_rows + 1"
    using table_height_logarithmic [of ascending_rows lex3 "[0]"] len by auto
  have "(2 :: nat) ^ (ht T div 2) < 2 ^ 4" using s(4) len by simp
  then have "ht T div 2 < 4" by (rule power_less_imp_less_exp [rotated]) simp
  moreover have "length (view s T) = 14" using arg_cong [OF s(3), of size] len by simp
  ultimately show ?thesis using s(1,2) by (intro exI conjI) (assumption | simp)+
qed

text \<open>
  On the rows of one sort order the comparison of rows is a strict weak order.
\<close>

lemma row_order_strict_weak:
  assumes "rowkey_ok ck F a" "rowkey_ok ck F b" "rowkey_ok ck F c"
  shows "\<not> rowkey_less ck a a \<and> (rowkey_less ck a b \<and> rowkey_less ck b c \<longrightarrow> rowkey_less ck a c) \<and>
    (rowkey_less ck a c \<longrightarrow> rowkey_less ck a b \<or> rowkey_less ck b c)"
  using rowcmp.irrefl [OF assms(1)] rowcmp.trans [OF assms] rowcmp.cotrans [OF assms] by blast

section \<open>Deleting under the cursor\<close>

definition delete_current :: "uint32 \<Rightarrow> keytable \<Rightarrow> objkey option" where
  "delete_current n s = (case SeekId (ObjKey n 0) s of (_, s) \<Rightarrow> do {
     (_, s) \<leftarrow> UpdateRow_delete (ObjKey n 0) s;
     r \<leftarrow> deref s (lpCurrent s);
     Some (sKey r) })"

text \<open>
  The code moves the cursor of a deleted row "to next node (or previous if this was the
  last row)", but it seeks relative to a row that is already unlinked and keeps its old
  links: with the cursor on the first of three rows, the second row is skipped.
\<close>

lemma delete_first_skips_next: "delete_current 1 demo_table = Some (ObjKey 3 0)"
  by code_simp

end
