(* ===== verification/Security.thy ===== *)
theory Security
  imports KPrelude
begin

text \<open>
  The access control of the server (class ECSecurity, provider/libserver/ECSecurity.cpp)
  over the hierarchy, stores and acl tables that ECCacheManager reads for it
  (provider/libserver/ECCacheManager.cpp, with the caches transparent).

  \<open>secdb\<close> is the database content, \<open>secenv\<close> what the session gives: configuration, and the
  answers of the user management, which come from an external user plugin and are
  parameters. \<open>secctx\<close> is the object's own state. Operations that fill a list lazily return
  the new state. Auditing is left out.
\<close>

section \<open>Constants and records\<close>

definition KOPANO_UID_EVERYONE :: uint32 where "KOPANO_UID_EVERYONE = 1"
definition KOPANO_UID_SYSTEM :: uint32 where "KOPANO_UID_SYSTEM = 2"
definition EC_NO_IMPERSONATOR :: uint32 where "EC_NO_IMPERSONATOR = - 1"
definition MAX_PARENT_LIMIT :: nat where "MAX_PARENT_LIMIT = 64"
definition CACHE_NO_PARENT :: uint32 where "CACHE_NO_PARENT = 0xFFFFFFFF"
definition MSGFLAG_DELETED :: uint32 where "MSGFLAG_DELETED = 0x400"
definition MAPI_STORE :: uint32 where "MAPI_STORE = 1"
definition MAPI_FOLDER :: uint32 where "MAPI_FOLDER = 3"
definition ECSTORE_TYPE_PRIVATE :: uint32 where "ECSTORE_TYPE_PRIVATE = 0"
definition ECSTORE_TYPE_ARCHIVE :: uint32 where "ECSTORE_TYPE_ARCHIVE = 2"

definition ACCESS_TYPE_DENIED :: uint32 where "ACCESS_TYPE_DENIED = 1"
definition ACCESS_TYPE_GRANT :: uint32 where "ACCESS_TYPE_GRANT = 2"

definition ecRightsReadAny :: uint32 where "ecRightsReadAny = 0x1"
definition ecRightsCreate :: uint32 where "ecRightsCreate = 0x2"
definition ecRightsEditOwned :: uint32 where "ecRightsEditOwned = 0x8"
definition ecRightsDeleteOwned :: uint32 where "ecRightsDeleteOwned = 0x10"
definition ecRightsEditAny :: uint32 where "ecRightsEditAny = 0x20"
definition ecRightsDeleteAny :: uint32 where "ecRightsDeleteAny = 0x40"
definition ecRightsCreateSubfolder :: uint32 where "ecRightsCreateSubfolder = 0x80"
definition ecRightsFolderAccess :: uint32 where "ecRightsFolderAccess = 0x100"
definition ecRightsFolderVisible :: uint32 where "ecRightsFolderVisible = 0x400"
definition ecRightsAllMask :: uint32 where "ecRightsAllMask = 0x15FB"

definition RIGHT_NORMAL :: uint32 where "RIGHT_NORMAL = 0"
definition RIGHT_NEW :: uint32 where "RIGHT_NEW = 1"
definition RIGHT_MODIFY :: uint32 where "RIGHT_MODIFY = 2"
definition RIGHT_DELETED :: uint32 where "RIGHT_DELETED = 4"
definition RIGHT_AUTOUPDATE_DENIED :: uint32 where "RIGHT_AUTOUPDATE_DENIED = 8"

definition USERMANAGEMENT_IDS_ONLY :: uint32 where "USERMANAGEMENT_IDS_ONLY = 1"
definition USERMANAGEMENT_ADDRESSBOOK :: uint32 where "USERMANAGEMENT_ADDRESSBOOK = 2"

definition ADMIN_LEVEL_SYSADMIN :: uint32 where "ADMIN_LEVEL_SYSADMIN = 2"

text \<open>The ecSecurity codes; any other number takes the default branch.\<close>

datatype ecsecurity =
    ecSecurityRead | ecSecurityCreate | ecSecurityEdit | ecSecurityDelete | ecSecurityCreateFolder
  | ecSecurityFolderVisible | ecSecurityFolderAccess | ecSecurityOwner | ecSecurityAdmin
  | ecSecurityUnknown uint32

datatype objecttype = OBJECTTYPE_UNKNOWN | OBJECTTYPE_MAILUSER | OBJECTTYPE_DISTLIST | OBJECTTYPE_CONTAINER

datatype objectclass =
    OBJECTCLASS_UNKNOWN
  | OBJECTCLASS_USER | ACTIVE_USER | NONACTIVE_USER | NONACTIVE_ROOM | NONACTIVE_EQUIPMENT | NONACTIVE_CONTACT
  | OBJECTCLASS_DISTLIST | DISTLIST_GROUP | DISTLIST_SECURITY | DISTLIST_DYNAMIC
  | OBJECTCLASS_CONTAINER | CONTAINER_COMPANY | CONTAINER_ADDRESSLIST

fun OBJECTCLASS_TYPE :: "objectclass \<Rightarrow> objecttype" where
  "OBJECTCLASS_TYPE OBJECTCLASS_UNKNOWN = OBJECTTYPE_UNKNOWN"
| "OBJECTCLASS_TYPE OBJECTCLASS_USER = OBJECTTYPE_MAILUSER"
| "OBJECTCLASS_TYPE ACTIVE_USER = OBJECTTYPE_MAILUSER"
| "OBJECTCLASS_TYPE NONACTIVE_USER = OBJECTTYPE_MAILUSER"
| "OBJECTCLASS_TYPE NONACTIVE_ROOM = OBJECTTYPE_MAILUSER"
| "OBJECTCLASS_TYPE NONACTIVE_EQUIPMENT = OBJECTTYPE_MAILUSER"
| "OBJECTCLASS_TYPE NONACTIVE_CONTACT = OBJECTTYPE_MAILUSER"
| "OBJECTCLASS_TYPE OBJECTCLASS_DISTLIST = OBJECTTYPE_DISTLIST"
| "OBJECTCLASS_TYPE DISTLIST_GROUP = OBJECTTYPE_DISTLIST"
| "OBJECTCLASS_TYPE DISTLIST_SECURITY = OBJECTTYPE_DISTLIST"
| "OBJECTCLASS_TYPE DISTLIST_DYNAMIC = OBJECTTYPE_DISTLIST"
| "OBJECTCLASS_TYPE OBJECTCLASS_CONTAINER = OBJECTTYPE_CONTAINER"
| "OBJECTCLASS_TYPE CONTAINER_COMPANY = OBJECTTYPE_CONTAINER"
| "OBJECTCLASS_TYPE CONTAINER_ADDRESSLIST = OBJECTTYPE_CONTAINER"

text \<open>The properties of objectdetails_t that ECSecurity reads.\<close>

record objectdetails =
  m_objclass :: objectclass
  adminlevel :: uint32
  companyid :: uint32
  login :: string
  ab_hidden :: bool

record localobjectdetails =
  ulId :: uint32
  details :: objectdetails

record quotadetails =
  bUseDefaultQuota :: bool
  bIsUserDefaultQuota :: bool
  llWarnSize :: "64 word"
  llSoftSize :: "64 word"
  llHardSize :: "64 word"

definition new_quotadetails :: quotadetails where
  "new_quotadetails = \<lparr>bUseDefaultQuota = True, bIsUserDefaultQuota = False, llWarnSize = 0, llSoftSize = 0, llHardSize = 0\<rparr>"

datatype quotastatus = QUOTA_OK | QUOTA_WARN | QUOTA_SOFTLIMIT | QUOTA_HARDLIMIT

datatype relation = OBJECTRELATION_GROUP_MEMBER | OBJECTRELATION_COMPANY_VIEW | OBJECTRELATION_COMPANY_ADMIN

record hierrow =
  h_parent :: "uint32 option"
  h_owner :: uint32
  h_flags :: uint32
  h_type :: uint32

record aclrow =
  a_id :: uint32
  a_hierarchy :: uint32
  a_type :: uint32
  a_rights :: uint32

record secdb =
  hierarchy :: "uint32 \<rightharpoonup> hierrow"
  stores :: "uint32 \<rightharpoonup> uint32"
  acl :: "aclrow list"

record secenv =
  hosted :: bool
  GetExternalId :: "uint32 \<Rightarrow> ecresult + (objectclass \<times> uint32)"
  GetObjectDetails :: "uint32 \<Rightarrow> ecresult + objectdetails"
  GetParentObjects :: "relation \<Rightarrow> uint32 \<Rightarrow> uint32 \<Rightarrow> ecresult + localobjectdetails list"
  GetCompanyObjectList :: "uint32 \<Rightarrow> ecresult + localobjectdetails list"
  GetQuotaDetails :: "uint32 \<Rightarrow> bool \<Rightarrow> ecresult + quotadetails"
  DecodeUserEntryId :: "bytes \<Rightarrow> ecresult + uint32"
  EncodeUserEntryId :: "uint32 \<Rightarrow> ecresult + bytes"
  quota_warn :: "(64 word) option"
  quota_soft :: "(64 word) option"
  quota_hard :: "(64 word) option"
  companyquota_warn :: "(64 word) option"

record secctx =
  m_ulUserID :: uint32
  m_ulImpersonatorID :: uint32
  m_ulCompanyID :: uint32
  m_details :: objectdetails
  m_impersonatorDetails :: objectdetails
  m_bRestrictedAdmin :: bool
  m_bOwnerAutoFullAccess :: bool
  m_lpGroups :: "localobjectdetails list option"
  m_lpViewCompanies :: "localobjectdetails list option"
  m_lpAdminCompanies :: "localobjectdetails list option"

section \<open>Reading the hierarchy\<close>

text \<open>Parent, owner, flags and type of an object.\<close>

definition GetObject :: "secdb \<Rightarrow> uint32 \<Rightarrow> ecresult + (uint32 \<times> uint32 \<times> uint32 \<times> uint32)" where
  "GetObject db ulObjId =
     (case hierarchy db ulObjId of
        None \<Rightarrow> Inl KCERR_NOT_FOUND
      | Some r \<Rightarrow> Inr ((case h_parent r of None \<Rightarrow> CACHE_NO_PARENT | Some p \<Rightarrow> p), h_owner r, h_flags r, h_type r))"

definition GetParent :: "secdb \<Rightarrow> uint32 \<Rightarrow> ecresult + uint32" where
  "GetParent db ulObjId =
     (case GetObject db ulObjId of
        Inl er \<Rightarrow> Inl er
      | Inr (p, _, _, _) \<Rightarrow> if p = CACHE_NO_PARENT then Inl KCERR_NOT_FOUND else Inr p)"

definition CacheGetOwner :: "secdb \<Rightarrow> uint32 \<Rightarrow> ecresult + uint32" where
  "CacheGetOwner db ulObjId = (case GetObject db ulObjId of Inl er \<Rightarrow> Inl er | Inr (_, ow, _, _) \<Rightarrow> Inr ow)"

fun GetStoreAndTypeN :: "nat \<Rightarrow> secdb \<Rightarrow> uint32 \<Rightarrow> ecresult + (uint32 \<times> uint32)" where
  "GetStoreAndTypeN 0 db ulObjId = Inl KCERR_NOT_FOUND"
| "GetStoreAndTypeN (Suc maxdepth) db ulObjId =
     (case GetParent db ulObjId of
        Inl _ \<Rightarrow> (case stores db ulObjId of None \<Rightarrow> Inl KCERR_NOT_FOUND | Some ty \<Rightarrow> Inr (ulObjId, ty))
      | Inr ulSubObjId \<Rightarrow> GetStoreAndTypeN maxdepth db ulSubObjId)"

definition GetStoreAndType :: "secdb \<Rightarrow> uint32 \<Rightarrow> ecresult + (uint32 \<times> uint32)" where
  "GetStoreAndType db ulObjId = GetStoreAndTypeN 100 db ulObjId"

definition GetACLs :: "secdb \<Rightarrow> uint32 \<Rightarrow> aclrow list" where
  "GetACLs db ulObjId = filter (\<lambda>a. a_hierarchy a = ulObjId) (acl db)"

section \<open>Session set-up\<close>

definition new_ECSecurity :: "bool \<Rightarrow> bool \<Rightarrow> secctx" where
  "new_ECSecurity restrict_admin owner_auto =
     \<lparr>m_ulUserID = 0, m_ulImpersonatorID = 0, m_ulCompanyID = 0,
      m_details = \<lparr>m_objclass = OBJECTCLASS_UNKNOWN, adminlevel = 0, companyid = 0, login = [], ab_hidden = False\<rparr>,
      m_impersonatorDetails = \<lparr>m_objclass = OBJECTCLASS_UNKNOWN, adminlevel = 0, companyid = 0, login = [], ab_hidden = False\<rparr>,
      m_bRestrictedAdmin = restrict_admin, m_bOwnerAutoFullAccess = owner_auto,
      m_lpGroups = None, m_lpViewCompanies = None, m_lpAdminCompanies = None\<rparr>"

definition SetUserContext :: "secenv \<Rightarrow> uint32 \<Rightarrow> uint32 \<Rightarrow> secctx \<Rightarrow> ecresult \<times> secctx" where
  "SetUserContext E ulUserId ulImpersonatorID c =
     (let c = c\<lparr>m_ulUserID := ulUserId, m_ulImpersonatorID := ulImpersonatorID\<rparr> in
      case GetObjectDetails E ulUserId of
        Inl er \<Rightarrow> (er, c)
      | Inr d \<Rightarrow>
          let c = c\<lparr>m_details := d, m_ulCompanyID := (if hosted E then companyid d else 0)\<rparr> in
          if ulImpersonatorID = EC_NO_IMPERSONATOR then (erSuccess, c)
          else (case GetObjectDetails E ulImpersonatorID of
                  Inl er \<Rightarrow> (er, c)
                | Inr i \<Rightarrow>
                    let c = c\<lparr>m_impersonatorDetails := i\<rparr> in
                    if adminlevel i = 0 then (KCERR_NO_ACCESS, c)
                    else if hosted E \<and> adminlevel i < ADMIN_LEVEL_SYSADMIN \<and> companyid i \<noteq> m_ulCompanyID c
                    then (KCERR_NO_ACCESS, c)
                    else (erSuccess, c)))"

section \<open>Companies and visibility\<close>

text \<open>\<open>list::sort\<close> by id, then \<open>list::unique\<close>.\<close>

fun unique_ids :: "localobjectdetails list \<Rightarrow> localobjectdetails list" where
  "unique_ids (a # b # xs) = (if ulId a = ulId b then unique_ids (a # xs) else a # unique_ids (b # xs))"
| "unique_ids xs = xs"

definition GetViewableCompanies :: "secenv \<Rightarrow> uint32 \<Rightarrow> secctx \<Rightarrow> ecresult + localobjectdetails list" where
  "GetViewableCompanies E ulFlags c =
     (let r = (if adminlevel (m_details c) = ADMIN_LEVEL_SYSADMIN then GetCompanyObjectList E ulFlags
               else GetParentObjects E OBJECTRELATION_COMPANY_VIEW (m_ulCompanyID c) ulFlags);
          objs = (case r of Inl _ \<Rightarrow> [] | Inr xs \<Rightarrow> xs) in
      if m_ulCompanyID c \<noteq> 0 then
        (if ulFlags AND USERMANAGEMENT_IDS_ONLY = 0 then
           (case GetObjectDetails E (m_ulCompanyID c) of
              Inl er \<Rightarrow> Inl er
            | Inr d \<Rightarrow> Inr (unique_ids (sort_key ulId (objs @ [\<lparr>ulId = m_ulCompanyID c, details = d\<rparr>]))))
         else Inr (unique_ids (sort_key ulId (objs @
                [\<lparr>ulId = m_ulCompanyID c,
                  details = \<lparr>m_objclass = CONTAINER_COMPANY, adminlevel = 0, companyid = 0, login = [], ab_hidden = False\<rparr>\<rparr>]))))
      else Inr (unique_ids (sort_key ulId objs)))"

text \<open>The lazily filled list of viewable companies.\<close>

definition ViewCompanies :: "secenv \<Rightarrow> secctx \<Rightarrow> (ecresult + localobjectdetails list) \<times> secctx" where
  "ViewCompanies E c =
     (case m_lpViewCompanies c of
        Some xs \<Rightarrow> (Inr xs, c)
      | None \<Rightarrow> (case GetViewableCompanies E 0 c of
                   Inl er \<Rightarrow> (Inl er, c)
                 | Inr xs \<Rightarrow> (Inr xs, c\<lparr>m_lpViewCompanies := Some xs\<rparr>)))"

definition GetViewableCompanyIds :: "secenv \<Rightarrow> uint32 \<Rightarrow> secctx \<Rightarrow> (ecresult + localobjectdetails list) \<times> secctx" where
  "GetViewableCompanyIds E ulFlags c =
     (case ViewCompanies E c of
        (Inl er, c) \<Rightarrow> (Inl er, c)
      | (Inr xs, c) \<Rightarrow>
          (Inr (map (\<lambda>i. if ulFlags AND USERMANAGEMENT_IDS_ONLY \<noteq> 0
                          then \<lparr>ulId = ulId i, details = \<lparr>m_objclass = m_objclass (details i), adminlevel = 0,
                                 companyid = 0, login = [], ab_hidden = False\<rparr>\<rparr>
                          else i)
                 (filter (\<lambda>i. \<not> (m_ulUserID c \<noteq> 0 \<and> ulFlags AND USERMANAGEMENT_ADDRESSBOOK \<noteq> 0 \<and> ab_hidden (details i))) xs)), c))"

definition IsUserObjectVisible :: "secenv \<Rightarrow> uint32 \<Rightarrow> secctx \<Rightarrow> ecresult \<times> secctx" where
  "IsUserObjectVisible E ulUserObjectId c =
     (if ulUserObjectId = 0 \<or> ulUserObjectId = m_ulUserID c \<or> ulUserObjectId = m_ulCompanyID c \<or>
         ulUserObjectId = KOPANO_UID_SYSTEM \<or> ulUserObjectId = KOPANO_UID_EVERYONE \<or>
         adminlevel (m_details c) = ADMIN_LEVEL_SYSADMIN \<or> \<not> hosted E
      then (erSuccess, c)
      else (case GetExternalId E ulUserObjectId of
              Inl er \<Rightarrow> (er, c)
            | Inr (cls, company) \<Rightarrow>
                let ulCompanyId = (if cls = CONTAINER_COMPANY then ulUserObjectId else company) in
                (case ViewCompanies E c of
                   (Inl er, c) \<Rightarrow> (er, c)
                 | (Inr xs, c) \<Rightarrow>
                     (if \<exists>x \<in> set xs. ulId x = ulCompanyId then erSuccess else KCERR_NOT_FOUND, c))))"

text \<open>Erasing the entries that are not visible.\<close>

fun erase_invisible :: "secenv \<Rightarrow> localobjectdetails list \<Rightarrow> secctx \<Rightarrow> localobjectdetails list \<times> secctx" where
  "erase_invisible E [] c = ([], c)"
| "erase_invisible E (x # xs) c =
     (case IsUserObjectVisible E (ulId x) c of (er, c) \<Rightarrow>
      case erase_invisible E xs c of (ys, c) \<Rightarrow> (if er = erSuccess then x # ys else ys, c))"

definition GetAdminCompanies :: "secenv \<Rightarrow> uint32 \<Rightarrow> secctx \<Rightarrow> (ecresult + localobjectdetails list) \<times> secctx" where
  "GetAdminCompanies E ulFlags c =
     (case (if adminlevel (m_details c) = ADMIN_LEVEL_SYSADMIN then GetCompanyObjectList E ulFlags
            else GetParentObjects E OBJECTRELATION_COMPANY_ADMIN (m_ulUserID c) ulFlags) of
        Inl er \<Rightarrow> (Inl er, c)
      | Inr xs \<Rightarrow> (case erase_invisible E xs c of (ys, c) \<Rightarrow> (Inr ys, c)))"

section \<open>Groups\<close>

text \<open>
  The loop of GetGroupsForUser: the entries still to be visited, the ids already seen, and
  the list built so far. Ids are 32 bit numbers, so the loop ends: a visit either adds a
  seen id, or removes an entry that was seen and appends only unseen ones, or erases one.
\<close>

function GroupsLoop :: "secenv \<Rightarrow> localobjectdetails list \<Rightarrow> uint32 set \<Rightarrow> secctx \<Rightarrow> localobjectdetails list \<times> secctx" where
  "GroupsLoop E [] seen c = ([], c)"
| "GroupsLoop E (g # gs) seen c =
     (case IsUserObjectVisible E (ulId g) c of (er, c) \<Rightarrow>
      if er \<noteq> erSuccess \<or> m_objclass (details g) = DISTLIST_DYNAMIC then GroupsLoop E gs seen c
      else
        (let seen = insert (ulId g) seen;
             more = (case GetParentObjects E OBJECTRELATION_GROUP_MEMBER (ulId g) USERMANAGEMENT_IDS_ONLY of
                       Inl _ \<Rightarrow> [] | Inr xs \<Rightarrow> filter (\<lambda>x. ulId x \<notin> seen) xs)
         in case GroupsLoop E (gs @ more) seen c of (ys, c) \<Rightarrow> (g # ys, c)))"
  by pat_completeness auto

lemma seen_measure:
  fixes g :: localobjectdetails and seen :: "uint32 set"
  assumes "ulId g \<notin> seen"
  shows "card (UNIV - insert (ulId g) seen) < card (UNIV - seen)"
proof -
  have "finite (UNIV - seen)" by simp
  moreover have "UNIV - insert (ulId g) seen = (UNIV - seen) - {ulId g}" by blast
  ultimately show ?thesis using assms card_Diff1_less [of "UNIV - seen" "ulId g"] by simp
qed

lemma groups_measure:
  fixes g :: localobjectdetails and gs ms :: "localobjectdetails list"
  assumes "\<forall>x \<in> set ms. ulId x \<notin> insert (ulId g) seen"
  shows "((E, gs @ ms, insert (ulId g) seen, c'), (E, g # gs, seen, c)) \<in>
    measures [\<lambda>(E :: secenv, gs, seen, c :: secctx). card (UNIV - seen),
              \<lambda>(E, gs, seen, c). length (filter (\<lambda>g. ulId g \<in> seen) gs), \<lambda>(E, gs, seen, c). length gs]"
proof (cases "ulId g \<in> seen")
  case True
  then have "insert (ulId g) seen = seen" by blast
  moreover have "filter (\<lambda>x. ulId x \<in> insert (ulId g) seen) ms = []" using assms by (auto simp: filter_empty_conv)
  ultimately show ?thesis using True by simp
next
  case False
  then show ?thesis using seen_measure [OF False] by simp
qed

termination GroupsLoop
proof (relation "measures [\<lambda>(E :: secenv, gs, seen, c :: secctx). card (UNIV - seen),
              \<lambda>(E, gs, seen, c). length (filter (\<lambda>g. ulId g \<in> seen) gs), \<lambda>(E, gs, seen, c). length gs]", goal_cases)
  case 3
  then show ?case by (auto intro!: groups_measure groups_measure [where ms = "[]", unfolded append_Nil2] split: sum.splits simp del: in_measures)
qed auto

definition GetGroupsForUser :: "secenv \<Rightarrow> uint32 \<Rightarrow> secctx \<Rightarrow> (ecresult + localobjectdetails list) \<times> secctx" where
  "GetGroupsForUser E ulUserId c =
     (case GetParentObjects E OBJECTRELATION_GROUP_MEMBER ulUserId USERMANAGEMENT_IDS_ONLY of
        Inl er \<Rightarrow> (Inl er, c)
      | Inr gs \<Rightarrow> (case GroupsLoop E gs {} c of (ys, c) \<Rightarrow> (Inr ys, c)))"

text \<open>The lazily filled list of the user's groups; None when it cannot be read.\<close>

definition Groups :: "secenv \<Rightarrow> secctx \<Rightarrow> localobjectdetails list option \<times> secctx" where
  "Groups E c =
     (case m_lpGroups c of
        Some gs \<Rightarrow> (Some gs, c)
      | None \<Rightarrow> (case GetGroupsForUser E (m_ulUserID c) c of
                   (Inl _, c) \<Rightarrow> (None, c)
                 | (Inr gs, c) \<Rightarrow> (Some gs, c\<lparr>m_lpGroups := Some gs\<rparr>)))"

section \<open>Permissions from access control lists\<close>

text \<open>The grants of one user, group or company on one object: whether there are any, and their union.\<close>

definition grants_for :: "aclrow list \<Rightarrow> uint32 \<Rightarrow> bool \<times> uint32" where
  "grants_for rows uid =
     (let m = filter (\<lambda>a. a_type a = ACCESS_TYPE_GRANT \<and> a_id a = uid) rows
      in (m \<noteq> [], fold (\<lambda>a r. r OR a_rights a) m 0))"

definition join_grants :: "bool \<times> uint32 \<Rightarrow> bool \<times> uint32 \<Rightarrow> bool \<times> uint32" where
  "join_grants a b = (fst a \<or> fst b, snd a OR snd b)"

definition grants_at :: "secenv \<Rightarrow> secdb \<Rightarrow> uint32 \<Rightarrow> secctx \<Rightarrow> (bool \<times> uint32) \<times> secctx" where
  "grants_at E db obj c =
     (let rows = GetACLs db obj;
          own = join_grants (grants_for rows (m_ulUserID c)) (grants_for rows (m_ulCompanyID c))
      in case Groups E c of
           (None, c) \<Rightarrow> (own, c)
         | (Some gs, c) \<Rightarrow> (fold (\<lambda>g r. join_grants r (grants_for rows (ulId g))) gs own, c))"

fun ObjectPermissionN :: "nat \<Rightarrow> secenv \<Rightarrow> secdb \<Rightarrow> uint32 \<Rightarrow> secctx \<Rightarrow> uint32 \<times> secctx" where
  "ObjectPermissionN 0 E db ulCurObj c = (0, c)"
| "ObjectPermissionN (Suc n) E db ulCurObj c =
     (case grants_at E db ulCurObj c of
        ((bFoundACL, ulRights), c) \<Rightarrow>
          if bFoundACL then (ulRights, c)
          else (case GetParent db ulCurObj of Inl _ \<Rightarrow> (0, c) | Inr p \<Rightarrow> ObjectPermissionN n E db p c))"

definition GetObjectPermission :: "secenv \<Rightarrow> secdb \<Rightarrow> uint32 \<Rightarrow> secctx \<Rightarrow> uint32 \<times> secctx" where
  "GetObjectPermission E db ulObjId c = ObjectPermissionN (Suc MAX_PARENT_LIMIT) E db ulObjId c"

definition HaveObjectPermission :: "secenv \<Rightarrow> secdb \<Rightarrow> uint32 \<Rightarrow> uint32 \<Rightarrow> secctx \<Rightarrow> ecresult \<times> secctx" where
  "HaveObjectPermission E db ulObjId ulACLMask c =
     (case GetObjectPermission E db ulObjId c of
        (ulRights, c) \<Rightarrow> (if ulRights AND ulACLMask \<noteq> 0 then erSuccess else KCERR_NO_ACCESS, c))"

section \<open>Ownership\<close>

text \<open>GetOwner stores 0 in its result before it asks the cache.\<close>

definition GetOwner :: "secdb \<Rightarrow> uint32 \<Rightarrow> ecresult \<times> uint32" where
  "GetOwner db ulObjId =
     (case CacheGetOwner db ulObjId of Inl _ \<Rightarrow> (KCERR_NOT_FOUND, 0) | Inr ow \<Rightarrow> (erSuccess, ow))"

definition IsOwner :: "secdb \<Rightarrow> uint32 \<Rightarrow> secctx \<Rightarrow> ecresult" where
  "IsOwner db ulObjId c =
     (case GetOwner db ulObjId of
        (er, ulOwner) \<Rightarrow> if er \<noteq> erSuccess \<or> ulOwner \<noteq> m_ulUserID c then KCERR_NO_ACCESS else erSuccess)"

definition IsStoreOwner :: "secdb \<Rightarrow> uint32 \<Rightarrow> secctx \<Rightarrow> ecresult" where
  "IsStoreOwner db ulObjId c =
     (case GetStoreAndType db ulObjId of Inl er \<Rightarrow> er | Inr (ulStoreId, _) \<Rightarrow> IsOwner db ulStoreId c)"

text \<open>The store's owner and type; a failure leaves the callers' initial zeros where nothing was stored.\<close>

definition GetStoreOwnerAndType :: "secdb \<Rightarrow> uint32 \<Rightarrow> ecresult \<times> uint32 \<times> uint32" where
  "GetStoreOwnerAndType db ulObjId =
     (case GetStoreAndType db ulObjId of
        Inl er \<Rightarrow> (er, 0, 0)
      | Inr (ulStoreId, ty) \<Rightarrow> (case GetOwner db ulStoreId of (er, ow) \<Rightarrow> (er, ow, ty)))"

definition GetStoreOwner :: "secdb \<Rightarrow> uint32 \<Rightarrow> ecresult \<times> uint32" where
  "GetStoreOwner db ulObjId = (case GetStoreOwnerAndType db ulObjId of (er, ow, _) \<Rightarrow> (er, ow))"

text \<open>
  The walk of CheckDeletedParent: the loop body runs until a store, a missing parent, or
  the depth limit; the result carries the final depth.
\<close>

fun DeletedParentN :: "nat \<Rightarrow> nat \<Rightarrow> secdb \<Rightarrow> uint32 \<Rightarrow> ecresult + nat" where
  "DeletedParentN 0 ulDepth db ulObj = Inr ulDepth"
| "DeletedParentN (Suc n) ulDepth db ulObj =
     (case GetObject db ulObj of
        Inl er \<Rightarrow> Inl er
      | Inr (ulParentObjId, _, ulObjFlags, ulObjType) \<Rightarrow>
          if ulObjFlags AND MSGFLAG_DELETED \<noteq> 0 then Inl KCERR_NOT_FOUND
          else if ulObjType \<noteq> MAPI_STORE \<and> ulParentObjId \<noteq> CACHE_NO_PARENT \<and> Suc ulDepth \<le> MAX_PARENT_LIMIT
          then DeletedParentN n (Suc ulDepth) db ulParentObjId
          else Inr (Suc ulDepth))"

definition CheckDeletedParent :: "secdb \<Rightarrow> uint32 \<Rightarrow> ecresult" where
  "CheckDeletedParent db ulObj =
     (case DeletedParentN (MAX_PARENT_LIMIT + 1) 0 db ulObj of
        Inl er \<Rightarrow> er
      | Inr ulDepth \<Rightarrow> if ulDepth = MAX_PARENT_LIMIT then KCERR_NOT_FOUND else erSuccess)"

section \<open>Administrators\<close>

definition IsAdminOverUserObject :: "secenv \<Rightarrow> uint32 \<Rightarrow> secctx \<Rightarrow> ecresult \<times> secctx" where
  "IsAdminOverUserObject E ulUserObjectId c =
     (if \<not> hosted E then (if adminlevel (m_details c) \<noteq> 0 then erSuccess else KCERR_NO_ACCESS, c)
      else if adminlevel (m_details c) = ADMIN_LEVEL_SYSADMIN then (erSuccess, c)
      else (case GetExternalId E ulUserObjectId of
              Inl er \<Rightarrow> (er, c)
            | Inr (cls, company) \<Rightarrow>
                let ulCompanyId = (if cls = CONTAINER_COMPANY then ulUserObjectId else company) in
                if m_ulCompanyID c = ulCompanyId
                then (if adminlevel (m_details c) \<noteq> 0 then erSuccess else KCERR_NO_ACCESS, c)
                else (case (case m_lpAdminCompanies c of
                              Some xs \<Rightarrow> (Inr xs, c)
                            | None \<Rightarrow> (case GetAdminCompanies E USERMANAGEMENT_IDS_ONLY c of
                                         (Inl er, c) \<Rightarrow> (Inl er, c)
                                       | (Inr xs, c) \<Rightarrow> (Inr xs, c\<lparr>m_lpAdminCompanies := Some xs\<rparr>))) of
                        (Inl er, c) \<Rightarrow> (er, c)
                      | (Inr xs, c) \<Rightarrow>
                          (if \<exists>x \<in> set xs. ulId x = ulCompanyId then erSuccess else KCERR_NO_ACCESS, c))))"

definition IsAdminOverOwnerOfObject :: "secenv \<Rightarrow> secdb \<Rightarrow> uint32 \<Rightarrow> secctx \<Rightarrow> ecresult \<times> secctx" where
  "IsAdminOverOwnerOfObject E db ulObjectId c =
     (case GetStoreOwner db ulObjectId of
        (er, ulOwner) \<Rightarrow> if er \<noteq> erSuccess then (er, c) else IsAdminOverUserObject E ulOwner c)"

definition GetUserId :: "secenv \<Rightarrow> secdb \<Rightarrow> uint32 \<Rightarrow> secctx \<Rightarrow> uint32 \<times> secctx" where
  "GetUserId E db ulObjId c =
     (if ulObjId = 0 then (m_ulUserID c, c)
      else (case IsAdminOverOwnerOfObject E db ulObjId c of
              (er, c) \<Rightarrow>
                if er \<noteq> erSuccess then (m_ulUserID c, c)
                else (case GetOwner db ulObjId of
                        (er, ow) \<Rightarrow> (if er \<noteq> erSuccess then m_ulUserID c else ow, c))))"

section \<open>CheckPermission\<close>

text \<open>The rights mask of each security code, and which of the final checks it takes.\<close>

datatype checktype = CheckNone | CheckACL uint32 | CheckOwner | CheckAdmin

definition right_check :: "ecsecurity \<Rightarrow> bool \<Rightarrow> uint32 \<Rightarrow> checktype" where
  "right_check ulecRights bOwnerFound ulStoreType =
     (case ulecRights of
        ecSecurityRead \<Rightarrow> CheckACL ecRightsReadAny
      | ecSecurityCreate \<Rightarrow> CheckACL ecRightsCreate
      | ecSecurityEdit \<Rightarrow> CheckACL (ecRightsEditAny OR (if bOwnerFound then ecRightsEditOwned else 0))
      | ecSecurityDelete \<Rightarrow> CheckACL (ecRightsDeleteAny OR (if bOwnerFound then ecRightsDeleteOwned else 0))
      | ecSecurityCreateFolder \<Rightarrow> CheckACL ecRightsCreateSubfolder
      | ecSecurityFolderVisible \<Rightarrow> CheckACL ecRightsFolderVisible
      | ecSecurityFolderAccess \<Rightarrow>
          CheckACL (if \<not> bOwnerFound \<or> ulStoreType = ECSTORE_TYPE_ARCHIVE then ecRightsFolderAccess else 0)
      | ecSecurityOwner \<Rightarrow> CheckOwner
      | ecSecurityAdmin \<Rightarrow> CheckAdmin
      | ecSecurityUnknown _ \<Rightarrow> CheckNone)"

definition visible_or_read :: "ecsecurity \<Rightarrow> bool" where
  "visible_or_read r \<longleftrightarrow> r = ecSecurityFolderVisible \<or> r = ecSecurityRead"

text \<open>The special case of stores and root containers: Some er ends the check with er.\<close>

definition special_case :: "secdb \<Rightarrow> uint32 \<Rightarrow> ecsecurity \<Rightarrow> ecresult option" where
  "special_case db ulObjId ulecRights =
     (if \<not> visible_or_read ulecRights then None
      else (case GetObject db ulObjId of
              Inl er \<Rightarrow> Some er
            | Inr (ulParentId, _, _, ulObjType) \<Rightarrow>
                if ulObjType = MAPI_STORE then Some erSuccess
                else (case GetObject db ulParentId of
                        Inl er \<Rightarrow> Some er
                      | Inr (_, _, _, ulParentType) \<Rightarrow>
                          if ulObjType = MAPI_FOLDER \<and> ulParentType = MAPI_STORE then Some erSuccess else None)))"

text \<open>What the store owner and the object owner may do without a grant.\<close>

definition store_owner_may :: "uint32 \<Rightarrow> ecsecurity \<Rightarrow> bool" where
  "store_owner_may ulStoreType r \<longleftrightarrow> ulStoreType \<noteq> ECSTORE_TYPE_ARCHIVE \<or> visible_or_read r"

definition object_owner_may :: "uint32 \<Rightarrow> ecsecurity \<Rightarrow> bool" where
  "object_owner_may ulStoreType r \<longleftrightarrow>
     visible_or_read r \<or> (ulStoreType \<noteq> ECSTORE_TYPE_ARCHIVE \<and> r = ecSecurityCreate)"

definition restricted_admin_may :: "ecsecurity \<Rightarrow> bool" where
  "restricted_admin_may r \<longleftrightarrow> r = ecSecurityFolderVisible \<or> r = ecSecurityFolderAccess \<or> r = ecSecurityCreateFolder"

text \<open>The final checks, after owners and administrators have been dealt with.\<close>

definition final_check :: "secenv \<Rightarrow> secdb \<Rightarrow> uint32 \<Rightarrow> ecsecurity \<Rightarrow> bool \<Rightarrow> uint32 \<Rightarrow> secctx \<Rightarrow> ecresult \<times> secctx" where
  "final_check E db ulObjId ulecRights bOwnerFound ulStoreType c =
     (case right_check ulecRights bOwnerFound ulStoreType of
        CheckACL ulACL \<Rightarrow> if ulACL = 0 then (erSuccess, c) else HaveObjectPermission E db ulObjId ulACL c
      | CheckOwner \<Rightarrow> (if bOwnerFound then erSuccess else KCERR_NO_ACCESS, c)
      | CheckAdmin \<Rightarrow> (erSuccess, c)
      | CheckNone \<Rightarrow> (KCERR_NO_ACCESS, c))"

definition access_decision :: "secenv \<Rightarrow> secdb \<Rightarrow> uint32 \<Rightarrow> ecsecurity \<Rightarrow> secctx \<Rightarrow> ecresult \<times> secctx" where
  "access_decision E db ulObjId r c =
     (if m_ulUserID c = KOPANO_UID_SYSTEM then (erSuccess, c)
      else (case special_case db ulObjId r of
        Some er \<Rightarrow> (er, c)
      | None \<Rightarrow>
          (case GetStoreOwnerAndType db ulObjId of (er, ulStoreOwnerId, ulStoreType) \<Rightarrow>
           if er = erSuccess \<and> ulStoreOwnerId = m_ulUserID c \<and> store_owner_may ulStoreType r then (erSuccess, c)
           else (case GetOwner db ulObjId of (er, ulObjectOwnerId) \<Rightarrow>
             let bOwnerFound = (er = erSuccess \<and> ulObjectOwnerId = m_ulUserID c \<and> m_bOwnerAutoFullAccess c) in
             if bOwnerFound \<and> object_owner_may ulStoreType r then (erSuccess, c)
             else (case IsAdminOverOwnerOfObject E db ulObjId c of (er, c) \<Rightarrow>
               if er = erSuccess \<and> (\<not> m_bRestrictedAdmin c \<or> restricted_admin_may r) then (erSuccess, c)
               else final_check E db ulObjId r bOwnerFound ulStoreType c)))))"

definition writes :: "ecsecurity \<Rightarrow> bool" where
  "writes r \<longleftrightarrow> r = ecSecurityCreate \<or> r = ecSecurityEdit \<or> r = ecSecurityCreateFolder"

definition CheckPermission :: "secenv \<Rightarrow> secdb \<Rightarrow> uint32 \<Rightarrow> ecsecurity \<Rightarrow> secctx \<Rightarrow> ecresult \<times> secctx" where
  "CheckPermission E db ulObjId ulecRights c =
     (case access_decision E db ulObjId ulecRights c of (er, c) \<Rightarrow>
      (if er = erSuccess \<and> writes ulecRights then CheckDeletedParent db ulObjId else er, c))"

section \<open>Reading and writing access control lists\<close>

record rights =
  ulUserid :: uint32
  ulType :: uint32
  ulRights :: uint32
  ulState :: uint32
  sUserId :: bytes

fun read_rights :: "secenv \<Rightarrow> aclrow list \<Rightarrow> ecresult + rights list" where
  "read_rights E [] = Inr []"
| "read_rights E (a # as) =
     (case (if a_id a = KOPANO_UID_SYSTEM \<or> a_id a = KOPANO_UID_EVERYONE then Inr ()
            else (case GetExternalId E (a_id a) of Inl er \<Rightarrow> Inl er | Inr _ \<Rightarrow> Inr ())) of
        Inl er \<Rightarrow> Inl er
      | Inr _ \<Rightarrow>
          (case EncodeUserEntryId E (a_id a) of
             Inl er \<Rightarrow> Inl er
           | Inr eid \<Rightarrow>
               (case read_rights E as of
                  Inl er \<Rightarrow> Inl er
                | Inr rs \<Rightarrow> Inr (\<lparr>ulUserid = a_id a, ulType = a_type a, ulRights = a_rights a,
                                  ulState = RIGHT_NORMAL, sUserId = eid\<rparr> # rs))))"

definition GetRights :: "secenv \<Rightarrow> secdb \<Rightarrow> uint32 \<Rightarrow> uint32 \<Rightarrow> ecresult + rights list" where
  "GetRights E db objid ty =
     read_rights E (filter (\<lambda>a. (ty = ACCESS_TYPE_DENIED \<or> ty = ACCESS_TYPE_GRANT) \<longrightarrow> a_type a = ty) (GetACLs db objid))"

text \<open>The denied mask that goes with a grant.\<close>

definition denied_rights :: "uint32 \<Rightarrow> uint32" where
  "denied_rights r =
     (let d = r XOR ecRightsAllMask;
          d = (if r AND ecRightsEditAny \<noteq> 0 then d AND NOT ecRightsEditOwned
               else if r AND ecRightsEditOwned \<noteq> 0 then (d AND NOT ecRightsEditOwned) OR ecRightsEditAny
               else d)
      in if r AND ecRightsDeleteAny \<noteq> 0 then d AND NOT ecRightsDeleteOwned
         else if r AND ecRightsDeleteOwned \<noteq> 0 then (d AND NOT ecRightsDeleteOwned) OR ecRightsDeleteAny
         else d)"

text \<open>REPLACE INTO and DELETE on the acl table, whose key is object, user and type.\<close>

definition acl_key :: "aclrow \<Rightarrow> uint32 \<times> uint32 \<times> uint32" where
  "acl_key a = (a_hierarchy a, a_id a, a_type a)"

definition acl_replace :: "aclrow \<Rightarrow> secdb \<Rightarrow> secdb" where
  "acl_replace a db = db\<lparr>acl := filter (\<lambda>b. acl_key b \<noteq> acl_key a) (acl db) @ [a]\<rparr>"

definition acl_delete :: "uint32 \<Rightarrow> uint32 \<Rightarrow> uint32 \<Rightarrow> secdb \<Rightarrow> secdb" where
  "acl_delete objid uid ty db = db\<lparr>acl := filter (\<lambda>b. acl_key b \<noteq> (objid, uid, ty)) (acl db)\<rparr>"

text \<open>The database writes of one entry.\<close>

definition write_right :: "uint32 \<Rightarrow> uint32 \<Rightarrow> rights \<Rightarrow> secdb \<Rightarrow> secdb" where
  "write_right objid uid r db =
     (if ulState r = RIGHT_NORMAL then db
      else if ulState r AND RIGHT_NEW \<noteq> 0 \<or> ulState r AND RIGHT_MODIFY \<noteq> 0 then
        (let db = acl_replace \<lparr>a_id = uid, a_hierarchy = objid, a_type = ulType r, a_rights = ulRights r\<rparr> db in
         if ulState r AND RIGHT_AUTOUPDATE_DENIED \<noteq> 0
         then acl_replace \<lparr>a_id = uid, a_hierarchy = objid, a_type = ACCESS_TYPE_DENIED, a_rights = denied_rights (ulRights r)\<rparr> db
         else db)
      else if ulState r AND RIGHT_DELETED \<noteq> 0 then
        (let db = acl_delete objid uid (ulType r) db in
         if ulState r AND RIGHT_AUTOUPDATE_DENIED \<noteq> 0 then acl_delete objid uid ACCESS_TYPE_DENIED db else db)
      else db)"

definition resolve_user :: "secenv \<Rightarrow> rights \<Rightarrow> ecresult + uint32" where
  "resolve_user E r = (if sUserId r \<noteq> [] then DecodeUserEntryId E (sUserId r) else Inr (ulUserid r))"

text \<open>The loop over the entries: result code, number of refused entries, and the database.\<close>

fun SetRightsLoop :: "secenv \<Rightarrow> uint32 \<Rightarrow> rights list \<Rightarrow> nat \<Rightarrow> secdb \<Rightarrow> ecresult \<times> nat \<times> secdb" where
  "SetRightsLoop E objid [] ulErrors db = (erSuccess, ulErrors, db)"
| "SetRightsLoop E objid (r # rs) ulErrors db =
     (case resolve_user E r of
        Inl er \<Rightarrow> (er, ulErrors, db)
      | Inr uid \<Rightarrow>
          (case GetObjectDetails E uid of
             Inl er \<Rightarrow> (er, ulErrors, db)
           | Inr d \<Rightarrow>
               if ulState r AND NOT (RIGHT_DELETED OR RIGHT_AUTOUPDATE_DENIED) \<noteq> 0 \<and> m_objclass d \<noteq> ACTIVE_USER \<and>
                  m_objclass d \<noteq> DISTLIST_SECURITY \<and> m_objclass d \<noteq> CONTAINER_COMPANY
               then SetRightsLoop E objid rs (Suc ulErrors) db
               else SetRightsLoop E objid rs ulErrors (write_right objid uid r db)))"

definition SetRights :: "secenv \<Rightarrow> uint32 \<Rightarrow> rights list option \<Rightarrow> secdb \<Rightarrow> ecresult \<times> secdb" where
  "SetRights E objid lpsRightsArray db =
     (case lpsRightsArray of
        None \<Rightarrow> (KCERR_INVALID_PARAMETER, db)
      | Some rs \<Rightarrow>
          (case SetRightsLoop E objid rs 0 db of
             (er, ulErrors, db) \<Rightarrow>
               if er \<noteq> erSuccess then (er, db)
               else if ulErrors = length rs then (KCERR_INVALID_PARAMETER, db)
               else if ulErrors \<noteq> 0 then (KCWARN_PARTIAL_COMPLETION, db)
               else (erSuccess, db)))"

section \<open>Quota\<close>

definition MB :: "64 word" where "MB = 1024 * 1024"

definition GetUserQuota :: "secenv \<Rightarrow> uint32 \<Rightarrow> bool \<Rightarrow> ecresult + quotadetails" where
  "GetUserQuota E ulUserId bGetUserDefault =
     (case GetExternalId E ulUserId of
        Inl er \<Rightarrow> Inl er
      | Inr (cls, company) \<Rightarrow>
          if cls = NONACTIVE_CONTACT \<or> OBJECTCLASS_TYPE cls = OBJECTTYPE_DISTLIST \<or> cls = CONTAINER_ADDRESSLIST
          then Inr new_quotadetails
          else (case GetQuotaDetails E ulUserId bGetUserDefault of
            Inl er \<Rightarrow> Inl er
          | Inr q \<Rightarrow>
              if \<not> bUseDefaultQuota q then Inr q
              else (let comp = (if OBJECTCLASS_TYPE cls = OBJECTTYPE_MAILUSER \<and> company \<noteq> 0
                                then (case GetQuotaDetails E company True of Inl _ \<Rightarrow> None | Inr cq \<Rightarrow> Some cq) else None);
                        q = (case comp of None \<Rightarrow> q | Some cq \<Rightarrow> cq)
                    in if comp \<noteq> None \<and> \<not> bUseDefaultQuota q then Inr q
                       else (let user = (OBJECTCLASS_TYPE cls = OBJECTTYPE_MAILUSER);
                                 warn = (if user then quota_warn E else if cls = CONTAINER_COMPANY then companyquota_warn E else None);
                                 soft = (if user then quota_soft E else None);
                                 hard = (if user then quota_hard E else None)
                             in Inr \<lparr>bUseDefaultQuota = True, bIsUserDefaultQuota = False,
                                     llWarnSize = (case warn of None \<Rightarrow> llWarnSize q | Some w \<Rightarrow> w * MB),
                                     llSoftSize = (case soft of None \<Rightarrow> llSoftSize q | Some w \<Rightarrow> w * MB),
                                     llHardSize = (case hard of None \<Rightarrow> llHardSize q | Some w \<Rightarrow> w * MB)\<rparr>))))"

definition quota_status :: "quotadetails \<Rightarrow> 64 word \<Rightarrow> quotastatus" where
  "quota_status q llStoreSize =
     (if 0 <s llHardSize q \<and> llHardSize q \<le>s llStoreSize then QUOTA_HARDLIMIT
      else if 0 <s llSoftSize q \<and> llSoftSize q \<le>s llStoreSize then QUOTA_SOFTLIMIT
      else if 0 <s llWarnSize q \<and> llWarnSize q \<le>s llStoreSize then QUOTA_WARN
      else QUOTA_OK)"

definition CheckUserQuota :: "secenv \<Rightarrow> uint32 \<Rightarrow> 64 word \<Rightarrow> ecresult + quotastatus" where
  "CheckUserQuota E ulUserId llStoreSize =
     (if ulUserId = KOPANO_UID_EVERYONE then Inr QUOTA_OK
      else (case GetUserQuota E ulUserId False of Inl er \<Rightarrow> Inl er | Inr q \<Rightarrow> Inr (quota_status q llStoreSize)))"

definition CheckQuota :: "secenv \<Rightarrow> secdb \<Rightarrow> uint32 \<Rightarrow> 64 word \<Rightarrow> ecresult + quotastatus" where
  "CheckQuota E db ulStoreId llStoreSize =
     (case GetStoreAndType db ulStoreId of
        Inl er \<Rightarrow> Inl er
      | Inr (_, ulStoreType) \<Rightarrow>
          if ulStoreType \<noteq> ECSTORE_TYPE_PRIVATE then Inr QUOTA_OK
          else (case GetStoreOwner db ulStoreId of
                  (er, ulOwnerId) \<Rightarrow> if er \<noteq> erSuccess then Inl er else CheckUserQuota E ulOwnerId llStoreSize))"

section \<open>Names\<close>

definition KOPANO_SYSTEM_USER :: string where "KOPANO_SYSTEM_USER = ''SYSTEM''"

definition GetUsername :: "secctx \<Rightarrow> string" where
  "GetUsername c = (if m_ulUserID c \<noteq> 0 then login (m_details c) else KOPANO_SYSTEM_USER)"

definition GetImpersonator :: "secctx \<Rightarrow> ecresult + string" where
  "GetImpersonator c =
     (if m_ulImpersonatorID c = EC_NO_IMPERSONATOR then Inl KCERR_NOT_FOUND
      else if m_ulImpersonatorID c \<noteq> 0 then Inr (login (m_impersonatorDetails c))
      else Inr KOPANO_SYSTEM_USER)"

definition GetAdminLevel :: "secctx \<Rightarrow> uint32" where
  "GetAdminLevel c = adminlevel (m_details c)"

definition GetUserCompany :: "secctx \<Rightarrow> uint32" where
  "GetUserCompany c = m_ulCompanyID c"

end
