(* ===== verification/SecuritySpec.thy ===== *)
theory SecuritySpec
  imports Security
begin

text \<open>
  The properties of the access control: what a granted request rests on, that the rights
  found are those of the nearest ancestor with a grant, that the group list is closed and
  visible, how rights are written, the depth limit of deleted parents, and quota levels.
\<close>

section \<open>Visibility does not depend on what has been loaded\<close>

definition visible :: "secenv \<Rightarrow> secctx \<Rightarrow> uint32 \<Rightarrow> bool" where
  "visible E c a \<longleftrightarrow> fst (IsUserObjectVisible E a c) = erSuccess"

text \<open>\<open>c'\<close> is c, up to the list of viewable companies having been loaded.\<close>

definition loaded :: "secenv \<Rightarrow> secctx \<Rightarrow> secctx \<Rightarrow> bool" where
  "loaded E c c' \<longleftrightarrow> c' = c \<or> (m_lpViewCompanies c = None \<and>
     (\<exists>xs. GetViewableCompanies E 0 c = Inr xs \<and> c' = c\<lparr>m_lpViewCompanies := Some xs\<rparr>))"

lemma visible_loaded: "loaded E c (snd (IsUserObjectVisible E a c))"
  by (auto simp: IsUserObjectVisible_def ViewCompanies_def loaded_def Let_def split: sum.splits option.splits)

lemma loaded_trans: "loaded E c c' \<Longrightarrow> loaded E c' c'' \<Longrightarrow> loaded E c c''"
  by (auto simp: loaded_def)

lemma loaded_visible:
  assumes "loaded E c c'"
  shows "visible E c' a = visible E c a"
proof (cases "c' = c")
  case False
  then obtain xs where xs: "m_lpViewCompanies c = None" "GetViewableCompanies E 0 c = Inr xs"
      "c' = c\<lparr>m_lpViewCompanies := Some xs\<rparr>"
    using assms unfolding loaded_def by blast
  then have "ViewCompanies E c = (Inr xs, c')" "ViewCompanies E c' = (Inr xs, c')"
    by (simp_all add: ViewCompanies_def)
  then show ?thesis
    unfolding visible_def IsUserObjectVisible_def by (simp add: xs(3) Let_def split: sum.split prod.split)
qed simp

section \<open>Groups\<close>

definition parents :: "secenv \<Rightarrow> uint32 \<Rightarrow> localobjectdetails list" where
  "parents E a = (case GetParentObjects E OBJECTRELATION_GROUP_MEMBER a USERMANAGEMENT_IDS_ONLY of Inl _ \<Rightarrow> [] | Inr xs \<Rightarrow> xs)"

definition security_group :: "secenv \<Rightarrow> secctx \<Rightarrow> localobjectdetails \<Rightarrow> bool" where
  "security_group E c g \<longleftrightarrow> visible E c (ulId g) \<and> m_objclass (details g) \<noteq> DISTLIST_DYNAMIC"

lemma GroupsLoop_step:
  "GroupsLoop E (g # gs) seen c =
     (let c' = snd (IsUserObjectVisible E (ulId g) c) in
      if \<not> security_group E c g then GroupsLoop E gs seen c'
      else (case GroupsLoop E (gs @ filter (\<lambda>x. ulId x \<notin> insert (ulId g) seen) (parents E (ulId g))) (insert (ulId g) seen) c' of
              (ys, c'') \<Rightarrow> (g # ys, c'')))"
  by (auto simp: security_group_def visible_def parents_def Let_def split: prod.splits sum.splits)

declare GroupsLoop.simps(2) [simp del]

lemma GroupsLoop_ok:
  assumes "GroupsLoop E gs seen c = (ys, c')"
  shows "loaded E c c' \<and> (\<forall>y \<in> set ys. security_group E c y) \<and>
    (\<forall>g \<in> set gs. security_group E c g \<longrightarrow> ulId g \<in> ulId ` set ys) \<and>
    (\<forall>y \<in> set ys. \<forall>x \<in> set (parents E (ulId y)). security_group E c x \<longrightarrow> ulId x \<in> seen \<union> ulId ` set ys)"
  using assms
proof (induction E gs seen c arbitrary: ys c' rule: GroupsLoop.induct)
  case (1 E seen c)
  then show ?case by (auto simp: loaded_def)
next
  case (2 E g gs seen c)
  let ?c = "snd (IsUserObjectVisible E (ulId g) c)"
  let ?more = "filter (\<lambda>x. ulId x \<notin> insert (ulId g) seen) (parents E (ulId g))"
  have l: "loaded E c ?c" by (rule visible_loaded)
  have sg: "security_group E ?c x = security_group E c x" for x
    unfolding security_group_def using loaded_visible [OF l] by simp
  show ?case
  proof (cases "security_group E c g")
    case False
    then have "GroupsLoop E gs seen ?c = (ys, c')" using 2(3) by (simp add: GroupsLoop_step Let_def)
    moreover have "fst (IsUserObjectVisible E (ulId g) c) \<noteq> erSuccess \<or> m_objclass (details g) = DISTLIST_DYNAMIC"
      using False by (auto simp: security_group_def visible_def)
    ultimately show ?thesis using 2(1) [OF prod.collapse] loaded_trans [OF l] False by (simp add: sg)
  next
    case True
    then obtain zs where zs: "GroupsLoop E (gs @ ?more) (insert (ulId g) seen) ?c = (zs, c')" "ys = g # zs"
      using 2(3) by (auto simp: GroupsLoop_step Let_def split: prod.splits)
    have more: "(case GetParentObjects E OBJECTRELATION_GROUP_MEMBER (ulId g) USERMANAGEMENT_IDS_ONLY of
        Inl _ \<Rightarrow> [] | Inr xs \<Rightarrow> filter (\<lambda>x. ulId x \<notin> insert (ulId g) seen) xs) = ?more"
      by (simp add: parents_def split: sum.split)
    have nv: "\<not> (fst (IsUserObjectVisible E (ulId g) c) \<noteq> erSuccess \<or> m_objclass (details g) = DISTLIST_DYNAMIC)"
      using True by (simp add: security_group_def visible_def)
    note IH = 2(2) [OF prod.collapse nv refl more [symmetric] zs(1), unfolded sg]
    show ?thesis unfolding zs(2) using IH True loaded_trans [OF l]
      by (auto simp: image_iff)
  qed
qed

inductive member_of :: "secenv \<Rightarrow> secctx \<Rightarrow> uint32 \<Rightarrow> localobjectdetails \<Rightarrow> bool" for E c u where
  direct: "x \<in> set (parents E u) \<Longrightarrow> security_group E c x \<Longrightarrow> member_of E c u x"
| nested: "member_of E c u y \<Longrightarrow> x \<in> set (parents E (ulId y)) \<Longrightarrow> security_group E c x \<Longrightarrow> member_of E c u x"

lemma GroupsLoop_sound:
  assumes "GroupsLoop E gs seen c = (ys, c')" "\<forall>g \<in> set gs. security_group E c g \<longrightarrow> member_of E c u g"
  shows "\<forall>y \<in> set ys. member_of E c u y"
  using assms
proof (induction E gs seen c arbitrary: ys c' rule: GroupsLoop.induct)
  case (2 E g gs seen c)
  let ?c = "snd (IsUserObjectVisible E (ulId g) c)"
  let ?more = "filter (\<lambda>x. ulId x \<notin> insert (ulId g) seen) (parents E (ulId g))"
  have l: "loaded E c ?c" by (rule visible_loaded)
  have sg: "security_group E ?c x = security_group E c x" for x
    unfolding security_group_def using loaded_visible [OF l] by simp
  have mo: "member_of E ?c u x = member_of E c u x" for x
  proof
    show "member_of E c u x" if "member_of E ?c u x"
      using that by induction (auto intro: direct nested simp: sg)
    show "member_of E ?c u x" if "member_of E c u x"
      using that by induction (auto intro: direct nested simp: sg)
  qed
  show ?case
  proof (cases "security_group E c g")
    case False
    then have "GroupsLoop E gs seen ?c = (ys, c')" using 2(3) by (simp add: GroupsLoop_step Let_def)
    moreover have "fst (IsUserObjectVisible E (ulId g) c) \<noteq> erSuccess \<or> m_objclass (details g) = DISTLIST_DYNAMIC"
      using False by (auto simp: security_group_def visible_def)
    ultimately show ?thesis using 2(1) [OF prod.collapse] 2(4) by (simp add: sg mo)
  next
    case True
    then obtain zs where zs: "GroupsLoop E (gs @ ?more) (insert (ulId g) seen) ?c = (zs, c')" "ys = g # zs"
      using 2(3) by (auto simp: GroupsLoop_step Let_def split: prod.splits)
    have more: "(case GetParentObjects E OBJECTRELATION_GROUP_MEMBER (ulId g) USERMANAGEMENT_IDS_ONLY of
        Inl _ \<Rightarrow> [] | Inr xs \<Rightarrow> filter (\<lambda>x. ulId x \<notin> insert (ulId g) seen) xs) = ?more"
      by (simp add: parents_def split: sum.split)
    have nv: "\<not> (fst (IsUserObjectVisible E (ulId g) c) \<noteq> erSuccess \<or> m_objclass (details g) = DISTLIST_DYNAMIC)"
      using True by (simp add: security_group_def visible_def)
    have m: "member_of E c u g" using 2(4) True by simp
    then have "\<forall>x \<in> set (gs @ ?more). security_group E c x \<longrightarrow> member_of E c u x"
      using 2(4) by (auto intro: nested)
    then show ?thesis unfolding zs(2)
      using 2(2) [OF prod.collapse nv refl more [symmetric] zs(1), unfolded sg mo] m by simp
  qed
qed simp

text \<open>
  C4: The group list of a user holds exactly the security groups the user is in, directly or
  through other security groups: the ids listed are those of the least set that contains the
  visible, non-dynamic groups of the user and is closed under their visible, non-dynamic groups;
  cyclic membership ends (the loop is a total function).
\<close>

theorem groups_are_transitive_membership:
  assumes "GetGroupsForUser E u c = (Inr gs, c')"
  shows "ulId ` set gs = ulId ` {x. member_of E c u x}"
proof -
  from assms obtain ps where ps: "parents E u = ps" "GroupsLoop E ps {} c = (gs, c')"
    by (auto simp: GetGroupsForUser_def parents_def split: sum.splits prod.splits)
  note ok = GroupsLoop_ok [OF ps(2)]
  have "ulId x \<in> ulId ` set gs" if "member_of E c u x" for x
    using that
  proof induction
    case (direct x)
    then show ?case using ok ps by blast
  next
    case (nested y x)
    then obtain y' where "y' \<in> set gs" "ulId y' = ulId y" by auto
    then show ?case using ok nested by (metis Un_iff empty_iff)
  qed
  moreover have "\<forall>y \<in> set gs. member_of E c u y"
    by (rule GroupsLoop_sound [OF ps(2)]) (auto intro: member_of.direct simp: ps)
  ultimately show ?thesis by blast
qed

section \<open>The effective rights\<close>

text \<open>The ids whose grants count for the user: the user, its company, its groups.\<close>

definition principals :: "secenv \<Rightarrow> secctx \<Rightarrow> uint32 set" where
  "principals E c = insert (m_ulUserID c) (insert (m_ulCompanyID c)
     (case fst (Groups E c) of None \<Rightarrow> {} | Some gs \<Rightarrow> ulId ` set gs))"

definition grant_on :: "secdb \<Rightarrow> uint32 set \<Rightarrow> uint32 \<Rightarrow> aclrow set" where
  "grant_on db ids obj = {a \<in> set (acl db). a_hierarchy a = obj \<and> a_type a = ACCESS_TYPE_GRANT \<and> a_id a \<in> ids}"

text \<open>The n-th ancestor of an object.\<close>

fun ancestor :: "secdb \<Rightarrow> uint32 \<Rightarrow> nat \<Rightarrow> uint32 option" where
  "ancestor db obj 0 = Some obj"
| "ancestor db obj (Suc n) = (case GetParent db obj of Inl _ \<Rightarrow> None | Inr p \<Rightarrow> ancestor db p n)"

lemma bit_fold_or: "bit (fold (\<lambda>a r. r OR f a) xs (r :: uint32)) i \<longleftrightarrow> bit r i \<or> (\<exists>a \<in> set xs. bit (f a) i)"
  by (induction xs arbitrary: r) (auto simp: bit_simps)

lemma grants_for_spec:
  "fst (grants_for (GetACLs db obj) u) \<longleftrightarrow> grant_on db {u} obj \<noteq> {}"
  "bit (snd (grants_for (GetACLs db obj) u)) i \<longleftrightarrow> (\<exists>a \<in> grant_on db {u} obj. bit (a_rights a) i)"
  by (auto simp: grants_for_def grant_on_def GetACLs_def Let_def bit_fold_or filter_empty_conv)

lemma join_grants_simps:
  "fst (join_grants a b) \<longleftrightarrow> fst a \<or> fst b"
  "bit (snd (join_grants a b)) i \<longleftrightarrow> bit (snd a) i \<or> bit (snd b) i"
  by (simp_all add: join_grants_def bit_simps)

lemma join_fold:
  "fst (fold (\<lambda>g r. join_grants r (F g)) gs own) \<longleftrightarrow> fst own \<or> (\<exists>g \<in> set gs. fst (F g))"
  "bit (snd (fold (\<lambda>g r. join_grants r (F g)) gs own)) i \<longleftrightarrow> bit (snd own) i \<or> (\<exists>g \<in> set gs. bit (snd (F g)) i)"
  by (induction gs arbitrary: own) (auto simp: join_grants_simps)

lemma grants_at_spec:
  "fst (fst (grants_at E db obj c)) \<longleftrightarrow> grant_on db (principals E c) obj \<noteq> {}"
  "bit (snd (fst (grants_at E db obj c))) i \<longleftrightarrow> (\<exists>a \<in> grant_on db (principals E c) obj. bit (a_rights a) i)"
  "snd (grants_at E db obj c) = snd (Groups E c)"
proof -
  have 1: "grant_on db (insert x S) obj = grant_on db {x} obj \<union> grant_on db S obj"
    "grant_on db {} obj = {}" "grant_on db (f ` set gs) obj = (\<Union>g \<in> set gs. grant_on db {f g} obj)"
    for x S gs and f :: "localobjectdetails \<Rightarrow> uint32"
    by (auto simp: grant_on_def)
  obtain o' c' where G: "Groups E c = (o', c')" by (cases "Groups E c")
  have p: "principals E c = insert (m_ulUserID c) (insert (m_ulCompanyID c)
     (case o' of None \<Rightarrow> {} | Some gs \<Rightarrow> ulId ` set gs))" by (simp add: principals_def G)
  have e: "grant_on db (principals E c) obj = grant_on db {m_ulUserID c} obj \<union> (grant_on db {m_ulCompanyID c} obj \<union>
     (case o' of None \<Rightarrow> {} | Some gs \<Rightarrow> (\<Union>g \<in> set gs. grant_on db {ulId g} obj)))"
    unfolding p by (subst 1(1), subst 1(1)) (simp add: 1(2,3) split: option.split)
  show "fst (fst (grants_at E db obj c)) \<longleftrightarrow> grant_on db (principals E c) obj \<noteq> {}"
    unfolding e by (cases o') (auto simp: grants_at_def G Let_def join_fold grants_for_spec join_grants_simps)
  show "bit (snd (fst (grants_at E db obj c))) i \<longleftrightarrow> (\<exists>a \<in> grant_on db (principals E c) obj. bit (a_rights a) i)"
    unfolding e by (cases o') (auto simp: grants_at_def G Let_def join_fold grants_for_spec join_grants_simps)
  show "snd (grants_at E db obj c) = snd (Groups E c)"
    by (simp add: grants_at_def G Let_def split: option.split)
qed

lemma loaded_frame:
  assumes "loaded E c c'"
  shows "m_ulUserID c' = m_ulUserID c \<and> m_ulCompanyID c' = m_ulCompanyID c \<and> m_lpGroups c' = m_lpGroups c"
  using assms unfolding loaded_def by auto

lemma Groups_again:
  assumes "Groups E c = (gs, c')"
  shows "Groups E c' = (gs, c')" "m_ulUserID c' = m_ulUserID c" "m_ulCompanyID c' = m_ulCompanyID c"
proof -
  have *: "Groups E c' = (gs, c') \<and> m_ulUserID c' = m_ulUserID c \<and> m_ulCompanyID c' = m_ulCompanyID c"
  proof (cases "m_lpGroups c")
    case (Some xs)
    then have "gs = Some xs" "c' = c" using assms by (simp_all add: Groups_def)
    then show ?thesis using Some by (simp add: Groups_def)
  next
    case None
    note N = this
    show ?thesis
    proof (cases "GetParentObjects E OBJECTRELATION_GROUP_MEMBER (m_ulUserID c) USERMANAGEMENT_IDS_ONLY")
      case (Inl e)
      then show ?thesis using assms N by (auto simp: Groups_def GetGroupsForUser_def)
    next
      case (Inr ps)
      obtain ys c2 where L: "GroupsLoop E ps {} c = (ys, c2)" by (cases "GroupsLoop E ps {} c")
      then have "gs = Some ys" "c' = c2\<lparr>m_lpGroups := Some ys\<rparr>"
        using assms N Inr by (auto simp: Groups_def GetGroupsForUser_def)
      moreover have "loaded E c c2" using GroupsLoop_ok [OF L] by blast
      ultimately show ?thesis using loaded_frame by (auto simp: Groups_def)
    qed
  qed
  then show "Groups E c' = (gs, c')" "m_ulUserID c' = m_ulUserID c" "m_ulCompanyID c' = m_ulCompanyID c" by auto
qed

lemma principals_again: "principals E (snd (Groups E c)) = principals E c"
proof -
  obtain gs c' where "Groups E c = (gs, c')" by (cases "Groups E c")
  then show ?thesis using Groups_again [of E c gs c'] by (simp add: principals_def)
qed

text \<open>The nearest ancestor within n levels that has a grant for one of ids.\<close>

definition nearest :: "secdb \<Rightarrow> uint32 set \<Rightarrow> uint32 \<Rightarrow> nat \<Rightarrow> uint32 \<Rightarrow> bool" where
  "nearest db ids obj n p \<longleftrightarrow> (\<exists>k < n. ancestor db obj k = Some p \<and> grant_on db ids p \<noteq> {} \<and>
     (\<forall>j < k. \<forall>q. ancestor db obj j = Some q \<longrightarrow> grant_on db ids q = {}))"

lemma nearest_0 [simp]: "\<not> nearest db ids obj 0 p"
  by (simp add: nearest_def)

lemma nearest_Suc:
  "nearest db ids obj (Suc n) p \<longleftrightarrow>
     (if grant_on db ids obj \<noteq> {} then p = obj
      else (case GetParent db obj of Inl _ \<Rightarrow> False | Inr q \<Rightarrow> nearest db ids q n p))"
proof (cases "grant_on db ids obj = {}")
  case False
  have "k = 0" if "ancestor db obj k = Some p" "\<forall>j < k. \<forall>q. ancestor db obj j = Some q \<longrightarrow> grant_on db ids q = {}" for k
  proof (rule ccontr)
    assume "k \<noteq> 0"
    then show False using that(2) [rule_format, of 0 obj] False by simp
  qed
  then have "nearest db ids obj (Suc n) p \<Longrightarrow> p = obj" unfolding nearest_def by fastforce
  moreover have "nearest db ids obj (Suc n) obj" unfolding nearest_def using False by (intro exI [of _ 0]) simp
  ultimately show ?thesis using False by auto
next
  case True
  have "nearest db ids obj (Suc n) p \<longleftrightarrow> (\<exists>k < n. ancestor db obj (Suc k) = Some p \<and> grant_on db ids p \<noteq> {} \<and>
     (\<forall>j < k. \<forall>q. ancestor db obj (Suc j) = Some q \<longrightarrow> grant_on db ids q = {}))"
  proof
    assume "nearest db ids obj (Suc n) p"
    then obtain k where k: "k < Suc n" "ancestor db obj k = Some p" "grant_on db ids p \<noteq> {}"
      "\<forall>j < k. \<forall>q. ancestor db obj j = Some q \<longrightarrow> grant_on db ids q = {}" unfolding nearest_def by blast
    then obtain k' where "k = Suc k'" using True by (cases k) auto
    then show "\<exists>k < n. ancestor db obj (Suc k) = Some p \<and> grant_on db ids p \<noteq> {} \<and>
     (\<forall>j < k. \<forall>q. ancestor db obj (Suc j) = Some q \<longrightarrow> grant_on db ids q = {})"
      using k by (intro exI [of _ k']) auto
  next
    assume "\<exists>k < n. ancestor db obj (Suc k) = Some p \<and> grant_on db ids p \<noteq> {} \<and>
     (\<forall>j < k. \<forall>q. ancestor db obj (Suc j) = Some q \<longrightarrow> grant_on db ids q = {})"
    then obtain k where k: "k < n" "ancestor db obj (Suc k) = Some p" "grant_on db ids p \<noteq> {}"
      "\<forall>j < k. \<forall>q. ancestor db obj (Suc j) = Some q \<longrightarrow> grant_on db ids q = {}" by blast
    have "grant_on db ids q = {}" if "j < Suc k" "ancestor db obj j = Some q" for j q
      using that k(4) True by (cases j) auto
    then show "nearest db ids obj (Suc n) p" unfolding nearest_def using k by (intro exI [of _ "Suc k"]) auto
  qed
  then show ?thesis using True by (cases "GetParent db obj") (simp_all add: nearest_def)
qed

lemma ObjectPermissionN_spec:
  "bit (fst (ObjectPermissionN n E db obj c)) i \<longleftrightarrow>
     (\<exists>p. nearest db (principals E c) obj n p \<and> (\<exists>a \<in> grant_on db (principals E c) p. bit (a_rights a) i))"
proof (induction n arbitrary: obj c)
  case (Suc n)
  obtain b r c' where g: "grants_at E db obj c = ((b, r), c')" by (metis surj_pair)
  have b: "b \<longleftrightarrow> grant_on db (principals E c) obj \<noteq> {}"
    "bit r i \<longleftrightarrow> (\<exists>a \<in> grant_on db (principals E c) obj. bit (a_rights a) i)" "c' = snd (Groups E c)"
    using grants_at_spec [of E db obj c] g by auto
  then have p: "principals E c' = principals E c" by (simp add: principals_again)
  show ?case
  proof (cases b)
    case True
    then show ?thesis using b g by (simp add: nearest_Suc)
  next
    case False
    then show ?thesis using b(1) g Suc.IH [of _ c'] p by (auto simp: nearest_Suc split: sum.split)
  qed
qed simp

text \<open>
  C5: The rights a user has on an object are the union of the grants that the nearest ancestor
  with any grant carries for the user, the user's company or the user's groups, where the object
  itself and 64 levels above it are looked at; without such an ancestor there are none. Entries
  that deny play no part.
\<close>

theorem rights_are_nearest_grants:
  "bit (fst (GetObjectPermission E db obj c)) i \<longleftrightarrow>
     (\<exists>p. nearest db (principals E c) obj 65 p \<and> (\<exists>a \<in> grant_on db (principals E c) p. bit (a_rights a) i))"
  by (simp add: GetObjectPermission_def ObjectPermissionN_spec MAX_PARENT_LIMIT_def)

section \<open>Decisions\<close>

lemma GroupsLoop_cong:
  assumes "\<forall>a. visible E d a = visible E c a"
  shows "fst (GroupsLoop E gs seen d) = fst (GroupsLoop E gs seen c)"
  using assms
proof (induction E gs seen c arbitrary: d rule: GroupsLoop.induct)
  case (2 E g gs seen c)
  let ?c = "snd (IsUserObjectVisible E (ulId g) c)" and ?d = "snd (IsUserObjectVisible E (ulId g) d)"
  let ?more = "filter (\<lambda>x. ulId x \<notin> insert (ulId g) seen) (parents E (ulId g))"
  have v: "\<forall>a. visible E ?d a = visible E ?c a"
    using 2(3) loaded_visible [OF visible_loaded] by simp
  have sg: "security_group E d g = security_group E c g" using 2(3) by (simp add: security_group_def)
  show ?case
  proof (cases "security_group E c g")
    case False
    then have "fst (IsUserObjectVisible E (ulId g) c) \<noteq> erSuccess \<or> m_objclass (details g) = DISTLIST_DYNAMIC"
      by (auto simp: security_group_def visible_def)
    then show ?thesis using 2(1) [OF prod.collapse _ v] False sg by (simp add: GroupsLoop_step Let_def)
  next
    case True
    have more: "(case GetParentObjects E OBJECTRELATION_GROUP_MEMBER (ulId g) USERMANAGEMENT_IDS_ONLY of
        Inl _ \<Rightarrow> [] | Inr xs \<Rightarrow> filter (\<lambda>x. ulId x \<notin> insert (ulId g) seen) xs) = ?more"
      by (simp add: parents_def split: sum.split)
    have nv: "\<not> (fst (IsUserObjectVisible E (ulId g) c) \<noteq> erSuccess \<or> m_objclass (details g) = DISTLIST_DYNAMIC)"
      using True by (simp add: security_group_def visible_def)
    have "fst (GroupsLoop E (gs @ ?more) (insert (ulId g) seen) ?d) = fst (GroupsLoop E (gs @ ?more) (insert (ulId g) seen) ?c)"
      by (rule 2(2) [OF prod.collapse nv refl more [symmetric] v])
    then show ?thesis using True sg by (simp add: GroupsLoop_step Let_def case_prod_beta)
  qed
qed simp

lemma principals_cong:
  assumes "\<forall>a. visible E d a = visible E c a" "m_ulUserID d = m_ulUserID c" "m_ulCompanyID d = m_ulCompanyID c"
    "m_lpGroups d = m_lpGroups c"
  shows "principals E d = principals E c"
proof -
  have "fst (Groups E d) = fst (Groups E c)"
    using GroupsLoop_cong [OF assms(1)] assms(2-4)
    by (auto simp: Groups_def GetGroupsForUser_def split: option.split sum.split prod.split dest: arg_cong [of _ _ fst])
  then show ?thesis using assms by (simp add: principals_def)
qed

lemma visible_admin: "visible E (c\<lparr>m_lpAdminCompanies := x\<rparr>) a = visible E c a"
proof -
  have g: "GetViewableCompanies E 0 (c\<lparr>m_lpAdminCompanies := x\<rparr>) = GetViewableCompanies E 0 c"
    by (simp add: GetViewableCompanies_def Let_def split: sum.split)
  show ?thesis
    unfolding visible_def IsUserObjectVisible_def ViewCompanies_def
    by (simp add: g Let_def split: sum.split option.split prod.split)
qed

lemma erase_loaded: "loaded E c (snd (erase_invisible E xs c))"
proof (induction xs arbitrary: c)
  case (Cons x xs)
  obtain er c2 where v: "IsUserObjectVisible E (ulId x) c = (er, c2)" by (cases "IsUserObjectVisible E (ulId x) c")
  obtain ys c3 where e: "erase_invisible E xs c2 = (ys, c3)" by (cases "erase_invisible E xs c2")
  show ?case using visible_loaded [of E c "ulId x"] Cons.IH [of c2] v e loaded_trans by auto
qed (simp add: loaded_def)

lemma admin_frame:
  assumes "IsAdminOverUserObject E u c = (er, d)"
  shows "\<exists>d'. loaded E c d' \<and> (d = d' \<or> (\<exists>x. d = d'\<lparr>m_lpAdminCompanies := x\<rparr>))"
proof -
  have l: "loaded E c c" by (simp add: loaded_def)
  have "\<exists>d'. loaded E c d' \<and> (d2 = d' \<or> (\<exists>x. d2 = d'\<lparr>m_lpAdminCompanies := x\<rparr>))"
    if "(case GetAdminCompanies E USERMANAGEMENT_IDS_ONLY c of (Inl er, c) \<Rightarrow> (Inl er, c)
          | (Inr xs, c) \<Rightarrow> (Inr xs, c\<lparr>m_lpAdminCompanies := Some xs\<rparr>)) = (r, d2)" for r d2
  proof (cases "if adminlevel (m_details c) = ADMIN_LEVEL_SYSADMIN then GetCompanyObjectList E USERMANAGEMENT_IDS_ONLY
            else GetParentObjects E OBJECTRELATION_COMPANY_ADMIN (m_ulUserID c) USERMANAGEMENT_IDS_ONLY")
    case (Inl e)
    then show ?thesis using that l by (auto simp: GetAdminCompanies_def)
  next
    case (Inr xs)
    obtain ys c3 where e: "erase_invisible E xs c = (ys, c3)" by (cases "erase_invisible E xs c")
    then have "d2 = c3\<lparr>m_lpAdminCompanies := Some ys\<rparr>" using that Inr by (auto simp: GetAdminCompanies_def)
    then show ?thesis using erase_loaded [of E c xs] e by auto
  qed
  note A = this
  show ?thesis
  proof (cases "d = c")
    case True
    then show ?thesis using l by blast
  next
    case False
    then obtain r where "m_lpAdminCompanies c = None"
      "(case GetAdminCompanies E USERMANAGEMENT_IDS_ONLY c of (Inl er, c) \<Rightarrow> (Inl er, c)
          | (Inr xs, c) \<Rightarrow> (Inr xs, c\<lparr>m_lpAdminCompanies := Some xs\<rparr>)) = (r, d)"
      using assms unfolding IsAdminOverUserObject_def Let_def
      by (auto split: if_splits sum.splits option.splits prod.splits)
    then show ?thesis using A by blast
  qed
qed

lemma admin_principals:
  assumes "IsAdminOverOwnerOfObject E db obj c = (er, d)"
  shows "principals E d = principals E c \<and> m_ulUserID d = m_ulUserID c"
proof -
  obtain e ow where o: "GetStoreOwner db obj = (e, ow)" by (cases "GetStoreOwner db obj")
  show ?thesis
  proof (cases "e = erSuccess")
    case False
    then show ?thesis using assms o by (simp add: IsAdminOverOwnerOfObject_def)
  next
    case True
    then have "IsAdminOverUserObject E ow c = (er, d)" using assms o by (simp add: IsAdminOverOwnerOfObject_def)
    then obtain d' where d: "loaded E c d'" "d = d' \<or> (\<exists>x. d = d'\<lparr>m_lpAdminCompanies := x\<rparr>)"
      using admin_frame by blast
    then have "\<forall>a. visible E d a = visible E c a" using loaded_visible [OF d(1)] visible_admin by auto
    moreover have "m_ulUserID d = m_ulUserID c" "m_ulCompanyID d = m_ulCompanyID c" "m_lpGroups d = m_lpGroups c"
      using loaded_frame [OF d(1)] d(2) by auto
    ultimately show ?thesis using principals_cong by blast
  qed
qed

lemma mask_bits: "(r :: uint32) AND m \<noteq> 0 \<longleftrightarrow> (\<exists>i. bit r i \<and> bit m i)"
  using bit_imp_le_length [of r] by (fastforce simp: bit_eq_iff bit_simps)

definition granted :: "secenv \<Rightarrow> secdb \<Rightarrow> uint32 \<Rightarrow> uint32 \<Rightarrow> secctx \<Rightarrow> bool" where
  "granted E db obj m c \<longleftrightarrow>
     (\<exists>p. nearest db (principals E c) obj 65 p \<and> (\<exists>a \<in> grant_on db (principals E c) p. a_rights a AND m \<noteq> 0))"

lemma HaveObjectPermission_granted:
  "fst (HaveObjectPermission E db obj m c) = erSuccess \<longleftrightarrow> granted E db obj m c"
  "fst (HaveObjectPermission E db obj m c) \<in> {erSuccess, KCERR_NO_ACCESS}"
proof -
  have b: "bit (fst (GetObjectPermission E db obj c)) i \<longleftrightarrow>
     (\<exists>p. nearest db (principals E c) obj 65 p \<and> (\<exists>a \<in> grant_on db (principals E c) p. bit (a_rights a) i))" for i
    by (simp add: GetObjectPermission_def ObjectPermissionN_spec MAX_PARENT_LIMIT_def)
  have "fst (HaveObjectPermission E db obj m c) = erSuccess \<longleftrightarrow> fst (GetObjectPermission E db obj c) AND m \<noteq> 0"
    by (simp add: HaveObjectPermission_def split: prod.split)
  also have "\<dots> \<longleftrightarrow> granted E db obj m c"
    unfolding granted_def mask_bits b by blast
  finally show "fst (HaveObjectPermission E db obj m c) = erSuccess \<longleftrightarrow> granted E db obj m c" .
  show "fst (HaveObjectPermission E db obj m c) \<in> {erSuccess, KCERR_NO_ACCESS}"
    by (simp add: HaveObjectPermission_def split: prod.split)
qed

lemma granted_cong: "principals E d = principals E c \<Longrightarrow> granted E db obj m d = granted E db obj m c"
  by (simp add: granted_def)

text \<open>The right that a grant has to carry for each kind of access by somebody who owns nothing.\<close>

fun required_right :: "ecsecurity \<Rightarrow> uint32 option" where
  "required_right ecSecurityRead = Some ecRightsReadAny"
| "required_right ecSecurityCreate = Some ecRightsCreate"
| "required_right ecSecurityEdit = Some ecRightsEditAny"
| "required_right ecSecurityDelete = Some ecRightsDeleteAny"
| "required_right ecSecurityCreateFolder = Some ecRightsCreateSubfolder"
| "required_right ecSecurityFolderVisible = Some ecRightsFolderVisible"
| "required_right ecSecurityFolderAccess = Some ecRightsFolderAccess"
| "required_right _ = None"

text \<open>A user who is not the system, owns neither the store nor the object, and does not administer the owner.\<close>

definition ordinary :: "secenv \<Rightarrow> secdb \<Rightarrow> uint32 \<Rightarrow> secctx \<Rightarrow> bool" where
  "ordinary E db obj c \<longleftrightarrow> m_ulUserID c \<noteq> KOPANO_UID_SYSTEM \<and>
     GetStoreOwner db obj \<noteq> (erSuccess, m_ulUserID c) \<and> GetOwner db obj \<noteq> (erSuccess, m_ulUserID c) \<and>
     fst (IsAdminOverOwnerOfObject E db obj c) \<noteq> erSuccess"

lemma right_check_stranger:
  assumes "required_right r = Some m"
  shows "right_check r False t = CheckACL m" "m \<noteq> 0"
  using assms
  by (cases r; force simp: right_check_def ecRightsReadAny_def ecRightsCreate_def ecRightsEditAny_def ecRightsDeleteAny_def
      ecRightsCreateSubfolder_def ecRightsFolderVisible_def ecRightsFolderAccess_def)+

lemma access_decision_ordinary:
  assumes "ordinary E db obj c" "special_case db obj r = None"
  shows "access_decision E db obj r c =
    final_check E db obj r False (snd (snd (GetStoreOwnerAndType db obj))) (snd (IsAdminOverOwnerOfObject E db obj c))"
proof -
  obtain e so st where s: "GetStoreOwnerAndType db obj = (e, so, st)" by (metis surj_pair)
  obtain e2 ow where o: "GetOwner db obj = (e2, ow)" by (cases "GetOwner db obj")
  obtain e3 d where a: "IsAdminOverOwnerOfObject E db obj c = (e3, d)" by (cases "IsAdminOverOwnerOfObject E db obj c")
  have "\<not> (e = erSuccess \<and> so = m_ulUserID c)" "\<not> (e2 = erSuccess \<and> ow = m_ulUserID c)" "e3 \<noteq> erSuccess"
    "m_ulUserID c \<noteq> KOPANO_UID_SYSTEM"
    using assms(1) s o a by (auto simp: ordinary_def GetStoreOwner_def)
  then show ?thesis using assms(2) s o a unfolding access_decision_def by auto
qed

lemma CheckPermission_writes:
  "fst (CheckPermission E db obj r c) = erSuccess \<longleftrightarrow>
     fst (access_decision E db obj r c) = erSuccess \<and> (writes r \<longrightarrow> CheckDeletedParent db obj = erSuccess)"
  by (auto simp: CheckPermission_def split: prod.split)

text \<open>
  C6: Take a user who is not the system user, owns neither the store nor the object and does not administer
  the store's owner, and a request to read, create, edit, delete, create a folder, or see or open a folder
  (the requests for owners and administrators have no right that goes with them) that is not
  special: a request to read, see or open is not for a store or a folder right under it, and finds the object
  and its parent. The request is allowed exactly when the nearest of the object and 64
  levels above it with a grant for the user, the company or one of the groups has a grant with the right
  that goes with the request and, when the request creates an object or folder or edits, CheckDeletedParent
  accepts the object, which refuses deleted objects and parents, chains with an object that is not found, and the depth of 64.
\<close>

theorem ordinary_access_needs_grant:
  assumes "ordinary E db obj c" "special_case db obj r = None" "required_right r = Some m"
  shows "fst (CheckPermission E db obj r c) = erSuccess \<longleftrightarrow>
    granted E db obj m c \<and> (writes r \<longrightarrow> CheckDeletedParent db obj = erSuccess)"
proof -
  obtain e d where a: "IsAdminOverOwnerOfObject E db obj c = (e, d)" by (cases "IsAdminOverOwnerOfObject E db obj c")
  have "fst (access_decision E db obj r c) = erSuccess \<longleftrightarrow> granted E db obj m d"
    unfolding access_decision_ordinary [OF assms(1,2)] final_check_def right_check_stranger(1) [OF assms(3)]
    using right_check_stranger(2) [OF assms(3)] HaveObjectPermission_granted(1) [of E db obj m d] by (simp add: a)
  moreover have "granted E db obj m d = granted E db obj m c"
    by (rule granted_cong) (use admin_principals [OF a] in blast)
  ultimately show ?thesis by (simp add: CheckPermission_writes)
qed

text \<open>
  C7: In an archive store somebody who does not administer the owner and holds no grant on the
  object or above it, be it the owner of the store or of the object, is refused every change:
  creating, editing and deleting objects and creating folders.
\<close>

theorem archive_is_read_only:
  assumes "m_ulUserID c \<noteq> KOPANO_UID_SYSTEM" "snd (snd (GetStoreOwnerAndType db obj)) = ECSTORE_TYPE_ARCHIVE"
    "fst (IsAdminOverOwnerOfObject E db obj c) \<noteq> erSuccess"
    "\<forall>n \<le> 64. \<forall>p. ancestor db obj n = Some p \<longrightarrow> grant_on db (principals E c) p = {}"
    "r \<in> {ecSecurityCreate, ecSecurityEdit, ecSecurityDelete, ecSecurityCreateFolder}"
  shows "fst (CheckPermission E db obj r c) = KCERR_NO_ACCESS"
proof -
  obtain e so where s: "GetStoreOwnerAndType db obj = (e, so, ECSTORE_TYPE_ARCHIVE)"
    using assms(2) by (metis prod.collapse)
  obtain e2 ow where o: "GetOwner db obj = (e2, ow)" by (cases "GetOwner db obj")
  obtain e3 d where a: "IsAdminOverOwnerOfObject E db obj c = (e3, d)" by (cases "IsAdminOverOwnerOfObject E db obj c")
  let ?b = "e2 = erSuccess \<and> ow = m_ulUserID c \<and> m_bOwnerAutoFullAccess c"
  have nv: "\<not> visible_or_read r" using assms(5) by (auto simp: visible_or_read_def)
  have p: "principals E d = principals E c" using admin_principals [OF a] by blast
  have "\<not> granted E db obj m d" for m
  proof
    assume "granted E db obj m d"
    then obtain q k where "k < 65" "ancestor db obj k = Some q" "grant_on db (principals E c) q \<noteq> {}"
      unfolding granted_def nearest_def p by blast
    then show False using assms(4) [rule_format, of k q] by simp
  qed
  then have n: "fst (HaveObjectPermission E db obj m d) = KCERR_NO_ACCESS" for m
    using HaveObjectPermission_granted(1) [of E db obj m d] HaveObjectPermission_granted(2) [of E db obj m d] by blast
  have acl: "\<exists>m. right_check r ?b ECSTORE_TYPE_ARCHIVE = CheckACL m \<and> m \<noteq> 0"
    using assms(5) by (cases ?b) (auto simp: right_check_def ecRightsCreate_def ecRightsEditAny_def ecRightsEditOwned_def
        ecRightsDeleteAny_def ecRightsDeleteOwned_def ecRightsCreateSubfolder_def)
  have "access_decision E db obj r c = final_check E db obj r ?b ECSTORE_TYPE_ARCHIVE d"
  proof -
    have "special_case db obj r = None" "\<not> store_owner_may ECSTORE_TYPE_ARCHIVE r" "\<not> object_owner_may ECSTORE_TYPE_ARCHIVE r"
      using nv by (simp_all add: special_case_def store_owner_may_def object_owner_may_def)
    moreover have "e3 \<noteq> erSuccess" using assms(3) a by simp
    ultimately show ?thesis using assms(1) s o a unfolding access_decision_def by simp
  qed
  then have "fst (access_decision E db obj r c) = KCERR_NO_ACCESS"
    using acl n by (auto simp: final_check_def)
  then show ?thesis by (auto simp: CheckPermission_def split: prod.split)
qed

text \<open>
  The administrator check that CheckPermission makes for the code ecSecurityAdmin never
  refuses anybody: every user is granted it on every object.
\<close>

lemma admin_right_never_refused: "fst (CheckPermission E db obj ecSecurityAdmin c) = erSuccess"
proof -
  have "fst (access_decision E db obj ecSecurityAdmin c) = erSuccess"
    by (auto simp: access_decision_def special_case_def visible_or_read_def final_check_def right_check_def Let_def split: prod.split)
  then show ?thesis by (simp add: CheckPermission_writes writes_def)
qed

section \<open>Deleted parents\<close>

text \<open>
  The objects from obj up to its store: obj first, the store last, no store before it, none
  deleted, each the parent of the one before.
\<close>

fun path_to_store :: "secdb \<Rightarrow> uint32 list \<Rightarrow> bool" where
  "path_to_store db [] = False"
| "path_to_store db (x # xs) =
     (case GetObject db x of Inl _ \<Rightarrow> False
      | Inr (p, _, fl, ty) \<Rightarrow> fl AND MSGFLAG_DELETED = 0 \<and>
          (if xs = [] then ty = MAPI_STORE
           else ty \<noteq> MAPI_STORE \<and> p \<noteq> CACHE_NO_PARENT \<and> p = hd xs \<and> path_to_store db xs))"

lemma DeletedParentN_path:
  assumes "path_to_store db xs" "dp + n = Suc MAX_PARENT_LIMIT" "0 < n"
  shows "DeletedParentN n dp db (hd xs) = Inr (dp + min n (length xs))"
  using assms
proof (induction db xs arbitrary: n dp rule: path_to_store.induct)
  case (2 db x xs)
  obtain p ow fl ty where g: "GetObject db x = Inr (p, ow, fl, ty)"
    using 2(2) by (auto split: sum.splits)
  obtain m where n: "n = Suc m" using 2(4) by (cases n) auto
  have fl: "fl AND MSGFLAG_DELETED = 0" using 2(2) g by simp
  show ?case
  proof (cases "xs = []")
    case True
    then show ?thesis using 2(2) g n by simp
  next
    case False
    then have p: "ty \<noteq> MAPI_STORE" "p \<noteq> CACHE_NO_PARENT" "p = hd xs" "path_to_store db xs" using 2(2) g by auto
    show ?thesis
    proof (cases m)
      case 0
      then have "\<not> Suc dp \<le> MAX_PARENT_LIMIT" using 2(3) n by simp
      then show ?thesis using g n fl 0 by simp
    next
      case (Suc k)
      then have "Suc dp \<le> MAX_PARENT_LIMIT" using 2(3) n by simp
      moreover have "DeletedParentN m (Suc dp) db (hd xs) = Inr (Suc dp + min m (length xs))"
        by (rule 2(1) [OF g refl refl refl False]) (use 2(3) n Suc p in auto)
      ultimately show ?thesis using g n fl p by simp
    qed
  qed
qed simp

text \<open>
  An object whose path to the store, itself and the store included, has n objects of which none
  is deleted is refused by CheckDeletedParent exactly when n is 64; deeper objects pass again.
\<close>

lemma depth_limit_is_exact:
  assumes "path_to_store db xs"
  shows "CheckDeletedParent db (hd xs) = (if length xs = 64 then KCERR_NOT_FOUND else erSuccess)"
proof -
  have "DeletedParentN (MAX_PARENT_LIMIT + 1) 0 db (hd xs) = Inr (min 65 (length xs))"
    using DeletedParentN_path [OF assms, of 0 "MAX_PARENT_LIMIT + 1"] by (simp add: MAX_PARENT_LIMIT_def)
  then show ?thesis by (simp add: CheckDeletedParent_def MAX_PARENT_LIMIT_def min_def)
qed

section \<open>Writing rights\<close>

text \<open>The acl table as a map from its key (object, user, type) to the rights.\<close>

definition acl_map :: "secdb \<Rightarrow> (uint32 \<times> uint32 \<times> uint32) \<rightharpoonup> uint32" where
  "acl_map db = map_of (map (\<lambda>a. (acl_key a, a_rights a)) (acl db))"

definition keyed :: "secdb \<Rightarrow> bool" where
  "keyed db \<longleftrightarrow> distinct (map acl_key (acl db))"

lemma map_of_filter_key:
  "map_of (map (\<lambda>a. (f a, g a)) (filter (\<lambda>b. f b \<noteq> k) xs)) = (map_of (map (\<lambda>a. (f a, g a)) xs))(k := None)"
  by (induction xs) (auto simp: fun_eq_iff)

lemma distinct_map_filter_key: "distinct (map f xs) \<Longrightarrow> distinct (map f (filter P xs))"
  by (induction xs) auto

lemma acl_replace_map [kc_op]: "acl_map (acl_replace a db) = (acl_map db)(acl_key a \<mapsto> a_rights a)"
  by (auto simp: acl_map_def acl_replace_def map_of_filter_key map_add_def fun_eq_iff split: option.split)

lemma acl_delete_map [kc_op]: "acl_map (acl_delete obj u t db) = (acl_map db)((obj, u, t) := None)"
  by (simp add: acl_map_def acl_delete_def map_of_filter_key)

lemma acl_replace_keyed [kc_inv]: "keyed db \<Longrightarrow> keyed (acl_replace a db)"
  by (auto simp: keyed_def acl_replace_def distinct_map_filter_key)

lemma acl_delete_keyed [kc_inv]: "keyed db \<Longrightarrow> keyed (acl_delete obj u t db)"
  by (simp add: keyed_def acl_delete_def distinct_map_filter_key)

lemma write_right_keyed [kc_inv]: "keyed db \<Longrightarrow> keyed (write_right obj u r db)"
  by (simp add: write_right_def Let_def acl_replace_keyed acl_delete_keyed)

text \<open>What one entry asks of the table, as an operation on the map.\<close>

definition spec_write :: "uint32 \<Rightarrow> uint32 \<Rightarrow> rights \<Rightarrow>
    ((uint32 \<times> uint32 \<times> uint32) \<rightharpoonup> uint32) \<Rightarrow> (uint32 \<times> uint32 \<times> uint32) \<rightharpoonup> uint32" where
  "spec_write obj u r m = (\<lambda>k.
     if ulState r AND (RIGHT_NEW OR RIGHT_MODIFY) \<noteq> 0 then
       (if k = (obj, u, ACCESS_TYPE_DENIED) \<and> ulState r AND RIGHT_AUTOUPDATE_DENIED \<noteq> 0 then Some (denied_rights (ulRights r))
        else if k = (obj, u, ulType r) then Some (ulRights r) else m k)
     else if ulState r AND RIGHT_DELETED \<noteq> 0 then
       (if k = (obj, u, ulType r) \<or> (k = (obj, u, ACCESS_TYPE_DENIED) \<and> ulState r AND RIGHT_AUTOUPDATE_DENIED \<noteq> 0) then None else m k)
     else m k)"

lemma new_or_modify: "s AND (RIGHT_NEW OR RIGHT_MODIFY) \<noteq> 0 \<longleftrightarrow> s AND RIGHT_NEW \<noteq> 0 \<or> s AND RIGHT_MODIFY \<noteq> 0"
  for s :: uint32
  by (simp add: bit.conj_disj_distrib) (metis or_eq_0_iff)

lemma write_right_map: "acl_map (write_right obj u r db) = spec_write obj u r (acl_map db)"
  unfolding write_right_def spec_write_def new_or_modify
  by (auto simp: fun_eq_iff Let_def kc_op acl_key_def RIGHT_NORMAL_def)

text \<open>The user an entry is for: None when the entry ends the loop; and whether the entry may be written.\<close>

definition entry_user :: "secenv \<Rightarrow> rights \<Rightarrow> (uint32 \<times> objectdetails) option" where
  "entry_user E r = (case resolve_user E r of Inl _ \<Rightarrow> None
     | Inr u \<Rightarrow> (case GetObjectDetails E u of Inl _ \<Rightarrow> None | Inr d \<Rightarrow> Some (u, d)))"

definition refused :: "rights \<Rightarrow> objectdetails \<Rightarrow> bool" where
  "refused r d \<longleftrightarrow> ulState r AND NOT (RIGHT_DELETED OR RIGHT_AUTOUPDATE_DENIED) \<noteq> 0 \<and>
     m_objclass d \<notin> {ACTIVE_USER, DISTLIST_SECURITY, CONTAINER_COMPANY}"

definition spec_entry :: "secenv \<Rightarrow> uint32 \<Rightarrow> rights \<Rightarrow>
    ((uint32 \<times> uint32 \<times> uint32) \<rightharpoonup> uint32) \<Rightarrow> (uint32 \<times> uint32 \<times> uint32) \<rightharpoonup> uint32" where
  "spec_entry E obj r m = (case entry_user E r of None \<Rightarrow> m
     | Some (u, d) \<Rightarrow> if refused r d then m else spec_write obj u r m)"

lemma SetRightsLoop_step:
  "SetRightsLoop E obj (r # rs) n db =
     (case entry_user E r of
        None \<Rightarrow> (case resolve_user E r of Inl er \<Rightarrow> er | Inr u \<Rightarrow> (case GetObjectDetails E u of Inl er \<Rightarrow> er | Inr _ \<Rightarrow> erSuccess), n, db)
      | Some (u, d) \<Rightarrow> if refused r d then SetRightsLoop E obj rs (Suc n) db
                      else SetRightsLoop E obj rs n (write_right obj u r db))"
  by (auto simp: entry_user_def refused_def split: sum.split)

declare SetRightsLoop.simps(2) [simp del]

lemma SetRightsLoop_refines:
  assumes "SetRightsLoop E obj rs n db = (er, n', db')" "keyed db"
  shows "keyed db' \<and> acl_map db' = fold (spec_entry E obj) (takeWhile (\<lambda>r. entry_user E r \<noteq> None) rs) (acl_map db)"
  using assms
proof (induction rs arbitrary: n db)
  case (Cons r rs)
  show ?case
  proof (cases "entry_user E r")
    case None
    then show ?thesis using Cons.prems by (simp add: SetRightsLoop_step)
  next
    case (Some p)
    obtain u d where p: "p = (u, d)" by (cases p)
    show ?thesis
      using Cons.prems Cons.IH [of "Suc n" db] Cons.IH [of n "write_right obj u r db"] Some p
      by (auto simp: SetRightsLoop_step spec_entry_def write_right_map kc_inv split: if_splits)
  qed
qed simp

text \<open>
  C8: SetRights refines a fold over the entries up to the first one whose user cannot be resolved:
  each of them that is not refused updates the table as a map from (object, user, type) to rights
  (new and changed entries are put, deleted ones removed, the denied entry with them when asked),
  the table keeps one row per key, and no other object's entries change.
\<close>

theorem set_rights_refines_map:
  assumes "SetRights E obj (Some rs) db = (er, db')" "keyed db"
  shows "keyed db' \<and>
    acl_map db' = fold (spec_entry E obj) (takeWhile (\<lambda>r. entry_user E r \<noteq> None) rs) (acl_map db) \<and>
    (\<forall>k. fst k \<noteq> obj \<longrightarrow> acl_map db' k = acl_map db k)"
proof -
  obtain e n d where l: "SetRightsLoop E obj rs 0 db = (e, n, d)" by (metis surj_pair)
  then have "d = db'" using assms(1) by (auto simp: SetRights_def split: if_splits)
  then have *: "keyed db'" "acl_map db' = fold (spec_entry E obj) (takeWhile (\<lambda>r. entry_user E r \<noteq> None) rs) (acl_map db)"
    using SetRightsLoop_refines [OF l assms(2)] by auto
  have "spec_entry E obj r m k = m k" if "fst k \<noteq> obj" for r m k
    using that by (auto simp: spec_entry_def spec_write_def split: option.split)
  then have "fold (spec_entry E obj) xs m k = m k" if "fst k \<noteq> obj" for xs m k
    using that by (induction xs arbitrary: m) simp_all
  then show ?thesis using * by simp
qed

lemma acl_map_row:
  assumes "acl_map db (obj, u, t) = Some v"
  shows "\<exists>a \<in> set (acl db). a_hierarchy a = obj \<and> a_id a = u \<and> a_type a = t \<and> a_rights a = v"
  using map_of_SomeD [OF assms [unfolded acl_map_def]] by (auto simp: acl_key_def)

text \<open>
  A grant takes effect: after SetRights has stored one new or changed grant entry for a user,
  that user has the permission asked for on the object whenever the rights of the entry meet the mask.
\<close>

lemma grant_takes_effect:
  assumes "SetRights E obj (Some [r]) db = (erSuccess, db')" "keyed db"
    and "resolve_user E r = Inr (m_ulUserID c)" "GetObjectDetails E (m_ulUserID c) = Inr det" "ulType r = ACCESS_TYPE_GRANT"
    and "ulState r AND (RIGHT_NEW OR RIGHT_MODIFY) \<noteq> 0" "ulRights r AND m \<noteq> 0"
  shows "fst (HaveObjectPermission E db' obj m c) = erSuccess"
proof -
  obtain e n d where l: "SetRightsLoop E obj [r] 0 db = (e, n, d)" by (metis surj_pair)
  then have l': "SetRightsLoop E obj [r] 0 db = (erSuccess, 0, db')"
    using assms(1) by (auto simp: SetRights_def split: if_splits)
  have "entry_user E r = Some (m_ulUserID c, det)" using assms(3,4) by (simp add: entry_user_def)
  then have "db' = write_right obj (m_ulUserID c) r db"
    using l' by (auto simp: SetRightsLoop_step split: if_splits)
  then have "acl_map db' (obj, m_ulUserID c, ACCESS_TYPE_GRANT) = Some (ulRights r)"
    using assms(5,6) by (simp add: write_right_map spec_write_def ACCESS_TYPE_GRANT_def ACCESS_TYPE_DENIED_def)
  then obtain a where "a \<in> set (acl db')" "a_hierarchy a = obj" "a_id a = m_ulUserID c" "a_type a = ACCESS_TYPE_GRANT"
      "a_rights a = ulRights r" using acl_map_row by blast
  then have a: "a \<in> grant_on db' (principals E c) obj" "a_rights a AND m \<noteq> 0"
    using assms(7) by (auto simp: grant_on_def principals_def)
  then have "nearest db' (principals E c) obj 65 obj"
    using nearest_Suc [of db' "principals E c" obj 64 obj] by auto
  then show ?thesis unfolding HaveObjectPermission_granted granted_def using a by blast
qed

lemma one_bit_test: "(r :: uint32) AND 2 ^ k = 0 \<longleftrightarrow> \<not> bit r k"
proof -
  have "(r AND 2 ^ k \<noteq> 0) = (\<exists>i. bit r i \<and> bit (2 ^ k :: uint32) i)" by (rule mask_bits)
  also have "\<dots> \<longleftrightarrow> bit r k" using bit_imp_le_length [of r k] by (auto simp: bit_exp_iff)
  finally show ?thesis by blast
qed

lemma right_powers:
  "ecRightsEditOwned = 2 ^ 3" "ecRightsDeleteOwned = 2 ^ 4" "ecRightsEditAny = 2 ^ 5" "ecRightsDeleteAny = 2 ^ 6"
  by (simp_all add: ecRightsEditOwned_def ecRightsDeleteOwned_def ecRightsEditAny_def ecRightsDeleteAny_def)

lemma right_bits:
  "r AND ecRightsEditOwned = 0 \<longleftrightarrow> \<not> bit r 3" "r AND ecRightsDeleteOwned = 0 \<longleftrightarrow> \<not> bit r 4"
  "r AND ecRightsEditAny = 0 \<longleftrightarrow> \<not> bit r 5" "r AND ecRightsDeleteAny = 0 \<longleftrightarrow> \<not> bit r 6"
  "bit ecRightsEditOwned n \<longleftrightarrow> n = 3" "bit ecRightsDeleteOwned n \<longleftrightarrow> n = 4"
  "bit ecRightsEditAny n \<longleftrightarrow> n = 5" "bit ecRightsDeleteAny n \<longleftrightarrow> n = 6"
  unfolding right_powers one_bit_test by (auto simp only: bit_exp_iff possible_bit_word) simp_all

text \<open>
  The denied mask that SetRights stores with a grant shares no right with the grant, the bits
  outside ecRightsAllMask apart, which the grant and the denial then both carry.
\<close>

lemma denied_excludes_granted: "denied_rights r AND r = r AND NOT ecRightsAllMask"
proof (rule bit_word_eqI)
  fix n assume "n < LENGTH(32)"
  then have n: "n < 32" by simp
  have m: "bit ecRightsAllMask 3" "bit ecRightsAllMask 4" "bit ecRightsAllMask 5" "bit ecRightsAllMask 6"
    by (simp_all add: ecRightsAllMask_def)
  consider "n = 3" | "n = 4" | "n = 5" | "n = 6" | "n \<notin> {3, 4, 5, 6}" by blast
  then show "bit (denied_rights r AND r) n \<longleftrightarrow> bit (r AND NOT ecRightsAllMask) n"
    using m n by cases (auto simp: denied_rights_def Let_def bit_simps right_bits)
qed

section \<open>Quota\<close>

fun severity :: "quotastatus \<Rightarrow> nat" where
  "severity QUOTA_OK = 0"
| "severity QUOTA_WARN = 1"
| "severity QUOTA_SOFTLIMIT = 2"
| "severity QUOTA_HARDLIMIT = 3"

text \<open>A larger store never has a milder quota status.\<close>

lemma quota_monotone:
  assumes "a \<le>s b"
  shows "severity (quota_status q a) \<le> severity (quota_status q b)"
  using assms by (auto simp: quota_status_def word_sle_eq)

section \<open>Instances\<close>

text \<open>
  A single-company server with the users 5 and 10; user 10 is in group 20, which is in group 21, which
  is in group 20. Store 1 of user 5 has the root folder 2 with the folder 3, on which group 21 may read
  and create. Store 7 is an archive store of user 10 with the folders 8 and 9.
\<close>

definition demo_details :: "objectclass \<Rightarrow> objectdetails" where
  "demo_details cls = \<lparr>m_objclass = cls, adminlevel = 0, companyid = 0, login = ''user'', ab_hidden = False\<rparr>"

definition demo_env :: secenv where
  "demo_env = \<lparr>hosted = False,
     GetExternalId = (\<lambda>_. Inr (ACTIVE_USER, 0)),
     GetObjectDetails = (\<lambda>u. if u = 5 \<or> u = 10 then Inr (demo_details ACTIVE_USER) else Inl KCERR_NOT_FOUND),
     GetParentObjects = (\<lambda>r u _. if r \<noteq> OBJECTRELATION_GROUP_MEMBER then Inl KCERR_NOT_FOUND
       else if u = 10 \<or> u = 21 then Inr [\<lparr>ulId = 20, details = demo_details DISTLIST_SECURITY\<rparr>]
       else if u = 20 then Inr [\<lparr>ulId = 21, details = demo_details DISTLIST_SECURITY\<rparr>] else Inr []),
     GetCompanyObjectList = (\<lambda>_. Inl KCERR_NO_SUPPORT),
     GetQuotaDetails = (\<lambda>_ _. Inl KCERR_NOT_FOUND),
     DecodeUserEntryId = (\<lambda>_. Inl KCERR_INVALID_ENTRYID), EncodeUserEntryId = (\<lambda>_. Inr []),
     quota_warn = None, quota_soft = None, quota_hard = None, companyquota_warn = None\<rparr>"

definition demo_ctx :: secctx where
  "demo_ctx = (new_ECSecurity False True)\<lparr>m_ulUserID := 10, m_ulImpersonatorID := EC_NO_IMPERSONATOR,
     m_details := demo_details ACTIVE_USER\<rparr>"

definition demo_db :: secdb where
  "demo_db = \<lparr>hierarchy = [1 \<mapsto> \<lparr>h_parent = None, h_owner = 5, h_flags = 0, h_type = MAPI_STORE\<rparr>,
       2 \<mapsto> \<lparr>h_parent = Some 1, h_owner = 5, h_flags = 0, h_type = MAPI_FOLDER\<rparr>,
       3 \<mapsto> \<lparr>h_parent = Some 2, h_owner = 5, h_flags = 0, h_type = MAPI_FOLDER\<rparr>,
       7 \<mapsto> \<lparr>h_parent = None, h_owner = 10, h_flags = 0, h_type = MAPI_STORE\<rparr>,
       8 \<mapsto> \<lparr>h_parent = Some 7, h_owner = 10, h_flags = 0, h_type = MAPI_FOLDER\<rparr>,
       9 \<mapsto> \<lparr>h_parent = Some 8, h_owner = 10, h_flags = 0, h_type = MAPI_FOLDER\<rparr>],
     stores = [1 \<mapsto> ECSTORE_TYPE_PRIVATE, 7 \<mapsto> ECSTORE_TYPE_ARCHIVE],
     acl = [\<lparr>a_id = 21, a_hierarchy = 3, a_type = ACCESS_TYPE_GRANT, a_rights = ecRightsReadAny OR ecRightsCreate\<rparr>]\<rparr>"

theorem groups_are_transitive_membership_witness:
  "\<exists>gs c'. GetGroupsForUser demo_env 10 demo_ctx = (Inr gs, c') \<and> map ulId gs = [20, 21] \<and>
     ulId ` set gs = ulId ` {x. member_of demo_env demo_ctx 10 x}"
proof -
  let ?r = "GetGroupsForUser demo_env 10 demo_ctx"
  have "(case fst ?r of Inl _ \<Rightarrow> [] | Inr gs \<Rightarrow> map ulId gs) = [20, 21]" by code_simp
  then obtain gs c' where g: "?r = (Inr gs, c')" "map ulId gs = [20, 21]"
    by (cases ?r) (auto split: sum.splits)
  show ?thesis by (intro exI conjI) (rule g, rule g, rule groups_are_transitive_membership [OF g(1)])
qed

theorem ordinary_access_needs_grant_witness:
  "fst (CheckPermission demo_env demo_db 3 ecSecurityCreate demo_ctx) = erSuccess \<and>
   (fst (CheckPermission demo_env demo_db 3 ecSecurityCreate demo_ctx) = erSuccess \<longleftrightarrow>
     granted demo_env demo_db 3 ecRightsCreate demo_ctx \<and> (writes ecSecurityCreate \<longrightarrow> CheckDeletedParent demo_db 3 = erSuccess)) \<and>
   fst (CheckPermission demo_env demo_db 3 ecSecurityDelete demo_ctx) \<noteq> erSuccess"
proof (intro conjI)
  have "ordinary demo_env demo_db 3 demo_ctx" by code_simp
  moreover have "special_case demo_db 3 ecSecurityCreate = None" by code_simp
  ultimately show "fst (CheckPermission demo_env demo_db 3 ecSecurityCreate demo_ctx) = erSuccess \<longleftrightarrow>
     granted demo_env demo_db 3 ecRightsCreate demo_ctx \<and> (writes ecSecurityCreate \<longrightarrow> CheckDeletedParent demo_db 3 = erSuccess)"
    by (rule ordinary_access_needs_grant) simp
  show "fst (CheckPermission demo_env demo_db 3 ecSecurityCreate demo_ctx) = erSuccess" by code_simp
  show "fst (CheckPermission demo_env demo_db 3 ecSecurityDelete demo_ctx) \<noteq> erSuccess" by code_simp
qed

theorem archive_is_read_only_witness:
  "fst (CheckPermission demo_env demo_db 9 ecSecurityCreate demo_ctx) = KCERR_NO_ACCESS"
proof (rule archive_is_read_only)
  show "m_ulUserID demo_ctx \<noteq> KOPANO_UID_SYSTEM" by code_simp
  show "snd (snd (GetStoreOwnerAndType demo_db 9)) = ECSTORE_TYPE_ARCHIVE" by code_simp
  show "fst (IsAdminOverOwnerOfObject demo_env demo_db 9 demo_ctx) \<noteq> erSuccess" by code_simp
  have "GetParent demo_db 9 = Inr 8" "GetParent demo_db 8 = Inr 7" "GetParent demo_db 7 = Inl KCERR_NOT_FOUND" by code_simp+
  then have "p = 9 \<or> p = 8 \<or> p = 7" if "ancestor demo_db 9 n = Some p" for n p
    using that by (cases n rule: nat.exhaust; cases "n - 1" rule: nat.exhaust; cases "n - 2" rule: nat.exhaust; cases "n - 3" rule: nat.exhaust) auto
  moreover have "grant_on demo_db ids p = {}" if "p = 9 \<or> p = 8 \<or> p = 7" for ids p
    using that by (auto simp: grant_on_def demo_db_def)
  ultimately show "\<forall>n \<le> 64. \<forall>p. ancestor demo_db 9 n = Some p \<longrightarrow> grant_on demo_db (principals demo_env demo_ctx) p = {}"
    by blast
qed simp

definition chain_db :: secdb where
  "chain_db = \<lparr>hierarchy = (\<lambda>i. Some \<lparr>h_parent = (if i = 1 then None else Some (i - 1)), h_owner = 5, h_flags = 0,
       h_type = (if i = 1 then MAPI_STORE else MAPI_FOLDER)\<rparr>), stores = [1 \<mapsto> ECSTORE_TYPE_PRIVATE], acl = []\<rparr>"

definition demo_right :: rights where
  "demo_right = \<lparr>ulUserid = 10, ulType = ACCESS_TYPE_GRANT, ulRights = ecRightsDeleteAny,
     ulState = RIGHT_NEW OR RIGHT_AUTOUPDATE_DENIED, sUserId = []\<rparr>"

lemma demo_set_rights: "SetRights demo_env 3 (Some [demo_right]) demo_db = (erSuccess, snd (SetRights demo_env 3 (Some [demo_right]) demo_db))"
proof -
  have "fst (SetRights demo_env 3 (Some [demo_right]) demo_db) = erSuccess" by code_simp
  then show ?thesis by (metis prod.collapse)
qed

theorem set_rights_refines_map_witness:
  "let db' = snd (SetRights demo_env 3 (Some [demo_right]) demo_db) in
    length (acl db') = 3 \<and> keyed db' \<and>
    acl_map db' = fold (spec_entry demo_env 3) (takeWhile (\<lambda>r. entry_user demo_env r \<noteq> None) [demo_right]) (acl_map demo_db) \<and>
    (\<forall>k. fst k \<noteq> 3 \<longrightarrow> acl_map db' k = acl_map demo_db k)"
proof -
  have "length (acl (snd (SetRights demo_env 3 (Some [demo_right]) demo_db))) = 3" by code_simp
  moreover have "keyed demo_db" by code_simp
  ultimately show ?thesis using set_rights_refines_map [OF demo_set_rights] unfolding Let_def by blast
qed

end
