(* ===== verification/PropVal.thy ===== *)
theory PropVal
  imports KPrelude Complex_Main
begin

text \<open>
  Property values of the network protocol (provider/include/proto.h) and the functions of
  provider/common/SOAPUtils.cpp that look them up, check, compare and measure them, with
  memsubstr of common/stringutil.cpp.

  A property is a tag and a tagged union. Reading a member of the union other than the one
  that is set, following a null pointer and reading past a block are undefined: the value is
  None. PT_TSTRING is PT_STRING8 or PT_UNICODE depending on the build, a parameter (\<open>uc\<close>).
  String collation and matching (u8_*) rest on the ICU library and are parameters.
\<close>

section \<open>Property tags\<close>

definition MV_FLAG :: uint32 where "MV_FLAG = 0x1000"
definition MVI_FLAG :: uint32 where "MVI_FLAG = 0x3000"

definition PROP_TYPE :: "uint32 \<Rightarrow> uint32" where "PROP_TYPE tag = tag AND 0xFFFF"
definition PROP_ID :: "uint32 \<Rightarrow> uint32" where "PROP_ID tag = drop_bit 16 tag"
definition PROP_TAG :: "uint32 \<Rightarrow> uint32 \<Rightarrow> uint32" where "PROP_TAG ty pid = push_bit 16 pid OR ty"
definition CHANGE_PROP_TYPE :: "uint32 \<Rightarrow> uint32 \<Rightarrow> uint32" where
  "CHANGE_PROP_TYPE tag ty = (0xFFFF0000 AND tag) OR ty"

definition PT_UNSPECIFIED :: uint32 where "PT_UNSPECIFIED = 0x0000"
definition PT_I2 :: uint32 where "PT_I2 = 0x0002"
definition PT_LONG :: uint32 where "PT_LONG = 0x0003"
definition PT_R4 :: uint32 where "PT_R4 = 0x0004"
definition PT_DOUBLE :: uint32 where "PT_DOUBLE = 0x0005"
definition PT_CURRENCY :: uint32 where "PT_CURRENCY = 0x0006"
definition PT_APPTIME :: uint32 where "PT_APPTIME = 0x0007"
definition PT_ERROR :: uint32 where "PT_ERROR = 0x000A"
definition PT_BOOLEAN :: uint32 where "PT_BOOLEAN = 0x000B"
definition PT_I8 :: uint32 where "PT_I8 = 0x0014"
definition PT_STRING8 :: uint32 where "PT_STRING8 = 0x001E"
definition PT_UNICODE :: uint32 where "PT_UNICODE = 0x001F"
definition PT_SYSTIME :: uint32 where "PT_SYSTIME = 0x0040"
definition PT_CLSID :: uint32 where "PT_CLSID = 0x0048"
definition PT_SRESTRICTION :: uint32 where "PT_SRESTRICTION = 0x00FD"
definition PT_ACTIONS :: uint32 where "PT_ACTIONS = 0x00FE"
definition PT_BINARY :: uint32 where "PT_BINARY = 0x0102"
definition PT_MV_STRING8 :: uint32 where "PT_MV_STRING8 = 0x101E"
definition PT_MV_UNICODE :: uint32 where "PT_MV_UNICODE = 0x101F"

definition PT_TSTRING :: "bool \<Rightarrow> uint32" where "PT_TSTRING uc = (if uc then PT_UNICODE else PT_STRING8)"
definition PT_MV_TSTRING :: "bool \<Rightarrow> uint32" where "PT_MV_TSTRING uc = MV_FLAG OR PT_TSTRING uc"

text \<open>The types the switch statements distinguish; MV says that the type is multi-valued.\<close>

datatype ptype =
    T_I2 | T_LONG | T_R4 | T_DOUBLE | T_CURRENCY | T_APPTIME | T_BOOLEAN | T_I8 | T_STRING8
  | T_UNICODE | T_SYSTIME | T_CLSID | T_BINARY | T_ERROR | T_SRESTRICTION | T_ACTIONS | T_OTHER
  | MV ptype

definition base_type :: "uint32 \<Rightarrow> ptype" where
  "base_type ty =
     (if ty = PT_I2 then T_I2 else if ty = PT_LONG then T_LONG else if ty = PT_R4 then T_R4
      else if ty = PT_DOUBLE then T_DOUBLE else if ty = PT_CURRENCY then T_CURRENCY
      else if ty = PT_APPTIME then T_APPTIME else if ty = PT_BOOLEAN then T_BOOLEAN
      else if ty = PT_I8 then T_I8 else if ty = PT_STRING8 then T_STRING8
      else if ty = PT_UNICODE then T_UNICODE else if ty = PT_SYSTIME then T_SYSTIME
      else if ty = PT_CLSID then T_CLSID else if ty = PT_BINARY then T_BINARY
      else if ty = PT_ERROR then T_ERROR else if ty = PT_SRESTRICTION then T_SRESTRICTION
      else if ty = PT_ACTIONS then T_ACTIONS else T_OTHER)"

definition ptype :: "uint32 \<Rightarrow> ptype" where
  "ptype tag = (let ty = PROP_TYPE tag in
     if ty AND MV_FLAG \<noteq> 0 then MV (base_type (ty AND NOT MV_FLAG)) else base_type ty)"

definition PR_ENTRYID :: uint32 where "PR_ENTRYID = 0x0FFF0102"
definition PR_ADDRESS_BOOK_ENTRYID :: uint32 where "PR_ADDRESS_BOOK_ENTRYID = 0x663B0102"
definition PR_ANR_ID :: uint32 where "PR_ANR_ID = 0x360C"

definition NormalizePropTag :: "bool \<Rightarrow> uint32 \<Rightarrow> uint32" where
  "NormalizePropTag uc tag =
     (if (PROP_TYPE tag = PT_STRING8 \<or> PROP_TYPE tag = PT_UNICODE) \<and> PROP_TYPE tag \<noteq> PT_TSTRING uc
      then CHANGE_PROP_TYPE tag (PT_TSTRING uc)
      else if (PROP_TYPE tag = PT_MV_STRING8 \<or> PROP_TYPE tag = PT_MV_UNICODE) \<and> PROP_TYPE tag \<noteq> PT_MV_TSTRING uc
      then CHANGE_PROP_TYPE tag (PT_MV_TSTRING uc)
      else tag)"

section \<open>Values\<close>

text \<open>
  Floating point numbers as far as comparisons see them. A binary value has a pointer (None when
  null) to a block, and a size. A character pointer is null (None) or a string without its NUL.
\<close>

datatype fp = FP_nan | FP_minus_inf | FP rat | FP_inf

fun fp_eq :: "fp \<Rightarrow> fp \<Rightarrow> bool" where
  "fp_eq FP_nan _ = False"
| "fp_eq _ FP_nan = False"
| "fp_eq a b = (a = b)"

fun fp_less :: "fp \<Rightarrow> fp \<Rightarrow> bool" where
  "fp_less FP_minus_inf (FP _) = True"
| "fp_less FP_minus_inf FP_inf = True"
| "fp_less (FP a) (FP b) = (a < b)"
| "fp_less (FP _) FP_inf = True"
| "fp_less _ _ = False"

record bin =
  bin_ptr :: "bytes option"
  bin_size :: nat

record hilo =
  hilo_hi :: "32 word"
  hilo_lo :: uint32

datatype propdata =
    V_i "16 word" | V_ul uint32 | V_flt fp | V_dbl fp | V_b bool | V_lpszA "bytes option"
  | V_hilo "hilo option" | V_bin "bin option" | V_li "64 word"
  | V_mvi "16 word list" | V_mvl "uint32 list" | V_mvflt "fp list" | V_mvdbl "fp list"
  | V_mvszA "bytes option list" | V_mvhilo "hilo list" | V_mvbin "bin list" | V_mvli "64 word list"
  | V_res | V_actions

record propval =
  ulPropTag :: uint32
  Value :: propdata

text \<open>Reading a union member.\<close>

fun get_i where "get_i (V_i x) = Some x" | "get_i _ = None"
fun get_ul where "get_ul (V_ul x) = Some x" | "get_ul _ = None"
fun get_flt where "get_flt (V_flt x) = Some x" | "get_flt _ = None"
fun get_dbl where "get_dbl (V_dbl x) = Some x" | "get_dbl _ = None"
fun get_b where "get_b (V_b x) = Some x" | "get_b _ = None"
fun get_lpszA where "get_lpszA (V_lpszA x) = Some x" | "get_lpszA _ = None"
fun get_hilo where "get_hilo (V_hilo x) = x" | "get_hilo _ = None"
fun get_bin where "get_bin (V_bin x) = x" | "get_bin _ = None"
fun get_li where "get_li (V_li x) = Some x" | "get_li _ = None"
fun get_mvi where "get_mvi (V_mvi x) = Some x" | "get_mvi _ = None"
fun get_mvl where "get_mvl (V_mvl x) = Some x" | "get_mvl _ = None"
fun get_mvflt where "get_mvflt (V_mvflt x) = Some x" | "get_mvflt _ = None"
fun get_mvdbl where "get_mvdbl (V_mvdbl x) = Some x" | "get_mvdbl _ = None"
fun get_mvszA where "get_mvszA (V_mvszA x) = Some x" | "get_mvszA _ = None"
fun get_mvhilo where "get_mvhilo (V_mvhilo x) = Some x" | "get_mvhilo _ = None"
fun get_mvbin where "get_mvbin (V_mvbin x) = Some x" | "get_mvbin _ = None"
fun get_mvli where "get_mvli (V_mvli x) = Some x" | "get_mvli _ = None"

text \<open>The first n bytes of the block of a binary value.\<close>

definition bin_read :: "bin \<Rightarrow> nat \<Rightarrow> bytes option" where
  "bin_read b n = (if n = 0 then Some []
     else (case bin_ptr b of None \<Rightarrow> None | Some bs \<Rightarrow> if n \<le> length bs then Some (take n bs) else None))"

section \<open>Lookup and checks\<close>

type_synonym row = "propval list"

definition tag_matches :: "uint32 \<Rightarrow> propval \<Rightarrow> bool" where
  "tag_matches tag p \<longleftrightarrow> ulPropTag p = tag \<or> (PROP_TYPE tag = PT_UNSPECIFIED \<and> PROP_ID (ulPropTag p) = PROP_ID tag)"

text \<open>FindProp returns a pointer into the row: its index.\<close>

fun FindProp :: "row \<Rightarrow> uint32 \<Rightarrow> nat option" where
  "FindProp [] tag = None"
| "FindProp (p # ps) tag = (if tag_matches tag p then Some 0 else map_option Suc (FindProp ps tag))"

text \<open>The union member a type goes with; types without one always pass.\<close>

fun union_ok :: "ptype \<Rightarrow> propdata \<Rightarrow> bool" where
  "union_ok T_I2 v = (get_i v \<noteq> None)"
| "union_ok T_LONG v = (get_ul v \<noteq> None)"
| "union_ok T_R4 v = (get_flt v \<noteq> None)"
| "union_ok T_BOOLEAN v = (get_b v \<noteq> None)"
| "union_ok T_DOUBLE v = (get_dbl v \<noteq> None)"
| "union_ok T_APPTIME v = (get_dbl v \<noteq> None)"
| "union_ok T_I8 v = (get_li v \<noteq> None)"
| "union_ok T_SYSTIME v = (case v of V_hilo _ \<Rightarrow> True | _ \<Rightarrow> False)"
| "union_ok T_CURRENCY v = (case v of V_hilo _ \<Rightarrow> True | _ \<Rightarrow> False)"
| "union_ok T_UNICODE v = (get_lpszA v \<noteq> None)"
| "union_ok T_STRING8 v = (get_lpszA v \<noteq> None)"
| "union_ok T_BINARY v = (case v of V_bin _ \<Rightarrow> True | _ \<Rightarrow> False)"
| "union_ok T_CLSID v = (case v of V_bin _ \<Rightarrow> True | _ \<Rightarrow> False)"
| "union_ok T_ACTIONS v = (v = V_actions)"
| "union_ok T_SRESTRICTION v = (v = V_res)"
| "union_ok (MV T_DOUBLE) v = (get_mvdbl v \<noteq> None)"
| "union_ok (MV T_APPTIME) v = (get_mvdbl v \<noteq> None)"
| "union_ok (MV T_CLSID) v = (get_mvbin v \<noteq> None)"
| "union_ok (MV T_BINARY) v = (get_mvbin v \<noteq> None)"
| "union_ok (MV T_SYSTIME) v = (get_mvhilo v \<noteq> None)"
| "union_ok (MV T_CURRENCY) v = (get_mvhilo v \<noteq> None)"
| "union_ok (MV T_R4) v = (get_mvflt v \<noteq> None)"
| "union_ok (MV T_I2) v = (get_mvi v \<noteq> None)"
| "union_ok (MV T_I8) v = (get_mvli v \<noteq> None)"
| "union_ok (MV T_LONG) v = (get_mvl v \<noteq> None)"
| "union_ok (MV T_UNICODE) v = (get_mvszA v \<noteq> None)"
| "union_ok (MV T_STRING8) v = (get_mvszA v \<noteq> None)"
| "union_ok _ v = True"

definition PropCheck :: "propval \<Rightarrow> ecresult option" where
  "PropCheck p =
     (let t = ptype (ulPropTag p) in
      if \<not> union_ok t (Value p) then Some KCERR_INVALID_PARAMETER
      else if t = T_STRING8 then
        Some (if get_lpszA (Value p) = Some None then KCERR_INVALID_PARAMETER else erSuccess)
      else if t = T_BINARY \<or> t = T_CLSID then
        (case get_bin (Value p) of
           None \<Rightarrow> None
         | Some b \<Rightarrow> Some (if bin_size b > 0 \<and> (bin_ptr b = None \<or> (t = T_CLSID \<and> bin_size b mod 16 \<noteq> 0))
                           then KCERR_INVALID_PARAMETER else erSuccess))
      else Some erSuccess)"

section \<open>Comparing two values\<close>

definition twcmp :: "'a::linorder \<Rightarrow> 'a \<Rightarrow> int" where
  "twcmp a b = (if a < b then - 1 else if a = b then 0 else 1)"

definition fp_twcmp :: "fp \<Rightarrow> fp \<Rightarrow> int" where
  "fp_twcmp a b = (if fp_less a b then - 1 else if fp_eq a b then 0 else 1)"

text \<open>memcmp and strcmp, as far as their sign is specified.\<close>

fun bytecmp :: "bytes \<Rightarrow> bytes \<Rightarrow> int" where
  "bytecmp [] [] = 0"
| "bytecmp [] (b # bs) = - 1"
| "bytecmp (a # as) [] = 1"
| "bytecmp (a # as) (b # bs) = (if a < b then - 1 else if b < a then 1 else bytecmp as bs)"

record u8ops =
  u8_equals :: "bytes \<Rightarrow> bytes \<Rightarrow> bool"
  u8_iequals :: "bytes \<Rightarrow> bytes \<Rightarrow> bool"
  u8_startswith :: "bytes \<Rightarrow> bytes \<Rightarrow> bool"
  u8_istartswith :: "bytes \<Rightarrow> bytes \<Rightarrow> bool"
  u8_contains :: "bytes \<Rightarrow> bytes \<Rightarrow> bool"
  u8_icontains :: "bytes \<Rightarrow> bytes \<Rightarrow> bool"
  u8_icompare :: "bytes \<Rightarrow> bytes \<Rightarrow> int"

definition cmp_hilo :: "hilo \<Rightarrow> hilo \<Rightarrow> int" where
  "cmp_hilo a b =
     (if hilo_hi a = hilo_hi b \<and> hilo_lo a < hilo_lo b then - 1
      else if hilo_hi a = hilo_hi b \<and> hilo_lo a > hilo_lo b then 1
      else twcmp (sint (hilo_hi a)) (sint (hilo_hi b)))"

definition cmp_bin :: "bin \<Rightarrow> bin \<Rightarrow> int option" where
  "cmp_bin a b =
     (if bin_ptr a \<noteq> None \<and> bin_ptr b \<noteq> None \<and> bin_size a \<noteq> 0 \<and> bin_size b \<noteq> 0 \<and> bin_size a = bin_size b
      then do { x \<leftarrow> bin_read a (bin_size a); y \<leftarrow> bin_read b (bin_size a); Some (bytecmp x y) }
      else Some (twcmp (bin_size a) (bin_size b)))"

definition cmp_str :: "u8ops \<Rightarrow> bytes option \<Rightarrow> bytes option \<Rightarrow> int" where
  "cmp_str U a b = (case (a, b) of
       (Some x, Some y) \<Rightarrow> u8_icompare U x y
     | (None, None) \<Rightarrow> 0
     | _ \<Rightarrow> 1)"

text \<open>The loops over two arrays of one length: the first difference counts.\<close>

fun mv_loop :: "('a \<Rightarrow> 'a \<Rightarrow> int option) \<Rightarrow> 'a list \<Rightarrow> 'a list \<Rightarrow> int option" where
  "mv_loop f (a # as) (b # bs) = (case f a b of None \<Rightarrow> None | Some r \<Rightarrow> if r \<noteq> 0 then Some r else mv_loop f as bs)"
| "mv_loop f _ _ = Some 0"

definition mv_cmp :: "('a \<Rightarrow> 'a \<Rightarrow> int option) \<Rightarrow> 'a list \<Rightarrow> 'a list \<Rightarrow> int option" where
  "mv_cmp f xs ys = (if length xs = length ys then mv_loop f xs ys else Some (twcmp (length xs) (length ys)))"

text \<open>The multi-valued times have their own treatment of different lengths.\<close>

definition mv_cmp_hilo :: "hilo list \<Rightarrow> hilo list \<Rightarrow> int option" where
  "mv_cmp_hilo xs ys = (if length xs = length ys then mv_loop (\<lambda>a b. Some (cmp_hilo a b)) xs ys
     else Some (if length xs = length ys then 1 else 0))"

text \<open>Address book entry ids: fields at fixed offsets in the block, numbers in little endian order.\<close>

definition MUIDECSAB :: bytes where
  "MUIDECSAB = [0xac, 0x21, 0xa9, 0x50, 0x40, 0xd3, 0xee, 0x48, 0xb3, 0x19, 0xfb, 0xa7, 0x53, 0x30, 0x44, 0x25]"

definition slice_at :: "bytes \<Rightarrow> nat \<Rightarrow> nat \<Rightarrow> bytes option" where
  "slice_at d off n = (if off + n \<le> length d then Some (take n (drop off d)) else None)"

definition le32_at :: "bytes \<Rightarrow> nat \<Rightarrow> uint32 option" where
  "le32_at d off = map_option (\<lambda>bs. foldr (\<lambda>b acc. acc * 256 + ucast b) bs 0) (slice_at d off 4)"

definition cstring_at :: "bytes \<Rightarrow> nat \<Rightarrow> bytes option" where
  "cstring_at d off = (if 0 \<in> set (drop off d) then Some (takeWhile (\<lambda>b. b \<noteq> 0) (drop off d)) else None)"

definition CompareABEID :: "propval \<Rightarrow> propval \<Rightarrow> (ecresult + int) option" where
  "CompareABEID p1 p2 = do {
     b1 \<leftarrow> get_bin (Value p1); b2 \<leftarrow> get_bin (Value p2);
     d1 \<leftarrow> bin_ptr b1; d2 \<leftarrow> bin_ptr b2;
     g1 \<leftarrow> slice_at d1 4 16;
     bad \<leftarrow> (if g1 \<noteq> MUIDECSAB then Some True else map_option (\<lambda>g2. g2 \<noteq> MUIDECSAB) (slice_at d2 4 16));
     if bad then Some (Inl KCERR_INVALID_PARAMETER) else do {
       v1 \<leftarrow> le32_at d1 20; v2 \<leftarrow> le32_at d2 20;
       r \<leftarrow> (if v1 = v2 then
               (if bin_size b1 \<noteq> bin_size b2 then Some (twcmp (bin_size b1) (bin_size b2))
                else if v1 = 0 then do { i1 \<leftarrow> le32_at d1 28; i2 \<leftarrow> le32_at d2 28; Some (twcmp i1 i2) }
                else do { s1 \<leftarrow> cstring_at d1 32; s2 \<leftarrow> cstring_at d2 32; Some (bytecmp s1 s2) })
             else do { i1 \<leftarrow> le32_at d1 28; i2 \<leftarrow> le32_at d2 28; Some (sint (i1 - i2)) });
       if r = 0 then do { t1 \<leftarrow> le32_at d1 24; t2 \<leftarrow> le32_at d2 24; Some (Inr (sint (t1 - t2))) }
       else Some (Inr r) } }"

text \<open>The regular comparison: a switch on the type of the first value.\<close>

definition compare_values :: "u8ops \<Rightarrow> ptype \<Rightarrow> bool \<Rightarrow> propdata \<Rightarrow> propdata \<Rightarrow> (ecresult + int) option" where
  "compare_values U t anr a b = (case t of
       T_I2 \<Rightarrow> do { x \<leftarrow> get_i a; y \<leftarrow> get_i b; Some (Inr (twcmp (sint x) (sint y))) }
     | T_LONG \<Rightarrow> do { x \<leftarrow> get_ul a; y \<leftarrow> get_ul b; Some (Inr (twcmp x y)) }
     | T_R4 \<Rightarrow> do { x \<leftarrow> get_flt a; y \<leftarrow> get_flt b; Some (Inr (fp_twcmp x y)) }
     | T_BOOLEAN \<Rightarrow> do { x \<leftarrow> get_b a; y \<leftarrow> get_b b; Some (Inr (twcmp x y)) }
     | T_DOUBLE \<Rightarrow> do { x \<leftarrow> get_dbl a; y \<leftarrow> get_dbl b; Some (Inr (fp_twcmp x y)) }
     | T_APPTIME \<Rightarrow> do { x \<leftarrow> get_dbl a; y \<leftarrow> get_dbl b; Some (Inr (fp_twcmp x y)) }
     | T_I8 \<Rightarrow> do { x \<leftarrow> get_li a; y \<leftarrow> get_li b; Some (Inr (twcmp (sint x) (sint y))) }
     | T_UNICODE \<Rightarrow> do { x \<leftarrow> get_lpszA a; y \<leftarrow> get_lpszA b;
         Some (Inr (case (x, y) of (Some s, Some t) \<Rightarrow> if anr then (if u8_istartswith U s t then 1 else 0) else u8_icompare U s t
                     | _ \<Rightarrow> cmp_str U x y)) }
     | T_STRING8 \<Rightarrow> do { x \<leftarrow> get_lpszA a; y \<leftarrow> get_lpszA b;
         Some (Inr (case (x, y) of (Some s, Some t) \<Rightarrow> if anr then (if u8_istartswith U s t then 1 else 0) else u8_icompare U s t
                     | _ \<Rightarrow> cmp_str U x y)) }
     | T_SYSTIME \<Rightarrow> do { x \<leftarrow> get_hilo a; y \<leftarrow> get_hilo b; Some (Inr (cmp_hilo x y)) }
     | T_CURRENCY \<Rightarrow> do { x \<leftarrow> get_hilo a; y \<leftarrow> get_hilo b; Some (Inr (cmp_hilo x y)) }
     | T_BINARY \<Rightarrow> do { x \<leftarrow> get_bin a; y \<leftarrow> get_bin b; map_option Inr (cmp_bin x y) }
     | T_CLSID \<Rightarrow> do { x \<leftarrow> get_bin a; y \<leftarrow> get_bin b; map_option Inr (cmp_bin x y) }
     | MV T_I2 \<Rightarrow> do { x \<leftarrow> get_mvi a; y \<leftarrow> get_mvi b; map_option Inr (mv_cmp (\<lambda>u v. Some (twcmp (sint u) (sint v))) x y) }
     | MV T_LONG \<Rightarrow> do { x \<leftarrow> get_mvl a; y \<leftarrow> get_mvl b; map_option Inr (mv_cmp (\<lambda>u v. Some (twcmp u v)) x y) }
     | MV T_R4 \<Rightarrow> do { x \<leftarrow> get_mvflt a; y \<leftarrow> get_mvflt b; map_option Inr (mv_cmp (\<lambda>u v. Some (fp_twcmp u v)) x y) }
     | MV T_DOUBLE \<Rightarrow> do { x \<leftarrow> get_mvdbl a; y \<leftarrow> get_mvdbl b; map_option Inr (mv_cmp (\<lambda>u v. Some (fp_twcmp u v)) x y) }
     | MV T_APPTIME \<Rightarrow> do { x \<leftarrow> get_mvdbl a; y \<leftarrow> get_mvdbl b; map_option Inr (mv_cmp (\<lambda>u v. Some (fp_twcmp u v)) x y) }
     | MV T_I8 \<Rightarrow> do { x \<leftarrow> get_mvli a; y \<leftarrow> get_mvli b; map_option Inr (mv_cmp (\<lambda>u v. Some (twcmp (sint u) (sint v))) x y) }
     | MV T_SYSTIME \<Rightarrow> do { x \<leftarrow> get_mvhilo a; y \<leftarrow> get_mvhilo b; map_option Inr (mv_cmp_hilo x y) }
     | MV T_CURRENCY \<Rightarrow> do { x \<leftarrow> get_mvhilo a; y \<leftarrow> get_mvhilo b; map_option Inr (mv_cmp_hilo x y) }
     | MV T_CLSID \<Rightarrow> do { x \<leftarrow> get_mvbin a; y \<leftarrow> get_mvbin b; map_option Inr (mv_cmp cmp_bin x y) }
     | MV T_BINARY \<Rightarrow> do { x \<leftarrow> get_mvbin a; y \<leftarrow> get_mvbin b; map_option Inr (mv_cmp cmp_bin x y) }
     | MV T_STRING8 \<Rightarrow> do { x \<leftarrow> get_mvszA a; y \<leftarrow> get_mvszA b; map_option Inr (mv_cmp (\<lambda>u v. Some (cmp_str U u v)) x y) }
     | MV T_UNICODE \<Rightarrow> do { x \<leftarrow> get_mvszA a; y \<leftarrow> get_mvszA b; map_option Inr (mv_cmp (\<lambda>u v. Some (cmp_str U u v)) x y) }
     | _ \<Rightarrow> Some (Inl KCERR_INVALID_PARAMETER))"

definition CompareProp :: "bool \<Rightarrow> u8ops \<Rightarrow> propval \<Rightarrow> propval \<Rightarrow> (ecresult + int) option" where
  "CompareProp uc U p1 p2 =
     (if PROP_TYPE (NormalizePropTag uc (ulPropTag p1)) \<noteq> PROP_TYPE (NormalizePropTag uc (ulPropTag p2))
      then Some (Inl KCERR_INVALID_PARAMETER)
      else do {
        c1 \<leftarrow> PropCheck p1;
        bad \<leftarrow> (if c1 \<noteq> erSuccess then Some True else map_option (\<lambda>c2. c2 \<noteq> erSuccess) (PropCheck p2));
        if bad then Some (Inl KCERR_INVALID_PARAMETER)
        else do {
          special \<leftarrow> (if (ulPropTag p1 = PR_ADDRESS_BOOK_ENTRYID \<and> PROP_TYPE (ulPropTag p2) = PT_BINARY) \<or>
                         (PROP_TYPE (ulPropTag p1) = PT_BINARY \<and> ulPropTag p2 = PR_ADDRESS_BOOK_ENTRYID)
                      then CompareABEID p1 p2 else Some (Inl KCERR_INVALID_PARAMETER));
          case special of
            Inr r \<Rightarrow> Some (Inr r)
          | Inl _ \<Rightarrow> compare_values U (ptype (ulPropTag p1)) (PROP_ID (ulPropTag p2) = PR_ANR_ID) (Value p1) (Value p2) } })"

section \<open>Comparing the elements of a multi-valued property with one value\<close>

datatype relop = RELOP_LT | RELOP_LE | RELOP_GT | RELOP_GE | RELOP_EQ | RELOP_NE | RELOP_RE | RELOP_OTHER uint32

fun match :: "relop \<Rightarrow> int \<Rightarrow> bool" where
  "match RELOP_GE c = (c \<ge> 0)"
| "match RELOP_GT c = (c > 0)"
| "match RELOP_LE c = (c \<le> 0)"
| "match RELOP_LT c = (c < 0)"
| "match RELOP_NE c = (c \<noteq> 0)"
| "match RELOP_RE c = False"
| "match RELOP_EQ c = (c = 0)"
| "match (RELOP_OTHER _) c = False"

text \<open>The union read as 32 bit numbers, as the class does for 64 bit ones: their halves, low half first.\<close>

definition as_mvl :: "propdata \<Rightarrow> uint32 list option" where
  "as_mvl v = (case v of V_mvl xs \<Rightarrow> Some xs
     | V_mvli xs \<Rightarrow> Some (concat (map (\<lambda>x. [ucast x, ucast (drop_bit 32 x)]) xs)) | _ \<Rightarrow> None)"

definition MVPropProxy_size :: "propval \<Rightarrow> nat option" where
  "MVPropProxy_size p = (case ptype (ulPropTag p) of
       MV T_I2 \<Rightarrow> map_option length (get_mvi (Value p))
     | MV T_LONG \<Rightarrow> map_option length (get_mvl (Value p))
     | MV T_R4 \<Rightarrow> map_option length (get_mvflt (Value p))
     | MV T_DOUBLE \<Rightarrow> map_option length (get_mvdbl (Value p))
     | MV T_APPTIME \<Rightarrow> map_option length (get_mvdbl (Value p))
     | MV T_I8 \<Rightarrow> map_option length (get_mvli (Value p))
     | MV T_SYSTIME \<Rightarrow> map_option length (get_mvhilo (Value p))
     | MV T_CURRENCY \<Rightarrow> map_option length (get_mvhilo (Value p))
     | MV T_CLSID \<Rightarrow> map_option length (get_mvbin (Value p))
     | MV T_BINARY \<Rightarrow> map_option length (get_mvbin (Value p))
     | MV T_STRING8 \<Rightarrow> map_option length (get_mvszA (Value p))
     | MV T_UNICODE \<Rightarrow> map_option length (get_mvszA (Value p))
     | _ \<Rightarrow> Some 0)"

definition MVPropProxy_compare :: "u8ops \<Rightarrow> propval \<Rightarrow> nat \<Rightarrow> propval \<Rightarrow> (ecresult + int) option" where
  "MVPropProxy_compare U m i p = do {
     n \<leftarrow> MVPropProxy_size m;
     if PROP_TYPE (ulPropTag m) AND MV_FLAG = 0 \<or> PROP_TYPE (ulPropTag m) AND NOT MV_FLAG \<noteq> PROP_TYPE (ulPropTag p) \<or> i \<ge> n
     then Some (Inl KCERR_INVALID_PARAMETER)
     else (case ptype (ulPropTag m) of
       MV T_I2 \<Rightarrow> do { xs \<leftarrow> get_mvi (Value m); x \<leftarrow> nth_opt xs i; y \<leftarrow> get_i (Value p); Some (Inr (twcmp (sint x) (sint y))) }
     | MV T_LONG \<Rightarrow> do { xs \<leftarrow> get_mvl (Value m); x \<leftarrow> nth_opt xs i; y \<leftarrow> get_ul (Value p); Some (Inr (twcmp x y)) }
     | MV T_R4 \<Rightarrow> do { xs \<leftarrow> get_mvflt (Value m); x \<leftarrow> nth_opt xs i; y \<leftarrow> get_flt (Value p); Some (Inr (fp_twcmp x y)) }
     | MV T_DOUBLE \<Rightarrow> do { xs \<leftarrow> get_mvdbl (Value m); x \<leftarrow> nth_opt xs i; y \<leftarrow> get_dbl (Value p); Some (Inr (fp_twcmp x y)) }
     | MV T_APPTIME \<Rightarrow> do { xs \<leftarrow> get_mvdbl (Value m); x \<leftarrow> nth_opt xs i; y \<leftarrow> get_dbl (Value p); Some (Inr (fp_twcmp x y)) }
     | MV T_I8 \<Rightarrow> do { xs \<leftarrow> as_mvl (Value m); x \<leftarrow> nth_opt xs i; y \<leftarrow> get_li (Value p); Some (Inr (twcmp (uint x) (sint y))) }
     | MV T_SYSTIME \<Rightarrow> do { xs \<leftarrow> get_mvhilo (Value m); x \<leftarrow> nth_opt xs i; y \<leftarrow> get_hilo (Value p);
         Some (Inr (if hilo_hi x = hilo_hi y then twcmp (hilo_lo x) (hilo_lo y) else twcmp (sint (hilo_hi x)) (sint (hilo_hi y)))) }
     | MV T_CURRENCY \<Rightarrow> do { xs \<leftarrow> get_mvhilo (Value m); x \<leftarrow> nth_opt xs i; y \<leftarrow> get_hilo (Value p);
         Some (Inr (if hilo_hi x = hilo_hi y then twcmp (hilo_lo x) (hilo_lo y) else twcmp (sint (hilo_hi x)) (sint (hilo_hi y)))) }
     | MV T_CLSID \<Rightarrow> do { xs \<leftarrow> get_mvbin (Value m); x \<leftarrow> nth_opt xs i; y \<leftarrow> get_bin (Value p);
         if bin_size x = bin_size y then do { a \<leftarrow> bin_read x (bin_size y); b \<leftarrow> bin_read y (bin_size y); Some (Inr (bytecmp a b)) }
         else Some (Inr (twcmp (bin_size x) (bin_size y))) }
     | MV T_BINARY \<Rightarrow> do { xs \<leftarrow> get_mvbin (Value m); x \<leftarrow> nth_opt xs i; y \<leftarrow> get_bin (Value p);
         if bin_size x = bin_size y then do { a \<leftarrow> bin_read x (bin_size y); b \<leftarrow> bin_read y (bin_size y); Some (Inr (bytecmp a b)) }
         else Some (Inr (twcmp (bin_size x) (bin_size y))) }
     | MV T_STRING8 \<Rightarrow> do { xs \<leftarrow> get_mvszA (Value m); x \<leftarrow> nth_opt xs i; y \<leftarrow> get_lpszA (Value p);
         (case (x, y) of (None, Some _) \<Rightarrow> Some (Inr 1) | (Some _, None) \<Rightarrow> Some (Inr (- 1))
            | (None, None) \<Rightarrow> None | (Some s, Some t) \<Rightarrow> Some (Inr (u8_icompare U s t))) }
     | MV T_UNICODE \<Rightarrow> do { xs \<leftarrow> get_mvszA (Value m); x \<leftarrow> nth_opt xs i; y \<leftarrow> get_lpszA (Value p);
         (case (x, y) of (None, Some _) \<Rightarrow> Some (Inr 1) | (Some _, None) \<Rightarrow> Some (Inr (- 1))
            | (None, None) \<Rightarrow> None | (Some s, Some t) \<Rightarrow> Some (Inr (u8_icompare U s t))) }
     | _ \<Rightarrow> Some (Inl KCERR_INVALID_PARAMETER)) }"

text \<open>The loop over the elements i, i + 1, ..., n - 1 stops at the first match.\<close>

function mv_any :: "u8ops \<Rightarrow> propval \<Rightarrow> propval \<Rightarrow> relop \<Rightarrow> nat \<Rightarrow> nat \<Rightarrow> (ecresult + bool) option" where
  "mv_any U m p rel n i =
     (if i \<ge> n then Some (Inr False)
      else (case MVPropProxy_compare U m i p of
              None \<Rightarrow> None
            | Some (Inl er) \<Rightarrow> Some (Inl er)
            | Some (Inr c) \<Rightarrow> if match rel c then Some (Inr True) else mv_any U m p rel n (Suc i)))"
  by pat_completeness auto
termination by (relation "measure (\<lambda>(U, m, p, rel, n, i). n - i)") auto

declare mv_any.simps [simp del]

definition CompareMVPropWithProp :: "u8ops \<Rightarrow> propval \<Rightarrow> propval \<Rightarrow> relop \<Rightarrow> (ecresult + bool) option" where
  "CompareMVPropWithProp U m p rel =
     (if PROP_TYPE (ulPropTag m) AND NOT MV_FLAG \<noteq> PROP_TYPE (ulPropTag p) then Some (Inl KCERR_INVALID_PARAMETER)
      else do {
        c1 \<leftarrow> PropCheck m;
        bad \<leftarrow> (if c1 \<noteq> erSuccess then Some True else map_option (\<lambda>c2. c2 \<noteq> erSuccess) (PropCheck p));
        if bad then Some (Inl KCERR_INVALID_PARAMETER)
        else do { n \<leftarrow> MVPropProxy_size m; mv_any U m p rel n 0 } })"

section \<open>Sizes\<close>

definition str_size :: "bytes option \<Rightarrow> nat" where
  "str_size s = (case s of None \<Rightarrow> 0 | Some bs \<Rightarrow> length bs)"

definition PropSize :: "propval \<Rightarrow> nat option" where
  "PropSize p = (case ptype (ulPropTag p) of
       T_I2 \<Rightarrow> Some 2
     | T_BOOLEAN \<Rightarrow> Some 4 | T_R4 \<Rightarrow> Some 4 | T_LONG \<Rightarrow> Some 4
     | T_APPTIME \<Rightarrow> Some 8 | T_DOUBLE \<Rightarrow> Some 8 | T_I8 \<Rightarrow> Some 8
     | T_UNICODE \<Rightarrow> map_option str_size (get_lpszA (Value p))
     | T_STRING8 \<Rightarrow> map_option str_size (get_lpszA (Value p))
     | T_SYSTIME \<Rightarrow> Some 8 | T_CURRENCY \<Rightarrow> Some 8
     | T_BINARY \<Rightarrow> (case Value p of V_bin None \<Rightarrow> Some 0 | V_bin (Some b) \<Rightarrow> Some (bin_size b) | _ \<Rightarrow> None)
     | T_CLSID \<Rightarrow> (case Value p of V_bin None \<Rightarrow> Some 0 | V_bin (Some b) \<Rightarrow> Some (bin_size b) | _ \<Rightarrow> None)
     | MV T_I2 \<Rightarrow> map_option (\<lambda>xs. 2 * length xs) (get_mvi (Value p))
     | MV T_R4 \<Rightarrow> map_option (\<lambda>xs. 4 * length xs) (get_mvflt (Value p))
     | MV T_LONG \<Rightarrow> map_option (\<lambda>xs. 4 * length xs) (get_mvl (Value p))
     | MV T_APPTIME \<Rightarrow> map_option (\<lambda>xs. 8 * length xs) (get_mvdbl (Value p))
     | MV T_DOUBLE \<Rightarrow> map_option (\<lambda>xs. 8 * length xs) (get_mvdbl (Value p))
     | MV T_I8 \<Rightarrow> map_option (\<lambda>xs. 8 * length xs) (get_mvli (Value p))
     | MV T_UNICODE \<Rightarrow> map_option (\<lambda>xs. sum_list (map str_size xs)) (get_mvszA (Value p))
     | MV T_STRING8 \<Rightarrow> map_option (\<lambda>xs. sum_list (map str_size xs)) (get_mvszA (Value p))
     | MV T_SYSTIME \<Rightarrow> map_option (\<lambda>xs. 8 * length xs) (get_mvhilo (Value p))
     | MV T_CURRENCY \<Rightarrow> map_option (\<lambda>xs. 8 * length xs) (get_mvhilo (Value p))
     | MV T_BINARY \<Rightarrow> map_option (\<lambda>xs. sum_list (map bin_size xs)) (get_mvbin (Value p))
     | MV T_CLSID \<Rightarrow> map_option (\<lambda>xs. sum_list (map bin_size xs)) (get_mvbin (Value p))
     | _ \<Rightarrow> Some 0)"

section \<open>Searching a block\<close>

text \<open>
  The loop of memsubstr at position pos of the haystack with match bytes of the needle matched.
  Each step moves on, or goes back to one after where the partial match began.
\<close>

function memsubstr_loop :: "bytes \<Rightarrow> bytes \<Rightarrow> nat \<Rightarrow> nat \<Rightarrow> int option" where
  "memsubstr_loop h n pos m =
     (if pos < length h then
        (case nth_opt n m of
           None \<Rightarrow> None
         | Some b \<Rightarrow>
             if h ! pos = b then (if Suc m = length n then Some 0 else memsubstr_loop h n (Suc pos) (Suc m))
             else memsubstr_loop h n (Suc (pos - m)) 0)
      else Some 1)"
  by pat_completeness auto
termination
  by (relation "measures [\<lambda>(h, n, pos, m). length h - (pos - m), \<lambda>(h, n, pos, m). length h - pos]") auto

declare memsubstr_loop.simps [simp del]

definition memsubstr :: "bytes \<Rightarrow> bytes \<Rightarrow> int option" where
  "memsubstr h n =
     (if length h < length n then Some (sint (of_nat (length h) - of_nat (length n) :: 32 word))
      else memsubstr_loop h n 0 0)"

end
