(* ===== verification/Restriction.thy ===== *)
theory Restriction
  imports PropVal KeyTableRow
begin

text \<open>
  Restrictions on tables: the part of provider/libserver/ECGenericObjectTable.cpp that collects the
  columns a restriction needs (GetRestrictPropTags), evaluates it on a row (MatchRowRestrict), and
  makes the sort keys of the table engine (GetBinarySortKey, GetSortFlags).

  A restriction tree follows struct restrictTable. A null child pointer is \<open>RES_NULLPTR\<close> (following
  it is undefined); a node whose own struct pointer is null is \<open>RES_MISSING\<close>. Evaluation passes
  the row through, because matching PR_ANR writes to it. Assertions are off, as in release builds.
\<close>

section \<open>Restriction trees\<close>

datatype restriction =
    RES_NULLPTR
  | RES_MISSING
  | RES_UNKNOWN uint32
  | RES_AND "restriction list"
  | RES_OR "restriction list"
  | RES_NOT restriction
  | RES_COMMENT restriction
  | RES_CONTENT uint32 uint32 "propval option"
  | RES_PROPERTY relop uint32 "propval option"
  | RES_COMPAREPROPS relop uint32 uint32
  | RES_BITMASK bool uint32 uint32
  | RES_SIZE relop uint32 uint32
  | RES_EXIST uint32
  | RES_SUBRESTRICTION

definition RESTRICT_MAX_DEPTH :: nat where "RESTRICT_MAX_DEPTH = 16"

definition FL_FULLSTRING :: uint32 where "FL_FULLSTRING = 0"
definition FL_SUBSTRING :: uint32 where "FL_SUBSTRING = 1"
definition FL_PREFIX :: uint32 where "FL_PREFIX = 2"
definition FL_IGNORECASE :: uint32 where "FL_IGNORECASE = 0x00010000"

definition sANRProps :: "bool \<Rightarrow> uint32 list" where
  "sANRProps uc = map (PROP_TAG (PT_TSTRING uc)) [0x3001, 0x39FE, 0x3A00, 0x3A18, 0x3A08, 0x3A19, 0x3A23, 0x3A11]"

section \<open>The columns a restriction needs\<close>

fun GetRestrictPropTagsRecursive :: "bool \<Rightarrow> restriction \<Rightarrow> nat \<Rightarrow> (ecresult + uint32 list) option"
  and TagsOfList :: "bool \<Rightarrow> restriction list \<Rightarrow> nat \<Rightarrow> (ecresult + uint32 list) option" where
  "GetRestrictPropTagsRecursive uc r ulLevel =
     (if ulLevel > RESTRICT_MAX_DEPTH then Some (Inl KCERR_TOO_COMPLEX)
      else (case r of
        RES_NULLPTR \<Rightarrow> None
      | RES_MISSING \<Rightarrow> None
      | RES_UNKNOWN _ \<Rightarrow> Some (Inr [])
      | RES_COMMENT r \<Rightarrow> GetRestrictPropTagsRecursive uc r (Suc ulLevel)
      | RES_OR rs \<Rightarrow> TagsOfList uc rs (Suc ulLevel)
      | RES_AND rs \<Rightarrow> TagsOfList uc rs (Suc ulLevel)
      | RES_NOT r \<Rightarrow> GetRestrictPropTagsRecursive uc r (Suc ulLevel)
      | RES_CONTENT _ tag _ \<Rightarrow> Some (Inr [tag])
      | RES_PROPERTY _ tag v \<Rightarrow>
          if PROP_ID tag = PR_ANR_ID then Some (Inr (sANRProps uc))
          else map_option (\<lambda>p. Inr [ulPropTag p, tag]) v
      | RES_COMPAREPROPS _ tag1 tag2 \<Rightarrow> Some (Inr [tag1, tag2])
      | RES_BITMASK _ tag _ \<Rightarrow> Some (Inr [tag])
      | RES_SIZE _ tag _ \<Rightarrow> Some (Inr [tag])
      | RES_EXIST tag \<Rightarrow> Some (Inr [tag])
      | RES_SUBRESTRICTION \<Rightarrow> Some (Inr [PR_ENTRYID])))"
| "TagsOfList uc [] ulLevel = Some (Inr [])"
| "TagsOfList uc (r # rs) ulLevel =
     (case GetRestrictPropTagsRecursive uc r ulLevel of
        None \<Rightarrow> None
      | Some (Inl er) \<Rightarrow> Some (Inl er)
      | Some (Inr ts) \<Rightarrow>
          (case TagsOfList uc rs ulLevel of
             None \<Rightarrow> None
           | Some (Inl er) \<Rightarrow> Some (Inl er)
           | Some (Inr us) \<Rightarrow> Some (Inr (ts @ us))))"

definition GetRestrictPropTags :: "bool \<Rightarrow> restriction \<Rightarrow> uint32 list option \<Rightarrow> (ecresult + uint32 list) option" where
  "GetRestrictPropTags uc r lstPrefix =
     (case GetRestrictPropTagsRecursive uc r 0 of
        None \<Rightarrow> None
      | Some (Inl er) \<Rightarrow> Some (Inl er)
      | Some (Inr ts) \<Rightarrow> Some (Inr ((case lstPrefix of None \<Rightarrow> [] | Some ps \<Rightarrow> ps) @ remdups_adj (sort ts))))"

section \<open>Evaluation\<close>

text \<open>
  What evaluation uses from outside: the string functions, regcomp (None when the pattern is refused)
  with regexec, the object cache's lookup of entry ids, and the results of the sub restrictions.
\<close>

record matchenv =
  unicode :: bool
  u8 :: u8ops
  regcomp :: "bytes \<Rightarrow> (bytes \<Rightarrow> bool) option"
  GetObjectFromEntryId :: "bin \<Rightarrow> ecresult + uint32"
  lpSubResults :: "uint32 set list option"

type_synonym matchres = "((ecresult + bool) \<times> row) option"

text \<open>A pointer to characters or to a binary value, as RES_CONTENT passes them around.\<close>

datatype memref = M_str "bytes option" | M_bin bin

fun mem_size :: "memref \<Rightarrow> nat" where
  "mem_size (M_str s) = str_size s"
| "mem_size (M_bin b) = bin_size b"

fun mem_read :: "memref \<Rightarrow> nat \<Rightarrow> bytes option" where
  "mem_read (M_str None) n = (if n = 0 then Some [] else None)"
| "mem_read (M_str (Some s)) n = (if n \<le> length s + 1 then Some (take n (s @ [0])) else None)"
| "mem_read (M_bin b) n = bin_read b n"

fun mem_cstr :: "memref \<Rightarrow> bytes option" where
  "mem_cstr (M_str s) = s"
| "mem_cstr (M_bin b) = do { d \<leftarrow> bin_ptr b; cstring_at d 0 }"

text \<open>One comparison of RES_CONTENT: t says whether the column is text, fz is the fuzzy level.\<close>

definition content_equal :: "u8ops \<Rightarrow> bool \<Rightarrow> uint32 \<Rightarrow> memref \<Rightarrow> memref \<Rightarrow> bool option" where
  "content_equal U t fz d s =
     (if mem_size d \<noteq> mem_size s then Some False
      else if t then do { x \<leftarrow> mem_cstr d; y \<leftarrow> mem_cstr s;
             Some (if fz AND FL_IGNORECASE \<noteq> 0 then u8_iequals U x y else u8_equals U x y) }
      else do { x \<leftarrow> mem_read d (mem_size d); y \<leftarrow> mem_read s (mem_size d); Some (bytecmp x y = 0) })"

definition content_prefix :: "u8ops \<Rightarrow> bool \<Rightarrow> uint32 \<Rightarrow> memref \<Rightarrow> memref \<Rightarrow> bool option" where
  "content_prefix U t fz d s =
     (if mem_size d < mem_size s then Some False
      else if t then do { x \<leftarrow> mem_cstr d; y \<leftarrow> mem_cstr s;
             Some (if fz AND FL_IGNORECASE \<noteq> 0 then u8_istartswith U x y else u8_startswith U x y) }
      else do { x \<leftarrow> mem_read d (mem_size s); y \<leftarrow> mem_read s (mem_size s); Some (bytecmp x y = 0) })"

definition content_substring :: "u8ops \<Rightarrow> bool \<Rightarrow> uint32 \<Rightarrow> memref \<Rightarrow> memref \<Rightarrow> bool option" where
  "content_substring U t fz d s =
     (if t then do { x \<leftarrow> mem_cstr d; y \<leftarrow> mem_cstr s;
             Some (if fz AND FL_IGNORECASE \<noteq> 0 then u8_icontains U x y else u8_contains U x y) }
      else do { x \<leftarrow> mem_read d (mem_size d); y \<leftarrow> mem_read s (mem_size s);
             map_option (\<lambda>r. r = 0) (memsubstr x y) })"

definition content_match :: "u8ops \<Rightarrow> bool \<Rightarrow> uint32 \<Rightarrow> memref \<Rightarrow> memref \<Rightarrow> bool option" where
  "content_match U t fz d s =
     (let lv = fz AND 0xFFFF in
      if lv = FL_FULLSTRING then content_equal U t fz d s
      else if lv = FL_PREFIX then content_prefix U t fz d s
      else if lv = FL_SUBSTRING then content_substring U t fz d s
      else Some False)"

text \<open>The loop over the values of a multi-valued column stops at the first match.\<close>

fun content_any :: "(memref \<Rightarrow> bool option) \<Rightarrow> memref list \<Rightarrow> bool option" where
  "content_any f [] = Some False"
| "content_any f (d # ds) = (case f d of None \<Rightarrow> None | Some True \<Rightarrow> Some True | Some False \<Rightarrow> content_any f ds)"

text \<open>String types count as PT_TSTRING: the test masks the type with PT_MV_STRING8.\<close>

definition same_string_type :: "bool \<Rightarrow> uint32 \<Rightarrow> uint32" where
  "same_string_type uc tag =
     (if PROP_TYPE tag AND PT_MV_STRING8 = PT_STRING8 then CHANGE_PROP_TYPE tag (PT_TSTRING uc)
      else if PROP_TYPE tag AND PT_MV_STRING8 = PT_MV_STRING8 then CHANGE_PROP_TYPE tag (PT_MV_TSTRING uc)
      else tag)"

definition PT_MV_BINARY :: uint32 where "PT_MV_BINARY = 0x1102"

text \<open>The values of the column, and the search value, as RES_CONTENT reads them.\<close>

definition content_data :: "bool \<Rightarrow> uint32 \<Rightarrow> propdata \<Rightarrow> memref list option" where
  "content_data uc tag v =
     (if tag AND MV_FLAG \<noteq> 0 then
        (if PROP_TYPE tag = PT_MV_TSTRING uc then map_option (map M_str) (get_mvszA v)
         else map_option (map M_bin) (get_mvbin v))
      else if PROP_TYPE tag = PT_TSTRING uc then map_option (\<lambda>s. [M_str s]) (get_lpszA v)
      else map_option (\<lambda>b. [M_bin b]) (get_bin v))"

definition search_data :: "bool \<Rightarrow> propval \<Rightarrow> memref option" where
  "search_data uc p =
     (if PROP_TYPE (same_string_type uc (ulPropTag p)) = PT_TSTRING uc then map_option M_str (get_lpszA (Value p))
      else map_option M_bin (get_bin (Value p)))"

definition match_content :: "matchenv \<Rightarrow> row \<Rightarrow> uint32 \<Rightarrow> uint32 \<Rightarrow> propval \<Rightarrow> (ecresult + bool) option" where
  "match_content E row fz tag p =
     (let uc = unicode E; rt = same_string_type uc tag in
      if PROP_TYPE rt \<notin> {PT_TSTRING uc, PT_BINARY, PT_MV_TSTRING uc, PT_MV_BINARY} then Some (Inr False)
      else (case FindProp row tag of
        None \<Rightarrow> Some (Inr False)
      | Some i \<Rightarrow> do {
          s \<leftarrow> search_data uc p;
          ds \<leftarrow> content_data uc rt (Value (row ! i));
          b \<leftarrow> content_any (\<lambda>d. content_match (u8 E) (PROP_TYPE rt AND NOT MVI_FLAG = PT_TSTRING uc) fz d s) ds;
          Some (Inr b) }))"

text \<open>RES_PROPERTY: a regular expression, an ambiguous name (PR_ANR), or a comparison.\<close>

definition set_tag :: "row \<Rightarrow> nat \<Rightarrow> uint32 \<Rightarrow> row" where
  "set_tag row i tag = row[i := (row ! i)\<lparr>ulPropTag := tag\<rparr>]"

text \<open>
  The loop over the PR_ANR columns: a column that is present gets the tag of the value, is compared,
  and a failed comparison leaves the last result in place.
\<close>

fun match_anr :: "matchenv \<Rightarrow> relop \<Rightarrow> propval \<Rightarrow> uint32 list \<Rightarrow> int \<Rightarrow> row \<Rightarrow> (bool \<times> row) option" where
  "match_anr E rel p [] lCompare row = Some (False, row)"
| "match_anr E rel p (t # ts) lCompare row =
     (case FindProp row t of
        None \<Rightarrow> match_anr E rel p ts lCompare row
      | Some i \<Rightarrow>
          (let row = set_tag row i (ulPropTag p) in
           case CompareProp (unicode E) (u8 E) (row ! i) p of
             None \<Rightarrow> None
           | Some r \<Rightarrow>
               (let c = (case r of Inl _ \<Rightarrow> lCompare | Inr c \<Rightarrow> c); c = (if c \<noteq> 0 then 0 else - 1)
                in if match rel c then Some (True, row) else match_anr E rel p ts c row)))"

definition match_regex :: "matchenv \<Rightarrow> row \<Rightarrow> uint32 \<Rightarrow> uint32 \<Rightarrow> uint32 \<Rightarrow> propval \<Rightarrow> (ecresult + bool) option" where
  "match_regex E row tag rt vt p =
     (case FindProp row tag of
        None \<Rightarrow> Some (Inr False)
      | Some i \<Rightarrow>
          if PROP_TYPE vt \<noteq> PT_TSTRING (unicode E) \<or> PROP_TYPE rt \<noteq> PT_TSTRING (unicode E) then Some (Inl KCERR_INVALID_TYPE)
          else do {
            pat \<leftarrow> Option.bind (get_lpszA (Value p)) id;
            (case regcomp E pat of
               None \<Rightarrow> Some (Inr False)
             | Some re \<Rightarrow> do { s \<leftarrow> Option.bind (get_lpszA (Value (row ! i))) id; Some (Inr (re s)) }) })"

definition match_compare :: "matchenv \<Rightarrow> row \<Rightarrow> relop \<Rightarrow> uint32 \<Rightarrow> uint32 \<Rightarrow> propval \<Rightarrow> (ecresult + bool) option" where
  "match_compare E row rel tag rt p =
     (case FindProp row tag of
        None \<Rightarrow> Some (Inr (rel = RELOP_NE))
      | Some i \<Rightarrow>
          if rt AND MV_FLAG \<noteq> 0 then
            (case CompareMVPropWithProp (u8 E) (row ! i) p rel of
               None \<Rightarrow> None | Some (Inl _) \<Rightarrow> Some (Inr False) | Some (Inr b) \<Rightarrow> Some (Inr b))
          else
            (case CompareProp (unicode E) (u8 E) (row ! i) p of
               None \<Rightarrow> None | Some (Inl _) \<Rightarrow> Some (Inr False) | Some (Inr c) \<Rightarrow> Some (Inr (match rel c))))"

definition pure_res :: "row \<Rightarrow> (ecresult + bool) option \<Rightarrow> matchres" where
  "pure_res row r = map_option (\<lambda>x. (x, row)) r"

definition match_property :: "matchenv \<Rightarrow> row \<Rightarrow> relop \<Rightarrow> uint32 \<Rightarrow> propval \<Rightarrow> matchres" where
  "match_property E row rel tag p =
     (let uc = unicode E; rt = same_string_type uc tag;
          vt = (if PROP_TYPE (ulPropTag p) = PT_STRING8 then CHANGE_PROP_TYPE (ulPropTag p) (PT_TSTRING uc) else ulPropTag p) in
      if PROP_TYPE rt AND NOT MV_FLAG \<noteq> PROP_TYPE vt then Some (Inl KCERR_INVALID_TYPE, row)
      else if rel = RELOP_RE then pure_res row (match_regex E row tag rt vt p)
      else if PROP_ID rt = PR_ANR_ID then map_option (\<lambda>(b, row). (Inr b, row)) (match_anr E rel p (sANRProps uc) 0 row)
      else pure_res row (match_compare E row rel tag rt p))"

definition match_compareprops :: "matchenv \<Rightarrow> row \<Rightarrow> relop \<Rightarrow> uint32 \<Rightarrow> uint32 \<Rightarrow> (ecresult + bool) option" where
  "match_compareprops E row rel tag1 tag2 =
     (let uc = unicode E in
      if PROP_TYPE (same_string_type uc tag1) \<noteq> PROP_TYPE (same_string_type uc tag2) then Some (Inl KCERR_INVALID_TYPE)
      else (case (FindProp row tag1, FindProp row tag2) of
              (Some i, Some j) \<Rightarrow>
                (case CompareProp uc (u8 E) (row ! i) (row ! j) of
                   None \<Rightarrow> None | Some (Inl _) \<Rightarrow> Some (Inr False) | Some (Inr c) \<Rightarrow> Some (Inr (match rel c)))
            | _ \<Rightarrow> Some (Inr False)))"

definition match_bitmask :: "row \<Rightarrow> bool \<Rightarrow> uint32 \<Rightarrow> uint32 \<Rightarrow> (ecresult + bool) option" where
  "match_bitmask row eqz tag ulMask =
     (if PROP_TYPE tag \<noteq> PT_LONG then Some (Inl KCERR_INVALID_TYPE)
      else (case FindProp row tag of
              None \<Rightarrow> Some (Inr False)
            | Some i \<Rightarrow> map_option (\<lambda>v. Inr ((v AND ulMask > 0) \<noteq> eqz)) (get_ul (Value (row ! i)))))"

definition match_size :: "row \<Rightarrow> relop \<Rightarrow> uint32 \<Rightarrow> uint32 \<Rightarrow> (ecresult + bool) option" where
  "match_size row rel tag cb =
     (case FindProp row tag of
        None \<Rightarrow> Some (Inl KCERR_INVALID_TYPE)
      | Some i \<Rightarrow> map_option (\<lambda>n. Inr (match rel (sint (of_nat n - cb :: 32 word)))) (PropSize (row ! i)))"

text \<open>The index of the sub restriction results that the code consults is always 0.\<close>

definition match_sub :: "matchenv \<Rightarrow> row \<Rightarrow> (ecresult + bool) option" where
  "match_sub E row =
     (let ulSubRestrict = (0 :: nat) in
      case FindProp row PR_ENTRYID of
        None \<Rightarrow> Some (Inl KCERR_INVALID_TYPE)
      | Some i \<Rightarrow>
          (case lpSubResults E of
             None \<Rightarrow> Some (Inr False)
           | Some res \<Rightarrow>
               if length res \<le> ulSubRestrict then Some (Inr False)
               else map_option (\<lambda>b. Inr (case GetObjectFromEntryId E b of Inl _ \<Rightarrow> False | Inr oid \<Rightarrow> oid \<in> res ! ulSubRestrict))
                      (get_bin (Value (row ! i)))))"

fun MatchRowRestrict :: "matchenv \<Rightarrow> restriction \<Rightarrow> row \<Rightarrow> matchres"
  and MatchOr :: "matchenv \<Rightarrow> restriction list \<Rightarrow> row \<Rightarrow> matchres"
  and MatchAnd :: "matchenv \<Rightarrow> restriction list \<Rightarrow> row \<Rightarrow> matchres" where
  "MatchRowRestrict E RES_NULLPTR row = None"
| "MatchRowRestrict E RES_MISSING row = Some (Inl KCERR_INVALID_TYPE, row)"
| "MatchRowRestrict E (RES_UNKNOWN _) row = Some (Inl KCERR_INVALID_TYPE, row)"
| "MatchRowRestrict E (RES_COMMENT r) row = MatchRowRestrict E r row"
| "MatchRowRestrict E (RES_OR rs) row = MatchOr E rs row"
| "MatchRowRestrict E (RES_AND rs) row = MatchAnd E rs row"
| "MatchRowRestrict E (RES_NOT r) row = map_option (\<lambda>(x, row). (map_sum id Not x, row)) (MatchRowRestrict E r row)"
| "MatchRowRestrict E (RES_CONTENT fz tag v) row =
     (case v of None \<Rightarrow> Some (Inl KCERR_INVALID_TYPE, row) | Some p \<Rightarrow> pure_res row (match_content E row fz tag p))"
| "MatchRowRestrict E (RES_PROPERTY rel tag v) row =
     (case v of None \<Rightarrow> Some (Inl KCERR_INVALID_TYPE, row) | Some p \<Rightarrow> match_property E row rel tag p)"
| "MatchRowRestrict E (RES_COMPAREPROPS rel tag1 tag2) row = pure_res row (match_compareprops E row rel tag1 tag2)"
| "MatchRowRestrict E (RES_BITMASK eqz tag ulMask) row = pure_res row (match_bitmask row eqz tag ulMask)"
| "MatchRowRestrict E (RES_SIZE rel tag cb) row = pure_res row (match_size row rel tag cb)"
| "MatchRowRestrict E (RES_EXIST tag) row = Some (Inr (FindProp row tag \<noteq> None), row)"
| "MatchRowRestrict E RES_SUBRESTRICTION row = pure_res row (match_sub E row)"
| "MatchOr E [] row = Some (Inr False, row)"
| "MatchOr E (r # rs) row =
     (case MatchRowRestrict E r row of
        None \<Rightarrow> None
      | Some (Inl er, row) \<Rightarrow> Some (Inl er, row)
      | Some (Inr fMatch, row) \<Rightarrow> if fMatch then Some (Inr True, row) else MatchOr E rs row)"
| "MatchAnd E [] row = Some (Inr True, row)"
| "MatchAnd E (r # rs) row =
     (case MatchRowRestrict E r row of
        None \<Rightarrow> None
      | Some (Inl er, row) \<Rightarrow> Some (Inl er, row)
      | Some (Inr fMatch, row) \<Rightarrow> if fMatch then MatchAnd E rs row else Some (Inr False, row))"

section \<open>Sort keys\<close>

text \<open>
  Numbers in network byte order. The bytes of a double in memory, and the collation key of a
  string, are parameters.
\<close>

definition be16 :: "16 word \<Rightarrow> bytes" where "be16 w = [ucast (drop_bit 8 w), ucast w]"
definition be32 :: "32 word \<Rightarrow> bytes" where
  "be32 w = [ucast (drop_bit 24 w), ucast (drop_bit 16 w), ucast (drop_bit 8 w), ucast w]"

text \<open>The member b of the union, one byte of it, where it is set or where a 16 bit number is.\<close>

definition read_b :: "propdata \<Rightarrow> 16 word option" where
  "read_b v = (case v of V_b b \<Rightarrow> Some (if b then 1 else 0)
     | V_i i \<Rightarrow> (if i AND 0xFF = 0 then Some 0 else if i AND 0xFF = 1 then Some 1 else None) | _ \<Rightarrow> None)"

definition GetBinarySortKey :: "(fp \<Rightarrow> bytes) \<Rightarrow> (bytes \<Rightarrow> bytes) \<Rightarrow> propval \<Rightarrow> (ecresult + bytes) option" where
  "GetBinarySortKey double_bytes collation_key p =
     (case ptype (ulPropTag p) of
        T_BOOLEAN \<Rightarrow> map_option (\<lambda>b. Inr (be16 b)) (read_b (Value p))
      | T_I2 \<Rightarrow> map_option (\<lambda>b. Inr (be16 b)) (read_b (Value p))
      | T_LONG \<Rightarrow> map_option (\<lambda>w. Inr (be32 w)) (get_ul (Value p))
      | T_R4 \<Rightarrow> map_option (\<lambda>x. Inr (double_bytes x)) (get_flt (Value p))
      | T_APPTIME \<Rightarrow> map_option (\<lambda>x. Inr (double_bytes x)) (get_dbl (Value p))
      | T_DOUBLE \<Rightarrow> map_option (\<lambda>x. Inr (double_bytes x)) (get_dbl (Value p))
      | T_CURRENCY \<Rightarrow> Some (Inr [])
      | T_SYSTIME \<Rightarrow> map_option (\<lambda>h. Inr (be32 (hilo_hi h) @ be32 (hilo_lo h))) (get_hilo (Value p))
      | T_I8 \<Rightarrow> map_option (\<lambda>x. Inr (be32 (ucast (drop_bit 32 x)) @ be32 (ucast x))) (get_li (Value p))
      | T_STRING8 \<Rightarrow> map_option (\<lambda>s. Inr (case s of None \<Rightarrow> [] | Some t \<Rightarrow> collation_key t)) (get_lpszA (Value p))
      | T_UNICODE \<Rightarrow> map_option (\<lambda>s. Inr (case s of None \<Rightarrow> [] | Some t \<Rightarrow> collation_key t)) (get_lpszA (Value p))
      | T_CLSID \<Rightarrow> do { b \<leftarrow> get_bin (Value p); bs \<leftarrow> bin_read b (bin_size b); Some (Inr bs) }
      | T_BINARY \<Rightarrow> do { b \<leftarrow> get_bin (Value p); bs \<leftarrow> bin_read b (bin_size b); Some (Inr bs) }
      | T_ERROR \<Rightarrow> Some (Inr [])
      | _ \<Rightarrow> Some (Inl KCERR_INVALID_TYPE))"

definition GetSortFlags :: "uint32 \<Rightarrow> byte" where
  "GetSortFlags tag =
     (let t = ptype tag in
      if t = T_DOUBLE \<or> t = T_APPTIME \<or> t = T_R4 then TABLEROW_FLAG_FLOAT
      else if t = T_STRING8 \<or> t = T_UNICODE then TABLEROW_FLAG_STRING
      else 0)"

end
