(* ===== verification/RestrictionSpec.thy ===== *)
theory RestrictionSpec
  imports Restriction
begin

text \<open>
  Properties of restrictions: Boolean laws of evaluation, sufficiency of the collected columns, the
  depth limit, searching a block, and the agreement of sort keys with comparison.
\<close>

section \<open>Columns that are not needed\<close>

text \<open>\<open>drops T xs ys\<close>: ys is xs without some columns that no tag of T finds.\<close>

inductive drops :: "uint32 set \<Rightarrow> row \<Rightarrow> row \<Rightarrow> bool" for T where
  drops_nil: "drops T [] []"
| drops_keep: "drops T xs ys \<Longrightarrow> drops T (x # xs) (x # ys)"
| drops_drop: "drops T xs ys \<Longrightarrow> \<forall>t \<in> T. \<not> tag_matches t x \<Longrightarrow> drops T (x # xs) ys"

lemma drops_filter:
  "drops T xs (filter (\<lambda>p. \<exists>t \<in> T. tag_matches t p) xs)"
  by (induction xs) (auto intro: drops.intros)

lemma drops_find:
  assumes "drops T xs ys" "t \<in> T"
  shows "(FindProp xs t = None \<and> FindProp ys t = None) \<or>
    (\<exists>i j. FindProp xs t = Some i \<and> FindProp ys t = Some j \<and> ys ! j = xs ! i \<and>
      (\<forall>p. drops T (xs[i := p]) (ys[j := p])))"
  using assms
proof (induction rule: drops.induct)
  case (drops_keep xs ys x)
  show ?case
  proof (cases "tag_matches t x")
    case True
    then show ?thesis using drops_keep.hyps by (auto intro: drops.drops_keep)
  next
    case False
    have k: "drops T (x # as) (x # bs)" if "drops T as bs" for as bs using that by (rule drops.drops_keep)
    show ?thesis using drops_keep.IH [OF drops_keep.prems] False k by fastforce
  qed
next
  case (drops_drop xs ys x)
  then have "\<not> tag_matches t x" by blast
  moreover have "drops T (x # as) bs" if "drops T as bs" for as bs using that drops_drop.hyps(2) by (rule drops.drops_drop)
  ultimately show ?case using drops_drop.IH [OF drops_drop.prems] by fastforce
qed simp

lemma FindProp_less: "FindProp xs t = Some i \<Longrightarrow> i < length xs"
  by (induction xs arbitrary: i) (auto split: if_splits)

lemma FindProp_tag: "FindProp row tag = Some i \<Longrightarrow> PROP_TYPE tag \<noteq> PT_UNSPECIFIED \<Longrightarrow> ulPropTag (row ! i) = tag \<and> row ! i \<in> set row"
  by (induction row arbitrary: i) (auto simp: tag_matches_def split: if_splits)

lemma drops_find_cases:
  assumes "drops T xs ys" "t \<in> T"
  obtains "FindProp xs t = None" "FindProp ys t = None"
  | i j where "FindProp xs t = Some i" "FindProp ys t = Some j" "ys ! j = xs ! i"
      "\<And>p. drops T (xs[i := p]) (ys[j := p])"
  using drops_find [OF assms] by (elim disjE exE conjE) (erule (1) that(1), erule (2) that(2), erule spec)

text \<open>Two evaluations with the same outcome on rows in that relation.\<close>

definition same_outcome :: "uint32 set \<Rightarrow> matchres \<Rightarrow> matchres \<Rightarrow> bool" where
  "same_outcome T a b \<longleftrightarrow> rel_option (rel_prod (=) (drops T)) a b"

lemma same_outcome_simps [simp]:
  "same_outcome T None b \<longleftrightarrow> b = None"
  "same_outcome T (Some (x, r)) b \<longleftrightarrow> (\<exists>s. b = Some (x, s) \<and> drops T r s)"
  by (auto simp: same_outcome_def rel_option_iff split: option.splits)

lemma same_outcome_pure: "drops T xs ys \<Longrightarrow> x = y \<Longrightarrow> same_outcome T (pure_res xs x) (pure_res ys y)"
  by (cases x) (auto simp: pure_res_def)

lemma drops_content:
  assumes "drops T xs ys" "tag \<in> T"
  shows "match_content E xs fz tag p = match_content E ys fz tag p"
  by (rule drops_find_cases [OF assms]) (simp_all cong: if_cong option.case_cong add: match_content_def Let_def)

lemma drops_regex:
  assumes "drops T xs ys" "tag \<in> T"
  shows "match_regex E xs tag rt vt p = match_regex E ys tag rt vt p"
  by (rule drops_find_cases [OF assms]) (simp_all cong: if_cong option.case_cong add: match_regex_def)

lemma drops_compare:
  assumes "drops T xs ys" "tag \<in> T"
  shows "match_compare E xs rel tag rt p = match_compare E ys rel tag rt p"
  by (rule drops_find_cases [OF assms]) (simp_all cong: if_cong option.case_cong add: match_compare_def)

lemma drops_compareprops:
  assumes "drops T xs ys" "tag1 \<in> T" "tag2 \<in> T"
  shows "match_compareprops E xs rel tag1 tag2 = match_compareprops E ys rel tag1 tag2"
  by (rule drops_find_cases [OF assms(1,2)]; rule drops_find_cases [OF assms(1,3)])
    (simp_all cong: if_cong option.case_cong add: match_compareprops_def Let_def)

lemma drops_bitmask: "drops T xs ys \<Longrightarrow> tag \<in> T \<Longrightarrow> match_bitmask xs z tag m = match_bitmask ys z tag m"
  by (erule (1) drops_find_cases) (simp_all cong: if_cong option.case_cong add: match_bitmask_def)

lemma drops_size: "drops T xs ys \<Longrightarrow> tag \<in> T \<Longrightarrow> match_size xs rel tag cb = match_size ys rel tag cb"
  by (erule (1) drops_find_cases) (simp_all cong: if_cong option.case_cong add: match_size_def)

lemma drops_sub: "drops T xs ys \<Longrightarrow> PR_ENTRYID \<in> T \<Longrightarrow> match_sub E xs = match_sub E ys"
  by (erule (1) drops_find_cases) (simp_all cong: if_cong option.case_cong add: match_sub_def Let_def)

lemma drops_anr:
  assumes "drops T xs ys" "set ts \<subseteq> T"
  shows "rel_option (rel_prod (=) (drops T)) (match_anr E rel p ts c xs) (match_anr E rel p ts c ys)"
  using assms
proof (induction ts arbitrary: c xs ys)
  case (Cons t ts)
  have t: "t \<in> T" "set ts \<subseteq> T" using Cons.prems by auto
  show ?case
  proof (rule drops_find_cases [OF Cons.prems(1) t(1)])
    assume "FindProp xs t = None" "FindProp ys t = None"
    then show ?thesis using Cons.IH [OF Cons.prems(1) t(2)] by simp
  next
    fix i j
    assume f: "FindProp xs t = Some i" "FindProp ys t = Some j" "ys ! j = xs ! i"
      and d: "\<And>p. drops T (xs[i := p]) (ys[j := p])"
    have len: "i < length xs" "j < length ys" using f(1,2) FindProp_less by blast+
    have d': "drops T (set_tag xs i (ulPropTag p)) (set_tag ys j (ulPropTag p))"
      unfolding set_tag_def f(3) by (rule d)
    have e: "set_tag xs i (ulPropTag p) ! i = set_tag ys j (ulPropTag p) ! j"
      using len by (simp add: set_tag_def f(3))
    show ?thesis using f(1,2) d' Cons.IH [OF d' t(2)]
      by (auto simp: Let_def e split: option.split)
  qed
qed simp

text \<open>A regular expression on the ambiguous name looks at PR_ANR itself, which the collected tags leave out.\<close>

fun no_anr_regex :: "restriction \<Rightarrow> bool" where
  "no_anr_regex (RES_AND rs) = (\<forall>r \<in> set rs. no_anr_regex r)"
| "no_anr_regex (RES_OR rs) = (\<forall>r \<in> set rs. no_anr_regex r)"
| "no_anr_regex (RES_NOT r) = no_anr_regex r"
| "no_anr_regex (RES_COMMENT r) = no_anr_regex r"
| "no_anr_regex (RES_PROPERTY rel tag _) = (rel = RELOP_RE \<longrightarrow> PROP_ID tag \<noteq> PR_ANR_ID)"
| "no_anr_regex _ = True"

lemma PROP_ID_change: "PROP_ID (CHANGE_PROP_TYPE tag ty) = PROP_ID tag OR drop_bit 16 ty"
proof -
  have m: "(0xFFFF0000 :: uint32) = NOT (mask 16)" by (simp add: mask_eq_exp_minus_1)
  show ?thesis
    unfolding PROP_ID_def CHANGE_PROP_TYPE_def m by (rule bit_word_eqI) (auto simp: bit_simps dest: bit_imp_le_length)
qed

lemma PROP_ID_same_string [simp]: "PROP_ID (same_string_type uc tag) = PROP_ID tag"
  by (simp add: same_string_type_def PROP_ID_change PT_TSTRING_def PT_MV_TSTRING_def PT_UNICODE_def PT_STRING8_def MV_FLAG_def)

lemma drops_property:
  assumes "drops T xs ys" "no_anr_regex (RES_PROPERTY rel tag (Some p))"
    and "PROP_ID tag = PR_ANR_ID \<Longrightarrow> set (sANRProps (unicode E)) \<subseteq> T" "PROP_ID tag \<noteq> PR_ANR_ID \<Longrightarrow> tag \<in> T"
  shows "same_outcome T (match_property E xs rel tag p) (match_property E ys rel tag p)"
proof (cases "PROP_ID tag = PR_ANR_ID")
  case True
  note a = drops_anr [OF assms(1) assms(3) [OF True], of E rel p 0]
  then have "same_outcome T (map_option (\<lambda>(b, row). (Inr b, row)) (match_anr E rel p (sANRProps (unicode E)) 0 xs))
      (map_option (\<lambda>(b, row). (Inr b, row)) (match_anr E rel p (sANRProps (unicode E)) 0 ys))"
    by (cases "match_anr E rel p (sANRProps (unicode E)) 0 xs"; cases "match_anr E rel p (sANRProps (unicode E)) 0 ys") auto
  then show ?thesis using assms(1,2) True by (simp add: match_property_def Let_def)
next
  case False
  then show ?thesis
    using assms(1) same_outcome_pure drops_regex [OF assms(1) assms(4)] drops_compare [OF assms(1) assms(4)]
    by (simp add: match_property_def Let_def)
qed

lemma tags_list:
  "TagsOfList uc rs l = Some (Inr ts) \<Longrightarrow> r \<in> set rs \<Longrightarrow>
     \<exists>us. GetRestrictPropTagsRecursive uc r l = Some (Inr us) \<and> set us \<subseteq> set ts"
proof (induction rs arbitrary: ts)
  case (Cons a rs)
  then obtain xs ys where x: "GetRestrictPropTagsRecursive uc a l = Some (Inr xs)" "TagsOfList uc rs l = Some (Inr ys)" "ts = xs @ ys"
    by (auto simp del: GetRestrictPropTagsRecursive.simps split: option.splits sum.splits)
  show ?case
  proof (cases "r = a")
    case True
    then show ?thesis using x by auto
  next
    case False
    then show ?thesis using Cons.IH [OF x(2)] Cons.prems(2) x(3) by fastforce
  qed
qed simp

lemma same_outcome_list:
  assumes "\<And>r l xs ys. r \<in> set rs \<Longrightarrow> drops T xs ys \<Longrightarrow> same_outcome T (MatchRowRestrict E r xs) (MatchRowRestrict E r ys)"
    and "drops T xs ys"
  shows "same_outcome T (MatchOr E rs xs) (MatchOr E rs ys) \<and> same_outcome T (MatchAnd E rs xs) (MatchAnd E rs ys)"
  using assms
proof (induction rs arbitrary: xs ys)
  case (Cons r rs)
  have 1: "same_outcome T (MatchRowRestrict E r xs) (MatchRowRestrict E r ys)" using Cons.prems by simp
  have 2: "same_outcome T (MatchOr E rs as) (MatchOr E rs bs) \<and> same_outcome T (MatchAnd E rs as) (MatchAnd E rs bs)"
    if "drops T as bs" for as bs
    by (rule Cons.IH) (use Cons.prems(1) that in simp_all)
  show ?case
  proof (cases "MatchRowRestrict E r xs")
    case None
    then show ?thesis using 1 by simp
  next
    case (Some q)
    obtain x as where q: "q = (x, as)" by (cases q)
    then obtain bs where "MatchRowRestrict E r ys = Some (x, bs)" "drops T as bs" using 1 Some by auto
    then show ?thesis using Some q 2 by (cases x) simp_all
  qed
qed simp

lemma needed_columns:
  assumes "GetRestrictPropTagsRecursive (unicode E) r l = Some (Inr ts)" "set ts \<subseteq> T" "no_anr_regex r" "drops T xs ys"
  shows "same_outcome T (MatchRowRestrict E r xs) (MatchRowRestrict E r ys)"
  using assms
proof (induction r arbitrary: l ts xs ys)
  case (RES_AND rs)
  have t: "TagsOfList (unicode E) rs (Suc l) = Some (Inr ts)" using RES_AND.prems(1) by (simp split: if_splits)
  have "same_outcome T (MatchRowRestrict E r as) (MatchRowRestrict E r bs)" if r: "r \<in> set rs" and d: "drops T as bs" for r as bs
    using tags_list [OF t r] RES_AND.IH [OF r _ _ _ d] RES_AND.prems(2,3) r by auto
  then show ?case using same_outcome_list [of rs T E xs ys] RES_AND.prems(4) by simp
next
  case (RES_OR rs)
  have t: "TagsOfList (unicode E) rs (Suc l) = Some (Inr ts)" using RES_OR.prems(1) by (simp split: if_splits)
  have "same_outcome T (MatchRowRestrict E r as) (MatchRowRestrict E r bs)" if r: "r \<in> set rs" and d: "drops T as bs" for r as bs
    using tags_list [OF t r] RES_OR.IH [OF r _ _ _ d] RES_OR.prems(2,3) r by auto
  then show ?case using same_outcome_list [of rs T E xs ys] RES_OR.prems(4) by simp
next
  case (RES_NOT r)
  then have "same_outcome T (MatchRowRestrict E r xs) (MatchRowRestrict E r ys)" by (auto split: if_splits)
  then show ?case by (cases "MatchRowRestrict E r xs"; cases "MatchRowRestrict E r ys") auto
next
  case (RES_COMMENT r)
  then show ?case by (auto split: if_splits)
next
  case (RES_CONTENT fz tag v)
  then show ?case by (auto intro!: same_outcome_pure simp: drops_content split: option.split if_splits)
next
  case (RES_PROPERTY rel tag v)
  show ?case
  proof (cases v)
    case None
    then show ?thesis using RES_PROPERTY.prems(4) by simp
  next
    case (Some p)
    have "same_outcome T (match_property E xs rel tag p) (match_property E ys rel tag p)"
      by (rule drops_property) (use RES_PROPERTY.prems Some in \<open>auto split: if_splits\<close>)
    then show ?thesis using Some by simp
  qed
next
  case (RES_COMPAREPROPS rel tag1 tag2)
  then show ?case by (auto intro!: same_outcome_pure simp: drops_compareprops split: if_splits)
next
  case (RES_BITMASK z tag m)
  then show ?case by (auto intro!: same_outcome_pure simp: drops_bitmask split: if_splits)
next
  case (RES_SIZE rel tag cb)
  then show ?case by (auto intro!: same_outcome_pure simp: drops_size split: if_splits)
next
  case (RES_EXIST tag)
  then have "tag \<in> T" by (auto split: if_splits)
  then show ?case using drops_find [OF RES_EXIST.prems(4), of tag] RES_EXIST.prems(4) by auto
next
  case RES_SUBRESTRICTION
  then show ?case by (auto intro!: same_outcome_pure simp: drops_sub split: if_splits)
qed (auto split: if_splits)

text \<open>
  C9: The columns that GetRestrictPropTags collects are enough: a restriction evaluates to the same
  verdict or error on a row and on the row cut down to the columns that the collected tags find. A
  regular expression on PR_ANR is excepted.
\<close>

theorem needed_columns_suffice:
  assumes "GetRestrictPropTags (unicode E) r pre = Some (Inr ts)" "no_anr_regex r"
  shows "map_option fst (MatchRowRestrict E r (filter (\<lambda>p. \<exists>t \<in> set ts. tag_matches t p) row)) =
    map_option fst (MatchRowRestrict E r row)"
proof -
  obtain us where u: "GetRestrictPropTagsRecursive (unicode E) r 0 = Some (Inr us)"
      "ts = (case pre of None \<Rightarrow> [] | Some ps \<Rightarrow> ps) @ remdups_adj (sort us)"
    using assms(1) by (auto simp: GetRestrictPropTags_def simp del: GetRestrictPropTagsRecursive.simps split: option.splits sum.splits)
  then have "set us \<subseteq> set ts" by auto
  then have "same_outcome (set ts) (MatchRowRestrict E r row)
      (MatchRowRestrict E r (filter (\<lambda>p. \<exists>t \<in> set ts. tag_matches t p) row))"
    using needed_columns [OF u(1) _ assms(2) drops_filter] by blast
  then show ?thesis by (cases "MatchRowRestrict E r row") auto
qed

section \<open>Boolean laws\<close>

lemma MatchOr_not:
  "MatchOr E (map RES_NOT rs) row = map_option (\<lambda>(x, row). (map_sum id Not x, row)) (MatchAnd E rs row)"
proof (induction rs arbitrary: row)
  case (Cons r rs)
  show ?case
  proof (cases "MatchRowRestrict E r row")
    case (Some q)
    obtain x row' where "q = (x, row')" by (cases q)
    then show ?thesis using Some Cons.IH by (cases x) auto
  qed simp
qed simp

text \<open>
  Negation obeys De Morgan's law exactly: the negation of a conjunction and the disjunction of
  the negations have the same verdict, the same error, the same undefined cases and the same effect
  on the row, with the same conditions evaluated in the same order.
\<close>

lemma de_morgan: "MatchRowRestrict E (RES_NOT (RES_AND rs)) row = MatchRowRestrict E (RES_OR (map RES_NOT rs)) row"
  by (simp add: MatchOr_not)

section \<open>Sub restrictions\<close>

lemma first_sub_result:
  fixes E :: matchenv and S :: "uint32 set" and Ss :: "uint32 set list"
  defines "E1 \<equiv> E\<lparr>lpSubResults := Some (S # Ss)\<rparr>" and "E2 \<equiv> E\<lparr>lpSubResults := Some [S]\<rparr>"
  shows "MatchRowRestrict E1 r row = MatchRowRestrict E2 r row"
proof -
  have fs: "unicode E1 = unicode E2" "u8 E1 = u8 E2" "regcomp E1 = regcomp E2"
    "GetObjectFromEntryId E1 = GetObjectFromEntryId E2" by (simp_all add: E1_def E2_def)
  have anr: "match_anr E1 rel p ts c row = match_anr E2 rel p ts c row" for rel p ts c row
    by (induction ts arbitrary: c row) (simp_all add: fs Let_def split: option.split)
  have pr: "match_property E1 row rel tag p = match_property E2 row rel tag p" for row rel tag p
    unfolding match_property_def match_regex_def match_compare_def fs anr by (rule refl)
  have co: "match_content E1 row fz tag p = match_content E2 row fz tag p" for row fz tag p
    unfolding match_content_def fs by (rule refl)
  have cp: "match_compareprops E1 row rel tag tag' = match_compareprops E2 row rel tag tag'" for row rel tag tag'
    unfolding match_compareprops_def fs by (rule refl)
  have su: "match_sub E1 row = match_sub E2 row" for row
    unfolding match_sub_def fs Let_def by (simp add: E1_def E2_def cong: option.case_cong if_cong sum.case_cong)
  have "(\<forall>row. MatchRowRestrict E1 r row = MatchRowRestrict E2 r row)" for r
  proof (induction r)
    case (RES_AND rs)
    then have "MatchAnd E1 rs row = MatchAnd E2 rs row" for row
      by (induction rs arbitrary: row) (simp_all split: option.split prod.split sum.split)
    then show ?case by simp
  next
    case (RES_OR rs)
    then have "MatchOr E1 rs row = MatchOr E2 rs row" for row
      by (induction rs arbitrary: row) (simp_all split: option.split prod.split sum.split)
    then show ?case by simp
  qed (simp_all add: pr co cp su split: option.split)
  then show ?thesis by blast
qed

text \<open>
  Of the result sets of several sub restrictions only the first is ever consulted: the second and
  later sub restrictions of a restriction are decided by the results of the first.
\<close>

lemma only_first_sub_result:
  "MatchRowRestrict (E\<lparr>lpSubResults := Some (S # Ss)\<rparr>) r row = MatchRowRestrict (E\<lparr>lpSubResults := Some [S]\<rparr>) r row"
  by (rule first_sub_result)

section \<open>Columns written by an ambiguous name\<close>

definition demo_ops :: u8ops where
  "demo_ops = \<lparr>u8_equals = (=), u8_iequals = (=), u8_startswith = (\<lambda>s t. take (length t) s = t),
     u8_istartswith = (\<lambda>s t. take (length t) s = t), u8_contains = (=), u8_icontains = (=), u8_icompare = bytecmp\<rparr>"

definition demo_match :: matchenv where
  "demo_match = \<lparr>unicode = True, u8 = demo_ops, regcomp = (\<lambda>_. None), GetObjectFromEntryId = (\<lambda>_. Inl KCERR_NOT_FOUND),
     lpSubResults = None\<rparr>"

text \<open>A row with the display name Bob, the ambiguous name B, and the two conditions.\<close>

definition demo_name_row :: row where
  "demo_name_row = [\<lparr>ulPropTag = 0x3001001F, Value = V_lpszA (Some [66, 111, 98])\<rparr>]"

definition anr_b :: restriction where
  "anr_b = RES_PROPERTY RELOP_EQ 0x360C001F (Some \<lparr>ulPropTag = 0x360C001F, Value = V_lpszA (Some [66])\<rparr>)"

definition has_name :: restriction where "has_name = RES_EXIST 0x3001001F"

text \<open>
  Matching an ambiguous name overwrites the tag of the columns it looks at, so conjunction is not
  commutative: on a row whose display name matches the ambiguous name, the condition that there is
  a display name holds before the ambiguous name has been matched and fails after it.
\<close>

lemma ambiguous_name_hides_column:
  "map_option fst (MatchRowRestrict demo_match (RES_AND [has_name, anr_b]) demo_name_row) = Some (Inr True)
   \<and> map_option fst (MatchRowRestrict demo_match (RES_AND [anr_b, has_name]) demo_name_row) = Some (Inr False)"
  by code_simp

section \<open>The depth limit\<close>

fun depth :: "restriction \<Rightarrow> nat" where
  "depth (RES_AND rs) = Max (insert 0 ((\<lambda>r. Suc (depth r)) ` set rs))"
| "depth (RES_OR rs) = Max (insert 0 ((\<lambda>r. Suc (depth r)) ` set rs))"
| "depth (RES_NOT r) = Suc (depth r)"
| "depth (RES_COMMENT r) = Suc (depth r)"
| "depth _ = 0"

text \<open>No null pointers where the collection follows them.\<close>

fun no_nulls :: "restriction \<Rightarrow> bool" where
  "no_nulls RES_NULLPTR = False"
| "no_nulls RES_MISSING = False"
| "no_nulls (RES_AND rs) = (\<forall>r \<in> set rs. no_nulls r)"
| "no_nulls (RES_OR rs) = (\<forall>r \<in> set rs. no_nulls r)"
| "no_nulls (RES_NOT r) = no_nulls r"
| "no_nulls (RES_COMMENT r) = no_nulls r"
| "no_nulls (RES_PROPERTY _ tag v) = (PROP_ID tag = PR_ANR_ID \<or> v \<noteq> None)"
| "no_nulls _ = True"

text \<open>What collecting tags can return for a tree of the given depth at a level.\<close>

definition limited :: "nat \<Rightarrow> nat \<Rightarrow> (ecresult + uint32 list) option \<Rightarrow> bool" where
  "limited d l r \<longleftrightarrow> (if l + d \<le> RESTRICT_MAX_DEPTH then \<exists>ts. r = Some (Inr ts) else r = Some (Inl KCERR_TOO_COMPLEX))"

lemma limited_list:
  assumes "\<And>r. r \<in> set rs \<Longrightarrow> limited (depth r) l (GetRestrictPropTagsRecursive uc r l)"
  shows "if \<forall>r \<in> set rs. l + depth r \<le> RESTRICT_MAX_DEPTH then \<exists>ts. TagsOfList uc rs l = Some (Inr ts)
    else TagsOfList uc rs l = Some (Inl KCERR_TOO_COMPLEX)"
  using assms
proof (induction rs)
  case (Cons r rs)
  have r: "limited (depth r) l (GetRestrictPropTagsRecursive uc r l)" using Cons.prems by simp
  have rs: "if \<forall>r \<in> set rs. l + depth r \<le> RESTRICT_MAX_DEPTH then \<exists>ts. TagsOfList uc rs l = Some (Inr ts)
    else TagsOfList uc rs l = Some (Inl KCERR_TOO_COMPLEX)" using Cons.IH Cons.prems by simp
  show ?case
  proof (cases "l + depth r \<le> RESTRICT_MAX_DEPTH")
    case True
    then obtain ts where "GetRestrictPropTagsRecursive uc r l = Some (Inr ts)" using r by (auto simp: limited_def)
    then show ?thesis using rs True by (auto simp del: GetRestrictPropTagsRecursive.simps split: if_splits)
  next
    case False
    then show ?thesis using r by (simp add: limited_def del: GetRestrictPropTagsRecursive.simps)
  qed
qed simp

lemma depth_list:
  "l + Max (insert 0 ((\<lambda>r. Suc (depth r)) ` set rs)) \<le> n \<longleftrightarrow> l \<le> n \<and> (\<forall>r \<in> set rs. Suc l + depth r \<le> n)"
  for rs :: "restriction list"
proof -
  let ?M = "Max (insert 0 ((\<lambda>r. Suc (depth r)) ` set rs))"
  have "?M \<le> m \<longleftrightarrow> (\<forall>r \<in> set rs. Suc (depth r) \<le> m)" for m
    by (subst Max_le_iff) auto
  moreover have "l + ?M \<le> n \<longleftrightarrow> l \<le> n \<and> ?M \<le> n - l" by arith
  ultimately show ?thesis by (auto simp: le_diff_conv2 add.commute)
qed

lemma depth_limited: "no_nulls r \<Longrightarrow> limited (depth r) l (GetRestrictPropTagsRecursive uc r l)"
proof (induction r arbitrary: l)
  case (RES_AND rs)
  have "if \<forall>r \<in> set rs. Suc l + depth r \<le> RESTRICT_MAX_DEPTH then \<exists>ts. TagsOfList uc rs (Suc l) = Some (Inr ts)
    else TagsOfList uc rs (Suc l) = Some (Inl KCERR_TOO_COMPLEX)"
    by (rule limited_list) (use RES_AND in auto)
  then show ?case unfolding limited_def depth.simps depth_list by (auto split: if_splits)
next
  case (RES_OR rs)
  have "if \<forall>r \<in> set rs. Suc l + depth r \<le> RESTRICT_MAX_DEPTH then \<exists>ts. TagsOfList uc rs (Suc l) = Some (Inr ts)
    else TagsOfList uc rs (Suc l) = Some (Inl KCERR_TOO_COMPLEX)"
    by (rule limited_list) (use RES_OR in auto)
  then show ?case unfolding limited_def depth.simps depth_list by (auto split: if_splits)
next
  case (RES_NOT r)
  then show ?case using RES_NOT.IH [of "Suc l"] by (auto simp: limited_def)
next
  case (RES_COMMENT r)
  then show ?case using RES_COMMENT.IH [of "Suc l"] by (auto simp: limited_def)
qed (auto simp: limited_def)

text \<open>
  C11: A tree without null pointers is refused as too complex exactly when it is nested more than 16
  levels deep; otherwise its tags are collected.
\<close>

theorem too_deep_is_refused:
  assumes "no_nulls r"
  shows "if depth r \<le> 16 then \<exists>ts. GetRestrictPropTags uc r pre = Some (Inr ts)
    else GetRestrictPropTags uc r pre = Some (Inl KCERR_TOO_COMPLEX)"
  using depth_limited [OF assms, of 0 uc]
  by (auto simp: limited_def RESTRICT_MAX_DEPTH_def GetRestrictPropTags_def simp del: GetRestrictPropTagsRecursive.simps
      split: if_splits)

section \<open>Searching a block\<close>

definition occurs_at :: "bytes \<Rightarrow> bytes \<Rightarrow> nat \<Rightarrow> bool" where
  "occurs_at n h s \<longleftrightarrow> take (length n) (drop s h) = n"

lemma occurs_at_mismatch:
  assumes "m < length n" "s + m < length h" "h ! (s + m) \<noteq> n ! m"
  shows "\<not> occurs_at n h s"
proof
  assume "occurs_at n h s"
  then have "take (length n) (drop s h) ! m = n ! m" by (simp add: occurs_at_def)
  then show False using assms by simp
qed

lemma occurs_at_bound: "occurs_at n h s \<Longrightarrow> n \<noteq> [] \<Longrightarrow> s + length n \<le> length h"
  unfolding occurs_at_def by (drule arg_cong [of _ _ length]) (cases "length n"; auto)

lemma memsubstr_loop_ok:
  assumes "m < length n" "m \<le> pos" "pos \<le> length h" "take m (drop (pos - m) h) = take m n" "\<forall>s < pos - m. \<not> occurs_at n h s"
  shows "memsubstr_loop h n pos m = Some (if \<exists>s. occurs_at n h s then 0 else 1)"
  using assms
proof (induction h n pos m rule: memsubstr_loop.induct)
  case (1 h n pos m)
  have b: "nth_opt n m = Some (n ! m)" using 1(3) by (simp add: nth_opt_def)
  show ?case
  proof (cases "pos < length h")
    case False
    then have p: "pos = length h" using 1(5) by simp
    have "\<not> occurs_at n h s" for s
    proof
      assume o: "occurs_at n h s"
      then have "s + length n \<le> length h" using occurs_at_bound 1(3) by fastforce
      then have "s < pos - m" using p 1(3) by linarith
      then show False using 1(7) o by blast
    qed
    then show ?thesis using False by (simp add: memsubstr_loop.simps [of h n pos m])
  next
    case pos: True
    show ?thesis
    proof (cases "h ! pos = n ! m")
      case eq: True
      have "take (Suc m) (drop (pos - m) h) = take m (drop (pos - m) h) @ [h ! pos]"
        using pos 1(4) by (subst take_Suc_conv_app_nth) auto
      also have "\<dots> = take (Suc m) n" using 1(3,6) eq by (simp add: take_Suc_conv_app_nth)
      finally have t: "take (Suc m) (drop (pos - m) h) = take (Suc m) n" .
      show ?thesis
      proof (cases "Suc m = length n")
        case True
        then have "occurs_at n h (pos - m)" using t by (simp add: occurs_at_def)
        then show ?thesis using pos eq b True by (auto simp: memsubstr_loop.simps [of h n pos m])
      next
        case False
        then have "memsubstr_loop h n (Suc pos) (Suc m) = Some (if \<exists>s. occurs_at n h s then 0 else 1)"
          using 1(1) [OF pos b eq False] 1(3,4,5,7) t pos by simp
        then show ?thesis using pos eq b False by (simp add: memsubstr_loop.simps [of h n pos m])
      qed
    next
      case False
      have "\<not> occurs_at n h (pos - m)"
        by (rule occurs_at_mismatch [of m]) (use 1(3,4) pos False in auto)
      then have "\<forall>s < Suc (pos - m). \<not> occurs_at n h s" using 1(7) less_Suc_eq by auto
      then have "memsubstr_loop h n (Suc (pos - m)) 0 = Some (if \<exists>s. occurs_at n h s then 0 else 1)"
        using 1(2) [OF pos b False] 1(3,4) pos by (cases n) auto
      then show ?thesis using pos False b by (simp add: memsubstr_loop.simps [of h n pos m])
    qed
  qed
qed

text \<open>
  memsubstr on a needle of at least one byte never reads out of range and returns 0 exactly when
  the needle occurs in the haystack as a contiguous run of bytes (blocks below 2 GB).
\<close>

lemma memsubstr_finds:
  assumes "n \<noteq> []" "length n < 2 ^ 31"
  shows "\<exists>r. memsubstr h n = Some r \<and> (r = 0 \<longleftrightarrow> (\<exists>as bs. h = as @ n @ bs))"
proof -
  have occ: "(\<exists>s. occurs_at n h s) \<longleftrightarrow> (\<exists>as bs. h = as @ n @ bs)"
  proof
    assume "\<exists>s. occurs_at n h s"
    then obtain s where "take (length n) (drop s h) = n" by (auto simp: occurs_at_def)
    then have "h = take s h @ n @ drop (length n) (drop s h)" by (metis append_take_drop_id)
    then show "\<exists>as bs. h = as @ n @ bs" by blast
  next
    assume "\<exists>as bs. h = as @ n @ bs"
    then obtain as bs where "h = as @ n @ bs" by blast
    then have "occurs_at n h (length as)" by (simp add: occurs_at_def)
    then show "\<exists>s. occurs_at n h s" by blast
  qed
  show ?thesis
  proof (cases "length h < length n")
    case True
    then have "of_nat (length h) - of_nat (length n) \<noteq> (0 :: 32 word)"
      using assms(2) by (simp add: word_of_nat_eq_iff take_bit_nat_eq_self)
    then have "sint (of_nat (length h) - of_nat (length n) :: 32 word) \<noteq> 0" by (simp only: signed_eq_0_iff not_False_eq_True simp_thms)
    moreover have "\<not> (\<exists>as bs. h = as @ n @ bs)" using True by auto
    ultimately show ?thesis using True by (simp add: memsubstr_def)
  next
    case False
    have "memsubstr_loop h n 0 0 = Some (if \<exists>s. occurs_at n h s then 0 else 1)"
      by (rule memsubstr_loop_ok) (use assms(1) in auto)
    then show ?thesis using False occ by (simp add: memsubstr_def)
  qed
qed

section \<open>Sort keys and comparison\<close>

text \<open>Big endian digits.\<close>

fun digits :: "nat \<Rightarrow> nat \<Rightarrow> bytes" where
  "digits 0 x = []"
| "digits (Suc n) x = digits n (x div 256) @ [of_nat x]"

lemma length_digits [simp]: "length (digits n x) = n"
  by (induction n arbitrary: x) auto

lemma memcmp_snoc:
  "length xs = length ys \<Longrightarrow> memcmp (xs @ [a]) (ys @ [b]) =
     (if memcmp xs ys \<noteq> 0 then memcmp xs ys else if a < b then - 1 else if b < a then 1 else 0)"
  by (induction xs ys rule: list_induct2) auto

lemma byte_less: "(of_nat x :: byte) < of_nat y \<longleftrightarrow> x mod 256 < y mod 256"
  by (simp add: word_less_nat_alt unat_of_nat)

lemma less_div_mod: "x < y \<longleftrightarrow> x div b < y div b \<or> (x div b = y div b \<and> x mod b < y mod b)" for x y b :: nat
proof (cases "x div b" "y div b" rule: linorder_cases)
  case less
  then show ?thesis by (metis div_le_mono not_le)
next
  case equal
  then show ?thesis by (metis div_mult_mod_eq nat_add_left_cancel_less less_irrefl)
next
  case greater
  then show ?thesis by (metis div_le_mono less_imp_le_nat not_le order_less_irrefl)
qed

lemma eq_div_mod: "x = y \<longleftrightarrow> x div b = y div b \<and> x mod b = y mod b" for x y b :: nat
  by (metis div_mult_mod_eq)

lemma memcmp_digits: "x < 256 ^ n \<Longrightarrow> y < 256 ^ n \<Longrightarrow> memcmp (digits n x) (digits n y) = twcmp x y"
proof (induction n arbitrary: x y)
  case (Suc n)
  have "x div 256 < 256 ^ n" "y div 256 < 256 ^ n" using Suc.prems by (simp_all add: less_mult_imp_div_less mult.commute)
  then have m: "memcmp (digits n (x div 256)) (digits n (y div 256)) = twcmp (x div 256) (y div 256)" by (rule Suc.IH)
  show ?case
    unfolding digits.simps memcmp_snoc [OF trans [OF length_digits length_digits [symmetric]]] m byte_less twcmp_def
      less_div_mod [of x y 256] eq_div_mod [of x y 256]
    by (simp add: linorder_neq_iff)
qed (simp add: twcmp_def)

lemma digit_of_word: "(ucast (drop_bit k w) :: byte) = of_nat (unat w div 2 ^ k)" for w :: "'a::len word"
proof -
  have "unat w div 2 ^ k = unat (drop_bit k w)" unfolding unat_drop_bit_eq by (rule drop_bit_eq_div [symmetric])
  then show ?thesis by (simp only: of_nat_unat)
qed

lemma digits_4: "digits 4 x = [of_nat (x div 2 ^ 24), of_nat (x div 2 ^ 16), of_nat (x div 2 ^ 8), of_nat x]"
proof -
  have "digits 4 x = digits (Suc (Suc (Suc (Suc 0)))) x" by (simp only: numeral_eq_Suc pred_numeral_simps BitM.simps)
  then show ?thesis by (simp add: div_mult2_eq [symmetric])
qed

lemma be32_digits: "be32 w = digits 4 (unat w)"
  by (simp add: be32_def digits_4 digit_of_word [of 24] digit_of_word [of 16] digit_of_word [of 8] digit_of_word [of 0, simplified])

lemma unat_32: "unat (w :: 32 word) < 256 ^ 4"
  using unsigned_less [of w] by simp

lemma memcmp_be32: "memcmp (be32 a) (be32 b) = twcmp a b"
  by (simp add: be32_digits memcmp_digits [OF unat_32 unat_32] twcmp_def word_less_nat_alt word_unat_eq_iff)

lemma memcmp_append:
  "length xs = length ys \<Longrightarrow> memcmp (xs @ us) (ys @ vs) = (if memcmp xs ys \<noteq> 0 then memcmp xs ys else memcmp us vs)"
  by (induction xs ys rule: list_induct2) auto

lemma length_be32 [simp]: "length (be32 w) = 4"
  by (simp add: be32_def)

lemma memcmp_be64:
  "memcmp (be32 a @ be32 b) (be32 c @ be32 d) = (if a = c then twcmp b d else twcmp a c)"
  by (simp add: memcmp_append memcmp_be32) (simp add: twcmp_def)

lemma sint_nonneg: "0 \<le>s x \<Longrightarrow> sint x = uint x" for x :: "'a::len word"
proof -
  assume "0 \<le>s x"
  then have "0 \<le> sint x" by (simp add: word_sle_eq)
  moreover have "sint x < 2 ^ LENGTH('a)" using sint_lt [of x] by (rule less_le_trans) (rule power_increasing, simp_all)
  ultimately show ?thesis by (simp add: uint_sint take_bit_int_eq_self)
qed

lemma twcmp_sint: "0 \<le>s x \<Longrightarrow> 0 \<le>s y \<Longrightarrow> twcmp (sint x) (sint y) = twcmp x y" for x y :: "'a::len word"
  by (simp add: sint_nonneg twcmp_def word_less_def word_uint_eq_iff)

lemma halves_unat:
  "unat (ucast (drop_bit 32 x) :: 32 word) = unat x div 2 ^ 32" "unat (ucast x :: 32 word) = unat x mod 2 ^ 32"
  for x :: "64 word"
proof -
  have "unat x < 2 ^ 64" using unsigned_less [of x] by simp
  then have "unat x div 2 ^ 32 < 2 ^ 32" by (simp add: less_mult_imp_div_less)
  moreover have "unat (drop_bit 32 x) = unat x div 2 ^ 32" unfolding unat_drop_bit_eq by (rule drop_bit_eq_div)
  ultimately show "unat (ucast (drop_bit 32 x) :: 32 word) = unat x div 2 ^ 32"
    by (simp add: unsigned_ucast_eq take_bit_eq_mod)
  show "unat (ucast x :: 32 word) = unat x mod 2 ^ 32"
    by (simp add: unsigned_ucast_eq take_bit_eq_mod)
qed

lemma twcmp_lex:
  "(x < y) = (P \<or> (E \<and> Q)) \<Longrightarrow> (x = y) = (E \<and> F) \<Longrightarrow> (a < b) = P \<Longrightarrow> (a = b) = E \<Longrightarrow> (c < d) = Q \<Longrightarrow>
    (c = d) = F \<Longrightarrow> (if a = b then twcmp c d else twcmp a b) = twcmp x y"
  by (auto simp: twcmp_def)

lemma twcmp_halves:
  "(if (ucast (drop_bit 32 x) :: 32 word) = ucast (drop_bit 32 y) then twcmp (ucast x :: 32 word) (ucast y)
    else twcmp (ucast (drop_bit 32 x) :: 32 word) (ucast (drop_bit 32 y))) = twcmp x y"
  for x y :: "64 word"
proof -
  have "x < y \<longleftrightarrow> unat x div 2 ^ 32 < unat y div 2 ^ 32 \<or>
      (unat x div 2 ^ 32 = unat y div 2 ^ 32 \<and> unat x mod 2 ^ 32 < unat y mod 2 ^ 32)"
    unfolding word_less_nat_alt by (rule less_div_mod)
  moreover have "x = y \<longleftrightarrow> unat x div 2 ^ 32 = unat y div 2 ^ 32 \<and> unat x mod 2 ^ 32 = unat y mod 2 ^ 32"
    unfolding word_unat_eq_iff by (rule eq_div_mod)
  moreover have "(ucast (drop_bit 32 x) :: 32 word) < ucast (drop_bit 32 y) \<longleftrightarrow> unat x div 2 ^ 32 < unat y div 2 ^ 32"
    "(ucast (drop_bit 32 x) :: 32 word) = ucast (drop_bit 32 y) \<longleftrightarrow> unat x div 2 ^ 32 = unat y div 2 ^ 32"
    "(ucast x :: 32 word) < ucast y \<longleftrightarrow> unat x mod 2 ^ 32 < unat y mod 2 ^ 32"
    "(ucast x :: 32 word) = ucast y \<longleftrightarrow> unat x mod 2 ^ 32 = unat y mod 2 ^ 32"
    unfolding word_less_nat_alt word_unat_eq_iff halves_unat(1) [of x] halves_unat(1) [of y] halves_unat(2) [of x] halves_unat(2) [of y]
    by (rule refl)+
  ultimately show ?thesis by (rule twcmp_lex)
qed

lemma ptype_binary: "PROP_TYPE tag = PT_BINARY \<Longrightarrow> ptype tag = T_BINARY"
  by (simp add: ptype_def base_type_def Let_def PT_BINARY_def MV_FLAG_def PT_I2_def PT_LONG_def PT_R4_def PT_DOUBLE_def PT_CURRENCY_def
      PT_APPTIME_def PT_BOOLEAN_def PT_I8_def PT_STRING8_def PT_UNICODE_def PT_SYSTIME_def PT_CLSID_def)

lemma PROP_TYPE_ABEID: "PROP_TYPE PR_ADDRESS_BOOK_ENTRYID = PT_BINARY"
  by (simp add: PROP_TYPE_def PR_ADDRESS_BOOK_ENTRYID_def PT_BINARY_def)

lemma CompareProp_values:
  assumes "CompareProp uc U p q = Some (Inr c)" "ptype (ulPropTag p) \<noteq> T_BINARY"
  shows "compare_values U (ptype (ulPropTag p)) (PROP_ID (ulPropTag q) = PR_ANR_ID) (Value p) (Value q) = Some (Inr c)"
proof -
  have "PROP_TYPE (ulPropTag p) \<noteq> PT_BINARY" using assms(2) ptype_binary by blast
  moreover from this have "ulPropTag p \<noteq> PR_ADDRESS_BOOK_ENTRYID" using PROP_TYPE_ABEID by auto
  ultimately show ?thesis using assms(1) unfolding CompareProp_def
    by (auto simp: bind_Some_iff split: if_splits)
qed

text \<open>Signed values that are not negative.\<close>

fun nonneg :: "propdata \<Rightarrow> bool" where
  "nonneg (V_li x) = (0 \<le>s x)"
| "nonneg (V_hilo (Some h)) = (0 \<le>s hilo_hi h)"
| "nonneg _ = True"

lemma get_Some:
  "get_ul v = Some x \<longleftrightarrow> v = V_ul x" "get_b v = Some b \<longleftrightarrow> v = V_b b"
  "get_hilo v = Some h \<longleftrightarrow> v = V_hilo (Some h)" "get_li v = Some l \<longleftrightarrow> v = V_li l"
  by (cases v; auto)+

text \<open>
  C12: For PT_LONG, PT_BOOLEAN, PT_SYSTIME and PT_I8 the table engine orders rows the way restrictions
  compare values: when two values have the same tag of one of these types, are not negative, and both the
  comparison and the sort keys are computed, comparing the keys under the flags of the tag gives the result of
  CompareProp. The other types are not covered: PT_I2 is cut to its low byte, PT_CURRENCY has an empty key,
  and negative values come after positive ones.
\<close>

theorem sort_keys_agree:
  assumes "ulPropTag p = ulPropTag q" "ptype (ulPropTag p) \<in> {T_LONG, T_BOOLEAN, T_SYSTIME, T_I8}"
    and "nonneg (Value p)" "nonneg (Value q)" "CompareProp uc U p q = Some (Inr c)"
    and "GetBinarySortKey db col p = Some (Inr k1)" "GetBinarySortKey db col q = Some (Inr k2)"
  shows "colcompare ck (GetSortFlags (ulPropTag p)) k1 k2 = c"
proof -
  have v: "compare_values U (ptype (ulPropTag p)) (PROP_ID (ulPropTag q) = PR_ANR_ID) (Value p) (Value q) = Some (Inr c)"
    by (rule CompareProp_values [OF assms(5)]) (use assms(2) in auto)
  have f: "colcompare ck (GetSortFlags (ulPropTag p)) k1 k2 = memcmp k1 k2"
    using assms(2) by (auto simp: GetSortFlags_def colcompare_def)
  consider (long) "ptype (ulPropTag p) = T_LONG" | (bool) "ptype (ulPropTag p) = T_BOOLEAN"
    | (time) "ptype (ulPropTag p) = T_SYSTIME" | (i8) "ptype (ulPropTag p) = T_I8" using assms(2) by blast
  then show ?thesis
  proof cases
    case long
    then show ?thesis using v f assms(1,6,7)
      by (auto simp: compare_values_def GetBinarySortKey_def bind_Some_iff memcmp_be32)
  next
    case bool
    then obtain a b where "Value p = V_b a" "Value q = V_b b" "c = twcmp a b"
      using v by (auto simp: compare_values_def bind_Some_iff get_Some)
    then show ?thesis using f assms(1,6,7) bool
      by (cases a; cases b) (auto simp: GetBinarySortKey_def read_b_def be16_def twcmp_def)
  next
    case time
    then obtain a b where ab: "Value p = V_hilo (Some a)" "Value q = V_hilo (Some b)" "c = cmp_hilo a b"
      using v by (auto simp: compare_values_def bind_Some_iff get_Some)
    then have "0 \<le>s hilo_hi a" "0 \<le>s hilo_hi b" using assms(3,4) by auto
    then have "cmp_hilo a b = memcmp (be32 (hilo_hi a) @ be32 (hilo_lo a)) (be32 (hilo_hi b) @ be32 (hilo_lo b))"
      unfolding memcmp_be64 cmp_hilo_def by (auto simp: twcmp_sint) (auto simp: twcmp_def)
    then show ?thesis using ab f assms(1,6,7) time by (auto simp: GetBinarySortKey_def)
  next
    case i8
    then obtain a b where ab: "Value p = V_li a" "Value q = V_li b" "c = twcmp (sint a) (sint b)"
      using v by (auto simp: compare_values_def bind_Some_iff get_Some)
    then have "c = twcmp a b" using assms(3,4) by (simp add: twcmp_sint)
    then show ?thesis using ab f assms(1,6,7) i8
      by (auto simp: GetBinarySortKey_def memcmp_be64 twcmp_halves)
  qed
qed

section \<open>Multi-valued comparisons\<close>

lemma low_half_eq: "uint (ucast x :: 32 word) = sint x \<longleftrightarrow> 0 \<le> sint x \<and> sint x < 2 ^ 32" for x :: "64 word"
proof -
  have u: "uint (ucast x :: 32 word) = take_bit 32 (sint x)"
  proof -
    have "uint (ucast x :: 32 word) = take_bit 32 (uint x)" by (simp add: unsigned_ucast_eq)
    also have "\<dots> = take_bit 32 (sint x)" by (simp add: uint_sint)
    finally show ?thesis .
  qed
  have "take_bit 32 k = k \<longleftrightarrow> 0 \<le> k \<and> k < 2 ^ 32" for k :: int
    by (rule take_bit_int_eq_self_iff)
  then show ?thesis using u by simp
qed

text \<open>
  A multi-valued 64 bit property with the one element x matches the condition to be equal to x
  only when x lies between 0 and 2^32 - 1: the comparison reads the elements as 32 bit numbers.
\<close>

lemma mv_i8_reads_low_half:
  "CompareMVPropWithProp U \<lparr>ulPropTag = 0x80001014, Value = V_mvli [x]\<rparr> \<lparr>ulPropTag = 0x80000014, Value = V_li x\<rparr> RELOP_EQ =
     Some (Inr (0 \<le> sint x \<and> sint x < 2 ^ 32))"
proof -
  have t: "ptype 0x80001014 = MV T_I8" "ptype 0x80000014 = T_I8"
    "PROP_TYPE 0x80001014 AND NOT MV_FLAG = PROP_TYPE 0x80000014" "PROP_TYPE 0x80001014 AND MV_FLAG \<noteq> 0"
    by code_simp+
  have "MVPropProxy_compare U \<lparr>ulPropTag = 0x80001014, Value = V_mvli [x]\<rparr> 0 \<lparr>ulPropTag = 0x80000014, Value = V_li x\<rparr> =
      Some (Inr (twcmp (uint (ucast x :: 32 word)) (sint x)))"
    by (simp add: MVPropProxy_compare_def MVPropProxy_size_def t as_mvl_def nth_opt_def)
  moreover have "twcmp (uint (ucast x :: 32 word)) (sint x) = 0 \<longleftrightarrow> uint (ucast x :: 32 word) = sint x"
    by (simp add: twcmp_def)
  ultimately show ?thesis
    unfolding low_half_eq
    by (simp add: CompareMVPropWithProp_def PropCheck_def MVPropProxy_size_def t mv_any.simps [of _ _ _ _ "Suc 0"])
qed

text \<open>
  Two multi-valued times of different lengths compare as equal, whatever their values are.
\<close>

lemma mv_times_ignore_length:
  assumes "length xs \<noteq> length ys"
  shows "CompareProp uc U \<lparr>ulPropTag = 0x80001040, Value = V_mvhilo xs\<rparr> \<lparr>ulPropTag = 0x80001040, Value = V_mvhilo ys\<rparr> = Some (Inr 0)"
proof -
  have t: "ptype 0x80001040 = MV T_SYSTIME" "PROP_TYPE 0x80001040 \<noteq> PT_BINARY" "0x80001040 \<noteq> PR_ADDRESS_BOOK_ENTRYID"
    by code_simp+
  then show ?thesis using assms by (simp add: CompareProp_def PropCheck_def compare_values_def mv_cmp_hilo_def)
qed

section \<open>Instances\<close>

text \<open>A message with a subject and a size; the condition that the size is at least 100 and the subject is Hi.\<close>

definition demo_row :: row where
  "demo_row = [\<lparr>ulPropTag = 0x0037001F, Value = V_lpszA (Some [72, 105])\<rparr>,
     \<lparr>ulPropTag = 0x0E080003, Value = V_ul 120\<rparr>, \<lparr>ulPropTag = 0x3001001F, Value = V_lpszA (Some [66])\<rparr>]"

definition demo_res :: restriction where
  "demo_res = RES_AND [RES_PROPERTY RELOP_GE 0x0E080003 (Some \<lparr>ulPropTag = 0x0E080003, Value = V_ul 100\<rparr>),
     RES_CONTENT FL_FULLSTRING 0x0037001F (Some \<lparr>ulPropTag = 0x0037001F, Value = V_lpszA (Some [72, 105])\<rparr>)]"

theorem needed_columns_suffice_witness:
  "map_option fst (MatchRowRestrict demo_match demo_res demo_row) = Some (Inr True) \<and>
   map_option fst (MatchRowRestrict demo_match demo_res
     (filter (\<lambda>p. \<exists>t \<in> set [0x0037001F, 0x0E080003]. tag_matches t p) demo_row)) = Some (Inr True)"
proof -
  have "map_option fst (MatchRowRestrict demo_match demo_res demo_row) = Some (Inr True)" by code_simp
  moreover have "GetRestrictPropTags (unicode demo_match) demo_res None = Some (Inr [0x0037001F, 0x0E080003])" by code_simp
  moreover have "no_anr_regex demo_res" by code_simp
  ultimately show ?thesis using needed_columns_suffice [of demo_match demo_res None "[0x0037001F, 0x0E080003]" demo_row] by metis
qed

theorem too_deep_is_refused_witness:
  "(\<exists>ts. GetRestrictPropTags True ((RES_NOT ^^ 16) has_name) None = Some (Inr ts)) \<and>
   GetRestrictPropTags True ((RES_NOT ^^ 17) has_name) None = Some (Inl KCERR_TOO_COMPLEX)"
proof
  have "no_nulls ((RES_NOT ^^ 16) has_name)" "depth ((RES_NOT ^^ 16) has_name) = 16" by code_simp+
  then show "\<exists>ts. GetRestrictPropTags True ((RES_NOT ^^ 16) has_name) None = Some (Inr ts)"
    using too_deep_is_refused [of "(RES_NOT ^^ 16) has_name" True None] by simp
  have "no_nulls ((RES_NOT ^^ 17) has_name)" "depth ((RES_NOT ^^ 17) has_name) = 17" by code_simp+
  then show "GetRestrictPropTags True ((RES_NOT ^^ 17) has_name) None = Some (Inl KCERR_TOO_COMPLEX)"
    using too_deep_is_refused [of "(RES_NOT ^^ 17) has_name" True None] by simp
qed

theorem sort_keys_agree_witness:
  "colcompare (\<lambda>a b. 0) (GetSortFlags 0x30070040) [0, 0, 0, 1, 0, 0, 0, 9] [0, 0, 0, 2, 0, 0, 0, 3] = - 1"
proof (rule sort_keys_agree [where p = "\<lparr>ulPropTag = 0x30070040, Value = V_hilo (Some \<lparr>hilo_hi = 1, hilo_lo = 9\<rparr>)\<rparr>"
      and q = "\<lparr>ulPropTag = 0x30070040, Value = V_hilo (Some \<lparr>hilo_hi = 2, hilo_lo = 3\<rparr>)\<rparr>" and uc = True and U = demo_ops
      and db = "\<lambda>_. []" and col = "\<lambda>s. s", unfolded propval.simps])
qed (code_simp | simp)+

end
