(* ===== verification/Bytes.thy ===== *)
theory Bytes
  imports KPrelude
begin

text \<open>
  Memory as byte lists: copying, reading a range, allocation, and integers in the little endian
  byte order in which the code stores them by casting pointers or appending raw bytes.
\<close>

section \<open>Memory\<close>

definition memcpy :: "bytes \<Rightarrow> nat \<Rightarrow> bytes \<Rightarrow> bytes option" where
  "memcpy d i s = (if i + length s \<le> length d then Some (take i d @ s @ drop (i + length s) d) else None)"

definition chars_at :: "bytes \<Rightarrow> nat \<Rightarrow> nat \<Rightarrow> bytes option" where
  "chars_at s i n = (if i + n \<le> length s then Some (take n (drop i s)) else None)"

definition malloc :: "(nat \<Rightarrow> byte) \<Rightarrow> nat \<Rightarrow> bytes" where
  "malloc j n = map j [0..<n]"

definition le32 :: "uint32 \<Rightarrow> bytes" where
  "le32 w = [ucast w, ucast (drop_bit 8 w), ucast (drop_bit 16 w), ucast (drop_bit 24 w)]"

definition of_le32 :: "bytes \<Rightarrow> nat \<Rightarrow> uint32 option" where
  "of_le32 s i = do {
     b0 \<leftarrow> nth_opt s i; b1 \<leftarrow> nth_opt s (i + 1); b2 \<leftarrow> nth_opt s (i + 2); b3 \<leftarrow> nth_opt s (i + 3);
     Some (ucast b0 OR push_bit 8 (ucast b1) OR push_bit 16 (ucast b2) OR push_bit 24 (ucast b3))
   }"

definition le16 :: "16 word \<Rightarrow> bytes" where
  "le16 w = [ucast w, ucast (drop_bit 8 w)]"

definition of_le16 :: "bytes \<Rightarrow> nat \<Rightarrow> 16 word option" where
  "of_le16 s i = do { b0 \<leftarrow> nth_opt s i; b1 \<leftarrow> nth_opt s (i + 1); Some (ucast b0 OR push_bit 8 (ucast b1)) }"

lemma length_malloc [simp]: "length (malloc j n) = n"
  by (simp add: malloc_def)

lemma length_le [simp]: "length (le16 h) = 2" "length (le32 w) = 4"
  by (simp_all add: le16_def le32_def)

lemma of_le32_bytes: "of_le32 (p @ le32 w @ q) (length p) = Some w"
proof -
  have "(ucast (ucast w :: byte) :: uint32) OR push_bit 8 (ucast (ucast (drop_bit 8 w) :: byte)) OR
      push_bit 16 (ucast (ucast (drop_bit 16 w) :: byte)) OR push_bit 24 (ucast (ucast (drop_bit 24 w) :: byte)) = w"
  proof (rule bit_word_eqI)
    fix n assume "n < LENGTH(32)"
    then consider "n < 8" | "8 \<le> n" "n < 16" | "16 \<le> n" "n < 24" | "24 \<le> n" "n < 32" by force
    then show "bit ((ucast (ucast w :: byte) :: uint32) OR push_bit 8 (ucast (ucast (drop_bit 8 w) :: byte)) OR
      push_bit 16 (ucast (ucast (drop_bit 16 w) :: byte)) OR push_bit 24 (ucast (ucast (drop_bit 24 w) :: byte))) n = bit w n"
      by cases (auto simp: bit_simps)
  qed
  then show ?thesis by (simp add: of_le32_def le32_def nth_append or.assoc)
qed

lemma of_le16_bytes: "of_le16 (p @ le16 w @ q) (length p) = Some w"
proof -
  have "(ucast (ucast w :: byte) :: 16 word) OR push_bit 8 (ucast (ucast (drop_bit 8 w) :: byte)) = w"
  proof (rule bit_word_eqI)
    fix n assume "n < LENGTH(16)"
    then show "bit ((ucast (ucast w :: byte) :: 16 word) OR push_bit 8 (ucast (ucast (drop_bit 8 w) :: byte))) n = bit w n"
      by (cases "n < 8") (auto simp: bit_simps)
  qed
  then show ?thesis by (simp add: of_le16_def le16_def nth_append)
qed

end
