(* ===== verification/Recurrence.thy ===== *)
theory Recurrence
  imports Bytes
begin

text \<open>
  Recurrence patterns of appointments and tasks (m4lcommon/RecurrenceState.cpp, .h): the object, the
  reader and writer of raw integers and strings, \<open>ParseBlob\<close> and \<open>GetBlob\<close>.

  A macro such as \<open>READLONG(x)\<close> either goes on or jumps to the end of the function, keeping what
  has been read so far; so \<open>ParseBlob\<close> is a list of statements over a state that holds the object
  and the local variables. The conversions between character sets (iconv) are parameters: the
  result is \<open>None\<close> where the conversion throws.
\<close>

section \<open>The object\<close>

definition RECURRENCE_STATE_TASKS :: uint32 where "RECURRENCE_STATE_TASKS = 0x02"

definition ARO_SUBJECT :: uint32 where "ARO_SUBJECT = 0x0001"
definition ARO_MEETINGTYPE :: uint32 where "ARO_MEETINGTYPE = 0x0002"
definition ARO_REMINDERDELTA :: uint32 where "ARO_REMINDERDELTA = 0x0004"
definition ARO_REMINDERSET :: uint32 where "ARO_REMINDERSET = 0x0008"
definition ARO_LOCATION :: uint32 where "ARO_LOCATION = 0x0010"
definition ARO_BUSYSTATUS :: uint32 where "ARO_BUSYSTATUS = 0x0020"
definition ARO_ATTACHMENT :: uint32 where "ARO_ATTACHMENT = 0x0040"
definition ARO_SUBTYPE :: uint32 where "ARO_SUBTYPE = 0x0080"
definition ARO_APPTCOLOR :: uint32 where "ARO_APPTCOLOR = 0x0100"

definition PT_DAY :: uint32 where "PT_DAY = 0x0"
definition PT_WEEK :: uint32 where "PT_WEEK = 0x1"
definition PT_MONTH :: uint32 where "PT_MONTH = 0x2"
definition PT_MONTH_END :: uint32 where "PT_MONTH_END = 0x4"
definition PT_MONTH_NTH :: uint32 where "PT_MONTH_NTH = 0x3"
definition PT_HJ_MONTH :: uint32 where "PT_HJ_MONTH = 0xA"
definition PT_HJ_MONTH_NTH :: uint32 where "PT_HJ_MONTH_NTH = 0xB"
definition PT_HJ_MONTH_END :: uint32 where "PT_HJ_MONTH_END = 0xC"

type_synonym wstring = "uint32 list"

record Exception =
  e_ulStartDateTime :: uint32
  e_ulEndDateTime :: uint32
  e_ulOriginalStartDate :: uint32
  e_ulOverrideFlags :: uint32
  e_strSubject :: bytes
  e_ulApptStateFlags :: uint32
  e_ulReminderDelta :: uint32
  e_ulReminderSet :: uint32
  e_strLocation :: bytes
  e_ulBusyStatus :: uint32
  e_ulAttachment :: uint32
  e_ulSubType :: uint32
  e_ulAppointmentColor :: uint32

record ExtendedException =
  x_ulChangeHighlightValue :: uint32
  x_strReserved :: bytes
  x_strReservedBlock1 :: bytes
  x_ulStartDateTime :: uint32
  x_ulEndDateTime :: uint32
  x_ulOriginalStartDate :: uint32
  x_strWideCharSubject :: wstring
  x_strWideCharLocation :: wstring
  x_strReservedBlock2 :: bytes

record RecurrenceState =
  ulReaderVersion :: uint32
  ulWriterVersion :: uint32
  ulRecurFrequency :: uint32
  ulPatternType :: uint32
  ulCalendarType :: uint32
  ulFirstDateTime :: uint32
  ulPeriod :: uint32
  ulSlidingFlag :: uint32
  ulWeekDays :: uint32
  ulDayOfMonth :: uint32
  ulWeekNumber :: uint32
  ulEndType :: uint32
  ulOccurrenceCount :: uint32
  ulFirstDOW :: uint32
  ulDeletedInstanceCount :: uint32
  lstDeletedInstanceDates :: "uint32 list"
  ulModifiedInstanceCount :: uint32
  lstModifiedInstanceDates :: "uint32 list"
  ulStartDate :: uint32
  ulEndDate :: uint32
  ulReaderVersion2 :: uint32
  ulWriterVersion2 :: uint32
  ulStartTimeOffset :: uint32
  ulEndTimeOffset :: uint32
  ulExceptionCount :: uint32
  lstExceptions :: "Exception list"
  strReservedBlock1 :: bytes
  lstExtendedExceptions :: "ExtendedException list"
  strReservedBlock2 :: bytes

text \<open>Conversions: from UCS-2 bytes, from windows-1252 bytes, and to UTF-16.\<close>

record converter =
  from_ucs2le :: "bytes \<Rightarrow> wstring option"
  from_cp1252 :: "bytes \<Rightarrow> wstring option"
  to_u16 :: "wstring \<Rightarrow> 16 word list option"

definition TryConvert :: "wstring option \<Rightarrow> wstring \<Rightarrow> wstring" where
  "TryConvert r to = (case r of Some w \<Rightarrow> w | None \<Rightarrow> to)"

section \<open>The state of \<open>ParseBlob\<close>\<close>

record parsestate =
  rs :: RecurrenceState
  sException :: Exception
  sExtendedException :: ExtendedException
  ulSubjectLength :: uint32
  ulSubjectLength2 :: uint32
  ulLocationLength :: uint32
  ulLocationLength2 :: uint32
  ulReservedBlock1Size :: uint32
  ulReservedBlock2Size :: uint32
  ulWideCharSubjectLength :: uint32
  ulWideCharLocationLength :: uint32
  ulChangeHighlightSize :: uint32
  strBytes :: bytes
  bReadValid :: bool
  bExtended :: bool

text \<open>What a statement does: undefined, jump to the end, or go on; with the cursor of the reader.\<close>

datatype outcome = Undef | Fail uint32 parsestate | Go uint32 parsestate

type_synonym stmt = "bytes \<Rightarrow> uint32 \<Rightarrow> parsestate \<Rightarrow> outcome"

fun run :: "stmt list \<Rightarrow> stmt" where
  "run [] d c s = Go c s"
| "run (x # xs) d c s = (case x d c s of Go c s \<Rightarrow> run xs d c s | Fail c s \<Rightarrow> Fail c s | Undef \<Rightarrow> Undef)"

definition SET :: "(parsestate \<Rightarrow> parsestate) \<Rightarrow> stmt" where
  "SET f d c s = Go c (f s)"

definition WHEN :: "(parsestate \<Rightarrow> bool) \<Rightarrow> stmt list \<Rightarrow> stmt" where
  "WHEN b xs d c s = (if b s then run xs d c s else Go c s)"

fun foreach :: "'a list \<Rightarrow> ('a \<Rightarrow> stmt list) \<Rightarrow> stmt" where
  "foreach [] body d c s = Go c s"
| "foreach (x # xs) body d c s =
     (case run (body x) d c s of Go c s \<Rightarrow> foreach xs body d c s | Fail c s \<Rightarrow> Fail c s | Undef \<Rightarrow> Undef)"

text \<open>The bound of a counting loop is a member that the loop does not change.\<close>

definition TIMES :: "(parsestate \<Rightarrow> uint32) \<Rightarrow> stmt list \<Rightarrow> stmt" where
  "TIMES n body d c s = foreach (replicate (unat (n s)) ()) (\<lambda>_. body) d c s"

definition FOREACH :: "(parsestate \<Rightarrow> 'a list) \<Rightarrow> ('a \<Rightarrow> stmt list) \<Rightarrow> stmt" where
  "FOREACH f body d c s = foreach (f s) body d c s"

section \<open>BinReader and BinWriter\<close>

definition READSHORT :: "(uint32 \<Rightarrow> parsestate \<Rightarrow> parsestate) \<Rightarrow> stmt" where
  "READSHORT upd d c s =
     (if c + 2 > of_nat (length d) then Fail c s
      else case of_le16 d (unat c) of None \<Rightarrow> Undef | Some v \<Rightarrow> Go (c + 2) (upd (ucast v) s))"

definition READLONG :: "(uint32 \<Rightarrow> parsestate \<Rightarrow> parsestate) \<Rightarrow> stmt" where
  "READLONG upd d c s =
     (if c + 4 > of_nat (length d) then Fail c s
      else case of_le32 d (unat c) of None \<Rightarrow> Undef | Some v \<Rightarrow> Go (c + 4) (upd v s))"

definition READSTRING :: "(bytes \<Rightarrow> parsestate \<Rightarrow> parsestate) \<Rightarrow> (parsestate \<Rightarrow> uint32) \<Rightarrow> stmt" where
  "READSTRING upd n d c s =
     (let len = n s; left = of_nat (length d) - c; reallen = (if len > left then left else len)
      in if c + reallen > of_nat (length d) then Fail c s
         else case chars_at d (unat c) (unat reallen) of None \<Rightarrow> Undef
           | Some str \<Rightarrow>
               if reallen = len \<and> 0 \<le> sint len then Go (c + reallen) (upd str s)
               else Fail (c + reallen) (upd str s))"

definition WRITESHORT :: "uint32 \<Rightarrow> bytes" where "WRITESHORT v = le16 (ucast v)"
definition WRITELONG :: "uint32 \<Rightarrow> bytes" where "WRITELONG v = le32 v"

section \<open>ParseBlob\<close>

definition rs_set :: "(('a \<Rightarrow> 'a) \<Rightarrow> RecurrenceState \<Rightarrow> RecurrenceState) \<Rightarrow> 'a \<Rightarrow> parsestate \<Rightarrow> parsestate" where
  "rs_set f v = rs_update (f (\<lambda>_. v))"

definition ex_set :: "(('a \<Rightarrow> 'a) \<Rightarrow> Exception \<Rightarrow> Exception) \<Rightarrow> 'a \<Rightarrow> parsestate \<Rightarrow> parsestate" where
  "ex_set f v = sException_update (f (\<lambda>_. v))"

definition xx_set :: "(('a \<Rightarrow> 'a) \<Rightarrow> ExtendedException \<Rightarrow> ExtendedException) \<Rightarrow> 'a \<Rightarrow> parsestate \<Rightarrow> parsestate" where
  "xx_set f v = sExtendedException_update (f (\<lambda>_. v))"

definition pattern_is_month :: "uint32 \<Rightarrow> bool" where
  "pattern_is_month t \<longleftrightarrow> t = PT_MONTH \<or> t = PT_MONTH_END \<or> t = PT_HJ_MONTH \<or> t = PT_HJ_MONTH_END"

definition pattern_is_nth :: "uint32 \<Rightarrow> bool" where
  "pattern_is_nth t \<longleftrightarrow> t = PT_MONTH_NTH \<or> t = PT_HJ_MONTH_NTH"

definition parse_pattern :: "stmt list" where
  "parse_pattern = [
     READSHORT (rs_set ulReaderVersion_update), READSHORT (rs_set ulWriterVersion_update),
     READSHORT (rs_set ulRecurFrequency_update), READSHORT (rs_set ulPatternType_update),
     READSHORT (rs_set ulCalendarType_update),
     READLONG (rs_set ulFirstDateTime_update),
     READLONG (rs_set ulPeriod_update),
     READLONG (rs_set ulSlidingFlag_update),
     WHEN (\<lambda>s. ulPatternType (rs s) = PT_WEEK) [READLONG (rs_set ulWeekDays_update)],
     WHEN (\<lambda>s. pattern_is_month (ulPatternType (rs s))) [READLONG (rs_set ulDayOfMonth_update)],
     WHEN (\<lambda>s. pattern_is_nth (ulPatternType (rs s)))
       [READLONG (rs_set ulWeekDays_update), READLONG (rs_set ulWeekNumber_update)],
     READLONG (rs_set ulEndType_update),
     READLONG (rs_set ulOccurrenceCount_update),
     READLONG (rs_set ulFirstDOW_update)]"

definition parse_dates :: "uint32 \<Rightarrow> stmt list" where
  "parse_dates ulFlags = [
     READLONG (rs_set ulDeletedInstanceCount_update),
     TIMES (\<lambda>s. ulDeletedInstanceCount (rs s))
       [READLONG (\<lambda>v. rs_update (lstDeletedInstanceDates_update (\<lambda>xs. xs @ [v])))],
     READLONG (rs_set ulModifiedInstanceCount_update),
     TIMES (\<lambda>s. ulModifiedInstanceCount (rs s))
       [READLONG (\<lambda>v. rs_update (lstModifiedInstanceDates_update (\<lambda>xs. xs @ [v])))],
     READLONG (rs_set ulStartDate_update),
     READLONG (rs_set ulEndDate_update),
     WHEN (\<lambda>_. ulFlags AND RECURRENCE_STATE_TASKS \<noteq> 0) [SET (bReadValid_update (\<lambda>_. True))],
     READLONG (rs_set ulReaderVersion2_update),
     READLONG (rs_set ulWriterVersion2_update),
     READLONG (rs_set ulStartTimeOffset_update),
     READLONG (rs_set ulEndTimeOffset_update),
     READSHORT (rs_set ulExceptionCount_update)]"

definition ex_has :: "uint32 \<Rightarrow> parsestate \<Rightarrow> bool" where
  "ex_has f s \<longleftrightarrow> e_ulOverrideFlags (sException s) AND f \<noteq> 0"

text \<open>A local \<open>Exception\<close>: its numbers are unspecified, its strings empty.\<close>

definition new_Exception :: "Exception \<Rightarrow> Exception" where
  "new_Exception e = e\<lparr>e_strSubject := [], e_strLocation := []\<rparr>"

definition parse_exception :: "Exception \<Rightarrow> stmt list" where
  "parse_exception e0 = [
     SET (sException_update (\<lambda>_. new_Exception e0)),
     READLONG (ex_set e_ulStartDateTime_update),
     READLONG (ex_set e_ulEndDateTime_update),
     READLONG (ex_set e_ulOriginalStartDate_update),
     READSHORT (ex_set e_ulOverrideFlags_update),
     WHEN (ex_has ARO_SUBJECT) [
       READSHORT (\<lambda>v. ulSubjectLength_update (\<lambda>_. v)),
       READSHORT (\<lambda>v. ulSubjectLength2_update (\<lambda>_. v)),
       READSTRING (ex_set e_strSubject_update) ulSubjectLength2],
     WHEN (ex_has ARO_MEETINGTYPE) [READLONG (ex_set e_ulApptStateFlags_update)],
     WHEN (ex_has ARO_REMINDERDELTA) [READLONG (ex_set e_ulReminderDelta_update)],
     WHEN (ex_has ARO_REMINDERSET) [READLONG (ex_set e_ulReminderSet_update)],
     WHEN (ex_has ARO_LOCATION) [
       READSHORT (\<lambda>v. ulLocationLength_update (\<lambda>_. v)),
       READSHORT (\<lambda>v. ulLocationLength2_update (\<lambda>_. v)),
       READSTRING (ex_set e_strLocation_update) ulLocationLength2],
     WHEN (ex_has ARO_BUSYSTATUS) [READLONG (ex_set e_ulBusyStatus_update)],
     WHEN (ex_has ARO_ATTACHMENT) [READLONG (ex_set e_ulAttachment_update)],
     WHEN (ex_has ARO_SUBTYPE) [READLONG (ex_set e_ulSubType_update)],
     WHEN (ex_has ARO_APPTCOLOR) [READLONG (ex_set e_ulAppointmentColor_update)],
     SET (\<lambda>s. rs_update (lstExceptions_update (\<lambda>xs. xs @ [sException s])) s)]"

definition e_has :: "uint32 \<Rightarrow> Exception \<Rightarrow> bool" where
  "e_has f e \<longleftrightarrow> e_ulOverrideFlags e AND f \<noteq> 0"

definition new_ExtendedException :: "ExtendedException \<Rightarrow> ExtendedException" where
  "new_ExtendedException x = x\<lparr>x_strReserved := [], x_strReservedBlock1 := [],
     x_strWideCharSubject := [], x_strWideCharLocation := [], x_strReservedBlock2 := []\<rparr>"

definition parse_extended :: "converter \<Rightarrow> ExtendedException \<Rightarrow> Exception \<Rightarrow> stmt list" where
  "parse_extended C x0 exc = [
     SET (sExtendedException_update (\<lambda>_. new_ExtendedException x0)),
     WHEN (\<lambda>s. ulWriterVersion2 (rs s) \<ge> 0x00003009) [
       READLONG (\<lambda>v. ulChangeHighlightSize_update (\<lambda>_. v)),
       READLONG (xx_set x_ulChangeHighlightValue_update),
       READSTRING (xx_set x_strReserved_update) (\<lambda>s. ulChangeHighlightSize s - 4)],
     READLONG (\<lambda>v. ulReservedBlock1Size_update (\<lambda>_. v)),
     READSTRING (xx_set x_strReservedBlock1_update) ulReservedBlock1Size,
     WHEN (\<lambda>_. e_has ARO_SUBJECT exc \<or> e_has ARO_LOCATION exc) [
       READLONG (xx_set x_ulStartDateTime_update),
       READLONG (xx_set x_ulEndDateTime_update),
       READLONG (xx_set x_ulOriginalStartDate_update)],
     WHEN (\<lambda>_. e_has ARO_SUBJECT exc) [
       SET (strBytes_update (\<lambda>_. [])),
       READSHORT (\<lambda>v. ulWideCharSubjectLength_update (\<lambda>_. v)),
       READSTRING (\<lambda>v. strBytes_update (\<lambda>_. v)) (\<lambda>s. ulWideCharSubjectLength s * 2),
       SET (\<lambda>s. sExtendedException_update (x_strWideCharSubject_update (TryConvert (from_ucs2le C (strBytes s)))) s)],
     WHEN (\<lambda>_. e_has ARO_LOCATION exc) [
       SET (strBytes_update (\<lambda>_. [])),
       READSHORT (\<lambda>v. ulWideCharLocationLength_update (\<lambda>_. v)),
       READSTRING (\<lambda>v. strBytes_update (\<lambda>_. v)) (\<lambda>s. ulWideCharLocationLength s * 2),
       SET (\<lambda>s. sExtendedException_update (x_strWideCharLocation_update (TryConvert (from_ucs2le C (strBytes s)))) s)],
     WHEN (\<lambda>_. e_has ARO_SUBJECT exc \<or> e_has ARO_LOCATION exc) [
       READLONG (\<lambda>v. ulReservedBlock2Size_update (\<lambda>_. v)),
       READSTRING (xx_set x_strReservedBlock2_update) ulReservedBlock2Size],
     SET (\<lambda>s. rs_update (lstExtendedExceptions_update (\<lambda>xs. xs @ [sExtendedException s])) s)]"

definition parse_tail :: "converter \<Rightarrow> ExtendedException \<Rightarrow> stmt list" where
  "parse_tail C x0 = [
     SET (bReadValid_update (\<lambda>_. True)),
     READLONG (\<lambda>v. ulReservedBlock1Size_update (\<lambda>_. v)),
     READSTRING (rs_set strReservedBlock1_update) ulReservedBlock1Size,
     FOREACH (\<lambda>s. lstExceptions (rs s)) (parse_extended C x0),
     SET (bExtended_update (\<lambda>_. True)),
     READLONG (\<lambda>v. ulReservedBlock2Size_update (\<lambda>_. v)),
     READSTRING (rs_set strReservedBlock2_update) ulReservedBlock2Size]"

definition parse_all :: "converter \<Rightarrow> Exception \<Rightarrow> ExtendedException \<Rightarrow> uint32 \<Rightarrow> stmt list" where
  "parse_all C e0 x0 ulFlags = parse_pattern @ parse_dates ulFlags @
     [TIMES (\<lambda>s. ulExceptionCount (rs s)) (parse_exception e0)] @ parse_tail C x0"

text \<open>The extended data of an exception that the blob does not have.\<close>

definition synced_extended :: "converter \<Rightarrow> ExtendedException \<Rightarrow> Exception \<Rightarrow> ExtendedException" where
  "synced_extended C x0 e =
     (let cEx = (new_ExtendedException x0)\<lparr>x_ulChangeHighlightValue := 0, x_ulStartDateTime := e_ulStartDateTime e,
            x_ulEndDateTime := e_ulEndDateTime e, x_ulOriginalStartDate := e_ulOriginalStartDate e\<rparr>;
          cEx = (if e_has ARO_SUBJECT e
            then x_strWideCharSubject_update (TryConvert (from_cp1252 C (e_strSubject e))) cEx else cEx)
      in if e_has ARO_LOCATION e
         then x_strWideCharLocation_update (TryConvert (from_cp1252 C (e_strLocation e))) cEx else cEx)"

fun sync_loop :: "converter \<Rightarrow> ExtendedException \<Rightarrow> Exception list \<Rightarrow> nat \<Rightarrow> nat \<Rightarrow> ExtendedException list option" where
  "sync_loop C x0 es i 0 = Some []"
| "sync_loop C x0 es i (Suc n) = do {
     e \<leftarrow> nth_opt es i;
     xs \<leftarrow> sync_loop C x0 es (Suc i) n;
     Some (synced_extended C x0 e # xs)
   }"

definition parse_exit :: "converter \<Rightarrow> ExtendedException \<Rightarrow> hresult \<Rightarrow> parsestate \<Rightarrow> (hresult \<times> RecurrenceState) option" where
  "parse_exit C x0 hr s =
     (if hr \<noteq> hrSuccess \<and> bReadValid s then
        (if \<not> bExtended s then do {
           xs \<leftarrow> sync_loop C x0 (lstExceptions (rs s)) 0 (unat (ulExceptionCount (rs s)));
           Some (MAPI_W_ERRORS_RETURNED, (rs s)\<lparr>lstExtendedExceptions := xs\<rparr>)
         }
         else Some (MAPI_W_ERRORS_RETURNED, rs s))
      else Some (hr, rs s))"

definition parse_init :: "Exception \<Rightarrow> ExtendedException \<Rightarrow> RecurrenceState \<Rightarrow> parsestate" where
  "parse_init e0 x0 r = \<lparr>rs = r\<lparr>lstDeletedInstanceDates := [], lstModifiedInstanceDates := [],
       lstExceptions := [], lstExtendedExceptions := []\<rparr>,
     sException = e0, sExtendedException = x0, ulSubjectLength = 0, ulSubjectLength2 = 0,
     ulLocationLength = 0, ulLocationLength2 = 0, ulReservedBlock1Size = 0, ulReservedBlock2Size = 0,
     ulWideCharSubjectLength = 0, ulWideCharLocationLength = 0, ulChangeHighlightSize = 0, strBytes = [],
     bReadValid = False, bExtended = False\<rparr>"

definition ParseBlob :: "converter \<Rightarrow> Exception \<Rightarrow> ExtendedException \<Rightarrow> bytes \<Rightarrow> uint32 \<Rightarrow> RecurrenceState \<Rightarrow>
    (hresult \<times> RecurrenceState) option" where
  "ParseBlob C e0 x0 lpData ulFlags r =
     (case run (parse_all C e0 x0 ulFlags) lpData 0 (parse_init e0 x0 r) of
        Undef \<Rightarrow> None
      | Fail c s \<Rightarrow> parse_exit C x0 MAPI_E_NOT_FOUND s
      | Go c s \<Rightarrow> parse_exit C x0 (if of_nat (length lpData) - c \<noteq> (0 :: uint32) then MAPI_E_NOT_FOUND else hrSuccess) s)"

section \<open>GetBlob\<close>

definition write_pattern :: "RecurrenceState \<Rightarrow> bytes" where
  "write_pattern r =
     WRITESHORT (ulReaderVersion r) @ WRITESHORT (ulWriterVersion r) @
     WRITESHORT (ulRecurFrequency r) @ WRITESHORT (ulPatternType r) @ WRITESHORT (ulCalendarType r) @
     WRITELONG (ulFirstDateTime r) @ WRITELONG (ulPeriod r) @ WRITELONG (ulSlidingFlag r) @
     (if ulPatternType r = PT_DAY then []
      else if ulPatternType r = PT_WEEK then WRITELONG (ulWeekDays r)
      else if pattern_is_month (ulPatternType r) then WRITELONG (ulDayOfMonth r)
      else if pattern_is_nth (ulPatternType r) then WRITELONG (ulWeekDays r) @ WRITELONG (ulWeekNumber r)
      else []) @
     WRITELONG (ulEndType r) @ WRITELONG (ulOccurrenceCount r) @ WRITELONG (ulFirstDOW r)"

definition write_dates :: "RecurrenceState \<Rightarrow> bytes" where
  "write_dates r =
     WRITELONG (ulDeletedInstanceCount r) @ concat (map WRITELONG (lstDeletedInstanceDates r)) @
     WRITELONG (ulModifiedInstanceCount r) @ concat (map WRITELONG (lstModifiedInstanceDates r)) @
     WRITELONG (ulStartDate r) @ WRITELONG (ulEndDate r) @
     WRITELONG (ulReaderVersion2 r) @ WRITELONG (ulWriterVersion2 r) @
     WRITELONG (ulStartTimeOffset r) @ WRITELONG (ulEndTimeOffset r) @
     WRITESHORT (ulExceptionCount r)"

definition write_exception :: "Exception \<Rightarrow> bytes" where
  "write_exception i =
     WRITELONG (e_ulStartDateTime i) @ WRITELONG (e_ulEndDateTime i) @
     WRITELONG (e_ulOriginalStartDate i) @ WRITESHORT (e_ulOverrideFlags i) @
     (if e_has ARO_SUBJECT i
      then WRITESHORT (of_nat (length (e_strSubject i) + 1)) @ WRITESHORT (of_nat (length (e_strSubject i))) @ e_strSubject i
      else []) @
     (if e_has ARO_MEETINGTYPE i then WRITELONG (e_ulApptStateFlags i) else []) @
     (if e_has ARO_REMINDERDELTA i then WRITELONG (e_ulReminderDelta i) else []) @
     (if e_has ARO_REMINDERSET i then WRITELONG (e_ulReminderSet i) else []) @
     (if e_has ARO_LOCATION i
      then WRITESHORT (of_nat (length (e_strLocation i)) + 1) @ WRITESHORT (of_nat (length (e_strLocation i))) @ e_strLocation i
      else []) @
     (if e_has ARO_BUSYSTATUS i then WRITELONG (e_ulBusyStatus i) else []) @
     (if e_has ARO_ATTACHMENT i then WRITELONG (e_ulAttachment i) else []) @
     (if e_has ARO_SUBTYPE i then WRITELONG (e_ulSubType i) else []) @
     (if e_has ARO_APPTCOLOR i then WRITELONG (e_ulAppointmentColor i) else [])"

definition write_wide :: "converter \<Rightarrow> wstring \<Rightarrow> bytes option" where
  "write_wide C w = do {
     strWide \<leftarrow> to_u16 C w;
     Some (WRITESHORT (of_nat (length strWide)) @ concat (map le16 strWide))
   }"

definition write_extended :: "converter \<Rightarrow> RecurrenceState \<Rightarrow> Exception \<Rightarrow> ExtendedException \<Rightarrow> bytes option" where
  "write_extended C r j i = do {
     subject \<leftarrow> (if e_has ARO_SUBJECT j then write_wide C (x_strWideCharSubject i) else Some []);
     location \<leftarrow> (if e_has ARO_LOCATION j then write_wide C (x_strWideCharLocation i) else Some []);
     Some (
       (if ulWriterVersion2 r \<ge> 0x00003009
        then WRITELONG (of_nat (length (x_strReserved i) + 4)) @ WRITELONG (x_ulChangeHighlightValue i) @ x_strReserved i
        else []) @
       WRITELONG (of_nat (length (x_strReservedBlock1 i))) @ x_strReservedBlock1 i @
       (if e_has ARO_SUBJECT j \<or> e_has ARO_LOCATION j
        then WRITELONG (x_ulStartDateTime i) @ WRITELONG (x_ulEndDateTime i) @ WRITELONG (x_ulOriginalStartDate i)
        else []) @
       subject @ location @
       (if e_has ARO_SUBJECT j \<or> e_has ARO_LOCATION j
        then WRITELONG (of_nat (length (x_strReservedBlock2 i))) @ x_strReservedBlock2 i
        else []))
   }"

fun write_all_extended :: "converter \<Rightarrow> RecurrenceState \<Rightarrow> Exception list \<Rightarrow> ExtendedException list \<Rightarrow> bytes option" where
  "write_all_extended C r js [] = Some []"
| "write_all_extended C r [] (i # is) = None"
| "write_all_extended C r (j # js) (i # is) = do {
     b \<leftarrow> write_extended C r j i; bs \<leftarrow> write_all_extended C r js is; Some (b @ bs)
   }"

text \<open>The result, or \<open>None\<close> where a conversion throws.\<close>

definition GetBlob :: "converter \<Rightarrow> RecurrenceState \<Rightarrow> (hresult + bytes) option" where
  "GetBlob C r =
     (if length (lstExceptions r) \<noteq> length (lstExtendedExceptions r) then Some (Inl MAPI_E_CORRUPT_DATA)
      else do {
        ext \<leftarrow> write_all_extended C r (lstExceptions r) (lstExtendedExceptions r);
        Some (Inr (write_pattern r @ write_dates r @ concat (map write_exception (lstExceptions r)) @
          WRITELONG (of_nat (length (strReservedBlock1 r))) @ strReservedBlock1 r @ ext @
          WRITELONG (of_nat (length (strReservedBlock2 r))) @ strReservedBlock2 r))
      })"

end
