(* ===== verification/RecurrenceSpec.thy ===== *)
theory RecurrenceSpec
  imports Recurrence
begin

text \<open>
  What \<open>ParseBlob\<close> and \<open>GetBlob\<close> guarantee: a written blob is read back field by field, no proper
  prefix of it is taken for a complete one, and reading an appointment's blob is defined for every
  input. The interface between the field by field code and these proofs is the locale
  \<open>scalar_codec\<close>: a reading statement and the bytes it reads back; it is interpreted for the 16 bit and the
  32 bit integers.
\<close>

section \<open>Reading what is there\<close>

definition at :: "bytes \<Rightarrow> uint32 \<Rightarrow> bytes \<Rightarrow> bool" where
  "at d c xs \<longleftrightarrow> length d + 4 < 2 ^ 32 \<and> unat c + length xs = length d \<and> drop (unat c) d = xs"

lemma at_step:
  assumes "at d c (bs @ xs)"
  shows "at d (c + of_nat (length bs)) xs" "unat (c + of_nat (length bs)) = unat c + length bs"
    "unat c + length bs \<le> length d" "\<exists>p. d = p @ bs @ xs \<and> length p = unat c"
proof -
  have l: "unat c + length bs + length xs = length d" using assms by (simp add: at_def)
  moreover have "length d < 2 ^ 32" using assms by (simp add: at_def)
  ultimately show u: "unat (c + of_nat (length bs)) = unat c + length bs"
    by (subst unat_add_small) (simp_all add: unat_of_nat_small)
  show "at d (c + of_nat (length bs)) xs" using assms l unfolding at_def u
    by (simp flip: drop_drop add: add.commute)
  show "unat c + length bs \<le> length d" using l by simp
  show "\<exists>p. d = p @ bs @ xs \<and> length p = unat c"
    using assms by (intro exI [of _ "take (unat c) d"]) (auto simp: at_def dest: sym)
qed

text \<open>
  From a state where \<open>P\<close> holds the statements read exactly \<open>bs\<close>, go on, and leave a state where \<open>Q\<close> holds.
\<close>

definition reads :: "(parsestate \<Rightarrow> bool) \<Rightarrow> stmt list \<Rightarrow> bytes \<Rightarrow> (parsestate \<Rightarrow> bool) \<Rightarrow> bool" where
  "reads P ss bs Q \<longleftrightarrow> (\<forall>d c xs s. P s \<longrightarrow> at d c (bs @ xs) \<longrightarrow>
     (\<exists>s'. run ss d c s = Go (c + of_nat (length bs)) s' \<and> Q s'))"

lemma run_append:
  "run (xs @ ys) d c s = (case run xs d c s of Go c s \<Rightarrow> run ys d c s | Fail c s \<Rightarrow> Fail c s | Undef \<Rightarrow> Undef)"
  by (induction xs arbitrary: c s) (auto split: outcome.splits)

lemma run_single [simp]: "run [x] d c s = x d c s"
  by (simp split: outcome.splits)

declare run.simps(2) [simp del]

lemma reads_Nil: "reads P [] [] P"
  by (simp add: reads_def)

lemma reads_append:
  assumes "reads P xs a Q" "reads Q ys b R"
  shows "reads P (xs @ ys) (a @ b) R"
  unfolding reads_def
proof (intro allI impI)
  fix d c zs s assume s: "P s" and a: "at d c ((a @ b) @ zs)"
  then obtain t where t: "run xs d c s = Go (c + of_nat (length a)) t" "Q t"
    using assms(1) unfolding reads_def by (metis append_assoc)
  have "at d (c + of_nat (length a)) (b @ zs)" using at_step(1) a by simp
  then obtain u where "run ys d (c + of_nat (length a)) t = Go (c + of_nat (length a) + of_nat (length b)) u" "R u"
    using assms(2) t(2) unfolding reads_def by blast
  then show "\<exists>s'. run (xs @ ys) d c s = Go (c + of_nat (length (a @ b))) s' \<and> R s'"
    using t(1) by (simp add: run_append add.assoc)
qed

lemma reads_Cons:
  "reads P [x] a Q \<Longrightarrow> reads Q xs (concat bs) R \<Longrightarrow> reads P (x # xs) (concat (a # bs)) R"
  using reads_append [of P "[x]" a Q xs "concat bs" R] by simp

lemma reads_Cons2:
  "reads P [x, y] a Q \<Longrightarrow> reads Q xs (concat bs) R \<Longrightarrow> reads P (x # y # xs) (concat (a # bs)) R"
  using reads_append [of P "[x, y]" a Q xs "concat bs" R] by simp

lemma reads_SET:
  "(\<And>s. P s \<Longrightarrow> Q (f s)) \<Longrightarrow> reads Q xs b R \<Longrightarrow> reads P (SET f # xs) b R"
  by (simp add: reads_def SET_def run.simps(2))

lemma reads_SET_last: "(\<And>s. P s \<Longrightarrow> Q (f s)) \<Longrightarrow> reads P [SET f] (concat []) Q"
  by (simp add: reads_def SET_def)

lemma reads_WHEN:
  assumes "\<And>s. P s \<Longrightarrow> c s \<longleftrightarrow> b" "b \<Longrightarrow> reads P ys a Q" "\<not> b \<Longrightarrow> Q = P"
  shows "reads P [WHEN c ys] (if b then a else []) Q"
  using assms by (cases b) (simp_all add: reads_def WHEN_def)

lemma reads_foreach:
  assumes "\<And>i. i < length xs \<Longrightarrow> reads (P i) (body (xs ! i)) (bs ! i) (P (Suc i))" "length bs = length xs"
    "\<And>s. P 0 s \<Longrightarrow> f s = xs"
  shows "reads (P 0) [FOREACH f body] (concat bs) (P (length xs))"
proof -
  have *: "\<exists>s'. foreach xs body d c s = Go (c + of_nat (length (concat bs))) s' \<and> P (k + length xs) s'"
    if "\<And>i. i < length xs \<Longrightarrow> reads (P (k + i)) (body (xs ! i)) (bs ! i) (P (Suc (k + i)))" "length bs = length xs"
      "P k s" "at d c (concat bs @ zs)" for k xs bs d c s zs
    using that
  proof (induction xs arbitrary: k bs c s)
    case Nil
    then show ?case by simp
  next
    case (Cons x xs)
    obtain b bs' where b: "bs = b # bs'" using Cons.prems(2) by (cases bs) auto
    have a: "at d c (b @ concat bs' @ zs)" using Cons.prems(4) b by simp
    obtain t where t: "run (body x) d c s = Go (c + of_nat (length b)) t" "P (Suc k) t"
      using Cons.prems(1) [of 0] Cons.prems(3) a unfolding reads_def b by fastforce
    have "\<exists>s'. foreach xs body d (c + of_nat (length b)) t = Go (c + of_nat (length b) + of_nat (length (concat bs'))) s' \<and>
        P (Suc k + length xs) s'"
    proof (rule Cons.IH)
      show "reads (P (Suc k + i)) (body (xs ! i)) (bs' ! i) (P (Suc (Suc k + i)))" if "i < length xs" for i
        using Cons.prems(1) [of "Suc i"] that b by simp
    qed (use t(2) at_step(1) [OF a] Cons.prems(2) b in auto)
    then show ?case using t(1) b by (simp add: add.assoc)
  qed
  show ?thesis unfolding reads_def
    using * [of xs 0 bs] assms by (simp add: FOREACH_def)
qed

section \<open>Integers and strings\<close>

text \<open>The states the proofs speak of: the object, the two flags, and an exception under construction.\<close>

definition st :: "RecurrenceState \<Rightarrow> bool \<Rightarrow> bool \<Rightarrow> parsestate \<Rightarrow> bool" where
  "st r v x s \<longleftrightarrow> rs s = r \<and> bReadValid s = v \<and> bExtended s = x"

definition ste :: "RecurrenceState \<Rightarrow> bool \<Rightarrow> bool \<Rightarrow> Exception \<Rightarrow> parsestate \<Rightarrow> bool" where
  "ste r v x e s \<longleftrightarrow> st r v x s \<and> sException s = e"

definition stx :: "RecurrenceState \<Rightarrow> bool \<Rightarrow> bool \<Rightarrow> ExtendedException \<Rightarrow> parsestate \<Rightarrow> bool" where
  "stx r v x xx s \<longleftrightarrow> st r v x s \<and> sExtendedException s = xx"

lemmas st_defs = st_def ste_def stx_def rs_set_def ex_set_def xx_set_def

lemma reads_STRING:
  assumes "length str < 2 ^ 31" "\<And>s. P s \<Longrightarrow> n s = of_nat (length str)" "\<And>s. P s \<Longrightarrow> Q (upd str s)"
  shows "reads P [READSTRING upd n] str Q"
  unfolding reads_def
proof (intro allI impI)
  fix d c xs s assume s: "P s" and a: "at d c (str @ xs)"
  note b = at_step [OF a]
  obtain p where p: "d = p @ str @ xs" "length p = unat c" using b(4) by blast
  have d: "length d < 2 ^ 32" using a by (simp add: at_def)
  have u: "unat (of_nat (length str) :: uint32) = length str" "unat (of_nat (length d) :: uint32) = length d"
    using assms(1) d by (simp_all add: unat_of_nat_small)
  have "unat (of_nat (length d) - c :: uint32) = length d - unat c"
    using b(3) u(2) by (subst unat_sub) (simp_all add: word_le_nat_alt)
  then have "\<not> (of_nat (length str) > (of_nat (length d) - c :: uint32))"
    using b(3) by (simp add: word_less_nat_alt u)
  moreover have "\<not> (c + of_nat (length str) > (of_nat (length d) :: uint32))"
    using b(2,3) by (simp add: word_less_nat_alt u)
  moreover have "chars_at d (unat c) (length str) = Some str" using p by (simp add: chars_at_def)
  moreover have "0 \<le> sint (of_nat (length str) :: uint32)"
  proof -
    have "sint (word_of_int (int (length str)) :: uint32) = int (length str)"
      using assms(1) unfolding int_word_sint by simp
    then show ?thesis by simp
  qed
  ultimately show "\<exists>s'. run [READSTRING upd n] d c s = Go (c + of_nat (length str)) s' \<and> Q s'"
    using assms(2,3) [OF s] by (simp add: READSTRING_def Let_def u)
qed

locale scalar_codec =
  fixes rd :: "(uint32 \<Rightarrow> parsestate \<Rightarrow> parsestate) \<Rightarrow> stmt"
    and wr :: "uint32 \<Rightarrow> bytes"
    and fits :: "uint32 \<Rightarrow> bool"
  assumes rd_wr: "fits w \<Longrightarrow> at d c (wr w @ xs) \<Longrightarrow> rd upd d c s = Go (c + of_nat (length (wr w))) (upd w s)"
begin

lemma scalar_read: "fits w \<Longrightarrow> (\<And>s. P s \<Longrightarrow> Q (upd w s)) \<Longrightarrow> reads P [rd upd] (wr w) Q"
  by (simp add: reads_def rd_wr)

lemma rs_field: "fits w \<Longrightarrow> reads (st r v x) [rd (rs_set f)] (wr w) (st (f (\<lambda>_. w) r) v x)"
  by (rule scalar_read) (simp_all add: st_defs)

lemma rs_field_when:
  assumes "fits w" "\<And>s. st r v x s \<Longrightarrow> c s \<longleftrightarrow> b" "f (\<lambda>y. y) r = r"
  shows "reads (st r v x) [WHEN c [rd (rs_set f)]] (if b then wr w else []) (st (f (\<lambda>y. if b then w else y) r) v x)"
  using assms by (intro reads_WHEN) (auto intro!: scalar_read simp: st_defs)

lemma ex_field: "fits w \<Longrightarrow> reads (ste r v x e) [rd (ex_set f)] (wr w) (ste r v x (f (\<lambda>_. w) e))"
  by (rule scalar_read) (simp_all add: st_defs)

lemma ex_field_when:
  assumes "fits w" "e_has F e \<longleftrightarrow> b" "f (\<lambda>y. y) e = e"
  shows "reads (ste r v x e) [WHEN (ex_has F) [rd (ex_set f)]] (if b then wr w else []) (ste r v x (f (\<lambda>y. if b then w else y) e))"
  using assms by (intro reads_WHEN) (auto intro!: scalar_read simp: st_defs ex_has_def e_has_def)

lemma xx_field: "fits w \<Longrightarrow> reads (stx r v x xx) [rd (xx_set f)] (wr w) (stx r v x (f (\<lambda>_. w) xx))"
  by (rule scalar_read) (simp_all add: st_defs)

lemma sized_string:
  assumes "fits (of_nat (length str))" "length str < 2 ^ 31" "\<And>s. P s \<Longrightarrow> n (u (of_nat (length str)) s) = of_nat (length str)"
    "\<And>s. P s \<Longrightarrow> Q (upd str (u (of_nat (length str)) s))"
  shows "reads P [rd u, READSTRING upd n] (wr (of_nat (length str)) @ str) Q"
proof -
  let ?Q = "\<lambda>s'. \<exists>s. P s \<and> s' = u (of_nat (length str)) s"
  have "reads P [rd u] (wr (of_nat (length str))) ?Q" using assms(1) by (rule scalar_read) blast
  moreover have "reads ?Q [READSTRING upd n] str Q" using assms(2-4) by (intro reads_STRING) auto
  ultimately show ?thesis using reads_append by fastforce
qed

lemma scalar_list:
  assumes "\<And>w. w \<in> set ws \<Longrightarrow> fits w" "\<And>s. P [] s \<Longrightarrow> unat (n s) = length ws"
    "\<And>us w s. P us s \<Longrightarrow> P (us @ [w]) (upd w s)"
  shows "reads (P []) [TIMES n [rd upd]] (concat (map wr ws)) (P ws)"
proof -
  have l: "reads (P (take i ws)) [rd upd] (map wr ws ! i) (P (take (Suc i) ws))" if "i < length ws" for i
    using that assms(1,3) by (auto simp: take_Suc_conv_app_nth intro!: scalar_read)
  have "reads (P (take 0 ws)) [FOREACH (\<lambda>s. replicate (unat (n s)) ()) (\<lambda>_. [rd upd])] (concat (map wr ws)) (P (take (length ws) ws))"
    using reads_foreach [of "replicate (length ws) ()" "\<lambda>i. P (take i ws)" "\<lambda>_. [rd upd]" "map wr ws"] l assms(2) by simp
  then show ?thesis by (simp add: reads_def FOREACH_def TIMES_def)
qed

end

lemma READSHORT_law:
  assumes "unat w < 65536" "at d c (WRITESHORT w @ xs)"
  shows "READSHORT upd d c s = Go (c + of_nat (length (WRITESHORT w))) (upd w s)"
proof -
  note a = at_step [OF assms(2)]
  obtain p where p: "d = p @ WRITESHORT w @ xs" "length p = unat c" using a(4) by blast
  have "length d < 2 ^ 32" using assms(2) by (simp add: at_def)
  then have "\<not> of_nat (length d) < c + 2"
    using a(2,3) by (simp add: word_less_nat_alt WRITESHORT_def unat_of_nat_small)
  moreover have "of_le16 d (unat c) = Some (ucast w)"
    using of_le16_bytes [of p "ucast w" xs] p by (simp add: WRITESHORT_def)
  moreover have "ucast (ucast w :: 16 word) = w"
    using assms(1) by (simp add: word_unat_eq_iff unsigned_ucast_eq unsigned_take_bit_eq take_bit_nat_eq_self)
  ultimately show ?thesis by (simp add: READSHORT_def WRITESHORT_def)
qed

lemma READLONG_law:
  assumes "at d c (WRITELONG w @ xs)"
  shows "READLONG upd d c s = Go (c + of_nat (length (WRITELONG w))) (upd w s)"
proof -
  note a = at_step [OF assms]
  obtain p where p: "d = p @ WRITELONG w @ xs" "length p = unat c" using a(4) by blast
  have "length d < 2 ^ 32" using assms(1) by (simp add: at_def)
  then have "\<not> of_nat (length d) < c + 4"
    using a(2,3) by (simp add: word_less_nat_alt WRITELONG_def unat_of_nat_small)
  moreover have "of_le32 d (unat c) = Some w"
    using of_le32_bytes [of p w xs] p by (simp add: WRITELONG_def)
  ultimately show ?thesis by (simp add: READLONG_def WRITELONG_def)
qed

interpretation short: scalar_codec READSHORT WRITESHORT "\<lambda>w. unat w < 65536"
  by unfold_locales (rule READSHORT_law)

interpretation long: scalar_codec READLONG WRITELONG "\<lambda>_. True"
  by unfold_locales (rule READLONG_law)

section \<open>Exceptions\<close>

text \<open>What a stored exception determines; the fields its flags leave out stay unspecified.\<close>

definition norm_exc :: "Exception \<Rightarrow> Exception \<Rightarrow> Exception" where
  "norm_exc e0 i = \<lparr>e_ulStartDateTime = e_ulStartDateTime i, e_ulEndDateTime = e_ulEndDateTime i,
     e_ulOriginalStartDate = e_ulOriginalStartDate i, e_ulOverrideFlags = e_ulOverrideFlags i,
     e_strSubject = (if e_has ARO_SUBJECT i then e_strSubject i else []),
     e_ulApptStateFlags = (if e_has ARO_MEETINGTYPE i then e_ulApptStateFlags i else e_ulApptStateFlags e0),
     e_ulReminderDelta = (if e_has ARO_REMINDERDELTA i then e_ulReminderDelta i else e_ulReminderDelta e0),
     e_ulReminderSet = (if e_has ARO_REMINDERSET i then e_ulReminderSet i else e_ulReminderSet e0),
     e_strLocation = (if e_has ARO_LOCATION i then e_strLocation i else []),
     e_ulBusyStatus = (if e_has ARO_BUSYSTATUS i then e_ulBusyStatus i else e_ulBusyStatus e0),
     e_ulAttachment = (if e_has ARO_ATTACHMENT i then e_ulAttachment i else e_ulAttachment e0),
     e_ulSubType = (if e_has ARO_SUBTYPE i then e_ulSubType i else e_ulSubType e0),
     e_ulAppointmentColor = (if e_has ARO_APPTCOLOR i then e_ulAppointmentColor i else e_ulAppointmentColor e0)\<rparr>"

definition wf_exc :: "Exception \<Rightarrow> bool" where
  "wf_exc i \<longleftrightarrow> unat (e_ulOverrideFlags i) < 65536 \<and> length (e_strSubject i) < 65535 \<and> length (e_strLocation i) < 65535"

lemma ex_string_when:
  assumes "length str < 65535" "e_has F e \<longleftrightarrow> b" "f (\<lambda>y. y) e = e" "unat a < 65536"
    "\<And>w s. ste r v x e s \<Longrightarrow> ste r v x e (u1 w s)" "\<And>w s. ste r v x e s \<Longrightarrow> ste r v x e (u2 w s)"
    "\<And>w s. n (u2 w s) = w"
  shows "reads (ste r v x e) [WHEN (ex_has F) [READSHORT u1, READSHORT u2, READSTRING (ex_set f) n]]
    (if b then WRITESHORT a @ WRITESHORT (of_nat (length str)) @ str else []) (ste r v x (f (\<lambda>y. if b then str else y) e))"
proof (rule reads_WHEN)
  have s: "reads (ste r v x e) [READSHORT u2, READSTRING (ex_set f) n] (WRITESHORT (of_nat (length str)) @ str) (ste r v x (f (\<lambda>_. str) e))"
    using assms(1,6,7) by (intro short.sized_string) (auto simp: unat_of_nat_small st_defs)
  have "reads (ste r v x e) [READSHORT u1] (WRITESHORT a) (ste r v x e)"
    using assms(4,5) by (intro short.scalar_read)
  from reads_append [OF this s]
  show "b \<Longrightarrow> reads (ste r v x e) [READSHORT u1, READSHORT u2, READSTRING (ex_set f) n]
    (WRITESHORT a @ WRITESHORT (of_nat (length str)) @ str) (ste r v x (f (\<lambda>y. if b then str else y) e))" by simp
qed (use assms(2,3) in \<open>auto simp: st_defs ex_has_def e_has_def\<close>)

lemma write_exception_concat:
  "write_exception i = concat [WRITELONG (e_ulStartDateTime i), WRITELONG (e_ulEndDateTime i),
     WRITELONG (e_ulOriginalStartDate i), WRITESHORT (e_ulOverrideFlags i),
     if e_has ARO_SUBJECT i then WRITESHORT (of_nat (length (e_strSubject i) + 1)) @ WRITESHORT (of_nat (length (e_strSubject i))) @ e_strSubject i else [],
     if e_has ARO_MEETINGTYPE i then WRITELONG (e_ulApptStateFlags i) else [],
     if e_has ARO_REMINDERDELTA i then WRITELONG (e_ulReminderDelta i) else [],
     if e_has ARO_REMINDERSET i then WRITELONG (e_ulReminderSet i) else [],
     if e_has ARO_LOCATION i then WRITESHORT (of_nat (length (e_strLocation i)) + 1) @ WRITESHORT (of_nat (length (e_strLocation i))) @ e_strLocation i else [],
     if e_has ARO_BUSYSTATUS i then WRITELONG (e_ulBusyStatus i) else [],
     if e_has ARO_ATTACHMENT i then WRITELONG (e_ulAttachment i) else [],
     if e_has ARO_SUBTYPE i then WRITELONG (e_ulSubType i) else [],
     if e_has ARO_APPTCOLOR i then WRITELONG (e_ulAppointmentColor i) else []]"
  by (simp add: write_exception_def)

lemma reads_exception:
  assumes "wf_exc i"
  shows "reads (st r v x) (parse_exception e0) (write_exception i)
    (st (r\<lparr>lstExceptions := lstExceptions r @ [norm_exc e0 i]\<rparr>) v x)"
proof -
  have w: "unat (e_ulOverrideFlags i) < 65536" "length (e_strSubject i) < 65535" "length (e_strLocation i) < 65535"
    using assms by (simp_all add: wf_exc_def)
  have u: "unat (of_nat (length (e_strSubject i) + 1) :: uint32) < 65536" "unat (of_nat (length (e_strLocation i)) + 1 :: uint32) < 65536"
  proof -
    have "unat (of_nat (n + 1) :: uint32) < 65536" if "n < 65535" for n
      using that by (subst unat_of_nat_small) simp_all
    from this [OF w(2)] this [OF w(3)] show "unat (of_nat (length (e_strSubject i) + 1) :: uint32) < 65536"
      "unat (of_nat (length (e_strLocation i)) + 1 :: uint32) < 65536" by (simp_all add: add.commute)
  qed
  show ?thesis unfolding parse_exception_def write_exception_concat
    apply (rule reads_SET [where Q = "ste r v x (new_Exception e0)"], simp add: st_defs)
    apply (rule reads_Cons, rule long.ex_field, simp)+
    apply (rule reads_Cons, rule short.ex_field, rule w)
    apply (rule reads_Cons, rule ex_string_when, rule w, simp add: e_has_def new_Exception_def, simp, rule u, simp add: st_defs, simp add: st_defs, simp)
    apply (rule reads_Cons, rule long.ex_field_when, simp, simp add: e_has_def new_Exception_def, simp)+
    apply (rule reads_Cons, rule ex_string_when, rule w, simp add: e_has_def new_Exception_def, simp, rule u, simp add: st_defs, simp add: st_defs, simp)
    apply (rule reads_Cons, rule long.ex_field_when, simp, simp add: e_has_def new_Exception_def, simp)+
    by (rule reads_SET_last) (simp add: st_defs norm_exc_def new_Exception_def)
qed

text \<open>The same for the extended data: \<open>v\<close> is the second writer version, \<open>j\<close> the exception it belongs to.\<close>

definition norm_ext :: "ExtendedException \<Rightarrow> uint32 \<Rightarrow> Exception \<Rightarrow> ExtendedException \<Rightarrow> ExtendedException" where
  "norm_ext x0 ver j i =
     (let sl = e_has ARO_SUBJECT j \<or> e_has ARO_LOCATION j; h = ver \<ge> 0x00003009 in
     \<lparr>x_ulChangeHighlightValue = (if h then x_ulChangeHighlightValue i else x_ulChangeHighlightValue x0),
      x_strReserved = (if h then x_strReserved i else []),
      x_strReservedBlock1 = x_strReservedBlock1 i,
      x_ulStartDateTime = (if sl then x_ulStartDateTime i else x_ulStartDateTime x0),
      x_ulEndDateTime = (if sl then x_ulEndDateTime i else x_ulEndDateTime x0),
      x_ulOriginalStartDate = (if sl then x_ulOriginalStartDate i else x_ulOriginalStartDate x0),
      x_strWideCharSubject = (if e_has ARO_SUBJECT j then x_strWideCharSubject i else []),
      x_strWideCharLocation = (if e_has ARO_LOCATION j then x_strWideCharLocation i else []),
      x_strReservedBlock2 = (if sl then x_strReservedBlock2 i else [])\<rparr>)"

text \<open>A wide string that the conversion writes as UTF-16 and reads back.\<close>

definition wf_wide :: "converter \<Rightarrow> wstring \<Rightarrow> bool" where
  "wf_wide C w \<longleftrightarrow> (case to_u16 C w of None \<Rightarrow> False
     | Some u \<Rightarrow> length u < 65536 \<and> from_ucs2le C (concat (map le16 u)) = Some w)"

definition wf_ext :: "converter \<Rightarrow> ExtendedException \<Rightarrow> bool" where
  "wf_ext C i \<longleftrightarrow> length (x_strReserved i) < 2 ^ 30 \<and> length (x_strReservedBlock1 i) < 2 ^ 31 \<and>
     length (x_strReservedBlock2 i) < 2 ^ 31 \<and>
     wf_wide C (x_strWideCharSubject i) \<and> wf_wide C (x_strWideCharLocation i)"

lemma length_concat_le16: "length (concat (map le16 u)) = 2 * length u"
  by (induction u) simp_all

lemma wide_when:
  assumes "wf_wide C w" "\<And>s. stx r v x xx s \<Longrightarrow> P s \<longleftrightarrow> b" "f (\<lambda>y. y) xx = xx"
    "\<And>a s. stx r v x xx s \<Longrightarrow> stx r v x xx (lu a s)" "\<And>a s. l (lu a s) = a"
  shows "\<exists>bs. write_wide C w = Some bs \<and>
    reads (stx r v x xx) [WHEN P [SET (strBytes_update (\<lambda>_. [])), READSHORT lu,
       READSTRING (\<lambda>v. strBytes_update (\<lambda>_. v)) (\<lambda>s. l s * 2),
       SET (\<lambda>s. sExtendedException_update (f (TryConvert (from_ucs2le C (strBytes s)))) s)]]
      (if b then bs else []) (stx r v x (f (\<lambda>y. if b then w else y) xx))"
proof -
  obtain u where u: "to_u16 C w = Some u" "length u < 65536" "from_ucs2le C (concat (map le16 u)) = Some w"
    using assms(1) by (auto simp: wf_wide_def split: option.splits)
  let ?n = "of_nat (length u) :: uint32" and ?s = "concat (map le16 u)"
  let ?P = "stx r v x xx"
  have n: "unat ?n < 65536" using u(2) by (simp add: unat_of_nat_small)
  have 1: "reads ?P [READSHORT lu] (WRITESHORT ?n) (\<lambda>s. ?P s \<and> l s = ?n)"
    using assms(4,5) n by (intro short.scalar_read) auto
  have 2: "reads (\<lambda>s. ?P s \<and> l s = ?n) [READSTRING (\<lambda>v. strBytes_update (\<lambda>_. v)) (\<lambda>s. l s * 2)] ?s (\<lambda>s. ?P s \<and> strBytes s = ?s)"
  proof (rule reads_STRING)
    show "length ?s < 2 ^ 31" using u(2) unfolding length_concat_le16 by simp
    show "?P s \<and> l s = ?n \<Longrightarrow> l s * 2 = of_nat (length ?s)" for s by (simp add: length_concat_le16 mult.commute)
  qed (simp add: st_defs)
  have t: "TryConvert (Some w) = (\<lambda>_. w)" by (rule ext) (simp add: TryConvert_def)
  have "reads ?P [SET (strBytes_update (\<lambda>_. [])), READSHORT lu, READSTRING (\<lambda>v. strBytes_update (\<lambda>_. v)) (\<lambda>s. l s * 2),
      SET (\<lambda>s. sExtendedException_update (f (TryConvert (from_ucs2le C (strBytes s)))) s)]
      (concat [WRITESHORT ?n, ?s]) (stx r v x (f (\<lambda>_. w) xx))"
    by (rule reads_SET [where Q = ?P], simp add: st_defs, rule reads_Cons [OF 1], rule reads_Cons [OF 2], rule reads_SET_last)
      (simp add: st_defs u(3) t)
  then have "reads ?P [WHEN P [SET (strBytes_update (\<lambda>_. [])), READSHORT lu,
       READSTRING (\<lambda>v. strBytes_update (\<lambda>_. v)) (\<lambda>s. l s * 2),
       SET (\<lambda>s. sExtendedException_update (f (TryConvert (from_ucs2le C (strBytes s)))) s)]]
      (if b then WRITESHORT ?n @ ?s else []) (stx r v x (f (\<lambda>y. if b then w else y) xx))"
    using assms(2,3) by (intro reads_WHEN) auto
  then show ?thesis using u(1) by (simp add: write_wide_def)
qed

lemma reads_extended:
  assumes "wf_ext C i"
  shows "\<exists>bs. write_extended C r' j i = Some bs \<and> (ulWriterVersion2 r = ulWriterVersion2 r' \<longrightarrow>
    reads (st r v x) (parse_extended C x0 j) bs
      (st (r\<lparr>lstExtendedExceptions := lstExtendedExceptions r @ [norm_ext x0 (ulWriterVersion2 r') j i]\<rparr>) v x))"
proof -
  have w: "length (x_strReserved i) < 2 ^ 30" "length (x_strReservedBlock1 i) < 2 ^ 31"
    "length (x_strReservedBlock2 i) < 2 ^ 31" "wf_wide C (x_strWideCharSubject i)" "wf_wide C (x_strWideCharLocation i)"
    using assms by (simp_all add: wf_ext_def)
  let ?sl = "e_has ARO_SUBJECT j \<or> e_has ARO_LOCATION j" and ?h = "ulWriterVersion2 r' \<ge> 0x00003009"
  let ?S = "stx r v x"
  let ?x1 = "new_ExtendedException x0"
  let ?x2 = "?x1\<lparr>x_ulChangeHighlightValue := (if ?h then x_ulChangeHighlightValue i else x_ulChangeHighlightValue x0),
    x_strReserved := (if ?h then x_strReserved i else [])\<rparr>"
  let ?x3 = "?x2\<lparr>x_strReservedBlock1 := x_strReservedBlock1 i\<rparr>"
  let ?x4 = "?x3\<lparr>x_ulStartDateTime := (if ?sl then x_ulStartDateTime i else x_ulStartDateTime x0),
     x_ulEndDateTime := (if ?sl then x_ulEndDateTime i else x_ulEndDateTime x0),
     x_ulOriginalStartDate := (if ?sl then x_ulOriginalStartDate i else x_ulOriginalStartDate x0)\<rparr>"
  let ?x5 = "x_strWideCharSubject_update (\<lambda>y. if e_has ARO_SUBJECT j then x_strWideCharSubject i else y) ?x4"
  let ?x6 = "x_strWideCharLocation_update (\<lambda>y. if e_has ARO_LOCATION j then x_strWideCharLocation i else y) ?x5"
  let ?x7 = "?x6\<lparr>x_strReservedBlock2 := (if ?sl then x_strReservedBlock2 i else [])\<rparr>"
  have 2: "reads (?S ?x1) [WHEN (\<lambda>s. ulWriterVersion2 (rs s) \<ge> 0x00003009) [
       READLONG (\<lambda>v. ulChangeHighlightSize_update (\<lambda>_. v)),
       READLONG (xx_set x_ulChangeHighlightValue_update),
       READSTRING (xx_set x_strReserved_update) (\<lambda>s. ulChangeHighlightSize s - 4)]]
     (if ?h then concat [WRITELONG (of_nat (length (x_strReserved i) + 4)), WRITELONG (x_ulChangeHighlightValue i), x_strReserved i] else []) (?S ?x2)"
     if ver: "ulWriterVersion2 r = ulWriterVersion2 r'"
  proof (rule reads_WHEN)
    let ?P = "\<lambda>xx s. ?S xx s \<and> ulChangeHighlightSize s = of_nat (length (x_strReserved i) + 4)"
    show "reads (?S ?x1) [READLONG (\<lambda>v. ulChangeHighlightSize_update (\<lambda>_. v)),
       READLONG (xx_set x_ulChangeHighlightValue_update),
       READSTRING (xx_set x_strReserved_update) (\<lambda>s. ulChangeHighlightSize s - 4)]
      (concat [WRITELONG (of_nat (length (x_strReserved i) + 4)), WRITELONG (x_ulChangeHighlightValue i), x_strReserved i]) (?S ?x2)" if ?h
      apply (rule reads_Cons [where Q = "?P ?x1"], rule long.scalar_read, simp, simp add: st_defs)
      apply (rule reads_Cons [where Q = "?P (?x1\<lparr>x_ulChangeHighlightValue := x_ulChangeHighlightValue i\<rparr>)"], rule long.scalar_read, simp, simp add: st_defs)
      using w(1) that reads_STRING [of "x_strReserved i"] by (auto intro!: reads_STRING simp: st_defs)
  qed (use ver in \<open>auto simp: st_defs new_ExtendedException_def\<close>)
  have 3: "reads (?S ?x2) [READLONG (\<lambda>v. ulReservedBlock1Size_update (\<lambda>_. v)), READSTRING (xx_set x_strReservedBlock1_update) ulReservedBlock1Size]
      (WRITELONG (of_nat (length (x_strReservedBlock1 i))) @ x_strReservedBlock1 i) (?S ?x3)"
    using w(2) by (intro long.sized_string) (simp_all add: st_defs)
  have 4: "reads (?S ?x3) [WHEN (\<lambda>_. ?sl) [READLONG (xx_set x_ulStartDateTime_update),
       READLONG (xx_set x_ulEndDateTime_update), READLONG (xx_set x_ulOriginalStartDate_update)]]
     (if ?sl then concat [WRITELONG (x_ulStartDateTime i), WRITELONG (x_ulEndDateTime i), WRITELONG (x_ulOriginalStartDate i)] else []) (?S ?x4)"
  proof (rule reads_WHEN)
    have "reads (?S ?x3) [READLONG (xx_set x_ulStartDateTime_update),
       READLONG (xx_set x_ulEndDateTime_update), READLONG (xx_set x_ulOriginalStartDate_update)]
       (concat [WRITELONG (x_ulStartDateTime i), WRITELONG (x_ulEndDateTime i), WRITELONG (x_ulOriginalStartDate i)])
       (?S (?x3\<lparr>x_ulStartDateTime := x_ulStartDateTime i, x_ulEndDateTime := x_ulEndDateTime i, x_ulOriginalStartDate := x_ulOriginalStartDate i\<rparr>))"
      by (rule reads_Cons, rule long.xx_field, simp)+ (simp add: reads_Nil)
    then show "?sl \<Longrightarrow> reads (?S ?x3) [READLONG (xx_set x_ulStartDateTime_update),
       READLONG (xx_set x_ulEndDateTime_update), READLONG (xx_set x_ulOriginalStartDate_update)]
       (concat [WRITELONG (x_ulStartDateTime i), WRITELONG (x_ulEndDateTime i), WRITELONG (x_ulOriginalStartDate i)]) (?S ?x4)"
      by (simp only: if_True)
  qed (auto simp: new_ExtendedException_def)
  obtain s where 5: "write_wide C (x_strWideCharSubject i) = Some s"
    "reads (?S ?x4) [WHEN (\<lambda>_. e_has ARO_SUBJECT j) [
       SET (strBytes_update (\<lambda>_. [])),
       READSHORT (\<lambda>v. ulWideCharSubjectLength_update (\<lambda>_. v)),
       READSTRING (\<lambda>v. strBytes_update (\<lambda>_. v)) (\<lambda>s. ulWideCharSubjectLength s * 2),
       SET (\<lambda>s. sExtendedException_update (x_strWideCharSubject_update (TryConvert (from_ucs2le C (strBytes s)))) s)]]
      (if e_has ARO_SUBJECT j then s else []) (?S ?x5)"
    using wide_when [OF w(4), of r v x ?x4 "\<lambda>_. e_has ARO_SUBJECT j" "e_has ARO_SUBJECT j" x_strWideCharSubject_update
      "\<lambda>v. ulWideCharSubjectLength_update (\<lambda>_. v)" ulWideCharSubjectLength] by (auto simp: st_defs)
  obtain l where 6: "write_wide C (x_strWideCharLocation i) = Some l"
    "reads (?S ?x5) [WHEN (\<lambda>_. e_has ARO_LOCATION j) [
       SET (strBytes_update (\<lambda>_. [])),
       READSHORT (\<lambda>v. ulWideCharLocationLength_update (\<lambda>_. v)),
       READSTRING (\<lambda>v. strBytes_update (\<lambda>_. v)) (\<lambda>s. ulWideCharLocationLength s * 2),
       SET (\<lambda>s. sExtendedException_update (x_strWideCharLocation_update (TryConvert (from_ucs2le C (strBytes s)))) s)]]
      (if e_has ARO_LOCATION j then l else []) (?S ?x6)"
    using wide_when [OF w(5), of r v x ?x5 "\<lambda>_. e_has ARO_LOCATION j" "e_has ARO_LOCATION j" x_strWideCharLocation_update
      "\<lambda>v. ulWideCharLocationLength_update (\<lambda>_. v)" ulWideCharLocationLength] by (auto simp: st_defs)
  have 7: "reads (?S ?x6) [WHEN (\<lambda>_. ?sl) [READLONG (\<lambda>v. ulReservedBlock2Size_update (\<lambda>_. v)),
       READSTRING (xx_set x_strReservedBlock2_update) ulReservedBlock2Size]]
     (if ?sl then WRITELONG (of_nat (length (x_strReservedBlock2 i))) @ x_strReservedBlock2 i else []) (?S ?x7)"
  proof (rule reads_WHEN)
    show "?sl \<Longrightarrow> reads (?S ?x6) [READLONG (\<lambda>v. ulReservedBlock2Size_update (\<lambda>_. v)), READSTRING (xx_set x_strReservedBlock2_update) ulReservedBlock2Size]
      (WRITELONG (of_nat (length (x_strReservedBlock2 i))) @ x_strReservedBlock2 i) (?S ?x7)"
      using w(3) by (intro long.sized_string) (simp_all add: st_defs)
  qed (cases x0, auto simp: new_ExtendedException_def)+
  let ?bs = "[if ?h then concat [WRITELONG (of_nat (length (x_strReserved i) + 4)), WRITELONG (x_ulChangeHighlightValue i), x_strReserved i] else [],
     WRITELONG (of_nat (length (x_strReservedBlock1 i))) @ x_strReservedBlock1 i,
     if ?sl then concat [WRITELONG (x_ulStartDateTime i), WRITELONG (x_ulEndDateTime i), WRITELONG (x_ulOriginalStartDate i)] else [],
     if e_has ARO_SUBJECT j then s else [], if e_has ARO_LOCATION j then l else [],
     if ?sl then WRITELONG (of_nat (length (x_strReservedBlock2 i))) @ x_strReservedBlock2 i else []]"
  have "write_extended C r' j i = Some (concat ?bs)"
    using 5(1) 6(1) by (simp add: write_extended_def)
  moreover have "reads (st r v x) (parse_extended C x0 j) (concat ?bs)
      (st (r\<lparr>lstExtendedExceptions := lstExtendedExceptions r @ [norm_ext x0 (ulWriterVersion2 r') j i]\<rparr>) v x)"
    if ver: "ulWriterVersion2 r = ulWriterVersion2 r'"
    unfolding parse_extended_def
    apply (rule reads_SET [where Q = "?S ?x1"], simp add: st_defs)
    apply (rule reads_Cons [OF 2 [OF ver]])
    apply (rule reads_Cons2 [OF 3])
    apply (rule reads_Cons [OF 4])
    apply (rule reads_Cons [OF 5(2)])
    apply (rule reads_Cons [OF 6(2)])
    apply (rule reads_Cons [OF 7])
    by (rule reads_SET_last) (simp add: st_defs norm_ext_def new_ExtendedException_def Let_def)
  ultimately show ?thesis by blast
qed
section \<open>The whole blob\<close>

definition set_pattern :: "RecurrenceState \<Rightarrow> RecurrenceState \<Rightarrow> RecurrenceState" where
  "set_pattern r r0 = r0\<lparr>ulReaderVersion := ulReaderVersion r, ulWriterVersion := ulWriterVersion r,
     ulRecurFrequency := ulRecurFrequency r, ulPatternType := ulPatternType r, ulCalendarType := ulCalendarType r,
     ulFirstDateTime := ulFirstDateTime r, ulPeriod := ulPeriod r, ulSlidingFlag := ulSlidingFlag r,
     ulWeekDays := (if ulPatternType r = PT_WEEK \<or> pattern_is_nth (ulPatternType r) then ulWeekDays r else ulWeekDays r0),
     ulDayOfMonth := (if pattern_is_month (ulPatternType r) then ulDayOfMonth r else ulDayOfMonth r0),
     ulWeekNumber := (if pattern_is_nth (ulPatternType r) then ulWeekNumber r else ulWeekNumber r0),
     ulEndType := ulEndType r, ulOccurrenceCount := ulOccurrenceCount r, ulFirstDOW := ulFirstDOW r\<rparr>"

definition set_dates :: "RecurrenceState \<Rightarrow> RecurrenceState \<Rightarrow> RecurrenceState" where
  "set_dates r r0 = r0\<lparr>ulDeletedInstanceCount := ulDeletedInstanceCount r, lstDeletedInstanceDates := lstDeletedInstanceDates r,
     ulModifiedInstanceCount := ulModifiedInstanceCount r, lstModifiedInstanceDates := lstModifiedInstanceDates r,
     ulStartDate := ulStartDate r, ulEndDate := ulEndDate r, ulReaderVersion2 := ulReaderVersion2 r,
     ulWriterVersion2 := ulWriterVersion2 r, ulStartTimeOffset := ulStartTimeOffset r,
     ulEndTimeOffset := ulEndTimeOffset r, ulExceptionCount := ulExceptionCount r\<rparr>"

definition wf_state :: "converter \<Rightarrow> RecurrenceState \<Rightarrow> bool" where
  "wf_state C r \<longleftrightarrow>
     unat (ulReaderVersion r) < 65536 \<and> unat (ulWriterVersion r) < 65536 \<and> unat (ulRecurFrequency r) < 65536 \<and>
     unat (ulPatternType r) < 65536 \<and> unat (ulCalendarType r) < 65536 \<and> unat (ulExceptionCount r) < 65536 \<and>
     unat (ulDeletedInstanceCount r) = length (lstDeletedInstanceDates r) \<and>
     unat (ulModifiedInstanceCount r) = length (lstModifiedInstanceDates r) \<and>
     unat (ulExceptionCount r) = length (lstExceptions r) \<and>
     length (lstExtendedExceptions r) = length (lstExceptions r) \<and>
     length (strReservedBlock1 r) < 2 ^ 31 \<and> length (strReservedBlock2 r) < 2 ^ 31 \<and>
     list_all wf_exc (lstExceptions r) \<and> list_all (wf_ext C) (lstExtendedExceptions r)"

lemma reads_Nil_eq: "P = Q \<Longrightarrow> reads P [] (concat []) Q"
  by (simp add: reads_Nil)

lemma patterns_exclusive:
  "pattern_is_month t \<Longrightarrow> t \<noteq> PT_DAY \<and> t \<noteq> PT_WEEK \<and> \<not> pattern_is_nth t"
  "pattern_is_nth t \<Longrightarrow> t \<noteq> PT_DAY \<and> t \<noteq> PT_WEEK" "PT_WEEK \<noteq> PT_DAY"
  by (auto simp: pattern_is_month_def pattern_is_nth_def PT_DAY_def PT_WEEK_def PT_MONTH_def PT_MONTH_END_def
      PT_MONTH_NTH_def PT_HJ_MONTH_def PT_HJ_MONTH_NTH_def PT_HJ_MONTH_END_def)

lemma write_pattern_concat:
  "write_pattern r = concat [WRITESHORT (ulReaderVersion r), WRITESHORT (ulWriterVersion r),
     WRITESHORT (ulRecurFrequency r), WRITESHORT (ulPatternType r), WRITESHORT (ulCalendarType r),
     WRITELONG (ulFirstDateTime r), WRITELONG (ulPeriod r), WRITELONG (ulSlidingFlag r),
     if ulPatternType r = PT_WEEK then WRITELONG (ulWeekDays r) else [],
     if pattern_is_month (ulPatternType r) then WRITELONG (ulDayOfMonth r) else [],
     if pattern_is_nth (ulPatternType r) then concat [WRITELONG (ulWeekDays r), WRITELONG (ulWeekNumber r)] else [],
     WRITELONG (ulEndType r), WRITELONG (ulOccurrenceCount r), WRITELONG (ulFirstDOW r)]"
  using patterns_exclusive(1,2) [of "ulPatternType r"] patterns_exclusive(3) by (auto simp: write_pattern_def)

lemma reads_nth_pattern:
  assumes "ulPatternType r0 = ulPatternType r"
  shows "reads (st r0 v x) [WHEN (\<lambda>s. pattern_is_nth (ulPatternType (rs s)))
       [READLONG (rs_set ulWeekDays_update), READLONG (rs_set ulWeekNumber_update)]]
     (if pattern_is_nth (ulPatternType r) then concat [WRITELONG (ulWeekDays r), WRITELONG (ulWeekNumber r)] else [])
     (st (r0\<lparr>ulWeekDays := (if pattern_is_nth (ulPatternType r) then ulWeekDays r else ulWeekDays r0),
        ulWeekNumber := (if pattern_is_nth (ulPatternType r) then ulWeekNumber r else ulWeekNumber r0)\<rparr>) v x)"
proof (rule reads_WHEN)
  have "reads (st r0 v x) [READLONG (rs_set ulWeekDays_update), READLONG (rs_set ulWeekNumber_update)]
      (concat [WRITELONG (ulWeekDays r), WRITELONG (ulWeekNumber r)])
      (st (r0\<lparr>ulWeekDays := ulWeekDays r, ulWeekNumber := ulWeekNumber r\<rparr>) v x)"
    by (rule reads_Cons, rule long.rs_field, simp)+ (simp add: reads_Nil)
  then show "pattern_is_nth (ulPatternType r) \<Longrightarrow> reads (st r0 v x) [READLONG (rs_set ulWeekDays_update), READLONG (rs_set ulWeekNumber_update)]
      (concat [WRITELONG (ulWeekDays r), WRITELONG (ulWeekNumber r)])
      (st (r0\<lparr>ulWeekDays := (if pattern_is_nth (ulPatternType r) then ulWeekDays r else ulWeekDays r0),
        ulWeekNumber := (if pattern_is_nth (ulPatternType r) then ulWeekNumber r else ulWeekNumber r0)\<rparr>) v x)"
    by (simp only: if_True)
qed (use assms in \<open>auto simp: st_defs\<close>)

lemma reads_pattern:
  assumes "wf_state C r"
  shows "reads (st r0 v x) parse_pattern (write_pattern r) (st (set_pattern r r0) v x)"
proof -
  have w: "unat (ulReaderVersion r) < 65536" "unat (ulWriterVersion r) < 65536" "unat (ulRecurFrequency r) < 65536"
     "unat (ulPatternType r) < 65536" "unat (ulCalendarType r) < 65536" using assms by (simp_all add: wf_state_def)
  show ?thesis unfolding parse_pattern_def write_pattern_concat
    apply (rule reads_Cons, rule short.rs_field, rule w)+
    apply (rule reads_Cons, rule long.rs_field, simp)+
    apply (rule reads_Cons, rule long.rs_field_when, simp, simp add: st_defs, simp)+
    apply (rule reads_Cons, rule reads_nth_pattern, simp)
    apply (rule reads_Cons, rule long.rs_field, simp)+
    apply (rule reads_Nil_eq)
    by (rule arg_cong [of _ _ "\<lambda>r. st r v x"]) (cases r0; simp add: set_pattern_def)
qed

lemma write_dates_concat:
  "write_dates r = concat [WRITELONG (ulDeletedInstanceCount r), concat (map WRITELONG (lstDeletedInstanceDates r)),
     WRITELONG (ulModifiedInstanceCount r), concat (map WRITELONG (lstModifiedInstanceDates r)),
     WRITELONG (ulStartDate r), WRITELONG (ulEndDate r), [],
     WRITELONG (ulReaderVersion2 r), WRITELONG (ulWriterVersion2 r),
     WRITELONG (ulStartTimeOffset r), WRITELONG (ulEndTimeOffset r), WRITESHORT (ulExceptionCount r)]"
  by (simp add: write_dates_def)

lemma reads_task_flag:
  "reads (st r v x) [WHEN (\<lambda>_. b) [SET (bReadValid_update (\<lambda>_. True))]] [] (st r (v \<or> b) x)"
  by (simp add: reads_def WHEN_def SET_def st_defs)

lemma reads_dates:
  assumes "wf_state C r" "lstDeletedInstanceDates r0 = []" "lstModifiedInstanceDates r0 = []"
  shows "reads (st r0 v x) (parse_dates fl) (write_dates r) (st (set_dates r r0) (v \<or> fl AND RECURRENCE_STATE_TASKS \<noteq> 0) x)"
proof -
  have w: "unat (ulExceptionCount r) < 65536" "unat (ulDeletedInstanceCount r) = length (lstDeletedInstanceDates r)"
     "unat (ulModifiedInstanceCount r) = length (lstModifiedInstanceDates r)" using assms(1) by (simp_all add: wf_state_def)
  have d: "reads (st r' v x) [TIMES (\<lambda>s. ulDeletedInstanceCount (rs s))
       [READLONG (\<lambda>v. rs_update (lstDeletedInstanceDates_update (\<lambda>xs. xs @ [v])))]]
      (concat (map WRITELONG (lstDeletedInstanceDates r))) (st (r'\<lparr>lstDeletedInstanceDates := lstDeletedInstanceDates r\<rparr>) v x)"
    if "ulDeletedInstanceCount r' = ulDeletedInstanceCount r" "lstDeletedInstanceDates r' = []" for r' v x
    using long.scalar_list [of "lstDeletedInstanceDates r" "\<lambda>xs. st (r'\<lparr>lstDeletedInstanceDates := xs\<rparr>) v x"
        "\<lambda>s. ulDeletedInstanceCount (rs s)" "\<lambda>v. rs_update (lstDeletedInstanceDates_update (\<lambda>xs. xs @ [v]))"] that w(2)
    by (cases r') (simp add: st_defs)
  have m: "reads (st r' v x) [TIMES (\<lambda>s. ulModifiedInstanceCount (rs s))
       [READLONG (\<lambda>v. rs_update (lstModifiedInstanceDates_update (\<lambda>xs. xs @ [v])))]]
      (concat (map WRITELONG (lstModifiedInstanceDates r))) (st (r'\<lparr>lstModifiedInstanceDates := lstModifiedInstanceDates r\<rparr>) v x)"
    if "ulModifiedInstanceCount r' = ulModifiedInstanceCount r" "lstModifiedInstanceDates r' = []" for r' v x
    using long.scalar_list [of "lstModifiedInstanceDates r" "\<lambda>xs. st (r'\<lparr>lstModifiedInstanceDates := xs\<rparr>) v x"
        "\<lambda>s. ulModifiedInstanceCount (rs s)" "\<lambda>v. rs_update (lstModifiedInstanceDates_update (\<lambda>xs. xs @ [v]))"] that w(3)
    by (cases r') (simp add: st_defs)
  show ?thesis unfolding parse_dates_def write_dates_concat
    apply (rule reads_Cons, rule long.rs_field, simp)
    apply (rule reads_Cons, rule d, simp, simp add: assms)
    apply (rule reads_Cons, rule long.rs_field, simp)
    apply (rule reads_Cons, rule m, simp, simp add: assms)
    apply (rule reads_Cons, rule long.rs_field, simp)+
    apply (rule reads_Cons, rule reads_task_flag)
    apply (rule reads_Cons, rule long.rs_field, simp)+
    apply (rule reads_Cons, rule short.rs_field, rule w)
    apply (rule reads_Nil_eq)
    by (rule arg_cong [of _ _ "\<lambda>r. st r _ x"]) (cases r0; simp add: set_dates_def)
qed
lemma st_rs: "st r v x s \<Longrightarrow> rs s = r"
  by (simp add: st_def)

lemma reads_TIMES:
  assumes "\<And>i. i < k \<Longrightarrow> reads (P i) body (bs ! i) (P (Suc i))" "length bs = k" "\<And>s. P 0 s \<Longrightarrow> unat (n s) = k"
  shows "reads (P 0) [TIMES n body] (concat bs) (P k)"
proof -
  have "reads (P 0) [FOREACH (\<lambda>s. replicate (unat (n s)) ()) (\<lambda>_. body)] (concat bs) (P (length (replicate k ())))"
    using assms by (intro reads_foreach) auto
  then show ?thesis by (simp add: reads_def FOREACH_def TIMES_def)
qed

lemma reads_exceptions:
  assumes "list_all wf_exc es" "lstExceptions r0 = []" "unat (ulExceptionCount r0) = length es"
  shows "reads (st r0 v x) [TIMES (\<lambda>s. ulExceptionCount (rs s)) (parse_exception e0)] (concat (map write_exception es))
    (st (r0\<lparr>lstExceptions := map (norm_exc e0) es\<rparr>) v x)"
proof -
  let ?P = "\<lambda>i. st (r0\<lparr>lstExceptions := map (norm_exc e0) (take i es)\<rparr>) v x"
  have "reads (?P i) (parse_exception e0) (map write_exception es ! i) (?P (Suc i))" if "i < length es" for i
    using reads_exception [of "es ! i" "r0\<lparr>lstExceptions := map (norm_exc e0) (take i es)\<rparr>" v x e0] that assms(1)
    by (simp add: list_all_length take_Suc_conv_app_nth)
  then have "reads (?P 0) [TIMES (\<lambda>s. ulExceptionCount (rs s)) (parse_exception e0)] (concat (map write_exception es)) (?P (length es))"
    using assms(3) by (intro reads_TIMES) (auto dest: st_rs)
  then show ?thesis using assms(2) by (cases r0) simp
qed

lemma norm_exc_has [simp]: "e_has F (norm_exc e0 e) = e_has F e"
  by (simp add: e_has_def norm_exc_def)

lemma parse_extended_norm: "parse_extended C x0 (norm_exc e0 j) = parse_extended C x0 j"
  by (simp add: parse_extended_def)

lemma norm_ext_norm: "norm_ext x0 ver (norm_exc e0 j) i = norm_ext x0 ver j i"
  by (simp add: norm_ext_def)

lemma write_all_extended_list:
  assumes "length es = length xs" "list_all (wf_ext C) xs"
  shows "\<exists>bs. write_all_extended C r es xs = Some (concat bs) \<and> length bs = length es \<and>
    (\<forall>i<length es. write_extended C r (es ! i) (xs ! i) = Some (bs ! i))"
  using assms
proof (induction es xs rule: list_induct2)
  case (Cons e es i xs)
  obtain b where b: "write_extended C r e i = Some b" 
  proof -
    have "wf_ext C i" using Cons.prems by simp
    from reads_extended [OF this] show ?thesis using that by blast
  qed
  obtain bs where "write_all_extended C r es xs = Some (concat bs)" "length bs = length es"
      "\<forall>i<length es. write_extended C r (es ! i) (xs ! i) = Some (bs ! i)"
    using Cons by auto
  then show ?case using b by (intro exI [of _ "b # bs"]) (auto simp: nth_Cons split: nat.splits)
qed simp

lemma reads_all_extended:
  assumes "length es = length xs" "list_all (wf_ext C) xs" "lstExtendedExceptions r0 = []"
    "lstExceptions r0 = map (norm_exc e0) es" "ulWriterVersion2 r0 = ulWriterVersion2 r"
  shows "\<exists>bs. write_all_extended C r es xs = Some bs \<and>
    reads (st r0 v x) [FOREACH (\<lambda>s. lstExceptions (rs s)) (parse_extended C x0)] bs
      (st (r0\<lparr>lstExtendedExceptions := map2 (norm_ext x0 (ulWriterVersion2 r)) es xs\<rparr>) v x)"
proof -
  obtain bs where bs: "write_all_extended C r es xs = Some (concat bs)" "length bs = length es"
      "\<forall>i<length es. write_extended C r (es ! i) (xs ! i) = Some (bs ! i)"
    using write_all_extended_list [OF assms(1,2)] by blast
  let ?ys = "map2 (norm_ext x0 (ulWriterVersion2 r)) es xs"
  let ?P = "\<lambda>i. st (r0\<lparr>lstExtendedExceptions := take i ?ys\<rparr>) v x"
  have "reads (?P i) (parse_extended C x0 (map (norm_exc e0) es ! i)) (bs ! i) (?P (Suc i))" if i: "i < length (map (norm_exc e0) es)" for i
  proof -
    have "take (Suc i) ?ys = take i ?ys @ [norm_ext x0 (ulWriterVersion2 r) (es ! i) (xs ! i)]"
      using i assms(1) by (simp add: take_Suc_conv_app_nth)
    then show ?thesis
      using reads_extended [of C "xs ! i" r "es ! i" "r0\<lparr>lstExtendedExceptions := take i ?ys\<rparr>" v x x0] i assms(1,2,5) bs(3)
      by (auto simp: list_all_length parse_extended_norm)
  qed
  then have "reads (?P 0) [FOREACH (\<lambda>s. lstExceptions (rs s)) (parse_extended C x0)] (concat bs) (?P (length (map (norm_exc e0) es)))"
    using bs(2) assms(4) by (intro reads_foreach) (auto dest: st_rs)
  then show ?thesis using bs(1) assms(1,3) by (cases r0) simp
qed

text \<open>What a blob of \<open>r\<close>, read into an object that held \<open>r0\<close>, leaves there.\<close>

definition stored :: "Exception \<Rightarrow> ExtendedException \<Rightarrow> RecurrenceState \<Rightarrow> RecurrenceState \<Rightarrow> RecurrenceState" where
  "stored e0 x0 r0 r = (set_dates r (set_pattern r r0))\<lparr>lstExceptions := map (norm_exc e0) (lstExceptions r),
     strReservedBlock1 := strReservedBlock1 r,
     lstExtendedExceptions := map2 (norm_ext x0 (ulWriterVersion2 r)) (lstExceptions r) (lstExtendedExceptions r),
     strReservedBlock2 := strReservedBlock2 r\<rparr>"

lemma reads_blob:
  assumes "wf_state C r"
  shows "\<exists>b. GetBlob C r = Some (Inr b) \<and>
    reads (st (rs (parse_init e0 x0 r0)) False False) (parse_all C e0 x0 fl) b (st (stored e0 x0 r0 r) True True)"
proof -
  let ?r0 = "rs (parse_init e0 x0 r0)"
  let ?r1 = "set_pattern r ?r0"
  let ?r2 = "set_dates r ?r1"
  let ?v = "False \<or> fl AND RECURRENCE_STATE_TASKS \<noteq> 0"
  let ?r3 = "?r2\<lparr>lstExceptions := map (norm_exc e0) (lstExceptions r)\<rparr>"
  let ?r4 = "?r3\<lparr>strReservedBlock1 := strReservedBlock1 r\<rparr>"
  let ?r5 = "?r4\<lparr>lstExtendedExceptions := map2 (norm_ext x0 (ulWriterVersion2 r)) (lstExceptions r) (lstExtendedExceptions r)\<rparr>"
  have w: "length (strReservedBlock1 r) < 2 ^ 31" "length (strReservedBlock2 r) < 2 ^ 31" "list_all wf_exc (lstExceptions r)"
      "list_all (wf_ext C) (lstExtendedExceptions r)" "unat (ulExceptionCount r) = length (lstExceptions r)"
      "length (lstExceptions r) = length (lstExtendedExceptions r)"
    using assms by (simp_all add: wf_state_def)
  have i: "lstDeletedInstanceDates ?r1 = []" "lstModifiedInstanceDates ?r1 = []" "lstExceptions ?r2 = []"
      "unat (ulExceptionCount ?r2) = length (lstExceptions r)" "lstExtendedExceptions ?r4 = []"
      "ulWriterVersion2 ?r4 = ulWriterVersion2 r"
    using w(5) by (simp_all add: parse_init_def set_pattern_def set_dates_def)
  obtain ext where e: "write_all_extended C r (lstExceptions r) (lstExtendedExceptions r) = Some ext"
      "reads (st ?r4 True False) [FOREACH (\<lambda>s. lstExceptions (rs s)) (parse_extended C x0)] ext (st ?r5 True False)"
    using reads_all_extended [OF w(6,4) i(5) _ i(6)] by fastforce
  have s1: "reads (st ?r3 True False) [READLONG (\<lambda>v. ulReservedBlock1Size_update (\<lambda>_. v)), READSTRING (rs_set strReservedBlock1_update) ulReservedBlock1Size]
      (WRITELONG (of_nat (length (strReservedBlock1 r))) @ strReservedBlock1 r) (st ?r4 True False)"
    using w(1) by (intro long.sized_string) (simp_all add: st_defs)
  have s2: "reads (st ?r5 True True) [READLONG (\<lambda>v. ulReservedBlock2Size_update (\<lambda>_. v)), READSTRING (rs_set strReservedBlock2_update) ulReservedBlock2Size]
      (WRITELONG (of_nat (length (strReservedBlock2 r))) @ strReservedBlock2 r) (st (stored e0 x0 r0 r) True True)"
    using w(2) by (intro long.sized_string) (simp_all add: st_defs stored_def parse_init_def set_pattern_def set_dates_def)
  have tail: "reads (st ?r3 ?v False) (parse_tail C x0)
      (concat [WRITELONG (of_nat (length (strReservedBlock1 r))) @ strReservedBlock1 r, ext,
        WRITELONG (of_nat (length (strReservedBlock2 r))) @ strReservedBlock2 r]) (st (stored e0 x0 r0 r) True True)"
    unfolding parse_tail_def
    apply (rule reads_SET [where Q = "st ?r3 True False"], simp add: st_defs)
    apply (rule reads_Cons2 [OF s1])
    apply (rule reads_Cons [OF e(2)])
    apply (rule reads_SET [where Q = "st ?r5 True True"], simp add: st_defs)
    by (rule reads_Cons2 [OF s2]) (simp add: reads_Nil)
  have "reads (st ?r0 False False) (parse_all C e0 x0 fl) (write_pattern r @ write_dates r @ concat (map write_exception (lstExceptions r)) @
      concat [WRITELONG (of_nat (length (strReservedBlock1 r))) @ strReservedBlock1 r, ext,
        WRITELONG (of_nat (length (strReservedBlock2 r))) @ strReservedBlock2 r]) (st (stored e0 x0 r0 r) True True)"
    unfolding parse_all_def
    by (rule reads_append [OF reads_pattern [OF assms]], rule reads_append [OF reads_dates [OF assms i(1,2)]],
        rule reads_append [OF reads_exceptions [OF w(3) i(3,4)] tail])
  then show ?thesis using e(1) w(6) by (simp add: GetBlob_def)
qed

section \<open>A concrete recurrence\<close>

text \<open>A converter for characters of 16 bits, and a weekly appointment whose second meeting has its own subject and place.\<close>

fun pairs16 :: "bytes \<Rightarrow> wstring option" where
  "pairs16 [] = Some []"
| "pairs16 [b] = None"
| "pairs16 (a # b # bs) = map_option (\<lambda>w. (ucast a OR push_bit 8 (ucast b)) # w) (pairs16 bs)"

definition demo_conv :: converter where
  "demo_conv = \<lparr>from_ucs2le = pairs16, from_cp1252 = (\<lambda>b. Some (map ucast b)), to_u16 = (\<lambda>w. Some (map ucast w))\<rparr>"

definition demo_e0 :: Exception where
  "demo_e0 = \<lparr>e_ulStartDateTime = 0, e_ulEndDateTime = 0, e_ulOriginalStartDate = 0, e_ulOverrideFlags = 0, e_strSubject = [],
     e_ulApptStateFlags = 7, e_ulReminderDelta = 7, e_ulReminderSet = 7, e_strLocation = [], e_ulBusyStatus = 7,
     e_ulAttachment = 7, e_ulSubType = 7, e_ulAppointmentColor = 7\<rparr>"

definition demo_x0 :: ExtendedException where
  "demo_x0 = \<lparr>x_ulChangeHighlightValue = 7, x_strReserved = [], x_strReservedBlock1 = [], x_ulStartDateTime = 7,
     x_ulEndDateTime = 7, x_ulOriginalStartDate = 7, x_strWideCharSubject = [], x_strWideCharLocation = [], x_strReservedBlock2 = []\<rparr>"

definition demo_weekly :: RecurrenceState where
  "demo_weekly = \<lparr>ulReaderVersion = 0x3004, ulWriterVersion = 0x3004, ulRecurFrequency = 0x200B, ulPatternType = PT_WEEK,
     ulCalendarType = 0, ulFirstDateTime = 0, ulPeriod = 1, ulSlidingFlag = 0, ulWeekDays = 2, ulDayOfMonth = 0, ulWeekNumber = 0,
     ulEndType = 0x2022, ulOccurrenceCount = 5, ulFirstDOW = 1, ulDeletedInstanceCount = 1, lstDeletedInstanceDates = [1440],
     ulModifiedInstanceCount = 1, lstModifiedInstanceDates = [1440], ulStartDate = 0, ulEndDate = 43200,
     ulReaderVersion2 = 0x3006, ulWriterVersion2 = 0x3009, ulStartTimeOffset = 540, ulEndTimeOffset = 600, ulExceptionCount = 1,
     lstExceptions = [\<lparr>e_ulStartDateTime = 2100, e_ulEndDateTime = 2160, e_ulOriginalStartDate = 1980,
       e_ulOverrideFlags = 0x31, e_strSubject = [72, 105], e_ulApptStateFlags = 0, e_ulReminderDelta = 0, e_ulReminderSet = 0,
       e_strLocation = [66], e_ulBusyStatus = 2, e_ulAttachment = 0, e_ulSubType = 0, e_ulAppointmentColor = 0\<rparr>],
     strReservedBlock1 = [], lstExtendedExceptions = [\<lparr>x_ulChangeHighlightValue = 1, x_strReserved = [9], x_strReservedBlock1 = [],
       x_ulStartDateTime = 2100, x_ulEndDateTime = 2160, x_ulOriginalStartDate = 1980, x_strWideCharSubject = [72, 0x20AC],
       x_strWideCharLocation = [66], x_strReservedBlock2 = []\<rparr>], strReservedBlock2 = []\<rparr>"

definition demo_blob :: bytes where
  "demo_blob = (case GetBlob demo_conv demo_weekly of Some (Inr b) \<Rightarrow> b | _ \<Rightarrow> [])"

lemma demo_wf: "wf_state demo_conv demo_weekly"
  by (simp add: wf_state_def wf_exc_def wf_ext_def wf_wide_def demo_weekly_def demo_conv_def PT_WEEK_def le16_def)

lemma demo_blob_written: "GetBlob demo_conv demo_weekly = Some (Inr demo_blob)"
  by code_simp

lemma demo_blob_length: "length demo_blob = 156"
  by code_simp

text \<open>
  C15: Every well formed recurrence is written, and reading the blob back succeeds and restores every
  field: those the pattern type or the flags of an exception leave out keep the value they had.
\<close>

theorem recurrence_round_trip:
  assumes "wf_state C r"
  shows "\<exists>b. GetBlob C r = Some (Inr b) \<and>
    (length b + 4 < 2 ^ 32 \<longrightarrow> ParseBlob C e0 x0 b fl r0 = Some (hrSuccess, stored e0 x0 r0 r))"
proof -
  obtain b where b: "GetBlob C r = Some (Inr b)"
      "reads (st (rs (parse_init e0 x0 r0)) False False) (parse_all C e0 x0 fl) b (st (stored e0 x0 r0 r) True True)"
    using reads_blob [OF assms] by blast
  have "ParseBlob C e0 x0 b fl r0 = Some (hrSuccess, stored e0 x0 r0 r)" if "length b + 4 < 2 ^ 32"
  proof -
    have "at b 0 (b @ [])" "st (rs (parse_init e0 x0 r0)) False False (parse_init e0 x0 r0)"
      using that by (simp_all add: at_def st_defs parse_init_def)
    then obtain s where "run (parse_all C e0 x0 fl) b 0 (parse_init e0 x0 r0) = Go (of_nat (length b)) s" "st (stored e0 x0 r0 r) True True s"
      using b(2) unfolding reads_def by (metis add_0)
    then show ?thesis by (simp add: ParseBlob_def parse_exit_def st_defs)
  qed
  then show ?thesis using b(1) by blast
qed

theorem recurrence_round_trip_witness:
  "ParseBlob demo_conv demo_e0 demo_x0 demo_blob 1 demo_weekly = Some (hrSuccess, stored demo_e0 demo_x0 demo_weekly demo_weekly)"
  using recurrence_round_trip [OF demo_wf, of demo_e0 demo_x0 1 demo_weekly] demo_blob_written demo_blob_length by auto

section \<open>Every other blob\<close>

text \<open>
  Where \<open>P\<close> holds the statement is defined; it either jumps to the end with \<open>F\<close> or goes on with \<open>Q\<close>.
\<close>

definition guarded :: "(parsestate \<Rightarrow> bool) \<Rightarrow> stmt \<Rightarrow> (parsestate \<Rightarrow> bool) \<Rightarrow> (parsestate \<Rightarrow> bool) \<Rightarrow> bool" where
  "guarded P x F Q \<longleftrightarrow> (\<forall>d c s. length d + 4 < 2 ^ 32 \<longrightarrow> unat c \<le> length d \<longrightarrow> P s \<longrightarrow>
     (case x d c s of Undef \<Rightarrow> False | Fail c s \<Rightarrow> F s | Go c s \<Rightarrow> unat c \<le> length d \<and> Q s))"

text \<open>A statement that goes on does the same when more bytes follow.\<close>

definition extends :: "stmt \<Rightarrow> bool" where
  "extends x \<longleftrightarrow> (\<forall>d e c s c' s'. length (d @ e) + 4 < 2 ^ 32 \<longrightarrow> unat c \<le> length d \<longrightarrow> x d c s = Go c' s' \<longrightarrow>
     x (d @ e) c s = Go c' s' \<and> unat c' \<le> length d)"

locale total_reader = scalar_codec +
  assumes rd_total: "length d + 4 < 2 ^ 32 \<Longrightarrow> unat c \<le> length d \<Longrightarrow> rd upd d c s = Fail c s \<or>
    (\<exists>v c'. unat c' \<le> length d \<and> rd upd d c s = Go c' (upd v s) \<and>
      (\<forall>e. length (d @ e) + 4 < 2 ^ 32 \<longrightarrow> rd upd (d @ e) c s = Go c' (upd v s)))"
begin

lemma guarded_read: "(\<And>s. P s \<Longrightarrow> F s) \<Longrightarrow> (\<And>v s. P s \<Longrightarrow> Q (upd v s)) \<Longrightarrow> guarded P (rd upd) F Q"
  unfolding guarded_def
proof (intro allI impI)
  fix d :: bytes and c :: uint32 and s assume a: "length d + 4 < 2 ^ 32" "unat c \<le> length d" "P s"
    and "\<And>s. P s \<Longrightarrow> F s" "\<And>v s. P s \<Longrightarrow> Q (upd v s)"
  then show "case rd upd d c s of Undef \<Rightarrow> False | Fail c s \<Rightarrow> F s | Go c s \<Rightarrow> unat c \<le> length d \<and> Q s"
    using rd_total [OF a(1,2), of upd s] by auto
qed

lemma extends_read: "extends (rd upd)"
  unfolding extends_def
proof (intro allI impI)
  fix d e :: bytes and c c' :: uint32 and s s' assume a: "length (d @ e) + 4 < 2 ^ 32" "unat c \<le> length d" "rd upd d c s = Go c' s'"
  then have "length d + 4 < 2 ^ 32" by simp
  from rd_total [OF this a(2), of upd s] a(1,3)
  show "rd upd (d @ e) c s = Go c' s' \<and> unat c' \<le> length d" by auto
qed

end

lemma of_le16_some: "i + 2 \<le> length d \<Longrightarrow> \<exists>v. of_le16 d i = Some v \<and> (\<forall>e. of_le16 (d @ e) i = Some v)"
  by (simp add: of_le16_def nth_append)

lemma of_le32_some: "i + 4 \<le> length d \<Longrightarrow> \<exists>v. of_le32 d i = Some v \<and> (\<forall>e. of_le32 (d @ e) i = Some v)"
  by (simp add: of_le32_def nth_append)

lemma cursor_bound:
  assumes "length d + 4 < 2 ^ 32" "unat c \<le> length d" "n \<le> 4"
  shows "c + of_nat n > of_nat (length d) \<longleftrightarrow> unat (c :: uint32) + n > length d" "unat (c + of_nat n) = unat c + n"
proof -
  show u: "unat (c + of_nat n) = unat c + n"
    using assms by (subst unat_add_small) (simp_all add: unat_of_nat_small)
  have "length d < 2 ^ LENGTH(32)" using assms(1) by simp
  then show "c + of_nat n > of_nat (length d) \<longleftrightarrow> unat c + n > length d"
    unfolding word_less_nat_alt u by (simp only: unat_of_nat_small)
qed

interpretation short: total_reader READSHORT WRITESHORT "\<lambda>w. unat w < 65536"
proof unfold_locales
  fix d :: bytes and c :: uint32 and upd s assume a: "length d + 4 < 2 ^ 32" "unat c \<le> length d"
  note b = cursor_bound [OF a, of 2, simplified]
  show "READSHORT upd d c s = Fail c s \<or> (\<exists>v c'. unat c' \<le> length d \<and> READSHORT upd d c s = Go c' (upd v s) \<and>
      (\<forall>e. length (d @ e) + 4 < 2 ^ 32 \<longrightarrow> READSHORT upd (d @ e) c s = Go c' (upd v s)))"
  proof (cases "unat c + 2 > length d")
    case False
    then obtain v where v: "of_le16 d (unat c) = Some v" "\<And>e. of_le16 (d @ e) (unat c) = Some v" using of_le16_some by (metis not_less)
    have "READSHORT upd (d @ e) c s = Go (c + 2) (upd (ucast v) s)" if "length (d @ e) + 4 < 2 ^ 32" for e
      using cursor_bound(1) [OF that, of c 2, simplified] a(2) False v(2) by (simp add: READSHORT_def)
    then show ?thesis using False v(1) b by (auto simp: READSHORT_def)
  qed (simp add: READSHORT_def b)
qed

interpretation long: total_reader READLONG WRITELONG "\<lambda>_. True"
proof unfold_locales
  fix d :: bytes and c :: uint32 and upd s assume a: "length d + 4 < 2 ^ 32" "unat c \<le> length d"
  note b = cursor_bound [OF a, of 4, simplified]
  show "READLONG upd d c s = Fail c s \<or> (\<exists>v c'. unat c' \<le> length d \<and> READLONG upd d c s = Go c' (upd v s) \<and>
      (\<forall>e. length (d @ e) + 4 < 2 ^ 32 \<longrightarrow> READLONG upd (d @ e) c s = Go c' (upd v s)))"
  proof (cases "unat c + 4 > length d")
    case False
    then obtain v where v: "of_le32 d (unat c) = Some v" "\<And>e. of_le32 (d @ e) (unat c) = Some v" using of_le32_some by (metis not_less)
    have "READLONG upd (d @ e) c s = Go (c + 4) (upd v s)" if "length (d @ e) + 4 < 2 ^ 32" for e
      using cursor_bound(1) [OF that, of c 4, simplified] a(2) False v(2) by (simp add: READLONG_def)
    then show ?thesis using False v(1) b by (auto simp: READLONG_def)
  qed (simp add: READLONG_def b)
qed

lemma string_bound:
  assumes "length d + 4 < 2 ^ 32" "unat c \<le> length d"
  shows "unat (of_nat (length d) - c :: uint32) = length d - unat c"
    "len \<le> of_nat (length d) - c \<Longrightarrow> unat (c + len) = unat c + unat len \<and> unat c + unat len \<le> length d"
proof -
  have u: "unat (of_nat (length d) :: uint32) = length d" using assms(1) by (simp add: unat_of_nat_small)
  show l: "unat (of_nat (length d) - c :: uint32) = length d - unat c"
    using assms(2) u by (subst unat_sub) (simp_all add: word_le_nat_alt)
  assume "len \<le> of_nat (length d) - c"
  then have "unat c + unat len \<le> length d" using assms(2) by (simp add: word_le_nat_alt l)
  then show "unat (c + len) = unat c + unat len \<and> unat c + unat len \<le> length d"
    using assms(1) by (simp add: unat_add_small)
qed

lemma READSTRING_go:
  "\<not> n s > of_nat (length d) - c \<Longrightarrow> \<not> c + n s > of_nat (length d) \<Longrightarrow>
    chars_at d (unat c) (unat (n s)) = Some str \<Longrightarrow> 0 \<le> sint (n s) \<Longrightarrow> READSTRING upd n d c s = Go (c + n s) (upd str s)"
  by (simp add: READSTRING_def)

lemma READSTRING_cases:
  assumes "length d + 4 < 2 ^ 32" "unat c \<le> length d"
  shows "(\<exists>c' str. READSTRING upd n d c s = Fail c' (upd str s)) \<or>
    (\<exists>c' str. unat c' \<le> length d \<and> READSTRING upd n d c s = Go c' (upd str s) \<and>
      (\<forall>e. length (d @ e) + 4 < 2 ^ 32 \<longrightarrow> READSTRING upd n (d @ e) c s = Go c' (upd str s)))"
proof -
  let ?left = "of_nat (length d) - c" and ?len = "n s"
  let ?real = "if ?len > ?left then ?left else ?len"
  have r: "?real \<le> ?left" by (simp add: not_less)
  note b = string_bound(2) [OF assms r]
  have nf: "\<not> c + ?real > of_nat (length d)"
    using b assms(1) by (simp only: word_less_nat_alt unat_of_nat_small) (simp add: unat_of_nat_small)
  obtain str where str: "chars_at d (unat c) (unat ?real) = Some str" "\<And>e. chars_at (d @ e) (unat c) (unat ?real) = Some str"
    using b by (auto simp: chars_at_def)
  show ?thesis
  proof (cases "?real = ?len \<and> 0 \<le> sint ?len")
    case False
    then have "READSTRING upd n d c s = Fail (c + ?real) (upd str s)"
      using nf str(1) unfolding READSTRING_def Let_def by (simp only: if_False option.case)
    then show ?thesis by blast
  next
    case True
    have g: "READSTRING upd n d c s = Go (c + ?len) (upd str s)"
    proof -
      have "?real = ?len" using True by blast
      moreover have "\<not> ?len > ?left" using r calculation by (simp only: not_less)
      ultimately show ?thesis using nf str(1) True by (intro READSTRING_go) simp_all
    qed
    have "READSTRING upd n (d @ e) c s = Go (c + ?len) (upd str s)" if e: "length (d @ e) + 4 < 2 ^ 32" for e
    proof -
      have c: "unat c \<le> length (d @ e)" using assms(2) by simp
      have "unat (of_nat (length (d @ e)) - c :: uint32) = length (d @ e) - unat c" using string_bound(1) [OF e c] .
      moreover have "unat ?len \<le> length (d @ e) - unat c" using True b by auto
      ultimately have l: "?len \<le> of_nat (length (d @ e)) - c" by (simp only: word_le_nat_alt)
      have "\<not> c + ?len > of_nat (length (d @ e))"
      proof -
        have "unat (of_nat (length (d @ e)) :: uint32) = length (d @ e)" using e by (intro unat_of_nat_small) simp
        then show ?thesis using string_bound(2) [OF e c l] unfolding word_less_nat_alt by linarith
      qed
      moreover have "chars_at (d @ e) (unat c) (unat ?len) = Some str" "0 \<le> sint ?len" using True str(2) [of e] by auto
      moreover have "\<not> ?len > of_nat (length (d @ e)) - c" using l by (simp only: not_less)
      ultimately show ?thesis by (intro READSTRING_go)
    qed
    moreover have "unat (c + ?len) \<le> length d" using b True by auto
    ultimately show ?thesis using g by blast
  qed
qed

lemma guarded_STRING: "(\<And>v s. P s \<Longrightarrow> F (upd v s)) \<Longrightarrow> (\<And>v s. P s \<Longrightarrow> Q (upd v s)) \<Longrightarrow> guarded P (READSTRING upd n) F Q"
  unfolding guarded_def
proof (intro allI impI)
  fix d :: bytes and c :: uint32 and s assume a: "length d + 4 < 2 ^ 32" "unat c \<le> length d" "P s"
    and "\<And>v s. P s \<Longrightarrow> F (upd v s)" "\<And>v s. P s \<Longrightarrow> Q (upd v s)"
  then show "case READSTRING upd n d c s of Undef \<Rightarrow> False | Fail c s \<Rightarrow> F s | Go c s \<Rightarrow> unat c \<le> length d \<and> Q s"
    using READSTRING_cases [OF a(1,2), of upd n s] by auto
qed

lemma extends_STRING: "extends (READSTRING upd n)"
  unfolding extends_def
proof (intro allI impI)
  fix d e :: bytes and c c' :: uint32 and s s' assume a: "length (d @ e) + 4 < 2 ^ 32" "unat c \<le> length d" "READSTRING upd n d c s = Go c' s'"
  then have "length d + 4 < 2 ^ 32" by simp
  from READSTRING_cases [OF this a(2), of upd n s] a(1,3)
  show "READSTRING upd n (d @ e) c s = Go c' s' \<and> unat c' \<le> length d" by auto
qed

lemma guarded_Nil: "guarded P (run []) F P"
  by (simp add: guarded_def)

lemma guarded_Cons:
  assumes "guarded P x F Q" "guarded Q (run xs) F R"
  shows "guarded P (run (x # xs)) F R"
  unfolding guarded_def
proof (intro allI impI)
  fix d :: bytes and c :: uint32 and s assume a: "length d + 4 < 2 ^ 32" "unat c \<le> length d" "P s"
  note x = assms(1) [unfolded guarded_def, rule_format, OF a]
  show "case run (x # xs) d c s of Undef \<Rightarrow> False | Fail c s \<Rightarrow> F s | Go c s \<Rightarrow> unat c \<le> length d \<and> R s"
  proof (cases "x d c s")
    case (Go c' t)
    then show ?thesis using x assms(2) [unfolded guarded_def, rule_format, OF a(1), of c' t] by (simp add: run.simps(2))
  qed (use x in \<open>simp_all add: run.simps(2)\<close>)
qed

lemma guarded_run: "(\<And>x. x \<in> set xs \<Longrightarrow> guarded P x F P) \<Longrightarrow> guarded P (run xs) F P"
  by (induction xs) (auto intro: guarded_Nil guarded_Cons)

lemma guarded_WHEN: "guarded P (run xs) F P \<Longrightarrow> guarded P (WHEN b xs) F P"
  by (simp add: guarded_def WHEN_def)

lemma guarded_SET: "(\<And>s. P s \<Longrightarrow> Q (f s)) \<Longrightarrow> guarded P (SET f) F Q"
  by (simp add: guarded_def SET_def)

lemma guarded_foreach:
  assumes "\<And>i. i < length xs \<Longrightarrow> guarded (P i) (run (body (xs ! i))) F (P (Suc i))"
  shows "guarded (P 0) (foreach xs body) F (P (length xs))"
proof -
  have "guarded (P k) (foreach xs body) F (P (k + length xs))"
    if "\<And>i. i < length xs \<Longrightarrow> guarded (P (k + i)) (run (body (xs ! i))) F (P (Suc (k + i)))" for k
    using that
  proof (induction xs arbitrary: k)
    case Nil
    then show ?case by (simp add: guarded_def)
  next
    case (Cons x xs)
    have b: "guarded (P k) (run (body x)) F (P (Suc k))" using Cons.prems [of 0] by simp
    have r: "guarded (P (Suc k)) (foreach xs body) F (P (Suc k + length xs))"
    proof (rule Cons.IH)
      show "guarded (P (Suc k + i)) (run (body (xs ! i))) F (P (Suc (Suc k + i)))" if "i < length xs" for i
        using Cons.prems [of "Suc i"] that by simp
    qed
    have e: "k + length (x # xs) = Suc k + length xs" by simp
    show ?case unfolding guarded_def e
    proof (intro allI impI)
      fix d :: bytes and c :: uint32 and s assume a: "length d + 4 < 2 ^ 32" "unat c \<le> length d" "P k s"
      note x = b [unfolded guarded_def, rule_format, OF a]
      show "case foreach (x # xs) body d c s of Undef \<Rightarrow> False | Fail c s \<Rightarrow> F s
          | Go c s \<Rightarrow> unat c \<le> length d \<and> P (Suc k + length xs) s"
      proof (cases "run (body x) d c s")
        case (Go c' t)
        then show ?thesis using x r [unfolded guarded_def, rule_format, OF a(1), of c' t] by simp
      qed (use x in simp_all)
    qed
  qed
  from this [of 0] assms show ?thesis by simp
qed

lemma extends_run: "(\<And>x. x \<in> set xs \<Longrightarrow> extends x) \<Longrightarrow> extends (run xs)"
proof (induction xs)
  case (Cons x xs)
  have x: "extends x" "extends (run xs)" using Cons by simp_all
  show ?case unfolding extends_def
  proof (intro allI impI)
    fix d e :: bytes and c c' :: uint32 and s s' assume a: "length (d @ e) + 4 < 2 ^ 32" "unat c \<le> length d" "run (x # xs) d c s = Go c' s'"
    then obtain c1 s1 where g: "x d c s = Go c1 s1" "run xs d c1 s1 = Go c' s'"
      by (simp add: run.simps(2) split: outcome.splits)
    then have "x (d @ e) c s = Go c1 s1" "unat c1 \<le> length d"
      using x(1) [unfolded extends_def, rule_format, OF a(1,2)] by simp_all
    then show "run (x # xs) (d @ e) c s = Go c' s' \<and> unat c' \<le> length d"
      using x(2) [unfolded extends_def, rule_format, OF a(1) _ g(2)] by (simp add: run.simps(2))
  qed
qed (simp add: extends_def)

lemma extends_foreach: "(\<And>x. extends (run (body x))) \<Longrightarrow> extends (foreach xs body)"
proof (induction xs)
  case (Cons x xs)
  have x: "extends (run (body x))" "extends (foreach xs body)" using Cons by simp_all
  show ?case unfolding extends_def
  proof (intro allI impI)
    fix d e :: bytes and c c' :: uint32 and s s' assume a: "length (d @ e) + 4 < 2 ^ 32" "unat c \<le> length d" "foreach (x # xs) body d c s = Go c' s'"
    then obtain c1 s1 where g: "run (body x) d c s = Go c1 s1" "foreach xs body d c1 s1 = Go c' s'"
      by (simp split: outcome.splits)
    then have "run (body x) (d @ e) c s = Go c1 s1" "unat c1 \<le> length d"
      using x(1) [unfolded extends_def, rule_format, OF a(1,2)] by simp_all
    then show "foreach (x # xs) body (d @ e) c s = Go c' s' \<and> unat c' \<le> length d"
      using x(2) [unfolded extends_def, rule_format, OF a(1) _ g(2)] by simp
  qed
qed (simp add: extends_def)

lemma extends_SET: "extends (SET f)"
  by (simp add: extends_def SET_def)

lemma extends_WHEN: "extends (run xs) \<Longrightarrow> extends (WHEN b xs)"
  by (simp add: extends_def WHEN_def)

lemma extends_FOREACH: "(\<And>x. extends (run (body x))) \<Longrightarrow> extends (FOREACH g body)"
  using extends_foreach [of body] unfolding extends_def FOREACH_def by blast

lemma extends_TIMES: "extends (run xs) \<Longrightarrow> extends (TIMES n xs)"
proof -
  assume "extends (run xs)"
  then have "extends (foreach ys (\<lambda>_ :: unit. xs))" for ys by (rule extends_foreach)
  then show ?thesis unfolding extends_def TIMES_def by blast
qed

lemmas extends_intros = extends_run extends_SET extends_WHEN extends_FOREACH extends_TIMES extends_STRING
  short.extends_read long.extends_read

lemma extends_pattern: "x \<in> set parse_pattern \<Longrightarrow> extends x"
  unfolding parse_pattern_def by (auto intro!: extends_intros)

lemma extends_dates: "x \<in> set (parse_dates fl) \<Longrightarrow> extends x"
  unfolding parse_dates_def by (auto intro!: extends_intros)

lemma extends_exception: "x \<in> set (parse_exception e0) \<Longrightarrow> extends x"
  unfolding parse_exception_def by (auto intro!: extends_intros)

lemma extends_extended: "x \<in> set (parse_extended C x0 j) \<Longrightarrow> extends x"
  unfolding parse_extended_def by (auto intro!: extends_intros)

lemma extends_parse: "extends (run (parse_all C e0 x0 fl))"
proof (rule extends_run)
  fix x assume "x \<in> set (parse_all C e0 x0 fl)"
  moreover have "extends (run (parse_exception e0))" using extends_exception by (rule extends_run)
  moreover have "extends (run (parse_extended C x0 j))" for j using extends_extended by (rule extends_run)
  ultimately show "extends x" unfolding parse_all_def parse_tail_def
    by (auto intro: extends_pattern extends_dates intro!: extends_SET extends_FOREACH extends_TIMES extends_STRING long.extends_read)
qed

text \<open>
  C16: No proper prefix of a written blob is read without an error: whatever is cut off the end, the result
  is MAPI_E_NOT_FOUND or MAPI_W_ERRORS_RETURNED. This is for well formed recurrences: each count is the length
  of its list, there is an extended exception for each exception, the fields and counts that are written in 16
  bits and the lengths of the strings fit into them, the wide strings survive the conversion, and the
  reserved blocks are below 2 GB; and for blobs of less than 2^32 - 4 bytes. With a count that is not the
  length of its list a prefix can be read without an error.
\<close>

theorem truncation_is_noticed:
  assumes "wf_state C r" "GetBlob C r = Some (Inr (p @ q))" "q \<noteq> []" "length (p @ q) + 4 < 2 ^ 32"
  shows "ParseBlob C e0 x0 p fl r0 \<noteq> Some (hrSuccess, r1)"
proof
  assume h: "ParseBlob C e0 x0 p fl r0 = Some (hrSuccess, r1)"
  let ?go = "run (parse_all C e0 x0 fl)" and ?s = "parse_init e0 x0 r0"
  obtain b where b: "GetBlob C r = Some (Inr b)"
      "reads (st (rs ?s) False False) (parse_all C e0 x0 fl) b (st (stored e0 x0 r0 r) True True)"
    using reads_blob [OF assms(1)] by blast
  have "at b 0 (b @ [])" "st (rs ?s) False False ?s" using b(1) assms(2,4) by (simp_all add: at_def st_defs parse_init_def)
  then obtain s where full: "?go (p @ q) 0 ?s = Go (of_nat (length (p @ q))) s"
    using b assms(2) unfolding reads_def by (metis add_0 option.inject sum.inject(2))
  obtain c t where g: "?go p 0 ?s = Go c t" "c = of_nat (length p)"
  proof (cases "?go p 0 ?s")
    case Undef
    then show ?thesis using h by (simp add: ParseBlob_def)
  next
    case (Fail c t)
    then show ?thesis using h by (auto simp: ParseBlob_def parse_exit_def bind_Some_iff split: if_splits)
  next
    case (Go c t)
    then show ?thesis using h that by (auto simp: ParseBlob_def parse_exit_def bind_Some_iff split: if_splits)
  qed
  have "?go (p @ q) 0 ?s = Go c t"
    using extends_parse [unfolded extends_def, rule_format, OF assms(4) _ g(1)] by simp
  then have "(of_nat (length p) :: uint32) = of_nat (length (p @ q))" using full g(2) by simp
  then have "length p = length (p @ q)"
  proof -
    have "length p < 2 ^ LENGTH(32)" "length (p @ q) < 2 ^ LENGTH(32)" using assms(4) by simp_all
    then show ?thesis using arg_cong [OF \<open>of_nat (length p) = of_nat (length (p @ q))\<close>, of "unat :: uint32 \<Rightarrow> nat"]
      by (simp only: unat_of_nat_small)
  qed
  then show False using assms(3) by simp
qed

theorem truncation_is_noticed_witness:
  "ParseBlob demo_conv demo_e0 demo_x0 (take 155 demo_blob) 1 demo_weekly \<noteq> Some (hrSuccess, demo_weekly)"
proof (rule truncation_is_noticed [OF demo_wf])
  show "GetBlob demo_conv demo_weekly = Some (Inr (take 155 demo_blob @ drop 155 demo_blob))"
    using demo_blob_written by simp
qed (simp_all add: demo_blob_length)

section \<open>Definedness\<close>

definition before :: "parsestate \<Rightarrow> bool" where
  "before s \<longleftrightarrow> \<not> bReadValid s \<and> lstExceptions (rs s) = []"

definition during :: "nat \<Rightarrow> parsestate \<Rightarrow> bool" where
  "during i s \<longleftrightarrow> \<not> bReadValid s \<and> length (lstExceptions (rs s)) = i"

definition complete :: "parsestate \<Rightarrow> bool" where
  "complete s \<longleftrightarrow> length (lstExceptions (rs s)) = unat (ulExceptionCount (rs s))"

definition consistent :: "parsestate \<Rightarrow> bool" where
  "consistent s \<longleftrightarrow> (bReadValid s \<longrightarrow> complete s)"

lemmas guarded_intros = guarded_run guarded_SET guarded_WHEN guarded_STRING short.guarded_read long.guarded_read
lemmas phase_defs = before_def during_def complete_def consistent_def st_defs

lemma guarded_TIMES_same: "guarded P (run xs) F P \<Longrightarrow> guarded P (TIMES n xs) F P"
proof -
  assume "guarded P (run xs) F P"
  then have "guarded P (foreach ys (\<lambda>_ :: unit. xs)) F P" for ys
    using guarded_foreach [of ys "\<lambda>_. P" "\<lambda>_. xs" F] by simp
  then show ?thesis unfolding guarded_def TIMES_def by blast
qed

lemma guarded_WHEN_never: "\<not> b \<Longrightarrow> guarded P (WHEN (\<lambda>_. b) xs) F P"
  by (simp add: guarded_def WHEN_def)

lemma guarded_pattern: "guarded before (run parse_pattern) consistent before"
  unfolding parse_pattern_def by (auto intro!: guarded_intros simp: phase_defs)

lemma guarded_dates:
  "fl AND RECURRENCE_STATE_TASKS = 0 \<Longrightarrow> guarded before (run (parse_dates fl)) consistent before"
  unfolding parse_dates_def
  by (auto intro!: guarded_run guarded_SET guarded_WHEN_never short.guarded_read long.guarded_read guarded_TIMES_same
      simp: phase_defs)

lemma guarded_extended: "guarded complete (run (parse_extended C x0 j)) consistent complete"
  unfolding parse_extended_def by (auto intro!: guarded_intros simp: phase_defs)

lemma guarded_append:
  assumes "guarded P (run xs) F Q" "guarded Q (run ys) F R"
  shows "guarded P (run (xs @ ys)) F R"
  unfolding guarded_def
proof (intro allI impI)
  fix d :: bytes and c :: uint32 and s assume a: "length d + 4 < 2 ^ 32" "unat c \<le> length d" "P s"
  note x = assms(1) [unfolded guarded_def, rule_format, OF a]
  show "case run (xs @ ys) d c s of Undef \<Rightarrow> False | Fail c s \<Rightarrow> F s | Go c s \<Rightarrow> unat c \<le> length d \<and> R s"
  proof (cases "run xs d c s")
    case (Go c' t)
    then show ?thesis using x assms(2) [unfolded guarded_def, rule_format, OF a(1), of c' t] by (simp add: run_append)
  qed (use x in \<open>simp_all add: run_append\<close>)
qed

lemma guarded_exception:
  "guarded (\<lambda>s. during i s \<and> ulExceptionCount (rs s) = k) (run (parse_exception e0)) consistent
    (\<lambda>s. during (Suc i) s \<and> ulExceptionCount (rs s) = k)"
proof -
  have s: "parse_exception e0 = butlast (parse_exception e0) @ [last (parse_exception e0)]"
    by (simp add: parse_exception_def)
  have a: "guarded (\<lambda>s. during i s \<and> ulExceptionCount (rs s) = k) (run (butlast (parse_exception e0))) consistent
      (\<lambda>s. during i s \<and> ulExceptionCount (rs s) = k)"
    unfolding parse_exception_def by (auto intro!: guarded_intros simp: phase_defs)
  have b: "guarded (\<lambda>s. during i s \<and> ulExceptionCount (rs s) = k) (run [last (parse_exception e0)]) consistent
      (\<lambda>s. during (Suc i) s \<and> ulExceptionCount (rs s) = k)"
    unfolding parse_exception_def by (auto intro!: guarded_Cons [OF guarded_SET guarded_Nil] simp: phase_defs)
  show ?thesis by (subst s) (rule guarded_append [OF a b])
qed

lemma guarded_exceptions:
  "guarded before (TIMES (\<lambda>s. ulExceptionCount (rs s)) (parse_exception e0)) consistent complete"
proof -
  have "guarded (\<lambda>s. during 0 s \<and> ulExceptionCount (rs s) = k) (foreach (replicate (unat k) ()) (\<lambda>_. parse_exception e0)) consistent
      (\<lambda>s. during (unat k) s \<and> ulExceptionCount (rs s) = k)" for k
    using guarded_foreach [of "replicate (unat k) ()" "\<lambda>i s. during i s \<and> ulExceptionCount (rs s) = k"] guarded_exception by simp
  then show ?thesis unfolding guarded_def TIMES_def
    by (fastforce simp: phase_defs split: outcome.splits)
qed

lemma guarded_tail: "guarded complete (run (parse_tail C x0)) consistent complete"
proof -
  have "guarded complete (FOREACH (\<lambda>s. lstExceptions (rs s)) (parse_extended C x0)) consistent complete"
    using guarded_foreach [of _ "\<lambda>_. complete" "parse_extended C x0" consistent] guarded_extended
    unfolding guarded_def FOREACH_def by blast
  then show ?thesis unfolding parse_tail_def
    by (auto intro!: guarded_run guarded_SET guarded_STRING long.guarded_read simp: phase_defs)
qed

lemma guarded_parse:
  assumes "fl AND RECURRENCE_STATE_TASKS = 0"
  shows "guarded before (run (parse_all C e0 x0 fl)) consistent complete"
  unfolding parse_all_def
  using guarded_append [OF guarded_pattern guarded_append [OF guarded_dates [OF assms]
    guarded_append [OF guarded_Cons [OF guarded_exceptions guarded_Nil] guarded_tail]]] .

lemma sync_loop_total: "i + n \<le> length es \<Longrightarrow> sync_loop C x0 es i n \<noteq> None"
  by (induction n arbitrary: i) (auto simp: bind_eq_None_conv)

lemma parse_exit_total: "consistent s \<Longrightarrow> parse_exit C x0 hr s \<noteq> None"
  using sync_loop_total [of 0 "unat (ulExceptionCount (rs s))" "lstExceptions (rs s)" C x0]
  by (auto simp: parse_exit_def phase_defs)

text \<open>
  C17: Reading the recurrence of an appointment is defined for every blob below 4 GB and every earlier state of
  the object. For a task it is not: with one exception announced and none there, the end of
  \<open>ParseBlob\<close> reads exceptions that do not exist.
\<close>

theorem parse_is_defined_for_appointments:
  "(\<forall>C e0 x0 b fl r0. length b + 4 < 2 ^ 32 \<and> fl AND RECURRENCE_STATE_TASKS = 0 \<longrightarrow> ParseBlob C e0 x0 b fl r0 \<noteq> None) \<and>
   (\<forall>C e0 x0 r0. ParseBlob C e0 x0 (replicate 66 0 @ [1, 0]) RECURRENCE_STATE_TASKS r0 = None)"
proof (intro conjI allI impI)
  fix C e0 x0 fl r0 and b :: bytes
  assume h: "length b + 4 < 2 ^ 32 \<and> fl AND RECURRENCE_STATE_TASKS = 0"
  have i: "before (parse_init e0 x0 r0)" by (simp add: phase_defs parse_init_def)
  note g = guarded_parse [unfolded guarded_def, rule_format, of fl b 0 "parse_init e0 x0 r0" C e0 x0]
  show "ParseBlob C e0 x0 b fl r0 \<noteq> None"
    using g h i parse_exit_total unfolding ParseBlob_def
    by (auto simp: consistent_def split: outcome.splits)
next
  fix C e0 x0 r0
  show "ParseBlob C e0 x0 (replicate 66 0 @ [1, 0]) RECURRENCE_STATE_TASKS r0 = None"
    by (cases r0, simp only:) code_simp
qed
theorem parse_is_defined_for_appointments_witness:
  "ParseBlob demo_conv demo_e0 demo_x0 [1, 2, 3] 1 demo_weekly \<noteq> None"
proof -
  have "length [1, 2, 3 :: byte] + 4 < 2 ^ 32 \<and> (1 :: uint32) AND RECURRENCE_STATE_TASKS = 0"
    by (simp add: RECURRENCE_STATE_TASKS_def)
  then show ?thesis using parse_is_defined_for_appointments by blast
qed

end
