(* ===== verification/Rtf.thy ===== *)
theory Rtf
  imports Bytes
begin

text \<open>
  Compressed RTF (mapi4linux/src/rtf.cpp): the checksum, the search for matches, the compressor
  and the decompressor.

  A \<open>char\<close> array is a byte list and a pointer into it an index. Reading or writing outside the
  array has no result (\<open>None\<close>). Memory from \<open>malloc\<close> and \<open>new char[]\<close> holds unspecified bytes,
  given by the function \<open>j\<close>; the allocations themselves are taken to succeed. The decompressor
  computes with 32 bit words as the code does, since its sizes come from the input. The counters of
  the compressor are naturals: they stay below \<open>2 ^ 32\<close> for inputs below \<open>2 ^ 31\<close> bytes.
\<close>

section \<open>The checksum\<close>

definition crctable :: "uint32 list" where
  "crctable = [
    0x00000000, 0x77073096, 0xEE0E612C, 0x990951BA, 0x076DC419, 0x706AF48F, 0xE963A535, 0x9E6495A3,
    0x0EDB8832, 0x79DCB8A4, 0xE0D5E91E, 0x97D2D988, 0x09B64C2B, 0x7EB17CBD, 0xE7B82D07, 0x90BF1D91,
    0x1DB71064, 0x6AB020F2, 0xF3B97148, 0x84BE41DE, 0x1ADAD47D, 0x6DDDE4EB, 0xF4D4B551, 0x83D385C7,
    0x136C9856, 0x646BA8C0, 0xFD62F97A, 0x8A65C9EC, 0x14015C4F, 0x63066CD9, 0xFA0F3D63, 0x8D080DF5,
    0x3B6E20C8, 0x4C69105E, 0xD56041E4, 0xA2677172, 0x3C03E4D1, 0x4B04D447, 0xD20D85FD, 0xA50AB56B,
    0x35B5A8FA, 0x42B2986C, 0xDBBBC9D6, 0xACBCF940, 0x32D86CE3, 0x45DF5C75, 0xDCD60DCF, 0xABD13D59,
    0x26D930AC, 0x51DE003A, 0xC8D75180, 0xBFD06116, 0x21B4F4B5, 0x56B3C423, 0xCFBA9599, 0xB8BDA50F,
    0x2802B89E, 0x5F058808, 0xC60CD9B2, 0xB10BE924, 0x2F6F7C87, 0x58684C11, 0xC1611DAB, 0xB6662D3D,
    0x76DC4190, 0x01DB7106, 0x98D220BC, 0xEFD5102A, 0x71B18589, 0x06B6B51F, 0x9FBFE4A5, 0xE8B8D433,
    0x7807C9A2, 0x0F00F934, 0x9609A88E, 0xE10E9818, 0x7F6A0DBB, 0x086D3D2D, 0x91646C97, 0xE6635C01,
    0x6B6B51F4, 0x1C6C6162, 0x856530D8, 0xF262004E, 0x6C0695ED, 0x1B01A57B, 0x8208F4C1, 0xF50FC457,
    0x65B0D9C6, 0x12B7E950, 0x8BBEB8EA, 0xFCB9887C, 0x62DD1DDF, 0x15DA2D49, 0x8CD37CF3, 0xFBD44C65,
    0x4DB26158, 0x3AB551CE, 0xA3BC0074, 0xD4BB30E2, 0x4ADFA541, 0x3DD895D7, 0xA4D1C46D, 0xD3D6F4FB,
    0x4369E96A, 0x346ED9FC, 0xAD678846, 0xDA60B8D0, 0x44042D73, 0x33031DE5, 0xAA0A4C5F, 0xDD0D7CC9,
    0x5005713C, 0x270241AA, 0xBE0B1010, 0xC90C2086, 0x5768B525, 0x206F85B3, 0xB966D409, 0xCE61E49F,
    0x5EDEF90E, 0x29D9C998, 0xB0D09822, 0xC7D7A8B4, 0x59B33D17, 0x2EB40D81, 0xB7BD5C3B, 0xC0BA6CAD,
    0xEDB88320, 0x9ABFB3B6, 0x03B6E20C, 0x74B1D29A, 0xEAD54739, 0x9DD277AF, 0x04DB2615, 0x73DC1683,
    0xE3630B12, 0x94643B84, 0x0D6D6A3E, 0x7A6A5AA8, 0xE40ECF0B, 0x9309FF9D, 0x0A00AE27, 0x7D079EB1,
    0xF00F9344, 0x8708A3D2, 0x1E01F268, 0x6906C2FE, 0xF762575D, 0x806567CB, 0x196C3671, 0x6E6B06E7,
    0xFED41B76, 0x89D32BE0, 0x10DA7A5A, 0x67DD4ACC, 0xF9B9DF6F, 0x8EBEEFF9, 0x17B7BE43, 0x60B08ED5,
    0xD6D6A3E8, 0xA1D1937E, 0x38D8C2C4, 0x4FDFF252, 0xD1BB67F1, 0xA6BC5767, 0x3FB506DD, 0x48B2364B,
    0xD80D2BDA, 0xAF0A1B4C, 0x36034AF6, 0x41047A60, 0xDF60EFC3, 0xA867DF55, 0x316E8EEF, 0x4669BE79,
    0xCB61B38C, 0xBC66831A, 0x256FD2A0, 0x5268E236, 0xCC0C7795, 0xBB0B4703, 0x220216B9, 0x5505262F,
    0xC5BA3BBE, 0xB2BD0B28, 0x2BB45A92, 0x5CB36A04, 0xC2D7FFA7, 0xB5D0CF31, 0x2CD99E8B, 0x5BDEAE1D,
    0x9B64C2B0, 0xEC63F226, 0x756AA39C, 0x026D930A, 0x9C0906A9, 0xEB0E363F, 0x72076785, 0x05005713,
    0x95BF4A82, 0xE2B87A14, 0x7BB12BAE, 0x0CB61B38, 0x92D28E9B, 0xE5D5BE0D, 0x7CDCEFB7, 0x0BDBDF21,
    0x86D3D2D4, 0xF1D4E242, 0x68DDB3F8, 0x1FDA836E, 0x81BE16CD, 0xF6B9265B, 0x6FB077E1, 0x18B74777,
    0x88085AE6, 0xFF0F6A70, 0x66063BCA, 0x11010B5C, 0x8F659EFF, 0xF862AE69, 0x616BFFD3, 0x166CCF45,
    0xA00AE278, 0xD70DD2EE, 0x4E048354, 0x3903B3C2, 0xA7672661, 0xD06016F7, 0x4969474D, 0x3E6E77DB,
    0xAED16A4A, 0xD9D65ADC, 0x40DF0B66, 0x37D83BF0, 0xA9BCAE53, 0xDEBB9EC5, 0x47B2CF7F, 0x30B5FFE9,
    0xBDBDF21C, 0xCABAC28A, 0x53B39330, 0x24B4A3A6, 0xBAD03605, 0xCDD70693, 0x54DE5729, 0x23D967BF,
    0xB3667A2E, 0xC4614AB8, 0x5D681B02, 0x2A6F2B94, 0xB40BBE37, 0xC30C8EA1, 0x5A05DF1B, 0x2D02EF8D]"

fun crc32_loop :: "bytes \<Rightarrow> uint32 \<Rightarrow> uint32" where
  "crc32_loop [] crc = crc"
| "crc32_loop (p # ps) crc = crc32_loop ps (drop_bit 8 crc XOR crctable ! unat ((crc XOR scast p) AND 0xff))"

definition crc32 :: "bytes \<Rightarrow> uint32" where
  "crc32 data = crc32_loop data 0"

section \<open>Header and prebuffer\<close>

text \<open>The text every stream starts from: \<open>{\rtf1\ansi\mac ... \tab\tx\<close>.\<close>

definition lpPrebuf :: bytes where
  "lpPrebuf = [
    0x7B, 0x5C, 0x72, 0x74, 0x66, 0x31, 0x5C, 0x61, 0x6E, 0x73, 0x69, 0x5C, 0x6D, 0x61, 0x63, 0x5C, 0x64, 0x65,
    0x66, 0x66, 0x30, 0x5C, 0x64, 0x65, 0x66, 0x74, 0x61, 0x62, 0x37, 0x32, 0x30, 0x7B, 0x5C, 0x66, 0x6F, 0x6E,
    0x74, 0x74, 0x62, 0x6C, 0x3B, 0x7D, 0x7B, 0x5C, 0x66, 0x30, 0x5C, 0x66, 0x6E, 0x69, 0x6C, 0x20, 0x5C, 0x66,
    0x72, 0x6F, 0x6D, 0x61, 0x6E, 0x20, 0x5C, 0x66, 0x73, 0x77, 0x69, 0x73, 0x73, 0x20, 0x5C, 0x66, 0x6D, 0x6F,
    0x64, 0x65, 0x72, 0x6E, 0x20, 0x5C, 0x66, 0x73, 0x63, 0x72, 0x69, 0x70, 0x74, 0x20, 0x5C, 0x66, 0x64, 0x65,
    0x63, 0x6F, 0x72, 0x20, 0x4D, 0x53, 0x20, 0x53, 0x61, 0x6E, 0x73, 0x20, 0x53, 0x65, 0x72, 0x69, 0x66, 0x53,
    0x79, 0x6D, 0x62, 0x6F, 0x6C, 0x41, 0x72, 0x69, 0x61, 0x6C, 0x54, 0x69, 0x6D, 0x65, 0x73, 0x20, 0x4E, 0x65,
    0x77, 0x20, 0x52, 0x6F, 0x6D, 0x61, 0x6E, 0x43, 0x6F, 0x75, 0x72, 0x69, 0x65, 0x72, 0x7B, 0x5C, 0x63, 0x6F,
    0x6C, 0x6F, 0x72, 0x74, 0x62, 0x6C, 0x5C, 0x72, 0x65, 0x64, 0x30, 0x5C, 0x67, 0x72, 0x65, 0x65, 0x6E, 0x30,
    0x5C, 0x62, 0x6C, 0x75, 0x65, 0x30, 0x0A, 0x0D, 0x5C, 0x70, 0x61, 0x72, 0x20, 0x5C, 0x70, 0x61, 0x72, 0x64,
    0x5C, 0x70, 0x6C, 0x61, 0x69, 0x6E, 0x5C, 0x66, 0x30, 0x5C, 0x66, 0x73, 0x32, 0x30, 0x5C, 0x62, 0x5C, 0x69,
    0x5C, 0x75, 0x5C, 0x74, 0x61, 0x62, 0x5C, 0x74, 0x78]"

definition cbPrebuf :: nat where "cbPrebuf = length lpPrebuf"

record RTFHeader =
  ulCompressedSize :: uint32
  ulUncompressedSize :: uint32
  ulMagic :: uint32
  ulChecksum :: uint32

definition RTFHeader_size :: nat where "RTFHeader_size = 16"

definition read_header :: "bytes \<Rightarrow> RTFHeader option" where
  "read_header s = do {
     c \<leftarrow> of_le32 s 0; u \<leftarrow> of_le32 s 4; m \<leftarrow> of_le32 s 8; k \<leftarrow> of_le32 s 12;
     Some \<lparr>ulCompressedSize = c, ulUncompressedSize = u, ulMagic = m, ulChecksum = k\<rparr>
   }"

definition header_bytes :: "RTFHeader \<Rightarrow> bytes" where
  "header_bytes h = le32 (ulCompressedSize h) @ le32 (ulUncompressedSize h) @ le32 (ulMagic h) @ le32 (ulChecksum h)"

definition rtf_get_uncompressed_length :: "bytes \<Rightarrow> uint32 option" where
  "rtf_get_uncompressed_length lpData =
     (if length lpData < RTFHeader_size then Some 0 else map_option ulUncompressedSize (read_header lpData))"

section \<open>The decompressor\<close>

text \<open>The copy of a reference: the guard compares with the 32 bit sum of the two sizes.\<close>

function copy_ref :: "uint32 \<Rightarrow> uint32 \<Rightarrow> uint32 \<Rightarrow> nat \<Rightarrow> bytes \<Rightarrow> (nat \<times> bytes) option" where
  "copy_ref unc ulSize ulOffset lpWrite buf =
     (if ulSize \<noteq> 0 \<and> lpWrite < unat (unc + of_nat cbPrebuf) \<and> ulOffset < unc + of_nat cbPrebuf
      then do {
        b \<leftarrow> nth_opt buf (unat ulOffset);
        buf \<leftarrow> set_nth buf lpWrite b;
        copy_ref unc (ulSize - 1) (ulOffset + 1) (Suc lpWrite) buf
      }
      else Some (lpWrite, buf))"
  by pat_completeness auto
termination
  by (relation "measure (\<lambda>(unc, n, off, w, buf). unat n)") (auto intro: measure_unat)

definition ref_offset :: "byte \<Rightarrow> byte \<Rightarrow> nat \<Rightarrow> uint32" where
  "ref_offset c1 c2 lpWrite =
     (let ulOffset = push_bit 4 (ucast c1) OR ucast (drop_bit 4 c2);
          ulOffset = of_nat (lpWrite div 4096 * 4096) + ulOffset
      in if ulOffset > of_nat lpWrite then ulOffset - 4096 else ulOffset)"

function decompress_loop :: "bytes \<Rightarrow> uint32 \<Rightarrow> nat \<Rightarrow> nat \<Rightarrow> uint32 \<Rightarrow> uint32 \<Rightarrow> bytes \<Rightarrow> bytes option" where
  "decompress_loop src unc lpSrc lpWrite ulFlags ulFlagNr buf =
     (if lpWrite < unat unc + cbPrebuf then do {
        (ulFlags, p) \<leftarrow>
          (if ulFlagNr mod 8 = 0 then map_option (\<lambda>b. (scast b, Suc lpSrc)) (nth_opt src lpSrc)
           else Some (drop_bit 1 ulFlags, lpSrc));
        if length src \<le> p then Some buf
        else if ulFlags AND 1 = 0 then do {
          b \<leftarrow> nth_opt src p;
          buf \<leftarrow> set_nth buf lpWrite b;
          if length src \<le> Suc p then Some buf
          else decompress_loop src unc (Suc p) (Suc lpWrite) ulFlags (ulFlagNr + 1) buf
        }
        else if length src \<le> p + 2 then Some buf
        else do {
          c1 \<leftarrow> nth_opt src p;
          c2 \<leftarrow> nth_opt src (Suc p);
          (lpWrite, buf) \<leftarrow> copy_ref unc (ucast (c2 AND 0xf) + 2) (ref_offset c1 c2 lpWrite) lpWrite buf;
          decompress_loop src unc (p + 2) lpWrite ulFlags (ulFlagNr + 1) buf
        }
      }
      else Some buf)"
  by pat_completeness auto
termination
  by (relation "measure (\<lambda>(src, unc, p, _). length src - p)") (auto simp: nth_opt_def split: if_splits)

declare copy_ref.simps [simp del] decompress_loop.simps [simp del]

text \<open>
  The result code and the destination buffer. The source holds as many bytes as \<open>ulBufSize\<close> says.
\<close>

definition rtf_decompress :: "(nat \<Rightarrow> byte) \<Rightarrow> bytes \<Rightarrow> bytes \<Rightarrow> (uint32 \<times> bytes) option" where
  "rtf_decompress j lpDest lpSrc =
     (if length lpSrc < RTFHeader_size then Some (1, lpDest)
      else do {
        h \<leftarrow> read_header lpSrc;
        if ulMagic h = 0x414c454d then map_option (Pair 0) (memcpy lpDest 0 (drop RTFHeader_size lpSrc))
        else if ulMagic h \<noteq> 0x75465a4c then Some (1, lpDest)
        else do {
          buf \<leftarrow> memcpy (malloc j (unat (ulUncompressedSize h + of_nat cbPrebuf))) 0 lpPrebuf;
          buf \<leftarrow> decompress_loop lpSrc (ulUncompressedSize h) RTFHeader_size cbPrebuf 0 0 buf;
          out \<leftarrow> chars_at buf cbPrebuf (unat (ulUncompressedSize h));
          map_option (Pair 0) (memcpy lpDest 0 out)
        }
      })"

section \<open>The search for matches\<close>

definition is_nl :: "byte \<Rightarrow> bool" where "is_nl b \<longleftrightarrow> b = 10 \<or> b = 13"

text \<open>One run of the inner loop: where it stops in the buffer, and how many bytes matched.\<close>

function strmatch_run :: "bytes \<Rightarrow> nat \<Rightarrow> nat \<Rightarrow> nat \<Rightarrow> nat \<Rightarrow> nat \<Rightarrow> (nat \<times> nat) option" where
  "strmatch_run m bufEnd patEnd lpszBufCur lpszPatCur ulCount =
     (if lpszPatCur = patEnd \<or> lpszBufCur = bufEnd then Some (lpszBufCur, ulCount)
      else do {
        a \<leftarrow> nth_opt m lpszPatCur;
        b \<leftarrow> nth_opt m lpszBufCur;
        if (a \<noteq> b \<or> is_nl a) \<and> ulCount > 0 then Some (lpszBufCur, ulCount)
        else if a = b \<and> \<not> is_nl a
        then strmatch_run m bufEnd patEnd (Suc lpszBufCur) (Suc lpszPatCur) (Suc ulCount)
        else strmatch_run m bufEnd patEnd (Suc lpszBufCur) lpszPatCur ulCount
      })"
  by pat_completeness auto
termination
  by (relation "measure (\<lambda>(m, be, pe, cur, _). length m - cur)") (auto simp: nth_opt_def split: if_splits)

declare strmatch_run.simps [simp del]

lemma strmatch_run_ge: "strmatch_run m be pe cur pat n = Some (cur', n') \<Longrightarrow> cur \<le> cur'"
proof (induction m be pe cur pat n arbitrary: cur' n' rule: strmatch_run.induct)
  case (1 m be pe cur pat n)
  show ?case
  proof (cases "pat = pe \<or> cur = be")
    case False
    from "1.prems" obtain a b where "nth_opt m pat = Some a" "nth_opt m cur = Some b"
      using False by (subst (asm) strmatch_run.simps) (auto simp: bind_Some_iff)
    then show ?thesis
      using "1.prems" "1.IH"(1) [of a b cur' n'] "1.IH"(2) [of a b cur' n'] False
      by (subst (asm) strmatch_run.simps) (auto simp: Suc_le_eq split: if_splits intro: less_imp_le)
  qed (use "1.prems" in \<open>simp add: strmatch_run.simps\<close>)
qed

lemma strmatch_run_progress:
  assumes "strmatch_run m be pe cur pat 0 = Some (cur', n')" "pat \<noteq> pe" "cur \<noteq> be"
  shows "cur < cur'"
proof -
  from assms obtain a b where ab: "nth_opt m pat = Some a" "nth_opt m cur = Some b"
    by (subst (asm) strmatch_run.simps) (auto simp: bind_Some_iff)
  then have "\<exists>p n. strmatch_run m be pe (Suc cur) p n = Some (cur', n')"
    using assms by (subst (asm) strmatch_run.simps) (auto split: if_splits)
  then show ?thesis using strmatch_run_ge by (metis Suc_le_eq)
qed

function strmatch_loop :: "bytes \<Rightarrow> nat \<Rightarrow> nat \<Rightarrow> nat \<Rightarrow> nat \<Rightarrow> nat option \<Rightarrow> nat \<Rightarrow> (nat option \<times> nat) option" where
  "strmatch_loop m bufEnd lpszPattern cbPattern lpszBufCur lpszMatch cbMatch =
     (if cbMatch < cbPattern \<and> lpszBufCur + cbMatch < bufEnd then do {
        (lpszBufCur, ulCount) \<leftarrow> strmatch_run m bufEnd (lpszPattern + cbPattern) lpszBufCur lpszPattern 0;
        if ulCount > cbMatch
        then strmatch_loop m bufEnd lpszPattern cbPattern lpszBufCur (Some (lpszBufCur - ulCount)) ulCount
        else strmatch_loop m bufEnd lpszPattern cbPattern lpszBufCur lpszMatch cbMatch
      }
      else Some (lpszMatch, cbMatch))"
  by pat_completeness auto
termination
  by (relation "measure (\<lambda>(m, be, p, n, cur, mt, cb). be - cur)") (auto dest!: strmatch_run_progress)

declare strmatch_loop.simps [simp del]

definition strmatch :: "bytes \<Rightarrow> nat \<Rightarrow> nat \<Rightarrow> nat \<Rightarrow> nat \<Rightarrow> (nat option \<times> nat) option" where
  "strmatch m lpszBuffer cbBuffer lpszPattern cbPattern =
     strmatch_loop m (lpszBuffer + cbBuffer) lpszPattern cbPattern lpszBuffer None 0"

section \<open>The compressor\<close>

record rtfout =
  lpDest :: bytes
  ulOutCursor :: nat
  ulFlagCursor :: nat
  ulFlagNr :: nat

text \<open>Every write at the output cursor is followed by the test that grows the buffer by 1024 bytes.\<close>

definition grow :: "(nat \<Rightarrow> byte) \<Rightarrow> rtfout \<Rightarrow> rtfout" where
  "grow j st = (if ulOutCursor st \<ge> length (lpDest st) then st\<lparr>lpDest := lpDest st @ malloc j 1024\<rparr> else st)"

definition emit :: "(nat \<Rightarrow> byte) \<Rightarrow> byte \<Rightarrow> rtfout \<Rightarrow> rtfout option" where
  "emit j b st = do {
     d \<leftarrow> set_nth (lpDest st) (ulOutCursor st) b;
     Some (grow j (st\<lparr>lpDest := d, ulOutCursor := Suc (ulOutCursor st)\<rparr>))
   }"

definition new_flag :: "(nat \<Rightarrow> byte) \<Rightarrow> rtfout \<Rightarrow> rtfout option" where
  "new_flag j st =
     (if ulFlagNr st = 0
      then map_option (\<lambda>st'. st'\<lparr>ulFlagNr := 8\<rparr>) (emit j 0 (st\<lparr>ulFlagCursor := ulOutCursor st\<rparr>))
      else Some st)"

definition set_flag :: "rtfout \<Rightarrow> rtfout option" where
  "set_flag st = do {
     b \<leftarrow> nth_opt (lpDest st) (ulFlagCursor st);
     d \<leftarrow> set_nth (lpDest st) (ulFlagCursor st) (b OR push_bit (8 - ulFlagNr st) 1);
     Some (st\<lparr>lpDest := d\<rparr>)
   }"

definition end_marker :: "(nat \<Rightarrow> byte) \<Rightarrow> nat \<Rightarrow> rtfout \<Rightarrow> rtfout option" where
  "end_marker j ulBufSize st = do {
     let offset = (of_nat (cbPrebuf + ulBufSize) :: uint32) AND 0xfff;
     st \<leftarrow> emit j (ucast (drop_bit 4 offset)) st;
     st \<leftarrow> emit j (ucast (push_bit 4 offset AND 0xf0)) st;
     set_flag st
   }"

definition emit_ref :: "(nat \<Rightarrow> byte) \<Rightarrow> nat \<Rightarrow> nat \<Rightarrow> nat \<Rightarrow> rtfout \<Rightarrow> rtfout option" where
  "emit_ref j ulCursor lpMatch cbMatch st = do {
     let lpCurPage = (ulCursor + cbPrebuf) div 4096 * 4096;
     let offset = (of_nat lpMatch - of_nat lpCurPage :: uint32) AND 0xfff;
     st \<leftarrow> emit j (ucast (drop_bit 4 offset)) st;
     st \<leftarrow> emit j (ucast ((push_bit 4 offset AND 0xf0) OR (of_nat (cbMatch - 2) AND 0x0f))) st;
     set_flag st
   }"

text \<open>The item for the bytes at the cursor: a reference or a literal; \<open>lpTmp\<close> is the prebuffer and the input.\<close>

definition compress_item :: "(nat \<Rightarrow> byte) \<Rightarrow> bytes \<Rightarrow> nat \<Rightarrow> nat \<Rightarrow> rtfout \<Rightarrow> (nat \<times> rtfout) option" where
  "compress_item j lpTmp ulBufSize ulCursor st = do {
     let lpSearchStart = (if ulCursor + cbPrebuf \<ge> 4096 then ulCursor + cbPrebuf - 4095 else 0);
     (lpMatch, cbMatch) \<leftarrow> strmatch lpTmp lpSearchStart (cbPrebuf + ulCursor - lpSearchStart) (cbPrebuf + ulCursor)
       (if ulBufSize - ulCursor \<ge> 17 then 17 else ulBufSize - ulCursor);
     (case lpMatch of
        Some m \<Rightarrow>
          if cbMatch \<ge> 3 then map_option (Pair (ulCursor + cbMatch)) (emit_ref j ulCursor m cbMatch st)
          else do { b \<leftarrow> nth_opt lpTmp (cbPrebuf + ulCursor); map_option (Pair (Suc ulCursor)) (emit j b st) }
      | None \<Rightarrow> do { b \<leftarrow> nth_opt lpTmp (cbPrebuf + ulCursor); map_option (Pair (Suc ulCursor)) (emit j b st) })
   }"

lemma compress_item_progress: "compress_item j t n cur st = Some (cur', st') \<Longrightarrow> cur < cur'"
  by (auto simp: compress_item_def bind_Some_iff Let_def split: option.splits if_splits)

function compress_loop :: "(nat \<Rightarrow> byte) \<Rightarrow> bytes \<Rightarrow> nat \<Rightarrow> nat \<Rightarrow> rtfout \<Rightarrow> rtfout option" where
  "compress_loop j lpTmp ulBufSize ulCursor st =
     (if ulCursor \<le> ulBufSize then do {
        st \<leftarrow> new_flag j st;
        if ulBufSize = ulCursor then end_marker j ulBufSize st
        else do {
          (ulCursor, st) \<leftarrow> compress_item j lpTmp ulBufSize ulCursor st;
          compress_loop j lpTmp ulBufSize ulCursor (st\<lparr>ulFlagNr := ulFlagNr st - 1\<rparr>)
        }
      }
      else Some st)"
  by pat_completeness auto
termination
  by (relation "measure (\<lambda>(j, t, n, cur, st). Suc n - cur)") (auto dest!: compress_item_progress)

declare compress_loop.simps [simp del]

text \<open>The compressed stream: the first \<open>*lpulDestSize\<close> bytes of the buffer handed out.\<close>

definition rtf_compress :: "(nat \<Rightarrow> byte) \<Rightarrow> bytes \<Rightarrow> bytes option" where
  "rtf_compress j lpSrc = do {
     let ulBufSize = length lpSrc;
     lpTmp \<leftarrow> memcpy (malloc j (ulBufSize + cbPrebuf)) 0 lpPrebuf;
     lpTmp \<leftarrow> memcpy lpTmp cbPrebuf lpSrc;
     st \<leftarrow> compress_loop j lpTmp ulBufSize 0
       \<lparr>lpDest = malloc j (ulBufSize + 1024), ulOutCursor = RTFHeader_size, ulFlagCursor = 0, ulFlagNr = 0\<rparr>;
     payload \<leftarrow> chars_at (lpDest st) RTFHeader_size (ulOutCursor st - RTFHeader_size);
     d \<leftarrow> memcpy (lpDest st) 0 (header_bytes
       \<lparr>ulCompressedSize = of_nat (ulOutCursor st) - 4, ulUncompressedSize = of_nat ulBufSize,
        ulMagic = 0x75465a4c, ulChecksum = crc32 payload\<rparr>);
     chars_at d 0 (ulOutCursor st)
   }"

end
