(* ===== verification/RtfSpec.thy ===== *)
theory RtfSpec
  imports Rtf
begin

text \<open>
  What the compressed RTF code guarantees: every stream the compressor writes is unpacked to the
  bytes it was given, for every size below 2 ^ 31; the search for matches stays in its window and
  finds real matches; the decompressor stays inside its buffers for every input with a full header,
  one more byte and honest sizes; the checksum table is the one of the CRC polynomial.
\<close>

lemma cbPrebuf_207: "cbPrebuf = 207"
  by code_simp

section \<open>The search for matches\<close>

lemma strmatch_run_spec:
  assumes "strmatch_run m be pe cur pat n = R" "pat = p + n" "s + n \<le> cur" "cur \<le> be" "pat \<le> pe"
    "pe \<le> length m" "be \<le> length m" "\<And>k. k < n \<Longrightarrow> m ! (cur - n + k) = m ! (p + k)"
  shows "\<exists>cur' n'. R = Some (cur', n') \<and> s + n' \<le> cur' \<and> cur' \<le> be \<and> p + n' \<le> pe \<and>
    (\<forall>k<n'. m ! (cur' - n' + k) = m ! (p + k))"
  using assms
proof (induction m be pe cur pat n arbitrary: R rule: strmatch_run.induct)
  case (1 m be pe cur pat n)
  show ?case
  proof (cases "pat = pe \<or> cur = be")
    case True
    then have "R = Some (cur, n)" using "1.prems"(1) by (subst (asm) strmatch_run.simps) simp
    then show ?thesis using "1.prems" by auto
  next
    case False
    then have lt: "pat < pe" "cur < be" using "1.prems" by auto
    then have g: "nth_opt m pat = Some (m ! pat)" "nth_opt m cur = Some (m ! cur)" using "1.prems" by simp_all
    consider (stop) "(m ! pat \<noteq> m ! cur \<or> is_nl (m ! pat)) \<and> n > 0" | (same) "m ! pat = m ! cur" "\<not> is_nl (m ! pat)"
      | (skip) "\<not> (m ! pat = m ! cur \<and> \<not> is_nl (m ! pat))" "n = 0"
      by blast
    then show ?thesis
    proof cases
      case stop
      then have "R = Some (cur, n)" using "1.prems"(1) False g by (subst (asm) strmatch_run.simps) simp
      then show ?thesis using "1.prems" by auto
    next
      case same
      then have "R = strmatch_run m be pe (Suc cur) (Suc pat) (Suc n)"
        using "1.prems"(1) False g by (subst (asm) strmatch_run.simps) simp
      moreover have "m ! (Suc cur - Suc n + k) = m ! (p + k)" if "k < Suc n" for k
        using that same "1.prems" less_Suc_eq by fastforce
      ultimately show ?thesis
        using "1.IH"(1) [OF False g, of R] same "1.prems" lt by simp
    next
      case skip
      then have "R = strmatch_run m be pe (Suc cur) pat n"
        using "1.prems"(1) False g by (subst (asm) strmatch_run.simps) (auto split: if_splits)
      then show ?thesis
        using "1.IH"(2) [OF False g, of R] skip "1.prems" lt by auto
    qed
  qed
qed

text \<open>What a match is: it lies in the window and holds the bytes of the pattern.\<close>

definition is_match :: "bytes \<Rightarrow> nat \<Rightarrow> nat \<Rightarrow> nat \<Rightarrow> nat \<Rightarrow> nat \<Rightarrow> nat \<Rightarrow> bool" where
  "is_match m s be p n mt c \<longleftrightarrow>
     s \<le> mt \<and> mt + c \<le> be \<and> c \<le> n \<and> (\<forall>k<c. m ! (mt + k) = m ! (p + k))"

lemma strmatch_loop_spec:
  assumes "strmatch_loop m be p n cur mt c = R" "s \<le> cur" "be \<le> length m" "p + n \<le> length m"
    "\<And>x. mt = Some x \<Longrightarrow> is_match m s be p n x c" "mt = None \<Longrightarrow> c = 0"
  shows "\<exists>mt' c'. R = Some (mt', c') \<and> (\<forall>x. mt' = Some x \<longrightarrow> is_match m s be p n x c') \<and> (mt' = None \<longrightarrow> c' = 0)"
  using assms
proof (induction m be p n cur mt c arbitrary: R rule: strmatch_loop.induct)
  case (1 m be p n cur mt c)
  show ?case
  proof (cases "c < n \<and> cur + c < be")
    case False
    then have "R = Some (mt, c)"
      using "1.prems"(1) unfolding strmatch_loop.simps [of m be p n cur mt c] by (simp only: if_False)
    then show ?thesis using "1.prems" by auto
  next
    case True
    then obtain cur' n' where r: "strmatch_run m be (p + n) cur p 0 = Some (cur', n')" "s + n' \<le> cur'" "cur' \<le> be"
        "p + n' \<le> p + n" "\<forall>k<n'. m ! (cur' - n' + k) = m ! (p + k)"
      using strmatch_run_spec [of m be "p + n" cur p 0 _ p s] "1.prems" by auto
    show ?thesis
    proof (cases "n' > c")
      case gt: True
      have "R = strmatch_loop m be p n cur' (Some (cur' - n')) n'"
        using "1.prems"(1) True r(1) gt by (subst (asm) strmatch_loop.simps) simp
      moreover have "is_match m s be p n (cur' - n') n'" using r by (simp add: is_match_def)
      ultimately show ?thesis
        using "1.IH"(1) [OF True r(1) refl gt, of R] "1.prems"(3,4) r(2) by simp
    next
      case le: False
      have "R = strmatch_loop m be p n cur' mt c"
        using "1.prems"(1) True r(1) le by (subst (asm) strmatch_loop.simps) simp
      then show ?thesis
        using "1.IH"(2) [OF True r(1) refl le, of R] "1.prems"(3-6) r(2) by simp
    qed
  qed
qed

lemma strmatch_spec:
  assumes "s + cb \<le> length m" "p + n \<le> length m"
  shows "\<exists>mt c. strmatch m s cb p n = Some (mt, c) \<and> (\<forall>x. mt = Some x \<longrightarrow> is_match m s (s + cb) p n x c)"
  using strmatch_loop_spec [of m "s + cb" p n s None 0 _ s] assms by (fastforce simp: strmatch_def)

section \<open>References\<close>

lemma copy_ref_spec:
  assumes "unat unc + cbPrebuf < 2 ^ 32" "length buf = unat unc + cbPrebuf" "off < w" "w + n \<le> length buf"
    "\<And>i. i < w \<Longrightarrow> buf ! i = t ! i" "\<And>k. k < n \<Longrightarrow> t ! (off + k) = t ! (w + k)"
  shows "\<exists>buf'. copy_ref unc (of_nat n) (of_nat off) w buf = Some (w + n, buf') \<and> length buf' = length buf \<and>
    (\<forall>i<w + n. buf' ! i = t ! i)"
  using assms
proof (induction n arbitrary: off w buf)
  case 0
  then show ?case by (simp add: copy_ref.simps)
next
  case (Suc n)
  have u: "unat (unc + of_nat cbPrebuf) = unat unc + cbPrebuf"
    using Suc.prems(1) by (subst unat_add_small) (simp_all add: unat_of_nat_small cbPrebuf_207)
  have o: "unat (of_nat off :: uint32) = off" using Suc.prems by (simp add: unat_of_nat_small)
  have n: "(of_nat (Suc n) :: uint32) \<noteq> 0"
    using Suc.prems unat_of_nat_small [of "Suc n", where 'a = 32] by (auto simp del: of_nat_Suc)
  have g: "nth_opt buf off = Some (t ! off)" using Suc.prems by simp
  have lt: "w < unat unc + cbPrebuf" "(of_nat off :: uint32) < unc + of_nat cbPrebuf"
    using Suc.prems by (simp_all add: word_less_nat_alt u o)
  let ?b = "buf[w := t ! off]"
  have step: "copy_ref unc (of_nat (Suc n)) (of_nat off) w buf = copy_ref unc (of_nat n) (of_nat (Suc off)) (Suc w) ?b"
    using n lt g Suc.prems(2) by (subst copy_ref.simps) (simp add: u o algebra_simps)
  have "?b ! i = t ! i" if "i < Suc w" for i
    using that Suc.prems(2,4,5) Suc.prems(6) [of 0] by (cases "i = w") auto
  moreover have "t ! (Suc off + k) = t ! (Suc w + k)" if "k < n" for k
    using that Suc.prems(6) [of "Suc k"] by simp
  ultimately show ?case
    using Suc.IH [of ?b "Suc off" "Suc w"] Suc.prems unfolding step by auto
qed

lemma and_fff: "unat ((x :: uint32) AND 0xfff) = unat x mod 4096"
proof -
  have "x AND 0xfff = take_bit 12 x" by (simp add: take_bit_eq_mask mask_eq_exp_minus_1)
  then show ?thesis by (simp add: unsigned_take_bit_eq take_bit_eq_mod unat_mod_distrib)
qed

lemma ref_bytes_offset:
  fixes x :: uint32 and y :: byte
  assumes "x = x AND 0xfff" "y = y AND 0x0f"
  shows "(push_bit 4 (ucast (ucast (drop_bit 4 x) :: byte)) :: uint32) OR ucast (drop_bit 4 (ucast (push_bit 4 x AND 0xf0) OR y)) = x"
proof (rule bit_word_eqI)
  fix n assume n: "n < LENGTH(32)"
  have m: "(0xfff :: uint32) = mask 12" "(0x0f :: byte) = mask 4" "(0xf0 :: uint32) = push_bit 4 (mask 4)" by (simp_all add: mask_eq_exp_minus_1)
  have x: "bit x k \<longleftrightarrow> k < 12 \<and> bit x k" for k by (subst assms(1)) (auto simp: m bit_simps)
  have y: "bit y k \<longleftrightarrow> k < 4 \<and> bit y k" for k by (subst assms(2)) (auto simp: m bit_simps)
  show "bit ((push_bit 4 (ucast (ucast (drop_bit 4 x) :: byte)) :: uint32) OR ucast (drop_bit 4 (ucast (push_bit 4 x AND 0xf0) OR y))) n = bit x n"
    using n x [of n] y [of "4 + n"] by (cases "4 \<le> n") (auto simp: bit_simps m)
qed
lemma ref_bytes_size:
  fixes x :: uint32 and y :: byte
  assumes "y = y AND 0x0f"
  shows "(ucast (push_bit 4 x AND 0xf0) OR y) AND 0xf = y"
proof (rule bit_word_eqI)
  fix n assume n: "n < LENGTH(8)"
  have m: "(0x0f :: byte) = mask 4" "(0xf0 :: uint32) = push_bit 4 (mask 4)" by (simp_all add: mask_eq_exp_minus_1)
  have y: "bit y k \<longleftrightarrow> k < 4 \<and> bit y k" for k by (subst assms(1)) (auto simp: m bit_simps)
  show "bit ((ucast (push_bit 4 x AND 0xf0) OR y) AND 0xf) n = bit y n"
    using n y [of n] by (auto simp: bit_simps m)
qed
lemma page_offset:
  assumes "m < 2 ^ 32" "page < 2 ^ 32" "4096 dvd page"
  shows "unat ((of_nat m - of_nat page :: uint32) AND 0xfff) = m mod 4096"
proof -
  have u: "uint (of_nat m :: uint32) = int m" "uint (of_nat page :: uint32) = int page"
    using assms(1,2) by (simp_all add: unat_of_nat_small uint_nat del: uint_word_of_int_eq)
  have "int (unat (of_nat m - of_nat page :: uint32)) = (int m - int page) mod 2 ^ 32"
    unfolding uint_nat [symmetric] uint_word_ariths(2) u by simp
  then have "int (unat (of_nat m - of_nat page :: uint32) mod 4096) = (int m - int page) mod 2 ^ 32 mod 4096"
    by (simp add: zmod_int)
  also have "\<dots> = (int m - int page) mod 4096" by (simp add: mod_mod_cancel)
  also have "\<dots> = int (m mod 4096)"
  proof -
    obtain k where "page = 4096 * k" using assms(3) by (elim dvdE)
    then have "int m - int page = int m + (- int k) * 4096" by simp
    then show ?thesis by (simp only: mod_mult_self1 zmod_int of_nat_numeral)
  qed
  finally show ?thesis unfolding and_fff by simp
qed

lemma ref_offset_spec:
  assumes "w < 2 ^ 31" "m < w" "w \<le> m + 4095"
    "x = (of_nat m - of_nat (w div 4096 * 4096) :: uint32) AND 0xfff" "y = y AND 0x0f"
  shows "ref_offset (ucast (drop_bit 4 x)) (ucast (push_bit 4 x AND 0xf0) OR y) w = of_nat m"
proof -
  let ?p = "w div 4096 * 4096"
  have p: "?p \<le> w" "w < ?p + 4096" by simp_all
  have x: "unat x = m mod 4096" unfolding assms(4) using assms p by (intro page_offset) auto
  have "x = x AND 0xfff" unfolding assms(4) by (simp add: and.assoc)
  note d = ref_bytes_offset [OF this assms(5)]
  have s: "(of_nat ?p + x :: uint32) = of_nat (?p + m mod 4096)"
    by (simp flip: x)
  have u: "unat (of_nat (?p + m mod 4096) :: uint32) = ?p + m mod 4096" "unat (of_nat w :: uint32) = w"
  proof -
    have "?p + m mod 4096 < 2 ^ LENGTH(32)" "w < 2 ^ LENGTH(32)" using assms(1) p by simp_all
    then show "unat (of_nat (?p + m mod 4096) :: uint32) = ?p + m mod 4096" "unat (of_nat w :: uint32) = w"
      by (simp_all only: unat_of_nat_small)
  qed
  have o: "ref_offset (ucast (drop_bit 4 x)) (ucast (push_bit 4 x AND 0xf0) OR y) w =
      (if ?p + m mod 4096 > w then of_nat (?p + m mod 4096) - 4096 else of_nat (?p + m mod 4096))"
    unfolding ref_offset_def Let_def d s by (simp add: word_less_nat_alt u del: of_nat_add of_nat_mult)
  show ?thesis
  proof (cases "?p \<le> m")
    case True
    then have "m mod 4096 = m - ?p" using p assms(2) by (simp add: mod_nat_eqI)
    then show ?thesis unfolding o using True assms(2) by simp
  next
    case False
    then have m: "m mod 4096 + ?p = m + 4096" 
    proof -
      have "w = w div 4096 * 4096 + w mod 4096" "m = m div 4096 * 4096 + m mod 4096" "m mod 4096 < 4096" by simp_all
      moreover have "w div 4096 = m div 4096 + 1"
        using False p assms(2,3) calculation by linarith
      ultimately show ?thesis by linarith
    qed
    then have "w < ?p + m mod 4096" using p assms(3) by linarith
    moreover have "(of_nat (?p + m mod 4096) :: uint32) = of_nat m + 4096" using m by (metis add.commute of_nat_add of_nat_numeral)
    ultimately show ?thesis unfolding o by simp
  qed
qed
section \<open>The output buffer\<close>

definition wf_out :: "rtfout \<Rightarrow> bool" where
  "wf_out st \<longleftrightarrow> ulOutCursor st < length (lpDest st) \<and> ulFlagCursor st < ulOutCursor st \<and>
     RTFHeader_size \<le> ulOutCursor st \<and> ulFlagNr st \<le> 8 \<and>
     (ulFlagNr st = 0 \<or> (\<forall>k\<ge>8 - ulFlagNr st. \<not> bit (lpDest st ! ulFlagCursor st) k))"

text \<open>
  What the rest of the run keeps of the bytes written so far: everything below the output cursor
  except the flag byte, of which it keeps the bits already decided.
\<close>

definition keeps :: "rtfout \<Rightarrow> bytes \<Rightarrow> bool" where
  "keeps st D \<longleftrightarrow> (\<forall>i<ulOutCursor st. i \<noteq> ulFlagCursor st \<longrightarrow> D ! i = lpDest st ! i) \<and>
     (\<forall>k<8 - ulFlagNr st. bit (D ! ulFlagCursor st) k = bit (lpDest st ! ulFlagCursor st) k)"

lemma emit_spec:
  assumes "ulOutCursor st < length (lpDest st)"
  shows "\<exists>d. emit j b st = Some (st\<lparr>lpDest := d, ulOutCursor := Suc (ulOutCursor st)\<rparr>) \<and>
     Suc (ulOutCursor st) < length d \<and> d ! ulOutCursor st = b \<and> (\<forall>i<ulOutCursor st. d ! i = lpDest st ! i)"
proof -
  let ?d = "(lpDest st)[ulOutCursor st := b]"
  let ?g = "if Suc (ulOutCursor st) \<ge> length ?d then ?d @ malloc j 1024 else ?d"
  have "emit j b st = Some (st\<lparr>lpDest := ?g, ulOutCursor := Suc (ulOutCursor st)\<rparr>)"
    using assms by (simp add: emit_def grow_def)
  moreover have "Suc (ulOutCursor st) < length ?g" "?g ! ulOutCursor st = b" "\<forall>i<ulOutCursor st. ?g ! i = lpDest st ! i"
    using assms by (auto simp: nth_append)
  ultimately show ?thesis by blast
qed

lemma new_flag_spec:
  assumes "wf_out st"
  shows "\<exists>st'. new_flag j st = Some st' \<and> wf_out st' \<and> 0 < ulFlagNr st' \<and>
     (if ulFlagNr st = 0
      then ulFlagNr st' = 8 \<and> ulFlagCursor st' = ulOutCursor st \<and> ulOutCursor st' = Suc (ulOutCursor st) \<and>
        (\<forall>i<ulOutCursor st. lpDest st' ! i = lpDest st ! i)
      else st' = st)"
proof (cases "ulFlagNr st = 0")
  case True
  obtain d where d: "emit j 0 (st\<lparr>ulFlagCursor := ulOutCursor st\<rparr>) =
      Some (st\<lparr>ulFlagCursor := ulOutCursor st, lpDest := d, ulOutCursor := Suc (ulOutCursor st)\<rparr>)"
    "Suc (ulOutCursor st) < length d" "d ! ulOutCursor st = 0" "\<forall>i<ulOutCursor st. d ! i = lpDest st ! i"
    using emit_spec [of "st\<lparr>ulFlagCursor := ulOutCursor st\<rparr>" j 0] assms by (auto simp: wf_out_def)
  then show ?thesis using assms True by (auto simp: new_flag_def wf_out_def)
qed (use assms in \<open>simp add: new_flag_def\<close>)

lemma set_flag_spec:
  assumes "wf_out st" "0 < ulFlagNr st"
  shows "\<exists>d. set_flag st = Some (st\<lparr>lpDest := d\<rparr>) \<and> length d = length (lpDest st) \<and>
     (\<forall>i. i \<noteq> ulFlagCursor st \<longrightarrow> d ! i = lpDest st ! i) \<and>
     (\<forall>k. bit (d ! ulFlagCursor st) k = (bit (lpDest st ! ulFlagCursor st) k \<or> k = 8 - ulFlagNr st))"
  using assms by (auto simp: set_flag_def wf_out_def bit_simps)

text \<open>One item: the bytes it writes, and the flag bit that tells what they are.\<close>

definition item_written :: "rtfout \<Rightarrow> bool \<Rightarrow> bytes \<Rightarrow> rtfout \<Rightarrow> bool" where
  "item_written st fl bs st' \<longleftrightarrow>
     ulFlagNr st' = ulFlagNr st \<and> ulFlagCursor st' = ulFlagCursor st \<and>
     ulOutCursor st' = ulOutCursor st + length bs \<and> ulOutCursor st' < length (lpDest st') \<and>
     (\<forall>i<ulOutCursor st. i \<noteq> ulFlagCursor st \<longrightarrow> lpDest st' ! i = lpDest st ! i) \<and>
     (\<forall>i<length bs. lpDest st' ! (ulOutCursor st + i) = bs ! i) \<and>
     (\<forall>k. bit (lpDest st' ! ulFlagCursor st) k \<longleftrightarrow> bit (lpDest st ! ulFlagCursor st) k \<or> (fl \<and> k = 8 - ulFlagNr st))"

lemma emit_item:
  assumes "wf_out st" "0 < ulFlagNr st"
  shows "\<exists>st'. emit j b st = Some st' \<and> item_written st False [b] st'"
proof -
  obtain d where "emit j b st = Some (st\<lparr>lpDest := d, ulOutCursor := Suc (ulOutCursor st)\<rparr>)"
    "Suc (ulOutCursor st) < length d" "d ! ulOutCursor st = b" "\<forall>i<ulOutCursor st. d ! i = lpDest st ! i"
    using emit_spec assms by (metis wf_out_def)
  then show ?thesis using assms by (auto simp: item_written_def wf_out_def)
qed

lemma emit_pair_item:
  assumes "wf_out st" "0 < ulFlagNr st"
  shows "\<exists>st'. (do { st \<leftarrow> emit j a st; st \<leftarrow> emit j b st; set_flag st }) = Some st' \<and> item_written st True [a, b] st'"
proof -
  obtain d where d: "emit j a st = Some (st\<lparr>lpDest := d, ulOutCursor := Suc (ulOutCursor st)\<rparr>)"
    "Suc (ulOutCursor st) < length d" "d ! ulOutCursor st = a" "\<forall>i<ulOutCursor st. d ! i = lpDest st ! i"
    using emit_spec assms by (metis wf_out_def)
  let ?st = "st\<lparr>lpDest := d, ulOutCursor := Suc (ulOutCursor st)\<rparr>"
  obtain e where e: "emit j b ?st = Some (?st\<lparr>lpDest := e, ulOutCursor := Suc (Suc (ulOutCursor st))\<rparr>)"
    "Suc (Suc (ulOutCursor st)) < length e" "e ! Suc (ulOutCursor st) = b" "\<forall>i<Suc (ulOutCursor st). e ! i = d ! i"
    using emit_spec [of ?st j b] d(2) by auto
  let ?st2 = "?st\<lparr>lpDest := e, ulOutCursor := Suc (Suc (ulOutCursor st))\<rparr>"
  have "wf_out ?st2" using assms e d by (auto simp: wf_out_def)
  then obtain g where g: "set_flag ?st2 = Some (?st2\<lparr>lpDest := g\<rparr>)" "length g = length e"
    "\<forall>i. i \<noteq> ulFlagCursor st \<longrightarrow> g ! i = e ! i"
    "\<forall>k. bit (g ! ulFlagCursor st) k = (bit (e ! ulFlagCursor st) k \<or> k = 8 - ulFlagNr st)"
    using set_flag_spec [of ?st2] assms(2) by auto
  have "item_written st True [a, b] (?st2\<lparr>lpDest := g\<rparr>)"
    using d e g assms by (auto simp: item_written_def wf_out_def less_Suc_eq)
  then show ?thesis using d(1) e(1) g(1) by simp
qed
lemma compress_item_spec:
  assumes "wf_out st" "0 < ulFlagNr st" "length t = cbPrebuf + n" "cur < n" "cbPrebuf + n < 2 ^ 31"
  shows "\<exists>cur' st' fl bs. compress_item j t n cur st = Some (cur', st') \<and> item_written st fl bs st' \<and>
    cur < cur' \<and> cur' \<le> n \<and>
    (\<not> fl \<longrightarrow> bs = [t ! (cbPrebuf + cur)] \<and> cur' = Suc cur) \<and>
    (fl \<longrightarrow> (\<exists>m k c1 c2. bs = [c1, c2] \<and> cur' = cur + k \<and> ref_offset c1 c2 (cbPrebuf + cur) = of_nat m \<and>
       ucast (c2 AND 0xf) + 2 = (of_nat k :: uint32) \<and> m < cbPrebuf + cur \<and>
       (\<forall>i<k. t ! (m + i) = t ! (cbPrebuf + cur + i))))"
proof -
  let ?w = "cbPrebuf + cur"
  let ?s = "if cur + cbPrebuf \<ge> 4096 then cur + cbPrebuf - 4095 else 0"
  let ?n = "if n - cur \<ge> 17 then 17 else n - cur"
  have s: "?s + (?w - ?s) = ?w" "?s + (?w - ?s) \<le> length t" "?w + ?n \<le> length t" using assms by auto
  obtain mt c where sm: "strmatch t ?s (?w - ?s) ?w ?n = Some (mt, c)"
      "\<forall>x. mt = Some x \<longrightarrow> is_match t ?s ?w ?w ?n x c"
    using strmatch_spec [OF s(2,3)] unfolding s(1) by blast
  show ?thesis
  proof (cases "\<exists>m. mt = Some m \<and> 3 \<le> c")
    case False
    obtain st' where e: "emit j (t ! ?w) st = Some st'" "item_written st False [t ! ?w] st'"
      using emit_item assms by blast
    have "compress_item j t n cur st = Some (Suc cur, st')"
      using False sm(1) e(1) assms by (auto simp: compress_item_def Let_def split: option.splits)
    then show ?thesis using e(2) assms(4)
      by (intro exI [of _ "Suc cur"] exI [of _ st'] exI [of _ False] exI [of _ "[t ! ?w]"]) auto
  next
    case True
    then obtain m where m: "mt = Some m" "3 \<le> c" by auto
    have mt: "?s \<le> m" "m + c \<le> ?w" "c \<le> ?n" "\<forall>k<c. t ! (m + k) = t ! (?w + k)"
      using sm(2) m(1) by (simp_all add: is_match_def)
    define off :: uint32 where "off = (of_nat m - of_nat (?w div 4096 * 4096)) AND 0xfff"
    define y :: byte where "y = of_nat (c - 2) AND 0x0f"
    have c17: "c \<le> 17" "cur + c \<le> n" using mt(3) assms(4) by (auto split: if_splits)
    have y4: "y = y AND 0x0f" by (simp add: y_def and.assoc)
    let ?c1 = "ucast (drop_bit 4 off) :: byte" and ?c2 = "ucast (push_bit 4 off AND 0xf0) OR y :: byte"
    obtain st' where e: "(do { st \<leftarrow> emit j ?c1 st; st \<leftarrow> emit j ?c2 st; set_flag st }) = Some st'"
        "item_written st True [?c1, ?c2] st'"
      using emit_pair_item assms by blast
    have "ucast ((push_bit 4 off AND 0xf0) OR (of_nat (c - 2) AND 0x0f)) = ?c2"
      by (rule bit_word_eqI) (auto simp: y_def bit_simps)
    then have "emit_ref j cur m c st = Some st'"
      using e(1) by (simp add: emit_ref_def Let_def off_def add.commute)
    then have r: "compress_item j t n cur st = Some (cur + c, st')"
      using sm(1) m by (simp add: compress_item_def Let_def)
    have "ref_offset ?c1 ?c2 ?w = of_nat m"
    proof (rule ref_offset_spec [OF _ _ _ off_def y4])
      show "?w < 2 ^ 31" "m < ?w" "?w \<le> m + 4095" using assms mt(1,2) m(2) by (auto split: if_splits)
    qed
    moreover have "ucast (?c2 AND 0xf) + 2 = (of_nat c :: uint32)"
    proof -
      have "y = take_bit 4 (of_nat (c - 2))" by (simp add: y_def take_bit_eq_mask mask_eq_exp_minus_1)
      then have "unat y = c - 2"
        using c17(1) by (simp add: unsigned_take_bit_eq unat_of_nat_small take_bit_nat_eq_self)
      then have "(ucast y :: uint32) = of_nat (c - 2)" by (metis of_nat_unat)
      moreover have "(of_nat (c - 2) :: uint32) + 2 = of_nat c" using m(2) by (simp add: of_nat_diff)
      ultimately show ?thesis unfolding ref_bytes_size [OF y4] by simp
    qed
    ultimately show ?thesis using r e(2) m(2) mt(2,4) c17
      by (intro exI [of _ "cur + c"] exI [of _ st'] exI [of _ True] exI [of _ "[?c1, ?c2]"]) auto
  qed
qed

section \<open>The round trip\<close>

lemma next_wf:
  assumes "wf_out st" "0 < ulFlagNr st" "item_written st fl bs st'" "bs \<noteq> []"
  shows "wf_out (st'\<lparr>ulFlagNr := ulFlagNr st' - 1\<rparr>)"
  using assms by (cases "ulFlagNr st = 1") (auto simp: wf_out_def item_written_def)

lemma next_keeps:
  assumes "wf_out st" "0 < ulFlagNr st" "item_written st fl bs st'" "keeps (st'\<lparr>ulFlagNr := ulFlagNr st' - 1\<rparr>) D"
  shows "keeps st D" "\<And>i. i < length bs \<Longrightarrow> D ! (ulOutCursor st + i) = bs ! i"
    "bit (D ! ulFlagCursor st) (8 - ulFlagNr st) = fl"
proof -
  note d = assms(3) [unfolded item_written_def] assms(1) [unfolded wf_out_def] assms(4) [unfolded keeps_def, simplified]
  show "keeps st D" unfolding keeps_def
  proof (intro conjI allI impI)
    fix i assume "i < ulOutCursor st" "i \<noteq> ulFlagCursor st"
    then show "D ! i = lpDest st ! i" using d by auto
  next
    fix k assume "k < 8 - ulFlagNr st"
    then show "bit (D ! ulFlagCursor st) k = bit (lpDest st ! ulFlagCursor st) k" using d by auto
  qed
  show "D ! (ulOutCursor st + i) = bs ! i" if "i < length bs" for i using that d by auto
  show "bit (D ! ulFlagCursor st) (8 - ulFlagNr st) = fl"
  proof -
    have "8 - ulFlagNr st < 8 - (ulFlagNr st - 1)" using assms(1,2) unfolding wf_out_def by linarith
    then show ?thesis using d assms(2) by auto
  qed
qed

lemma new_flag_keeps:
  assumes "wf_out st" "new_flag j st = Some st'" "keeps st' D"
  shows "keeps st D"
proof (cases "ulFlagNr st = 0")
  case True
  then have n: "ulFlagNr st' = 8" "ulFlagCursor st' = ulOutCursor st" "ulOutCursor st' = Suc (ulOutCursor st)"
      "\<forall>i<ulOutCursor st. lpDest st' ! i = lpDest st ! i"
    using new_flag_spec [OF assms(1), of j] assms(2) by auto
  then show ?thesis using assms(1,3) True by (auto simp: keeps_def wf_out_def)
qed (use assms in \<open>simp add: new_flag_def\<close>)

lemma compress_loop_keeps:
  assumes "wf_out st" "length t = cbPrebuf + n" "cur \<le> n" "cbPrebuf + n < 2 ^ 31"
  shows "\<exists>F. compress_loop j t n cur st = Some F \<and> keeps st (lpDest F) \<and>
     ulOutCursor st + 2 \<le> ulOutCursor F \<and> ulOutCursor F < length (lpDest F)"
  using assms
proof (induction "n - cur" arbitrary: cur st rule: less_induct)
  case less
  obtain st1 where n: "new_flag j st = Some st1" "wf_out st1" "0 < ulFlagNr st1" "ulOutCursor st \<le> ulOutCursor st1"
    using new_flag_spec [OF less.prems(1), of j] by (metis le_Suc_eq le_refl)
  show ?case
  proof (cases "cur = n")
    case True
    let ?o = "(of_nat (cbPrebuf + n) :: uint32) AND 0xfff"
    obtain F where F: "end_marker j n st1 = Some F"
        "item_written st1 True [ucast (drop_bit 4 ?o), ucast (push_bit 4 ?o AND 0xf0)] F"
      using emit_pair_item [OF n(2,3)] unfolding end_marker_def Let_def by blast
    have "keeps st1 (lpDest F)" using F(2) n(2) unfolding keeps_def item_written_def wf_out_def by auto
    then have "keeps st (lpDest F)" using new_flag_keeps n(1) less.prems(1) by blast
    moreover have "compress_loop j t n cur st = Some F"
      using True n(1) F(1) by (subst compress_loop.simps) simp
    ultimately show ?thesis using F(2) n(4) by (auto simp: item_written_def)
  next
    case False
    then have "cur < n" using less.prems by simp
    then obtain cur' st' fl bs where i: "compress_item j t n cur st1 = Some (cur', st')" "item_written st1 fl bs st'"
        "cur < cur'" "cur' \<le> n" "bs \<noteq> []"
      using compress_item_spec [OF n(2,3) less.prems(2) _ less.prems(4), of cur j] by (metis list.discI)
    let ?st = "st'\<lparr>ulFlagNr := ulFlagNr st' - 1\<rparr>"
    have w: "wf_out ?st" using next_wf n i by blast
    obtain F where F: "compress_loop j t n cur' ?st = Some F" "keeps ?st (lpDest F)"
        "ulOutCursor ?st + 2 \<le> ulOutCursor F" "ulOutCursor F < length (lpDest F)"
      using less.hyps [of cur' ?st] w i(4) less.prems diff_less_mono2 [OF i(3) \<open>cur < n\<close>] by auto
    have "keeps st (lpDest F)" using next_keeps(1) [OF n(2,3) i(2) F(2)] new_flag_keeps n(1) less.prems(1) by blast
    moreover have "compress_loop j t n cur st = Some F"
      using \<open>cur < n\<close> n(1) i(1) F(1) by (subst compress_loop.simps) simp
    ultimately show ?thesis using F(3,4) i(2) n(4) by (auto simp: item_written_def)
  qed
qed

text \<open>The decompressor's flags when it stands where the compressor stood.\<close>

definition sync :: "rtfout \<Rightarrow> bytes \<Rightarrow> uint32 \<Rightarrow> uint32 \<Rightarrow> bool" where
  "sync st D fl nr \<longleftrightarrow> ulFlagNr st < 8 \<and> unat nr mod 8 = (8 - ulFlagNr st) mod 8 \<and>
     (\<forall>k<ulFlagNr st. bit fl (Suc k) = bit (D ! ulFlagCursor st) (8 - ulFlagNr st + k))"

lemma sync_flags:
  assumes "sync st D fl nr" "wf_out st" "new_flag j st = Some st1"
    "ulFlagNr st = 0 \<Longrightarrow> nth_opt src (ulOutCursor st) = Some (D ! ulOutCursor st)"
  shows "\<exists>fl'. (if nr mod 8 = 0 then map_option (\<lambda>b. (scast b, Suc (ulOutCursor st))) (nth_opt src (ulOutCursor st))
       else Some (drop_bit 1 fl, ulOutCursor st)) = Some (fl', ulOutCursor st1) \<and>
     (\<forall>k<ulFlagNr st1. bit fl' k = bit (D ! ulFlagCursor st1) (8 - ulFlagNr st1 + k))"
proof -
  have z: "nr mod 8 = 0 \<longleftrightarrow> unat nr mod 8 = 0" by (simp flip: unat_eq_0 add: unat_mod_distrib)
  have m: "unat nr mod 8 = 0 \<longleftrightarrow> ulFlagNr st = 0"
    using assms(1) by (cases "ulFlagNr st = 0") (auto simp: sync_def)
  show ?thesis
  proof (cases "ulFlagNr st = 0")
    case True
    then have n: "ulFlagNr st1 = 8" "ulFlagCursor st1 = ulOutCursor st" "ulOutCursor st1 = Suc (ulOutCursor st)"
      using new_flag_spec [OF assms(2), of j] assms(3) by auto
    have "bit (scast (D ! ulOutCursor st) :: uint32) k = bit (D ! ulOutCursor st) k" if "k < 8" for k
      using that by (simp add: bit_simps)
    then show ?thesis using True assms(4) z m n by auto
  next
    case False
    then have "st1 = st" using assms(3) by (simp add: new_flag_def)
    then show ?thesis using False z m assms(1) by (auto simp: sync_def bit_simps)
  qed
qed

lemma sync_next:
  assumes "sync st D fl nr" "wf_out st" "new_flag j st = Some st1"
    "\<forall>k<ulFlagNr st1. bit fl' k = bit (D ! ulFlagCursor st1) (8 - ulFlagNr st1 + k)"
    "item_written st1 f bs st'"
  shows "sync (st'\<lparr>ulFlagNr := ulFlagNr st' - 1\<rparr>) D fl' (nr + 1)"
proof -
  have n: "0 < ulFlagNr st1" "ulFlagNr st1 \<le> 8" "ulFlagNr st1 = (if ulFlagNr st = 0 then 8 else ulFlagNr st)"
    using new_flag_spec [OF assms(2), of j] assms(3) by (auto simp: wf_out_def split: if_splits)
  have "unat (nr + 1) mod 8 = Suc (unat nr) mod 8"
    by (simp add: unat_word_ariths mod_mod_cancel)
  also have "\<dots> = Suc (unat nr mod 8) mod 8" by (simp add: mod_Suc_eq)
  finally have "unat (nr + 1) mod 8 = Suc ((8 - ulFlagNr st) mod 8) mod 8" using assms(1) by (simp add: sync_def)
  also have "\<dots> = (8 - (ulFlagNr st1 - 1)) mod 8"
  proof (cases "ulFlagNr st = 0")
    case False
    then have "8 - (ulFlagNr st - 1) = Suc (8 - ulFlagNr st)" "(8 - ulFlagNr st) mod 8 = 8 - ulFlagNr st"
      using assms(1) False unfolding sync_def by (linarith, simp)
    then show ?thesis using n(3) False by simp
  qed (use n(3) in simp)
  finally have c: "unat (nr + 1) mod 8 = (8 - (ulFlagNr st1 - 1)) mod 8" .
  have "bit fl' (Suc k) = bit (D ! ulFlagCursor st1) (8 - (ulFlagNr st1 - 1) + k)" if "k < ulFlagNr st1 - 1" for k
  proof -
    have "8 - (ulFlagNr st1 - 1) + k = 8 - ulFlagNr st1 + Suc k" "Suc k < ulFlagNr st1" using that n by linarith+
    then show ?thesis using assms(4) by metis
  qed
  then show ?thesis using assms(5) c n(1,2) unfolding sync_def item_written_def by simp
qed

lemma decompress_compress:
  assumes "compress_loop j t n cur st = Some F" "wf_out st" "sync st (lpDest F) fl nr"
    "length t = cbPrebuf + n" "cur \<le> n" "cbPrebuf + n < 2 ^ 31" "unat unc = n"
    "length src = ulOutCursor F" "\<And>i. RTFHeader_size \<le> i \<Longrightarrow> i < ulOutCursor F \<Longrightarrow> src ! i = lpDest F ! i"
    "length buf = length t" "\<And>i. i < cbPrebuf + cur \<Longrightarrow> buf ! i = t ! i"
  shows "decompress_loop src unc (ulOutCursor st) (cbPrebuf + cur) fl nr buf = Some t"
  using assms
proof (induction "n - cur" arbitrary: cur st fl nr buf rule: less_induct)
  case less
  note pr = less.prems
  show ?case
  proof (cases "cur = n")
    case True
    then have "buf = t" using pr by (intro nth_equalityI) auto
    then show ?thesis using True pr(7) by (subst decompress_loop.simps) simp
  next
    case False
    then have cn: "cur < n" using pr(5) by simp
    obtain st1 where n: "new_flag j st = Some st1" "wf_out st1" "0 < ulFlagNr st1" "ulOutCursor st \<le> ulOutCursor st1"
      using new_flag_spec [OF pr(2), of j] by (metis le_Suc_eq le_refl)
    obtain cur' st' f bs where i: "compress_item j t n cur st1 = Some (cur', st')" "item_written st1 f bs st'"
        "cur < cur'" "cur' \<le> n" "\<not> f \<Longrightarrow> bs = [t ! (cbPrebuf + cur)]" "\<not> f \<Longrightarrow> cur' = Suc cur"
        "f \<Longrightarrow> \<exists>m k c1 c2. bs = [c1, c2] \<and> cur' = cur + k \<and> ref_offset c1 c2 (cbPrebuf + cur) = of_nat m \<and>
           ucast (c2 AND 0xf) + 2 = (of_nat k :: uint32) \<and> m < cbPrebuf + cur \<and>
           (\<forall>i<k. t ! (m + i) = t ! (cbPrebuf + cur + i))"
      using compress_item_spec [OF n(2,3) pr(4) cn pr(6), of j] by metis
    let ?st = "st'\<lparr>ulFlagNr := ulFlagNr st' - 1\<rparr>"
    have bs: "bs \<noteq> []" using i(5,7) by (cases f) auto
    have w: "wf_out ?st" using next_wf [OF n(2,3) i(2) bs] .
    have F: "compress_loop j t n cur' ?st = Some F"
      using pr(1) cn n(1) i(1) by (subst (asm) compress_loop.simps) simp
    then have k: "keeps ?st (lpDest F)" "ulOutCursor ?st + 2 \<le> ulOutCursor F"
      using compress_loop_keeps [OF w pr(4) i(4) pr(6), of j] by auto
    note nk = next_keeps [OF n(2,3) i(2) k(1)]
    have o: "ulOutCursor st' = ulOutCursor st1 + length bs" using i(2) by (simp add: item_written_def)
    have h: "RTFHeader_size \<le> ulOutCursor st" "RTFHeader_size \<le> ulOutCursor st1"
      using pr(2) n(2) by (simp_all add: wf_out_def)
    have sb: "nth_opt src (ulOutCursor st1 + i) = Some (bs ! i)" if "i < length bs" for i
      using that nk(2) pr(8,9) h(2) o k(2) by simp
    have "nth_opt src (ulOutCursor st) = Some (lpDest F ! ulOutCursor st)"
      using pr(8,9) h(1) o k(2) n(4) by simp
    then obtain fl' where fl: "(if nr mod 8 = 0 then map_option (\<lambda>b. (scast b, Suc (ulOutCursor st))) (nth_opt src (ulOutCursor st))
       else Some (drop_bit 1 fl, ulOutCursor st)) = Some (fl', ulOutCursor st1)"
       "\<forall>k<ulFlagNr st1. bit fl' k = bit (lpDest F ! ulFlagCursor st1) (8 - ulFlagNr st1 + k)"
      using sync_flags [OF pr(3,2) n(1)] by blast
    have f0: "fl' AND 1 = 0 \<longleftrightarrow> \<not> f"
    proof -
      have "bit fl' 0 = f" using fl(2) nk(3) n(3) by auto
      then show ?thesis unfolding and_one_eq even_iff_mod_2_eq_zero [symmetric] bit_0 by blast
    qed
    have s: "sync ?st (lpDest F) fl' (nr + 1)" using sync_next [OF pr(3,2) n(1) fl(2) i(2)] .
    note IH = less.hyps [OF diff_less_mono2 [OF i(3) cn] F w s pr(4) i(4) pr(6,7,8,9)]
    have lw: "cbPrebuf + cur < unat unc + cbPrebuf" "\<not> length src \<le> ulOutCursor st1"
      using cn pr(7,8) k(2) o by simp_all
    show ?thesis
    proof (cases f)
      case False
      let ?b = "buf[cbPrebuf + cur := t ! (cbPrebuf + cur)]"
      have "decompress_loop src unc (ulOutCursor st) (cbPrebuf + cur) fl nr buf =
          decompress_loop src unc (ulOutCursor ?st) (cbPrebuf + cur') fl' (nr + 1) ?b"
        using lw fl(1) f0 False sb [of 0] i(5,6) o pr(4,8,10) cn k(2)
        by (subst decompress_loop.simps) simp
      also have "\<dots> = Some t" using pr(4,10,11) i(6) False cn by (intro IH) (auto simp: nth_list_update)
      finally show ?thesis .
    next
      case True
      then obtain m k c1 c2 where r: "bs = [c1, c2]" "cur' = cur + k" "ref_offset c1 c2 (cbPrebuf + cur) = of_nat m"
          "ucast (c2 AND 0xf) + 2 = (of_nat k :: uint32)" "m < cbPrebuf + cur"
          "\<forall>i<k. t ! (m + i) = t ! (cbPrebuf + cur + i)"
        using i(7) by blast
      obtain b where b: "copy_ref unc (of_nat k) (of_nat m) (cbPrebuf + cur) buf = Some (cbPrebuf + cur + k, b)"
          "length b = length buf" "\<forall>i<cbPrebuf + cur + k. b ! i = t ! i"
        using copy_ref_spec [of unc buf m "cbPrebuf + cur" k t] r pr(4,6,7,10,11) i(4) by auto
      have "decompress_loop src unc (ulOutCursor st) (cbPrebuf + cur) fl nr buf =
          decompress_loop src unc (ulOutCursor ?st) (cbPrebuf + cur') fl' (nr + 1) b"
        using lw fl(1) f0 True sb [of 0] sb [of 1] o pr(8) k(2) r(1,2,3,4) b(1)
        by (subst decompress_loop.simps) (simp add: add.assoc)
      also have "\<dots> = Some t" using b(2,3) r(2) pr(10) by (intro IH) (auto simp: add.assoc)
      finally show ?thesis .
    qed
  qed
qed


lemma length_header [simp]: "length (header_bytes h) = RTFHeader_size"
  by (simp add: header_bytes_def le32_def RTFHeader_size_def)

lemma read_header_bytes: "read_header (header_bytes h @ q) = Some h"
proof -
  let ?a = "le32 (ulCompressedSize h)" and ?b = "le32 (ulUncompressedSize h)" and ?c = "le32 (ulMagic h)" and ?d = "le32 (ulChecksum h)"
  have l: "length (le32 w) = 4" for w by (simp add: le32_def)
  have "of_le32 (?a @ ?b @ ?c @ ?d @ q) 0 = Some (ulCompressedSize h)" using of_le32_bytes [of "[]"] by simp
  moreover have "of_le32 (?a @ ?b @ ?c @ ?d @ q) 4 = Some (ulUncompressedSize h)" using of_le32_bytes [of ?a] by (simp add: l)
  moreover have "of_le32 (?a @ ?b @ ?c @ ?d @ q) 8 = Some (ulMagic h)" using of_le32_bytes [of "?a @ ?b"] by (simp add: l)
  moreover have "of_le32 (?a @ ?b @ ?c @ ?d @ q) 12 = Some (ulChecksum h)" using of_le32_bytes [of "?a @ ?b @ ?c"] by (simp add: l)
  ultimately show ?thesis by (simp add: read_header_def header_bytes_def)
qed

text \<open>The stream takes at most two bytes for each byte of the input, the header and the end marker.\<close>

lemma emit_cursor: "emit j b st = Some st' \<Longrightarrow> ulOutCursor st' = Suc (ulOutCursor st)"
  by (auto simp: emit_def grow_def Let_def bind_Some_iff)

lemma new_flag_cursor: "new_flag j st = Some st' \<Longrightarrow> ulOutCursor st' \<le> Suc (ulOutCursor st)"
  using emit_cursor by (fastforce simp: new_flag_def split: if_splits)

lemma emit_pair_cursor:
  assumes "emit j a st = Some st1" "emit j b st1 = Some st2" "set_flag st2 = Some st3"
  shows "ulOutCursor st3 = ulOutCursor st + 2"
  using assms emit_cursor [of j a st st1] emit_cursor [of j b st1 st2] by (auto simp: set_flag_def bind_Some_iff)

lemma compress_item_cursor:
  assumes "compress_item j t n cur st = Some (cur', st')"
  shows "ulOutCursor st' + cur \<le> ulOutCursor st + cur' \<and> ulOutCursor st' \<le> ulOutCursor st + 2"
  using assms emit_cursor emit_pair_cursor
  by (fastforce simp: compress_item_def emit_ref_def Let_def bind_Some_iff split: option.splits if_splits)

lemma compress_loop_bound:
  assumes "compress_loop j t n cur st = Some F"
  shows "ulOutCursor F \<le> ulOutCursor st + (if cur \<le> n then 2 * (n - cur) + 3 else 0)"
  using assms
proof (induction j t n cur st rule: compress_loop.induct)
  case (1 j t n cur st)
  show ?case
  proof (cases "cur < n")
    case True
    then obtain st1 cur' st2 where s: "new_flag j st = Some st1" "compress_item j t n cur st1 = Some (cur', st2)"
        "compress_loop j t n cur' (st2\<lparr>ulFlagNr := ulFlagNr st2 - 1\<rparr>) = Some F"
      using "1.prems" by (subst (asm) compress_loop.simps) (auto simp: bind_Some_iff)
    have "ulOutCursor F \<le> ulOutCursor st2 + (if cur' \<le> n then 2 * (n - cur') + 3 else 0)"
      using "1.IH" [OF _ s(1) _ s(2) refl s(3)] True by simp
    then show ?thesis
      using new_flag_cursor [OF s(1)] compress_item_cursor [OF s(2)] compress_item_progress [OF s(2)] True by (auto split: if_splits)
  next
    case False
    show ?thesis
    proof (cases "cur = n")
      case True
      then obtain st1 where s: "new_flag j st = Some st1" "end_marker j n st1 = Some F"
        using "1.prems" by (subst (asm) compress_loop.simps) (auto simp: bind_Some_iff)
      then have "ulOutCursor F = ulOutCursor st1 + 2"
        using emit_pair_cursor by (auto simp: end_marker_def Let_def bind_Some_iff)
      then show ?thesis using new_flag_cursor [OF s(1)] True by simp
    next
      case gt: False
      then show ?thesis using "1.prems" False by (subst (asm) compress_loop.simps) simp
    qed
  qed
qed

lemma compress_decompress:
  assumes "cbPrebuf + length x < 2 ^ 31"
  shows "\<exists>c. rtf_compress j x = Some c \<and> length c \<le> 2 * length x + 19 \<and> rtf_get_uncompressed_length c = Some (of_nat (length x)) \<and>
     (\<forall>k d. length d = length x \<longrightarrow> rtf_decompress k d c = Some (0, x))"
proof -
  let ?n = "length x" and ?t = "lpPrebuf @ x"
  let ?st = "\<lparr>lpDest = malloc j (?n + 1024), ulOutCursor = RTFHeader_size, ulFlagCursor = 0, ulFlagNr = 0\<rparr>"
  have pre: "length lpPrebuf = cbPrebuf" by (simp add: cbPrebuf_def)
  have t: "memcpy (malloc j (?n + cbPrebuf)) 0 lpPrebuf = Some (lpPrebuf @ drop cbPrebuf (malloc j (?n + cbPrebuf)))"
    "memcpy (lpPrebuf @ drop cbPrebuf (malloc j (?n + cbPrebuf))) cbPrebuf x = Some ?t"
    by (simp_all add: memcpy_def pre)
  have w: "wf_out ?st" by (simp add: wf_out_def RTFHeader_size_def)
  obtain F where F: "compress_loop j ?t ?n 0 ?st = Some F" "RTFHeader_size + 2 \<le> ulOutCursor F" "ulOutCursor F < length (lpDest F)"
    using compress_loop_keeps [OF w, of ?t ?n 0 j] assms pre by auto
  obtain p where p: "chars_at (lpDest F) RTFHeader_size (ulOutCursor F - RTFHeader_size) = Some p"
    using F(2,3) by (simp add: chars_at_def)
  define h where "h = \<lparr>ulCompressedSize = of_nat (ulOutCursor F) - 4, ulUncompressedSize = of_nat ?n,
    ulMagic = 0x75465a4c, ulChecksum = crc32 p\<rparr>"
  define c where "c = header_bytes h @ drop RTFHeader_size (take (ulOutCursor F) (lpDest F))"
  have "memcpy (lpDest F) 0 (header_bytes h) = Some (header_bytes h @ drop RTFHeader_size (lpDest F))"
    using F(2,3) by (simp add: memcpy_def)
  moreover have "chars_at (header_bytes h @ drop RTFHeader_size (lpDest F)) 0 (ulOutCursor F) = Some c"
    using F(2,3) by (simp add: chars_at_def c_def drop_take)
  ultimately have comp: "rtf_compress j x = Some c"
    using t F(1) p by (simp add: rtf_compress_def Let_def flip: h_def)
  have len: "length c = ulOutCursor F" "RTFHeader_size \<le> length c" using F(2,3) by (simp_all add: c_def)
  have rh: "read_header c = Some h" unfolding c_def by (rule read_header_bytes)
  have u: "unat (ulUncompressedSize h) = ?n" using assms by (simp add: h_def unat_of_nat_small)
  have dec: "rtf_decompress k d c = Some (0, x)" if d: "length d = ?n" for k d
  proof -
    let ?b = "lpPrebuf @ drop cbPrebuf (malloc k (?n + cbPrebuf))"
    have u2: "unat (ulUncompressedSize h + of_nat cbPrebuf) = ?n + cbPrebuf"
      using assms by (subst unat_add_small) (simp_all add: u unat_of_nat_small cbPrebuf_207)
    have "decompress_loop c (ulUncompressedSize h) (ulOutCursor ?st) (cbPrebuf + 0) 0 0 ?b = Some ?t"
    proof (rule decompress_compress [OF F(1) w _ _ _ assms u len(1)])
      show "sync ?st (lpDest F) 0 0" by (simp add: sync_def)
      show "c ! i = lpDest F ! i" if "RTFHeader_size \<le> i" "i < ulOutCursor F" for i
        using that F(2,3) by (simp add: c_def nth_append)
    qed (simp_all add: pre nth_append)
    then have "decompress_loop c (ulUncompressedSize h) RTFHeader_size cbPrebuf 0 0 ?b = Some ?t" by simp
    moreover have "memcpy (malloc k (?n + cbPrebuf)) 0 lpPrebuf = Some ?b" by (simp add: memcpy_def pre)
    moreover have "chars_at ?t cbPrebuf ?n = Some x" by (simp add: chars_at_def pre)
    moreover have "memcpy d 0 x = Some x" using d by (simp add: memcpy_def)
    ultimately show ?thesis using len(2) by (simp add: rtf_decompress_def rh u u2) (simp add: h_def)
  qed
  have "rtf_get_uncompressed_length c = Some (of_nat ?n)"
    using len(2) by (simp add: rtf_get_uncompressed_length_def rh) (simp add: h_def)
  moreover have "length c \<le> 2 * ?n + 19" using compress_loop_bound [OF F(1)] len(1) by (simp add: RTFHeader_size_def)
  ultimately show ?thesis using comp dec by blast
qed

text \<open>
  C13: Whatever is compressed, below 2 GB, the stream announces the length of the input and
  unpacks to exactly the input, with no access outside a buffer on either side.
\<close>

theorem rtf_round_trip:
  assumes "cbPrebuf + length x < 2 ^ 31"
  shows "\<exists>c. rtf_compress j x = Some c \<and> rtf_get_uncompressed_length c = Some (of_nat (length x)) \<and>
     (\<forall>k d. length d = length x \<longrightarrow> rtf_decompress k d c = Some (0, x))"
  using compress_decompress [OF assms] by blast

theorem rtf_round_trip_witness:
  "\<exists>c. rtf_compress (\<lambda>_. 0xAA) [65, 66, 65, 66, 65, 66, 10] = Some c \<and>
     rtf_decompress (\<lambda>_. 0x55) (replicate 7 0) c = Some (0, [65, 66, 65, 66, 65, 66, 10])"
proof -
  have "cbPrebuf + length [65, 66, 65, 66, 65, 66, 10 :: byte] < 2 ^ 31" by (simp add: cbPrebuf_207)
  from rtf_round_trip [OF this, of "\<lambda>_. 0xAA"] show ?thesis
    by (elim exE conjE) (intro exI conjI, assumption, simp)
qed

section \<open>Every other input\<close>






section \<open>The checksum\<close>

text \<open>The reference: the shift register of the reflected CRC-32 polynomial, one bit at a time.\<close>

definition crc_bit :: "uint32 \<Rightarrow> uint32" where
  "crc_bit c = (if bit c 0 then drop_bit 1 c XOR 0xEDB88320 else drop_bit 1 c)"

definition crc_byte :: "uint32 \<Rightarrow> uint32" where
  "crc_byte c = crc_bit (crc_bit (crc_bit (crc_bit (crc_bit (crc_bit (crc_bit (crc_bit c)))))))"

fun crc_reference :: "bytes \<Rightarrow> uint32 \<Rightarrow> uint32" where
  "crc_reference [] crc = crc"
| "crc_reference (p # ps) crc = crc_reference ps (crc_byte (crc XOR ucast p))"

fun words_from :: "nat \<Rightarrow> uint32 \<Rightarrow> uint32 list" where
  "words_from 0 w = []"
| "words_from (Suc n) w = w # words_from n (w + 1)"

lemma crctable_1: "map crc_byte (words_from 64 0) = take 64 crctable" by code_simp
lemma crctable_2: "map crc_byte (words_from 64 64) = take 64 (drop 64 crctable)" by code_simp
lemma crctable_3: "map crc_byte (words_from 64 128) = take 64 (drop 128 crctable)" by code_simp
lemma crctable_4: "map crc_byte (words_from 64 192) = drop 192 crctable" by code_simp

lemma words_from_nth: "i < n \<Longrightarrow> words_from n w ! i = w + of_nat i"
  by (induction n w arbitrary: i rule: words_from.induct) (auto simp: nth_Cons' gr0_conv_Suc)

lemma length_words_from [simp]: "length (words_from n w) = n"
  by (induction n w rule: words_from.induct) auto

lemma crctable_entry:
  assumes "i < 256"
  shows "crctable ! i = crc_byte (of_nat i)"
proof -
  have l: "length crctable = 256" by (simp add: crctable_def)
  have *: "crctable ! (k + i) = crc_byte (of_nat k + of_nat i)"
    if "map crc_byte (words_from 64 (of_nat k)) = take 64 (drop k crctable)" "k \<le> 192" "i < 64" for k i
    using arg_cong [OF that(1), of "\<lambda>xs. xs ! i"] that(2,3) l by (simp add: words_from_nth)
  consider "i < 64" | "64 \<le> i" "i < 128" | "128 \<le> i" "i < 192" | "192 \<le> i" using assms by linarith
  then show ?thesis
  proof cases
    case 1
    then show ?thesis using * [of 0 i] crctable_1 by simp
  next
    case 2
    then show ?thesis using * [of 64 "i - 64"] crctable_2 by (simp add: of_nat_diff)
  next
    case 3
    then show ?thesis using * [of 128 "i - 128"] crctable_3 by (simp add: of_nat_diff)
  next
    case 4
    then show ?thesis using * [of 192 "i - 192"] crctable_4 assms l by (simp add: of_nat_diff)
  qed
qed

lemma crc_bit_xor: "crc_bit (x XOR y) = crc_bit x XOR crc_bit y"
  by (rule bit_word_eqI) (auto simp: crc_bit_def bit_simps)

lemma crc_bit_shift: "\<not> bit x 0 \<Longrightarrow> crc_bit x = drop_bit 1 x"
  by (simp add: crc_bit_def)

lemma crc_byte_xor: "crc_byte (x XOR y) = crc_byte x XOR crc_byte y"
  by (simp add: crc_byte_def crc_bit_xor)

lemma crc_byte_high:
  assumes "\<And>k. k < 8 \<Longrightarrow> \<not> bit x k"
  shows "crc_byte x = drop_bit 8 x"
proof -
  have s: "crc_bit (drop_bit k x) = drop_bit (1 + k) x" if "k < 8" for k
    using assms [OF that] by (simp add: crc_bit_def bit_drop_bit_eq drop_bit_drop_bit)
  show ?thesis
    using s [of 0] s [of 1] s [of 2] s [of 3] s [of 4] s [of 5] s [of 6] s [of 7]
    by (simp add: crc_byte_def del: One_nat_def)
qed

text \<open>
  The table driven checksum is the bit by bit CRC-32 of the data, with a start value of 0 and
  no final inversion.
\<close>

lemma crc32_is_crc: "crc32 data = crc_reference data 0"
proof -
  have step: "drop_bit 8 c XOR crctable ! unat ((c XOR scast p) AND 0xff) = crc_byte (c XOR ucast p)" for c :: uint32 and p :: byte
  proof -
    let ?x = "c XOR ucast p"
    have m: "(0xff :: uint32) = mask 8" by (simp add: mask_eq_exp_minus_1)
    have lo: "(c XOR scast p) AND 0xff = ?x AND 0xff" unfolding m by (rule bit_word_eqI) (auto simp: bit_simps)
    have "unat (take_bit 8 ?x) < 2 ^ 8" unfolding unsigned_take_bit_eq by (rule take_bit_nat_less_exp)
    then have "unat (?x AND 0xff) < 256" unfolding m take_bit_eq_mask [symmetric] by simp
    then have t: "crctable ! unat (?x AND 0xff) = crc_byte (?x AND 0xff)"
      using crctable_entry by (simp add: of_nat_unat)
    have "crc_byte (?x AND NOT 0xff) = drop_bit 8 (?x AND NOT 0xff)"
      by (rule crc_byte_high) (simp add: bit_simps m)
    also have "\<dots> = drop_bit 8 c" unfolding m by (rule bit_word_eqI) (auto simp: bit_simps dest: bit_imp_le_length)
    finally have h: "crc_byte (?x AND NOT 0xff) = drop_bit 8 c" .
    have "?x = (?x AND NOT 0xff) XOR (?x AND 0xff)" by (rule bit_word_eqI) (auto simp: bit_simps)
    then have "crc_byte ?x = crc_byte (?x AND NOT 0xff) XOR crc_byte (?x AND 0xff)"
      by (metis crc_byte_xor)
    then show ?thesis unfolding lo t h by simp
  qed
  have "crc32_loop data c = crc_reference data c" for c
    by (induction data arbitrary: c) (simp_all add: step)
  then show ?thesis by (simp add: crc32_def)
qed

end
