(* ===== verification/MemStream.thy ===== *)
theory MemStream
  imports Bytes
begin

text \<open>
  Streams in memory (common/ECMemStream.cpp, .h): the block that holds the data and, in transacted
  mode, the committed copy; the stream with its position; and what the code expects of any stream
  (the members of IStream it calls), as a record of functions.

  The allocations are taken to succeed; memory that is not cleared holds the bytes given by \<open>j\<close>. A
  clone shares the block and starts at position 0; commit functions only read the clone they are given.
\<close>

definition STGM_WRITE :: uint32 where "STGM_WRITE = 0x00000001"
definition STGM_SHARE_EXCLUSIVE :: uint32 where "STGM_SHARE_EXCLUSIVE = 0x00000010"
definition STGM_TRANSACTED :: uint32 where "STGM_TRANSACTED = 0x00010000"
definition EC_MEMBLOCK_SIZE :: uint32 where "EC_MEMBLOCK_SIZE = 8192"

section \<open>The block\<close>

record memblock =
  lpCurrent :: bytes
  lpOriginal :: bytes
  cbCurrent :: uint32
  cbOriginal :: uint32
  cbTotal :: uint32
  b_ulFlags :: uint32

definition realloc :: "(nat \<Rightarrow> byte) \<Rightarrow> bytes \<Rightarrow> nat \<Rightarrow> bytes" where
  "realloc j p n = take n p @ map j [length p..<n]"

definition memset :: "bytes \<Rightarrow> nat \<Rightarrow> byte \<Rightarrow> nat \<Rightarrow> bytes option" where
  "memset p i v n = memcpy p i (replicate n v)"

definition ECMemBlock :: "bytes \<Rightarrow> uint32 \<Rightarrow> memblock" where
  "ECMemBlock buffer ulFlags =
     (let n = of_nat (length buffer); t = ulFlags AND STGM_TRANSACTED \<noteq> 0
      in if length buffer = 0
         then \<lparr>lpCurrent = [], lpOriginal = [], cbCurrent = 0, cbOriginal = 0, cbTotal = 0, b_ulFlags = ulFlags\<rparr>
         else \<lparr>lpCurrent = buffer, lpOriginal = (if t then buffer else []), cbCurrent = n,
           cbOriginal = (if t then n else 0), cbTotal = n, b_ulFlags = ulFlags\<rparr>)"

definition ReadAt :: "memblock \<Rightarrow> uint32 \<Rightarrow> uint32 \<Rightarrow> bytes option" where
  "ReadAt b ulPos ulLen =
     (let ulToRead = cbCurrent b - ulPos; ulToRead = (if ulLen < ulToRead then ulLen else ulToRead)
      in chars_at (lpCurrent b) (unat ulPos) (unat ulToRead))"

definition WriteAt :: "(nat \<Rightarrow> byte) \<Rightarrow> memblock \<Rightarrow> uint32 \<Rightarrow> bytes \<Rightarrow> memblock option" where
  "WriteAt j b ulPos buffer = do {
     let ulLen = of_nat (length buffer);
     let dsize = ulPos + ulLen;
     b \<leftarrow> (if cbTotal b < dsize then do {
         let newsize = cbTotal b + (dsize div EC_MEMBLOCK_SIZE + 1) * EC_MEMBLOCK_SIZE;
         lpNew \<leftarrow> memset (realloc j (lpCurrent b) (unat newsize)) (unat (cbTotal b)) 0 (unat (newsize - cbTotal b));
         Some (b\<lparr>lpCurrent := lpNew, cbTotal := newsize\<rparr>)
       } else Some b);
     let b = (if dsize > cbCurrent b then b\<lparr>cbCurrent := ulPos + ulLen\<rparr> else b);
     p \<leftarrow> memcpy (lpCurrent b) (unat ulPos) buffer;
     Some (b\<lparr>lpCurrent := p\<rparr>)
   }"

definition CommitBlock :: "memblock \<Rightarrow> memblock option" where
  "CommitBlock b =
     (if b_ulFlags b AND STGM_TRANSACTED = 0 then Some b
      else map_option (\<lambda>p. b\<lparr>lpOriginal := p, cbOriginal := cbCurrent b\<rparr>) (chars_at (lpCurrent b) 0 (unat (cbCurrent b))))"

definition RevertBlock :: "memblock \<Rightarrow> memblock option" where
  "RevertBlock b =
     (if b_ulFlags b AND STGM_TRANSACTED = 0 then Some b
      else map_option (\<lambda>p. b\<lparr>lpCurrent := p, cbCurrent := cbOriginal b, cbTotal := cbOriginal b\<rparr>)
        (chars_at (lpOriginal b) 0 (unat (cbOriginal b))))"

definition SetSizeBlock :: "(nat \<Rightarrow> byte) \<Rightarrow> memblock \<Rightarrow> uint32 \<Rightarrow> memblock option" where
  "SetSizeBlock j b ulSize = do {
     let lpNew = realloc j (lpCurrent b) (unat ulSize);
     lpNew \<leftarrow> (if ulSize > cbCurrent b then memset lpNew (unat (cbCurrent b)) 0 (unat (ulSize - cbCurrent b)) else Some lpNew);
     Some (b\<lparr>lpCurrent := lpNew, cbCurrent := ulSize, cbTotal := ulSize\<rparr>)
   }"

section \<open>The stream\<close>

text \<open>The part of a stream that a clone has; a stream adds the commit function and its argument.\<close>

record memhandle =
  lpMemBlock :: memblock
  liPos :: "64 word"
  ulFlags :: uint32

record 'p memstream = memhandle +
  fDirty :: bool
  lpCommitFunc :: "(memhandle \<Rightarrow> 'p \<Rightarrow> (hresult \<times> 'p) option) option"
  lpParam :: 'p

definition ECMemStream_Create :: "bytes \<Rightarrow> uint32 \<Rightarrow> (memhandle \<Rightarrow> 'p \<Rightarrow> (hresult \<times> 'p) option) option \<Rightarrow> 'p \<Rightarrow> 'p memstream" where
  "ECMemStream_Create buffer fl f p = \<lparr>lpMemBlock = ECMemBlock buffer fl, liPos = 0, ulFlags = fl,
     fDirty = False, lpCommitFunc = f, lpParam = p\<rparr>"

definition Clone :: "'p memstream \<Rightarrow> memhandle" where
  "Clone s = \<lparr>lpMemBlock = lpMemBlock s, liPos = 0, ulFlags = ulFlags s\<rparr>"

definition GetSize :: "'z memhandle_scheme \<Rightarrow> uint32" where
  "GetSize s = cbCurrent (lpMemBlock s)"

definition Stat :: "'z memhandle_scheme \<Rightarrow> 64 word \<times> uint32" where
  "Stat s = (ucast (cbCurrent (lpMemBlock s)), ulFlags s)"

definition Read :: "'z memhandle_scheme \<Rightarrow> uint32 \<Rightarrow> (bytes \<times> 'z memhandle_scheme) option" where
  "Read s cb = do {
     bs \<leftarrow> ReadAt (lpMemBlock s) (ucast (liPos s)) cb;
     Some (bs, s\<lparr>liPos := liPos s + of_nat (length bs)\<rparr>)
   }"

datatype seek_origin = SEEK_SET | SEEK_CUR | SEEK_END | SEEK_OTHER

definition Seek :: "'z memhandle_scheme \<Rightarrow> 64 word \<Rightarrow> seek_origin \<Rightarrow> 64 word \<times> 'z memhandle_scheme" where
  "Seek s dlibmove dwOrigin =
     (let ulSize = ucast (GetSize s);
          p = (case dwOrigin of SEEK_SET \<Rightarrow> dlibmove | SEEK_CUR \<Rightarrow> liPos s + dlibmove
            | SEEK_END \<Rightarrow> ulSize + dlibmove | SEEK_OTHER \<Rightarrow> liPos s);
          p = (if p > ulSize then ulSize else p)
      in (p, s\<lparr>liPos := p\<rparr>))"

definition SetSize :: "(nat \<Rightarrow> byte) \<Rightarrow> 'p memstream \<Rightarrow> 64 word \<Rightarrow> (hresult \<times> 'p memstream) option" where
  "SetSize j s libNewSize =
     (if ulFlags s AND STGM_WRITE = 0 then Some (MAPI_E_NO_ACCESS, s)
      else map_option (\<lambda>b. (hrSuccess, s\<lparr>lpMemBlock := b, fDirty := True\<rparr>)) (SetSizeBlock j (lpMemBlock s) (ucast libNewSize)))"

definition Commit :: "'p memstream \<Rightarrow> (hresult \<times> 'p memstream) option" where
  "Commit s = do {
     b \<leftarrow> CommitBlock (lpMemBlock s);
     let s = s\<lparr>lpMemBlock := b\<rparr>;
     (case lpCommitFunc s of
        None \<Rightarrow> Some (hrSuccess, s\<lparr>fDirty := False\<rparr>)
      | Some f \<Rightarrow> map_option (\<lambda>(hr, p). (hr, s\<lparr>lpParam := p, fDirty := False\<rparr>)) (f (Clone s) (lpParam s)))
   }"

text \<open>Write: the result, the number of bytes written where it is set, the stream.\<close>

definition Write :: "(nat \<Rightarrow> byte) \<Rightarrow> 'p memstream \<Rightarrow> bytes \<Rightarrow> (hresult \<times> uint32 option \<times> 'p memstream) option" where
  "Write j s pv =
     (if ulFlags s AND STGM_WRITE = 0 then Some (MAPI_E_NO_ACCESS, None, s)
      else do {
        b \<leftarrow> WriteAt j (lpMemBlock s) (ucast (liPos s)) pv;
        let n = of_nat (length pv);
        let s = s\<lparr>lpMemBlock := b, liPos := liPos s + ucast n, fDirty := True\<rparr>;
        s \<leftarrow> (if ulFlags s AND STGM_TRANSACTED = 0 \<and> ulFlags s AND STGM_SHARE_EXCLUSIVE = 0
             then map_option snd (Commit s) else Some s);
        Some (hrSuccess, Some n, s)
      })"

definition Revert :: "'p memstream \<Rightarrow> 'p memstream option" where
  "Revert s = map_option (\<lambda>b. s\<lparr>lpMemBlock := b, liPos := 0\<rparr>) (RevertBlock (lpMemBlock s))"

text \<open>Giving up the last reference: a changed stream in exclusive mode is committed first.\<close>

definition Release_last :: "'p memstream \<Rightarrow> (hresult \<times> 'p memstream) option" where
  "Release_last s = (if ulFlags s AND STGM_SHARE_EXCLUSIVE \<noteq> 0 \<and> fDirty s then Commit s else Some (hrSuccess, s))"

section \<open>Any stream\<close>

text \<open>The members of IStream that the modelled code calls on a stream it does not know.\<close>

record 's istream =
  i_Read :: "'s \<Rightarrow> uint32 \<Rightarrow> (hresult \<times> bytes \<times> 's) option"
  i_Write :: "'s \<Rightarrow> bytes \<Rightarrow> (hresult \<times> uint32 option \<times> 's) option"
  i_Seek :: "'s \<Rightarrow> 64 word \<Rightarrow> seek_origin \<Rightarrow> 's"
  i_SetSize :: "'s \<Rightarrow> 64 word \<Rightarrow> (hresult \<times> 's) option"
  i_Stat :: "'s \<Rightarrow> 64 word"

definition mem_istream :: "(nat \<Rightarrow> byte) \<Rightarrow> 'p memstream istream" where
  "mem_istream j = \<lparr>i_Read = (\<lambda>s n. map_option (\<lambda>(bs, s). (hrSuccess, bs, s)) (Read s n)), i_Write = Write j,
     i_Seek = (\<lambda>s d origin. snd (Seek s d origin)), i_SetSize = SetSize j, i_Stat = (\<lambda>s. fst (Stat s))\<rparr>"

text \<open>
  CopyTo: the low 32 bits of the position are the offset. \<open>fuel\<close> bounds the number of iterations; a
  result of \<open>None\<close> means that it was not enough.
\<close>

fun copy_loop :: "nat \<Rightarrow> 's istream \<Rightarrow> bytes \<Rightarrow> uint32 \<Rightarrow> uint32 \<Rightarrow> 64 word \<Rightarrow> uint32 \<Rightarrow> 's \<Rightarrow> (uint32 \<times> 's) option" where
  "copy_loop fuel I buf ulSize ulOffset cb ulWritten pstm =
     (if cb \<noteq> 0 \<and> ulSize > ulOffset then
        (case fuel of 0 \<Rightarrow> None
         | Suc fuel \<Rightarrow> do {
             data \<leftarrow> chars_at buf (unat ulOffset) (unat (min (ulSize - ulOffset) (ucast cb)));
             (hr, wr, pstm) \<leftarrow> i_Write I pstm data;
             let ulWritten = (case wr of Some n \<Rightarrow> n | None \<Rightarrow> ulWritten);
             copy_loop fuel I buf ulSize (ulOffset + ulWritten) (cb - ucast ulWritten) ulWritten pstm
           })
      else Some (ulOffset, pstm))"

declare copy_loop.simps [simp del]

definition CopyTo :: "nat \<Rightarrow> 's istream \<Rightarrow> 'z memhandle_scheme \<Rightarrow> 's \<Rightarrow> 64 word \<Rightarrow> (uint32 \<times> 'z memhandle_scheme \<times> 's) option" where
  "CopyTo fuel I s pstm cb = do {
     (ulOffset, pstm) \<leftarrow> copy_loop fuel I (lpCurrent (lpMemBlock s)) (GetSize s) (ucast (liPos s)) cb 0 pstm;
     Some (ulOffset - ucast (liPos s), s\<lparr>liPos := ucast ulOffset\<rparr>, pstm)
   }"

end
