(* ===== verification/RtfStream.thy ===== *)
theory RtfStream
  imports Rtf MemStream
begin

text \<open>
  The compressed RTF body of a message as a stream (mapi4linux/src/mapiutil.cpp): opening unpacks
  the whole stream into a stream in memory, and committing that packs it back.
\<close>

section \<open>Reading a whole stream\<close>

text \<open>Reads of 1024 bytes into a buffer, until one gives nothing; a read beyond the buffer is undefined.\<close>

function read_loop :: "('s \<Rightarrow> uint32 \<Rightarrow> (hresult \<times> bytes \<times> 's) option) \<Rightarrow> 's \<Rightarrow> bytes \<Rightarrow> nat \<Rightarrow> (hresult \<times> bytes \<times> 's) option" where
  "read_loop rd s buf off = do {
     (hr, bs, s) \<leftarrow> rd s 1024;
     if hr \<noteq> hrSuccess \<or> bs = [] then Some (hr, buf, s)
     else do {
       buf \<leftarrow> memcpy buf off bs;
       read_loop rd s buf (off + length bs)
     }
   }"
  by pat_completeness auto
termination
  by (relation "measure (\<lambda>(rd, s, buf, off). length buf - off)") (auto simp: memcpy_def neq_Nil_conv split: if_splits)

declare read_loop.simps [simp del]

section \<open>Committing\<close>

text \<open>Writes of at most 16384 bytes; \<open>fuel\<close> bounds their number.\<close>

fun write_loop :: "nat \<Rightarrow> 's istream \<Rightarrow> bytes \<Rightarrow> nat \<Rightarrow> uint32 \<Rightarrow> uint32 \<Rightarrow> hresult \<Rightarrow> 's \<Rightarrow> (hresult \<times> 's) option" where
  "write_loop fuel I buf off cbLeft ulWritten hr s =
     (if cbLeft \<noteq> 0 then
        (case fuel of 0 \<Rightarrow> None
         | Suc fuel \<Rightarrow> do {
             data \<leftarrow> chars_at buf off (unat (if cbLeft > 16384 then 16384 else cbLeft));
             (hr, wr, s) \<leftarrow> i_Write I s data;
             let ulWritten = (case wr of Some n \<Rightarrow> n | None \<Rightarrow> ulWritten);
             if hr \<noteq> hrSuccess then Some (hr, s)
             else write_loop fuel I buf (off + unat ulWritten) (cbLeft - ulWritten) ulWritten hr s
           })
      else Some (hr, s))"

declare write_loop.simps [simp del]

definition RTFCommitFunc :: "(nat \<Rightarrow> byte) \<Rightarrow> nat \<Rightarrow> 's istream \<Rightarrow> memhandle \<Rightarrow> 's \<Rightarrow> (hresult \<times> 's) option" where
  "RTFCommitFunc j fuel I lpUncompressedStream lpCompressedStream = do {
     let cbSize = (ucast (fst (Stat lpUncompressedStream)) :: uint32);
     (hr, lpUncompressed, _) \<leftarrow> read_loop (\<lambda>s n. map_option (\<lambda>(bs, s). (hrSuccess, bs, s)) (Read s n))
        lpUncompressedStream (malloc j (unat cbSize)) 0;
     lpCompressed \<leftarrow> rtf_compress j lpUncompressed;
     (_, s) \<leftarrow> i_SetSize I lpCompressedStream 0;
     let s = i_Seek I s 0 SEEK_SET;
     write_loop fuel I lpCompressed 0 (of_nat (length lpCompressed)) 0 hr s
   }"

section \<open>Opening\<close>

definition WrapCompressedRTFStream :: "(nat \<Rightarrow> byte) \<Rightarrow> nat \<Rightarrow> 's istream \<Rightarrow> 's \<Rightarrow> (hresult + 's memstream) option" where
  "WrapCompressedRTFStream j fuel I lpCompressedRTFStream = do {
     let cbSize = (ucast (i_Stat I lpCompressedRTFStream) :: uint32);
     if cbSize > 0 then do {
       (hr, lpCompressed, s) \<leftarrow> read_loop (i_Read I) lpCompressedRTFStream (malloc j (unat cbSize)) 0;
       if hr \<noteq> hrSuccess then Some (Inl hr)
       else do {
         ulUncompressedLen \<leftarrow> rtf_get_uncompressed_length lpCompressed;
         (r, lpUncompressed) \<leftarrow> rtf_decompress j (malloc j (unat ulUncompressedLen)) lpCompressed;
         if r \<noteq> 0 then Some (Inl MAPI_E_INVALID_PARAMETER)
         else Some (Inr (ECMemStream_Create lpUncompressed (STGM_WRITE OR STGM_TRANSACTED) (Some (RTFCommitFunc j fuel I)) s))
       }
     }
     else Some (Inr (ECMemStream_Create [] (STGM_WRITE OR STGM_TRANSACTED) (Some (RTFCommitFunc j fuel I)) lpCompressedRTFStream))
   }"

end
