(* ===== verification/MemStreamSpec.thy ===== *)
theory MemStreamSpec
  imports MemStream
begin

text \<open>
  Streams in memory implement files: a sequence of bytes with a position and, in transacted mode, a
  saved copy. Operations beyond the end fill the gap with zeros. The locales \<open>reader\<close> and
  \<open>stream_contract\<close> are what the users of a stream rely on; both are interpreted by the streams in
  memory.
\<close>

section \<open>The abstract file\<close>

definition f_write :: "bytes \<Rightarrow> nat \<Rightarrow> bytes \<Rightarrow> bytes" where
  "f_write xs p d = take p xs @ replicate (p - length xs) 0 @ d @ drop (p + length d) xs"

definition f_resize :: "bytes \<Rightarrow> nat \<Rightarrow> bytes" where
  "f_resize xs n = take n xs @ replicate (n - length xs) 0"

definition f_read :: "bytes \<Rightarrow> nat \<Rightarrow> nat \<Rightarrow> bytes" where
  "f_read xs p n = take n (drop p xs)"

lemma length_f_write: "length (f_write xs p d) = max (length xs) (p + length d)"
  by (auto simp: f_write_def)

lemma f_write_end: "f_write xs (length xs) d = xs @ d"
  by (simp add: f_write_def)

section \<open>The block\<close>

definition content :: "memblock \<Rightarrow> bytes" where
  "content b = take (unat (cbCurrent b)) (lpCurrent b)"

definition saved :: "memblock \<Rightarrow> bytes" where
  "saved b = take (unat (cbOriginal b)) (lpOriginal b)"

definition transacted :: "memblock \<Rightarrow> bool" where
  "transacted b \<longleftrightarrow> b_ulFlags b AND STGM_TRANSACTED \<noteq> 0"

definition blk_ok :: "memblock \<Rightarrow> bool" where
  "blk_ok b \<longleftrightarrow> length (lpCurrent b) = unat (cbTotal b) \<and> unat (cbCurrent b) \<le> unat (cbTotal b) \<and>
     (\<forall>i<unat (cbTotal b). unat (cbCurrent b) \<le> i \<longrightarrow> lpCurrent b ! i = 0) \<and>
     (transacted b \<longrightarrow> length (lpOriginal b) = unat (cbOriginal b))"

lemma length_content: "blk_ok b \<Longrightarrow> length (content b) = unat (cbCurrent b)"
  by (simp add: blk_ok_def content_def)

lemma length_realloc: "length (realloc j p n) = n"
  by (simp add: realloc_def)

lemma nth_realloc: "i < n \<Longrightarrow> i < length p \<Longrightarrow> realloc j p n ! i = p ! i"
  by (simp add: realloc_def nth_append)

lemma memset_Some:
  "i + n \<le> length p \<Longrightarrow> \<exists>q. memset p i v n = Some q \<and> length q = length p \<and>
     (\<forall>k<length p. q ! k = (if i \<le> k \<and> k < i + n then v else p ! k))"
  by (auto simp: memset_def memcpy_def nth_append)

lemma memcpy_Some:
  "i + length d \<le> length p \<Longrightarrow> \<exists>q. memcpy p i d = Some q \<and> length q = length p \<and>
     (\<forall>k<length p. q ! k = (if i \<le> k \<and> k < i + length d then d ! (k - i) else p ! k))"
  by (auto simp: memcpy_def nth_append)

lemma new_block_ok: "length xs < 2 ^ 32 \<Longrightarrow> blk_ok (ECMemBlock xs fl) \<and> content (ECMemBlock xs fl) = xs \<and>
    b_ulFlags (ECMemBlock xs fl) = fl \<and> (transacted (ECMemBlock xs fl) \<longrightarrow> saved (ECMemBlock xs fl) = xs)"
  by (auto simp: blk_ok_def content_def saved_def transacted_def ECMemBlock_def Let_def unat_of_nat_small)

lemma ReadAt_spec:
  assumes "blk_ok b" "unat p \<le> unat (cbCurrent b)"
  shows "ReadAt b p n = Some (f_read (content b) (unat p) (unat n))"
proof -
  have u: "unat (cbCurrent b - p) = unat (cbCurrent b) - unat p"
    using assms(2) by (subst unat_sub) (simp_all add: word_le_nat_alt)
  have l: "length (lpCurrent b) = unat (cbTotal b)" "unat (cbCurrent b) \<le> unat (cbTotal b)"
    using assms(1) by (simp_all add: blk_ok_def)
  show ?thesis
  proof (cases "n < cbCurrent b - p")
    case True
    then have "unat n < unat (cbCurrent b) - unat p" by (simp add: word_less_nat_alt u)
    then show ?thesis using True l
      by (simp add: ReadAt_def chars_at_def f_read_def content_def drop_take min_def)
  next
    case False
    then have "unat (cbCurrent b) - unat p \<le> unat n" by (simp add: word_less_nat_alt u)
    then show ?thesis using False l assms(2)
      by (simp add: ReadAt_def chars_at_def f_read_def content_def drop_take min_def u)
  qed
qed

definition write_limit :: nat where "write_limit = 2 ^ 31 - 8192"

lemma grow_size:
  assumes "unat (t :: uint32) < unat d" "unat d < write_limit"
  shows "unat (t + (d div EC_MEMBLOCK_SIZE + 1) * EC_MEMBLOCK_SIZE) = unat t + (unat d div 8192 + 1) * 8192"
proof -
  have q: "unat (d div EC_MEMBLOCK_SIZE) = unat d div 8192"
    by (simp add: EC_MEMBLOCK_SIZE_def unat_div_distrib)
  have m: "unat d div 8192 * 8192 \<le> unat d" by simp
  have "unat (d div EC_MEMBLOCK_SIZE + 1) = unat d div 8192 + 1"
    using m assms(2) by (subst unat_add_small) (simp_all add: q write_limit_def)
  then have "unat ((d div EC_MEMBLOCK_SIZE + 1) * EC_MEMBLOCK_SIZE) = (unat d div 8192 + 1) * 8192"
    using m assms(2) by (simp add: unat_word_ariths EC_MEMBLOCK_SIZE_def write_limit_def)
  then show ?thesis
    using m assms by (subst unat_add_small) (simp_all add: write_limit_def)
qed

lemma nth_f_write:
  assumes "i < max (length xs) (p + length d)"
  shows "f_write xs p d ! i = (if p \<le> i \<and> i < p + length d then d ! (i - p) else if i < length xs then xs ! i else 0)"
proof (cases "p \<le> length xs")
  case True
  then show ?thesis using assms by (auto simp: f_write_def nth_append)
next
  case False
  then have "f_write xs p d = (xs @ replicate (p - length xs) 0) @ d" "length (xs @ replicate (p - length xs) (0 :: byte)) = p"
    by (simp_all add: f_write_def)
  then show ?thesis using False assms by (auto simp only: nth_append) (auto simp: nth_append)
qed

lemma memset_tail:
  "i \<le> length p \<Longrightarrow> n = length p - i \<Longrightarrow> \<exists>q. memset p i v n = Some q \<and> length q = length p \<and>
     (\<forall>k<length p. q ! k = (if i \<le> k then v else p ! k))"
  by (auto simp: memset_def memcpy_def nth_append)

lemma WriteAt_spec:
  assumes "blk_ok b" "unat p + length d < write_limit"
  shows "\<exists>b'. WriteAt j b p d = Some b' \<and> blk_ok b' \<and> content b' = f_write (content b) (unat p) d \<and>
    b_ulFlags b' = b_ulFlags b \<and> saved b' = saved b"
proof -
  have k: "length (lpCurrent b) = unat (cbTotal b)" "unat (cbCurrent b) \<le> unat (cbTotal b)"
      "\<And>i. i < unat (cbTotal b) \<Longrightarrow> unat (cbCurrent b) \<le> i \<Longrightarrow> lpCurrent b ! i = 0"
    using assms(1) by (simp_all add: blk_ok_def)
  have n: "unat (of_nat (length d) :: uint32) = length d" using assms(2) by (simp add: unat_of_nat_small write_limit_def)
  have ds: "unat (p + of_nat (length d)) = unat p + length d"
    using assms(2) by (subst unat_add_small) (simp_all add: n write_limit_def)
  let ?ds = "p + of_nat (length d)"
  obtain b1 where b1: "(if cbTotal b < ?ds then do {
         lpNew \<leftarrow> memset (realloc j (lpCurrent b) (unat (cbTotal b + (?ds div EC_MEMBLOCK_SIZE + 1) * EC_MEMBLOCK_SIZE))) (unat (cbTotal b)) 0
           (unat (cbTotal b + (?ds div EC_MEMBLOCK_SIZE + 1) * EC_MEMBLOCK_SIZE - cbTotal b));
         Some (b\<lparr>lpCurrent := lpNew, cbTotal := cbTotal b + (?ds div EC_MEMBLOCK_SIZE + 1) * EC_MEMBLOCK_SIZE\<rparr>)
       } else Some b) = Some b1"
      "length (lpCurrent b1) = unat (cbTotal b1)" "unat p + length d \<le> unat (cbTotal b1)" "cbCurrent b1 = cbCurrent b"
      "unat (cbTotal b) \<le> unat (cbTotal b1)" "b_ulFlags b1 = b_ulFlags b" "lpOriginal b1 = lpOriginal b" "cbOriginal b1 = cbOriginal b"
      "\<And>i. i < unat (cbTotal b1) \<Longrightarrow> lpCurrent b1 ! i = (if i < unat (cbCurrent b) then lpCurrent b ! i else 0)"
  proof (cases "cbTotal b < ?ds")
    case True
    then have lt: "unat (cbTotal b) < unat ?ds" by (simp add: word_less_nat_alt)
    let ?ns = "cbTotal b + (?ds div EC_MEMBLOCK_SIZE + 1) * EC_MEMBLOCK_SIZE"
    have ns: "unat ?ns = unat (cbTotal b) + (unat ?ds div 8192 + 1) * 8192"
      using grow_size [OF lt] assms(2) ds by simp
    have df: "unat (?ns - cbTotal b) = unat ?ns - unat (cbTotal b)" by (subst unat_sub) (simp_all add: word_le_nat_alt ns)
    have big: "unat ?ds \<le> unat ?ns" unfolding ns using dividend_less_div_times [of 8192 "unat ?ds"] by simp
    obtain q where q: "memset (realloc j (lpCurrent b) (unat ?ns)) (unat (cbTotal b)) 0 (unat (?ns - cbTotal b)) = Some q"
        "length q = unat ?ns" "\<forall>i<unat ?ns. q ! i = (if unat (cbTotal b) \<le> i then 0 else realloc j (lpCurrent b) (unat ?ns) ! i)"
    proof -
      have "unat (?ns - cbTotal b) = length (realloc j (lpCurrent b) (unat ?ns)) - unat (cbTotal b)" unfolding length_realloc by (rule df)
      moreover have "unat (cbTotal b) \<le> length (realloc j (lpCurrent b) (unat ?ns))" using ns by (simp add: length_realloc)
      ultimately show ?thesis using memset_tail [of "unat (cbTotal b)" "realloc j (lpCurrent b) (unat ?ns)" _ 0] that
        by (simp only: length_realloc) blast
    qed
    show ?thesis
    proof (rule that [of "b\<lparr>lpCurrent := q, cbTotal := ?ns\<rparr>"])
      show "lpCurrent (b\<lparr>lpCurrent := q, cbTotal := ?ns\<rparr>) ! i = (if i < unat (cbCurrent b) then lpCurrent b ! i else 0)"
        if "i < unat (cbTotal (b\<lparr>lpCurrent := q, cbTotal := ?ns\<rparr>))" for i
        using that q(3) k nth_realloc [of i "unat ?ns" "lpCurrent b" j] by auto
    qed (use True q big ds ns in simp_all)
  next
    case False
    then have "unat p + length d \<le> unat (cbTotal b)" using ds by (simp add: word_less_nat_alt)
    then show ?thesis using that [of b] False k by auto
  qed
  let ?b2 = "if ?ds > cbCurrent b1 then b1\<lparr>cbCurrent := ?ds\<rparr> else b1"
  have c2: "unat (cbCurrent ?b2) = max (unat (cbCurrent b)) (unat p + length d)"
    using b1(4) ds by (auto simp: word_less_nat_alt)
  obtain q where q: "memcpy (lpCurrent ?b2) (unat p) d = Some q" "length q = unat (cbTotal b1)"
      "\<forall>i<unat (cbTotal b1). q ! i = (if unat p \<le> i \<and> i < unat p + length d then d ! (i - unat p) else lpCurrent b1 ! i)"
    using memcpy_Some [of "unat p" d "lpCurrent b1"] b1(2,3) by auto
  let ?b3 = "?b2\<lparr>lpCurrent := q\<rparr>"
  have w: "WriteAt j b p d = Some ?b3"
    using b1(1) q(1) unfolding WriteAt_def Let_def by simp
  have ok: "blk_ok ?b3"
    using q(2,3) b1 k c2 assms(1) by (auto simp: blk_ok_def transacted_def)
  have "content ?b3 = f_write (content b) (unat p) d"
  proof (rule nth_equalityI)
    show "length (content ?b3) = length (f_write (content b) (unat p) d)"
      using length_content [OF ok] length_content [OF assms(1)] c2 by (simp add: length_f_write)
    fix i assume "i < length (content ?b3)"
    then have "i < max (unat (cbCurrent b)) (unat p + length d)"
      using length_content [OF ok] c2 by simp
    then have i: "i < max (unat (cbCurrent b)) (unat p + length d)" "i < unat (cbTotal b1)"
      using k(2) b1(3,5) by linarith+
    then have "content ?b3 ! i = q ! i" using c2 by (simp add: content_def)
    also have "\<dots> = f_write (content b) (unat p) d ! i"
      using q(3) i b1(9) [OF i(2)] length_content [OF assms(1)]
      by (auto simp: nth_f_write content_def)
    finally show "content ?b3 ! i = f_write (content b) (unat p) d ! i" .
  qed
  then show ?thesis using w ok b1(6-8) by (auto simp: saved_def)
qed

lemma SetSizeBlock_spec:
  assumes "blk_ok b"
  shows "\<exists>b'. SetSizeBlock j b n = Some b' \<and> blk_ok b' \<and> content b' = f_resize (content b) (unat n) \<and>
    b_ulFlags b' = b_ulFlags b \<and> saved b' = saved b"
proof -
  have k: "length (lpCurrent b) = unat (cbTotal b)" "unat (cbCurrent b) \<le> unat (cbTotal b)"
    using assms(1) by (simp_all add: blk_ok_def)
  let ?r = "realloc j (lpCurrent b) (unat n)"
  obtain q where q: "(if n > cbCurrent b then memset ?r (unat (cbCurrent b)) 0 (unat (n - cbCurrent b)) else Some ?r) = Some q"
      "length q = unat n" "\<And>i. i < unat n \<Longrightarrow> q ! i = (if i < unat (cbCurrent b) then lpCurrent b ! i else 0)"
  proof (cases "n > cbCurrent b")
    case True
    then have lt: "unat (cbCurrent b) < unat n" by (simp add: word_less_nat_alt)
    have df: "unat (n - cbCurrent b) = unat n - unat (cbCurrent b)" using lt by (subst unat_sub) (simp_all add: word_le_nat_alt)
    obtain q where "memset ?r (unat (cbCurrent b)) 0 (unat (n - cbCurrent b)) = Some q" "length q = unat n"
        "\<forall>i<unat n. q ! i = (if unat (cbCurrent b) \<le> i then 0 else ?r ! i)"
      using memset_Some [of "unat (cbCurrent b)" "unat (n - cbCurrent b)" ?r 0] lt by (auto simp: length_realloc df)
    then show ?thesis using that [of q] True k nth_realloc [of _ "unat n" "lpCurrent b" j] by auto
  next
    case False
    then have "unat n \<le> unat (cbCurrent b)" by (simp add: word_less_nat_alt)
    then show ?thesis using that [of ?r] False k nth_realloc [of _ "unat n" "lpCurrent b" j] by (simp add: length_realloc)
  qed
  let ?b = "b\<lparr>lpCurrent := q, cbCurrent := n, cbTotal := n\<rparr>"
  have "content ?b = f_resize (content b) (unat n)"
    using q(2,3) k by (intro nth_equalityI) (auto simp: content_def f_resize_def nth_append)
  moreover have "SetSizeBlock j b n = Some ?b" using q(1) by (simp add: SetSizeBlock_def)
  ultimately show ?thesis using q(2) assms by (auto simp: blk_ok_def transacted_def saved_def)
qed

lemma CommitBlock_spec:
  assumes "blk_ok b"
  shows "\<exists>b'. CommitBlock b = Some b' \<and> blk_ok b' \<and> content b' = content b \<and> b_ulFlags b' = b_ulFlags b \<and>
    (if transacted b then saved b' = content b else b' = b)"
  using assms by (auto simp: CommitBlock_def chars_at_def blk_ok_def transacted_def content_def saved_def)

lemma RevertBlock_spec:
  assumes "blk_ok b"
  shows "\<exists>b'. RevertBlock b = Some b' \<and> blk_ok b' \<and> b_ulFlags b' = b_ulFlags b \<and> saved b' = saved b \<and>
    (if transacted b then content b' = saved b else b' = b)"
  using assms by (auto simp: RevertBlock_def chars_at_def blk_ok_def transacted_def content_def saved_def)

section \<open>The contract of a stream\<close>

locale reader =
  fixes rd :: "'s \<Rightarrow> uint32 \<Rightarrow> (hresult \<times> bytes \<times> 's) option"
    and data :: "'s \<Rightarrow> bytes"
    and pos :: "'s \<Rightarrow> nat"
    and ok :: "'s \<Rightarrow> bool"
  assumes rd_law: "ok s \<Longrightarrow> pos s \<le> length (data s) \<Longrightarrow>
    \<exists>s'. rd s n = Some (hrSuccess, f_read (data s) (pos s) (unat n), s') \<and> ok s' \<and> data s' = data s \<and>
      pos s' = pos s + length (f_read (data s) (pos s) (unat n))"

locale stream_contract = reader "i_Read I" data pos ok
  for I :: "'s istream" and data :: "'s \<Rightarrow> bytes" and pos :: "'s \<Rightarrow> nat" and ok :: "'s \<Rightarrow> bool" +
  assumes wr_law: "ok s \<Longrightarrow> pos s + length d < write_limit \<Longrightarrow>
      \<exists>s'. i_Write I s d = Some (hrSuccess, Some (of_nat (length d)), s') \<and> ok s' \<and>
        data s' = f_write (data s) (pos s) d \<and> pos s' = pos s + length d"
    and seek_law: "ok s \<Longrightarrow> ok (i_Seek I s 0 SEEK_SET) \<and> data (i_Seek I s 0 SEEK_SET) = data s \<and> pos (i_Seek I s 0 SEEK_SET) = 0"
    and size_law: "ok s \<Longrightarrow> \<exists>s'. i_SetSize I s 0 = Some (hrSuccess, s') \<and> ok s' \<and> data s' = []"
    and stat_law: "ok s \<Longrightarrow> unat (ucast (i_Stat I s) :: uint32) = length (data s)"

section \<open>Streams in memory keep it\<close>

definition s_data :: "'z memhandle_scheme \<Rightarrow> bytes" where "s_data s = content (lpMemBlock s)"
definition s_pos :: "'z memhandle_scheme \<Rightarrow> nat" where "s_pos s = unat (liPos s)"

definition s_ok :: "'z memhandle_scheme \<Rightarrow> bool" where
  "s_ok s \<longleftrightarrow> blk_ok (lpMemBlock s) \<and> liPos s < 2 ^ 32"

lemma length_s_data: "blk_ok (lpMemBlock s) \<Longrightarrow> length (s_data s) = unat (cbCurrent (lpMemBlock s))"
  by (simp add: s_data_def length_content)

lemma pos_ucast: "p < 2 ^ 32 \<Longrightarrow> unat (ucast (p :: 64 word) :: uint32) = unat p"
  by (simp add: unsigned_ucast_eq word_less_nat_alt take_bit_nat_eq_self)

lemma Read_spec:
  assumes "s_ok s" "s_pos s \<le> length (s_data s)"
  shows "\<exists>s'. Read s n = Some (f_read (s_data s) (s_pos s) (unat n), s') \<and> s_ok s' \<and> lpMemBlock s' = lpMemBlock s \<and>
    s_pos s' = s_pos s + length (f_read (s_data s) (s_pos s) (unat n)) \<and> ulFlags s' = ulFlags s"
proof -
  let ?bs = "f_read (s_data s) (s_pos s) (unat n)"
  have b: "blk_ok (lpMemBlock s)" "liPos s < 2 ^ 32" using assms(1) by (simp_all add: s_ok_def)
  have p: "unat (ucast (liPos s) :: uint32) = s_pos s" using pos_ucast [OF b(2)] by (simp add: s_pos_def)
  have le: "s_pos s + length ?bs \<le> unat (cbCurrent (lpMemBlock s))"
    using assms(2) length_s_data [OF b(1)] by (simp add: f_read_def)
  have u: "unat (liPos s + of_nat (length ?bs)) = s_pos s + length ?bs"
    using le unat_less_word32 [of "cbCurrent (lpMemBlock s)"]
    by (subst unat_add_small) (simp_all add: unat_of_nat_small s_pos_def)
  have "Read s n = Some (?bs, s\<lparr>liPos := liPos s + of_nat (length ?bs)\<rparr>)"
    using ReadAt_spec [OF b(1), of "ucast (liPos s)" n] assms(2) p
    by (simp add: Read_def length_s_data [OF b(1)]) (simp add: s_data_def)
  moreover have "s_ok (s\<lparr>liPos := liPos s + of_nat (length ?bs)\<rparr>)"
    using b(1) u le unat_less_word32 [of "cbCurrent (lpMemBlock s)"] by (simp add: s_ok_def word_less_nat_alt)
  ultimately show ?thesis using u by (simp add: s_pos_def)
qed
lemma ucast_up_down: "(ucast (ucast c :: 64 word) :: uint32) = c"
  by (rule bit_word_eqI) (simp add: bit_simps)

lemma Seek_spec:
  assumes "s_ok s"
  shows "s_ok (snd (Seek s d w)) \<and> lpMemBlock (snd (Seek s d w)) = lpMemBlock s \<and> ulFlags (snd (Seek s d w)) = ulFlags s \<and>
    s_pos (snd (Seek s d w)) = min (length (s_data s))
      (unat (case w of SEEK_SET \<Rightarrow> d | SEEK_CUR \<Rightarrow> of_nat (s_pos s) + d | SEEK_END \<Rightarrow> of_nat (length (s_data s)) + d
        | SEEK_OTHER \<Rightarrow> of_nat (s_pos s)))"
proof -
  let ?z = "ucast (GetSize s) :: 64 word"
  have b: "blk_ok (lpMemBlock s)" using assms by (simp add: s_ok_def)
  have z: "unat ?z = length (s_data s)" "of_nat (length (s_data s)) = ?z"
    by (simp_all add: GetSize_def length_s_data [OF b] unsigned_ucast_eq take_bit_nat_eq_self of_nat_unat)
      (use unat_less_word32 [of "cbCurrent (lpMemBlock s)"] in \<open>simp add: take_bit_nat_eq_self\<close>)?
  have p: "of_nat (s_pos s) = liPos s" by (simp add: s_pos_def)
  have l: "length (s_data s) < 2 ^ 32" using unat_less_word32 [of "cbCurrent (lpMemBlock s)"] by (simp add: length_s_data [OF b])
  have s: "snd (Seek s d w) = s\<lparr>liPos := (let p = (case w of SEEK_SET \<Rightarrow> d | SEEK_CUR \<Rightarrow> liPos s + d | SEEK_END \<Rightarrow> ?z + d | SEEK_OTHER \<Rightarrow> liPos s)
      in if p > ?z then ?z else p)\<rparr>" by (simp add: Seek_def Let_def)
  show ?thesis unfolding s p z(2) using b l
    by (auto simp: s_ok_def s_pos_def Let_def word_less_nat_alt z(1) min_def)
qed

definition ms_ok :: "'p memstream \<Rightarrow> bool" where
  "ms_ok s \<longleftrightarrow> s_ok s \<and> ulFlags s AND STGM_WRITE \<noteq> 0 \<and> lpCommitFunc s = None"

lemma Commit_spec:
  assumes "ms_ok s"
  shows "\<exists>s'. Commit s = Some (hrSuccess, s') \<and> ms_ok s' \<and> s_data s' = s_data s \<and> s_pos s' = s_pos s \<and>
    b_ulFlags (lpMemBlock s') = b_ulFlags (lpMemBlock s) \<and> ulFlags s' = ulFlags s \<and>
    saved (lpMemBlock s') = (if transacted (lpMemBlock s) then s_data s else saved (lpMemBlock s))"
  using CommitBlock_spec [of "lpMemBlock s"] assms
  by (auto simp: Commit_def ms_ok_def s_ok_def s_data_def s_pos_def split: if_splits)

lemma Write_core:
  assumes "s_ok s" "ulFlags s AND STGM_WRITE \<noteq> 0" "s_pos s + length d < write_limit"
  obtains b where
    "Write j s d = (let s1 = s\<lparr>lpMemBlock := b, liPos := liPos s + ucast (of_nat (length d) :: uint32), fDirty := True\<rparr>
       in map_option (\<lambda>s. (hrSuccess, Some (of_nat (length d)), s))
         (if ulFlags s AND STGM_TRANSACTED = 0 \<and> ulFlags s AND STGM_SHARE_EXCLUSIVE = 0 then map_option snd (Commit s1) else Some s1))"
    "blk_ok b" "content b = f_write (s_data s) (s_pos s) d" "b_ulFlags b = b_ulFlags (lpMemBlock s)" "saved b = saved (lpMemBlock s)"
    "unat (liPos s + ucast (of_nat (length d) :: uint32)) = s_pos s + length d"
proof -
  have o: "blk_ok (lpMemBlock s)" "liPos s < 2 ^ 32" using assms(1) by (simp_all add: s_ok_def)
  have p: "unat (ucast (liPos s) :: uint32) = s_pos s" using pos_ucast [OF o(2)] by (simp add: s_pos_def)
  obtain b where b: "WriteAt j (lpMemBlock s) (ucast (liPos s)) d = Some b" "blk_ok b"
      "content b = f_write (s_data s) (s_pos s) d" "b_ulFlags b = b_ulFlags (lpMemBlock s)" "saved b = saved (lpMemBlock s)"
    using WriteAt_spec [OF o(1), of "ucast (liPos s)" d j] assms(3) p by (auto simp: s_data_def)
  let ?n = "of_nat (length d) :: uint32"
  have "unat (ucast ?n :: 64 word) = length d"
    using assms(3) by (simp add: write_limit_def unat_of_nat_small unsigned_ucast_eq take_bit_nat_eq_self)
  then have u: "unat (liPos s + ucast ?n) = s_pos s + length d"
    using assms(3) by (subst unat_add_small) (simp_all add: s_pos_def write_limit_def)
  show ?thesis
    by (rule that [OF _ b(2-5) u]) (use b(1) assms(2) in \<open>simp add: Write_def Let_def map_option.compositionality comp_def
      map_conv_bind_option bind_assoc\<close>)
qed

lemma Write_spec:
  assumes "ms_ok s" "s_pos s + length d < write_limit"
  shows "\<exists>s'. Write j s d = Some (hrSuccess, Some (of_nat (length d)), s') \<and> ms_ok s' \<and>
    s_data s' = f_write (s_data s) (s_pos s) d \<and> s_pos s' = s_pos s + length d \<and>
    b_ulFlags (lpMemBlock s') = b_ulFlags (lpMemBlock s) \<and> ulFlags s' = ulFlags s \<and>
    (ulFlags s AND STGM_TRANSACTED \<noteq> 0 \<longrightarrow> saved (lpMemBlock s') = saved (lpMemBlock s))"
proof -
  have o: "s_ok s" "ulFlags s AND STGM_WRITE \<noteq> 0" "lpCommitFunc s = None" using assms(1) by (simp_all add: ms_ok_def)
  let ?c = "ulFlags s AND STGM_TRANSACTED = 0 \<and> ulFlags s AND STGM_SHARE_EXCLUSIVE = 0"
  obtain b where b: "Write j s d = (let s1 = s\<lparr>lpMemBlock := b, liPos := liPos s + ucast (of_nat (length d) :: uint32), fDirty := True\<rparr>
       in map_option (\<lambda>s. (hrSuccess, Some (of_nat (length d)), s)) (if ?c then map_option snd (Commit s1) else Some s1))"
    "blk_ok b" "content b = f_write (s_data s) (s_pos s) d" "b_ulFlags b = b_ulFlags (lpMemBlock s)" "saved b = saved (lpMemBlock s)"
    "unat (liPos s + ucast (of_nat (length d) :: uint32)) = s_pos s + length d"
    using Write_core [OF o(1,2) assms(2)] by blast
  let ?s = "s\<lparr>lpMemBlock := b, liPos := liPos s + ucast (of_nat (length d) :: uint32), fDirty := True\<rparr>"
  have ok: "ms_ok ?s" "s_data ?s = f_write (s_data s) (s_pos s) d" "s_pos ?s = s_pos s + length d"
    using o b assms(2) by (simp_all add: ms_ok_def s_ok_def s_data_def s_pos_def word_less_nat_alt write_limit_def)
  show ?thesis using Commit_spec [OF ok(1)] ok b o(2) by (cases ?c) (auto simp: Let_def)
qed

text \<open>A transacted stream may have a commit function: a write does not call it.\<close>

lemma Write_transacted:
  assumes "s_ok s" "ulFlags s AND STGM_WRITE \<noteq> 0" "ulFlags s AND STGM_TRANSACTED \<noteq> 0" "s_pos s + length d < write_limit"
  shows "\<exists>s'. Write j s d = Some (hrSuccess, Some (of_nat (length d)), s') \<and> s_ok s' \<and>
    s_data s' = f_write (s_data s) (s_pos s) d \<and> lpCommitFunc s' = lpCommitFunc s \<and> lpParam s' = lpParam s"
  using Write_core [OF assms(1,2,4), of j thesis for thesis] assms(3,4)
  by (fastforce simp: s_ok_def s_data_def Let_def word_less_nat_alt write_limit_def)

lemma SetSize_spec:
  assumes "ms_ok s"
  shows "\<exists>s'. SetSize j s n = Some (hrSuccess, s') \<and> ms_ok s' \<and> s_data s' = f_resize (s_data s) (unat (ucast n :: uint32)) \<and>
    s_pos s' = s_pos s \<and> b_ulFlags (lpMemBlock s') = b_ulFlags (lpMemBlock s) \<and> ulFlags s' = ulFlags s \<and>
    saved (lpMemBlock s') = saved (lpMemBlock s)"
  using SetSizeBlock_spec [of "lpMemBlock s" j "ucast n"] assms
  by (auto simp: SetSize_def ms_ok_def s_ok_def s_data_def s_pos_def)

lemma Revert_spec:
  assumes "ms_ok s" "transacted (lpMemBlock s)"
  shows "\<exists>s'. Revert s = Some s' \<and> ms_ok s' \<and> s_data s' = saved (lpMemBlock s) \<and> s_pos s' = 0 \<and>
    b_ulFlags (lpMemBlock s') = b_ulFlags (lpMemBlock s) \<and> ulFlags s' = ulFlags s \<and> saved (lpMemBlock s') = saved (lpMemBlock s)"
  using RevertBlock_spec [of "lpMemBlock s"] assms
  by (auto simp: Revert_def ms_ok_def s_ok_def s_data_def s_pos_def)

interpretation handle: reader "\<lambda>s n. map_option (\<lambda>(bs, s). (hrSuccess, bs, s)) (Read (s :: memhandle) n)" s_data s_pos s_ok
  by unfold_locales (use Read_spec in \<open>fastforce simp: s_data_def\<close>)

interpretation mem: stream_contract "mem_istream j" s_data s_pos ms_ok
proof unfold_locales
  fix s :: "'a memstream" and n assume a: "ms_ok s" "s_pos s \<le> length (s_data s)"
  obtain s' where "Read s n = Some (f_read (s_data s) (s_pos s) (unat n), s')" "s_ok s'" "lpMemBlock s' = lpMemBlock s"
      "s_pos s' = s_pos s + length (f_read (s_data s) (s_pos s) (unat n))" "ulFlags s' = ulFlags s"
    using Read_spec [of s n] a by (auto simp: ms_ok_def)
  moreover have "lpCommitFunc s' = lpCommitFunc s" if "Read s n = Some (bs, s')" for bs
    using that by (auto simp: Read_def bind_Some_iff)
  ultimately show "\<exists>s'. i_Read (mem_istream j) s n = Some (hrSuccess, f_read (s_data s) (s_pos s) (unat n), s') \<and> ms_ok s' \<and>
      s_data s' = s_data s \<and> s_pos s' = s_pos s + length (f_read (s_data s) (s_pos s) (unat n))"
    using a(1) by (auto simp: mem_istream_def ms_ok_def s_data_def)
next
  fix s :: "'a memstream" and d :: bytes assume "ms_ok s" "s_pos s + length d < write_limit"
  then show "\<exists>s'. i_Write (mem_istream j) s d = Some (hrSuccess, Some (of_nat (length d)), s') \<and> ms_ok s' \<and>
      s_data s' = f_write (s_data s) (s_pos s) d \<and> s_pos s' = s_pos s + length d"
    using Write_spec [of s d j] by (auto simp: mem_istream_def)
next
  fix s :: "'a memstream" assume a: "ms_ok s"
  have "lpCommitFunc (snd (Seek s 0 SEEK_SET)) = lpCommitFunc s" by (simp add: Seek_def Let_def)
  then show "ms_ok (i_Seek (mem_istream j) s 0 SEEK_SET) \<and> s_data (i_Seek (mem_istream j) s 0 SEEK_SET) = s_data s \<and>
      s_pos (i_Seek (mem_istream j) s 0 SEEK_SET) = 0"
    using Seek_spec [of s 0 SEEK_SET] a by (auto simp: mem_istream_def ms_ok_def s_data_def)
  show "\<exists>s'. i_SetSize (mem_istream j) s 0 = Some (hrSuccess, s') \<and> ms_ok s' \<and> s_data s' = []"
    using SetSize_spec [OF a, of j 0] by (auto simp: mem_istream_def f_resize_def)
  have "blk_ok (lpMemBlock s)" using a by (simp add: ms_ok_def s_ok_def)
  then show "unat (ucast (i_Stat (mem_istream j) s) :: uint32) = length (s_data s)"
    by (simp add: mem_istream_def Stat_def length_s_data ucast_up_down)
qed

section \<open>Refinement of a file\<close>

record afile =
  f_data :: bytes
  f_pos :: nat
  f_saved :: bytes

datatype op = OpRead uint32 | OpWrite bytes | OpSeek "64 word" seek_origin | OpResize "64 word" | OpCommit | OpRevert

fun file_step :: "op \<Rightarrow> afile \<Rightarrow> bytes \<times> afile" where
  "file_step (OpRead n) f = (f_read (f_data f) (f_pos f) (unat n), f\<lparr>f_pos := f_pos f + length (f_read (f_data f) (f_pos f) (unat n))\<rparr>)"
| "file_step (OpWrite d) f = ([], f\<lparr>f_data := f_write (f_data f) (f_pos f) d, f_pos := f_pos f + length d\<rparr>)"
| "file_step (OpSeek d w) f = ([], f\<lparr>f_pos := min (length (f_data f)) (unat (case w of SEEK_SET \<Rightarrow> d
     | SEEK_CUR \<Rightarrow> of_nat (f_pos f) + d | SEEK_END \<Rightarrow> of_nat (length (f_data f)) + d | SEEK_OTHER \<Rightarrow> of_nat (f_pos f)))\<rparr>)"
| "file_step (OpResize n) f = ([], f\<lparr>f_data := f_resize (f_data f) (unat (ucast n :: uint32))\<rparr>)"
| "file_step OpCommit f = ([], f\<lparr>f_saved := f_data f\<rparr>)"
| "file_step OpRevert f = ([], f\<lparr>f_data := f_saved f, f_pos := 0\<rparr>)"

fun allowed :: "op \<Rightarrow> afile \<Rightarrow> bool" where
  "allowed (OpRead n) f \<longleftrightarrow> f_pos f \<le> length (f_data f)"
| "allowed (OpWrite d) f \<longleftrightarrow> f_pos f + length d < write_limit"
| "allowed _ f \<longleftrightarrow> True"

fun stream_step :: "(nat \<Rightarrow> byte) \<Rightarrow> op \<Rightarrow> 'p memstream \<Rightarrow> (bytes \<times> 'p memstream) option" where
  "stream_step j (OpRead n) s = Read s n"
| "stream_step j (OpWrite d) s = map_option (\<lambda>(_, _, s). ([], s)) (Write j s d)"
| "stream_step j (OpSeek d w) s = Some ([], snd (Seek s d w))"
| "stream_step j (OpResize n) s = map_option (\<lambda>(_, s). ([], s)) (SetSize j s n)"
| "stream_step j OpCommit s = map_option (\<lambda>(_, s). ([], s)) (Commit s)"
| "stream_step j OpRevert s = map_option (Pair []) (Revert s)"

fun file_run :: "op list \<Rightarrow> afile \<Rightarrow> bytes list \<times> afile" where
  "file_run [] f = ([], f)"
| "file_run (x # xs) f = (case file_step x f of (o1, f) \<Rightarrow> case file_run xs f of (os, f) \<Rightarrow> (o1 # os, f))"

fun all_allowed :: "op list \<Rightarrow> afile \<Rightarrow> bool" where
  "all_allowed [] f \<longleftrightarrow> True"
| "all_allowed (x # xs) f \<longleftrightarrow> allowed x f \<and> all_allowed xs (snd (file_step x f))"

fun stream_run :: "(nat \<Rightarrow> byte) \<Rightarrow> op list \<Rightarrow> 'p memstream \<Rightarrow> (bytes list \<times> 'p memstream) option" where
  "stream_run j [] s = Some ([], s)"
| "stream_run j (x # xs) s = do { (o1, s) \<leftarrow> stream_step j x s; (os, s) \<leftarrow> stream_run j xs s; Some (o1 # os, s) }"

definition abs_file :: "'p memstream \<Rightarrow> afile" where
  "abs_file s = \<lparr>f_data = s_data s, f_pos = s_pos s, f_saved = saved (lpMemBlock s)\<rparr>"

definition tx_ok :: "'p memstream \<Rightarrow> bool" where
  "tx_ok s \<longleftrightarrow> ms_ok s \<and> transacted (lpMemBlock s) \<and> ulFlags s AND STGM_TRANSACTED \<noteq> 0"

lemma step_refines:
  assumes "tx_ok s" "allowed x (abs_file s)"
  shows "\<exists>s'. stream_step j x s = Some (fst (file_step x (abs_file s)), s') \<and> tx_ok s' \<and> abs_file s' = snd (file_step x (abs_file s))"
proof -
  have o: "ms_ok s" "s_ok s" "transacted (lpMemBlock s)" "ulFlags s AND STGM_TRANSACTED \<noteq> 0"
    using assms(1) by (simp_all add: tx_ok_def ms_ok_def)
  show ?thesis
  proof (cases x)
    case (OpRead n)
    obtain s' where r: "Read s n = Some (f_read (s_data s) (s_pos s) (unat n), s')" "s_ok s'" "lpMemBlock s' = lpMemBlock s"
        "s_pos s' = s_pos s + length (f_read (s_data s) (s_pos s) (unat n))" "ulFlags s' = ulFlags s"
      using Read_spec [OF o(2), of n] assms(2) OpRead by (auto simp: abs_file_def)
    moreover have "lpCommitFunc s' = lpCommitFunc s" using r(1) by (auto simp: Read_def bind_Some_iff)
    ultimately show ?thesis using OpRead o by (auto simp: abs_file_def tx_ok_def ms_ok_def s_data_def)
  next
    case (OpWrite d)
    then show ?thesis using Write_spec [OF o(1), of d j] assms(2) o by (auto simp: abs_file_def tx_ok_def transacted_def)
  next
    case (OpSeek d w)
    have "lpCommitFunc (snd (Seek s d w)) = lpCommitFunc s" by (simp add: Seek_def Let_def)
    then show ?thesis using Seek_spec [OF o(2), of d w] o OpSeek by (cases w) (auto simp: abs_file_def tx_ok_def ms_ok_def s_data_def)
  next
    case (OpResize n)
    then show ?thesis using SetSize_spec [OF o(1), of j n] o by (auto simp: abs_file_def tx_ok_def transacted_def)
  next
    case OpCommit
    then show ?thesis using Commit_spec [OF o(1)] o by (auto simp: abs_file_def tx_ok_def transacted_def)
  next
    case OpRevert
    then show ?thesis using Revert_spec [OF o(1,3)] o by (auto simp: abs_file_def tx_ok_def transacted_def)
  qed
qed

text \<open>
  C18: On a transacted stream in memory that may be written and has no commit function, any sequence of reads,
  writes, seeks, size changes, commits and reverts gives what it gives on a file, as long as no read starts
  beyond the end and no write ends above 2 GB less 8 KB.
\<close>

theorem memstream_refines_file:
  assumes "tx_ok s" "all_allowed ops (abs_file s)"
  shows "\<exists>s'. stream_run j ops s = Some (fst (file_run ops (abs_file s)), s') \<and> tx_ok s' \<and>
    abs_file s' = snd (file_run ops (abs_file s))"
  using assms
proof (induction ops arbitrary: s)
  case (Cons x xs)
  obtain s1 where s1: "stream_step j x s = Some (fst (file_step x (abs_file s)), s1)" "tx_ok s1"
      "abs_file s1 = snd (file_step x (abs_file s))"
    using step_refines [OF Cons.prems(1), of x j] Cons.prems(2) by auto
  obtain s2 where "stream_run j xs s1 = Some (fst (file_run xs (abs_file s1)), s2)" "tx_ok s2"
      "abs_file s2 = snd (file_run xs (abs_file s1))"
    using Cons.IH [OF s1(2)] Cons.prems(2) s1(3) by auto
  then show ?case using s1 by (auto split: prod.splits)
qed simp

theorem memstream_refines_file_witness:
  "\<exists>s'. stream_run (\<lambda>_. 0xAA) [OpWrite [1, 2, 3], OpCommit, OpSeek 5 SEEK_SET, OpResize 1, OpWrite [9], OpSeek 0 SEEK_SET, OpRead 10,
      OpRevert, OpRead 2] (ECMemStream_Create [] (STGM_WRITE OR STGM_TRANSACTED) None ()) =
      Some ([[], [], [], [], [], [], [1, 0, 0, 9], [], [1, 2]], s')"
proof -
  let ?ops = "[OpWrite [1, 2, 3], OpCommit, OpSeek 5 SEEK_SET, OpResize 1, OpWrite [9], OpSeek 0 SEEK_SET, OpRead 10, OpRevert, OpRead 2]"
  let ?s = "ECMemStream_Create [] (STGM_WRITE OR STGM_TRANSACTED) None () :: unit memstream"
  have "tx_ok ?s"
    by (simp add: tx_ok_def ms_ok_def s_ok_def transacted_def blk_ok_def ECMemStream_Create_def ECMemBlock_def
        STGM_WRITE_def STGM_TRANSACTED_def)
  moreover have a: "abs_file ?s = \<lparr>f_data = [], f_pos = 0, f_saved = []\<rparr>"
    by (simp add: abs_file_def s_data_def s_pos_def content_def saved_def ECMemStream_Create_def ECMemBlock_def)
  moreover have "all_allowed ?ops (abs_file ?s)"
    unfolding a by (simp add: f_write_def f_read_def f_resize_def write_limit_def)
  ultimately have "\<exists>s'. stream_run (\<lambda>_. 0xAA) ?ops ?s = Some (fst (file_run ?ops (abs_file ?s)), s')"
    using memstream_refines_file [of ?s ?ops "\<lambda>_. 0xAA"] by blast
  then show ?thesis unfolding a by (simp add: f_write_def f_read_def f_resize_def)
qed

section \<open>CopyTo\<close>

lemma copy_step:
  assumes "cb \<noteq> 0" "off < sz" "unat sz \<le> length buf"
    "i_Write I t (take (min (unat sz - unat off) (unat (ucast cb :: uint32))) (drop (unat off) buf)) = Some (hr, wr, t')"
  shows "copy_loop (Suc n) I buf sz off cb w t =
    (let w = (case wr of Some k \<Rightarrow> k | None \<Rightarrow> w) in copy_loop n I buf sz (off + w) (cb - ucast w) w t')"
proof -
  let ?m = "min (sz - off) (ucast cb :: uint32)"
  have d: "unat (sz - off) = unat sz - unat off" using assms(2) by (subst unat_sub) (simp_all add: word_le_nat_alt word_less_nat_alt)
  have m: "unat ?m = min (unat sz - unat off) (unat (ucast cb :: uint32))"
    by (auto simp: min_def word_le_nat_alt d)
  have "chars_at buf (unat off) (unat ?m) = Some (take (min (unat sz - unat off) (unat (ucast cb :: uint32))) (drop (unat off) buf))"
    using assms(2,3) unfolding m by (simp add: chars_at_def word_less_nat_alt)
  then show ?thesis using assms(1,2,4) by (subst copy_loop.simps) (simp add: Let_def)
qed

lemma copy_done: "cb = 0 \<or> \<not> off < sz \<Longrightarrow> copy_loop n I buf sz off cb w t = Some (off, t)"
  by (subst copy_loop.simps) auto

lemma copy_stuck:
  assumes "cb \<noteq> 0" "off < sz" "unat sz \<le> length buf" "P t"
    "\<And>t d. P t \<Longrightarrow> length d \<le> unat (ucast cb :: uint32) \<Longrightarrow>
      \<exists>hr wr t'. i_Write I t d = Some (hr, wr, t') \<and> (wr = Some 0 \<or> wr = None \<and> w = 0) \<and> P t'"
  shows "copy_loop n I buf sz off cb w t = None"
  using assms(4,5)
proof (induction n arbitrary: t w)
  case 0
  then show ?case using assms(1,2) by (subst copy_loop.simps) simp
next
  case (Suc n)
  let ?d = "take (min (unat sz - unat off) (unat (ucast cb :: uint32))) (drop (unat off) buf)"
  have "length ?d \<le> unat (ucast cb :: uint32)" by simp
  then obtain hr wr t' where w: "i_Write I t ?d = Some (hr, wr, t')" "wr = Some 0 \<or> wr = None \<and> w = 0" "P t'"
    using Suc.prems by blast
  then have z: "(case wr of Some k \<Rightarrow> k | None \<Rightarrow> w) = 0" by auto
  have "copy_loop n I buf sz off cb 0 t' = None" using Suc.prems(2) by (intro Suc.IH [OF w(3)]) blast
  then show ?case using copy_step [OF assms(1-3) w(1), of n w] unfolding z Let_def by simp
qed

context stream_contract
begin

lemma copy_returns:
  assumes "ok t" "off < sz" "unat sz \<le> length buf" "pos t + unat sz < write_limit"
  shows "(\<exists>n. copy_loop n I buf sz off cb 0 t \<noteq> None) \<longleftrightarrow> cb < 2 ^ 32 \<or> unat sz - unat off \<le> unat (ucast cb :: uint32)"
proof -
  let ?l = "unat (ucast cb :: uint32)"
  have stuck: "copy_loop n I buf sz off' c w t' = None"
    if "ok t'" "pos t' < write_limit" "off' < sz" "c \<noteq> 0" "(ucast c :: uint32) = 0" for n off' c w t'
  proof (rule copy_stuck [where P = "\<lambda>t. ok t \<and> pos t < write_limit"])
    fix t and d :: bytes assume "ok t \<and> pos t < write_limit" "length d \<le> unat (ucast c :: uint32)"
    then show "\<exists>hr wr t'. i_Write I t d = Some (hr, wr, t') \<and> (wr = Some 0 \<or> wr = None \<and> w = 0) \<and> (ok t' \<and> pos t' < write_limit)"
      using wr_law [of t "[]"] that(5) by auto
  qed (use that assms(3) in auto)
  have lt: "unat off < unat sz" using assms(2) by (simp add: word_less_nat_alt)
  show ?thesis
  proof (cases "cb = 0")
    case True
    then have "copy_loop 0 I buf sz off cb 0 t \<noteq> None" by (simp add: copy_done True)
    then show ?thesis using True by auto
  next
    case False
    let ?k = "min (unat sz - unat off) ?l"
    let ?d = "take ?k (drop (unat off) buf)"
    have ld: "length ?d = ?k" using assms(3) by auto
    have lim: "pos t + ?k < write_limit" using assms(4) by linarith
    obtain t' where w: "i_Write I t ?d = Some (hrSuccess, Some (of_nat ?k), t')" "ok t'" "pos t' = pos t + ?k"
      using wr_law [OF assms(1), of ?d, unfolded ld, OF lim] by blast
    let ?w = "of_nat ?k :: uint32"
    have kw: "unat ?w = ?k" using unat_less_word32 [of sz] by (intro unat_of_nat_small) (auto simp: min_def)
    have step: "copy_loop (Suc n) I buf sz off cb 0 t = copy_loop n I buf sz (off + ?w) (cb - ucast ?w) ?w t'" for n
      using copy_step [OF False assms(2,3) w(1), of n 0] by (simp add: Let_def)
    have ow: "unat (off + ?w) = unat off + ?k"
      using lt kw unat_less_word32 [of sz] by (subst unat_add_small) (auto simp: min_def)
    show ?thesis
    proof (cases "unat sz - unat off \<le> ?l")
      case True
      then have "\<not> off + ?w < sz" using ow lt by (simp add: word_less_nat_alt min_def)
      then have "copy_loop (Suc 0) I buf sz off cb 0 t \<noteq> None" unfolding step by (subst copy_done) auto
      then show ?thesis using True by blast
    next
      case small: False
      then have k: "?k = ?l" by (simp add: min_def)
      have wl: "?w = ucast cb" using kw k by (simp add: word_unat_eq_iff)
      have c: "unat (cb - ucast ?w) = unat cb - unat cb mod 2 ^ 32"
        unfolding wl by (subst unat_sub) (simp_all add: word_le_nat_alt unsigned_ucast_eq unsigned_take_bit_eq take_bit_nat_def min_def)
      show ?thesis
      proof (cases "cb < 2 ^ 32")
        case True
        then have "cb - ucast ?w = 0" using c by (simp add: word_unat_eq_iff word_less_nat_alt)
        then have "copy_loop (Suc 0) I buf sz off cb 0 t \<noteq> None" unfolding step by (subst copy_done) auto
        then show ?thesis using True by blast
      next
        case big: False
        have "unat cb div 2 ^ 32 > 0" using big by (simp add: word_less_nat_alt div_greater_zero_iff)
        then have nz: "cb - ucast ?w \<noteq> 0"
          using c minus_mod_eq_mult_div [of "unat cb" "2 ^ 32"] by (auto simp: word_unat_eq_iff)
        have "unat (cb - ucast ?w) = 2 ^ 32 * (unat cb div 2 ^ 32)" using c by (simp add: minus_mod_eq_mult_div)
        then have z: "(ucast (cb - ucast ?w) :: uint32) = 0" by (simp add: word_unat_eq_iff unsigned_ucast_eq take_bit_nat_def)
        have o: "off + ?w < sz" using ow small k by (simp add: word_less_nat_alt)
        have p': "pos t' < write_limit" using w(3) assms(4) lt by (auto simp: min_def)
        have "copy_loop n I buf sz off cb 0 t = None" for n
        proof (cases n)
          case 0
          then show ?thesis using False assms(2) by (subst copy_loop.simps) simp
        next
          case (Suc m)
          show ?thesis unfolding Suc step by (rule stuck [OF w(2) p' o nz z])
        qed
        then show ?thesis using big small by auto
      qed
    qed
  qed
qed

lemma copy_small:
  assumes "ok t" "off < sz" "unat sz \<le> length buf" "pos t + unat sz < write_limit" "cb < 2 ^ 32" "pos t \<le> length (data t)"
  shows "\<exists>t'. copy_loop (Suc 0) I buf sz off cb 0 t = Some (off + of_nat (min (unat sz - unat off) (unat cb)), t') \<and> ok t' \<and>
    data t' = f_write (data t) (pos t) (take (min (unat sz - unat off) (unat cb)) (drop (unat off) buf)) \<and>
    pos t' = pos t + min (unat sz - unat off) (unat cb)"
proof (cases "cb = 0")
  case True
  then show ?thesis using assms(1,6) by (simp add: f_write_def copy_done)
next
  case False
  have lt: "unat off < unat sz" using assms(2) by (simp add: word_less_nat_alt)
  have l: "unat (ucast cb :: uint32) = unat cb" by (rule pos_ucast [OF assms(5)])
  let ?k = "min (unat sz - unat off) (unat cb)"
  let ?d = "take ?k (drop (unat off) buf)"
  have ld: "length ?d = ?k" using assms(3) by auto
  have lim: "pos t + ?k < write_limit" using assms(4) by linarith
  obtain t' where w: "i_Write I t ?d = Some (hrSuccess, Some (of_nat ?k), t')" "ok t'" "pos t' = pos t + ?k"
      "data t' = f_write (data t) (pos t) ?d"
    using wr_law [OF assms(1), of ?d, unfolded ld, OF lim] by blast
  let ?w = "of_nat ?k :: uint32"
  have kw: "unat ?w = ?k" using unat_less_word32 [of sz] by (intro unat_of_nat_small) (auto simp: min_def)
  have step: "copy_loop (Suc 0) I buf sz off cb 0 t = copy_loop 0 I buf sz (off + ?w) (cb - ucast ?w) ?w t'"
    using copy_step [OF False assms(2,3), of I t hrSuccess "Some ?w" t' 0 0] w(1) l by (simp add: Let_def)
  have u: "unat (ucast ?w :: 64 word) = ?k"
    using kw unat_less_word32 [of ?w] by (simp add: unsigned_ucast_eq take_bit_nat_eq_self)
  have "cb - ucast ?w = 0 \<or> \<not> off + ?w < sz"
  proof (cases "unat cb \<le> unat sz - unat off")
    case True
    then have "unat (ucast ?w :: 64 word) = unat cb" using u by simp
    then have "ucast ?w = cb" by (simp only: word_unat_eq_iff)
    then show ?thesis by (simp only: diff_self simp_thms)
  next
    case False
    then have "unat (off + ?w) = unat sz" using lt kw unat_less_word32 [of sz] by (subst unat_add_small) (auto simp: min_def)
    then show ?thesis by (simp add: word_less_nat_alt)
  qed
  then have "copy_loop (Suc 0) I buf sz off cb 0 t = Some (off + ?w, t')" unfolding step by (subst copy_done) auto
  then show ?thesis using w by blast
qed

end

text \<open>
  To a stream in memory opened without the right to write, CopyTo never returns once there is
  a byte to copy: the refused write leaves the loop's count at 0.
\<close>

lemma copyto_refused_loops:
  assumes "s_ok s" "s_pos s < length (s_data s)" "ulFlags t AND STGM_WRITE = 0" "cb \<noteq> 0"
  shows "CopyTo fuel (mem_istream j) s t cb = None"
proof -
  have b: "blk_ok (lpMemBlock s)" "liPos s < 2 ^ 32" using assms(1) by (simp_all add: s_ok_def)
  have lt: "ucast (liPos s) < GetSize s"
    using assms(2) pos_ucast [OF b(2)] by (simp add: word_less_nat_alt s_pos_def GetSize_def length_s_data [OF b(1)])
  have zb: "unat (GetSize s) \<le> length (lpCurrent (lpMemBlock s))" using b(1) by (simp add: GetSize_def blk_ok_def)
  have "copy_loop fuel (mem_istream j) (lpCurrent (lpMemBlock s)) (GetSize s) (ucast (liPos s)) cb 0 t = None"
    by (rule copy_stuck [OF assms(4) lt zb, of "\<lambda>t. ulFlags t AND STGM_WRITE = 0"])
      (use assms(3) in \<open>auto simp: mem_istream_def Write_def\<close>)
  then show ?thesis by (simp add: CopyTo_def)
qed

text \<open>
  C19: When CopyTo returns. The source is a stream in memory whose position lies before its end. The
  destination t is a stream in memory that may be written and has no commit function, positioned within its
  data and with room for all of the source below 2 GB less 8 KB: CopyTo returns exactly when the number of bytes
  asked for fits 32 bits, or its low 32 bits cover the rest of the source; a copy that fits 32 bits
  writes exactly the bytes read and moves both positions behind them. A destination u that was opened
  without the right to write never lets CopyTo return when it is asked for at least one byte.
\<close>

theorem copyto_returns:
  assumes "s_ok s" "ms_ok t" "s_pos s < length (s_data s)" "s_pos t + length (s_data s) < write_limit"
    "s_pos t \<le> length (s_data t)"
  shows "((\<exists>fuel. CopyTo fuel (mem_istream j) s t cb \<noteq> None) \<longleftrightarrow>
      cb < 2 ^ 32 \<or> length (s_data s) - s_pos s \<le> unat (ucast cb :: uint32)) \<and>
    (cb < 2 ^ 32 \<longrightarrow> (\<exists>n s' t'. CopyTo 1 (mem_istream j) s t cb = Some (n, s', t') \<and>
      unat n = min (length (s_data s) - s_pos s) (unat cb) \<and> s_pos s' = s_pos s + unat n \<and>
      s_data t' = f_write (s_data t) (s_pos t) (f_read (s_data s) (s_pos s) (unat cb)) \<and> s_pos t' = s_pos t + unat n)) \<and>
    (\<forall>u. ulFlags u AND STGM_WRITE = 0 \<and> cb \<noteq> 0 \<longrightarrow> (\<forall>fuel. CopyTo fuel (mem_istream j) s u cb = None))"
proof -
  have b: "blk_ok (lpMemBlock s)" "liPos s < 2 ^ 32" using assms(1) by (simp_all add: s_ok_def)
  have p: "unat (ucast (liPos s) :: uint32) = s_pos s" using pos_ucast [OF b(2)] by (simp add: s_pos_def)
  have z: "unat (GetSize s) = length (s_data s)" by (simp add: GetSize_def length_s_data [OF b(1)])
  have zb: "unat (GetSize s) \<le> length (lpCurrent (lpMemBlock s))" using b(1) by (simp add: GetSize_def blk_ok_def)
  have lt: "ucast (liPos s) < GetSize s" using assms(3) by (simp add: word_less_nat_alt p z)
  have w: "s_pos t + unat (GetSize s) < write_limit" using assms(4) z by simp
  have n: "CopyTo f (mem_istream j) s t cb \<noteq> None \<longleftrightarrow>
      copy_loop f (mem_istream j) (lpCurrent (lpMemBlock s)) (GetSize s) (ucast (liPos s)) cb 0 t \<noteq> None" for f
    by (cases "copy_loop f (mem_istream j) (lpCurrent (lpMemBlock s)) (GetSize s) (ucast (liPos s)) cb 0 t") (auto simp: CopyTo_def)
  have "\<exists>n s' t'. CopyTo 1 (mem_istream j) s t cb = Some (n, s', t') \<and>
      unat n = min (length (s_data s) - s_pos s) (unat cb) \<and> s_pos s' = s_pos s + unat n \<and>
      s_data t' = f_write (s_data t) (s_pos t) (f_read (s_data s) (s_pos s) (unat cb)) \<and> s_pos t' = s_pos t + unat n"
    if cb: "cb < 2 ^ 32"
  proof -
    let ?k = "min (length (s_data s) - s_pos s) (unat cb)"
    obtain t' where t': "copy_loop 1 (mem_istream j) (lpCurrent (lpMemBlock s)) (GetSize s) (ucast (liPos s)) cb 0 t =
        Some (ucast (liPos s) + of_nat ?k, t')"
        "s_data t' = f_write (s_data t) (s_pos t) (take ?k (drop (s_pos s) (lpCurrent (lpMemBlock s))))" "s_pos t' = s_pos t + ?k"
      using mem.copy_small [OF assms(2) lt zb w cb assms(5), of j] by (auto simp: p z)
    have d: "take ?k (drop (s_pos s) (lpCurrent (lpMemBlock s))) = f_read (s_data s) (s_pos s) (unat cb)"
      using z by (simp add: f_read_def s_data_def content_def GetSize_def drop_take min.commute)
    have zl: "length (s_data s) < 2 ^ 32" using unat_less_word32 [of "GetSize s"] z by simp
    then have k: "unat (of_nat ?k :: uint32) = ?k" by (intro unat_of_nat_small) auto
    have o: "unat (ucast (liPos s) + of_nat ?k :: uint32) = s_pos s + ?k"
      using zl assms(3) k by (subst unat_add_small) (auto simp: p min_def)
    then have "unat (ucast (ucast (liPos s) + of_nat ?k :: uint32) :: 64 word) = s_pos s + ?k"
      using unat_less_word32 [of "ucast (liPos s) + of_nat ?k"] by (simp add: unsigned_ucast_eq take_bit_nat_eq_self)
    then show ?thesis using t' d k o by (simp add: CopyTo_def s_pos_def)
  qed
  then show ?thesis
    using mem.copy_returns [OF assms(2) lt zb w, of j cb] copyto_refused_loops [OF assms(1,3)] unfolding n p z by blast
qed

definition demo_stream :: "uint32 \<Rightarrow> unit memstream" where
  "demo_stream fl = ECMemStream_Create [1, 2, 3] fl None ()"

lemma demo_stream_ok:
  "s_ok (demo_stream fl)" "s_pos (demo_stream fl) = 0" "s_data (demo_stream fl) = [1, 2, 3]"
  "fl AND STGM_WRITE \<noteq> 0 \<Longrightarrow> ms_ok (demo_stream fl)" "ulFlags (demo_stream fl) = fl"
  by (simp_all add: demo_stream_def s_ok_def ms_ok_def blk_ok_def transacted_def s_pos_def s_data_def content_def
      ECMemStream_Create_def ECMemBlock_def Let_def)

theorem copyto_returns_witness:
  "(\<forall>fuel. CopyTo fuel (mem_istream (\<lambda>_. 0)) (demo_stream 0) (demo_stream STGM_WRITE) (2 ^ 32 + 2) = None) \<and>
   (\<exists>n s' t'. CopyTo 1 (mem_istream (\<lambda>_. 0)) (demo_stream 0) (demo_stream STGM_WRITE) 2 = Some (n, s', t') \<and> s_data t' = [1, 2, 3] \<and> n = 2) \<and>
   (\<forall>fuel. CopyTo fuel (mem_istream (\<lambda>_. 0)) (demo_stream 0) (demo_stream 0) 2 = None)"
proof -
  note d = demo_stream_ok [of 0] demo_stream_ok [of STGM_WRITE, simplified STGM_WRITE_def, simplified, folded STGM_WRITE_def]
  have "s_pos (demo_stream STGM_WRITE) + length (s_data (demo_stream 0)) < write_limit" by (simp add: d write_limit_def)
  note r = copyto_returns [OF d(1) _ _ this, of "\<lambda>_. 0"]
  have "\<not> (\<exists>fuel. CopyTo fuel (mem_istream (\<lambda>_. 0)) (demo_stream 0) (demo_stream STGM_WRITE) (2 ^ 32 + 2) \<noteq> None)"
    using r [of "2 ^ 32 + 2", THEN conjunct1] d by simp
  moreover have "\<exists>n s' t'. CopyTo 1 (mem_istream (\<lambda>_. 0)) (demo_stream 0) (demo_stream STGM_WRITE) 2 = Some (n, s', t') \<and>
      s_data t' = [1, 2, 3] \<and> unat n = 2"
    using r [of 2, THEN conjunct2, THEN conjunct1] by (simp add: d f_write_def f_read_def) (elim conjE exE, intro exI conjI, assumption+, simp)
  moreover have "\<forall>fuel. CopyTo fuel (mem_istream (\<lambda>_. 0)) (demo_stream 0) (demo_stream 0) 2 = None"
    using r [of 2, THEN conjunct2, THEN conjunct2, THEN spec [of _ "demo_stream 0"]] by (simp add: d)
  ultimately show ?thesis by (simp add: word_unat_eq_iff del: not_None_eq)
qed

end
