(* ===== verification/RtfStreamSpec.thy ===== *)
theory RtfStreamSpec
  imports RtfSpec RtfStream MemStreamSpec
begin

text \<open>
  Properties of the compressed RTF body as a stream: the loops that read and write a whole stream,
  on any stream that keeps the contract, and the round trip through opening, writing and committing.
\<close>

lemma rtf_decompress_length: "rtf_decompress j d c = Some (r, u) \<Longrightarrow> length u = length d"
  by (auto simp: rtf_decompress_def memcpy_def bind_Some_iff split: if_splits)

section \<open>Whole streams\<close>

context reader
begin

lemma read_loop_all:
  assumes "ok s" "pos s = off" "off \<le> length buf" "length buf = length (data s)" "take off buf = take off (data s)"
  shows "\<exists>s'. read_loop rd s buf off = Some (hrSuccess, data s, s') \<and> ok s' \<and> data s' = data s \<and> pos s' = length (data s)"
  using assms
proof (induction "length buf - off" arbitrary: s buf off rule: less_induct)
  case less
  let ?r = "f_read (data s) off 1024"
  obtain s1 where s1: "rd s 1024 = Some (hrSuccess, ?r, s1)" "ok s1" "data s1 = data s" "pos s1 = off + length ?r"
    using rd_law [of s 1024] less.prems by auto
  show ?case
  proof (cases "off = length buf")
    case True
    then have "?r = []" "buf = data s" using less.prems by (simp_all add: f_read_def)
    then show ?thesis using s1 less.prems True by (subst read_loop.simps) simp
  next
    case False
    then have ne: "?r \<noteq> []" and fit: "off + length ?r \<le> length buf" using less.prems by (auto simp: f_read_def)
    let ?b = "take off buf @ ?r @ drop (off + length ?r) buf"
    have m: "memcpy buf off ?r = Some ?b" using fit by (simp add: memcpy_def)
    have lb: "length ?b = length buf" using fit less.prems(3) by simp
    have tk: "take (off + length ?r) ?b = take (off + length ?r) (data s)"
      using fit less.prems by (simp add: f_read_def take_add min_def)
    have sm: "length ?b - (off + length ?r) < length buf - off" using ne fit unfolding lb by (cases ?r) auto
    have "\<exists>s'. read_loop rd s1 ?b (off + length ?r) = Some (hrSuccess, data s1, s') \<and> ok s' \<and> data s' = data s1 \<and> pos s' = length (data s1)"
      using fit lb s1 less.prems tk by (intro less.hyps [OF sm]) simp_all
    then show ?thesis using s1 m ne by (subst read_loop.simps) simp
  qed
qed

lemma read_all:
  assumes "ok s" "pos s = 0"
  shows "\<exists>s'. read_loop rd s (malloc j (length (data s))) 0 = Some (hrSuccess, data s, s') \<and> ok s' \<and> data s' = data s"
  using read_loop_all [OF assms, of "malloc j (length (data s))"] by auto

end

context stream_contract
begin

lemma write_loop_all:
  assumes "ok t" "pos t = off" "off \<le> length buf" "data t = take off buf" "length buf < write_limit"
    "length buf - off \<le> 16384 * fuel" "cb = of_nat (length buf - off)"
  shows "\<exists>t'. write_loop fuel I buf off cb w hrSuccess t = Some (hrSuccess, t') \<and> ok t' \<and> data t' = buf"
  using assms
proof (induction fuel arbitrary: t off cb w)
  case 0
  then show ?case by (subst write_loop.simps) simp
next
  case (Suc fuel)
  have cb: "unat cb = length buf - off" using Suc.prems(5,7) by (simp add: unat_of_nat_small write_limit_def)
  show ?case
  proof (cases "off = length buf")
    case True
    then show ?thesis using Suc.prems by (subst write_loop.simps) simp
  next
    case False
    let ?n = "min 16384 (length buf - off)"
    let ?d = "take ?n (drop off buf)"
    have nz: "cb \<noteq> 0" using cb False Suc.prems(3) by (auto simp: word_unat_eq_iff)
    have n: "unat (if cb > 16384 then 16384 else cb) = ?n" using cb by (auto simp: word_less_nat_alt)
    have ld: "length ?d = ?n" by simp
    have ch: "chars_at buf off ?n = Some ?d" using Suc.prems(3) by (simp add: chars_at_def)
    have lim: "pos t + length ?d < write_limit" using Suc.prems(2,3,5) unfolding ld by linarith
    obtain t1 where t1: "i_Write I t ?d = Some (hrSuccess, Some (of_nat ?n), t1)" "ok t1"
        "data t1 = f_write (data t) (pos t) ?d" "pos t1 = off + ?n"
      using wr_law [OF Suc.prems(1) lim] unfolding ld Suc.prems(2) by blast
    have d1: "data t1 = take (off + ?n) buf"
      unfolding t1(3) Suc.prems(2,4) using Suc.prems(3) by (simp add: f_write_def take_add)
    have un: "unat (of_nat ?n :: uint32) = ?n" by (rule unat_of_nat_small) simp
    have ar: "off + ?n \<le> length buf" "length buf - (off + ?n) \<le> 16384 * fuel" using Suc.prems(3,6) by (auto simp: min_def)
    have cb': "cb - of_nat ?n = of_nat (length buf - (off + ?n))"
    proof -
      have "unat (cb - of_nat ?n) = length buf - (off + ?n)" using cb un by (subst unat_sub) (auto simp: word_le_nat_alt)
      then show ?thesis by (metis of_nat_unat ucast_id)
    qed
    obtain t2 where "write_loop fuel I buf (off + ?n) (cb - of_nat ?n) (of_nat ?n) hrSuccess t1 = Some (hrSuccess, t2)" "ok t2" "data t2 = buf"
      using Suc.IH [OF t1(2,4) ar(1) d1 Suc.prems(5) ar(2) cb', of "of_nat ?n"] by blast
    then show ?thesis using nz ch t1(1) by (subst write_loop.simps) (simp add: n un Let_def)
  qed
qed

text \<open>Committing replaces the compressed stream by the packed text.\<close>

lemma commit_packs:
  assumes "s_ok h" "s_pos h = 0" "ok t" "length (s_data h) < 2 ^ 28" "32770 \<le> fuel"
  shows "\<exists>c t'. RTFCommitFunc j fuel I h t = Some (hrSuccess, t') \<and> ok t' \<and> data t' = c \<and> rtf_compress j (s_data h) = Some c"
proof -
  let ?x = "s_data h"
  have "cbPrebuf + length ?x < 2 ^ 31" using assms(4) by (simp add: cbPrebuf_207)
  then obtain c where c: "rtf_compress j ?x = Some c" "length c \<le> 2 * length ?x + 19" using compress_decompress by blast
  have b: "blk_ok (lpMemBlock h)" using assms(1) by (simp add: s_ok_def)
  obtain h' where h: "read_loop (\<lambda>s n. map_option (\<lambda>(bs, s). (hrSuccess, bs, s)) (Read s n)) h (malloc j (length ?x)) 0 = Some (hrSuccess, ?x, h')"
    using handle.read_all [OF assms(1,2), of j] by auto
  obtain t1 where t1: "i_SetSize I t 0 = Some (hrSuccess, t1)" "ok t1" "data t1 = []" using size_law [OF assms(3)] by blast
  let ?t2 = "i_Seek I t1 0 SEEK_SET"
  have t2: "ok ?t2" "data ?t2 = []" "pos ?t2 = 0" using seek_law [OF t1(2)] t1(3) by simp_all
  obtain t3 where t3: "write_loop fuel I c 0 (of_nat (length c)) 0 hrSuccess ?t2 = Some (hrSuccess, t3)" "ok t3" "data t3 = c"
    using write_loop_all [OF t2(1,3), of c fuel "of_nat (length c)" 0] t2(2) c(2) assms(4,5) by (auto simp: write_limit_def)
  have st: "unat (ucast (fst (Stat h)) :: uint32) = length ?x" by (simp add: Stat_def ucast_up_down length_s_data [OF b])
  show ?thesis using h c t1(1) t3 by (simp add: RTFCommitFunc_def st)
qed

text \<open>Opening reads the whole compressed stream.\<close>

lemma wrap_opens:
  assumes "ok t" "pos t = 0" "WrapCompressedRTFStream j fuel I t = Some (Inr s)"
  shows "\<exists>u t'. s = ECMemStream_Create u (STGM_WRITE OR STGM_TRANSACTED) (Some (RTFCommitFunc j fuel I)) t' \<and> ok t' \<and> length u < 2 ^ 32"
proof -
  have z: "unat (ucast (i_Stat I t) :: uint32) = length (data t)" by (rule stat_law [OF assms(1)])
  obtain t' where r: "read_loop (i_Read I) t (malloc j (length (data t))) 0 = Some (hrSuccess, data t, t')" "ok t'"
    using read_all [OF assms(1,2)] by blast
  show ?thesis
  proof (cases "(ucast (i_Stat I t) :: uint32) > 0")
    case False
    then have "s = ECMemStream_Create [] (STGM_WRITE OR STGM_TRANSACTED) (Some (RTFCommitFunc j fuel I)) t"
      using assms(3) by (simp add: WrapCompressedRTFStream_def)
    then show ?thesis using assms(1) by (intro exI [of _ "[]"] exI [of _ t]) simp
  next
    case True
    then obtain n u where "rtf_decompress j (malloc j (unat (n :: uint32))) (data t) = Some (0, u)"
        "s = ECMemStream_Create u (STGM_WRITE OR STGM_TRANSACTED) (Some (RTFCommitFunc j fuel I)) t'"
      using assms(3) r by (auto simp: WrapCompressedRTFStream_def z bind_Some_iff split: if_splits)
    then show ?thesis using r(2) rtf_decompress_length [of j "malloc j (unat n)"] unat_less_word32 [of n] by fastforce
  qed
qed

lemma wrap_unpacks:
  assumes "ok t" "pos t = 0" "rtf_compress k x = Some (data t)" "cbPrebuf + length x < 2 ^ 31"
  shows "\<exists>t'. WrapCompressedRTFStream j fuel I t =
    Some (Inr (ECMemStream_Create x (STGM_WRITE OR STGM_TRANSACTED) (Some (RTFCommitFunc j fuel I)) t'))"
proof -
  have z: "unat (ucast (i_Stat I t) :: uint32) = length (data t)" by (rule stat_law [OF assms(1)])
  obtain t' where r: "read_loop (i_Read I) t (malloc j (length (data t))) 0 = Some (hrSuccess, data t, t')" "ok t'"
    using read_all [OF assms(1,2)] by blast
  have d: "rtf_get_uncompressed_length (data t) = Some (of_nat (length x))" "rtf_decompress j (malloc j (length x)) (data t) = Some (0, x)"
    "data t \<noteq> []"
    using compress_decompress [OF assms(4), of k] assms(3) by (auto simp: rtf_decompress_def RTFHeader_size_def)
  have u: "unat (of_nat (length x) :: uint32) = length x" using assms(4) by (intro unat_of_nat_small) simp
  have "(ucast (i_Stat I t) :: uint32) > 0" using d(3) z by (simp add: word_less_nat_alt)
  then show ?thesis using r d(1,2) by (intro exI [of _ t']) (simp add: WrapCompressedRTFStream_def z u)
qed

end

section \<open>Opening, writing, committing, opening again\<close>

lemma created_stream:
  assumes "length u < 2 ^ 32"
  shows "s_ok (ECMemStream_Create u fl f p)" "s_data (ECMemStream_Create u fl f p) = u" "s_pos (ECMemStream_Create u fl f p) = 0"
  using assms unat_of_nat_small [of "length u", where 'a = 32]
  by (auto simp: s_ok_def blk_ok_def transacted_def s_pos_def s_data_def content_def ECMemStream_Create_def ECMemBlock_def Let_def)

lemma Commit_calls:
  assumes "s_ok s" "lpCommitFunc s = Some f" "\<And>h. s_ok h \<Longrightarrow> s_pos h = 0 \<Longrightarrow> s_data h = s_data s \<Longrightarrow> \<exists>p. f h (lpParam s) = Some (hrSuccess, p) \<and> Q p"
  shows "\<exists>s'. Commit s = Some (hrSuccess, s') \<and> Q (lpParam s')"
proof -
  obtain b where b: "CommitBlock (lpMemBlock s) = Some b" "blk_ok b" "content b = s_data s"
    using CommitBlock_spec [of "lpMemBlock s"] assms(1) by (auto simp: s_ok_def s_data_def)
  let ?h = "Clone (s\<lparr>lpMemBlock := b\<rparr>)"
  have "s_ok ?h" "s_pos ?h = 0" "s_data ?h = s_data s"
    using b by (simp_all add: Clone_def s_ok_def s_pos_def s_data_def)
  then obtain p where "f ?h (lpParam s) = Some (hrSuccess, p)" "Q p" using assms(3) by blast
  then show ?thesis using b assms(2) by (simp add: Commit_def)
qed

text \<open>
  C20: Text written to a compressed RTF stream, opened over a stream in memory that may be written, and
  committed is what opening the compressed stream again gives: the text there was, overwritten from its
  start. Both texts are below 2^28 bytes.
\<close>

theorem rtf_stream_round_trip:
  assumes "ms_ok t" "s_pos t = 0" "WrapCompressedRTFStream j fuel (mem_istream j) t = Some (Inr s)"
    "length (s_data s) < 2 ^ 28" "length x < 2 ^ 28" "32770 \<le> fuel"
  shows "\<exists>s1 s2 s3. Write j s x = Some (hrSuccess, Some (of_nat (length x)), s1) \<and> Commit s1 = Some (hrSuccess, s2) \<and>
    WrapCompressedRTFStream j fuel (mem_istream j) (snd (Seek (lpParam s2) 0 SEEK_SET)) = Some (Inr s3) \<and>
    s_data s3 = f_write (s_data s) 0 x"
proof -
  let ?I = "mem_istream j" and ?fl = "STGM_WRITE OR STGM_TRANSACTED" and ?x = "f_write (s_data s) 0 x"
  obtain u t' where s: "s = ECMemStream_Create u ?fl (Some (RTFCommitFunc j fuel ?I)) t'" "ms_ok t'" "length u < 2 ^ 32"
    using mem.wrap_opens [OF assms(1-3)] by blast
  have fl: "ulFlags s AND STGM_WRITE \<noteq> 0" "ulFlags s AND STGM_TRANSACTED \<noteq> 0"
    by (simp_all add: s(1) ECMemStream_Create_def STGM_WRITE_def STGM_TRANSACTED_def)
  have c: "s_ok s" "s_pos s = 0" "lpParam s = t'" "lpCommitFunc s = Some (RTFCommitFunc j fuel ?I)"
    using created_stream [OF s(3), of ?fl "Some (RTFCommitFunc j fuel ?I)" t'] by (simp_all add: s(1) ECMemStream_Create_def)
  have lx: "length ?x < 2 ^ 28" using assms(4,5) by (simp add: length_f_write)
  obtain s1 where s1: "Write j s x = Some (hrSuccess, Some (of_nat (length x)), s1)" "s_ok s1" "s_data s1 = ?x"
      "lpCommitFunc s1 = Some (RTFCommitFunc j fuel ?I)" "lpParam s1 = t'"
    using Write_transacted [OF c(1) fl, of x j] assms(5) c by (auto simp: write_limit_def)
  obtain s2 where s2: "Commit s1 = Some (hrSuccess, s2)" "ms_ok (lpParam s2)" "rtf_compress j ?x = Some (s_data (lpParam s2))"
    using Commit_calls [OF s1(2,4), of "\<lambda>p. ms_ok p \<and> rtf_compress j ?x = Some (s_data p)"]
      mem.commit_packs [OF _ _ s(2) _ assms(6), of _ j j] lx s1(3,5) by fastforce
  let ?t = "snd (Seek (lpParam s2) 0 SEEK_SET)"
  have k: "ms_ok ?t" "s_data ?t = s_data (lpParam s2)" "s_pos ?t = 0"
    using mem.seek_law [OF s2(2), of j] by (simp_all add: mem_istream_def)
  obtain t3 where "WrapCompressedRTFStream j fuel ?I ?t = Some (Inr (ECMemStream_Create ?x ?fl (Some (RTFCommitFunc j fuel ?I)) t3))"
    using mem.wrap_unpacks [OF k(1,3), of j ?x j fuel j] s2(3) k(2) lx by (auto simp: cbPrebuf_207)
  moreover have "s_data (ECMemStream_Create ?x ?fl (Some (RTFCommitFunc j fuel ?I)) t3) = ?x"
    using created_stream(2) [of ?x] lx by simp
  ultimately show ?thesis using s1(1) s2(1) by blast
qed

theorem rtf_stream_round_trip_witness:
  "\<exists>s s1 s2 s3. WrapCompressedRTFStream (\<lambda>_. 0xAA) 32770 (mem_istream (\<lambda>_. 0xAA)) (ECMemStream_Create [] STGM_WRITE None ()) = Some (Inr s) \<and>
     Write (\<lambda>_. 0xAA) s [65, 66, 65, 66] = Some (hrSuccess, Some 4, s1) \<and> Commit s1 = Some (hrSuccess, s2) \<and>
     WrapCompressedRTFStream (\<lambda>_. 0xAA) 32770 (mem_istream (\<lambda>_. 0xAA)) (snd (Seek (lpParam s2) 0 SEEK_SET)) = Some (Inr s3) \<and>
     s_data s3 = [65, 66, 65, 66]"
proof -
  let ?j = "\<lambda>_ :: nat. 0xAA :: byte" and ?t = "ECMemStream_Create [] STGM_WRITE None () :: unit memstream"
  let ?s = "ECMemStream_Create [] (STGM_WRITE OR STGM_TRANSACTED) (Some (RTFCommitFunc ?j 32770 (mem_istream ?j))) ?t"
  have t: "ms_ok ?t" "s_pos ?t = 0"
    using created_stream [of "[]" STGM_WRITE None "()"] by (simp_all add: ms_ok_def ECMemStream_Create_def STGM_WRITE_def)
  have w: "WrapCompressedRTFStream ?j 32770 (mem_istream ?j) ?t = Some (Inr ?s)"
    by (simp add: WrapCompressedRTFStream_def mem_istream_def Stat_def ECMemStream_Create_def ECMemBlock_def)
  have d: "s_data ?s = []" using created_stream(2) [of "[]"] by simp
  show ?thesis
    using rtf_stream_round_trip [OF t w, of "[65, 66, 65, 66]"] w unfolding d by (simp add: f_write_def)
qed

end
