(* ===== verification/Steps.thy ===== *)
theory Steps
  imports KPrelude
begin

text \<open>
  Step relations: runs labelled with their events, reachable states, and the contract of an
  invariant, which holds at the start and is kept by every step.
\<close>

inductive steps :: "('s \<Rightarrow> 'e \<Rightarrow> 's \<Rightarrow> bool) \<Rightarrow> 's \<Rightarrow> 'e list \<Rightarrow> 's \<Rightarrow> bool" for step where
  steps_Nil: "steps step s [] s"
| steps_Cons: "step s e s1 \<Longrightarrow> steps step s1 es s2 \<Longrightarrow> steps step s (e # es) s2"

inductive_cases steps_NilE [elim!]: "steps step s [] t"
inductive_cases steps_ConsE [elim!]: "steps step s (e # es) t"
inductive_simps steps_Nil_iff [simp]: "steps step s [] t"
inductive_simps steps_Cons_iff: "steps step s (e # es) t"

lemma steps_append: "steps step s (es @ fs) t \<longleftrightarrow> (\<exists>u. steps step s es u \<and> steps step u fs t)"
  by (induction es arbitrary: s) (auto simp: steps_Cons_iff)

lemma steps_snoc: "steps step s (es @ [e]) t \<longleftrightarrow> (\<exists>u. steps step s es u \<and> step u e t)"
  by (simp add: steps_append steps_Cons_iff)

lemma steps_keep:
  "steps step s es t \<Longrightarrow> P s \<Longrightarrow> \<forall>e \<in> set es. G e \<Longrightarrow>
   (\<And>s e t. P s \<Longrightarrow> G e \<Longrightarrow> step s e t \<Longrightarrow> P t) \<Longrightarrow> P t"
  by (induction rule: steps.induct) auto

definition reachable :: "('s \<Rightarrow> 'e \<Rightarrow> 's \<Rightarrow> bool) \<Rightarrow> 's \<Rightarrow> 's \<Rightarrow> bool" where
  "reachable step init s \<longleftrightarrow> (\<exists>es. steps step init es s)"

lemma reachable_start [simp]: "reachable step init init"
  unfolding reachable_def by (rule exI [of _ "[]"]) simp

lemma reachable_step: "reachable step init s \<Longrightarrow> step s e t \<Longrightarrow> reachable step init t"
  unfolding reachable_def by (meson steps_append steps_Cons steps_Nil)

lemma reachable_steps: "reachable step init s \<Longrightarrow> steps step s es t \<Longrightarrow> reachable step init t"
  unfolding reachable_def by (meson steps_append)

locale invariant_of =
  fixes step :: "'s \<Rightarrow> 'e \<Rightarrow> 's \<Rightarrow> bool"
    and init :: "'s"
    and inv :: "'s \<Rightarrow> bool"
  assumes at_start: "inv init"
    and kept: "inv s \<Longrightarrow> step s e t \<Longrightarrow> inv t"
begin

lemma run_keeps: "steps step s es t \<Longrightarrow> inv s \<Longrightarrow> inv t"
  by (induction rule: steps.induct) (auto intro: kept)

lemma holds: "reachable step init s \<Longrightarrow> inv s"
  using run_keeps at_start by (auto simp: reachable_def)

end

end
