(* ===== verification/Locks.thy ===== *)
theory Locks
  imports Security Steps "HOL-Library.AList"
begin

text \<open>
  Message locks: the server-wide lock manager (provider/libserver/ECLockManager.cpp, .h), the locks
  a session holds (ECSession::LockObject and UnlockObject, provider/libserver/ECSession.cpp), and the calls
  that use them (setLockState and the test in loadObject, provider/libserver/cmd.cpp).

  A call runs as one step: it holds the mutex of its session's lock table, and the lock manager's
  table is only used under the manager's own lock. The session manager, and with it the lock manager,
  outlives the sessions.
\<close>

type_synonym sessionid = "64 word"
type_synonym lockmap = "uint32 \<rightharpoonup> sessionid"

definition MAPI_MESSAGE :: uint32 where "MAPI_MESSAGE = 5"

section \<open>The lock manager\<close>

text \<open>The flag tells whether the weak pointer to the manager is still set.\<close>

record ECObjectLockImpl =
  m_ptrLockManager :: bool
  m_ulObjId :: uint32
  m_sessionId :: sessionid

definition LockObject :: "uint32 \<Rightarrow> sessionid \<Rightarrow> lockmap \<Rightarrow> ecresult \<times> ECObjectLockImpl \<times> lockmap" where
  "LockObject ulObjId sessionId m_mapLocks =
     (let res = (case m_mapLocks ulObjId of None \<Rightarrow> True | Some _ \<Rightarrow> False);
          m_mapLocks = (if res then m_mapLocks(ulObjId \<mapsto> sessionId) else m_mapLocks);
          er = (if \<not> res \<and> m_mapLocks ulObjId \<noteq> Some sessionId then KCERR_NO_ACCESS else erSuccess)
      in (er, \<lparr>m_ptrLockManager = True, m_ulObjId = ulObjId, m_sessionId = sessionId\<rparr>, m_mapLocks))"

definition UnlockObject :: "uint32 \<Rightarrow> sessionid \<Rightarrow> lockmap \<Rightarrow> ecresult \<times> lockmap" where
  "UnlockObject ulObjId sessionId m_mapLocks =
     (case m_mapLocks ulObjId of
        None \<Rightarrow> (KCERR_NOT_FOUND, m_mapLocks)
      | Some s \<Rightarrow> if s \<noteq> sessionId then (KCERR_NO_ACCESS, m_mapLocks) else (erSuccess, m_mapLocks(ulObjId := None)))"

definition IsLocked :: "uint32 \<Rightarrow> lockmap \<Rightarrow> sessionid option" where
  "IsLocked ulObjId m_mapLocks = m_mapLocks ulObjId"

section \<open>Lock objects\<close>

definition Impl_Unlock :: "ECObjectLockImpl \<Rightarrow> lockmap \<Rightarrow> ecresult \<times> ECObjectLockImpl \<times> lockmap" where
  "Impl_Unlock l m =
     (if m_ptrLockManager l
      then (case UnlockObject (m_ulObjId l) (m_sessionId l) m of
              (er, m) \<Rightarrow> (er, (if er = erSuccess then l\<lparr>m_ptrLockManager := False\<rparr> else l), m))
      else (erSuccess, l, m))"

text \<open>The destructor gives the lock back; its result is not looked at.\<close>

definition Impl_destroy :: "ECObjectLockImpl \<Rightarrow> lockmap \<Rightarrow> lockmap" where
  "Impl_destroy l m = (case Impl_Unlock l m of (er, l, m) \<Rightarrow> m)"

text \<open>After a successful unlock the pointer is reset, which destroys the implementation.\<close>

definition ObjectLock_Unlock :: "ECObjectLockImpl \<Rightarrow> lockmap \<Rightarrow> ecresult \<times> ECObjectLockImpl option \<times> lockmap" where
  "ObjectLock_Unlock l m =
     (case Impl_Unlock l m of
        (er, l, m) \<Rightarrow> if er = erSuccess then (er, None, Impl_destroy l m) else (er, Some l, m))"

section \<open>The locks of a session\<close>

record ecsession =
  m_sessionID :: sessionid
  m_mapLocks :: "(uint32 \<times> ECObjectLockImpl) list"
  m_ecSecurity :: secctx

definition Session_LockObject :: "uint32 \<Rightarrow> ecsession \<Rightarrow> lockmap \<Rightarrow> ecresult \<times> ecsession \<times> lockmap" where
  "Session_LockObject ulObjId ses m =
     (case map_of (m_mapLocks ses) ulObjId of
        Some _ \<Rightarrow> (erSuccess, ses, m)
      | None \<Rightarrow>
          (case LockObject ulObjId (m_sessionID ses) m of
             (er, l, m) \<Rightarrow> (er, ses\<lparr>m_mapLocks := insort_key fst (ulObjId, l) (m_mapLocks ses)\<rparr>, m)))"

definition Session_UnlockObject :: "uint32 \<Rightarrow> ecsession \<Rightarrow> lockmap \<Rightarrow> ecresult \<times> ecsession \<times> lockmap" where
  "Session_UnlockObject ulObjId ses m =
     (case map_of (m_mapLocks ses) ulObjId of
        None \<Rightarrow> (erSuccess, ses, m)
      | Some l \<Rightarrow>
          (case ObjectLock_Unlock l m of
             (er, l', m) \<Rightarrow>
               (er, ses\<lparr>m_mapLocks := (if er = erSuccess then AList.delete ulObjId (m_mapLocks ses) else m_mapLocks ses)\<rparr>, m)))"

text \<open>The destructor of a session destroys its lock table.\<close>

definition Session_destroy :: "ecsession \<Rightarrow> lockmap \<Rightarrow> lockmap" where
  "Session_destroy ses m = fold (\<lambda>(_, l). Impl_destroy l) (m_mapLocks ses) m"

section \<open>The calls\<close>

text \<open>Locking and unlocking a message; \<open>found\<close> is what the lookup of the entry id gives.\<close>

definition setLockState :: "secenv \<Rightarrow> secdb \<Rightarrow> ecresult + uint32 \<Rightarrow> bool \<Rightarrow> ecsession \<Rightarrow> lockmap \<Rightarrow> ecresult \<times> ecsession \<times> lockmap" where
  "setLockState E db found bLocked ses m =
     (case found of
        Inl er \<Rightarrow> (er, ses, m)
      | Inr ulObjId \<Rightarrow>
          (case GetObject db ulObjId of
             Inl er \<Rightarrow> (er, ses, m)
           | Inr (_, ulOwner, _, ulObjType) \<Rightarrow>
               if ulObjType \<noteq> MAPI_MESSAGE then (KCERR_NO_SUPPORT, ses, m)
               else (case CheckPermission E db ulObjId ecSecurityOwner (m_ecSecurity ses) of
                 (er, c) \<Rightarrow>
                   let ses = ses\<lparr>m_ecSecurity := c\<rparr>
                   in if er \<noteq> erSuccess then (er, ses, m)
                      else if bLocked
                      then (case Session_LockObject ulObjId ses m of
                              (er, ses, m) \<Rightarrow> ((if er = KCERR_NO_ACCESS then KCERR_SUBMITTED else er), ses, m))
                      else Session_UnlockObject ulObjId ses m)))"

text \<open>The test of loadObject: a message locked by another session is not opened.\<close>

definition loadObject_locked :: "uint32 \<Rightarrow> sessionid \<Rightarrow> lockmap \<Rightarrow> ecresult" where
  "loadObject_locked ulObjId ulSessionId m =
     (case IsLocked ulObjId m of
        None \<Rightarrow> erSuccess
      | Some ulLockedSessionId \<Rightarrow> if ulLockedSessionId \<noteq> ulSessionId then KCERR_NO_ACCESS else erSuccess)"

section \<open>The server\<close>

record lockserver =
  locks :: lockmap
  sessions :: "sessionid \<rightharpoonup> ecsession"

definition start :: lockserver where "start = \<lparr>locks = Map.empty, sessions = Map.empty\<rparr>"

datatype lockevent =
    Logon sessionid
  | SetLock sessionid "ecresult + uint32" bool ecresult
  | Logoff sessionid

text \<open>The database and the answers of the user management may change between two calls.\<close>

inductive lock_step :: "lockserver \<Rightarrow> lockevent \<Rightarrow> lockserver \<Rightarrow> bool" where
  logon: "sessions S sid = None \<Longrightarrow>
    lock_step S (Logon sid) (S\<lparr>sessions := (sessions S)(sid \<mapsto> \<lparr>m_sessionID = sid, m_mapLocks = [], m_ecSecurity = c\<rparr>)\<rparr>)"
| call: "sessions S sid = Some ses \<Longrightarrow> setLockState E db found b ses (locks S) = (er, ses', m) \<Longrightarrow>
    lock_step S (SetLock sid found b er) \<lparr>locks = m, sessions = (sessions S)(sid \<mapsto> ses')\<rparr>"
| logoff: "sessions S sid = Some ses \<Longrightarrow>
    lock_step S (Logoff sid) \<lparr>locks = Session_destroy ses (locks S), sessions = (sessions S)(sid := None)\<rparr>"

inductive_cases lock_stepE: "lock_step S ev S'"

end
