(* ===== verification/LocksSpec.thy ===== *)
theory LocksSpec
  imports Locks SecuritySpec
begin

text \<open>
  Properties of message locks: the invariant that ties the lock manager to the sessions, exclusion
  between sessions, and what a second attempt at a refused lock gives.
\<close>

section \<open>The invariant\<close>

definition handle_ok :: "sessionid \<Rightarrow> uint32 \<times> ECObjectLockImpl \<Rightarrow> bool" where
  "handle_ok sid e \<longleftrightarrow> m_ptrLockManager (snd e) \<and> m_ulObjId (snd e) = fst e \<and> m_sessionId (snd e) = sid"

definition session_ok :: "sessionid \<Rightarrow> ecsession \<Rightarrow> bool" where
  "session_ok sid ses \<longleftrightarrow> m_sessionID ses = sid \<and> distinct (map fst (m_mapLocks ses)) \<and>
     (\<forall>e \<in> set (m_mapLocks ses). handle_ok sid e)"

definition tried :: "ecsession \<Rightarrow> uint32 set" where
  "tried ses = fst ` set (m_mapLocks ses)"

definition lock_inv :: "lockserver \<Rightarrow> bool" where
  "lock_inv S \<longleftrightarrow> (\<forall>sid ses. sessions S sid = Some ses \<longrightarrow> session_ok sid ses) \<and>
     (\<forall>o' sid. locks S o' = Some sid \<longrightarrow> (\<exists>ses. sessions S sid = Some ses \<and> o' \<in> tried ses))"

lemma map_of_tried: "map_of (m_mapLocks ses) o' = None \<longleftrightarrow> o' \<notin> tried ses"
  by (simp add: tried_def map_of_eq_None_iff)

lemma set_insort_fst [simp]: "set (insort_key fst x xs) = insert x (set xs)"
  by (rule set_insort_key)

lemma distinct_insort_fst:
  "distinct (map fst (insort_key fst x xs)) \<longleftrightarrow> fst x \<notin> fst ` set xs \<and> distinct (map fst xs)"
  by (induction xs) auto

lemma Session_LockObject_spec:
  assumes "session_ok sid ses" "Session_LockObject o' ses m = (er, ses', m')"
  shows "session_ok sid ses'" "tried ses' = insert o' (tried ses)"
    "m' = (if o' \<in> tried ses \<or> m o' \<noteq> None then m else m(o' \<mapsto> sid))"
    "er = (if o' \<in> tried ses \<or> m o' \<in> {None, Some sid} then erSuccess else KCERR_NO_ACCESS)"
proof -
  have "session_ok sid ses' \<and> tried ses' = insert o' (tried ses) \<and> m' = (if o' \<in> tried ses \<or> m o' \<noteq> None then m else m(o' \<mapsto> sid)) \<and>
     er = (if o' \<in> tried ses \<or> m o' \<in> {None, Some sid} then erSuccess else KCERR_NO_ACCESS)"
  proof (cases "o' \<in> tried ses")
    case True
    then have "map_of (m_mapLocks ses) o' \<noteq> None" by (simp only: map_of_tried not_not)
    then show ?thesis using assms True by (auto simp: Session_LockObject_def)
  next
    case False
    then have "map_of (m_mapLocks ses) o' = None" by (simp add: map_of_tried)
    then show ?thesis using assms False
      by (auto simp: Session_LockObject_def LockObject_def session_ok_def handle_ok_def tried_def distinct_insort_fst Let_def
          split: option.splits if_splits)
  qed
  then show "session_ok sid ses'" "tried ses' = insert o' (tried ses)"
    "m' = (if o' \<in> tried ses \<or> m o' \<noteq> None then m else m(o' \<mapsto> sid))"
    "er = (if o' \<in> tried ses \<or> m o' \<in> {None, Some sid} then erSuccess else KCERR_NO_ACCESS)"
    by blast+
qed

lemma Session_UnlockObject_spec:
  assumes "session_ok sid ses" "Session_UnlockObject o' ses m = (er, ses', m')"
  shows "session_ok sid ses'" "tried ses' = (if o' \<in> tried ses \<and> m o' = Some sid then tried ses - {o'} else tried ses)"
    "m' = (if o' \<in> tried ses \<and> m o' = Some sid then m(o' := None) else m)"
proof -
  have "session_ok sid ses' \<and> tried ses' = (if o' \<in> tried ses \<and> m o' = Some sid then tried ses - {o'} else tried ses) \<and>
    m' = (if o' \<in> tried ses \<and> m o' = Some sid then m(o' := None) else m)"
  proof (cases "map_of (m_mapLocks ses) o'")
    case None
    then have "o' \<notin> tried ses" using map_of_tried [of ses o'] by blast
    then show ?thesis using assms None by (simp add: Session_UnlockObject_def)
  next
    case (Some l)
    then have t: "o' \<in> tried ses" using map_of_tried [of ses o'] by simp
    have l: "handle_ok sid (o', l)" using assms(1) map_of_SomeD [OF Some] by (auto simp: session_ok_def)
    have k: "fst ` (set (m_mapLocks ses) - {x \<in> set (m_mapLocks ses). fst x = o'}) = fst ` set (m_mapLocks ses) - {o'}" by auto
    show ?thesis
    proof (cases "m o' = Some sid")
      case True
      then have "er = erSuccess" "ses' = ses\<lparr>m_mapLocks := AList.delete o' (m_mapLocks ses)\<rparr>" "m' = m(o' := None)"
        using assms(2) Some l
        by (auto simp: Session_UnlockObject_def ObjectLock_Unlock_def Impl_Unlock_def Impl_destroy_def UnlockObject_def handle_ok_def)
      then show ?thesis using assms(1) True t
        using distinct_map_filter [of fst "m_mapLocks ses" "\<lambda>(k', _). o' \<noteq> k'"]
        by (auto simp: session_ok_def tried_def AList.delete_eq)
    next
      case False
      then show ?thesis using assms Some l
        by (auto simp: Session_UnlockObject_def ObjectLock_Unlock_def Impl_Unlock_def UnlockObject_def handle_ok_def split: option.splits if_splits)
    qed
  qed
  then show "session_ok sid ses'" "tried ses' = (if o' \<in> tried ses \<and> m o' = Some sid then tried ses - {o'} else tried ses)"
    "m' = (if o' \<in> tried ses \<and> m o' = Some sid then m(o' := None) else m)"
    by blast+
qed

lemma Impl_destroy_spec:
  assumes "handle_ok sid e"
  shows "Impl_destroy (snd e) m = (if m (fst e) = Some sid then m(fst e := None) else m)"
  using assms by (auto simp: Impl_destroy_def Impl_Unlock_def UnlockObject_def handle_ok_def split: option.splits)

lemma Session_destroy_spec:
  assumes "session_ok sid ses"
  shows "Session_destroy ses m o' = (if o' \<in> tried ses \<and> m o' = Some sid then None else m o')"
proof -
  have "fold (\<lambda>(_, l). Impl_destroy l) es m o' = (if o' \<in> fst ` set es \<and> m o' = Some sid then None else m o')"
    if "\<forall>e \<in> set es. handle_ok sid e" for es
    using that
  proof (induction es arbitrary: m)
    case (Cons e es)
    then show ?case using Impl_destroy_spec [of sid e m] by (cases e) auto
  qed simp
  then show ?thesis using assms by (simp add: Session_destroy_def tried_def session_ok_def)
qed

lemma setLockState_spec:
  assumes "session_ok sid ses" "setLockState E db found b ses m = (er, ses', m')"
  shows "session_ok sid ses' \<and>
    ((ses' = ses\<lparr>m_ecSecurity := m_ecSecurity ses'\<rparr> \<and> m' = m \<and> (\<forall>o'. found = Inr o' \<longrightarrow> er \<noteq> erSuccess)) \<or>
     (\<exists>o' ses1 er1. found = Inr o' \<and> session_ok sid ses1 \<and> tried ses1 = tried ses \<and> b \<and>
        Session_LockObject o' ses1 m = (er1, ses', m') \<and> er = (if er1 = KCERR_NO_ACCESS then KCERR_SUBMITTED else er1)) \<or>
     (\<exists>o' ses1. found = Inr o' \<and> session_ok sid ses1 \<and> tried ses1 = tried ses \<and> \<not> b \<and> Session_UnlockObject o' ses1 m = (er, ses', m')))"
proof (cases found)
  case (Inl e)
  then show ?thesis using assms by (simp add: setLockState_def)
next
  case (Inr o')
  have sec: "session_ok sid (ses\<lparr>m_ecSecurity := c\<rparr>)" "tried (ses\<lparr>m_ecSecurity := c\<rparr>) = tried ses" for c
    using assms(1) by (simp_all add: session_ok_def tried_def)
  show ?thesis
  proof (cases "\<exists>p ow f c. GetObject db o' = Inr (p, ow, f, MAPI_MESSAGE) \<and>
      CheckPermission E db o' ecSecurityOwner (m_ecSecurity ses) = (erSuccess, c)")
    case False
    then show ?thesis using assms(2) Inr sec assms(1)
      by (auto simp: setLockState_def GetObject_def Let_def split: option.splits sum.splits if_splits prod.splits)
  next
    case True
    then obtain p ow f c where g: "GetObject db o' = Inr (p, ow, f, MAPI_MESSAGE)"
        "CheckPermission E db o' ecSecurityOwner (m_ecSecurity ses) = (erSuccess, c)" by blast
    let ?ses = "ses\<lparr>m_ecSecurity := c\<rparr>"
    show ?thesis
    proof (cases b)
      case True
      obtain er1 where r: "Session_LockObject o' ?ses m = (er1, ses', m')" "er = (if er1 = KCERR_NO_ACCESS then KCERR_SUBMITTED else er1)"
        using assms(2) g True Inr by (auto simp: setLockState_def Let_def split: prod.splits)
      then show ?thesis using Session_LockObject_spec(1) [OF sec(1) r(1)] sec True Inr by blast
    next
      case False
      have r: "Session_UnlockObject o' ?ses m = (er, ses', m')" using assms(2) g False Inr by (simp add: setLockState_def)
      then show ?thesis using Session_UnlockObject_spec(1) [OF sec(1) r] sec False Inr by auto
    qed
  qed
qed

text \<open>What a call does to the lock manager and to the objects the session has tried.\<close>

lemma setLockState_effect:
  assumes "session_ok sid ses" "setLockState E db found b ses m = (er, ses', m')"
  shows "session_ok sid ses'"
    "(m' = m \<and> tried ses' = tried ses \<and> (b \<longrightarrow> (\<forall>o'. found = Inr o' \<longrightarrow> er \<noteq> erSuccess))) \<or>
     (\<exists>o'. found = Inr o' \<and> b \<and> tried ses' = insert o' (tried ses) \<and> m' = (if o' \<in> tried ses \<or> m o' \<noteq> None then m else m(o' \<mapsto> sid)) \<and>
        er = (if o' \<in> tried ses \<or> m o' \<in> {None, Some sid} then erSuccess else KCERR_SUBMITTED)) \<or>
     (\<exists>o'. found = Inr o' \<and> \<not> b \<and> o' \<in> tried ses \<and> m o' = Some sid \<and> tried ses' = tried ses - {o'} \<and> m' = m(o' := None))"
proof -
  show "session_ok sid ses'" using setLockState_spec [OF assms] by blast
  from setLockState_spec [OF assms] consider
    "ses' = ses\<lparr>m_ecSecurity := m_ecSecurity ses'\<rparr>" "m' = m" "\<forall>o'. found = Inr o' \<longrightarrow> er \<noteq> erSuccess"
    | (lock) o' ses1 er1 where "found = Inr o'" "session_ok sid ses1" "tried ses1 = tried ses" b
        "Session_LockObject o' ses1 m = (er1, ses', m')" "er = (if er1 = KCERR_NO_ACCESS then KCERR_SUBMITTED else er1)"
    | (unlock) o' ses1 where "found = Inr o'" "session_ok sid ses1" "tried ses1 = tried ses" "\<not> b" "Session_UnlockObject o' ses1 m = (er, ses', m')"
    by blast
  then show "(m' = m \<and> tried ses' = tried ses \<and> (b \<longrightarrow> (\<forall>o'. found = Inr o' \<longrightarrow> er \<noteq> erSuccess))) \<or>
     (\<exists>o'. found = Inr o' \<and> b \<and> tried ses' = insert o' (tried ses) \<and> m' = (if o' \<in> tried ses \<or> m o' \<noteq> None then m else m(o' \<mapsto> sid)) \<and>
        er = (if o' \<in> tried ses \<or> m o' \<in> {None, Some sid} then erSuccess else KCERR_SUBMITTED)) \<or>
     (\<exists>o'. found = Inr o' \<and> \<not> b \<and> o' \<in> tried ses \<and> m o' = Some sid \<and> tried ses' = tried ses - {o'} \<and> m' = m(o' := None))"
  proof cases
    case 1
    have "tried (ses\<lparr>m_ecSecurity := c\<rparr>) = tried ses" for c by (simp add: tried_def)
    then have "tried ses' = tried ses" by (subst 1(1))
    then show ?thesis using 1 by blast
  next
    case lock
    then show ?thesis using Session_LockObject_spec [OF lock(2,5)] by auto
  next
    case unlock
    then show ?thesis using Session_UnlockObject_spec [OF unlock(2,5)] by auto
  qed
qed

lemma lock_inv_call:
  assumes "lock_inv S" "sessions S sid = Some ses" "setLockState E db found b ses (locks S) = (er, ses', m)"
  shows "lock_inv \<lparr>locks = m, sessions = (sessions S)(sid \<mapsto> ses')\<rparr>"
proof -
  have ok: "session_ok sid ses" using assms(1,2) by (simp add: lock_inv_def)
  have "\<exists>ses2. ((sessions S)(sid \<mapsto> ses')) s = Some ses2 \<and> o' \<in> tried ses2" if "m o' = Some s" for o' s
    using setLockState_effect(2) [OF ok assms(3)] that assms(1,2) unfolding lock_inv_def
    by (elim disjE exE conjE) (auto split: if_splits, (metis option.inject)+)
  moreover have "session_ok s ses2" if "((sessions S)(sid \<mapsto> ses')) s = Some ses2" for s ses2
    using that setLockState_effect(1) [OF ok assms(3)] assms(1) by (auto simp: lock_inv_def split: if_splits)
  ultimately show ?thesis by (simp add: lock_inv_def)
qed

interpretation server: invariant_of lock_step start lock_inv
proof unfold_locales
  show "lock_inv start" by (simp add: lock_inv_def start_def)
  fix S ev T assume "lock_inv S" "lock_step S ev T"
  from \<open>lock_step S ev T\<close> show "lock_inv T"
  proof cases
    case (logon sid c)
    show ?thesis unfolding logon(2) using \<open>lock_inv S\<close> logon(3) unfolding lock_inv_def
      by (auto simp: session_ok_def split: if_splits) (metis option.distinct(1))
  next
    case (call sid ses E db found b er ses' m)
    then show ?thesis using lock_inv_call \<open>lock_inv S\<close> by blast
  next
    case (logoff sid ses)
    have "session_ok sid ses" using logoff \<open>lock_inv S\<close> by (simp add: lock_inv_def)
    then have d: "Session_destroy ses (locks S) o' = Some s \<longleftrightarrow> locks S o' = Some s \<and> \<not> (o' \<in> tried ses \<and> s = sid)" for o' s
      by (auto simp: Session_destroy_spec)
    have "\<exists>ses2. ((sessions S)(sid := None)) s = Some ses2 \<and> o' \<in> tried ses2" if "Session_destroy ses (locks S) o' = Some s" for o' s
      using that \<open>lock_inv S\<close> logoff(3) unfolding d lock_inv_def by fastforce
    then show ?thesis using \<open>lock_inv S\<close> unfolding logoff(2) lock_inv_def by simp
  qed
qed

section \<open>Exclusion\<close>

text \<open>
  C22: A lock always belongs to a session that exists and holds it in its own table, so no lock outlives
  its session.
\<close>

theorem locks_belong_to_sessions:
  assumes "reachable lock_step start S" "locks S o' = Some sid"
  shows "\<exists>ses l. sessions S sid = Some ses \<and> map_of (m_mapLocks ses) o' = Some l \<and> m_ptrLockManager l \<and> m_sessionId l = sid"
proof -
  have inv: "lock_inv S" by (rule server.holds [OF assms(1)])
  then obtain ses where ses: "sessions S sid = Some ses" "o' \<in> tried ses" using assms(2) unfolding lock_inv_def by blast
  then obtain l where l: "map_of (m_mapLocks ses) o' = Some l" using map_of_tried [of ses o'] by blast
  have "handle_ok sid (o', l)" using inv ses(1) map_of_SomeD [OF l] by (auto simp: lock_inv_def session_ok_def)
  then show ?thesis using ses l by (auto simp: handle_ok_def)
qed

lemma lock_kept:
  assumes "lock_inv S" "lock_step S ev T" "locks S o' = Some sid" "\<forall>er. ev \<noteq> SetLock sid (Inr o') False er" "ev \<noteq> Logoff sid"
  shows "locks T o' = Some sid"
  using assms(2)
proof cases
  case (logon s c)
  then show ?thesis using assms(3) by simp
next
  case (call s ses E db found b er ses' m)
  have "session_ok s ses" using call(3) assms(1) by (simp add: lock_inv_def)
  from setLockState_effect(2) [OF this call(4)] consider "m = locks S"
    | (lock) o1 where "m = (if o1 \<in> tried ses \<or> locks S o1 \<noteq> None then locks S else (locks S)(o1 \<mapsto> s))"
    | (unlock) o1 where "found = Inr o1" "\<not> b" "locks S o1 = Some s" "m = (locks S)(o1 := None)"
    by blast
  then have "m o' = Some sid"
  proof cases
    case 1
    then show ?thesis using assms(3) by simp
  next
    case lock
    then show ?thesis using assms(3) by (cases "o1 = o'") simp_all
  next
    case unlock
    then show ?thesis using assms(3,4) call(1) by (cases "o1 = o'") auto
  qed
  then show ?thesis using call(2) by simp
next
  case (logoff s ses)
  have "session_ok s ses" using logoff(3) assms(1) by (simp add: lock_inv_def)
  then show ?thesis using logoff assms(3,5) by (simp add: Session_destroy_spec)
qed

text \<open>
  C21: Once a session's first attempt to lock a message succeeded, and as long as it neither asks to unlock
  it nor ends, the message stays locked by it: whatever all the other sessions do, none of them opens
  the message, and none of them locks it at its first attempt.
\<close>

theorem lock_is_exclusive:
  assumes "reachable lock_step start S" "sessions S sid = Some ses" "map_of (m_mapLocks ses) o' = None"
    "setLockState E db (Inr o') True ses (locks S) = (erSuccess, ses', m)"
    "steps lock_step \<lparr>locks = m, sessions = (sessions S)(sid \<mapsto> ses')\<rparr> evs T"
    "\<forall>er. SetLock sid (Inr o') False er \<notin> set evs" "Logoff sid \<notin> set evs"
    "sid2 \<noteq> sid"
  shows "loadObject_locked o' sid2 (locks T) = KCERR_NO_ACCESS \<and>
    (\<forall>ses2 E2 db2. sessions T sid2 = Some ses2 \<longrightarrow> map_of (m_mapLocks ses2) o' = None \<longrightarrow>
       fst (setLockState E2 db2 (Inr o') True ses2 (locks T)) \<noteq> erSuccess)"
proof -
  let ?S = "\<lparr>locks = m, sessions = (sessions S)(sid \<mapsto> ses')\<rparr>"
  have inv: "lock_inv S" by (rule server.holds [OF assms(1)])
  have ok: "session_ok sid ses" using inv assms(2) by (simp add: lock_inv_def)
  have t: "o' \<notin> tried ses" using map_of_tried [of ses o'] assms(3) by blast
  then have "locks S o' \<noteq> Some sid" using inv assms(2) by (fastforce simp: lock_inv_def)
  then have "m o' = Some sid" using setLockState_effect(2) [OF ok assms(4)] t by (auto split: if_splits)
  then have start: "lock_inv ?S \<and> locks ?S o' = Some sid" using lock_inv_call [OF inv assms(2,4)] by simp
  have "\<forall>ev \<in> set evs. (\<forall>er. ev \<noteq> SetLock sid (Inr o') False er) \<and> ev \<noteq> Logoff sid" using assms(6,7) by blast
  from steps_keep [OF assms(5), of "\<lambda>S. lock_inv S \<and> locks S o' = Some sid", OF start this]
  have "lock_inv T \<and> locks T o' = Some sid" using lock_kept server.kept by blast
  then have T: "lock_inv T" "locks T o' = Some sid" by blast+
  have "fst (setLockState E2 db2 (Inr o') True ses2 (locks T)) \<noteq> erSuccess"
    if s2: "sessions T sid2 = Some ses2" "map_of (m_mapLocks ses2) o' = None" for ses2 E2 db2
  proof -
    obtain er s3 m3 where r: "setLockState E2 db2 (Inr o') True ses2 (locks T) = (er, s3, m3)" by (metis prod_cases3)
    have "session_ok sid2 ses2" using T(1) s2(1) by (simp add: lock_inv_def)
    from setLockState_effect(2) [OF this r] show ?thesis
      using T(2) assms(8) r map_of_tried [of ses2 o'] s2(2) by auto
  qed
  then show ?thesis using T(2) assms(8) by (simp add: loadObject_locked_def IsLocked_def)
qed

text \<open>
  A session that is refused a lock because another session holds it, and simply asks again, is told that
  it has the lock, while the lock stays with the other session.
\<close>

lemma refused_lock_then_granted:
  assumes "reachable lock_step start S" "locks S o' = Some sid" "sid2 \<noteq> sid"
    "sessions S sid2 = Some ses" "map_of (m_mapLocks ses) o' = None"
    "GetObject db o' = Inr (p, ow, f, MAPI_MESSAGE)"
    "CheckPermission E db o' ecSecurityOwner (m_ecSecurity ses) = (erSuccess, c)"
    "CheckPermission E db o' ecSecurityOwner c = (erSuccess, c2)"
  shows "\<exists>ses2 ses3. setLockState E db (Inr o') True ses (locks S) = (KCERR_SUBMITTED, ses2, locks S) \<and>
    setLockState E db (Inr o') True ses2 (locks S) = (erSuccess, ses3, locks S) \<and>
    loadObject_locked o' sid2 (locks S) = KCERR_NO_ACCESS"
proof -
  have ok: "session_ok sid2 ses" using server.holds [OF assms(1)] assms(4) by (simp add: lock_inv_def)
  let ?ses = "ses\<lparr>m_ecSecurity := c\<rparr>"
  let ?ses2 = "?ses\<lparr>m_mapLocks := insort_key fst (o', \<lparr>m_ptrLockManager = True, m_ulObjId = o', m_sessionId = sid2\<rparr>) (m_mapLocks ses)\<rparr>"
  have "Session_LockObject o' ?ses (locks S) = (KCERR_NO_ACCESS, ?ses2, locks S)"
    using ok assms(2,3,5) by (simp add: Session_LockObject_def LockObject_def session_ok_def)
  then have "setLockState E db (Inr o') True ses (locks S) = (KCERR_SUBMITTED, ?ses2, locks S)"
    using assms(6,7) by (simp add: setLockState_def)
  moreover have "map_of (m_mapLocks ?ses2) o' \<noteq> None" by (simp add: map_of_eq_None_iff)
  then have "setLockState E db (Inr o') True ?ses2 (locks S) = (erSuccess, ?ses2\<lparr>m_ecSecurity := c2\<rparr>, locks S)"
    using assms(6,8) by (auto simp: setLockState_def Session_LockObject_def)
  ultimately show ?thesis using assms(2,3) by (auto simp: loadObject_locked_def IsLocked_def)
qed

section \<open>Witnesses\<close>

text \<open>Sessions 7 and 8 of the server's own user, and a message 4.\<close>

definition msg_db :: secdb where
  "msg_db = \<lparr>hierarchy = [4 \<mapsto> \<lparr>h_parent = Some 1, h_owner = 5, h_flags = 0, h_type = MAPI_MESSAGE\<rparr>], stores = Map.empty, acl = []\<rparr>"

definition system_ctx :: secctx where "system_ctx = demo_ctx\<lparr>m_ulUserID := KOPANO_UID_SYSTEM\<rparr>"

definition fresh :: "sessionid \<Rightarrow> ecsession" where
  "fresh sid = \<lparr>m_sessionID = sid, m_mapLocks = [], m_ecSecurity = system_ctx\<rparr>"

definition demo_locked :: lockserver where
  "demo_locked = \<lparr>locks = [4 \<mapsto> 7], sessions = [8 \<mapsto> fresh 8,
     7 \<mapsto> (fresh 7)\<lparr>m_mapLocks := [(4, \<lparr>m_ptrLockManager = True, m_ulObjId = 4, m_sessionId = 7\<rparr>)]\<rparr>]\<rparr>"

lemma system_permission: "CheckPermission E db o' ecSecurityOwner system_ctx = (erSuccess, system_ctx)"
  by (simp add: CheckPermission_def access_decision_def system_ctx_def writes_def)

lemma msg_object: "GetObject msg_db 4 = Inr (1, 5, 0, MAPI_MESSAGE)"
  by (simp add: GetObject_def msg_db_def)

lemma demo_call: "setLockState demo_env msg_db (Inr 4) True (fresh 7) Map.empty =
    (erSuccess, the (sessions demo_locked 7), [4 \<mapsto> 7])"
  by (simp add: setLockState_def msg_object fresh_def system_permission Session_LockObject_def LockObject_def demo_locked_def)

definition demo_open :: lockserver where "demo_open = \<lparr>locks = Map.empty, sessions = [7 \<mapsto> fresh 7, 8 \<mapsto> fresh 8]\<rparr>"

lemma demo_open_reachable: "reachable lock_step start demo_open"
proof -
  from reachable_step [OF reachable_start [of lock_step start] logon [of start 7 system_ctx]]
  have "reachable lock_step start \<lparr>locks = Map.empty, sessions = [7 \<mapsto> fresh 7]\<rparr>" by (simp add: start_def fresh_def)
  from reachable_step [OF this logon [of _ 8 system_ctx]] show ?thesis by (simp add: demo_open_def fresh_def)
qed

lemma demo_locked_step: "lock_step demo_open (SetLock 7 (Inr 4) True erSuccess) demo_locked"
proof -
  have "lock_step demo_open (SetLock 7 (Inr 4) True erSuccess)
      \<lparr>locks = [4 \<mapsto> 7], sessions = (sessions demo_open)(7 \<mapsto> the (sessions demo_locked 7))\<rparr>"
    by (rule call [of _ _ "fresh 7" demo_env msg_db]) (simp_all add: demo_open_def demo_call)
  moreover have "(sessions demo_open)(7 \<mapsto> the (sessions demo_locked 7)) = sessions demo_locked"
    by (auto simp: demo_open_def demo_locked_def)
  ultimately show ?thesis by (simp add: demo_locked_def)
qed

theorem locks_belong_to_sessions_witness:
  "\<exists>ses l. sessions demo_locked 7 = Some ses \<and> map_of (m_mapLocks ses) 4 = Some l \<and> m_ptrLockManager l \<and> m_sessionId l = 7"
  by (rule locks_belong_to_sessions [OF reachable_step [OF demo_open_reachable demo_locked_step]]) (simp add: demo_locked_def)

theorem lock_is_exclusive_witness:
  "loadObject_locked 4 8 (locks demo_locked) = KCERR_NO_ACCESS \<and>
   fst (setLockState demo_env msg_db (Inr 4) True (fresh 8) (locks demo_locked)) \<noteq> erSuccess"
proof -
  have s: "\<lparr>locks = [4 \<mapsto> 7], sessions = (sessions demo_open)(7 \<mapsto> the (sessions demo_locked 7))\<rparr> = demo_locked"
    by (auto simp: demo_open_def demo_locked_def)
  have o: "sessions demo_open 7 = Some (fresh 7)" "locks demo_open = Map.empty" "map_of (m_mapLocks (fresh 7)) 4 = None"
    by (simp_all add: demo_open_def fresh_def)
  have "setLockState demo_env msg_db (Inr 4) True (fresh 7) (locks demo_open) = (erSuccess, the (sessions demo_locked 7), [4 \<mapsto> 7])"
    by (simp add: demo_call o)
  from lock_is_exclusive [OF demo_open_reachable o(1,3) this, of "[]" demo_locked 8]
  have "loadObject_locked 4 8 (locks demo_locked) = KCERR_NO_ACCESS \<and>
    (\<forall>ses2 E2 db2. sessions demo_locked 8 = Some ses2 \<longrightarrow> map_of (m_mapLocks ses2) 4 = None \<longrightarrow>
       fst (setLockState E2 db2 (Inr 4) True ses2 (locks demo_locked)) \<noteq> erSuccess)"
    by (simp add: s)
  moreover have "sessions demo_locked 8 = Some (fresh 8)" "map_of (m_mapLocks (fresh 8)) 4 = None"
    by (simp_all add: demo_locked_def fresh_def)
  ultimately show ?thesis by blast
qed

end
