(* ===== verification/Fifo.thy ===== *)
theory Fifo
  imports Steps
begin

text \<open>
  The blocking byte buffer between two threads (class ECFifoBuffer, common/ECFifoBuffer.cpp, .h), as a
  step relation over any number of threads. What a call does while it holds the mutex is one step:
  from taking the mutex to waiting on a condition or leaving. The test for a closed buffer at the
  start of a call runs without the mutex and is a step of its own. Waiting threads wake up because
  they were chosen by a notification, because their time is over, or for no reason; a thread that was
  chosen does not time out as well.

  Sizes are natural numbers and allocations succeed; the buffers given are not larger than memory.
\<close>

record fifo =
  m_storage :: bytes
  m_ulMaxSize :: nat
  m_bReaderClosed :: bool
  m_bWriterClosed :: bool

definition IsEmpty :: "fifo \<Rightarrow> bool" where "IsEmpty q \<longleftrightarrow> m_storage q = []"
definition IsFull :: "fifo \<Rightarrow> bool" where "IsFull q \<longleftrightarrow> length (m_storage q) = m_ulMaxSize q"

section \<open>The loops under the mutex\<close>

datatype outcome = Wait | Exit ecresult

text \<open>The outcome, the bytes written so far, the number of notifications of the readers, the buffer.\<close>

partial_function (option) write_section :: "bytes \<Rightarrow> nat \<Rightarrow> nat \<Rightarrow> fifo \<Rightarrow> (outcome \<times> nat \<times> nat \<times> fifo) option" where
  "write_section buf cbWritten k q =
     (if cbWritten < length buf then
        if IsFull q then Some ((if m_bReaderClosed q then Exit KCERR_NETWORK_ERROR else Wait), cbWritten, k, q)
        else let cbNow = min (length buf - cbWritten) (m_ulMaxSize q - length (m_storage q))
             in write_section buf (cbWritten + cbNow) (Suc k) (q\<lparr>m_storage := m_storage q @ take cbNow (drop cbWritten buf)\<rparr>)
      else Some (Exit erSuccess, cbWritten, k, q))"

text \<open>The bytes read so far stand for \<open>lpBuf\<close> and \<open>cbRead\<close>.\<close>

function read_section :: "nat \<Rightarrow> bytes \<Rightarrow> nat \<Rightarrow> fifo \<Rightarrow> outcome \<times> bytes \<times> nat \<times> fifo" where
  "read_section cbBuf got k q =
     (if length got < cbBuf then
        if IsEmpty q then ((if m_bWriterClosed q then Exit erSuccess else Wait), got, k, q)
        else let cbNow = min (cbBuf - length got) (length (m_storage q))
             in read_section cbBuf (got @ take cbNow (m_storage q)) (Suc k) (q\<lparr>m_storage := drop cbNow (m_storage q)\<rparr>)
      else (Exit erSuccess, got, k, q))"
  by pat_completeness auto
termination
  by (relation "measure (\<lambda>(cb, got, k, q). cb - length got)") (auto simp: IsEmpty_def min_def intro!: diff_less_mono2)

declare read_section.simps [simp del]

section \<open>Threads\<close>

datatype thread =
    Idle
  | WRun bytes nat nat    \<comment> \<open>buffer, bytes written, timeout\<close>
  | WWait bytes nat nat
  | RRun nat bytes nat    \<comment> \<open>size of the buffer, bytes read, timeout\<close>
  | RWait nat bytes nat
  | FRun
  | FWait

record system =
  buffer :: fifo
  threads :: "nat \<Rightarrow> thread"

fun wake :: "thread \<Rightarrow> thread" where
  "wake (WWait b n t) = WRun b n t"
| "wake (RWait c g t) = RRun c g t"
| "wake FWait = FRun"
| "wake th = th"

fun waits_NotFull :: "thread \<Rightarrow> bool" where "waits_NotFull (WWait _ _ _) = True" | "waits_NotFull _ = False"
fun waits_NotEmpty :: "thread \<Rightarrow> bool" where "waits_NotEmpty (RWait _ _ _) = True" | "waits_NotEmpty _ = False"
fun waits_Flushed :: "thread \<Rightarrow> bool" where "waits_Flushed FWait = True" | "waits_Flushed _ = False"

text \<open>\<open>k\<close> calls of notify_one on a condition: each picks one waiting thread, if there is one.\<close>

inductive notify :: "(thread \<Rightarrow> bool) \<Rightarrow> nat \<Rightarrow> (nat \<Rightarrow> thread) \<Rightarrow> (nat \<Rightarrow> thread) \<Rightarrow> bool" for waits where
  notify_0: "notify waits 0 ts ts"
| notify_none: "\<forall>t. \<not> waits (ts t) \<Longrightarrow> notify waits (Suc k) ts ts"
| notify_one: "waits (ts t) \<Longrightarrow> notify waits k (ts(t := wake (ts t))) ts' \<Longrightarrow> notify waits (Suc k) ts ts'"

text \<open>What the caller finds in \<open>lpcbWritten\<close> or \<open>lpcbRead\<close>, where it is set.\<close>

definition reported :: "ecresult \<Rightarrow> nat \<Rightarrow> nat option" where
  "reported er n = (if er = erSuccess \<or> er = KCERR_TIMEOUT then Some n else None)"

datatype event =
    CallWrite nat "bytes option" nat "(ecresult \<times> nat option) option"
  | RunWrite nat bytes bytes "(ecresult \<times> nat option) option"
  | CallRead nat "nat option" nat "(ecresult \<times> nat option) option"
  | RunRead nat nat bytes "(ecresult \<times> bytes \<times> nat option) option"
  | Timeout nat ecresult "nat option"
  | CallClose bool bool
  | CallFlush nat "ecresult option"
  | RunFlush nat "ecresult option"
  | Wakeup nat

section \<open>Calls\<close>

text \<open>The part of Write and Read before the mutex is taken: a result, or nothing.\<close>

definition enter_Write :: "fifo \<Rightarrow> bytes option \<Rightarrow> (ecresult \<times> nat option) option" where
  "enter_Write q lpBuf =
     (case lpBuf of
        None \<Rightarrow> Some (KCERR_INVALID_PARAMETER, None)
      | Some buf \<Rightarrow>
          if m_bWriterClosed q then Some (KCERR_NETWORK_ERROR, None)
          else if buf = [] then Some (erSuccess, Some 0) else None)"

definition enter_Read :: "fifo \<Rightarrow> nat option \<Rightarrow> (ecresult \<times> nat option) option" where
  "enter_Read q cbBuf =
     (case cbBuf of
        None \<Rightarrow> Some (KCERR_INVALID_PARAMETER, None)
      | Some cb \<Rightarrow>
          if m_bReaderClosed q then Some (KCERR_NETWORK_ERROR, None)
          else if cb = 0 then Some (erSuccess, Some 0) else None)"

definition enter_Flush :: "fifo \<Rightarrow> ecresult option" where
  "enter_Flush q = (if \<not> m_bWriterClosed q then Some KCERR_NETWORK_ERROR else None)"

definition write_result :: "outcome \<Rightarrow> nat \<Rightarrow> (ecresult \<times> nat option) option" where
  "write_result out n = (case out of Wait \<Rightarrow> None | Exit er \<Rightarrow> Some (er, reported er n))"

definition read_result :: "outcome \<Rightarrow> bytes \<Rightarrow> (ecresult \<times> bytes \<times> nat option) option" where
  "read_result out got = (case out of Wait \<Rightarrow> None | Exit er \<Rightarrow> Some (er, got, reported er (length got)))"

text \<open>At the end of Read: whoever waits for the buffer to be flushed is notified.\<close>

definition flushed_now :: "nat \<Rightarrow> bytes \<Rightarrow> fifo \<Rightarrow> nat" where
  "flushed_now cbBuf got q = (if length got = cbBuf \<and> IsEmpty q \<and> m_bWriterClosed q then 1 else 0)"

inductive fifo_step :: "system \<Rightarrow> event \<Rightarrow> system \<Rightarrow> bool" where
  call_write: "threads S t = Idle \<Longrightarrow> enter_Write (buffer S) b = r \<Longrightarrow>
    th = (case r of None \<Rightarrow> WRun (the b) 0 ms | Some _ \<Rightarrow> Idle) \<Longrightarrow>
    fifo_step S (CallWrite t b ms r) (S\<lparr>threads := (threads S)(t := th)\<rparr>)"
| run_write: "threads S t = WRun buf n ms \<Longrightarrow> write_section buf n 0 (buffer S) = Some (out, n', k, q) \<Longrightarrow>
    th = (case out of Wait \<Rightarrow> WWait buf n' ms | Exit _ \<Rightarrow> Idle) \<Longrightarrow>
    notify waits_NotEmpty k ((threads S)(t := th)) ts \<Longrightarrow>
    fifo_step S (RunWrite t buf (take (n' - n) (drop n buf)) (write_result out n')) \<lparr>buffer = q, threads = ts\<rparr>"
| call_read: "threads S t = Idle \<Longrightarrow> enter_Read (buffer S) b = r \<Longrightarrow>
    th = (case r of None \<Rightarrow> RRun (the b) [] ms | Some _ \<Rightarrow> Idle) \<Longrightarrow>
    fifo_step S (CallRead t b ms r) (S\<lparr>threads := (threads S)(t := th)\<rparr>)"
| run_read: "threads S t = RRun cb got ms \<Longrightarrow> read_section cb got 0 (buffer S) = (out, got', k, q) \<Longrightarrow>
    th = (case out of Wait \<Rightarrow> RWait cb got' ms | Exit _ \<Rightarrow> Idle) \<Longrightarrow>
    notify waits_NotFull k ((threads S)(t := th)) ts \<Longrightarrow>
    notify waits_Flushed (flushed_now cb got' q) ts ts' \<Longrightarrow>
    fifo_step S (RunRead t cb (drop (length got) got') (read_result out got')) \<lparr>buffer = q, threads = ts'\<rparr>"
| timeout_write: "threads S t = WWait buf n ms \<Longrightarrow> ms > 0 \<Longrightarrow>
    fifo_step S (Timeout t KCERR_TIMEOUT (reported KCERR_TIMEOUT n)) (S\<lparr>threads := (threads S)(t := Idle)\<rparr>)"
| timeout_read: "threads S t = RWait cb got ms \<Longrightarrow> ms > 0 \<Longrightarrow>
    fifo_step S (Timeout t KCERR_TIMEOUT (reported KCERR_TIMEOUT (length got))) (S\<lparr>threads := (threads S)(t := Idle)\<rparr>)"
| close: "notify waits_NotFull (if cfRead then 1 else 0) (threads S) ts1 \<Longrightarrow>
    notify waits_Flushed (if cfRead \<and> IsEmpty (buffer S) then 1 else 0) ts1 ts2 \<Longrightarrow>
    notify waits_NotEmpty (if cfWrite then 1 else 0) ts2 ts3 \<Longrightarrow>
    fifo_step S (CallClose cfRead cfWrite)
      \<lparr>buffer = (buffer S)\<lparr>m_bReaderClosed := m_bReaderClosed (buffer S) \<or> cfRead,
         m_bWriterClosed := m_bWriterClosed (buffer S) \<or> cfWrite\<rparr>, threads = ts3\<rparr>"
| call_flush: "threads S t = Idle \<Longrightarrow> enter_Flush (buffer S) = r \<Longrightarrow>
    th = (case r of None \<Rightarrow> FRun | Some _ \<Rightarrow> Idle) \<Longrightarrow>
    fifo_step S (CallFlush t r) (S\<lparr>threads := (threads S)(t := th)\<rparr>)"
| run_flush: "threads S t = FRun \<Longrightarrow> p = (m_bWriterClosed (buffer S) \<or> IsEmpty (buffer S)) \<Longrightarrow>
    fifo_step S (RunFlush t (if p then Some erSuccess else None)) (S\<lparr>threads := (threads S)(t := if p then Idle else FWait)\<rparr>)"
| wakeup: "wake (threads S t) \<noteq> threads S t \<Longrightarrow>
    fifo_step S (Wakeup t) (S\<lparr>threads := (threads S)(t := wake (threads S t))\<rparr>)"

definition new_fifo :: "nat \<Rightarrow> system" where
  "new_fifo ulMaxSize = \<lparr>buffer = \<lparr>m_storage = [], m_ulMaxSize = ulMaxSize, m_bReaderClosed = False, m_bWriterClosed = False\<rparr>,
     threads = (\<lambda>_. Idle)\<rparr>"

end
