(* ===== verification/FifoSpec.thy ===== *)
theory FifoSpec
  imports Fifo
begin

text \<open>
  Properties of the blocking buffer: order and completeness of the bytes for any number of threads, the
  absence of lost wake-ups with one reader and one writer, and what Flush promises and does.
\<close>

section \<open>The sections\<close>

text \<open>What a section under the mutex does: the bytes it moves, and why it ends.\<close>

definition wrote :: "bytes \<Rightarrow> nat \<Rightarrow> fifo \<Rightarrow> outcome \<Rightarrow> nat \<Rightarrow> fifo \<Rightarrow> bool" where
  "wrote buf n q out n' q' \<longleftrightarrow> n \<le> n' \<and> n' \<le> length buf \<and>
     q' = q\<lparr>m_storage := m_storage q @ take (n' - n) (drop n buf)\<rparr> \<and> length (m_storage q') \<le> m_ulMaxSize q \<and>
     (n' < length buf \<longrightarrow> IsFull q' \<and> out = (if m_bReaderClosed q then Exit KCERR_NETWORK_ERROR else Wait)) \<and>
     (n' = length buf \<longrightarrow> out = Exit erSuccess)"

lemma wrote_step:
  assumes "wrote buf (n + c) (q\<lparr>m_storage := m_storage q @ take c (drop n buf)\<rparr>) out n' q'"
  shows "wrote buf n q out n' q'"
proof -
  obtain m where m: "n' = n + c + m" using assms by (auto simp: wrote_def le_iff_add)
  have "take c (drop n buf) @ take m (drop (n + c) buf) = take (c + m) (drop n buf)"
    by (simp add: take_add add.commute)
  then show ?thesis using assms by (auto simp: wrote_def m)
qed

lemma write_section_spec:
  assumes "n \<le> length buf" "length (m_storage q) \<le> m_ulMaxSize q"
  shows "\<exists>out n' k' q'. write_section buf n k q = Some (out, n', k', q') \<and> wrote buf n q out n' q' \<and>
    k \<le> k' \<and> (n < n' \<longrightarrow> k < k')"
  using assms
proof (induction "length buf - n" arbitrary: n k q rule: less_induct)
  case less
  show ?case
  proof (cases "n < length buf \<and> \<not> IsFull q")
    case False
    then show ?thesis using less.prems by (subst write_section.simps) (auto simp: wrote_def)
  next
    case True
    define c where "c = min (length buf - n) (m_ulMaxSize q - length (m_storage q))"
    let ?q = "q\<lparr>m_storage := m_storage q @ take c (drop n buf)\<rparr>"
    have c: "length buf - (n + c) < length buf - n" "n + c \<le> length buf" "length (m_storage ?q) \<le> m_ulMaxSize ?q"
      using True less.prems by (auto simp: IsFull_def c_def min_def)
    have "write_section buf n k q = write_section buf (n + c) (Suc k) ?q"
      using True by (subst write_section.simps) (simp add: Let_def c_def)
    then show ?thesis using less.hyps [OF c, of "Suc k"] wrote_step [of buf n c q] by (metis Suc_leD Suc_le_lessD)
  qed
qed

definition did_read :: "nat \<Rightarrow> bytes \<Rightarrow> fifo \<Rightarrow> outcome \<Rightarrow> nat \<Rightarrow> fifo \<Rightarrow> bool" where
  "did_read cb got q out d q' \<longleftrightarrow> d \<le> length (m_storage q) \<and> length got + d \<le> cb \<and> q' = q\<lparr>m_storage := drop d (m_storage q)\<rparr> \<and>
     (length got + d < cb \<longrightarrow> d = length (m_storage q) \<and> out = (if m_bWriterClosed q then Exit erSuccess else Wait)) \<and>
     (length got + d = cb \<longrightarrow> out = Exit erSuccess)"

lemma did_read_step:
  assumes "did_read cb (got @ take c (m_storage q)) (q\<lparr>m_storage := drop c (m_storage q)\<rparr>) out d q'" "c \<le> length (m_storage q)"
  shows "did_read cb got q out (c + d) q'"
  using assms by (auto simp: did_read_def add.commute)

lemma read_section_spec:
  assumes "length got \<le> cb"
  shows "\<exists>out d k' q'. read_section cb got k q = (out, got @ take d (m_storage q), k', q') \<and> did_read cb got q out d q' \<and>
    k \<le> k' \<and> (0 < d \<longrightarrow> k < k')"
  using assms
proof (induction "cb - length got" arbitrary: got k q rule: less_induct)
  case less
  show ?case
  proof (cases "length got < cb \<and> \<not> IsEmpty q")
    case False
    then have "read_section cb got k q = (if length got < cb \<and> \<not> m_bWriterClosed q then Wait else Exit erSuccess, got @ take 0 (m_storage q), k, q)"
      using less.prems by (subst read_section.simps) auto
    moreover have "did_read cb got q (if length got < cb \<and> \<not> m_bWriterClosed q then Wait else Exit erSuccess) 0 q"
      using False less.prems by (auto simp: did_read_def IsEmpty_def)
    ultimately show ?thesis by blast
  next
    case True
    define c where "c = min (cb - length got) (length (m_storage q))"
    let ?g = "got @ take c (m_storage q)" and ?q = "q\<lparr>m_storage := drop c (m_storage q)\<rparr>"
    have cq: "c \<le> length (m_storage q)" by (simp add: c_def)
    have lg: "length ?g = length got + c" using cq by simp
    have "0 < c" using True by (simp add: IsEmpty_def c_def)
    moreover have "c \<le> cb - length got" by (simp add: c_def)
    ultimately have c': "0 < c" "c \<le> cb - length got" by blast+
    then have c: "cb - length ?g < cb - length got" "length ?g \<le> cb"
      unfolding lg using True c' by linarith+
    have e: "read_section cb got k q = read_section cb ?g (Suc k) ?q"
      using True by (subst read_section.simps) (simp add: Let_def c_def)
    obtain out d k' q' where r: "read_section cb ?g (Suc k) ?q = (out, ?g @ take d (m_storage ?q), k', q')"
        "did_read cb ?g ?q out d q'" "Suc k \<le> k'"
      using less.hyps [OF c, of "Suc k" ?q] by blast
    have "?g @ take d (m_storage ?q) = got @ take (c + d) (m_storage q)" by (simp add: take_add)
    with e r(1) have "read_section cb got k q = (out, got @ take (c + d) (m_storage q), k', q')" by simp
    moreover have "did_read cb got q out (c + d) q'" by (rule did_read_step [OF r(2) cq])
    ultimately show ?thesis using r(3) by (metis Suc_leD Suc_le_lessD)
  qed
qed

section \<open>Notifications\<close>

locale condition =
  fixes waits :: "thread \<Rightarrow> bool"
  assumes woken: "waits th \<Longrightarrow> \<not> waits (wake th)"
    and wake_changes: "waits th \<Longrightarrow> wake th \<noteq> th"
begin

lemma notify_at:
  "notify waits k ts ts' \<Longrightarrow> ts' t = ts t \<or> (waits (ts t) \<and> ts' t = wake (ts t))"
proof (induction rule: notify.induct)
  case (notify_one ts u k ts')
  then show ?case using woken [of "ts u"] by (cases "t = u") auto
qed simp_all

lemma notify_wakes:
  assumes "notify waits k ts ts'" "0 < k" "\<And>t u. waits (ts t) \<Longrightarrow> waits (ts u) \<Longrightarrow> t = u"
  shows "\<not> waits (ts' t)"
  using assms(1)
proof cases
  case (notify_one u k')
  then have "\<not> waits ((ts(u := wake (ts u))) v)" for v using woken [of "ts u"] assms(3) [of u v] by (cases "v = u") auto
  then show ?thesis using notify_at [OF notify_one(3), of t] by auto
qed (use assms in auto)

end

interpretation NotFull: condition waits_NotFull
  by unfold_locales (auto elim!: waits_NotFull.elims)

interpretation NotEmpty: condition waits_NotEmpty
  by unfold_locales (auto elim!: waits_NotEmpty.elims)

interpretation Flushed: condition waits_Flushed
  by unfold_locales (auto elim!: waits_Flushed.elims)

lemmas notify_ats = NotFull.notify_at NotEmpty.notify_at Flushed.notify_at

section \<open>Order and completeness\<close>

fun put :: "event \<Rightarrow> bytes" where "put (RunWrite t buf bs r) = bs" | "put _ = []"
fun taken :: "event \<Rightarrow> bytes" where "taken (RunRead t cb bs r) = bs" | "taken _ = []"

lemma run_write_wrote:
  assumes "write_section buf n 0 q = Some (out, n', k, q')" "n \<le> length buf" "length (m_storage q) \<le> m_ulMaxSize q"
  shows "wrote buf n q out n' q'" "n < n' \<longrightarrow> 0 < k"
  using write_section_spec [OF assms(2,3), of 0] assms(1) by auto

lemma run_read_did:
  assumes "read_section cb got 0 q = (out, got', k, q')" "length got \<le> cb"
  obtains d where "got' = got @ take d (m_storage q)" "did_read cb got q out d q'" "0 < d \<longrightarrow> 0 < k"
  using read_section_spec [OF assms(2), of 0 q] assms(1) by auto

text \<open>What a thread has moved in its current call, as its events tell and as its state remembers.\<close>

fun moved :: "nat \<Rightarrow> event \<Rightarrow> bytes \<Rightarrow> bytes" where
  "moved t (CallWrite t' _ _ _) acc = (if t' = t then [] else acc)"
| "moved t (CallRead t' _ _ _) acc = (if t' = t then [] else acc)"
| "moved t (RunWrite t' _ bs _) acc = (if t' = t then acc @ bs else acc)"
| "moved t (RunRead t' _ bs _) acc = (if t' = t then acc @ bs else acc)"
| "moved t _ acc = acc"

fun in_call :: "thread \<Rightarrow> bytes \<Rightarrow> bool" where
  "in_call (WRun buf n _) acc \<longleftrightarrow> n \<le> length buf \<and> acc = take n buf"
| "in_call (WWait buf n _) acc \<longleftrightarrow> n \<le> length buf \<and> acc = take n buf"
| "in_call (RRun cb g _) acc \<longleftrightarrow> length g \<le> cb \<and> acc = g"
| "in_call (RWait cb g _) acc \<longleftrightarrow> length g \<le> cb \<and> acc = g"
| "in_call _ _ \<longleftrightarrow> True"

lemma in_call_wake [simp]: "in_call (wake th) acc \<longleftrightarrow> in_call th acc"
  by (cases th) simp_all

definition tracked :: "nat \<Rightarrow> system \<Rightarrow> bytes \<Rightarrow> bytes \<Rightarrow> (nat \<Rightarrow> bytes) \<Rightarrow> bool" where
  "tracked mx S ins outs acc \<longleftrightarrow> m_ulMaxSize (buffer S) = mx \<and> length (m_storage (buffer S)) \<le> mx \<and>
     ins = outs @ m_storage (buffer S) \<and> (\<forall>t. in_call (threads S t) (acc t))"

lemma tracked_notify:
  assumes "notify w k ts ts'" "condition w" "\<forall>t. in_call (ts t) (acc t)"
  shows "\<forall>t. in_call (ts' t) (acc t)"
  using condition.notify_at [OF assms(2,1)] assms(3) by (metis in_call_wake)

lemma tracked_step:
  assumes "fifo_step S e T" "tracked mx S ins outs acc"
  shows "tracked mx T (ins @ put e) (outs @ taken e) (\<lambda>t. moved t e (acc t))"
  using assms(1)
proof cases
  case (run_write t buf n ms out n' k q th ts)
  have c: "n \<le> length buf" "acc t = take n buf" "length (m_storage (buffer S)) \<le> m_ulMaxSize (buffer S)"
    using assms(2) run_write(3) by (auto simp: tracked_def dest: spec [of _ t])
  note w = run_write_wrote(1) [OF run_write(4) c(1,3), unfolded wrote_def]
  have "\<forall>u. in_call (((threads S)(t := th)) u) (moved u e (acc u))"
    using assms(2) w c(2) run_write(1,5) take_add [of n "n' - n" buf] by (auto simp: tracked_def split: outcome.splits)
  then have "\<forall>u. in_call (ts u) (moved u e (acc u))"
    by (rule tracked_notify [OF run_write(6) NotEmpty.condition_axioms])
  moreover have "length (m_storage q) \<le> mx" using assms(2) w unfolding tracked_def by metis
  moreover have "m_storage q = m_storage (buffer S) @ take (n' - n) (drop n buf)" "m_ulMaxSize q = m_ulMaxSize (buffer S)"
    using w by simp_all
  ultimately show ?thesis using assms(2) run_write(1,2) by (simp add: tracked_def)
next
  case (run_read t cb got ms out got' k q th ts ts')
  have c: "length got \<le> cb" "acc t = got" using assms(2) run_read(3) by (auto simp: tracked_def dest: spec [of _ t])
  obtain d where d: "got' = got @ take d (m_storage (buffer S))" "did_read cb got (buffer S) out d q"
    using run_read_did [OF run_read(4) c(1)] by blast
  note w = d(2) [unfolded did_read_def]
  have "\<forall>u. in_call (((threads S)(t := th)) u) (moved u e (acc u))"
    using assms(2) w d(1) c(2) run_read(1,5) by (auto simp: tracked_def split: outcome.splits)
  then have "\<forall>u. in_call (ts u) (moved u e (acc u))"
    by (rule tracked_notify [OF run_read(6) NotFull.condition_axioms])
  then have "\<forall>u. in_call (ts' u) (moved u e (acc u))"
    by (rule tracked_notify [OF run_read(7) Flushed.condition_axioms])
  then show ?thesis using assms(2) w d(1) run_read(1,2) by (auto simp: tracked_def)
next
  case (close cfRead ts1 ts2 cfWrite ts3)
  have "\<forall>t. in_call (threads S t) (acc t)" using assms(2) by (simp add: tracked_def)
  from tracked_notify [OF close(3) NotFull.condition_axioms this]
  have "\<forall>t. in_call (ts1 t) (acc t)" .
  from tracked_notify [OF close(5) NotEmpty.condition_axioms tracked_notify [OF close(4) Flushed.condition_axioms this]]
  show ?thesis using assms(2) close(1,2) by (simp add: tracked_def)
next
  case (call_write t b r th ms)
  then show ?thesis using assms(2) by (auto simp: tracked_def split: option.splits)
next
  case (call_read t b r th ms)
  then show ?thesis using assms(2) by (auto simp: tracked_def split: option.splits)
next
  case (call_flush t r th)
  then show ?thesis using assms(2) by (auto simp: tracked_def split: option.splits)
qed (use assms(2) in \<open>auto simp: tracked_def\<close>)

lemma tracked_run:
  "steps fifo_step S es T \<Longrightarrow> tracked mx S ins outs acc \<Longrightarrow>
   tracked mx T (ins @ concat (map put es)) (outs @ concat (map taken es)) (\<lambda>t. fold (moved t) es (acc t))"
proof (induction arbitrary: ins outs acc rule: steps.induct)
  case (steps_Cons S e S1 es T)
  show ?case using steps_Cons.IH [OF tracked_step [OF steps_Cons.hyps(1) steps_Cons.prems]] by simp
qed simp

lemma tracked_new:
  "steps fifo_step (new_fifo mx) es S \<Longrightarrow>
   tracked mx S (concat (map put es)) (concat (map taken es)) (\<lambda>t. fold (moved t) es [])"
  using tracked_run [of "new_fifo mx" es S mx "[]" "[]" "\<lambda>_. []"] by (simp add: tracked_def new_fifo_def)

text \<open>
  C23: Whatever any number of threads do, and however they are scheduled, the bytes put into the buffer are
  the bytes taken out of it followed by those it holds, in this order; and it never holds more than its size.
\<close>

theorem fifo_keeps_order:
  assumes "steps fifo_step (new_fifo mx) evs S"
  shows "concat (map put evs) = concat (map taken evs) @ m_storage (buffer S) \<and> length (m_storage (buffer S)) \<le> mx"
  using tracked_new [OF assms] by (simp add: tracked_def)

text \<open>
  C24: No byte of a transfer is lost, at whichever of its ends. A Write that gets past its checks and ends under
  the mutex has put exactly its data, or the reading side was closed and it has put a proper prefix. A Read that
  does hands out exactly the bytes it took, and fewer than asked for only when the writing side is closed
  and nothing is left. When the wait of a Write or Read with a timeout times out, the call ends with
  KCERR_TIMEOUT, leaves the buffer as it is and reports as many bytes as it has put or taken: a prefix of
  the data for a Write, at most the number asked for with a Read.
\<close>

theorem transfers_are_complete:
  assumes "steps fifo_step (new_fifo mx) evs S" "fifo_step S e T"
  shows "(\<forall>t buf bs er n. e = RunWrite t buf bs (Some (er, n)) \<longrightarrow>
      (er = erSuccess \<and> fold (moved t) (evs @ [e]) [] = buf \<and> n = Some (length buf)) \<or>
      (er = KCERR_NETWORK_ERROR \<and> m_bReaderClosed (buffer T) \<and> n = None \<and> (\<exists>k < length buf. fold (moved t) (evs @ [e]) [] = take k buf))) \<and>
    (\<forall>t cb bs er d n. e = RunRead t cb bs (Some (er, d, n)) \<longrightarrow>
      er = erSuccess \<and> fold (moved t) (evs @ [e]) [] = d \<and> n = Some (length d) \<and>
      (length d = cb \<or> length d < cb \<and> m_bWriterClosed (buffer T) \<and> m_storage (buffer T) = [])) \<and>
    (\<forall>t er n. e = Timeout t er n \<longrightarrow>
      er = KCERR_TIMEOUT \<and> buffer T = buffer S \<and> threads T t = Idle \<and> n = Some (length (fold (moved t) (evs @ [e]) [])) \<and>
      ((\<exists>buf k ms. threads S t = WWait buf k ms \<and> ms > 0 \<and> k \<le> length buf \<and> fold (moved t) (evs @ [e]) [] = take k buf) \<or>
       (\<exists>cb got ms. threads S t = RWait cb got ms \<and> ms > 0 \<and> length got \<le> cb \<and> fold (moved t) (evs @ [e]) [] = got)))"
proof -
  note tr = tracked_new [OF assms(1)]
  from assms(2) show ?thesis
  proof cases
    case (run_write t buf n ms out n' k q th ts)
    have c: "n \<le> length buf" "fold (moved t) evs [] = take n buf" "length (m_storage (buffer S)) \<le> m_ulMaxSize (buffer S)"
      using tr run_write(3) by (auto simp: tracked_def dest: spec [of _ t])
    note w = run_write_wrote(1) [OF run_write(4) c(1,3), unfolded wrote_def]
    have "take n buf @ take (n' - n) (drop n buf) = take n' buf" using w take_add [of n "n' - n" buf] by simp
    then have "fold (moved t) (evs @ [e]) [] = take n' buf" using run_write(1) c(2) by simp
    then show ?thesis using w run_write(1,2)
      by (cases "n' = length buf") (auto simp: write_result_def reported_def intro!: exI [of _ n'] split: if_splits outcome.splits)
  next
    case (run_read t cb got ms out got' k q th ts ts')
    have c: "length got \<le> cb" "fold (moved t) evs [] = got" using tr run_read(3) by (auto simp: tracked_def dest: spec [of _ t])
    obtain d where d: "got' = got @ take d (m_storage (buffer S))" "did_read cb got (buffer S) out d q"
      using run_read_did [OF run_read(4) c(1)] by blast
    have "fold (moved t) (evs @ [e]) [] = got'" using run_read(1) c(2) d(1) by simp
    then show ?thesis using d run_read(1,2) unfolding did_read_def
      by (cases "length got + d = cb") (auto simp: read_result_def reported_def split: if_splits outcome.splits)
  next
    case (timeout_write t buf n ms)
    then have "n \<le> length buf" "fold (moved t) evs [] = take n buf" using tr by (auto simp: tracked_def dest: spec [of _ t])
    then show ?thesis using timeout_write by (simp add: reported_def)
  next
    case (timeout_read t cb got ms)
    then have "length got \<le> cb" "fold (moved t) evs [] = got" using tr by (auto simp: tracked_def dest: spec [of _ t])
    then show ?thesis using timeout_read by (simp add: reported_def)
  qed simp_all
qed

section \<open>No lost wake-ups\<close>

fun reading :: "thread \<Rightarrow> bool" where "reading (RRun _ _ _) = True" | "reading (RWait _ _ _) = True" | "reading _ = False"
fun writing :: "thread \<Rightarrow> bool" where "writing (WRun _ _ _) = True" | "writing (WWait _ _ _) = True" | "writing _ = False"

text \<open>Only thread r reads and only thread w writes; anybody closes and flushes.\<close>

fun by_roles :: "nat \<Rightarrow> nat \<Rightarrow> event \<Rightarrow> bool" where
  "by_roles r w (CallRead t _ _ _) = (t = r)"
| "by_roles r w (CallWrite t _ _ _) = (t = w)"
| "by_roles r w _ = True"

text \<open>The reason a thread may have to wait is a parameter for each of the two conditions.\<close>

definition calm_for :: "nat \<Rightarrow> nat \<Rightarrow> bool \<Rightarrow> bool \<Rightarrow> bool \<Rightarrow> (nat \<Rightarrow> thread) \<Rightarrow> bool" where
  "calm_for r w closed ne nf ts \<longleftrightarrow> (\<forall>t. reading (ts t) \<longrightarrow> t = r) \<and> (\<forall>t. writing (ts t) \<longrightarrow> t = w) \<and> (\<forall>t. waits_Flushed (ts t) \<longrightarrow> False) \<and>
     (\<forall>t. ts t \<in> {FRun, FWait} \<longrightarrow> closed) \<and> (\<forall>t. waits_NotEmpty (ts t) \<longrightarrow> ne) \<and> (\<forall>t. waits_NotFull (ts t) \<longrightarrow> nf)"

abbreviation calm :: "nat \<Rightarrow> nat \<Rightarrow> fifo \<Rightarrow> (nat \<Rightarrow> thread) \<Rightarrow> bool" where
  "calm r w q ts \<equiv> calm_for r w (m_bWriterClosed q) (IsEmpty q \<and> \<not> m_bWriterClosed q) (IsFull q \<and> \<not> m_bReaderClosed q) ts"

lemmas calm_def = calm_for_def

lemma role_notify:
  assumes "\<forall>t. A (ts t) \<longrightarrow> Q t" "notify c k ts ts'" "condition c" "\<And>th. A (wake th) \<Longrightarrow> A th"
  shows "\<forall>t. A (ts' t) \<longrightarrow> Q t"
  using condition.notify_at [OF assms(3,2)] assms(1,4) by metis

lemma wake_roles:
  "reading (wake th) \<Longrightarrow> reading th" "writing (wake th) \<Longrightarrow> writing th" "waits_Flushed (wake th) \<Longrightarrow> waits_Flushed th"
  "wake th \<in> {FRun, FWait} \<Longrightarrow> th \<in> {FRun, FWait}" "waits_NotEmpty (wake th) \<Longrightarrow> waits_NotEmpty th" "waits_NotFull (wake th) \<Longrightarrow> waits_NotFull th"
  by (cases th; simp)+

lemma calm_notify:
  assumes "calm_for r w x y z ts" "notify c k ts ts'" "condition c"
  shows "calm_for r w x y z ts'"
  using assms(1) unfolding calm_def by (elim conjE) (intro conjI; erule role_notify [OF _ assms(2,3)]; rule wake_roles; assumption)

lemma waits_roles:
  "waits_NotFull th \<Longrightarrow> writing th" "waits_NotEmpty th \<Longrightarrow> reading th"
  by (cases th; simp)+

lemma calm_upd:
  assumes "calm_for r w x y z ts" "reading th \<Longrightarrow> t = r" "writing th \<Longrightarrow> t = w" "\<not> waits_Flushed th" "th \<in> {FRun, FWait} \<Longrightarrow> x"
    "waits_NotEmpty th \<Longrightarrow> y'" "waits_NotFull th \<Longrightarrow> z'"
    "\<And>u. u \<noteq> t \<Longrightarrow> waits_NotEmpty (ts u) \<Longrightarrow> y \<Longrightarrow> y'" "\<And>u. u \<noteq> t \<Longrightarrow> waits_NotFull (ts u) \<Longrightarrow> z \<Longrightarrow> z'"
  shows "calm_for r w x y' z' (ts(t := th))"
proof -
  have "(reading ((ts(t := th)) u) \<longrightarrow> u = r) \<and> (writing ((ts(t := th)) u) \<longrightarrow> u = w) \<and> (waits_Flushed ((ts(t := th)) u) \<longrightarrow> False) \<and>
    ((ts(t := th)) u \<in> {FRun, FWait} \<longrightarrow> x) \<and> (waits_NotEmpty ((ts(t := th)) u) \<longrightarrow> y') \<and> (waits_NotFull ((ts(t := th)) u) \<longrightarrow> z')" for u
    using assms unfolding calm_def by (cases "u = t") (simp_all, blast)
  then show ?thesis unfolding calm_def by blast
qed

lemma calm_write:
  assumes c: "calm r w q ts" and t: "ts t = WRun buf n ms" and wr: "wrote buf n q out n' q'" "n < n' \<longrightarrow> 0 < k"
    and th: "th = (case out of Wait \<Rightarrow> WWait buf n' ms | Exit _ \<Rightarrow> Idle)"
    and nt: "notify waits_NotEmpty k (ts(t := th)) ts'"
  shows "calm r w q' ts'"
proof (cases "n' = n")
  case True
  then have q: "q' = q" using wr by (simp add: wrote_def)
  have "calm r w q (ts(t := th))" using c t th wr(1) unfolding q calm_def wrote_def
    by (cases out) (auto split: if_splits)
  then show ?thesis unfolding q by (rule calm_notify [OF _ nt NotEmpty.condition_axioms])
next
  case False
  let ?ts = "ts(t := th)"
  have k: "0 < k" using False wr by (auto simp: wrote_def)
  have flags: "m_bReaderClosed q' = m_bReaderClosed q" "m_bWriterClosed q' = m_bWriterClosed q" using wr by (simp_all add: wrote_def)
  have tw: "t = w" "waits_NotFull (ts u) \<Longrightarrow> u = w" for u
    using c t waits_roles(1) [of "ts u"] unfolding calm_def by (metis writing.simps(1))+
  have "waits_NotFull th \<Longrightarrow> IsFull q' \<and> \<not> m_bReaderClosed q'" using wr(1) flags th by (auto simp: wrote_def split: outcome.splits if_splits)
  moreover have "\<not> reading th" "\<not> waits_Flushed th" "th \<notin> {FRun, FWait}" using th by (auto split: outcome.splits)
  ultimately have p: "calm_for r w (m_bWriterClosed q') True (IsFull q' \<and> \<not> m_bReaderClosed q') ?ts"
    unfolding flags by (intro calm_upd [OF c]) (use tw in auto)
  then have "waits_NotEmpty (?ts u) \<Longrightarrow> u = r" for u using waits_roles(2) unfolding calm_def by blast
  then have "\<not> waits_NotEmpty (ts' u)" for u using NotEmpty.notify_wakes [OF nt k] by metis
  then show ?thesis using calm_notify [OF p nt NotEmpty.condition_axioms] by (simp add: calm_def)
qed

lemma calm_read:
  assumes c: "calm r w q ts" and t: "ts t = RRun cb got ms" and wr: "did_read cb got q out d q'" "0 < d \<longrightarrow> 0 < k"
    and th: "th = (case out of Wait \<Rightarrow> RWait cb got' ms | Exit _ \<Rightarrow> Idle)"
    and nt: "notify waits_NotFull k (ts(t := th)) ts'"
  shows "calm r w q' ts'"
proof (cases "d = 0")
  case True
  then have q: "q' = q" using wr by (simp add: did_read_def)
  have "calm r w q (ts(t := th))" using c t th wr(1) True unfolding q calm_def did_read_def
    by (cases out) (auto simp: IsEmpty_def split: if_splits)
  then show ?thesis unfolding q by (rule calm_notify [OF _ nt NotFull.condition_axioms])
next
  case False
  let ?ts = "ts(t := th)"
  have k: "0 < k" using False wr by simp
  have flags: "m_bReaderClosed q' = m_bReaderClosed q" "m_bWriterClosed q' = m_bWriterClosed q" using wr by (simp_all add: did_read_def)
  have tw: "t = r" "waits_NotEmpty (ts u) \<Longrightarrow> u = r" for u
    using c t waits_roles(2) [of "ts u"] unfolding calm_def by (metis reading.simps(1))+
  have "waits_NotEmpty th \<Longrightarrow> IsEmpty q' \<and> \<not> m_bWriterClosed q'" using wr(1) flags th
    by (auto simp: did_read_def IsEmpty_def split: outcome.splits if_splits)
  moreover have "\<not> writing th" "\<not> waits_Flushed th" "th \<notin> {FRun, FWait}" using th by (auto split: outcome.splits)
  ultimately have p: "calm_for r w (m_bWriterClosed q') (IsEmpty q' \<and> \<not> m_bWriterClosed q') True ?ts"
    unfolding flags by (intro calm_upd [OF c]) (use tw in auto)
  then have "waits_NotFull (?ts u) \<Longrightarrow> u = w" for u using waits_roles(1) unfolding calm_def by blast
  then have "\<not> waits_NotFull (ts' u)" for u using NotFull.notify_wakes [OF nt k] by metis
  then show ?thesis using calm_notify [OF p nt NotFull.condition_axioms] by (simp add: calm_def)
qed

text \<open>Closing wakes the thread that waits for the other side.\<close>

lemma calm_close:
  assumes c: "calm r w q ts" and n1: "notify waits_NotFull (if cr then 1 else 0) ts ts1"
    and n2: "notify waits_Flushed k ts1 ts2" and n3: "notify waits_NotEmpty (if cw then 1 else 0) ts2 ts3"
  shows "calm r w (q\<lparr>m_bReaderClosed := m_bReaderClosed q \<or> cr, m_bWriterClosed := m_bWriterClosed q \<or> cw\<rparr>) ts3"
proof -
  note c1 = calm_notify [OF c n1 NotFull.condition_axioms]
  note c2 = calm_notify [OF c1 n2 Flushed.condition_axioms]
  note c3 = calm_notify [OF c2 n3 NotEmpty.condition_axioms]
  have "\<not> waits_NotFull (ts1 t)" if cr for t
    using n1 that c waits_roles(1) unfolding calm_def by (intro NotFull.notify_wakes [OF n1]) (simp_all, metis)
  then have a: "\<not> waits_NotFull (ts3 t)" if cr for t
    using that Flushed.notify_at [OF n2, of t] NotEmpty.notify_at [OF n3, of t] wake_roles(6) by metis
  have b: "\<not> waits_NotEmpty (ts3 t)" if cw for t
    using n3 that c2 waits_roles(2) unfolding calm_def by (intro NotEmpty.notify_wakes [OF n3]) (simp_all, metis)
  show ?thesis using c3 a b unfolding calm_def IsEmpty_def IsFull_def by auto
qed

lemma calm_step:
  assumes "fifo_step S e T" "by_roles r w e" "tracked mx S ins outs acc" "calm r w (buffer S) (threads S)"
  shows "calm r w (buffer T) (threads T)"
  using assms(1)
proof cases
  case (call_write t b res th ms)
  then show ?thesis using assms(2,4) by (auto simp: calm_def split: option.splits)
next
  case (run_write t buf n ms out n' k q th ts)
  have "n \<le> length buf" "length (m_storage (buffer S)) \<le> m_ulMaxSize (buffer S)"
    using assms(3) run_write(3) by (auto simp: tracked_def dest: spec [of _ t])
  from run_write_wrote [OF run_write(4) this] calm_write [OF assms(4) run_write(3) _ _ run_write(5,6)]
  show ?thesis using run_write(2) by simp
next
  case (call_read t b res th ms)
  then show ?thesis using assms(2,4) by (auto simp: calm_def split: option.splits)
next
  case (run_read t cb got ms out got' k q th ts ts')
  have "length got \<le> cb" using assms(3) run_read(3) by (auto simp: tracked_def dest: spec [of _ t])
  then obtain d where "did_read cb got (buffer S) out d q" "0 < d \<longrightarrow> 0 < k" using run_read_did [OF run_read(4)] by blast
  from calm_read [OF assms(4) run_read(3) this run_read(5,6)] calm_notify [OF _ run_read(7) Flushed.condition_axioms]
  show ?thesis using run_read(2) by simp
next
  case (close cfRead ts1 ts2 cfWrite ts3)
  from calm_close [OF assms(4) close(3-5)] show ?thesis using close(2) by simp
next
  case (call_flush t res th)
  then show ?thesis using assms(4) by (auto simp: calm_def enter_Flush_def split: option.splits if_splits)
next
  case (wakeup t)
  have "calm r w (buffer S) ((threads S)(t := wake (threads S t)))"
    using assms(4) wake_roles [of "threads S t"] unfolding calm_def by (auto dest: spec [of _ t])
  then show ?thesis using wakeup by simp
qed (use assms(4) in \<open>auto simp: calm_def\<close>)

text \<open>
  C25: With one reading and one writing thread no wake-up is ever lost: a reader is only left waiting while the
  buffer is empty and its writing side open, a writer only while it is full and its reading side open, never
  both, and a Flush never waits.
\<close>

theorem no_lost_wakeup:
  assumes "steps fifo_step (new_fifo mx) evs S" "\<forall>e \<in> set evs. by_roles r w e"
  shows "(\<forall>t. waits_NotEmpty (threads S t) \<longrightarrow> t = r \<and> IsEmpty (buffer S) \<and> \<not> m_bWriterClosed (buffer S)) \<and>
    (\<forall>t. waits_NotFull (threads S t) \<longrightarrow> t = w \<and> IsFull (buffer S) \<and> \<not> m_bReaderClosed (buffer S)) \<and>
    (\<forall>t. \<not> waits_Flushed (threads S t)) \<and>
    (0 < mx \<longrightarrow> \<not> (waits_NotEmpty (threads S r) \<and> waits_NotFull (threads S w)))"
proof -
  have "\<exists>ins outs acc. tracked mx S ins outs acc \<and> calm r w (buffer S) (threads S)"
  proof (rule steps_keep [OF assms(1), of "\<lambda>S. \<exists>ins outs acc. tracked mx S ins outs acc \<and> calm r w (buffer S) (threads S)", OF _ assms(2)])
    show "\<exists>ins outs acc. tracked mx (new_fifo mx) ins outs acc \<and> calm r w (buffer (new_fifo mx)) (threads (new_fifo mx))"
      by (intro exI [of _ "[]"] exI [of _ "\<lambda>_. []"]) (simp add: tracked_def calm_def new_fifo_def)
  qed (use tracked_step calm_step in blast)
  then have c: "calm r w (buffer S) (threads S)" and m: "m_ulMaxSize (buffer S) = mx" by (auto simp: tracked_def)
  have "0 < mx \<longrightarrow> \<not> (waits_NotEmpty (threads S r) \<and> waits_NotFull (threads S w))"
    using c m unfolding calm_def IsEmpty_def IsFull_def by (metis less_irrefl list.size(3))
  then show ?thesis using c waits_roles unfolding calm_def by blast
qed

section \<open>Witnesses\<close>

text \<open>
  Three bytes through a buffer of two: the writer 3 has to wait until the reader 4 has made room.
\<close>

definition two :: "thread \<Rightarrow> thread \<Rightarrow> nat \<Rightarrow> thread" where
  "two a b = (\<lambda>_. Idle)(3 := a, 4 := b)"

lemma two_simps [simp]: "two a b 3 = a" "two a b 4 = b" "(two a b)(3 := a') = two a' b" "(two a b)(4 := b') = two a b'"
  by (auto simp: two_def)

definition demo_sys :: "bytes \<Rightarrow> thread \<Rightarrow> thread \<Rightarrow> system" where
  "demo_sys st a b = \<lparr>buffer = \<lparr>m_storage = st, m_ulMaxSize = 2, m_bReaderClosed = False, m_bWriterClosed = False\<rparr>, threads = two a b\<rparr>"

lemma notify_demo:
  "waits a \<Longrightarrow> notify waits (Suc 0) (two a b) (two (wake a) b)"
  "\<not> waits Idle \<Longrightarrow> \<not> waits a \<Longrightarrow> \<not> waits b \<Longrightarrow> notify waits (Suc 0) (two a b) (two a b)"
  using notify.notify_one [of waits "two a b" 3 0 "two (wake a) b"]
  by (simp_all add: notify.notify_0 notify.notify_none) (simp add: two_def notify.notify_none)

definition demo_events :: "event list" where
  "demo_events = [CallWrite 3 (Some [7, 8, 9]) 0 None, RunWrite 3 [7, 8, 9] [7, 8] None, CallRead 4 (Some 2) 0 None]"

definition demo_read :: event where "demo_read = RunRead 4 2 [7, 8] (Some (erSuccess, [7, 8], Some 2))"

lemma demo_run: "steps fifo_step (new_fifo 2) demo_events (demo_sys [7, 8] (WWait [7, 8, 9] 2 0) (RRun 2 [] 0))"
proof -
  have s: "new_fifo 2 = demo_sys [] Idle Idle" by (auto simp: new_fifo_def demo_sys_def two_def)
  have 1: "fifo_step (demo_sys [] Idle Idle) (CallWrite 3 (Some [7, 8, 9]) 0 None) (demo_sys [] (WRun [7, 8, 9] 0 0) Idle)"
    using call_write [of "demo_sys [] Idle Idle" 3 "Some [7, 8, 9]" None "WRun [7, 8, 9] 0 0" 0] by (simp add: enter_Write_def demo_sys_def)
  have w: "write_section [7, 8, 9] 0 0 (buffer (demo_sys [] (WRun [7, 8, 9] 0 0) Idle)) =
      Some (Wait, 2, Suc 0, buffer (demo_sys [7, 8] (WWait [7, 8, 9] 2 0) Idle))"
    by (simp add: demo_sys_def write_section.simps IsFull_def)
  have 2: "fifo_step (demo_sys [] (WRun [7, 8, 9] 0 0) Idle) (RunWrite 3 [7, 8, 9] [7, 8] None) (demo_sys [7, 8] (WWait [7, 8, 9] 2 0) Idle)"
    using run_write [OF _ w, of 3 0 "WWait [7, 8, 9] 2 0"] notify_demo(2) [of waits_NotEmpty "WWait [7, 8, 9] 2 0" Idle]
    by (simp add: write_result_def demo_sys_def)
  have 3: "fifo_step (demo_sys [7, 8] (WWait [7, 8, 9] 2 0) Idle) (CallRead 4 (Some 2) 0 None) (demo_sys [7, 8] (WWait [7, 8, 9] 2 0) (RRun 2 [] 0))"
    using call_read [of "demo_sys [7, 8] (WWait [7, 8, 9] 2 0) Idle" 4 "Some 2" None "RRun 2 [] 0" 0]
    by (simp add: enter_Read_def demo_sys_def)
  show ?thesis unfolding s demo_events_def steps_Cons_iff steps_Nil_iff using 1 2 3 by blast
qed

lemma demo_read_step: "fifo_step (demo_sys [7, 8] (WWait [7, 8, 9] 2 0) (RRun 2 [] 0)) demo_read (demo_sys [] (WRun [7, 8, 9] 2 0) Idle)"
proof -
  have r: "read_section 2 [] 0 (buffer (demo_sys [7, 8] (WWait [7, 8, 9] 2 0) (RRun 2 [] 0))) =
      (Exit erSuccess, [7, 8], Suc 0, buffer (demo_sys [] (WRun [7, 8, 9] 2 0) Idle))"
    by (simp add: demo_sys_def read_section.simps IsEmpty_def)
  have f: "flushed_now cb g (buffer (demo_sys [] (WRun [7, 8, 9] 2 0) Idle)) = 0" for cb g by (simp add: flushed_now_def demo_sys_def)
  show ?thesis
    using run_read [OF _ r, of 4 0 Idle "two (WRun [7, 8, 9] 2 0) Idle" "two (WRun [7, 8, 9] 2 0) Idle"]
      notify_demo(1) [of waits_NotFull "WWait [7, 8, 9] 2 0" Idle]
    unfolding f by (simp add: demo_read_def read_result_def reported_def notify.notify_0 demo_sys_def numeral_2_eq_2)
qed

theorem fifo_keeps_order_witness:
  "concat (map put demo_events) = [7, 8] \<and>
   concat (map put demo_events) = concat (map taken demo_events) @ m_storage (buffer (demo_sys [7, 8] (WWait [7, 8, 9] 2 0) (RRun 2 [] 0)))"
  using fifo_keeps_order [OF demo_run] by (simp add: demo_events_def)

theorem transfers_are_complete_witness:
  "fold (moved 4) (demo_events @ [demo_read]) [] = [7, 8]"
  using transfers_are_complete [OF demo_run demo_read_step] by (simp add: demo_read_def)

theorem no_lost_wakeup_witness:
  "waits_NotFull (threads (demo_sys [7, 8] (WWait [7, 8, 9] 2 0) (RRun 2 [] 0)) 3) \<and>
   IsFull (buffer (demo_sys [7, 8] (WWait [7, 8, 9] 2 0) (RRun 2 [] 0))) \<and>
   \<not> m_bReaderClosed (buffer (demo_sys [7, 8] (WWait [7, 8, 9] 2 0) (RRun 2 [] 0)))"
proof -
  have "\<forall>e \<in> set demo_events. by_roles 4 3 e" by (simp add: demo_events_def)
  note conjunct1 [OF conjunct2 [OF no_lost_wakeup [OF demo_run this]], THEN spec [of _ 3]]
  moreover have w: "waits_NotFull (threads (demo_sys [7, 8] (WWait [7, 8, 9] 2 0) (RRun 2 [] 0)) 3)" by (simp add: demo_sys_def)
  ultimately show ?thesis by blast
qed

end
