(* ===== verification/StringUtil.thy ===== *)
theory StringUtil
  imports KPrelude
begin

text \<open>
  The string functions of common/stringutil.cpp and common/base64.cpp, and the functions of the C
  library that the mail protocols use with them (strtoul, decimal output, toupper).

  A std::string is a list of characters and may hold the character NUL; \<open>c_str\<close> is the part a C
  function sees. Plain \<open>char\<close> is signed, as on the platforms the program is built for, and the
  character classes are those of the C locale.
\<close>

definition NUL :: char where "NUL = CHR 0x00"
definition CR :: char where "CR = CHR 0x0D"
definition LF :: char where "LF = CHR 0x0A"

definition byte_of :: "char \<Rightarrow> byte" where "byte_of c = of_nat (of_char c)"
definition chr_of :: "byte \<Rightarrow> char" where "chr_of b = char_of (unat b)"

definition c_str :: "string \<Rightarrow> string" where "c_str s = takeWhile (\<lambda>c. c \<noteq> NUL) s"

section \<open>The C library\<close>

definition is_digit :: "char \<Rightarrow> bool" where "is_digit c = (48 \<le> byte_of c \<and> byte_of c \<le> 57)"
definition is_upper :: "char \<Rightarrow> bool" where "is_upper c = (65 \<le> byte_of c \<and> byte_of c \<le> 90)"
definition is_lower :: "char \<Rightarrow> bool" where "is_lower c = (97 \<le> byte_of c \<and> byte_of c \<le> 122)"
definition is_alnum :: "char \<Rightarrow> bool" where "is_alnum c = (is_digit c \<or> is_upper c \<or> is_lower c)"
definition is_space :: "char \<Rightarrow> bool" where "is_space c = (byte_of c = 32 \<or> 9 \<le> byte_of c \<and> byte_of c \<le> 13)"

definition to_upper :: "char \<Rightarrow> char" where "to_upper c = (if is_lower c then chr_of (byte_of c - 32) else c)"
definition strToUpper :: "string \<Rightarrow> string" where "strToUpper s = map to_upper s"

definition digit_char :: "nat \<Rightarrow> char" where "digit_char n = chr_of (of_nat n + 48)"

text \<open>The conversion \<open>%u\<close> of printf.\<close>

fun udec :: "nat \<Rightarrow> string" where
  "udec n = (if n < 10 then [digit_char n] else udec (n div 10) @ [digit_char (n mod 10)])"

declare udec.simps [simp del]

definition print_u :: "uint32 \<Rightarrow> string" where "print_u w = udec (unat w)"

text \<open>strtoul on a 64-bit \<open>unsigned long\<close>: white space, a sign, for base 0 a prefix that chooses the
  base, and the digits; a value out of range gives ULONG_MAX.\<close>

definition digit_value :: "char \<Rightarrow> int option" where
  "digit_value c = (if is_digit c then Some (uint (byte_of c) - 48)
                    else if is_lower c then Some (uint (byte_of c) - 87)
                    else if is_upper c then Some (uint (byte_of c) - 55) else None)"

fun scan_digits :: "int \<Rightarrow> int \<Rightarrow> string \<Rightarrow> int" where
  "scan_digits base acc [] = acc"
| "scan_digits base acc (c # s) =
     (case digit_value c of
        None \<Rightarrow> acc
      | Some d \<Rightarrow> if d < base then scan_digits base (acc * base + d) s else acc)"

definition scan_number :: "string \<Rightarrow> int" where
  "scan_number s =
     (case s of
        c # x # h # r \<Rightarrow>
          if c = CHR ''0'' \<and> to_upper x = CHR ''X'' \<and> (case digit_value h of None \<Rightarrow> False | Some d \<Rightarrow> d < 16)
          then scan_digits 16 0 (h # r)
          else if c = CHR ''0'' then scan_digits 8 0 s else scan_digits 10 0 s
      | c # r \<Rightarrow> if c = CHR ''0'' then scan_digits 8 0 s else scan_digits 10 0 s
      | [] \<Rightarrow> 0)"

definition strtoul_by :: "(string \<Rightarrow> int) \<Rightarrow> string \<Rightarrow> 64 word" where
  "strtoul_by scan t =
     (let s = dropWhile is_space (c_str t);
          neg = (case s of c # _ \<Rightarrow> c = CHR ''-'' | [] \<Rightarrow> False);
          s = (case s of c # r \<Rightarrow> if c = CHR ''-'' \<or> c = CHR ''+'' then r else s | [] \<Rightarrow> s);
          v = scan s
      in if v \<ge> 2 ^ 64 then - 1 else if neg then - of_int v else of_int v)"

text \<open>The results of strtoul with base 0 and base 10 passed as an \<open>unsigned int\<close>.\<close>

definition strtoui0 :: "string \<Rightarrow> uint32" where "strtoui0 s = ucast (strtoul_by scan_number s)"

definition atoui :: "string \<Rightarrow> uint32" where "atoui s = ucast (strtoul_by (scan_digits 10 0) s)"

definition parseBool :: "string \<Rightarrow> bool" where
  "parseBool s = (\<not> (s = ''0'' \<or> s = ''false'' \<or> s = ''no''))"

section \<open>Splitting and trimming\<close>

function tokenize :: "string \<Rightarrow> char \<Rightarrow> bool \<Rightarrow> string list" where
  "tokenize s sep bFilterEmpty =
     (if s = [] then []
      else let w = takeWhile (\<lambda>c. c \<noteq> sep \<and> c \<noteq> NUL) s
           in case drop (length w) s of
                [] \<Rightarrow> [w]
              | c # r \<Rightarrow>
                  if c \<noteq> sep then [w]
                  else (if \<not> bFilterEmpty \<or> w \<noteq> [] then [w] else []) @ tokenize r sep bFilterEmpty)"
  by pat_completeness auto
termination
  by (relation "measure (\<lambda>(s, _, _). length s)") (auto dest!: arg_cong [where f = length])

declare tokenize.simps [simp del]

definition trim :: "string \<Rightarrow> string \<Rightarrow> string" where
  "trim s strTrim =
     (if s = [] then s
      else let s = dropWhile (\<lambda>c. c \<in> set strTrim) s
           in if \<exists>c \<in> set s. c \<notin> set strTrim then rev (dropWhile (\<lambda>c. c \<in> set strTrim) (rev s)) else s)"

definition starts_with :: "string \<Rightarrow> string \<Rightarrow> bool" where
  "starts_with full prefix = (take (length prefix) full = prefix)"

section \<open>Hexadecimal and URL encoding\<close>

definition x2b :: "char \<Rightarrow> byte" where
  "x2b c = (if is_digit c then byte_of c - 48
            else if sint (byte_of c) \<ge> 97 then byte_of c - 97 + 10 else byte_of c - 65 + 10)"

fun hex_pairs :: "string \<Rightarrow> bytes" where
  "hex_pairs (a # b # r) = (push_bit 4 (x2b a) OR x2b b) # hex_pairs r"
| "hex_pairs _ = []"

definition hex2bin :: "string \<Rightarrow> bytes" where
  "hex2bin s = (if length s mod 2 \<noteq> 0 then [] else hex_pairs s)"

definition hex_digits :: string where "hex_digits = ''0123456789ABCDEF''"

definition hex_byte :: "byte \<Rightarrow> string" where
  "hex_byte b = [hex_digits ! unat (drop_bit 4 b), hex_digits ! unat (b AND 0x0F)]"

definition bin2hex :: "bytes \<Rightarrow> string" where "bin2hex s = concat (map hex_byte s)"

definition url_reserved :: string where "url_reserved = '':/?#[]@!$&'()*+,;=''"

text \<open>A signed character is never 128 or more; the shift of a negative one would not be an index.\<close>

definition url_char :: "char \<Rightarrow> string" where
  "url_char c =
     (if sint (byte_of c) \<ge> 128 then CHR ''%'' # hex_byte (byte_of c)
      else if c \<in> set url_reserved then CHR ''%'' # hex_byte (byte_of c) else [c])"

definition urlEncode :: "string \<Rightarrow> string" where "urlEncode s = concat (map url_char s)"

fun urlDecode :: "string \<Rightarrow> string" where
  "urlDecode [] = []"
| "urlDecode (c # s) =
     (case s of
        a # b # r \<Rightarrow> if c = CHR ''%'' then chr_of (push_bit 4 (x2b a) OR x2b b) # urlDecode r else c # urlDecode s
      | _ \<Rightarrow> c # urlDecode s)"

section \<open>Line ends\<close>

text \<open>The arguments are the character before the position, if there is one, and the rest.\<close>

fun LFtoCRLF_loop :: "char option \<Rightarrow> string \<Rightarrow> string" where
  "LFtoCRLF_loop p [] = []"
| "LFtoCRLF_loop p (c # s) =
     (if c = LF \<and> p \<noteq> None \<and> p \<noteq> Some CR then CR # LF # LFtoCRLF_loop (Some c) s
      else c # LFtoCRLF_loop (Some c) s)"

definition StringLFtoCRLF :: "string \<Rightarrow> string" where "StringLFtoCRLF s = LFtoCRLF_loop None s"

fun BufferLFtoCRLF :: "string \<Rightarrow> string" where
  "BufferLFtoCRLF [] = []"
| "BufferLFtoCRLF (c # s) =
     (if c = CR then (case s of d # r \<Rightarrow> if d = LF then CR # LF # BufferLFtoCRLF r else CR # LF # BufferLFtoCRLF s
                              | [] \<Rightarrow> CR # LF # BufferLFtoCRLF s)
      else if c = LF then CR # LF # BufferLFtoCRLF s
      else c # BufferLFtoCRLF s)"

fun StringCRLFtoLF :: "uint32 list \<Rightarrow> uint32 list" where
  "StringCRLFtoLF [] = []"
| "StringCRLFtoLF (c # s) = (if c = 13 \<and> (case s of d # _ \<Rightarrow> d = 10 | [] \<Rightarrow> False) then StringCRLFtoLF s else c # StringCRLFtoLF s)"

section \<open>Base 64\<close>

definition base64_chars :: string where
  "base64_chars = ''ABCDEFGHIJKLMNOPQRSTUVWXYZabcdefghijklmnopqrstuvwxyz0123456789+/''"

definition is_base64 :: "char \<Rightarrow> bool" where
  "is_base64 c = (is_alnum c \<or> c = CHR ''+'' \<or> c = CHR ''/'')"

definition b64_char :: "byte \<Rightarrow> char" where "b64_char b = base64_chars ! unat b"

text \<open>The four six-bit groups of three bytes.\<close>

definition array_4 :: "bytes \<Rightarrow> bytes" where
  "array_4 a =
     [drop_bit 2 (a ! 0 AND 0xfc),
      push_bit 4 (a ! 0 AND 0x03) + drop_bit 4 (a ! 1 AND 0xf0),
      push_bit 2 (a ! 1 AND 0x0f) + drop_bit 6 (a ! 2 AND 0xc0),
      a ! 2 AND 0x3f]"

fun encode_loop :: "bytes \<Rightarrow> bytes \<Rightarrow> string" where
  "encode_loop arr (b # bs) =
     (if length arr + 1 \<noteq> 3 then encode_loop (arr @ [b]) bs
      else map b64_char (array_4 (arr @ [b])) @ encode_loop [] bs)"
| "encode_loop arr [] =
     (if arr = [] then []
      else map b64_char (take (length arr + 1) (array_4 (arr @ replicate (3 - length arr) 0))) @
           replicate (3 - length arr) CHR ''='')"

definition base64_encode :: "bytes \<Rightarrow> string" where "base64_encode bs = encode_loop [] bs"

text \<open>The position of a character in the alphabet, cut to a byte; \<open>npos\<close> becomes 255.\<close>

definition b64_find :: "char \<Rightarrow> byte" where
  "b64_find c = (let n = length (takeWhile (\<lambda>d. d \<noteq> c) base64_chars)
                 in if n < length base64_chars then of_nat n else - 1)"

definition array_3 :: "bytes \<Rightarrow> bytes" where
  "array_3 a =
     [push_bit 2 (a ! 0) + drop_bit 4 (a ! 1 AND 0x30),
      push_bit 4 (a ! 1 AND 0xf) + drop_bit 2 (a ! 2 AND 0x3c),
      push_bit 6 (a ! 2 AND 0x3) + a ! 3]"

fun decode_loop :: "string \<Rightarrow> string \<Rightarrow> bytes" where
  "decode_loop arr s =
     (case s of
        c # r \<Rightarrow>
          if c \<noteq> CHR ''='' \<and> is_base64 c
          then if length arr + 1 \<noteq> 4 then decode_loop (arr @ [c]) r
               else array_3 (map b64_find (arr @ [c])) @ decode_loop [] r
          else if arr = [] then []
          else take (length arr - 1) (array_3 (map b64_find (arr @ replicate (4 - length arr) NUL)))
      | [] \<Rightarrow>
          if arr = [] then []
          else take (length arr - 1) (array_3 (map b64_find (arr @ replicate (4 - length arr) NUL))))"

declare decode_loop.simps [simp del]

definition base64_decode :: "string \<Rightarrow> bytes" where "base64_decode s = decode_loop [] s"

end
