(* ===== verification/Pop3.thy ===== *)
theory Pop3
  imports StringUtil Steps
begin

text \<open>
  The POP3 server of the gateway (gateway/POP3.cpp, POP3.h, ClientProto.h), the parts of ECChannel it
  writes with (common/ECChannel.cpp), and the loop that reads its commands (Handler,
  gateway/Gateway.cpp).

  What the mail server, the TLS library and the socket answer is the record \<open>popenv\<close>, a parameter
  of every command, so that it may differ from one command to the next. Pointers of the object are
  flags: \<open>True\<close> is a valid pointer. A command that follows a null pointer has the value \<open>None\<close>.
\<close>

section \<open>The surroundings\<close>

text \<open>
  A message as RETR and TOP read it: the stream of PR_EC_IMAP_EMAIL, and the conversion by IMToINet.
\<close>

record popmsg =
  imap_email :: "hresult \<times> string"
  inet_email :: "hresult \<times> string"

text \<open>
  \<open>contents_table\<close> stands for GetContentsTable, SetColumns, SortTable and QueryRows on the inbox; a
  column that is an error is \<open>None\<close>. \<open>byte_before\<close> is the byte in memory before the text that DotFilter
  is given. \<open>send_ok n\<close> tells whether the n-th write to the socket succeeds.
\<close>

record popenv =
  disable_plaintext_auth :: "string option"
  server_hostname_greeting :: string
  sslctx :: bool
  peer_is_local :: int
  EnableTLS :: hresult
  TryConvert_1252 :: "string \<Rightarrow> hresult \<times> uint32 list"
  HrOpenECSession :: "uint32 list \<Rightarrow> uint32 list \<Rightarrow> hresult"
  HrOpenDefaultStore :: hresult
  OpenAddressBook :: hresult
  pop3_disabled :: bool
  GetReceiveFolder :: hresult
  OpenInbox :: "hresult \<times> uint32"
  contents_table :: "hresult \<times> (bytes option \<times> uint32 option) list"
  OpenEntry :: "bytes \<Rightarrow> hresult \<times> popmsg"
  byte_before :: char
  send_ok :: "nat \<Rightarrow> bool"

definition MAPI_FOLDER_TYPE :: uint32 where "MAPI_FOLDER_TYPE = 3"

section \<open>The object\<close>

record MailListItem =
  sbEntryID :: bytes
  ulSize :: uint32
  bDeleted :: bool

text \<open>
  \<open>sent\<close> holds the strings written to the socket, \<open>writes_tried\<close> counts the writes, and \<open>deletions\<close>
  holds the entry ids of every call of DeleteMessages.
\<close>

record pop3 =
  lpSession :: bool
  lpStore :: bool
  lpInbox :: bool
  lpAddrBook :: bool
  szUser :: string
  lstMails :: "MailListItem list"
  m_ulFailedLogins :: uint32
  lpSSL :: bool
  sent :: "string list"
  writes_tried :: nat
  deletions :: "bytes list list"

definition new_POP3 :: "bool \<Rightarrow> pop3" where
  "new_POP3 ssl = \<lparr>lpSession = False, lpStore = False, lpInbox = False, lpAddrBook = False, szUser = [],
     lstMails = [], m_ulFailedLogins = 0, lpSSL = ssl, sent = [], writes_tried = 0, deletions = []\<rparr>"

definition IsAuthorized :: "pop3 \<Rightarrow> bool" where "IsAuthorized c = lpStore c"

definition getTimeoutMinutes :: "pop3 \<Rightarrow> nat" where "getTimeoutMinutes c = (if lpStore c then 5 else 1)"

definition LOGIN_RETRIES :: uint32 where "LOGIN_RETRIES = 5"
definition POP3_MAX_RESPONSE_LENGTH :: nat where "POP3_MAX_RESPONSE_LENGTH = 512"
definition POP3_RESP_OK :: string where "POP3_RESP_OK = ''+OK ''"
definition POP3_RESP_TEMPFAIL :: string where "POP3_RESP_TEMPFAIL = ''-ERR [SYS/TEMP] ''"
definition POP3_RESP_PERMFAIL :: string where "POP3_RESP_PERMFAIL = ''-ERR [SYS/PERM] ''"
definition POP3_RESP_AUTH_ERROR :: string where "POP3_RESP_AUTH_ERROR = ''-ERR [AUTH] ''"
definition POP3_RESP_ERR :: string where "POP3_RESP_ERR = ''-ERR ''"

section \<open>Writing to the channel\<close>

definition HrWriteString :: "popenv \<Rightarrow> string \<Rightarrow> pop3 \<Rightarrow> hresult \<times> pop3" where
  "HrWriteString e s c =
     (let c = c\<lparr>writes_tried := writes_tried c + 1\<rparr>
      in if send_ok e (writes_tried c) then (hrSuccess, c\<lparr>sent := sent c @ [s]\<rparr>) else (MAPI_E_CALL_FAILED, c))"

definition HrWriteLine :: "popenv \<Rightarrow> string \<Rightarrow> pop3 \<Rightarrow> hresult \<times> pop3" where
  "HrWriteLine e s c = HrWriteString e (s @ [CR, LF]) c"

definition HrResponse :: "popenv \<Rightarrow> string \<Rightarrow> string \<Rightarrow> pop3 \<Rightarrow> hresult \<times> pop3" where
  "HrResponse e strResult strResponse c = HrWriteLine e (strResult @ strResponse) c"

text \<open>A response whose own result is dropped: the command returns \<open>hr\<close>.\<close>

definition respond_and :: "popenv \<Rightarrow> string \<Rightarrow> string \<Rightarrow> hresult \<Rightarrow> pop3 \<Rightarrow> hresult \<times> pop3" where
  "respond_and e r s hr c = (hr, snd (HrResponse e r s c))"

text \<open>Lines written one after the other until one fails.\<close>

fun write_lines :: "popenv \<Rightarrow> string list \<Rightarrow> pop3 \<Rightarrow> hresult \<times> pop3" where
  "write_lines e [] c = (hrSuccess, c)"
| "write_lines e (l # ls) c =
     (case HrWriteLine e l c of (hr, c) \<Rightarrow> if hr \<noteq> hrSuccess then (hr, c) else write_lines e ls c)"

definition HrSendGreeting :: "popenv \<Rightarrow> string \<Rightarrow> pop3 \<Rightarrow> hresult \<times> pop3" where
  "HrSendGreeting e strHostString c =
     (if parseBool (server_hostname_greeting e)
      then HrResponse e POP3_RESP_OK (''POP3 gateway ready'' @ strHostString) c
      else HrResponse e POP3_RESP_OK ''POP3 gateway ready'' c)"

definition HrCloseConnection :: "popenv \<Rightarrow> string \<Rightarrow> pop3 \<Rightarrow> hresult \<times> pop3" where
  "HrCloseConnection e strQuitMsg c = HrResponse e POP3_RESP_ERR strQuitMsg c"

section \<open>Commands before a login\<close>

definition plaintext_refused :: "popenv \<Rightarrow> pop3 \<Rightarrow> bool" where
  "plaintext_refused e c =
     (\<not> lpSSL c \<and> sslctx e \<and> disable_plaintext_auth e = Some ''yes'' \<and> peer_is_local e \<le> 0)"

definition crlf :: string where "crlf = [CR, LF]"

definition GetCapabilityString :: "popenv \<Rightarrow> pop3 \<Rightarrow> string" where
  "GetCapabilityString e c =
     crlf @ ''CAPA'' @ crlf @ ''TOP'' @ crlf @ ''UIDL'' @ crlf @ ''RESP-CODES'' @ crlf @ ''AUTH-RESP-CODE'' @ crlf @
     (if \<not> lpSession c
      then (if \<not> lpSSL c \<and> sslctx e then ''STLS'' @ crlf else []) @
           (if \<not> plaintext_refused e c then ''USER'' @ crlf else [])
      else []) @ ''.''"

definition HrCmdCapability :: "popenv \<Rightarrow> pop3 \<Rightarrow> hresult \<times> pop3" where
  "HrCmdCapability e c = HrResponse e POP3_RESP_OK (GetCapabilityString e c) c"

text \<open>ECChannel::HrEnableTLS: the answer of the TLS library counts only without a connection and with a context.\<close>

definition HrEnableTLS :: "popenv \<Rightarrow> pop3 \<Rightarrow> hresult \<times> pop3" where
  "HrEnableTLS e c =
     (if lpSSL c \<or> \<not> sslctx e then (MAPI_E_CALL_FAILED, c\<lparr>lpSSL := False\<rparr>)
      else if EnableTLS e \<noteq> hrSuccess then (MAPI_E_CALL_FAILED, c)
      else (hrSuccess, c\<lparr>lpSSL := True\<rparr>))"

definition HrCmdStarttls :: "popenv \<Rightarrow> pop3 \<Rightarrow> hresult \<times> pop3" where
  "HrCmdStarttls e c =
     (if \<not> sslctx e then HrResponse e POP3_RESP_PERMFAIL ''STLS error in ssl context'' c
      else if lpSSL c then HrResponse e POP3_RESP_ERR ''STLS already using SSL/TLS'' c
      else case HrResponse e POP3_RESP_OK ''Begin TLS negotiation now'' c of (hr, c) \<Rightarrow>
        if hr \<noteq> hrSuccess then (hr, c)
        else case HrEnableTLS e c of (hr, c) \<Rightarrow>
          if hr \<noteq> hrSuccess
          then respond_and e POP3_RESP_ERR ''Error switching to secure SSL/TLS connection'' hr c
          else (hrSuccess, c))"

definition HrCmdUser :: "popenv \<Rightarrow> string \<Rightarrow> pop3 \<Rightarrow> hresult \<times> pop3" where
  "HrCmdUser e strUser c =
     (if plaintext_refused e c
      then HrResponse e POP3_RESP_AUTH_ERROR ''Plaintext authentication disallowed on non-secure (SSL/TLS) connections'' c
      else if lpStore c then HrResponse e POP3_RESP_AUTH_ERROR ''Can't login twice'' c
      else if length strUser > POP3_MAX_RESPONSE_LENGTH then HrResponse e POP3_RESP_PERMFAIL ''Username too long'' c
      else HrResponse e POP3_RESP_OK ''Waiting for password'' (c\<lparr>szUser := strUser\<rparr>))"

section \<open>Logging in\<close>

text \<open>The body of HrLogin up to the label \<open>exit\<close>.\<close>

definition login_body :: "popenv \<Rightarrow> string \<Rightarrow> string \<Rightarrow> pop3 \<Rightarrow> hresult \<times> pop3" where
  "login_body e strUsername strPassword c =
     (case TryConvert_1252 e strUsername of (hr, strwUsername) \<Rightarrow>
      if hr \<noteq> hrSuccess then (hr, c) else
      case TryConvert_1252 e strPassword of (hr, strwPassword) \<Rightarrow>
      if hr \<noteq> hrSuccess then (hr, c) else
      let hr = HrOpenECSession e strwUsername strwPassword in
      if hr \<noteq> hrSuccess
      then let c = c\<lparr>m_ulFailedLogins := m_ulFailedLogins c + 1\<rparr>
           in (if m_ulFailedLogins c \<ge> LOGIN_RETRIES then MAPI_E_END_OF_SESSION else hr, c)
      else
      let c = c\<lparr>lpSession := True\<rparr>; hr = HrOpenDefaultStore e in
      if hr \<noteq> hrSuccess then (hr, c) else
      let c = c\<lparr>lpStore := True\<rparr>; hr = OpenAddressBook e in
      if hr \<noteq> hrSuccess then (hr, c) else
      let c = c\<lparr>lpAddrBook := True\<rparr> in
      if pop3_disabled e then (MAPI_E_LOGON_FAILED, c) else
      let hr = GetReceiveFolder e in
      if hr \<noteq> hrSuccess then (hr, c) else
      case OpenInbox e of (hr, ulObjType) \<Rightarrow>
      let c = (if hr = hrSuccess then c\<lparr>lpInbox := True\<rparr> else c) in
      (if ulObjType \<noteq> MAPI_FOLDER_TYPE then MAPI_E_NOT_FOUND else hr, c))"

definition HrLogin :: "popenv \<Rightarrow> string \<Rightarrow> string \<Rightarrow> pop3 \<Rightarrow> hresult \<times> pop3" where
  "HrLogin e strUsername strPassword c =
     (case login_body e strUsername strPassword c of (hr, c) \<Rightarrow>
        (hr, if hr \<noteq> hrSuccess then c\<lparr>lpInbox := False, lpStore := False\<rparr> else c))"

text \<open>Rows without an entry id or a size are left out of the list.\<close>

fun mail_list :: "(bytes option \<times> uint32 option) list \<Rightarrow> MailListItem list" where
  "mail_list [] = []"
| "mail_list ((eid, sz) # rows) =
     (case eid of None \<Rightarrow> mail_list rows
      | Some eid \<Rightarrow>
         (case sz of None \<Rightarrow> mail_list rows
          | Some sz \<Rightarrow> \<lparr>sbEntryID = eid, ulSize = sz, bDeleted = False\<rparr> # mail_list rows))"

definition HrMakeMailList :: "popenv \<Rightarrow> pop3 \<Rightarrow> (hresult \<times> pop3) option" where
  "HrMakeMailList e c =
     (if \<not> lpInbox c then None
      else case contents_table e of (hr, rows) \<Rightarrow>
        Some (if hr \<noteq> hrSuccess then (hr, c) else (hr, c\<lparr>lstMails := mail_list rows\<rparr>)))"

definition HrCmdPass :: "popenv \<Rightarrow> string \<Rightarrow> pop3 \<Rightarrow> (hresult \<times> pop3) option" where
  "HrCmdPass e strPass c =
     (if plaintext_refused e c
      then Some (HrResponse e POP3_RESP_AUTH_ERROR ''Plaintext authentication disallowed on non-secure (SSL/TLS) connections'' c)
      else if lpStore c then Some (HrResponse e POP3_RESP_AUTH_ERROR ''Can't login twice'' c)
      else if length strPass > POP3_MAX_RESPONSE_LENGTH then Some (HrResponse e POP3_RESP_PERMFAIL ''Password too long'' c)
      else if szUser c = [] then Some (HrResponse e POP3_RESP_ERR ''Give username first'' c)
      else case HrLogin e (szUser c) strPass c of (hr, c) \<Rightarrow>
        if hr \<noteq> hrSuccess
        then Some (if hr = MAPI_E_LOGON_FAILED
                   then respond_and e POP3_RESP_AUTH_ERROR ''Wrong username or password'' hr c
                   else respond_and e POP3_RESP_TEMPFAIL ''Internal error: HrLogin failed'' hr c)
        else do {
          (hr, c) \<leftarrow> HrMakeMailList e c;
          Some (if hr \<noteq> hrSuccess then respond_and e POP3_RESP_ERR ''Can't get mail list'' hr c
                else HrResponse e POP3_RESP_OK ''Username and password accepted'' c)
        })"

section \<open>Listing\<close>

definition total_size :: "MailListItem list \<Rightarrow> uint32" where
  "total_size ms = foldl (\<lambda>n m. n + ulSize m) 0 ms"

definition mail_count :: "pop3 \<Rightarrow> uint32" where "mail_count c = of_nat (length (lstMails c))"

definition bad_number :: "uint32 \<Rightarrow> pop3 \<Rightarrow> bool" where
  "bad_number ulMailNr c = (ulMailNr < 1 \<or> unat ulMailNr > length (lstMails c))"

definition mail_at :: "uint32 \<Rightarrow> pop3 \<Rightarrow> MailListItem" where
  "mail_at ulMailNr c = lstMails c ! unat (ulMailNr - 1)"

definition HrCmdStat :: "popenv \<Rightarrow> pop3 \<Rightarrow> hresult \<times> pop3" where
  "HrCmdStat e c = HrResponse e POP3_RESP_OK (print_u (mail_count c) @ '' '' @ print_u (total_size (lstMails c))) c"

definition list_line :: "nat \<Rightarrow> MailListItem \<Rightarrow> string" where
  "list_line i m = print_u (of_nat i + 1) @ '' '' @ print_u (ulSize m)"

definition HrCmdList :: "popenv \<Rightarrow> pop3 \<Rightarrow> hresult \<times> pop3" where
  "HrCmdList e c =
     (case HrResponse e POP3_RESP_OK (print_u (mail_count c) @ '' messages'') c of (hr, c) \<Rightarrow>
        if hr \<noteq> hrSuccess then (hr, c)
        else write_lines e (map (\<lambda>(i, m). list_line i m) (enumerate 0 (lstMails c)) @ [''.'']) c)"

definition HrCmdList_nr :: "popenv \<Rightarrow> uint32 \<Rightarrow> pop3 \<Rightarrow> hresult \<times> pop3" where
  "HrCmdList_nr e ulMailNr c =
     (if bad_number ulMailNr c then respond_and e POP3_RESP_ERR ''Wrong mail number'' MAPI_E_NOT_FOUND c
      else HrResponse e POP3_RESP_OK (print_u ulMailNr @ '' '' @ print_u (ulSize (mail_at ulMailNr c))) c)"

definition uidl_line :: "uint32 \<Rightarrow> MailListItem \<Rightarrow> string" where
  "uidl_line nr m = print_u nr @ '' '' @ bin2hex (sbEntryID m)"

definition HrCmdUidl :: "popenv \<Rightarrow> pop3 \<Rightarrow> hresult \<times> pop3" where
  "HrCmdUidl e c =
     write_lines e (''+OK'' # map (\<lambda>(i, m). uidl_line (of_nat i + 1) m) (enumerate 0 (lstMails c)) @ [''.'']) c"

text \<open>A refused number gives the result of the response if that failed.\<close>

definition not_found :: "popenv \<Rightarrow> pop3 \<Rightarrow> hresult \<times> pop3" where
  "not_found e c =
     (case HrResponse e POP3_RESP_ERR ''mail nr not found'' c of (hr, c) \<Rightarrow>
        (if hr = hrSuccess then MAPI_E_NOT_FOUND else hr, c))"

definition HrCmdUidl_nr :: "popenv \<Rightarrow> uint32 \<Rightarrow> pop3 \<Rightarrow> hresult \<times> pop3" where
  "HrCmdUidl_nr e ulMailNr c =
     (if bad_number ulMailNr c then not_found e c
      else HrResponse e POP3_RESP_OK (uidl_line ulMailNr (mail_at ulMailNr c)) c)"

section \<open>Deleting\<close>

definition HrCmdDele :: "popenv \<Rightarrow> uint32 \<Rightarrow> pop3 \<Rightarrow> hresult \<times> pop3" where
  "HrCmdDele e ulMailNr c =
     (if bad_number ulMailNr c then not_found e c
      else let i = unat (ulMailNr - 1)
           in HrResponse e POP3_RESP_OK ''mail deleted'' (c\<lparr>lstMails := (lstMails c)[i := (lstMails c ! i)\<lparr>bDeleted := True\<rparr>]\<rparr>))"

definition HrCmdNoop :: "popenv \<Rightarrow> pop3 \<Rightarrow> hresult \<times> pop3" where
  "HrCmdNoop e c = HrResponse e POP3_RESP_OK [] c"

definition HrCmdRset :: "popenv \<Rightarrow> pop3 \<Rightarrow> hresult \<times> pop3" where
  "HrCmdRset e c =
     HrResponse e POP3_RESP_OK ''Undeleted mails'' (c\<lparr>lstMails := map (\<lambda>m. m\<lparr>bDeleted := False\<rparr>) (lstMails c)\<rparr>)"

definition HrCmdQuit :: "popenv \<Rightarrow> pop3 \<Rightarrow> (hresult \<times> pop3) option" where
  "HrCmdQuit e c =
     (let ba = map sbEntryID (filter bDeleted (lstMails c))
      in if ba \<noteq> [] \<and> \<not> lpInbox c then None
         else Some (HrResponse e POP3_RESP_OK ''Bye'' (if ba \<noteq> [] then c\<lparr>deletions := deletions c @ [ba]\<rparr> else c)))"

section \<open>Reading messages\<close>

text \<open>The first argument is the byte before the text; a NUL ends the text.\<close>

fun dot_loop :: "char \<Rightarrow> string \<Rightarrow> string" where
  "dot_loop prev [] = []"
| "dot_loop prev (c # s) =
     (if c = NUL then []
      else (if c = CHR ''.'' \<and> prev = LF then [CHR ''.'', c] else [c]) @ dot_loop c s)"

definition DotFilter :: "popenv \<Rightarrow> string \<Rightarrow> string" where
  "DotFilter e input = dot_loop (byte_before e) input"

definition HrCmdRetr :: "popenv \<Rightarrow> uint32 \<Rightarrow> pop3 \<Rightarrow> (hresult \<times> pop3) option" where
  "HrCmdRetr e ulMailNr c =
     (if bad_number ulMailNr c then Some (respond_and e POP3_RESP_ERR ''mail nr not found'' MAPI_E_NOT_FOUND c)
      else if \<not> lpStore c then None
      else Some (case OpenEntry e (sbEntryID (mail_at ulMailNr c)) of (hr, lpMessage) \<Rightarrow>
        if hr \<noteq> hrSuccess then respond_and e POP3_RESP_ERR ''Failing to open entry'' hr c
        else
          let (hr, strMessage) = imap_email lpMessage;
              (hr, strMessage) = (if hr = hrSuccess then (hr, DotFilter e strMessage)
                                  else case inet_email lpMessage of (hr, szMessage) \<Rightarrow>
                                    (hr, if hr = hrSuccess then DotFilter e szMessage else strMessage))
          in if hr \<noteq> hrSuccess then respond_and e POP3_RESP_PERMFAIL ''Converting MAPI to MIME error'' hr c
             else let c = snd (HrResponse e POP3_RESP_OK (print_u (of_nat (length strMessage)) @ '' octets'') c);
                      c = snd (HrWriteLine e strMessage c);
                      c = snd (HrWriteLine e ''.'' c)
                  in (hrSuccess, c)))"

text \<open>std::string::find: the first occurrence at or after a position.\<close>

fun find_sub :: "string \<Rightarrow> string \<Rightarrow> nat option" where
  "find_sub pat [] = (if pat = [] then Some 0 else None)"
| "find_sub pat (c # s) =
     (if take (length pat) (c # s) = pat then Some 0 else map_option Suc (find_sub pat s))"

definition find_from :: "string \<Rightarrow> string \<Rightarrow> nat \<Rightarrow> nat option" where
  "find_from s pat pos = (if pos \<le> length s then map_option (\<lambda>i. pos + i) (find_sub pat (drop pos s)) else None)"

fun top_loop :: "string \<Rightarrow> nat option \<Rightarrow> nat \<Rightarrow> nat option" where
  "top_loop s ulPos ulLines =
     (case ulPos of
        None \<Rightarrow> None
      | Some p \<Rightarrow> if ulLines = 0 then ulPos else top_loop s (find_from s crlf (p + 1)) (ulLines - 1))"

declare top_loop.simps [simp del]

definition top_text :: "string \<Rightarrow> uint32 \<Rightarrow> string" where
  "top_text strMessage ulLines =
     (case top_loop strMessage (find_from strMessage (crlf @ crlf) 0) (unat (ulLines + 1)) of
        None \<Rightarrow> strMessage
      | Some ulPos \<Rightarrow> take ulPos strMessage)"

definition HrCmdTop :: "popenv \<Rightarrow> uint32 \<Rightarrow> uint32 \<Rightarrow> pop3 \<Rightarrow> (hresult \<times> pop3) option" where
  "HrCmdTop e ulMailNr ulLines c =
     (if bad_number ulMailNr c then Some (not_found e c)
      else if \<not> lpStore c then None
      else Some (case OpenEntry e (sbEntryID (mail_at ulMailNr c)) of (hr, lpMessage) \<Rightarrow>
        if hr \<noteq> hrSuccess then respond_and e POP3_RESP_ERR ''Failing to open entry'' hr c
        else
          let (hr, strMessage) = imap_email lpMessage;
              (hr, strMessage) = (if hr = hrSuccess then (hr, strMessage)
                                  else case inet_email lpMessage of (hr, szMessage) \<Rightarrow> (hr, c_str szMessage))
          in if hr \<noteq> hrSuccess then respond_and e POP3_RESP_PERMFAIL ''Converting MAPI to MIME error'' hr c
             else case write_lines e [POP3_RESP_OK, DotFilter e (top_text strMessage ulLines), ''.''] c of
                    (hr, c) \<Rightarrow> (if hr \<noteq> hrSuccess then MAPI_E_CALL_FAILED else hrSuccess, c)))"

section \<open>The commands\<close>

definition refuse :: "popenv \<Rightarrow> string \<Rightarrow> pop3 \<Rightarrow> (hresult \<times> pop3) option" where
  "refuse e s c = Some (HrResponse e POP3_RESP_ERR s c)"

definition HrProcessCommand :: "popenv \<Rightarrow> string \<Rightarrow> pop3 \<Rightarrow> (hresult \<times> pop3) option" where
  "HrProcessCommand e strInput c =
     (let vWords = tokenize strInput CHR '' '' False; n = length vWords
      in if n = 0 then Some (MAPI_E_CALL_FAILED, c) else
      let strCommand = strToUpper (vWords ! 0); number = (\<lambda>i. strtoui0 (vWords ! i))
      in if strCommand = ''CAPA''
         then (if n \<noteq> 1 then refuse e ''CAPA command must have 0 arguments'' c else Some (HrCmdCapability e c))
      else if strCommand = ''STLS''
         then (if n \<noteq> 1 then refuse e ''STLS command must have 0 arguments'' c
               else case HrCmdStarttls e c of (hr, c) \<Rightarrow>
                 Some (if hr \<noteq> hrSuccess then MAPI_E_END_OF_SESSION else hrSuccess, c))
      else if strCommand = ''USER''
         then (if n \<noteq> 2 then refuse e ''User command must have 1 argument'' c else Some (HrCmdUser e (vWords ! 1) c))
      else if strCommand = ''PASS''
         then (if n < 2 then refuse e ''Pass command must have 1 argument'' c
               else HrCmdPass e (drop (length strCommand + 1) strInput) c)
      else if strCommand = ''QUIT''
         then map_option (\<lambda>(hr, c). (MAPI_E_END_OF_SESSION, c)) (HrCmdQuit e c)
      else if \<not> IsAuthorized c
         then Some (respond_and e POP3_RESP_ERR ''Invalid command'' MAPI_E_CALL_FAILED c)
      else if strCommand = ''STAT''
         then (if n \<noteq> 1 then refuse e ''Stat command has no arguments'' c else Some (HrCmdStat e c))
      else if strCommand = ''LIST''
         then (if n > 2 then refuse e ''List must have 0 or 1 arguments'' c
               else Some (if n = 2 then HrCmdList_nr e (number 1) c else HrCmdList e c))
      else if strCommand = ''RETR''
         then (if n \<noteq> 2 then refuse e ''RETR must have 1 argument'' c else HrCmdRetr e (number 1) c)
      else if strCommand = ''DELE''
         then (if n \<noteq> 2 then refuse e ''DELE must have 1 argument'' c else Some (HrCmdDele e (number 1) c))
      else if strCommand = ''NOOP''
         then (if n > 1 then refuse e ''NOOP must have 0 arguments'' c else Some (HrCmdNoop e c))
      else if strCommand = ''RSET''
         then (if n > 1 then refuse e ''RSET must have 0 arguments'' c else Some (HrCmdRset e c))
      else if strCommand = ''TOP''
         then (if n \<noteq> 3 then refuse e ''TOP must have 2 arguments'' c else HrCmdTop e (number 1) (number 2) c)
      else if strCommand = ''UIDL''
         then (if n > 2 then refuse e ''UIDL must have 0 or 1 arguments'' c
               else Some (if n = 2 then HrCmdUidl_nr e (number 1) c else HrCmdUidl e c))
      else Some (respond_and e POP3_RESP_ERR ''Function not (yet) implemented'' MAPI_E_CALL_FAILED c))"

section \<open>The command loop\<close>

text \<open>
  One round of the loop of Handler: what HrSelect and HrReadLine answer, and the flag \<open>quit\<close> a signal
  has set while the line was read.
\<close>

datatype round =
    Interrupted
  | TimedOut
  | SocketError
  | Disconnected
  | Line string bool

record handler =
  client :: pop3
  timeouts :: nat
  bQuit :: bool

inductive handler_step :: "handler \<Rightarrow> popenv \<times> round \<Rightarrow> handler \<Rightarrow> bool" where
  interrupted: "\<not> bQuit h \<Longrightarrow> handler_step h (e, Interrupted) h"
| idle: "\<not> bQuit h \<Longrightarrow> timeouts h + 1 < getTimeoutMinutes (client h) \<Longrightarrow>
    handler_step h (e, TimedOut) (h\<lparr>timeouts := timeouts h + 1\<rparr>)"
| timed_out: "\<not> bQuit h \<Longrightarrow> \<not> timeouts h + 1 < getTimeoutMinutes (client h) \<Longrightarrow>
    handler_step h (e, TimedOut)
      (h\<lparr>timeouts := timeouts h + 1, client := snd (HrCloseConnection e ''BYE Connection closed because of timeout'' (client h)), bQuit := True\<rparr>)"
| socket_error: "\<not> bQuit h \<Longrightarrow> handler_step h (e, SocketError) (h\<lparr>bQuit := True\<rparr>)"
| disconnected: "\<not> bQuit h \<Longrightarrow> handler_step h (e, Disconnected) (h\<lparr>timeouts := 0, bQuit := True\<rparr>)"
| shutting_down: "\<not> bQuit h \<Longrightarrow>
    handler_step h (e, Line s True)
      (h\<lparr>timeouts := 0, client := snd (HrCloseConnection e ''BYE server shutting down'' (client h)), bQuit := True\<rparr>)"
| command: "\<not> bQuit h \<Longrightarrow> HrProcessCommand e s (client h) = Some (hr, c) \<Longrightarrow>
    handler_step h (e, Line s False)
      (h\<lparr>timeouts := 0, client := c, bQuit := (hr = MAPI_E_NETWORK_ERROR \<or> hr = MAPI_E_END_OF_SESSION)\<rparr>)"

inductive_cases commandE: "handler_step h (e, Line s False) h'"

text \<open>A connection after its greeting; it ends at once when the greeting cannot be sent.\<close>

definition start_handler :: "popenv \<Rightarrow> bool \<Rightarrow> string \<Rightarrow> handler" where
  "start_handler e ssl host =
     (case HrSendGreeting e host (new_POP3 ssl) of (hr, c) \<Rightarrow>
        \<lparr>client = c, timeouts = 0, bQuit = (hr \<noteq> hrSuccess)\<rparr>)"

end
