(* ===== verification/StringUtilSpec.thy ===== *)
theory StringUtilSpec
  imports StringUtil
begin

text \<open>
  Round trips of the encodings of StringUtil: hexadecimal, URL and base 64, and the line end
  conversions.
\<close>

section \<open>Characters and bytes\<close>

lemma chr_byte [simp]: "chr_of (byte_of c) = c"
  by (simp add: chr_of_def byte_of_def unsigned_of_nat take_bit_eq_mod)

lemma byte_chr [simp]: "byte_of (chr_of b) = b"
proof -
  have "unat b < 256" by (rule less_le_trans [OF unsigned_less]) simp
  then show ?thesis by (simp add: chr_of_def byte_of_def)
qed

lemma chr_of_inj: "chr_of a = chr_of b \<longleftrightarrow> a = b"
  by (metis byte_chr)

lemma byte_of_inj: "byte_of a = byte_of b \<longleftrightarrow> a = b"
  by (metis chr_byte)

lemma char_eq_byte: "c = CHR ''%'' \<longleftrightarrow> byte_of c = 37"
  using byte_of_inj [of c "CHR ''%''"] by (simp add: byte_of_def)

section \<open>Hexadecimal\<close>

lemma x2b_digit: "n < 16 \<Longrightarrow> x2b (hex_digits ! n) = of_nat n"
proof -
  have "\<forall>n \<in> {0..<16}. x2b (hex_digits ! n) = of_nat n" by code_simp
  then show "n < 16 \<Longrightarrow> x2b (hex_digits ! n) = of_nat n" by simp
qed

lemma nibbles:
  fixes b :: byte
  shows "push_bit 4 (drop_bit 4 b) OR b AND 0x0F = b"
    and "unat (drop_bit 4 b) < 16" and "unat (b AND 0x0F) < 16"
proof -
  have m: "b AND 0x0F = take_bit 4 b"
    by (simp add: take_bit_eq_mask mask_eq_exp_minus_1)
  show "push_bit 4 (drop_bit 4 b) OR b AND 0x0F = b"
    unfolding m by (rule bit_word_eqI) (auto simp: bit_simps)
  show "unat (b AND 0x0F) < 16"
    unfolding m unsigned_take_bit_eq by (simp add: take_bit_eq_mod)
  have "unat b < 256" by (rule less_le_trans [OF unsigned_less]) simp
  then show "unat (drop_bit 4 b) < 16" unfolding unsigned_drop_bit_eq by (simp add: drop_bit_eq_div take_bit_eq_mod less_mult_imp_div_less)
qed

lemma hex_byte_back: "push_bit 4 (x2b (hex_byte b ! 0)) OR x2b (hex_byte b ! 1) = b"
  by (simp add: hex_byte_def x2b_digit nibbles)

lemma hex_byte_shape: "hex_byte b = [hex_byte b ! 0, hex_byte b ! 1]"
  by (simp add: hex_byte_def)

lemma hex_pairs_append: "hex_pairs (hex_byte b @ s) = b # hex_pairs s"
  by (subst hex_byte_shape) (simp add: hex_byte_back del: One_nat_def)

lemma length_bin2hex: "length (bin2hex s) = 2 * length s"
  by (induction s) (simp_all add: bin2hex_def hex_byte_def)

lemma hex_round_trip: "hex2bin (bin2hex s) = s"
proof -
  have "hex_pairs (concat (map hex_byte s)) = s"
    by (induction s) (simp_all add: hex_pairs_append)
  then show ?thesis
    by (simp add: hex2bin_def length_bin2hex) (simp add: bin2hex_def)
qed

lemma bin2hex_inj: "bin2hex a = bin2hex b \<longleftrightarrow> a = b"
  by (metis hex_round_trip)

section \<open>URLs\<close>

lemma url_decode_plain: "c \<noteq> CHR ''%'' \<Longrightarrow> urlDecode (c # s) = c # urlDecode s"
  by (simp split: list.splits)

lemma url_decode_hex: "urlDecode (CHR ''%'' # hex_byte b @ s) = chr_of b # urlDecode s"
  by (subst hex_byte_shape) (simp add: hex_byte_back del: One_nat_def)

text \<open>The percent sign is not among the reserved characters, so it is not encoded itself.\<close>

lemma url_round_trip:
  assumes "CHR ''%'' \<notin> set s"
  shows "urlDecode (urlEncode s) = s"
  using assms
proof (induction s)
  case (Cons c s)
  then have "urlDecode (concat (map url_char s)) = s" and "c \<noteq> CHR ''%''"
    by (auto simp: urlEncode_def)
  then show ?case
    by (auto simp: urlEncode_def url_char_def url_decode_hex url_decode_plain simp del: urlDecode.simps)
qed (simp add: urlEncode_def)

lemma percent_is_not_encoded: "urlDecode (urlEncode ''%41'') = ''A''"
  by code_simp

section \<open>Base 64\<close>

lemma length_takeWhile_nth: "distinct xs \<Longrightarrow> n < length xs \<Longrightarrow> length (takeWhile (\<lambda>d. d \<noteq> xs ! n) xs) = n"
proof (induction xs arbitrary: n)
  case (Cons x xs)
  then show ?case by (cases n) (auto simp: in_set_conv_nth)
qed simp

lemma base64_alphabet: "distinct base64_chars" "length base64_chars = 64"
  by (simp_all add: base64_chars_def)

lemma b64_find_char: "unat w < 64 \<Longrightarrow> b64_find (b64_char w) = w"
  by (simp add: b64_find_def b64_char_def length_takeWhile_nth base64_alphabet)

lemma b64_char_ok: "unat w < 64 \<Longrightarrow> is_base64 (b64_char w) \<and> b64_char w \<noteq> CHR ''=''"
proof -
  have "\<forall>c \<in> set base64_chars. is_base64 c \<and> c \<noteq> CHR ''=''"
    by (simp add: base64_chars_def is_base64_def is_alnum_def is_digit_def is_upper_def is_lower_def byte_of_def)
  then show "unat w < 64 \<Longrightarrow> is_base64 (b64_char w) \<and> b64_char w \<noteq> CHR ''=''"
    using nth_mem [of "unat w" base64_chars] base64_alphabet by (auto simp: b64_char_def)
qed

lemma b64_find_NUL: "b64_find NUL = - 1"
  by (simp add: b64_find_def base64_chars_def NUL_def)

text \<open>The sums of the source never carry.\<close>

lemma add_is_or: "(a::byte) AND b = 0 \<Longrightarrow> a + b = a OR b"
  by (rule disjunctive_add_eq_or)

lemma byte_eqI:
  fixes a b :: byte
  assumes "bit a 0 = bit b 0" "bit a 1 = bit b 1" "bit a 2 = bit b 2" "bit a 3 = bit b 3"
    "bit a 4 = bit b 4" "bit a 5 = bit b 5" "bit a 6 = bit b 6" "bit a 7 = bit b 7"
  shows "a = b"
proof (rule bit_word_eqI)
  fix n assume "n < LENGTH(8)"
  then have "n = 0 \<or> n = 1 \<or> n = 2 \<or> n = 3 \<or> n = 4 \<or> n = 5 \<or> n = 6 \<or> n = 7" by auto
  then show "bit a n = bit b n" using assms by auto
qed

lemma array_4_or:
  "array_4 [x, y, z] =
     [drop_bit 2 (x AND 0xfc), push_bit 4 (x AND 0x03) OR drop_bit 4 (y AND 0xf0),
      push_bit 2 (y AND 0x0f) OR drop_bit 6 (z AND 0xc0), z AND 0x3f]"
proof -
  have "push_bit 4 (x AND 0x03) AND drop_bit 4 (y AND 0xf0) = 0"
    by (rule byte_eqI) (simp_all add: bit_simps)
  moreover have "push_bit 2 (y AND 0x0f) AND drop_bit 6 (z AND 0xc0) = 0"
    by (rule byte_eqI) (simp_all add: bit_simps)
  ultimately show ?thesis by (simp add: array_4_def add_is_or numeral_3_eq_3 numeral_2_eq_2)
qed

lemma array_3_or:
  "array_3 [p, q, r, s] =
     [push_bit 2 p OR drop_bit 4 (q AND 0x30), push_bit 4 (q AND 0xf) OR drop_bit 2 (r AND 0x3c), push_bit 6 (r AND 0x3) + s]"
proof -
  have "push_bit 2 p AND drop_bit 4 (q AND 0x30) = 0"
    by (rule byte_eqI) (simp_all add: bit_simps)
  moreover have "push_bit 4 (q AND 0xf) AND drop_bit 2 (r AND 0x3c) = 0"
    by (rule byte_eqI) (simp_all add: bit_simps)
  ultimately show ?thesis by (simp add: array_3_def add_is_or numeral_3_eq_3 numeral_2_eq_2)
qed

lemma first_back: "push_bit 2 (drop_bit 2 (x AND 0xfc)) OR
    drop_bit 4 ((push_bit 4 (x AND 0x03) OR drop_bit 4 (y AND 0xf0)) AND 0x30) = (x :: byte)"
  by (rule byte_eqI) (simp_all add: bit_simps)

lemma second_back: "push_bit 4 ((push_bit 4 (x AND 0x03) OR drop_bit 4 (y AND 0xf0)) AND 0xf) OR
    drop_bit 2 ((push_bit 2 (y AND 0x0f) OR drop_bit 6 (z AND 0xc0)) AND 0x3c) = (y :: byte)"
  by (rule byte_eqI) (simp_all add: bit_simps)

lemma third_back: "push_bit 6 ((push_bit 2 (y AND 0x0f) OR drop_bit 6 (z AND 0xc0)) AND 0x3) + (z AND 0x3f) = (z :: byte)"
proof -
  have "push_bit 6 ((push_bit 2 (y AND 0x0f) OR drop_bit 6 (z AND 0xc0)) AND 0x3) AND (z AND 0x3f) = 0"
    by (rule byte_eqI) (simp_all add: bit_simps)
  then have "push_bit 6 ((push_bit 2 (y AND 0x0f) OR drop_bit 6 (z AND 0xc0)) AND 0x3) + (z AND 0x3f) =
      push_bit 6 ((push_bit 2 (y AND 0x0f) OR drop_bit 6 (z AND 0xc0)) AND 0x3) OR (z AND 0x3f)"
    by (rule add_is_or)
  also have "\<dots> = z" by (rule byte_eqI) (simp_all add: bit_simps)
  finally show ?thesis .
qed

lemma array_back: "array_3 (array_4 [x, y, z]) = [x, y, z]"
  unfolding array_4_or array_3_or first_back second_back third_back by (rule refl)

lemma below_64: "bit (g :: byte) 6 = False \<Longrightarrow> bit g 7 = False \<Longrightarrow> unat g < 64"
proof -
  assume "bit g 6 = False" "bit g 7 = False"
  then have "take_bit 6 g = g" by (intro byte_eqI) (simp_all add: bit_simps)
  then have "unat g = take_bit 6 (unat g)" by (metis unsigned_take_bit_eq)
  also have "\<dots> < 64" by (simp add: take_bit_eq_mod)
  finally show ?thesis .
qed

lemma array_4_small: "g \<in> set (array_4 [x, y, z]) \<Longrightarrow> unat g < 64"
  unfolding array_4_or by (auto intro!: below_64 simp: bit_simps)

lemma decode_quad:
  assumes "\<forall>g \<in> {p, q, r, s}. unat g < 64"
  shows "decode_loop [] (b64_char p # b64_char q # b64_char r # b64_char s # t) = array_3 [p, q, r, s] @ decode_loop [] t"
  using assms by (simp add: decode_loop.simps b64_char_ok b64_find_char)

lemma decode_two:
  assumes "unat p < 64" "unat q < 64"
  shows "decode_loop [] [b64_char p, b64_char q, CHR ''='', CHR ''=''] = take 1 (array_3 [p, q, - 1, - 1])"
  using assms by (simp add: decode_loop.simps b64_char_ok b64_find_char b64_find_NUL numeral_2_eq_2)

lemma decode_three:
  assumes "unat p < 64" "unat q < 64" "unat r < 64"
  shows "decode_loop [] [b64_char p, b64_char q, b64_char r, CHR ''=''] = take 2 (array_3 [p, q, r, - 1])"
  using assms by (simp add: decode_loop.simps b64_char_ok b64_find_char b64_find_NUL numeral_2_eq_2)

lemma groups_of:
  obtains p q r s where "array_4 [x, y, z] = [p, q, r, s]" and "array_3 [p, q, r, s] = [x, y, z]"
    and "unat p < 64" "unat q < 64" "unat r < 64" "unat s < 64"
proof -
  obtain p q r s where g: "array_4 [x, y, z] = [p, q, r, s]" by (simp add: array_4_def)
  show ?thesis
    by (rule that [OF g]) (use array_back [of x y z] array_4_small [of _ x y z] g in auto)
qed

lemma padding_not_read:
  "take 1 (array_3 [p, q, r, s]) = take 1 (array_3 [p, q, r', s'])"
  "take 2 (array_3 [p, q, r, s]) = take 2 (array_3 [p, q, r, s'])"
  by (simp_all add: array_3_def numeral_2_eq_2)

lemma base64_loops: "decode_loop [] (encode_loop [] bs) = bs"
proof (induction bs rule: length_induct)
  case (1 bs)
  consider "bs = []" | x where "bs = [x]" | x y where "bs = [x, y]" | x y z t where "bs = x # y # z # t"
    by (metis neq_Nil_conv)
  then show ?case
  proof cases
    case 1 then show ?thesis by (simp add: decode_loop.simps)
  next
    case (2 x)
    obtain p q r s where g: "array_4 [x, 0, 0] = [p, q, r, s]" "array_3 [p, q, r, s] = [x, 0, 0]" "unat p < 64" "unat q < 64"
      by (rule groups_of [of x 0 0])
    then show ?thesis
      using padding_not_read(1) [of p q "- 1" "- 1" r s] by (simp add: 2 numeral_2_eq_2 decode_two)
  next
    case (3 x y)
    obtain p q r s where g: "array_4 [x, y, 0] = [p, q, r, s]" "array_3 [p, q, r, s] = [x, y, 0]" "unat p < 64" "unat q < 64" "unat r < 64"
      by (rule groups_of [of x y 0])
    then show ?thesis
      using padding_not_read(2) [of p q r "- 1" s] by (simp add: 3 decode_three)
  next
    case (4 x y z t)
    obtain p q r s where g: "array_4 [x, y, z] = [p, q, r, s]" "array_3 [p, q, r, s] = [x, y, z]"
      "unat p < 64" "unat q < 64" "unat r < 64" "unat s < 64"
      by (rule groups_of [of x y z])
    then show ?thesis using 1 by (simp add: 4 decode_quad)
  qed
qed

lemma length_array_4 [simp]: "length (array_4 a) = 4"
  by (simp add: array_4_def)

lemma length_encode: "length (encode_loop [] bs) = 4 * ((length bs + 2) div 3)"
proof (induction bs rule: length_induct)
  case (1 bs)
  have step: "(5 + n) div 3 = Suc ((2 + n) div 3)" for n :: nat
    using div_add_self2 [of 3 "2 + n"] by (simp add: ac_simps)
  consider "bs = []" | x where "bs = [x]" | x y where "bs = [x, y]" | x y z t where "bs = x # y # z # t"
    by (metis neq_Nil_conv)
  then show ?case
  proof cases
    case (4 x y z t)
    then have "length (encode_loop [] t) = 4 * ((length t + 2) div 3)" using 1 by simp
    then show ?thesis by (simp add: 4 step)
  qed (simp_all add: numeral_2_eq_2)
qed

text \<open>
  Decoding the base 64 text of any byte string gives the byte string back, and the text has four
  characters for every three bytes begun.
\<close>

lemma base64_round_trip:
  "base64_decode (base64_encode bs) = bs \<and> length (base64_encode bs) = 4 * ((length bs + 2) div 3)"
  by (simp add: base64_decode_def base64_encode_def base64_loops length_encode)

section \<open>Line ends\<close>

text \<open>Every line feed of the result follows a carriage return, the very first character apart.\<close>

fun crlf_ok :: "char option \<Rightarrow> string \<Rightarrow> bool" where
  "crlf_ok p [] = True"
| "crlf_ok p (c # s) = ((c = LF \<longrightarrow> p = None \<or> p = Some CR) \<and> crlf_ok (Some c) s)"

lemma LFtoCRLF_ok: "crlf_ok p (LFtoCRLF_loop p s)"
  by (induction s arbitrary: p) (auto simp: CR_def LF_def)

lemma LFtoCRLF_keeps: "crlf_ok p s \<Longrightarrow> LFtoCRLF_loop p s = s"
  by (induction s arbitrary: p) auto

lemma StringLFtoCRLF_idem: "StringLFtoCRLF (StringLFtoCRLF s) = StringLFtoCRLF s"
  by (simp add: StringLFtoCRLF_def LFtoCRLF_keeps LFtoCRLF_ok)

lemma leading_line_feed_is_kept: "StringLFtoCRLF (LF # s) = LF # LFtoCRLF_loop (Some LF) s"
  by (simp add: StringLFtoCRLF_def)

end
