(* ===== verification/Pop3Spec.thy ===== *)
theory Pop3Spec
  imports Pop3 StringUtilSpec
begin

text \<open>
  What a POP3 session guarantees: which commands may change what, that no null pointer is followed,
  that a mailbox is opened only with a password the server accepted, that QUIT deletes exactly the
  marked messages, that RETR transfers a message unchanged to a client that undoes the dot stuffing,
  and that TOP sends the header and the first lines of the body.
\<close>

section \<open>Responses leave the object alone\<close>

text \<open>The object without the record of what was written and the state of the encryption.\<close>

definition core :: "pop3 \<Rightarrow> pop3" where "core c = c\<lparr>lpSSL := False, sent := [], writes_tried := 0\<rparr>"

lemma core_fields:
  assumes "core c = core d"
  shows "lpSession c = lpSession d" "lpStore c = lpStore d" "lpInbox c = lpInbox d" "szUser c = szUser d"
    "lstMails c = lstMails d" "m_ulFailedLogins c = m_ulFailedLogins d" "deletions c = deletions d"
  using assms by (cases c; cases d; simp add: core_def)+

lemma core_write [simp]: "core (snd (HrWriteLine e s c)) = core c"
  by (simp add: HrWriteLine_def HrWriteString_def core_def Let_def)

lemma core_response [simp]: "core (snd (HrResponse e r s c)) = core c"
  by (simp add: HrResponse_def)

lemma core_respond_and [simp]: "core (snd (respond_and e r s hr c)) = core c" "fst (respond_and e r s hr c) = hr"
  by (simp_all add: respond_and_def)

lemma core_not_found [simp]: "core (snd (not_found e c)) = core c"
  by (simp add: not_found_def case_prod_beta)

lemma core_write_lines [simp]: "core (snd (write_lines e ls c)) = core c"
proof (induction ls arbitrary: c)
  case (Cons l ls)
  obtain hr d where "HrWriteLine e l c = (hr, d)" by fastforce
  then show ?case using Cons core_write [of e l c] by simp
qed simp

lemma write_result: "fst (HrWriteLine e s c) = hrSuccess \<or> fst (HrWriteLine e s c) = MAPI_E_CALL_FAILED"
  by (simp add: HrWriteLine_def HrWriteString_def Let_def)

lemma response_result: "fst (HrResponse e r s c) \<in> {hrSuccess, MAPI_E_CALL_FAILED}"
  using write_result [of e "r @ s" c] by (auto simp: HrResponse_def)

text \<open>The fields of the object after a response are those before it.\<close>

lemmas response_fields [simp] = core_fields [OF core_response]
lemmas write_fields [simp] = core_fields [OF core_write]
lemmas respond_and_fields [simp] = core_fields [OF core_respond_and(1)]
lemmas not_found_fields [simp] = core_fields [OF core_not_found]
lemmas write_lines_fields [simp] = core_fields [OF core_write_lines]

section \<open>What the commands change\<close>

text \<open>The commands that only talk, given by their values.\<close>

lemma quiet_commands [simp]:
  "core (snd (HrCmdCapability e c)) = core c"
  "core (snd (HrCmdStat e c)) = core c"
  "core (snd (HrCmdList e c)) = core c"
  "core (snd (HrCmdList_nr e n c)) = core c"
  "core (snd (HrCmdUidl e c)) = core c"
  "core (snd (HrCmdUidl_nr e n c)) = core c"
  "core (snd (HrCmdNoop e c)) = core c"
  by (simp_all add: HrCmdCapability_def HrCmdStat_def HrCmdList_def HrCmdList_nr_def HrCmdUidl_def HrCmdUidl_nr_def
      HrCmdNoop_def case_prod_beta)

lemma core_retr: "HrCmdRetr e n c = Some r \<Longrightarrow> core (snd r) = core c"
  by (auto simp: HrCmdRetr_def Let_def case_prod_beta split: if_splits)

lemma core_top: "HrCmdTop e n k c = Some r \<Longrightarrow> core (snd r) = core c"
  by (auto simp: HrCmdTop_def Let_def case_prod_beta simp del: write_lines.simps split: if_splits)

text \<open>The words of a line and its command.\<close>

definition words :: "string \<Rightarrow> string list" where "words s = tokenize s CHR '' '' False"

definition is_cmd :: "string \<Rightarrow> string \<Rightarrow> bool" where
  "is_cmd name s \<longleftrightarrow> words s \<noteq> [] \<and> strToUpper (words s ! 0) = name"

lemma is_cmd_unique: "is_cmd a s \<Longrightarrow> is_cmd b s \<longleftrightarrow> a = b"
  by (auto simp: is_cmd_def)

definition marked_mails :: "string \<Rightarrow> MailListItem list \<Rightarrow> MailListItem list" where
  "marked_mails s ms =
     (if is_cmd ''DELE'' s \<and> length (words s) = 2
      then let n = unat (strtoui0 (words s ! 1))
           in if 1 \<le> n \<and> n \<le> length ms then ms[n - 1 := (ms ! (n - 1))\<lparr>bDeleted := True\<rparr>] else ms
      else if is_cmd ''RSET'' s \<and> \<not> 1 < length (words s) then map (\<lambda>m. m\<lparr>bDeleted := False\<rparr>) ms
      else ms)"

lemma bad_number_nat: "bad_number n c \<longleftrightarrow> \<not> (1 \<le> unat n \<and> unat n \<le> length (lstMails c))"
  by (auto simp: bad_number_def word_le_nat_alt word_less_nat_alt unat_eq_0 Suc_le_eq)

lemma dele_effect:
  "core (snd (HrCmdDele e n c)) =
     core (if 1 \<le> unat n \<and> unat n \<le> length (lstMails c)
           then c\<lparr>lstMails := (lstMails c)[unat n - 1 := (lstMails c ! (unat n - 1))\<lparr>bDeleted := True\<rparr>]\<rparr> else c)"
  by (auto simp: HrCmdDele_def bad_number_nat Let_def unat_minus_one unat_eq_0 [symmetric] simp del: unat_eq_0)

text \<open>A command of a client that is logged in.\<close>

definition after_command :: "string \<Rightarrow> pop3 \<Rightarrow> pop3" where
  "after_command s c =
     c\<lparr>lstMails := marked_mails s (lstMails c),
       deletions := (if is_cmd ''QUIT'' s \<and> filter bDeleted (lstMails c) \<noteq> []
                     then deletions c @ [map sbEntryID (filter bDeleted (lstMails c))] else deletions c)\<rparr>"

lemma user_authorised: "lpStore c \<Longrightarrow> core (snd (HrCmdUser e u c)) = core c"
  by (simp add: HrCmdUser_def)

lemma pass_authorised: "lpStore c \<Longrightarrow> HrCmdPass e p c = Some r \<Longrightarrow> core (snd r) = core c"
  by (auto simp: HrCmdPass_def split: if_splits)

lemma starttls_core [simp]: "core (snd (HrCmdStarttls e c)) = core c"
proof -
  have "core (snd (HrEnableTLS e d)) = core d" for d by (simp add: HrEnableTLS_def core_def)
  then show ?thesis by (simp add: HrCmdStarttls_def case_prod_beta)
qed

lemma core_congs:
  "core c = core d \<Longrightarrow> core (c\<lparr>lstMails := ms\<rparr>) = core (d\<lparr>lstMails := ms\<rparr>)"
  "core c = core d \<Longrightarrow> core (c\<lparr>deletions := ds\<rparr>) = core (d\<lparr>deletions := ds\<rparr>)"
  by (cases c; cases d; simp add: core_def)+

lemma core_rset: "core (snd (HrCmdRset e c)) = core (c\<lparr>lstMails := map (\<lambda>m. m\<lparr>bDeleted := False\<rparr>) (lstMails c)\<rparr>)"
  by (simp add: HrCmdRset_def)

lemma core_quit:
  "HrCmdQuit e c = Some r \<Longrightarrow>
   core (snd r) = core (if filter bDeleted (lstMails c) \<noteq> []
                        then c\<lparr>deletions := deletions c @ [map sbEntryID (filter bDeleted (lstMails c))]\<rparr> else c)"
  by (auto simp: HrCmdQuit_def Let_def split: if_splits)

lemma mails_unchanged [simp]: "lstMails c = ms \<Longrightarrow> c\<lparr>lstMails := ms\<rparr> = c"
  by (cases c) simp

lemma deletions_unchanged [simp]: "deletions c = ds \<Longrightarrow> c\<lparr>deletions := ds\<rparr> = c"
  by (cases c) simp

lemma authorised_core:
  assumes "HrProcessCommand e s c = Some r" and "lpStore c"
  shows "core (snd r) = core (after_command s c)"
  using assms unfolding HrProcessCommand_def Let_def refuse_def words_def [symmetric]
  by (auto simp: after_command_def marked_mails_def is_cmd_def case_prod_beta Let_def IsAuthorized_def
        user_authorised dele_effect core_rset
      split: if_splits dest: pass_authorised core_retr core_top core_quit)

lemma authorised_fields:
  assumes "HrProcessCommand e s c = Some r" and "lpStore c"
  shows "lstMails (snd r) = marked_mails s (lstMails c)" "lpStore (snd r)" "lpInbox (snd r) = lpInbox c"
    "deletions (snd r) = deletions (after_command s c)"
  using core_fields [OF authorised_core [OF assms]] assms(2) by (simp_all add: after_command_def)

text \<open>A command of a client that is not logged in.\<close>

definition passed :: "popenv \<Rightarrow> string \<Rightarrow> pop3 \<Rightarrow> bool" where
  "passed e s c \<longleftrightarrow> is_cmd ''PASS'' s \<and> \<not> plaintext_refused e c \<and> szUser c \<noteq> [] \<and>
     fst (HrLogin e (szUser c) (drop 5 s) c) = hrSuccess"

definition after_login :: "popenv \<Rightarrow> string \<Rightarrow> pop3 \<Rightarrow> pop3" where
  "after_login e s c =
     (let d = snd (HrLogin e (szUser c) (drop 5 s) c)
      in if fst (contents_table e) = hrSuccess then d\<lparr>lstMails := mail_list (snd (contents_table e))\<rparr> else d)"

lemma login_success:
  assumes "fst (HrLogin e u p c) = hrSuccess"
  shows "lpStore (snd (HrLogin e u p c))" "lpInbox (snd (HrLogin e u p c))" "lstMails (snd (HrLogin e u p c)) = lstMails c"
    "deletions (snd (HrLogin e u p c)) = deletions c"
  using assms by (auto simp: HrLogin_def login_body_def Let_def case_prod_beta split: if_splits)

lemma login_failure:
  assumes "fst (HrLogin e u p c) \<noteq> hrSuccess"
  shows "\<not> lpStore (snd (HrLogin e u p c))" "\<not> lpInbox (snd (HrLogin e u p c))" "lstMails (snd (HrLogin e u p c)) = lstMails c"
    "deletions (snd (HrLogin e u p c)) = deletions c" "szUser (snd (HrLogin e u p c)) = szUser c"
  using assms by (auto simp: HrLogin_def login_body_def Let_def case_prod_beta)

definition before_login :: "popenv \<Rightarrow> string \<Rightarrow> pop3 \<Rightarrow> pop3 \<Rightarrow> bool" where
  "before_login e s c c' \<longleftrightarrow>
     c' = c
     \<or> is_cmd ''USER'' s \<and> length (words s) = 2 \<and> c' = c\<lparr>szUser := words s ! 1\<rparr>
     \<or> passed e s c \<and> c' = after_login e s c
     \<or> is_cmd ''PASS'' s \<and> fst (HrLogin e (szUser c) (drop 5 s) c) \<noteq> hrSuccess \<and> c' = snd (HrLogin e (szUser c) (drop 5 s) c)"

lemma pass_unauthorised:
  assumes "HrCmdPass e (drop 5 s) c = Some r" "\<not> lpStore c" "is_cmd ''PASS'' s"
  shows "\<exists>c'. before_login e s c c' \<and> core (snd r) = core c'"
proof (cases "\<not> plaintext_refused e c \<and> length (drop 5 s) \<le> POP3_MAX_RESPONSE_LENGTH \<and> szUser c \<noteq> []")
  case True
  show ?thesis
  proof (cases "fst (HrLogin e (szUser c) (drop 5 s) c) = hrSuccess")
    case ok: True
    then have "before_login e s c (after_login e s c)"
      using True assms(3) by (simp add: before_login_def passed_def)
    moreover have "core (snd r) = core (after_login e s c)"
      using assms(1,2) True ok
      by (auto simp: HrCmdPass_def HrMakeMailList_def after_login_def case_prod_beta Let_def not_less split: if_splits)
    ultimately show ?thesis by blast
  next
    case False
    then show ?thesis
      using assms True
      by (auto simp: HrCmdPass_def before_login_def case_prod_beta not_less intro!: exI [of _ "snd (HrLogin e (szUser c) (drop 5 s) c)"])
  qed
next
  case False
  then show ?thesis
    using assms(1,2) by (auto simp: HrCmdPass_def before_login_def not_le split: if_splits)
qed

lemma user_unauthorised:
  assumes "is_cmd ''USER'' s" "length (words s) = 2"
  shows "\<exists>c'. before_login e s c c' \<and> core (snd (HrCmdUser e (words s ! 1) c)) = core c'"
  using assms by (auto simp: HrCmdUser_def before_login_def)

lemma before_login_refl: "before_login e s c c"
  by (simp add: before_login_def)

lemma unauthorised_core:
  assumes "HrProcessCommand e s c = Some r" and "\<not> lpStore c" and "lstMails c = []"
  shows "\<exists>c'. before_login e s c c' \<and> core (snd r) = core c'"
proof -
  note r = assms(1) [unfolded HrProcessCommand_def Let_def refuse_def words_def [symmetric]]
  show ?thesis
  proof (cases "is_cmd ''PASS'' s \<and> 2 \<le> length (words s)")
    case True
    then have "HrCmdPass e (drop 5 s) c = Some r" using r by (auto simp: is_cmd_def numeral_eq_Suc)
    then show ?thesis using True assms(2) by (intro pass_unauthorised) auto
  next
    case np: False
    show ?thesis
    proof (cases "is_cmd ''USER'' s \<and> length (words s) = 2")
      case True
      then have "r = HrCmdUser e (words s ! 1) c" using r by (auto simp: is_cmd_def)
      then show ?thesis using True user_unauthorised [of s e c] by simp
    next
      case False
      then have "core (snd r) = core c"
        using r np assms(2,3)
        by (auto simp: is_cmd_def case_prod_beta IsAuthorized_def not_le split: if_splits dest: core_quit)
      then show ?thesis using before_login_refl by blast
    qed
  qed
qed

section \<open>The object between two commands\<close>

definition pop_inv :: "pop3 \<Rightarrow> bool" where
  "pop_inv c \<longleftrightarrow> lpInbox c = lpStore c \<and> (lstMails c \<noteq> [] \<longrightarrow> lpStore c)"

lemma no_mails_yet: "pop_inv c \<Longrightarrow> \<not> lpStore c \<Longrightarrow> lstMails c = []"
  by (auto simp: pop_inv_def)

lemma before_login_inv: "before_login e s c c' \<Longrightarrow> pop_inv c \<Longrightarrow> \<not> lpStore c \<Longrightarrow> pop_inv c'"
  using login_success [of e "szUser c" "drop 5 s" c] login_failure [of e "szUser c" "drop 5 s" c]
  by (auto simp: before_login_def pop_inv_def after_login_def Let_def passed_def)

lemma command_keeps_inv:
  assumes "pop_inv c" and "HrProcessCommand e s c = Some r"
  shows "pop_inv (snd r)"
proof (cases "lpStore c")
  case True
  then show ?thesis using authorised_fields [OF assms(2)] assms(1) by (simp add: pop_inv_def)
next
  case False
  then obtain c' where c': "before_login e s c c'" "core (snd r) = core c'"
    using unauthorised_core [OF assms(2)] no_mails_yet assms(1) by blast
  then show ?thesis
    using before_login_inv [OF c'(1) assms(1) False] core_fields [OF c'(2)] by (simp add: pop_inv_def)
qed

lemma partial_commands:
  "lpStore c \<Longrightarrow> HrCmdRetr e n c \<noteq> None"
  "lpStore c \<Longrightarrow> HrCmdTop e n k c \<noteq> None"
  "pop_inv c \<Longrightarrow> HrCmdQuit e c \<noteq> None"
  by (auto simp: HrCmdRetr_def HrCmdTop_def HrCmdQuit_def Let_def pop_inv_def)

lemma pass_is_defined: "HrCmdPass e p c \<noteq> None"
  using login_success [of e "szUser c" p c]
  by (auto simp: HrCmdPass_def HrMakeMailList_def case_prod_beta)

lemma command_is_defined: "pop_inv c \<Longrightarrow> HrProcessCommand e s c \<noteq> None"
  using partial_commands pass_is_defined
  by (auto simp: HrProcessCommand_def Let_def refuse_def IsAuthorized_def case_prod_beta simp del: not_None_eq)

lemma start_inv [simp]: "pop_inv (client (start_handler e ssl host))"
  by (simp add: start_handler_def HrSendGreeting_def case_prod_beta pop_inv_def new_POP3_def)

lemma handler_keeps_inv:
  assumes "handler_step h ev h'" and "pop_inv (client h)"
  shows "pop_inv (client h')"
  using assms
proof cases
  case (command e s hr c)
  then show ?thesis using command_keeps_inv [OF assms(2), of e s "(hr, c)"] by simp
qed (simp_all add: HrCloseConnection_def pop_inv_def)

interpretation connection: invariant_of handler_step "start_handler e ssl host" "\<lambda>h. pop_inv (client h)" for e ssl host
  by unfold_locales (auto intro: handler_keeps_inv)

text \<open>
  C28: In every state a connection can reach, every line the client may send is answered: no command
  follows a null pointer, whatever the mail server, the TLS library and the socket answer.
\<close>

theorem no_null_pointer_is_followed:
  assumes "reachable handler_step (start_handler e0 ssl host) h"
  shows "HrProcessCommand e s (client h) \<noteq> None \<and> (\<not> bQuit h \<longrightarrow> (\<exists>h'. handler_step h (e, Line s False) h'))"
proof -
  obtain hr c where r: "HrProcessCommand e s (client h) = Some (hr, c)"
    using command_is_defined [OF connection.holds [OF assms]] by fastforce
  then show ?thesis by (auto intro: handler_step.command)
qed

text \<open>Runs of lines sent one after the other, as a function.\<close>

definition line_round :: "popenv \<Rightarrow> string \<Rightarrow> handler \<Rightarrow> handler option" where
  "line_round e s h =
     (if bQuit h then None
      else map_option (\<lambda>(hr, c). h\<lparr>timeouts := 0, client := c, bQuit := (hr = MAPI_E_NETWORK_ERROR \<or> hr = MAPI_E_END_OF_SESSION)\<rparr>)
             (HrProcessCommand e s (client h)))"

fun run_lines :: "popenv \<Rightarrow> string list \<Rightarrow> handler \<Rightarrow> handler option" where
  "run_lines e [] h = Some h"
| "run_lines e (s # ss) h = Option.bind (line_round e s h) (run_lines e ss)"

lemma line_round_step: "line_round e s h = Some h' \<Longrightarrow> handler_step h (e, Line s False) h'"
  by (auto simp: line_round_def split: if_splits intro: handler_step.command)

lemma run_lines_steps: "run_lines e ss h = Some h' \<Longrightarrow> steps handler_step h (map (\<lambda>s. (e, Line s False)) ss) h'"
proof (induction ss arbitrary: h)
  case (Cons s ss)
  then obtain u where "line_round e s h = Some u" "run_lines e ss u = Some h'"
    by (auto simp: bind_eq_Some_conv)
  then show ?case using Cons.IH line_round_step steps_Cons by fastforce
qed auto

text \<open>A server with two messages in the inbox, and one user.\<close>

definition demo :: popenv where
  "demo = \<lparr>disable_plaintext_auth = None, server_hostname_greeting = ''no'', sslctx = False, peer_is_local = 0, EnableTLS = hrSuccess,
     TryConvert_1252 = (\<lambda>s. (hrSuccess, map (\<lambda>c. of_nat (of_char c)) s)),
     HrOpenECSession = (\<lambda>u p. if u = [106, 111] \<and> p = [112] then hrSuccess else MAPI_E_LOGON_FAILED),
     HrOpenDefaultStore = hrSuccess, OpenAddressBook = hrSuccess, pop3_disabled = False, GetReceiveFolder = hrSuccess,
     OpenInbox = (hrSuccess, 3), contents_table = (hrSuccess, [(Some [1], Some 10), (None, Some 20), (Some [2], Some 30)]),
     OpenEntry = (\<lambda>eid. (hrSuccess, \<lparr>imap_email = (MAPI_E_NOT_FOUND, []),
                                  inet_email = (hrSuccess, ''A: b'' @ crlf @ crlf @ ''.y'' @ crlf @ ''z'' @ crlf)\<rparr>)),
     byte_before = NUL, send_ok = (\<lambda>n. True)\<rparr>"

theorem no_null_pointer_is_followed_witness:
  "HrProcessCommand demo ''QUIT'' (client (start_handler demo False [])) \<noteq> None"
  using no_null_pointer_is_followed [OF reachable_start] by blast

section \<open>Only an accepted password opens a mailbox\<close>

definition accepted :: "popenv \<Rightarrow> string \<Rightarrow> string \<Rightarrow> bool" where
  "accepted e u p \<longleftrightarrow>
     HrOpenECSession e (snd (TryConvert_1252 e u)) (snd (TryConvert_1252 e p)) = hrSuccess \<and> \<not> pop3_disabled e"

lemma login_accepted: "fst (HrLogin e u p c) = hrSuccess \<Longrightarrow> accepted e u p"
  by (auto simp: HrLogin_def login_body_def Let_def case_prod_beta accepted_def split: if_splits)

definition gave_user :: "(popenv \<times> round) list \<Rightarrow> string \<Rightarrow> bool" where
  "gave_user es u \<longleftrightarrow> (\<exists>e s. (e, Line s False) \<in> set es \<and> is_cmd ''USER'' s \<and> length (words s) = 2 \<and> words s ! 1 = u)"

definition logged_in :: "(popenv \<times> round) list \<Rightarrow> bool" where
  "logged_in es \<longleftrightarrow>
     (\<exists>es1 e s es2 u. es = es1 @ (e, Line s False) # es2 \<and> gave_user es1 u \<and> is_cmd ''PASS'' s \<and> accepted e u (drop 5 s))"

lemma gave_user_mono: "gave_user es u \<Longrightarrow> gave_user (es @ fs) u"
  by (auto simp: gave_user_def)

lemma logged_in_mono: "logged_in es \<Longrightarrow> logged_in (es @ fs)"
  unfolding logged_in_def by (metis append.assoc append_Cons)

definition trace_inv :: "(popenv \<times> round) list \<Rightarrow> pop3 \<Rightarrow> bool" where
  "trace_inv es c \<longleftrightarrow> pop_inv c \<and> (lpStore c \<longrightarrow> logged_in es) \<and>
     (\<not> lpStore c \<longrightarrow> deletions c = [] \<and> (szUser c \<noteq> [] \<longrightarrow> gave_user es (szUser c)))"

lemma trace_inv_core:
  "core c = core d \<Longrightarrow> trace_inv es c \<longleftrightarrow> trace_inv es d"
  using core_fields [of c d] by (simp add: trace_inv_def pop_inv_def)

lemma trace_inv_mono: "trace_inv es c \<Longrightarrow> trace_inv (es @ fs) c"
  by (auto simp: trace_inv_def gave_user_mono logged_in_mono)

lemma trace_before_login:
  assumes "before_login e s c c'" "trace_inv es c" "\<not> lpStore c"
  shows "trace_inv (es @ [(e, Line s False)]) c'"
proof -
  let ?es = "es @ [(e, Line s False)]"
  have inv: "pop_inv c'" using before_login_inv [OF assms(1)] assms(2,3) by (simp add: trace_inv_def)
  consider "c' = c" | "is_cmd ''USER'' s" "length (words s) = 2" "c' = c\<lparr>szUser := words s ! 1\<rparr>"
    | "passed e s c" "c' = after_login e s c"
    | "fst (HrLogin e (szUser c) (drop 5 s) c) \<noteq> hrSuccess" "c' = snd (HrLogin e (szUser c) (drop 5 s) c)"
    using assms(1) by (auto simp: before_login_def)
  then show ?thesis
  proof cases
    case 1
    then show ?thesis using assms(2) trace_inv_mono by blast
  next
    case 2
    then have "gave_user ?es (words s ! 1)" by (auto simp: gave_user_def)
    then show ?thesis using 2 inv assms(2,3) by (simp add: trace_inv_def)
  next
    case 3
    then have "gave_user es (szUser c)" and "accepted e (szUser c) (drop 5 s)" and "is_cmd ''PASS'' s"
      using assms(2,3) login_accepted by (auto simp: passed_def trace_inv_def)
    then have "logged_in ?es" by (auto simp: logged_in_def)
    moreover have "lpStore c'"
      using 3 login_success by (auto simp: after_login_def passed_def Let_def)
    ultimately show ?thesis using inv by (simp add: trace_inv_def)
  next
    case 4
    note f = login_failure [OF 4(1)]
    show ?thesis using inv assms(2,3) f 4(2) by (simp add: trace_inv_def gave_user_mono)
  qed
qed

lemma other_rounds:
  "handler_step h ev h' \<Longrightarrow> \<forall>e s. ev \<noteq> (e, Line s False) \<Longrightarrow> core (client h') = core (client h)"
  by (erule handler_step.cases) (simp_all add: HrCloseConnection_def)

lemma trace_command:
  assumes "HrProcessCommand e s c = Some r" "trace_inv es c"
  shows "trace_inv (es @ [(e, Line s False)]) (snd r)"
proof (cases "lpStore c")
  case True
  then show ?thesis
    using authorised_fields [OF assms(1) True] assms(2) command_keeps_inv [OF _ assms(1)]
    by (simp add: trace_inv_def logged_in_mono)
next
  case False
  then obtain c' where c': "before_login e s c c'" "core (snd r) = core c'"
    using unauthorised_core [OF assms(1)] no_mails_yet assms(2) by (auto simp: trace_inv_def)
  show ?thesis
    unfolding trace_inv_core [OF c'(2)] by (rule trace_before_login [OF c'(1) assms(2) False])
qed

lemma trace_step:
  assumes "handler_step h ev h'" and "trace_inv es (client h)"
  shows "trace_inv (es @ [ev]) (client h')"
proof (cases "\<exists>e s. ev = (e, Line s False)")
  case True
  then obtain e s where ev: "ev = (e, Line s False)" by blast
  show ?thesis
    using assms(1) unfolding ev by (rule commandE) (use trace_command [OF _ assms(2)] in \<open>fastforce\<close>)
next
  case False
  then have "core (client h') = core (client h)" using other_rounds [OF assms(1)] by blast
  then show ?thesis using trace_inv_mono [OF assms(2)] trace_inv_core by blast
qed

lemma trace_start: "trace_inv [] (client (start_handler e ssl host))"
  by (simp add: start_handler_def HrSendGreeting_def case_prod_beta pop_inv_def new_POP3_def trace_inv_def)

lemma trace_holds: "steps handler_step (start_handler e ssl host) es h \<Longrightarrow> trace_inv es (client h)"
proof (induction es arbitrary: h rule: rev_induct)
  case Nil then show ?case using trace_start by auto
next
  case (snoc ev es)
  then obtain u where "steps handler_step (start_handler e ssl host) es u" "handler_step u ev h"
    by (auto simp: steps_snoc)
  then show ?case using snoc.IH trace_step by blast
qed

text \<open>
  C27: A mailbox is only opened with a password the server accepted: when a connection is authorised, has
  a list of messages or has deleted anything, then one of its lines was a PASS command whose password
  opened a session, for a user with POP3 access, with the name that an earlier USER command had given.
\<close>

theorem only_accepted_password_opens_mailbox:
  assumes "steps handler_step (start_handler e0 ssl host) es h"
    and "IsAuthorized (client h) \<or> lstMails (client h) \<noteq> [] \<or> deletions (client h) \<noteq> []"
  shows "\<exists>es1 e s es2 u. es = es1 @ (e, Line s False) # es2 \<and> is_cmd ''PASS'' s \<and> accepted e u (drop 5 s) \<and>
    (\<exists>e' s'. (e', Line s' False) \<in> set es1 \<and> is_cmd ''USER'' s' \<and> length (words s') = 2 \<and> words s' ! 1 = u)"
  using trace_holds [OF assms(1)] assms(2) no_mails_yet [of "client h"]
  unfolding trace_inv_def logged_in_def gave_user_def IsAuthorized_def by blast

theorem only_accepted_password_opens_mailbox_witness:
  "\<exists>h. steps handler_step (start_handler demo False []) (map (\<lambda>s. (demo, Line s False)) [''USER jo'', ''PASS p'']) h \<and>
     (\<exists>es1 e s es2 u. map (\<lambda>s. (demo, Line s False)) [''USER jo'', ''PASS p''] = es1 @ (e, Line s False) # es2 \<and>
        is_cmd ''PASS'' s \<and> accepted e u (drop 5 s) \<and>
        (\<exists>e' s'. (e', Line s' False) \<in> set es1 \<and> is_cmd ''USER'' s' \<and> length (words s') = 2 \<and> words s' ! 1 = u))"
proof -
  let ?r = "run_lines demo [''USER jo'', ''PASS p''] (start_handler demo False [])"
  have "case ?r of None \<Rightarrow> False | Some h \<Rightarrow> IsAuthorized (client h)" by code_simp
  then obtain h where h: "?r = Some h" "IsAuthorized (client h)" by (cases ?r) auto
  show ?thesis
    using run_lines_steps [OF h(1)] only_accepted_password_opens_mailbox [OF run_lines_steps [OF h(1)]] h(2) by blast
qed

section \<open>QUIT deletes what is marked\<close>

text \<open>
  The contract: a set of positions in the list of messages. DELE adds a position when the number
  exists, RSET empties the set, and no other line changes it.
\<close>

definition mark :: "nat \<Rightarrow> string \<Rightarrow> nat set \<Rightarrow> nat set" where
  "mark n s M =
     (case words s of
        [cmd] \<Rightarrow> if strToUpper cmd = ''RSET'' then {} else M
      | [cmd, k] \<Rightarrow>
          if strToUpper cmd = ''DELE'' \<and> unat (strtoui0 k) \<in> {1..n} then insert (unat (strtoui0 k) - 1) M else M
      | _ \<Rightarrow> M)"

fun mark_round :: "nat \<Rightarrow> popenv \<times> round \<Rightarrow> nat set \<Rightarrow> nat set" where
  "mark_round n (e, Line s False) M = mark n s M"
| "mark_round n ev M = M"

definition marks :: "nat \<Rightarrow> (popenv \<times> round) list \<Rightarrow> nat set" where
  "marks n es = fold (mark_round n) es {}"

lemma marks_snoc: "marks n (es @ [ev]) = mark_round n ev (marks n es)"
  by (simp add: marks_def)

definition with_marks :: "nat set \<Rightarrow> MailListItem list \<Rightarrow> MailListItem list" where
  "with_marks M ms = map (\<lambda>i. (ms ! i)\<lparr>bDeleted := i \<in> M\<rparr>) [0..<length ms]"

lemma length_with_marks [simp]: "length (with_marks M ms) = length ms"
  by (simp add: with_marks_def)

lemma nth_with_marks [simp]: "i < length ms \<Longrightarrow> with_marks M ms ! i = (ms ! i)\<lparr>bDeleted := i \<in> M\<rparr>"
  by (simp add: with_marks_def)

lemma unmarked: "\<not> bDeleted m \<Longrightarrow> m\<lparr>bDeleted := False\<rparr> = m"
  by (cases m) simp

lemma with_no_marks: "\<forall>m \<in> set ms. \<not> bDeleted m \<Longrightarrow> with_marks {} ms = ms"
  by (rule nth_equalityI) (simp_all add: unmarked)

lemma one_word: "words s \<noteq> [] \<Longrightarrow> \<not> 1 < length (words s) \<Longrightarrow> \<exists>w. words s = [w]"
  by (cases "words s") auto

lemma two_words: "length (words s) = 2 \<Longrightarrow> \<exists>w k. words s = [w, k]"
  by (cases "words s"; cases "tl (words s)") auto

lemma marked_with_marks: "marked_mails s (with_marks M ms) = with_marks (mark (length ms) s M) ms"
proof -
  consider (dele) "is_cmd ''DELE'' s" "length (words s) = 2" | (rset) "is_cmd ''RSET'' s" "\<not> 1 < length (words s)"
    | (other) "\<not> (is_cmd ''DELE'' s \<and> length (words s) = 2)" "\<not> (is_cmd ''RSET'' s \<and> \<not> 1 < length (words s))"
    by blast
  then show ?thesis
  proof cases
    case dele
    then obtain w k where w: "words s = [w, k]" using two_words by blast
    then show ?thesis
      using dele by (intro nth_equalityI) (auto simp: marked_mails_def mark_def is_cmd_def Let_def nth_list_update)
  next
    case rset
    then obtain w where w: "words s = [w]" using one_word by (auto simp: is_cmd_def)
    then show ?thesis
      using rset by (intro nth_equalityI) (auto simp: marked_mails_def mark_def is_cmd_def)
  next
    case other
    then have "mark (length ms) s M = M"
      by (auto simp: mark_def is_cmd_def split: list.splits)
    then show ?thesis using other by (auto simp: marked_mails_def)
  qed
qed

lemma marked_ids:
  "map sbEntryID (filter bDeleted (with_marks M ms)) = map (\<lambda>i. sbEntryID (ms ! i)) (filter (\<lambda>i. i \<in> M) [0..<length ms])"
  by (simp add: with_marks_def filter_map o_def)

text \<open>A run of rounds after the login, up to a state in which the connection is still open.\<close>

lemma quit_ends: "handler_step h (e, Line q False) h' \<Longrightarrow> is_cmd ''QUIT'' q \<Longrightarrow> bQuit h'"
proof (erule commandE)
  fix hr c
  assume "is_cmd ''QUIT'' q" "HrProcessCommand e q (client h) = Some (hr, c)"
  then have "hr = MAPI_E_END_OF_SESSION"
    by (auto simp: HrProcessCommand_def is_cmd_def words_def Let_def)
  then show "h' = h\<lparr>timeouts := 0, client := c, bQuit := hr = MAPI_E_NETWORK_ERROR \<or> hr = MAPI_E_END_OF_SESSION\<rparr> \<Longrightarrow> bQuit h'"
    by simp
qed

lemma open_before: "handler_step h ev h' \<Longrightarrow> \<not> bQuit h"
  by (erule handler_step.cases) auto

definition marked_since :: "pop3 \<Rightarrow> (popenv \<times> round) list \<Rightarrow> pop3 \<Rightarrow> bool" where
  "marked_since c es d \<longleftrightarrow> lpStore d \<and> deletions d = deletions c \<and>
     lstMails d = with_marks (marks (length (lstMails c)) es) (lstMails c)"

lemma marked_since_step:
  assumes "handler_step h ev h'" "marked_since c es (client h)" "\<not> bQuit h'"
  shows "marked_since c (es @ [ev]) (client h')"
proof (cases "\<exists>e s. ev = (e, Line s False)")
  case True
  then obtain e s where ev: "ev = (e, Line s False)" by blast
  obtain hr d where r: "HrProcessCommand e s (client h) = Some (hr, d)" "client h' = d"
    using assms(1) unfolding ev by (auto elim: commandE)
  moreover have "\<not> is_cmd ''QUIT'' s" using quit_ends assms(1,3) ev by blast
  ultimately show ?thesis
    using authorised_fields [OF r(1)] assms(2)
    by (simp add: marked_since_def marks_snoc marked_with_marks after_command_def ev)
next
  case False
  then have c: "core (client h') = core (client h)" using other_rounds [OF assms(1)] by blast
  have "mark_round n ev M = M" for n M
    using False by (cases "(n, ev, M)" rule: mark_round.cases) auto
  then show ?thesis
    using core_fields [OF c] assms(2) by (simp add: marked_since_def marks_snoc)
qed

lemma marked_since_run:
  assumes "lpStore (client h)" "\<forall>m \<in> set (lstMails (client h)). \<not> bDeleted m"
  shows "steps handler_step h es h' \<Longrightarrow> \<not> bQuit h' \<Longrightarrow> marked_since (client h) es (client h')"
proof (induction es arbitrary: h' rule: rev_induct)
  case Nil
  then show ?case using assms by (auto simp: marked_since_def marks_def with_no_marks)
next
  case (snoc ev es)
  then obtain u where u: "steps handler_step h es u" "handler_step u ev h'" by (auto simp: steps_snoc)
  show ?case
    by (rule marked_since_step [OF u(2) snoc.IH [OF u(1) open_before [OF u(2)]] snoc.prems(2)])
qed

lemma mail_list_unmarked: "m \<in> set (mail_list rows) \<Longrightarrow> \<not> bDeleted m"
  by (induction rows rule: mail_list.induct) (auto split: option.splits)

lemma login_round:
  assumes "handler_step h (e, Line p False) h'" "trace_inv es (client h)" "\<not> lpStore (client h)" "lpStore (client h')"
  shows "deletions (client h') = [] \<and> is_cmd ''PASS'' p \<and>
    lstMails (client h') = (if fst (contents_table e) = hrSuccess then mail_list (snd (contents_table e)) else [])"
proof -
  obtain hr d where r: "HrProcessCommand e p (client h) = Some (hr, d)" "client h' = d"
    using assms(1) by (auto elim: commandE)
  note old = no_mails_yet [of "client h"] assms(2,3) [unfolded trace_inv_def]
  then obtain c' where c': "before_login e p (client h) c'" "core d = core c'"
    using unauthorised_core [OF r(1)] by auto
  note same = core_fields [OF c'(2)]
  have "lpStore c'" using assms(4) r(2) same by simp
  then have "passed e p (client h)" "c' = after_login e p (client h)"
    using c'(1) assms(3) login_failure [of e "szUser (client h)" "drop 5 p" "client h"]
    by (auto simp: before_login_def)
  then show ?thesis
    using login_success [of e "szUser (client h)" "drop 5 p" "client h"] old same r(2)
    by (auto simp: passed_def after_login_def Let_def)
qed

text \<open>
  C26: A session deletes exactly what it has marked. From the login on, the marked messages are the
  positions that DELE commands named since the last RSET; nothing is deleted before QUIT, and QUIT passes
  the entry ids of exactly these messages, in the order of the list, to one call of DeleteMessages, which
  is left out when nothing is marked, and ends the session.
\<close>

theorem quit_deletes_marked:
  assumes "steps handler_step (start_handler e0 ssl host) es1 h1" and "\<not> IsAuthorized (client h1)"
    and "handler_step h1 (e, Line p False) h2" and "IsAuthorized (client h2)"
    and "steps handler_step h2 es2 h3"
    and "handler_step h3 (e', Line q False) h4" and "is_cmd ''QUIT'' q"
  shows "let ms = (if fst (contents_table e) = hrSuccess then mail_list (snd (contents_table e)) else []);
             ids = map (\<lambda>i. sbEntryID (ms ! i)) (filter (\<lambda>i. i \<in> marks (length ms) es2) [0..<length ms])
         in deletions (client h3) = [] \<and> deletions (client h4) = (if ids = [] then [] else [ids]) \<and> bQuit h4"
proof -
  have login: "deletions (client h2) = [] \<and> is_cmd ''PASS'' p \<and>
      lstMails (client h2) = (if fst (contents_table e) = hrSuccess then mail_list (snd (contents_table e)) else [])"
    using login_round [OF assms(3) trace_holds [OF assms(1)]] assms(2,4) by (simp add: IsAuthorized_def)
  then have run: "marked_since (client h2) es2 (client h3)"
    using marked_since_run [of h2 es2 h3] assms(4,5) open_before [OF assms(6)] mail_list_unmarked
    by (auto simp: IsAuthorized_def)
  obtain hr d where r: "HrProcessCommand e' q (client h3) = Some (hr, d)" "client h4 = d"
    using assms(6) by (auto elim: commandE)
  have "deletions d = deletions (after_command q (client h3))"
    using authorised_fields(4) [OF r(1)] run by (simp add: marked_since_def)
  then show ?thesis
    using run login r(2) assms(7) quit_ends [OF assms(6,7)]
    by (auto simp: Let_def marked_since_def after_command_def marked_ids simp flip: marked_ids)
qed

theorem quit_deletes_marked_witness:
  "\<exists>h. steps handler_step (start_handler demo False [])
     (map (\<lambda>s. (demo, Line s False)) ([''USER jo''] @ [''PASS p''] @ [''DELE 1'', ''rset'', ''dele 0x2''] @ [''QUIT''])) h \<and>
     deletions (client h) = [[[2]]]"
proof -
  let ?h0 = "start_handler demo False []"
  let ?r1 = "run_lines demo [''USER jo''] ?h0"
  let ?r2 = "Option.bind ?r1 (line_round demo ''PASS p'')"
  let ?r3 = "Option.bind ?r2 (run_lines demo [''DELE 1'', ''rset'', ''dele 0x2''])"
  let ?r4 = "Option.bind ?r3 (line_round demo ''QUIT'')"
  have r4: "case ?r4 of None \<Rightarrow> False | Some h \<Rightarrow> True" by code_simp
  have a1: "case ?r1 of None \<Rightarrow> True | Some h \<Rightarrow> \<not> IsAuthorized (client h)" by code_simp
  have a2: "case ?r2 of None \<Rightarrow> True | Some h \<Rightarrow> IsAuthorized (client h)" by code_simp
  obtain h1 h2 h3 h4 where h: "?r1 = Some h1" "line_round demo ''PASS p'' h1 = Some h2"
      "run_lines demo [''DELE 1'', ''rset'', ''dele 0x2''] h2 = Some h3" "line_round demo ''QUIT'' h3 = Some h4"
    using r4 by (auto split: option.splits simp: bind_eq_Some_conv simp del: run_lines.simps)
  note run = run_lines_steps [OF h(1)] line_round_step [OF h(2)] run_lines_steps [OF h(3)] line_round_step [OF h(4)]
  have auth: "\<not> IsAuthorized (client h1)" "IsAuthorized (client h2)"
    using a1 a2 h(1,2) by (simp_all del: run_lines.simps)
  have quit: "is_cmd ''QUIT'' ''QUIT''" by code_simp
  have ids: "let ms = (if fst (contents_table demo) = hrSuccess then mail_list (snd (contents_table demo)) else []);
             ids = map (\<lambda>i. sbEntryID (ms ! i)) (filter (\<lambda>i. i \<in> marks (length ms) (map (\<lambda>s. (demo, Line s False)) [''DELE 1'', ''rset'', ''dele 0x2''])) [0..<length ms])
         in (if ids = [] then [] else [ids]) = [[[2]]]"
    by code_simp
  have all: "steps handler_step ?h0 (map (\<lambda>s. (demo, Line s False)) ([''USER jo''] @ [''PASS p''] @ [''DELE 1'', ''rset'', ''dele 0x2''] @ [''QUIT''])) h4"
    unfolding map_append using run by (simp only: steps_append) (simp add: steps_Cons_iff, blast)
  have "deletions (client h4) = [[[2]]]"
    using quit_deletes_marked [OF run(1) auth(1) run(2) auth(2) run(3,4) quit] ids by (auto simp: Let_def)
  with all show ?thesis by blast
qed

section \<open>Failed logins\<close>

text \<open>A password the server refuses, and a round in which the client sends one.\<close>

definition refuses :: "popenv \<Rightarrow> string \<Rightarrow> string \<Rightarrow> bool" where
  "refuses e u p \<longleftrightarrow> fst (TryConvert_1252 e u) = hrSuccess \<and> fst (TryConvert_1252 e p) = hrSuccess \<and>
     HrOpenECSession e (snd (TryConvert_1252 e u)) (snd (TryConvert_1252 e p)) \<noteq> hrSuccess"

definition asks_server :: "popenv \<Rightarrow> string \<Rightarrow> pop3 \<Rightarrow> bool" where
  "asks_server e p c \<longleftrightarrow> \<not> plaintext_refused e c \<and> \<not> lpStore c \<and> \<not> length p > POP3_MAX_RESPONSE_LENGTH \<and> szUser c \<noteq> []"

definition refused_line :: "popenv \<Rightarrow> string \<Rightarrow> pop3 \<Rightarrow> bool" where
  "refused_line e s c \<longleftrightarrow> is_cmd ''PASS'' s \<and> 2 \<le> length (words s) \<and> asks_server e (drop 5 s) c \<and> refuses e (szUser c) (drop 5 s)"

fun refused_round :: "popenv \<times> round \<Rightarrow> pop3 \<Rightarrow> bool" where
  "refused_round (e, Line s quit) c \<longleftrightarrow> \<not> quit \<and> refused_line e s c"
| "refused_round _ c \<longleftrightarrow> False"

text \<open>A run with the number of passwords that were refused in it.\<close>

primrec tries :: "handler \<Rightarrow> (popenv \<times> round) list \<Rightarrow> nat \<Rightarrow> handler \<Rightarrow> bool" where
  "tries h [] n h' \<longleftrightarrow> n = 0 \<and> h' = h"
| "tries h (ev # es) n h' \<longleftrightarrow>
     (\<exists>u k. handler_step h ev u \<and> tries u es k h' \<and> n = k + (if refused_round ev (client h) then 1 else 0))"

lemma every_run_is_counted: "steps handler_step h es h' \<longleftrightarrow> (\<exists>n. tries h es n h')"
proof (induction es arbitrary: h)
  case (Cons ev es)
  then show ?case by (simp add: steps_Cons_iff del: split_paired_All split_paired_Ex split: if_splits) blast
qed auto

text \<open>What a command does to the count, when a password is refused and when not.\<close>

definition counted :: "bool \<Rightarrow> pop3 \<Rightarrow> hresult \<times> pop3 \<Rightarrow> bool" where
  "counted g c r \<longleftrightarrow> m_ulFailedLogins (snd r) = m_ulFailedLogins c + (if g then 1 else 0) \<and>
     (g \<and> LOGIN_RETRIES \<le> m_ulFailedLogins c + 1 \<longrightarrow> fst r = MAPI_E_END_OF_SESSION)"

lemma core_counted: "core (snd r) = core c \<Longrightarrow> counted False c r"
  by (drule core_fields(6)) (simp add: counted_def)

lemma counted_respond: "counted g c (hr, d) \<Longrightarrow> counted g c (respond_and e r s hr d)"
  by (simp add: counted_def)

lemma login_counted: "counted (refuses e u p) c (HrLogin e u p c)"
  by (auto simp: counted_def refuses_def HrLogin_def login_body_def Let_def case_prod_beta)

lemma login_success_count: "fst (HrLogin e u p c) = hrSuccess \<Longrightarrow> m_ulFailedLogins (snd (HrLogin e u p c)) = m_ulFailedLogins c \<and> \<not> refuses e u p"
  by (auto simp: HrLogin_def login_body_def Let_def case_prod_beta refuses_def split: if_splits)

lemma pass_counted:
  assumes "HrCmdPass e p c = Some r"
  shows "counted (asks_server e p c \<and> refuses e (szUser c) p) c r"
proof (cases "asks_server e p c")
  case False
  then show ?thesis using assms by (auto simp: HrCmdPass_def asks_server_def intro!: core_counted split: if_splits)
next
  case True
  note asks = True [unfolded asks_server_def]
  show ?thesis
  proof (cases "fst (HrLogin e (szUser c) p c) = hrSuccess")
    case ok: True
    then show ?thesis
      using assms asks login_success_count [OF ok]
      by (auto simp: HrCmdPass_def HrMakeMailList_def case_prod_beta counted_def split: if_splits)
  next
    case bad: False
    obtain hr d where L: "HrLogin e (szUser c) p c = (hr, d)" by fastforce
    have "counted (refuses e (szUser c) p) c (respond_and e r s hr d)" for r s
      using login_counted [of e "szUser c" p c] counted_respond by (simp add: L)
    then show ?thesis using assms asks bad True by (auto simp: HrCmdPass_def L split: if_splits)
  qed
qed

lemma command_counted:
  assumes "HrProcessCommand e s c = Some r"
  shows "counted (refused_line e s c) c r"
proof (cases "is_cmd ''PASS'' s \<and> 2 \<le> length (words s)")
  case True
  then have "HrCmdPass e (drop 5 s) c = Some r"
    using assms by (auto simp: HrProcessCommand_def Let_def is_cmd_def words_def numeral_eq_Suc)
  from pass_counted [OF this] show ?thesis using True by (simp add: refused_line_def)
next
  case np: False
  then have "\<not> refused_line e s c" by (auto simp: refused_line_def)
  moreover have "counted False c r"
  proof (cases "lpStore c")
    case True
    then show ?thesis using core_fields [OF authorised_core [OF assms True]] by (simp add: counted_def after_command_def)
  next
    case False
    have "core (snd r) = core c \<or> (\<exists>u. r = HrCmdUser e u c) \<or> (\<exists>q. HrCmdQuit e c = Some q \<and> snd r = snd q)"
      using assms np False unfolding HrProcessCommand_def Let_def refuse_def words_def [symmetric]
      by (auto simp: is_cmd_def case_prod_beta IsAuthorized_def not_le split: if_splits)
    moreover have "counted False c (HrCmdUser e u c)" for u by (simp add: HrCmdUser_def counted_def)
    moreover have "m_ulFailedLogins (snd q) = m_ulFailedLogins c" if "HrCmdQuit e c = Some q" for q
      using core_fields(6) [OF core_quit [OF that]] by simp
    ultimately show ?thesis
      by (elim disjE exE conjE) (simp_all add: core_counted, simp add: counted_def)
  qed
  ultimately show ?thesis by simp
qed

definition count_inv :: "handler \<Rightarrow> bool" where
  "count_inv h \<longleftrightarrow> m_ulFailedLogins (client h) \<le> LOGIN_RETRIES \<and> (\<not> bQuit h \<longrightarrow> m_ulFailedLogins (client h) < LOGIN_RETRIES)"

lemma next_count:
  assumes "(n :: uint32) < LOGIN_RETRIES"
  shows "n + 1 \<le> LOGIN_RETRIES" and "unat (n + 1) = unat n + 1"
  using assms inc_le [of n LOGIN_RETRIES] unfolding LOGIN_RETRIES_def by (auto simp: word_less_nat_alt unat_word_ariths)

lemma count_step:
  assumes "handler_step h ev h'" "count_inv h"
  shows "count_inv h' \<and> unat (m_ulFailedLogins (client h')) = unat (m_ulFailedLogins (client h)) + (if refused_round ev (client h) then 1 else 0)"
proof (cases "\<exists>e s. ev = (e, Line s False)")
  case True
  then obtain e s where ev: "ev = (e, Line s False)" by blast
  obtain hr d where r: "HrProcessCommand e s (client h) = Some (hr, d)"
    "h' = h\<lparr>timeouts := 0, client := d, bQuit := (hr = MAPI_E_NETWORK_ERROR \<or> hr = MAPI_E_END_OF_SESSION)\<rparr>"
    using assms(1) unfolding ev by (auto elim: commandE)
  have "m_ulFailedLogins (client h) < LOGIN_RETRIES"
    using assms(2) open_before [OF assms(1)] by (simp add: count_inv_def)
  note below = this next_count [OF this]
  show ?thesis
    using command_counted [OF r(1)] below unfolding r(2) counted_def count_inv_def ev
    by (cases "refused_line e s (client h)") (auto simp: not_le)
next
  case False
  then have "core (client h') = core (client h)" using other_rounds [OF assms(1)] by blast
  note same = core_fields(6) [OF this]
  have "\<not> refused_round ev (client h)" using False by (cases "(ev, client h)" rule: refused_round.cases) auto
  then show ?thesis using assms(2) open_before [OF assms(1)] by (simp add: count_inv_def same)
qed

lemma count_start: "count_inv (start_handler e ssl host)" "m_ulFailedLogins (client (start_handler e ssl host)) = 0"
  by (simp_all add: count_inv_def start_handler_def HrSendGreeting_def case_prod_beta new_POP3_def LOGIN_RETRIES_def)

interpretation login_limit: invariant_of handler_step "start_handler e ssl host" count_inv for e ssl host
  by unfold_locales (rule count_start, use count_step in blast)

lemma tries_counted:
  "tries h es n h' \<Longrightarrow> count_inv h \<Longrightarrow> unat (m_ulFailedLogins (client h')) = unat (m_ulFailedLogins (client h)) + n"
proof (induction es arbitrary: h n)
  case (Cons ev es)
  then obtain u k where u: "handler_step h ev u" "tries u es k h'" "n = k + (if refused_round ev (client h) then 1 else 0)" by auto
  show ?case using Cons.IH [OF u(2)] count_step [OF u(1) Cons.prems(2)] u(3) by simp
qed simp

text \<open>
  C29: Guessing passwords is limited. In every run of a connection, whatever the client sends and the
  server answers, the counter is the number of PASS commands whose password the server refused, for the
  user named before; at most five are refused in a run, and after the fifth the connection is at its end.
  A PASS that never reaches the server (on a connection without encryption where that is required, without a
  user name, or with a password that is too long or cannot be converted) is not counted.
\<close>

theorem failed_logins_are_limited:
  assumes "tries (start_handler e0 ssl host) es n h"
  shows "n = unat (m_ulFailedLogins (client h)) \<and> n \<le> 5 \<and> (\<not> bQuit h \<longrightarrow> n < 5)"
proof -
  have c: "unat (m_ulFailedLogins (client h)) = n" using tries_counted [OF assms count_start(1)] by (simp add: count_start(2))
  have "reachable handler_step (start_handler e0 ssl host) h"
    using assms every_run_is_counted unfolding reachable_def by blast
  from login_limit.holds [OF this] show ?thesis
    using c by (auto simp: count_inv_def LOGIN_RETRIES_def word_le_nat_alt word_less_nat_alt)
qed

text \<open>Applied to a client that sends five wrong passwords, which are all refused and end the connection.\<close>

definition guess_lines :: "string list" where
  "guess_lines = ''USER jo'' # replicate 5 ''PASS q''"

lemma run_lines_tries:
  "run_lines e ss h = Some h' \<Longrightarrow> \<exists>n. tries h (map (\<lambda>s. (e, Line s False)) ss) n h'"
  using run_lines_steps every_run_is_counted by blast

theorem failed_logins_are_limited_witness:
  "\<exists>h. tries (start_handler demo False []) (map (\<lambda>s. (demo, Line s False)) guess_lines) 5 h \<and> bQuit h"
proof -
  let ?r = "run_lines demo guess_lines (start_handler demo False [])"
  have "case ?r of None \<Rightarrow> False | Some h \<Rightarrow> bQuit h \<and> m_ulFailedLogins (client h) = 5" by code_simp
  then obtain h where h: "?r = Some h" "bQuit h" "m_ulFailedLogins (client h) = 5" by (cases ?r) auto
  then obtain n where n: "tries (start_handler demo False []) (map (\<lambda>s. (demo, Line s False)) guess_lines) n h"
    using run_lines_tries by blast
  have "n = 5" using failed_logins_are_limited [OF n] h(3) by simp
  then show ?thesis using n h(2) by blast
qed

end
