(* ===== verification/Pop3Mail.thy ===== *)
theory Pop3Mail
  imports Pop3Spec
begin

text \<open>
  The messages that RETR and TOP transfer, as a client of the protocol reads them.
\<close>

section \<open>The client\<close>

text \<open>Lines end with CR LF.\<close>

fun split_line :: "string \<Rightarrow> (string \<times> string) option" where
  "split_line [] = None"
| "split_line (c # s) =
     (if c = CR \<and> (case s of d # _ \<Rightarrow> d = LF | [] \<Rightarrow> False) then Some ([], tl s)
      else map_option (\<lambda>(l, r). (c # l, r)) (split_line s))"

lemma split_line_Cons_None: "split_line (c # l) = None \<longleftrightarrow> \<not> (c = CR \<and> l \<noteq> [] \<and> hd l = LF) \<and> split_line l = None"
  by (cases l) simp_all

lemma split_line_parts: "split_line s = Some (l, r) \<Longrightarrow> s = l @ crlf @ r \<and> split_line l = None"
proof (induction s arbitrary: l)
  case (Cons c s)
  show ?case
  proof (cases "c = CR \<and> (case s of d # _ \<Rightarrow> d = LF | [] \<Rightarrow> False)")
    case True
    then show ?thesis using Cons.prems by (auto simp: crlf_def split: list.splits)
  next
    case False
    then obtain l' where l: "split_line s = Some (l', r)" "l = c # l'"
      using Cons.prems by (auto split: prod.splits)
    then have "s = l' @ crlf @ r" "split_line l' = None" using Cons.IH by auto
    then show ?thesis using False l by (cases l') (auto simp: crlf_def)
  qed
qed simp

lemma split_line_crlf: "split_line l = None \<Longrightarrow> split_line (l @ crlf @ r) = Some (l, r)"
proof (induction l)
  case Nil then show ?case by (simp add: crlf_def)
next
  case (Cons c l)
  then show ?case by (cases l) (auto simp: crlf_def CR_def LF_def split: if_splits)
qed

text \<open>A client reads lines up to a line that is a dot, and takes a leading dot off every other line.\<close>

definition unstuff :: "string \<Rightarrow> string" where
  "unstuff l = (if l \<noteq> [] \<and> hd l = CHR ''.'' then tl l else l)"

function client_read :: "string \<Rightarrow> (string \<times> string) option" where
  "client_read s =
     (case split_line s of
        None \<Rightarrow> None
      | Some (l, r) \<Rightarrow>
          if l = ''.'' then Some ([], r)
          else map_option (\<lambda>(t, r). (unstuff l @ crlf @ t, r)) (client_read r))"
  by pat_completeness auto
termination
  by (relation "measure length") (auto dest!: split_line_parts simp: crlf_def)

declare client_read.simps [simp del]

section \<open>Dot stuffing is undone\<close>

definition stuff :: "char \<Rightarrow> string \<Rightarrow> string" where
  "stuff prev l = (if prev = LF \<and> l \<noteq> [] \<and> hd l = CHR ''.'' then CHR ''.'' # l else l)"

lemma dot_loop_line:
  "NUL \<notin> set l \<Longrightarrow> LF \<notin> set l \<Longrightarrow> dot_loop prev (l @ t) = stuff prev l @ dot_loop (last (prev # l)) t"
proof (induction l arbitrary: prev)
  case (Cons c l)
  then have "c \<noteq> LF" "c \<noteq> NUL" and "dot_loop c (l @ t) = stuff c l @ dot_loop (last (c # l)) t" by auto
  then show ?case by (simp add: stuff_def)
qed (simp add: stuff_def)

lemma dot_loop_crlf: "dot_loop prev (crlf @ t) = crlf @ dot_loop LF t"
  by (simp add: crlf_def CR_def LF_def NUL_def)

lemma unstuff_stuff: "stuff prev l \<noteq> ''.'' \<Longrightarrow> prev = LF \<or> l = [] \<or> hd l \<noteq> CHR ''.'' \<Longrightarrow> unstuff (stuff prev l) = l"
  by (auto simp: stuff_def unstuff_def)

lemma stuffed_is_no_dot: "prev = LF \<or> l = [] \<or> hd l \<noteq> CHR ''.'' \<Longrightarrow> stuff prev l \<noteq> ''.''"
  by (cases l) (auto simp: stuff_def)

lemma stuff_split: "LF \<notin> set l \<Longrightarrow> split_line (stuff prev l) = None"
proof -
  have "LF \<notin> set l \<Longrightarrow> split_line l = None" for l
    by (induction l) (auto simp: split_line_Cons_None simp del: split_line.simps(2) dest: hd_in_set)
  then show "LF \<notin> set l \<Longrightarrow> split_line (stuff prev l) = None" by (simp add: stuff_def LF_def)
qed

lemma no_lf:
  "split_line l = None \<Longrightarrow> crlf_ok (Some p) l \<Longrightarrow> p \<noteq> CR \<or> l = [] \<or> hd l \<noteq> LF \<Longrightarrow> LF \<notin> set l"
proof (induction l arbitrary: p)
  case (Cons c l)
  have "LF \<notin> set l"
    using Cons.prems by (intro Cons.IH [of c]) (auto simp: split_line_Cons_None simp del: split_line.simps(2))
  then show ?case using Cons.prems by auto
qed simp

lemma crlf_ok_append: "crlf_ok p (a @ crlf @ b) \<longleftrightarrow> crlf_ok p a \<and> crlf_ok (Some LF) b"
  by (induction a arbitrary: p) (auto simp: crlf_def CR_def LF_def)

lemma read_stuffed_line:
  assumes "NUL \<notin> set l" "LF \<notin> set l" "prev = LF \<or> l = [] \<or> hd l \<noteq> CHR ''.''"
  shows "client_read (dot_loop prev (l @ crlf @ t) @ r) = map_option (\<lambda>(x, r). (l @ crlf @ x, r)) (client_read (dot_loop LF t @ r))"
proof -
  have "split_line (stuff prev l @ crlf @ dot_loop LF t @ r) = Some (stuff prev l, dot_loop LF t @ r)"
    by (rule split_line_crlf) (rule stuff_split [OF assms(2)])
  then show ?thesis
    by (subst client_read.simps)
      (simp add: dot_loop_line [OF assms(1,2)] dot_loop_crlf stuffed_is_no_dot [OF assms(3)] unstuff_stuff assms(3))
qed

lemma read_dot: "client_read (''.'' @ crlf @ r) = Some ([], r)"
  by (subst client_read.simps, subst split_line_crlf) (simp_all add: CR_def)

lemma read_stuffed:
  assumes "NUL \<notin> set m" "crlf_ok (Some LF) m" "prev = LF \<or> m = [] \<or> hd m \<noteq> CHR ''.''"
  shows "client_read (dot_loop prev m @ crlf @ ''.'' @ crlf @ r) = Some (m @ crlf, r)"
  using assms
proof (induction "length m" arbitrary: m prev rule: less_induct)
  case less
  have noLF: "LF \<notin> set l" if "split_line l = None" "crlf_ok (Some LF) l" for l
    using no_lf [OF that] by (simp add: CR_def LF_def)
  show ?case
  proof (cases "split_line m")
    case None
    have LF: "LF \<notin> set m" by (rule noLF [OF None less.prems(2)])
    have "dot_loop prev m = stuff prev m"
      using dot_loop_line [OF less.prems(1) LF, of prev "[]"] by simp
    moreover have "split_line (stuff prev m @ crlf @ ''.'' @ crlf @ r) = Some (stuff prev m, ''.'' @ crlf @ r)"
      by (rule split_line_crlf) (rule stuff_split [OF LF])
    ultimately show ?thesis
      using stuffed_is_no_dot [OF less.prems(3)] unstuff_stuff [OF _ less.prems(3)] read_dot [of r]
      by (subst client_read.simps) simp
  next
    case (Some lt)
    obtain l t where lt: "lt = (l, t)" by fastforce
    then have m: "m = l @ crlf @ t" and l: "split_line l = None"
      using split_line_parts Some by auto
    have ok: "crlf_ok (Some LF) l" "crlf_ok (Some LF) t" "NUL \<notin> set l" "NUL \<notin> set t"
      using less.prems(1,2) by (auto simp: m crlf_ok_append)
    have first: "prev = LF \<or> l = [] \<or> hd l \<noteq> CHR ''.''"
      using less.prems(3) by (auto simp: m)
    have "client_read (dot_loop LF t @ crlf @ ''.'' @ crlf @ r) = Some (t @ crlf, r)"
      using ok by (intro less.hyps) (auto simp: m crlf_def)
    then show ?thesis
      unfolding m by (subst read_stuffed_line [OF ok(3) noLF [OF l ok(1)] first]) simp
  qed
qed

section \<open>RETR\<close>

text \<open>The text of a message: the stored stream, or else the converted message.\<close>

definition mail_text :: "popmsg \<Rightarrow> string option" where
  "mail_text m =
     (if fst (imap_email m) = hrSuccess then Some (snd (imap_email m))
      else if fst (inet_email m) = hrSuccess then Some (c_str (snd (inet_email m))) else None)"

lemma dot_loop_c_str: "dot_loop prev (c_str s) = dot_loop prev s"
  by (induction s arbitrary: prev) (simp_all add: c_str_def)

lemma write_line_sent:
  assumes "\<forall>i. send_ok e i"
  shows "fst (HrWriteLine e s c) = hrSuccess" "sent (snd (HrWriteLine e s c)) = sent c @ [s @ crlf]"
  using assms by (simp_all add: HrWriteLine_def HrWriteString_def Let_def crlf_def)

lemma write_lines_sent:
  assumes "\<forall>i. send_ok e i"
  shows "fst (write_lines e ls c) = hrSuccess \<and> sent (snd (write_lines e ls c)) = sent c @ map (\<lambda>s. s @ crlf) ls"
  by (induction ls arbitrary: c) (simp_all add: case_prod_beta write_line_sent [OF assms])

definition command_line :: "string \<Rightarrow> string \<Rightarrow> string list \<Rightarrow> bool" where
  "command_line s cmd args \<longleftrightarrow> is_cmd cmd s \<and> tl (words s) = args"

lemma process_retr:
  assumes "command_line s ''RETR'' [k]" "lpStore c"
  shows "HrProcessCommand e s c = HrCmdRetr e (strtoui0 k) c"
proof -
  obtain w where "words s = [w, k]" "strToUpper w = ''RETR''"
    using assms(1) by (cases "words s") (auto simp: command_line_def is_cmd_def)
  then show ?thesis using assms(2) by (simp add: HrProcessCommand_def words_def IsAuthorized_def)
qed

lemma process_top:
  assumes "command_line s ''TOP'' [k, n]" "lpStore c"
  shows "HrProcessCommand e s c = HrCmdTop e (strtoui0 k) (strtoui0 n) c"
proof -
  obtain w where "words s = [w, k, n]" "strToUpper w = ''TOP''"
    using assms(1) by (cases "words s") (auto simp: command_line_def is_cmd_def)
  then show ?thesis using assms(2) by (simp add: HrProcessCommand_def words_def IsAuthorized_def numeral_2_eq_2)
qed

lemma mail_at_number: "unat n \<in> {1..length (lstMails c)} \<Longrightarrow> mail_at n c = lstMails c ! (unat n - 1)"
  by (simp add: mail_at_def unat_minus_one unat_eq_0 [symmetric] del: unat_eq_0)

lemma retr_writes:
  assumes "\<not> bad_number n c" "lpStore c" "OpenEntry e (sbEntryID (mail_at n c)) = (hrSuccess, msg)"
    and "mail_text msg = Some m" "\<forall>i. send_ok e i"
  obtains c' where "HrCmdRetr e n c = Some (hrSuccess, c')"
    "sent c' = sent c @ map (\<lambda>s. s @ crlf) [POP3_RESP_OK @ print_u (of_nat (length (DotFilter e m))) @ '' octets'', DotFilter e m, ''.'']"
proof -
  have "HrCmdRetr e n c = Some (hrSuccess, snd (HrWriteLine e ''.'' (snd (HrWriteLine e (DotFilter e m)
      (snd (HrResponse e POP3_RESP_OK (print_u (of_nat (length (DotFilter e m))) @ '' octets'') c))))))"
    using assms(1-4)
    by (auto simp: HrCmdRetr_def Let_def mail_text_def case_prod_beta DotFilter_def dot_loop_c_str split: if_splits)
  then show ?thesis
    by (rule that) (simp add: HrResponse_def write_line_sent [OF assms(5)])
qed

lemma digit_char_plain: "n < 10 \<Longrightarrow> digit_char n \<noteq> LF"
proof -
  assume "n < 10"
  then have "n = 0 \<or> n = 1 \<or> n = 2 \<or> n = 3 \<or> n = 4 \<or> n = 5 \<or> n = 6 \<or> n = 7 \<or> n = 8 \<or> n = 9" by auto
  then show ?thesis by (elim disjE) (simp_all add: digit_char_def chr_of_def LF_def char_of_def)
qed

lemma udec_plain: "LF \<notin> set (udec n)"
proof (induction n rule: udec.induct)
  case (1 n)
  then show ?case by (subst udec.simps) (auto dest: sym simp: digit_char_plain)
qed

text \<open>
  C30: A message sent by RETR arrives unchanged: for a stored or converted text without NUL, whose line
  feeds all follow a carriage return and that does not start with a dot, a client that reads lines
  up to the one with a single dot, and takes the stuffed dots off, gets exactly the text and one more
  line end, and nothing is left over.
\<close>

theorem retr_round_trip:
  assumes "lpStore c" and "command_line s ''RETR'' [k]"
    and "unat (strtoui0 k) \<in> {1..length (lstMails c)}"
    and "OpenEntry e (sbEntryID (lstMails c ! (unat (strtoui0 k) - 1))) = (hrSuccess, msg)"
    and "mail_text msg = Some m" and "NUL \<notin> set m" and "crlf_ok (Some LF) m" and "m = [] \<or> hd m \<noteq> CHR ''.''"
    and "\<forall>i. send_ok e i"
  shows "\<exists>c' new status body. HrProcessCommand e s c = Some (hrSuccess, c') \<and> sent c' = sent c @ new \<and>
    split_line (concat new) = Some (status, body) \<and> take 4 status = ''+OK '' \<and> client_read body = Some (m @ crlf, [])"
proof -
  have n: "\<not> bad_number (strtoui0 k) c" using assms(3) by (simp add: bad_number_nat)
  obtain c' where c': "HrCmdRetr e (strtoui0 k) c = Some (hrSuccess, c')"
    and new: "sent c' = sent c @ map (\<lambda>s. s @ crlf) [POP3_RESP_OK @ print_u (of_nat (length (DotFilter e m))) @ '' octets'', DotFilter e m, ''.'']"
    using retr_writes [OF n assms(1) _ assms(5,9)] assms(4) mail_at_number [OF assms(3)] by metis
  let ?status = "POP3_RESP_OK @ print_u (of_nat (length (DotFilter e m))) @ '' octets''"
  have "LF \<notin> set ?status" using udec_plain by (auto simp: POP3_RESP_OK_def print_u_def LF_def)
  then have "split_line (?status @ crlf @ DotFilter e m @ crlf @ ''.'' @ crlf) = Some (?status, DotFilter e m @ crlf @ ''.'' @ crlf)"
    using stuff_split [of ?status CR] by (intro split_line_crlf) (simp add: stuff_def CR_def LF_def)
  moreover have "client_read (DotFilter e m @ crlf @ ''.'' @ crlf) = Some (m @ crlf, [])"
    using read_stuffed [of m "byte_before e" "[]"] assms(6-8) by (simp add: DotFilter_def)
  moreover have "take 4 ?status = ''+OK ''" by (simp add: POP3_RESP_OK_def)
  ultimately show ?thesis
    using c' new process_retr [OF assms(2,1)] by (intro exI conjI) (assumption | simp)+
qed

text \<open>A text that starts with a dot is not stuffed there, unless the byte before it is a line feed.\<close>

lemma leading_dot_is_lost:
  "byte_before e \<noteq> LF \<Longrightarrow> client_read (DotFilter e ''.x'' @ crlf @ ''.'' @ crlf) = Some (''x'' @ crlf, [])"
  by (simp add: DotFilter_def LF_def NUL_def) (simp add: client_read.simps crlf_def CR_def LF_def unstuff_def)

text \<open>A client that is logged in to the server of the example.\<close>

definition logged_in_client :: pop3 where
  "logged_in_client = (new_POP3 False)\<lparr>lpSession := True, lpStore := True, lpInbox := True, lpAddrBook := True,
     szUser := ''jo'', lstMails := mail_list (snd (contents_table demo))\<rparr>"

theorem retr_round_trip_witness:
  "\<exists>c' new status body. HrProcessCommand demo ''retr 2'' logged_in_client = Some (hrSuccess, c') \<and>
    sent c' = sent logged_in_client @ new \<and> split_line (concat new) = Some (status, body) \<and> take 4 status = ''+OK '' \<and>
    client_read body = Some ((''A: b'' @ crlf @ crlf @ ''.y'' @ crlf @ ''z'' @ crlf) @ crlf, [])"
proof (rule retr_round_trip)
  show "lpStore logged_in_client" by code_simp
  show "command_line ''retr 2'' ''RETR'' [''2'']" by code_simp
  show "unat (strtoui0 ''2'') \<in> {1..length (lstMails logged_in_client)}" by code_simp
  show "OpenEntry demo (sbEntryID (lstMails logged_in_client ! (unat (strtoui0 ''2'') - 1))) =
     (hrSuccess, snd (OpenEntry demo []))" by code_simp
  show "mail_text (snd (OpenEntry demo [])) = Some (''A: b'' @ crlf @ crlf @ ''.y'' @ crlf @ ''z'' @ crlf)" by code_simp
  show "NUL \<notin> set (''A: b'' @ crlf @ crlf @ ''.y'' @ crlf @ ''z'' @ crlf)" by code_simp
  show "crlf_ok (Some LF) (''A: b'' @ crlf @ crlf @ ''.y'' @ crlf @ ''z'' @ crlf)" by code_simp
  show "''A: b'' @ crlf @ crlf @ ''.y'' @ crlf @ ''z'' @ crlf = [] \<or>
    hd (''A: b'' @ crlf @ crlf @ ''.y'' @ crlf @ ''z'' @ crlf) \<noteq> CHR ''.''" by code_simp
  show "\<forall>i. send_ok demo i" by (simp add: demo_def)
qed

section \<open>TOP\<close>

lemma find_crlf: "find_sub crlf s = map_option (\<lambda>(l, r). length l) (split_line s)"
proof (induction s)
  case (Cons c s)
  then show ?case
    by (cases s) (auto simp: crlf_def option.map_comp o_def case_prod_beta)
qed (simp add: crlf_def)

definition lines_text :: "string list \<Rightarrow> string" where
  "lines_text ls = concat (map (\<lambda>l. l @ crlf) ls)"

lemma length_crlf: "length crlf = 2"
  by (simp add: crlf_def)

lemma find_line_end:
  assumes "drop p m = crlf @ lines_text (l # ls)" "split_line l = None" "p \<le> length m"
  shows "find_from m crlf (p + 1) = Some (p + 2 + length l)" and "drop (p + 2 + length l) m = crlf @ lines_text ls"
proof -
  have d: "drop (p + 1) m = LF # l @ crlf @ lines_text ls"
    using assms(1) by (simp add: crlf_def lines_text_def drop_Suc drop_tl)
  have "split_line (LF # l) = None" using assms(2) by (simp add: split_line_Cons_None CR_def LF_def del: split_line.simps(2))
  then have "split_line (drop (p + 1) m) = Some (LF # l, lines_text ls)"
    using split_line_crlf [of "LF # l" "lines_text ls"] d by simp
  moreover have "p + 1 \<le> length m"
    using assms(1,3) by (cases "p = length m") (auto simp: crlf_def)
  ultimately show "find_from m crlf (p + 1) = Some (p + 2 + length l)"
    by (simp add: find_from_def find_crlf)
  have "drop (p + 2 + length l) m = drop (1 + length l) (drop (p + 1) m)" by (simp add: ac_simps)
  then show "drop (p + 2 + length l) m = crlf @ lines_text ls" unfolding d by simp
qed

lemma find_no_line_end:
  assumes "drop p m = crlf" "p \<le> length m"
  shows "find_from m crlf (p + 1) = None"
proof -
  have "drop (p + 1) m = [LF]" using assms(1) by (simp add: crlf_def drop_Suc drop_tl)
  then show ?thesis by (simp add: find_from_def crlf_def CR_def LF_def)
qed

lemma top_loop_lines:
  assumes "drop p m = crlf @ lines_text ls" "\<forall>l \<in> set ls. split_line l = None" "p \<le> length m"
  shows "top_loop m (Some p) k =
     (if k \<le> length ls then Some (p + length (concat (map (\<lambda>l. crlf @ l) (take k ls)))) else None)"
  using assms
proof (induction ls arbitrary: p k)
  case Nil
  then have "find_from m crlf (p + 1) = None" by (intro find_no_line_end) (simp_all add: lines_text_def)
  then show ?case by (cases k) (simp_all add: top_loop.simps)
next
  case (Cons l ls)
  note f = find_line_end [OF Cons.prems(1) _ Cons.prems(3)]
  have l: "split_line l = None" using Cons.prems(2) by simp
  show ?case
  proof (cases k)
    case 0 then show ?thesis by (simp add: top_loop.simps)
  next
    case (Suc j)
    have "p + 2 + length l \<le> length m"
      using f(2) [OF l] by (metis append_is_Nil_conv crlf_def drop_eq_Nil list.distinct(1) nat_le_linear)
    then have "top_loop m (Some (p + 2 + length l)) j =
        (if j \<le> length ls then Some (p + 2 + length l + length (concat (map (\<lambda>l. crlf @ l) (take j ls)))) else None)"
      using Cons.prems(2) by (intro Cons.IH f(2) [OF l]) auto
    moreover have "top_loop m (Some p) k = top_loop m (Some (p + 2 + length l)) j"
      using f(1) [OF l] Suc by (subst top_loop.simps) simp
    ultimately show ?thesis using Suc by (simp add: length_crlf)
  qed
qed

lemma lines_shift: "crlf @ lines_text xs = concat (map (\<lambda>l. crlf @ l) xs) @ crlf"
  by (induction xs) (simp_all add: lines_text_def)

lemma lines_text_split: "lines_text ls = lines_text (take k ls) @ lines_text (drop k ls)"
  by (simp add: lines_text_def flip: concat_append map_append)

lemma lines_parts:
  "h @ crlf @ lines_text ls = (h @ concat (map (\<lambda>l. crlf @ l) (take k ls))) @ crlf @ lines_text (drop k ls)"
  using lines_shift [of "take k ls"] lines_text_split [of ls k] by (metis append.assoc)

lemma top_loop_take:
  assumes "m = h @ crlf @ lines_text ls" "\<forall>l \<in> set ls. split_line l = None" "k \<le> length ls"
  shows "\<exists>q. top_loop m (Some (length h)) k = Some q \<and> take q m = h @ concat (map (\<lambda>l. crlf @ l) (take k ls))"
proof -
  have "m = (h @ concat (map (\<lambda>l. crlf @ l) (take k ls))) @ crlf @ lines_text (drop k ls)"
    using assms(1) lines_parts by simp
  then have "take (length (h @ concat (map (\<lambda>l. crlf @ l) (take k ls)))) m = h @ concat (map (\<lambda>l. crlf @ l) (take k ls))"
    by (metis append_eq_conv_conj)
  then show ?thesis
    using top_loop_lines [of "length h" m ls k] assms by simp
qed

text \<open>
  A message is a header without an empty line inside, the empty line, and the lines of the body.
\<close>

definition mail_of :: "string \<Rightarrow> string list \<Rightarrow> string" where
  "mail_of h body = h @ crlf @ crlf @ lines_text body"

definition is_mail :: "string \<Rightarrow> string list \<Rightarrow> bool" where
  "is_mail h body \<longleftrightarrow> find_from (mail_of h body) (crlf @ crlf) 0 = Some (length h) \<and> (\<forall>l \<in> set body. split_line l = None)"

lemma top_text_lines:
  assumes "is_mail h body" "ulLines + 1 \<noteq> 0"
  shows "top_text (mail_of h body) ulLines =
    (if unat ulLines \<le> length body then h @ crlf @ concat (map (\<lambda>l. crlf @ l) (take (unat ulLines) body)) else mail_of h body)"
proof -
  have k: "unat (ulLines + 1) = Suc (unat ulLines)"
    using assms(2) unatSuc [of ulLines] by (simp add: add.commute)
  have m: "mail_of h body = h @ crlf @ lines_text ([] # body)"
    by (simp add: mail_of_def lines_text_def)
  have no: "\<forall>l \<in> set ([] # body). split_line l = None"
    using assms(1) by (simp add: is_mail_def)
  have start: "find_from (mail_of h body) (crlf @ crlf) 0 = Some (length h)" using assms(1) by (simp add: is_mail_def)
  show ?thesis
  proof (cases "unat ulLines \<le> length body")
    case True
    then show ?thesis
      using top_loop_take [OF m no, of "Suc (unat ulLines)"] by (auto simp: top_text_def start k)
  next
    case False
    then have "top_loop (mail_of h body) (Some (length h)) (Suc (unat ulLines)) = None"
      using top_loop_lines [of "length h" "mail_of h body" "[] # body"] no by (simp add: m)
    then show ?thesis using False by (simp add: top_text_def start k)
  qed
qed

lemma top_writes:
  assumes "\<not> bad_number n c" "lpStore c" "OpenEntry e (sbEntryID (mail_at n c)) = (hrSuccess, msg)"
    and "mail_text msg = Some m" "\<forall>i. send_ok e i"
  obtains c' where "HrCmdTop e n k c = Some (hrSuccess, c')"
    "sent c' = sent c @ map (\<lambda>s. s @ crlf) [POP3_RESP_OK, DotFilter e (top_text m k), ''.'']"
proof -
  have "HrCmdTop e n k c = Some (hrSuccess, snd (write_lines e [POP3_RESP_OK, DotFilter e (top_text m k), ''.''] c))"
    using assms(1-4) write_lines_sent [OF assms(5), of "[POP3_RESP_OK, DotFilter e (top_text m k), ''.'']" c]
    by (auto simp: HrCmdTop_def Let_def mail_text_def case_prod_beta simp del: write_lines.simps split: if_splits)
  moreover have "sent (snd (write_lines e [POP3_RESP_OK, DotFilter e (top_text m k), ''.''] c)) =
      sent c @ map (\<lambda>s. s @ crlf) [POP3_RESP_OK, DotFilter e (top_text m k), ''.'']"
    using write_lines_sent [OF assms(5)] by blast
  ultimately show ?thesis by (rule that)
qed

lemma crlf_ok_prefix: "crlf_ok p (a @ b) \<Longrightarrow> crlf_ok p a"
  by (induction a arbitrary: p) auto

definition mail_top :: "string \<Rightarrow> string list \<Rightarrow> nat \<Rightarrow> string" where
  "mail_top h body k = h @ crlf @ concat (map (\<lambda>l. crlf @ l) (take k body))"

lemma mail_top_prefix: "\<exists>x. mail_of h body = mail_top h body k @ x"
  using lines_parts [of h "[] # body" "Suc k"] by (auto simp: mail_of_def mail_top_def lines_text_def)

lemma mail_top_line: "mail_top h body k @ crlf = mail_of h (take k body)"
  using lines_shift [of "take k body"] by (simp add: mail_top_def mail_of_def)

lemma mail_top_start: "h = [] \<or> hd h \<noteq> CHR ''.'' \<Longrightarrow> hd (mail_top h body k) \<noteq> CHR ''.'' \<and> hd (mail_of h body) \<noteq> CHR ''.''"
  by (cases h) (auto simp: mail_top_def mail_of_def crlf_def CR_def)

lemma read_top:
  assumes "is_mail h body" "NUL \<notin> set (mail_of h body)" "crlf_ok (Some LF) (mail_of h body)"
    "h = [] \<or> hd h \<noteq> CHR ''.''" "n + 1 \<noteq> 0"
  shows "client_read (DotFilter e (top_text (mail_of h body) n) @ crlf @ ''.'' @ crlf) =
    Some (if unat n \<le> length body then mail_of h (take (unat n) body) else mail_of h body @ crlf, [])"
proof (cases "unat n \<le> length body")
  case True
  obtain x where x: "mail_of h body = mail_top h body (unat n) @ x" using mail_top_prefix by blast
  have "NUL \<notin> set (mail_top h body (unat n))" "crlf_ok (Some LF) (mail_top h body (unat n))"
    using assms(2,3) crlf_ok_prefix by (auto simp: x)
  then show ?thesis
    using read_stuffed [of "mail_top h body (unat n)" "byte_before e" "[]"] mail_top_start [OF assms(4), of body "unat n"] True
    by (simp add: DotFilter_def top_text_lines [OF assms(1,5)] mail_top_line flip: mail_top_def)
next
  case False
  then show ?thesis
    using read_stuffed [OF assms(2,3), of "byte_before e" "[]"] mail_top_start [OF assms(4), of body 0]
    by (simp add: DotFilter_def top_text_lines [OF assms(1,5)])
qed

text \<open>
  C31: TOP sends the header and the first lines of the body, to a client that is logged in and asks for a
  message of its list that can be opened, when every write succeeds. The mail is a header and lines of a body
  that are complete lines; it has no NUL, every line feed follows a carriage return, and it does not start
  with a dot (which would be lost). A client that asks for n lines gets the header, the empty line and the
  first n lines of the body, or the whole message and one line end when the body has fewer lines. The count
  of 2^32 - 1 lines is excluded, which wraps around to none.
\<close>

theorem top_sends_first_lines:
  assumes "lpStore c" and "command_line s ''TOP'' [k, n]"
    and "unat (strtoui0 k) \<in> {1..length (lstMails c)}"
    and "OpenEntry e (sbEntryID (lstMails c ! (unat (strtoui0 k) - 1))) = (hrSuccess, msg)"
    and "mail_text msg = Some (mail_of h body)" and "is_mail h body"
    and "NUL \<notin> set (mail_of h body)" and "crlf_ok (Some LF) (mail_of h body)" and "h = [] \<or> hd h \<noteq> CHR ''.''"
    and "strtoui0 n + 1 \<noteq> 0" and "\<forall>i. send_ok e i"
  shows "\<exists>c' new status body'. HrProcessCommand e s c = Some (hrSuccess, c') \<and> sent c' = sent c @ new \<and>
    split_line (concat new) = Some (status, body') \<and> status = ''+OK '' \<and>
    client_read body' = Some (if unat (strtoui0 n) \<le> length body then mail_of h (take (unat (strtoui0 n)) body)
                              else mail_of h body @ crlf, [])"
proof -
  have nr: "\<not> bad_number (strtoui0 k) c" using assms(3) by (simp add: bad_number_nat)
  obtain c' where c': "HrCmdTop e (strtoui0 k) (strtoui0 n) c = Some (hrSuccess, c')"
    and new: "sent c' = sent c @ map (\<lambda>s. s @ crlf) [POP3_RESP_OK, DotFilter e (top_text (mail_of h body) (strtoui0 n)), ''.'']"
    using top_writes [OF nr assms(1) _ assms(5,11)] assms(4) mail_at_number [OF assms(3)] by metis
  have "split_line (POP3_RESP_OK @ crlf @ r) = Some (''+OK '', r)" for r
    by (subst split_line_crlf) (simp_all add: POP3_RESP_OK_def CR_def LF_def)
  then show ?thesis
    using c' new process_top [OF assms(2,1)] read_top [OF assms(6-10)] by (intro exI conjI) (assumption | simp)+
qed

theorem top_sends_first_lines_witness:
  "\<exists>c' new status body'. HrProcessCommand demo ''TOP 1 1'' logged_in_client = Some (hrSuccess, c') \<and>
    sent c' = sent logged_in_client @ new \<and> split_line (concat new) = Some (status, body') \<and> status = ''+OK '' \<and>
    client_read body' = Some (if unat (strtoui0 ''1'') \<le> length [''.y'', ''z''] then mail_of ''A: b'' (take (unat (strtoui0 ''1'')) [''.y'', ''z''])
                              else mail_of ''A: b'' [''.y'', ''z''] @ crlf, [])"
proof (rule top_sends_first_lines)
  show "lpStore logged_in_client" by code_simp
  show "command_line ''TOP 1 1'' ''TOP'' [''1'', ''1'']" by code_simp
  show "unat (strtoui0 ''1'') \<in> {1..length (lstMails logged_in_client)}" by code_simp
  show "OpenEntry demo (sbEntryID (lstMails logged_in_client ! (unat (strtoui0 ''1'') - 1))) =
     (hrSuccess, snd (OpenEntry demo []))" by code_simp
  show "mail_text (snd (OpenEntry demo [])) = Some (mail_of ''A: b'' [''.y'', ''z''])" by code_simp
  show "is_mail ''A: b'' [''.y'', ''z'']" by code_simp
  show "NUL \<notin> set (mail_of ''A: b'' [''.y'', ''z''])" by code_simp
  show "crlf_ok (Some LF) (mail_of ''A: b'' [''.y'', ''z''])" by code_simp
  show "''A: b'' = [] \<or> hd ''A: b'' \<noteq> CHR ''.''" by code_simp
  show "strtoui0 ''1'' + 1 \<noteq> 0" by code_simp
  show "\<forall>i. send_ok demo i" by (simp add: demo_def)
qed

end
