(* ===== verification/ImapText.thy ===== *)
theory ImapText
  imports StringUtil Restriction
begin

text \<open>
  The text functions of the IMAP server (gateway/IMAP.cpp): splitting a command line, sequence sets,
  folder patterns, and the encoding of folder names.

  The messages of the selected folder enter as the list of their UIDs, in the order of their sequence
  numbers (lstFolderMailEIDs). A wide string is a list of 32-bit characters.
\<close>

type_synonym widestring = "uint32 list"

definition substr :: "'a list \<Rightarrow> nat \<Rightarrow> nat \<Rightarrow> 'a list" where
  "substr s pos n = take n (drop pos s)"

text \<open>std::string::find of a string, as a test.\<close>

definition contains :: "string \<Rightarrow> string \<Rightarrow> bool" where
  "contains s w = (\<exists>i \<in> set [0..<length s + 1]. take (length w) (drop i s) = w)"

section \<open>Splitting a command line\<close>

text \<open>std::string::find_first_of from a position.\<close>

definition find_first_of :: "string \<Rightarrow> string \<Rightarrow> nat \<Rightarrow> nat option" where
  "find_first_of s cs pos =
     (let n = length (takeWhile (\<lambda>c. c \<notin> set cs) (drop pos s))
      in if pos + n < length s then Some (pos + n) else None)"

text \<open>The closing quote: the next one that does not follow a backslash.\<close>

function closing_quote :: "string \<Rightarrow> nat \<Rightarrow> nat option" where
  "closing_quote s specialPos =
     (case find_first_of s ''\"'' (specialPos + 1) of
        None \<Rightarrow> None
      | Some q \<Rightarrow> if s ! (q - 1) = CHR 0x5C then closing_quote s q else Some q)"
  by pat_completeness auto
termination
  by (relation "measure (\<lambda>(s, p). length s - p)") (auto simp: find_first_of_def Let_def split: if_splits)

declare closing_quote.simps [simp del]

lemma find_first_of_bounds: "find_first_of s cs pos = Some q \<Longrightarrow> pos \<le> q \<and> q < length s"
  by (auto simp: find_first_of_def Let_def split: if_splits)

lemma closing_quote_bounds: "closing_quote s p = Some q \<Longrightarrow> p < q \<and> q < length s"
proof (induction s p rule: closing_quote.induct)
  case (1 s p)
  obtain r where r: "find_first_of s ''\"'' (p + 1) = Some r"
    and q: "if s ! (r - 1) = CHR 0x5C then closing_quote s r = Some q else r = q"
    using 1(2) by (subst (asm) closing_quote.simps) (auto split: option.splits if_splits)
  have "p < r \<and> r < length s" using find_first_of_bounds [OF r] by simp
  then show ?case using 1(1) [OF r] q by (auto split: if_splits)
qed

definition split_chars :: string where "split_chars = ''\"()[] ''"

function split_loop :: "string \<Rightarrow> nat \<Rightarrow> nat \<Rightarrow> nat \<Rightarrow> string list \<Rightarrow> string list" where
  "split_loop s uSpecialCount beginPos currentPos vWords =
     (case find_first_of s split_chars currentPos of
        None \<Rightarrow> if beginPos < length s then vWords @ [drop beginPos s] else vWords
      | Some findPos \<Rightarrow>
          if uSpecialCount = 0 \<and> s ! findPos = CHR 0x22
          then (case closing_quote s findPos of
                  Some specialPos \<Rightarrow>
                    split_loop s uSpecialCount (specialPos + 1) (specialPos + 1)
                      (vWords @ [substr s (findPos + 1) (specialPos - findPos - 1)])
                | None \<Rightarrow> split_loop s uSpecialCount beginPos (findPos + 1) vWords)
          else if s ! findPos = CHR ''('' \<or> s ! findPos = CHR ''[''
          then split_loop s (uSpecialCount + 1) beginPos (findPos + 1) vWords
          else if s ! findPos = CHR '')'' \<or> s ! findPos = CHR '']''
          then split_loop s (uSpecialCount - 1) beginPos (findPos + 1) vWords
          else if uSpecialCount = 0
          then split_loop s uSpecialCount (findPos + 1) (findPos + 1)
                 (if findPos > beginPos then vWords @ [substr s beginPos (findPos - beginPos)] else vWords)
          else split_loop s uSpecialCount beginPos (findPos + 1) vWords)"
  by pat_completeness auto
termination
  by (relation "measure (\<lambda>(s, _, _, p, _). length s - p)")
    (auto dest!: find_first_of_bounds closing_quote_bounds)

declare split_loop.simps [simp del]

definition HrSplitInput :: "string \<Rightarrow> string list \<Rightarrow> string list" where
  "HrSplitInput strInput vWords = split_loop strInput 0 0 0 vWords"

definition HrGetDataItems :: "string \<Rightarrow> string list" where
  "HrGetDataItems strNames =
     (let s = strToUpper strNames;
          s = (if s = ''ALL'' then ''FLAGS INTERNALDATE RFC822.SIZE ENVELOPE''
               else if s = ''FAST'' then ''FLAGS INTERNALDATE RFC822.SIZE''
               else if s = ''FULL'' then ''FLAGS INTERNALDATE RFC822.SIZE ENVELOPE BODY'' else s);
          s = (if length s > 1 \<and> s ! 0 = CHR ''('' then butlast (tl s) else s)
      in HrSplitInput s [])"

definition HrSemicolonToComma :: "string \<Rightarrow> string" where
  "HrSemicolonToComma s = map (\<lambda>c. if c = CHR '';'' then CHR '','' else c) s"

section \<open>Sequence sets\<close>

definition LastOrNumber :: "uint32 list \<Rightarrow> string \<Rightarrow> bool \<Rightarrow> uint32" where
  "LastOrNumber uids szNr bUID =
     (if c_str szNr = [] \<or> hd szNr \<noteq> CHR ''*'' then atoui szNr
      else if \<not> bUID then of_nat (length uids)
      else if uids = [] then 0 else last uids)"

text \<open>A part of a set: a number, or the two ends of a range, the smaller one first.\<close>

definition colon_pos :: "string \<Rightarrow> nat option" where
  "colon_pos s = find_first_of s '':'' 0"

definition ordered :: "uint32 \<Rightarrow> uint32 \<Rightarrow> uint32 \<times> uint32" where
  "ordered a b = (if a > b then (b, a) else (a, b))"

fun seq_loop :: "uint32 list \<Rightarrow> string list \<Rightarrow> uint32 list \<Rightarrow> hresult \<times> uint32 list" where
  "seq_loop uids [] lstMails = (hrSuccess, remdups_adj (sort lstMails))"
| "seq_loop uids (w # ws) lstMails =
     (case colon_pos w of
        None \<Rightarrow>
          let ulMailnr = LastOrNumber uids w False - 1
          in if unat ulMailnr \<ge> length uids then (MAPI_E_CALL_FAILED, lstMails)
             else seq_loop uids ws (lstMails @ [ulMailnr])
      | Some ulPos \<Rightarrow>
          case ordered (LastOrNumber uids w False - 1) (LastOrNumber uids (drop (ulPos + 1) w) False - 1) of
            (ulBeginMailnr, ulMailnr) \<Rightarrow>
              if unat ulBeginMailnr \<ge> length uids \<or> unat ulMailnr \<ge> length uids then (MAPI_E_CALL_FAILED, lstMails)
              else seq_loop uids ws (lstMails @ map of_nat [unat ulBeginMailnr..<unat ulMailnr + 1]))"

definition HrParseSeqSet :: "uint32 list \<Rightarrow> string \<Rightarrow> uint32 list \<Rightarrow> hresult \<times> uint32 list" where
  "HrParseSeqSet uids strSeqSet lstMails =
     (if uids = [] then (MAPI_E_NOT_FOUND, lstMails)
      else seq_loop uids (tokenize strSeqSet CHR '','' False) lstMails)"

text \<open>The list is sorted by UID, so lower_bound and upper_bound count a prefix.\<close>

definition lower_bound :: "uint32 list \<Rightarrow> uint32 \<Rightarrow> nat" where
  "lower_bound uids v = length (takeWhile (\<lambda>u. u < v) uids)"

definition upper_bound :: "uint32 list \<Rightarrow> uint32 \<Rightarrow> nat" where
  "upper_bound uids v = length (takeWhile (\<lambda>u. \<not> v < u) uids)"

fun seq_uid_loop :: "uint32 list \<Rightarrow> string list \<Rightarrow> uint32 list \<Rightarrow> uint32 list" where
  "seq_uid_loop uids [] lstMails = remdups_adj (sort lstMails)"
| "seq_uid_loop uids (w # ws) lstMails =
     (case colon_pos w of
        None \<Rightarrow>
          let ulMailnr = LastOrNumber uids w True; i = length (takeWhile (\<lambda>u. u \<noteq> ulMailnr) uids)
          in seq_uid_loop uids ws (if i \<noteq> length uids then lstMails @ [of_nat i] else lstMails)
      | Some ulPos \<Rightarrow>
          case ordered (LastOrNumber uids w True) (LastOrNumber uids (drop (ulPos + 1) w) True) of
            (ulBeginMailnr, ulMailnr) \<Rightarrow>
              seq_uid_loop uids ws (lstMails @ map of_nat [lower_bound uids ulBeginMailnr..<upper_bound uids ulMailnr]))"

definition HrParseSeqUidSet :: "uint32 list \<Rightarrow> string \<Rightarrow> uint32 list \<Rightarrow> hresult \<times> uint32 list" where
  "HrParseSeqUidSet uids strSeqSet lstMails = (hrSuccess, seq_uid_loop uids (tokenize strSeqSet CHR '','' False) lstMails)"

text \<open>
  The restriction for a UID set, as the tree the server evaluates; \<open>None\<close> is no restriction at all.
\<close>

definition PR_EC_IMAP_ID :: uint32 where "PR_EC_IMAP_ID = 0x67820003"

definition uid_condition :: "relop \<Rightarrow> uint32 \<Rightarrow> restriction" where
  "uid_condition r v = RES_PROPERTY r PR_EC_IMAP_ID (Some \<lparr>ulPropTag = PR_EC_IMAP_ID, Value = V_ul v\<rparr>)"

definition uid_part :: "uint32 list \<Rightarrow> string \<Rightarrow> restriction" where
  "uid_part uids w =
     (case colon_pos w of
        None \<Rightarrow> uid_condition RELOP_EQ (LastOrNumber uids w True)
      | Some ulPos \<Rightarrow>
          case ordered (LastOrNumber uids w True) (LastOrNumber uids (drop (ulPos + 1) w) True) of
            (lo, hi) \<Rightarrow> RES_AND [uid_condition RELOP_GE lo, uid_condition RELOP_LE hi])"

definition HrSeqUidSetToRestriction :: "uint32 list \<Rightarrow> string \<Rightarrow> restriction option" where
  "HrSeqUidSetToRestriction uids strSeqSet =
     (if strSeqSet = [] then None
      else Some (RES_OR (map (uid_part uids) (tokenize strSeqSet CHR '','' False))))"

section \<open>Folder patterns\<close>

definition to_upper32 :: "uint32 \<Rightarrow> uint32" where
  "to_upper32 c = (if 97 \<le> c \<and> c \<le> 122 then c - 32 else c)"

text \<open>
  MatchFolderPath from the positions f and p on: the rest of the folder name and of the pattern. Reading at
  the end gives the terminating NUL; reading behind it is undefined. \<open>match_tries\<close> is the loop over
  the characters a wildcard may skip, the longest match first. The folder name is in upper case from the
  outermost call on, so converting it again at the inner calls changes nothing.
\<close>

function match_from :: "widestring \<Rightarrow> widestring \<Rightarrow> bool option"
  and match_tries :: "widestring \<Rightarrow> widestring \<Rightarrow> nat \<Rightarrow> bool option" where
  "match_from F P =
     (if F = [] \<and> P = [] then Some True
      else let pc = (case P of [] \<Rightarrow> 0 | c # _ \<Rightarrow> c); fc = (case F of [] \<Rightarrow> 0 | c # _ \<Rightarrow> c)
           in if pc = 42 then match_tries F (tl P) (length F)
              else if pc = 37 then match_tries F (tl P) (length (takeWhile (\<lambda>c. c \<noteq> 47) F))
              else if fc \<noteq> pc then Some False
              else if F = [] \<or> P = [] then None
              else match_from (tl F) (tl P))"
| "match_tries F P i =
     (case match_from (drop i F) P of
        None \<Rightarrow> None
      | Some b \<Rightarrow> if b then Some True else if i = 0 then Some False else match_tries F P (i - 1))"
  by pat_completeness auto
termination
  by (relation "measures [\<lambda>x. (case x of Inl (F, P) \<Rightarrow> 2 * length P | Inr (F, P, i) \<Rightarrow> 2 * length P + 1),
                          \<lambda>x. (case x of Inl (F, P) \<Rightarrow> 0 | Inr (F, P, i) \<Rightarrow> i)]")
    (auto simp: neq_Nil_conv split: list.splits)

declare match_from.simps [simp del] match_tries.simps [simp del]

definition MatchFolderPath :: "widestring \<Rightarrow> widestring \<Rightarrow> bool option" where
  "MatchFolderPath strFolder strPattern = match_from (map to_upper32 strFolder) strPattern"

section \<open>Folder names\<close>

definition IMAP_HIERARCHY_DELIMITER :: uint32 where "IMAP_HIERARCHY_DELIMITER = 47"

text \<open>tokenize for wide strings, without the filter: it ends at a NUL.\<close>

function wtokenize :: "widestring \<Rightarrow> uint32 \<Rightarrow> widestring list" where
  "wtokenize s sep =
     (if s = [] \<or> hd s = 0 then []
      else let w = takeWhile (\<lambda>c. c \<noteq> sep \<and> c \<noteq> 0) s
           in case drop (length w) s of
                [] \<Rightarrow> [w]
              | c # r \<Rightarrow> if c \<noteq> sep then [w] else w # wtokenize r sep)"
  by pat_completeness auto
termination
  by (relation "measure (\<lambda>(s, _). length s)") (auto dest!: arg_cong [where f = length])

declare wtokenize.simps [simp del]

text \<open>Stripping the delimiter at the end reads in front of a path that is empty by then.\<close>

definition HrSplitPath :: "widestring \<Rightarrow> widestring list option" where
  "HrSplitPath strInputParam =
     (let s = (if strInputParam \<noteq> [] \<and> hd strInputParam = IMAP_HIERARCHY_DELIMITER then tl strInputParam else strInputParam)
      in if s = [] then None
         else Some (wtokenize (if last s = IMAP_HIERARCHY_DELIMITER then butlast s else s) IMAP_HIERARCHY_DELIMITER))"

fun HrUnsplitPath :: "widestring list \<Rightarrow> widestring" where
  "HrUnsplitPath [] = []"
| "HrUnsplitPath (p # ps) = p @ (if ps \<noteq> [] then [IMAP_HIERARCHY_DELIMITER] else []) @ HrUnsplitPath ps"

text \<open>The characters written as they are; the ampersand is not one of them.\<close>

definition direct_char :: "uint32 \<Rightarrow> bool" where
  "direct_char c = (0x20 \<le> c \<and> c \<le> 0x25 \<or> 0x27 \<le> c \<and> c \<le> 0x7e)"

definition outside_ascii :: "uint32 \<Rightarrow> bool" where "outside_ascii c = (c < 0x20 \<or> c \<ge> 0x7f)"

definition imap_utf7 :: "string \<Rightarrow> string" where
  "imap_utf7 utf7 = map (\<lambda>c. if c = CHR ''/'' then CHR '','' else c) (utf7[0 := CHR ''&''])"

text \<open>
  \<open>to_utf7\<close> and \<open>from_utf7\<close> are the conversions of the iconv library between wide characters and UTF-7;
  \<open>None\<close> is an exception. On an error the output holds what was converted so far.
\<close>

function MAPI2IMAPCharset :: "(widestring \<Rightarrow> string option) \<Rightarrow> widestring \<Rightarrow> hresult \<times> string" where
  "MAPI2IMAPCharset to_utf7 [] = (hrSuccess, [])"
| "MAPI2IMAPCharset to_utf7 (c # s) =
     (if direct_char c
      then apsnd (\<lambda>t. (if c = 0x22 \<or> c = 0x5C then [CHR 0x5C] else []) @ [chr_of (ucast c)] @ t) (MAPI2IMAPCharset to_utf7 s)
      else if c = 0x26 then apsnd (\<lambda>t. ''&-'' @ t) (MAPI2IMAPCharset to_utf7 s)
      else case to_utf7 (c # takeWhile outside_ascii s) of
             None \<Rightarrow> (MAPI_E_BAD_CHARWIDTH, [])
           | Some utf7 \<Rightarrow> apsnd (\<lambda>t. imap_utf7 utf7 @ t) (MAPI2IMAPCharset to_utf7 (dropWhile outside_ascii s)))"
  by pat_completeness auto
termination
  by (relation "measure (\<lambda>(_, s). length s)") (auto simp: length_dropWhile_le less_Suc_eq_le)

function IMAP2MAPICharset :: "(string \<Rightarrow> widestring option) \<Rightarrow> string \<Rightarrow> hresult \<times> widestring" where
  "IMAP2MAPICharset from_utf7 [] = (hrSuccess, [])"
| "IMAP2MAPICharset from_utf7 (c # s) =
     (if sint (byte_of c) < 0 then (MAPI_E_BAD_CHARWIDTH, [])
      else if c \<noteq> CHR ''&''
      then (case s of
              d # r \<Rightarrow>
                if c = CHR 0x5C \<and> (d = CHR 0x22 \<or> d = CHR 0x5C)
                then apsnd (\<lambda>t. ucast (byte_of d) # t) (IMAP2MAPICharset from_utf7 r)
                else apsnd (\<lambda>t. ucast (byte_of c) # t) (IMAP2MAPICharset from_utf7 s)
            | [] \<Rightarrow> apsnd (\<lambda>t. ucast (byte_of c) # t) (IMAP2MAPICharset from_utf7 s))
      else if s = [] then (hrSuccess, [ucast (byte_of c)])
      else if hd s = CHR ''-'' then apsnd (\<lambda>t. 0x26 # t) (IMAP2MAPICharset from_utf7 (tl s))
      else case from_utf7 (CHR ''+'' # map (\<lambda>c. if c = CHR '','' then CHR ''/'' else c) (takeWhile (\<lambda>c. c \<noteq> CHR ''-'') s)) of
             None \<Rightarrow> (MAPI_E_BAD_CHARWIDTH, [])
           | Some w \<Rightarrow> apsnd (\<lambda>t. w @ t) (IMAP2MAPICharset from_utf7 (tl (dropWhile (\<lambda>c. c \<noteq> CHR ''-'') s))))"
  by pat_completeness auto
termination
  by (relation "measure (\<lambda>(_, s). length s)")
    (auto simp: less_Suc_eq_le intro: le_trans [OF diff_le_self length_dropWhile_le])

declare MAPI2IMAPCharset.simps(2) [simp del] IMAP2MAPICharset.simps(2) [simp del]

end
