(* ===== verification/ImapTextSpec.thy ===== *)
theory ImapTextSpec
  imports ImapText StringUtilSpec RestrictionSpec
begin

text \<open>
  What the text functions of the IMAP server compute: a sequence set denotes exactly the messages its
  numbers name, the list of a UID set is what the server selects with the restriction for that set,
  folder patterns are matched as their grammar says, and a folder path comes back from its encoding.
\<close>

section \<open>Sequence sets\<close>

text \<open>The smaller and the larger number of a part of a set.\<close>

definition part_ends :: "uint32 list \<Rightarrow> bool \<Rightarrow> string \<Rightarrow> uint32 \<times> uint32" where
  "part_ends uids bUID w =
     (case colon_pos w of
        None \<Rightarrow> (LastOrNumber uids w bUID, LastOrNumber uids w bUID)
      | Some p \<Rightarrow> ordered (LastOrNumber uids w bUID) (LastOrNumber uids (drop (p + 1) w) bUID))"

lemma distinct_remdups_adj: "sorted xs \<Longrightarrow> distinct (remdups_adj (xs :: 'a::linorder list))"
proof (induction xs rule: remdups_adj.induct)
  case (3 x y xs)
  then have "x \<noteq> y \<Longrightarrow> x \<notin> set (y # xs)" by auto
  then show ?case using 3 by auto
qed simp_all

lemma remdups_adj_sort: "remdups_adj (sort xs) = sorted_list_of_set (set (xs :: 'a::linorder list))"
proof -
  have "sorted (remdups_adj (sort xs))" and "distinct (remdups_adj (sort xs))"
    by (simp_all add: distinct_remdups_adj)
  then show ?thesis
    by (intro sorted_distinct_set_unique) simp_all
qed

lemma ordered_ends: "ordered a b = (p, q) \<Longrightarrow> p \<le> q \<and> {p, q} = {a, b}"
  by (auto simp: ordered_def split: if_splits)

text \<open>Taking one off the numbers: zero becomes the largest number and is out of range.\<close>

lemma minus_one_range:
  fixes a :: uint32
  assumes "n < 2 ^ 32"
  shows "unat (a - 1) < n \<longleftrightarrow> 1 \<le> unat a \<and> unat a \<le> n"
proof (cases "a = 0")
  case True
  have "unat (- 1 :: uint32) = 2 ^ 32 - 1" by (simp add: unsigned_minus_1_eq_mask mask_eq_exp_minus_1)
  then show ?thesis using True assms by simp
next
  case False
  then have "0 < unat a" by (simp add: unat_gt_0)
  then show ?thesis using False by (simp add: unat_minus_one) linarith
qed

lemma minus_one_mono: "a \<noteq> 0 \<Longrightarrow> b \<noteq> 0 \<Longrightarrow> a - 1 > b - 1 \<longleftrightarrow> a > (b :: uint32)"
  unfolding word_less_nat_alt using unat_gt_0 [of a] unat_gt_0 [of b] by (simp add: unat_minus_one) linarith

lemma ordered_minus_one:
  "a \<noteq> 0 \<Longrightarrow> b \<noteq> 0 \<Longrightarrow> ordered (a - 1) (b - 1) = (fst (ordered a b) - 1, snd (ordered a b) - (1 :: uint32))"
  by (simp add: ordered_def minus_one_mono)

definition in_part :: "uint32 list \<Rightarrow> string \<Rightarrow> nat \<Rightarrow> bool" where
  "in_part uids w k \<longleftrightarrow> unat (fst (part_ends uids False w)) \<le> k \<and> k \<le> unat (snd (part_ends uids False w))"

definition part_ok :: "uint32 list \<Rightarrow> string \<Rightarrow> bool" where
  "part_ok uids w \<longleftrightarrow> 1 \<le> unat (fst (part_ends uids False w)) \<and> unat (snd (part_ends uids False w)) \<le> length uids"

definition part_list :: "uint32 list \<Rightarrow> string \<Rightarrow> uint32 list" where
  "part_list uids w = map of_nat [unat (fst (part_ends uids False w) - 1)..<unat (snd (part_ends uids False w) - 1) + 1]"

lemma part_ends_ordered: "fst (part_ends uids b w) \<le> snd (part_ends uids b w)"
  by (auto simp: part_ends_def ordered_def split: option.splits)

lemma seq_loop_part:
  assumes "length uids < 2 ^ 32"
  shows "seq_loop uids (w # ws) acc =
     (if part_ok uids w then seq_loop uids ws (acc @ part_list uids w) else (MAPI_E_CALL_FAILED, acc))"
proof (cases "colon_pos w")
  case None
  then show ?thesis
    using minus_one_range [OF assms, of "LastOrNumber uids w False"]
    by (auto simp: Let_def part_ok_def part_list_def part_ends_def not_less not_le)
next
  case (Some p)
  define a b where ab: "a = LastOrNumber uids w False" "b = LastOrNumber uids (drop (p + 1) w) False"
  have ends: "part_ends uids False w = ordered a b" by (simp add: part_ends_def Some ab)
  have loop: "seq_loop uids (w # ws) acc =
      (if unat (fst (ordered (a - 1) (b - 1))) \<ge> length uids \<or> unat (snd (ordered (a - 1) (b - 1))) \<ge> length uids
       then (MAPI_E_CALL_FAILED, acc)
       else seq_loop uids ws (acc @ map of_nat [unat (fst (ordered (a - 1) (b - 1)))..<unat (snd (ordered (a - 1) (b - 1))) + 1]))"
    by (simp add: Some ab case_prod_beta)
  have range: "(unat (fst (ordered (a - 1) (b - 1))) \<ge> length uids \<or> unat (snd (ordered (a - 1) (b - 1))) \<ge> length uids) \<longleftrightarrow>
      \<not> part_ok uids w"
    using minus_one_range [OF assms, of a] minus_one_range [OF assms, of b]
    by (auto simp: part_ok_def ends ordered_def not_less not_le word_less_nat_alt)
  show ?thesis
  proof (cases "part_ok uids w")
    case True
    then have "a \<noteq> 0" "b \<noteq> 0" by (auto simp: part_ok_def ends ordered_def word_greater_zero_iff split: if_splits)
    then show ?thesis
      using True range unfolding loop by (simp add: ordered_minus_one part_list_def ends)
  next
    case False
    then show ?thesis using range unfolding loop by simp
  qed
qed

lemma of_nat_image:
  "(x :: uint32) \<in> of_nat ` {a..<b} \<longleftrightarrow> a \<le> unat x \<and> unat x < b" if "b \<le> 2 ^ 32"
proof
  assume "x \<in> of_nat ` {a..<b}"
  then obtain k where "x = of_nat k" "a \<le> k" "k < b" by auto
  moreover have "unat (of_nat k :: uint32) = k" if "k < b" for k
    using that \<open>b \<le> 2 ^ 32\<close> by (simp add: unsigned_of_nat take_bit_nat_eq_self)
  ultimately show "a \<le> unat x \<and> unat x < b" by simp
next
  assume "a \<le> unat x \<and> unat x < b"
  then show "x \<in> of_nat ` {a..<b}" by (intro image_eqI [of _ _ "unat x"]) auto
qed

lemma set_part_list:
  assumes "part_ok uids w"
  shows "set (part_list uids w) = {x. in_part uids w (unat x + 1)}"
proof -
  let ?lo = "fst (part_ends uids False w)" and ?hi = "snd (part_ends uids False w)"
  have "?lo \<noteq> 0" using assms by (auto simp: part_ok_def)
  moreover from this have "?hi \<noteq> 0" using part_ends_ordered [of uids False w] by auto
  ultimately have u: "unat (?lo - 1) = unat ?lo - 1" "unat (?hi - 1) = unat ?hi - 1" "1 \<le> unat ?lo" "1 \<le> unat ?hi"
    by (simp_all add: unat_minus_one unat_gt_0 Suc_le_eq)
  have "unat ?hi < 2 ^ 32" by (rule less_le_trans [OF unsigned_less]) simp
  then have "x \<in> of_nat ` {unat ?lo - 1..<unat ?hi - 1 + 1} \<longleftrightarrow> unat ?lo - 1 \<le> unat x \<and> unat x < unat ?hi - 1 + 1" for x :: uint32
    using u(4) by (intro of_nat_image) simp
  then show ?thesis
    unfolding part_list_def set_map set_upt u(1,2) using u(3,4) by (intro set_eqI) (auto simp: in_part_def simp del: Suc_pred)
qed

lemma seq_loop_good:
  assumes "length uids < 2 ^ 32" and "\<forall>w \<in> set ws. part_ok uids w"
  shows "seq_loop uids ws acc = (hrSuccess, sorted_list_of_set (set acc \<union> (\<Union>w \<in> set ws. set (part_list uids w))))"
  using assms(2)
proof (induction ws arbitrary: acc)
  case Nil
  then show ?case by (simp add: remdups_adj_sort)
next
  case (Cons w ws)
  then show ?case unfolding seq_loop_part [OF assms(1)] by (simp add: Un_assoc)
qed

lemma seq_loop_bad:
  assumes "length uids < 2 ^ 32"
  shows "\<not> (\<forall>w \<in> set ws. part_ok uids w) \<Longrightarrow> fst (seq_loop uids ws acc) = MAPI_E_CALL_FAILED"
  by (induction ws arbitrary: acc) (auto simp: seq_loop_part [OF assms] simp del: seq_loop.simps(2))

text \<open>
  C32: A sequence set denotes the messages its numbers name. For a folder with messages parsing succeeds
  exactly when all numbers and both ends of all ranges lie between 1 and the number of messages, where a
  star is the last message and the ends may come in either order; the result is then the ascending list
  of the positions named, each once.
\<close>

theorem sequence_set_denotes:
  assumes "uids \<noteq> []" and "length uids < 2 ^ 32"
  shows "fst (HrParseSeqSet uids s []) =
      (if \<forall>w \<in> set (tokenize s CHR '','' False). part_ok uids w then hrSuccess else MAPI_E_CALL_FAILED) \<and>
    (fst (HrParseSeqSet uids s []) = hrSuccess \<longrightarrow>
      snd (HrParseSeqSet uids s []) =
        sorted_list_of_set {x. \<exists>w \<in> set (tokenize s CHR '','' False). in_part uids w (unat x + 1)})"
proof -
  let ?ws = "tokenize s CHR '','' False"
  show ?thesis
  proof (cases "\<forall>w \<in> set ?ws. part_ok uids w")
    case True
    then have "(\<Union>w \<in> set ?ws. set (part_list uids w)) = {x. \<exists>w \<in> set ?ws. in_part uids w (unat x + 1)}"
      using set_part_list by auto
    then show ?thesis
      using seq_loop_good [OF assms(2) True, of "[]"] True assms(1) by (simp add: HrParseSeqSet_def)
  next
    case False
    then show ?thesis
      using seq_loop_bad [OF assms(2), of ?ws "[]"] assms(1) by (auto simp: HrParseSeqSet_def)
  qed
qed

text \<open>Applied to a folder of five messages.\<close>

lemma sequence_set_denotes_witness:
  "fst (HrParseSeqSet [1, 2, 3, 4, 9] ''2,*:4'' []) = hrSuccess \<and>
    snd (HrParseSeqSet [1, 2, 3, 4, 9] ''2,*:4'' []) = [1, 3, 4] \<and>
    [1, 3, 4] = sorted_list_of_set {x :: uint32. \<exists>w \<in> set (tokenize ''2,*:4'' CHR '','' False). in_part [1, 2, 3, 4, 9] w (unat x + 1)}"
proof -
  have fine: "fst (HrParseSeqSet [1, 2, 3, 4, 9] ''2,*:4'' []) = hrSuccess"
    and the_list: "snd (HrParseSeqSet [1, 2, 3, 4, 9] ''2,*:4'' []) = [1, 3, 4]" by code_simp+
  have "snd (HrParseSeqSet [1, 2, 3, 4, 9] ''2,*:4'' []) =
      sorted_list_of_set {x :: uint32. \<exists>w \<in> set (tokenize ''2,*:4'' CHR '','' False). in_part [1, 2, 3, 4, 9] w (unat x + 1)}"
    using fine by (rule sequence_set_denotes [THEN conjunct2, THEN mp, rotated 2]) simp_all
  then show ?thesis unfolding the_list using fine by blast
qed

section \<open>Sets of UIDs\<close>

definition uid_in_part :: "uint32 list \<Rightarrow> string \<Rightarrow> uint32 \<Rightarrow> bool" where
  "uid_in_part uids w u \<longleftrightarrow> fst (part_ends uids True w) \<le> u \<and> u \<le> snd (part_ends uids True w)"

definition uid_list :: "uint32 list \<Rightarrow> string \<Rightarrow> uint32 list" where
  "uid_list uids w =
     (case colon_pos w of
        None \<Rightarrow> let i = length (takeWhile (\<lambda>u. u \<noteq> LastOrNumber uids w True) uids) in if i \<noteq> length uids then [of_nat i] else []
      | Some _ \<Rightarrow> map of_nat [lower_bound uids (fst (part_ends uids True w))..<upper_bound uids (snd (part_ends uids True w))])"

lemma seq_uid_step: "seq_uid_loop uids (w # ws) acc = seq_uid_loop uids ws (acc @ uid_list uids w)"
  by (auto simp: uid_list_def part_ends_def Let_def case_prod_beta split: option.splits)

lemma seq_uid_all: "seq_uid_loop uids ws acc = sorted_list_of_set (set acc \<union> (\<Union>w \<in> set ws. set (uid_list uids w)))"
proof (induction ws arbitrary: acc)
  case Nil
  then show ?case by (simp add: remdups_adj_sort)
next
  case (Cons w ws)
  then show ?case unfolding seq_uid_step by (simp add: Un_assoc)
qed

text \<open>In an ascending list the elements below a bound are a prefix.\<close>

lemma prefix_below:
  assumes "sorted xs" "i < length xs" "\<And>a b. P b \<Longrightarrow> a \<le> b \<Longrightarrow> P a"
  shows "i < length (takeWhile P xs) \<longleftrightarrow> P (xs ! i)"
  using assms(1,2)
proof (induction xs arbitrary: i)
  case (Cons x xs)
  show ?case
  proof (cases "P x")
    case True
    then show ?thesis using Cons by (cases i) auto
  next
    case False
    have "x \<le> (x # xs) ! i" using Cons.prems by (cases i) auto
    then have "\<not> P ((x # xs) ! i)" using False assms(3) by blast
    then show ?thesis using False by simp
  qed
qed simp

lemma prefix_length: "length (takeWhile P xs) \<le> length xs"
  by (rule length_takeWhile_le)

lemma uid_list_set:
  assumes "sorted uids" "distinct uids" "length uids < 2 ^ 32"
  shows "x \<in> set (uid_list uids w) \<longleftrightarrow> unat x < length uids \<and> uid_in_part uids w (uids ! unat x)"
proof (cases "colon_pos w")
  case (Some p)
  let ?lo = "fst (part_ends uids True w)" and ?hi = "snd (part_ends uids True w)"
  have "x \<in> of_nat ` {lower_bound uids ?lo..<upper_bound uids ?hi} \<longleftrightarrow> lower_bound uids ?lo \<le> unat x \<and> unat x < upper_bound uids ?hi"
    using assms(3) prefix_length [of "\<lambda>u. \<not> ?hi < u" uids] by (intro of_nat_image) (simp add: upper_bound_def)
  moreover have "unat x < upper_bound uids ?hi \<longleftrightarrow> unat x < length uids \<and> uids ! unat x \<le> ?hi"
    using prefix_below [OF assms(1), of "unat x" "\<lambda>u. \<not> ?hi < u"] prefix_length [of "\<lambda>u. \<not> ?hi < u" uids]
    by (auto simp: upper_bound_def not_less)
  moreover have "unat x < length uids \<Longrightarrow> lower_bound uids ?lo \<le> unat x \<longleftrightarrow> ?lo \<le> uids ! unat x"
  proof -
    assume "unat x < length uids"
    then have "unat x < lower_bound uids ?lo \<longleftrightarrow> uids ! unat x < ?lo"
      unfolding lower_bound_def by (rule prefix_below [OF assms(1)]) (rule le_less_trans)
    then show ?thesis by auto
  qed
  ultimately show ?thesis by (auto simp: uid_list_def Some uid_in_part_def)
next
  case None
  let ?u = "LastOrNumber uids w True" and ?i = "length (takeWhile (\<lambda>u. u \<noteq> LastOrNumber uids w True) uids)"
  have ends: "uid_in_part uids w u \<longleftrightarrow> u = ?u" for u by (auto simp: uid_in_part_def part_ends_def None)
  show ?thesis
  proof (cases "?i = length uids")
    case True
    have "takeWhile (\<lambda>u. u \<noteq> ?u) uids = uids"
      using takeWhile_eq_take [of "\<lambda>u. u \<noteq> ?u" uids] unfolding True by simp
    then have "?u \<notin> set uids" by (auto simp: takeWhile_eq_all_conv)
    then have "unat x < length uids \<Longrightarrow> uids ! unat x \<noteq> ?u" using nth_mem by metis
    then show ?thesis using True by (auto simp: uid_list_def None ends)
  next
    case False
    then have i: "?i < length uids" using prefix_length le_neq_implies_less by blast
    then have "uids ! ?i = ?u" using nth_length_takeWhile [of "\<lambda>u. u \<noteq> ?u" uids] by simp
    then have "unat x < length uids \<Longrightarrow> uids ! unat x = ?u \<longleftrightarrow> unat x = ?i"
      using nth_eq_iff_index_eq [OF assms(2)] i by metis
    moreover have "x = of_nat ?i \<longleftrightarrow> unat x = ?i"
      using i assms(3) by (auto simp: unsigned_of_nat take_bit_nat_eq_self word_unat_eq_iff)
    ultimately show ?thesis using i False by (auto simp: uid_list_def None ends)
  qed
qed

text \<open>The row of a message in the contents table, as far as the restriction reads it.\<close>

definition uid_row :: "uint32 \<Rightarrow> row" where
  "uid_row u = [\<lparr>ulPropTag = PR_EC_IMAP_ID, Value = V_ul u\<rparr>]"

lemma uid_tag:
  "PROP_TYPE PR_EC_IMAP_ID = PT_LONG" "PROP_ID PR_EC_IMAP_ID \<noteq> PR_ANR_ID" "ptype PR_EC_IMAP_ID = T_LONG"
  "PROP_TYPE PR_EC_IMAP_ID AND MV_FLAG = 0" "PT_LONG AND NOT MV_FLAG = PT_LONG" "PR_EC_IMAP_ID AND MV_FLAG = 0"
  "PT_LONG \<noteq> PT_STRING8" "PT_LONG \<noteq> PT_UNICODE" "PT_LONG \<noteq> PT_BINARY" "PT_LONG \<noteq> PT_MV_STRING8" "PT_LONG \<noteq> PT_MV_UNICODE"
  by code_simp+

lemma uid_tag_normal: "NormalizePropTag uc PR_EC_IMAP_ID = PR_EC_IMAP_ID" "same_string_type uc PR_EC_IMAP_ID = PR_EC_IMAP_ID"
  by (cases uc; code_simp)+

lemma eval_uid_condition:
  assumes "r \<noteq> RELOP_RE"
  shows "MatchRowRestrict E (uid_condition r v) (uid_row u) = Some (Inr (match r (twcmp u v)), uid_row u)"
  using assms
  by (simp add: uid_condition_def uid_row_def match_property_def match_compare_def pure_res_def Let_def uid_tag uid_tag_normal
      tag_matches_def CompareProp_def PropCheck_def compare_values_def)

lemma match_twcmp:
  "match RELOP_EQ (twcmp u v) \<longleftrightarrow> u = v" "match RELOP_GE (twcmp u v) \<longleftrightarrow> v \<le> u" "match RELOP_LE (twcmp u v) \<longleftrightarrow> u \<le> v"
  by (auto simp: twcmp_def)

lemma eval_uid_part: "MatchRowRestrict E (uid_part uids w) (uid_row u) = Some (Inr (uid_in_part uids w u), uid_row u)"
proof (cases "colon_pos w")
  case None
  have "LastOrNumber uids w True \<le> u \<and> u \<le> LastOrNumber uids w True \<longleftrightarrow> u = LastOrNumber uids w True" by auto
  then show ?thesis
    by (simp add: uid_part_def uid_in_part_def part_ends_def eval_uid_condition match_twcmp None del: match.simps)
next
  case (Some p)
  then show ?thesis
    by (simp add: uid_part_def uid_in_part_def part_ends_def eval_uid_condition match_twcmp Some case_prod_beta del: match.simps)
qed

lemma eval_uid_parts:
  "MatchOr E (map (uid_part uids) ws) (uid_row u) = Some (Inr (\<exists>w \<in> set ws. uid_in_part uids w u), uid_row u)"
  by (induction ws) (auto simp: eval_uid_part)

text \<open>
  C33: The two readings of a UID set agree. For a folder whose UIDs ascend, the positions
  HrParseSeqUidSet picks are in ascending order exactly those whose row the server finds to match the
  restriction HrSeqUidSetToRestriction makes of the same text.
\<close>

theorem uid_set_restriction_agrees:
  assumes "s \<noteq> []" and "sorted uids" and "distinct uids" and "length uids < 2 ^ 32"
  shows "\<exists>r. HrSeqUidSetToRestriction uids s = Some r \<and>
    HrParseSeqUidSet uids s [] =
      (hrSuccess, sorted_list_of_set {x. unat x < length uids \<and>
         map_option fst (MatchRowRestrict E r (uid_row (uids ! unat x))) = Some (Inr True)})"
proof -
  let ?ws = "tokenize s CHR '','' False"
  have "(\<Union>w \<in> set ?ws. set (uid_list uids w)) =
      {x. unat x < length uids \<and> (\<exists>w \<in> set ?ws. uid_in_part uids w (uids ! unat x))}"
    using uid_list_set [OF assms(2-4)] by auto
  then show ?thesis
    using assms(1) by (simp add: HrSeqUidSetToRestriction_def HrParseSeqUidSet_def seq_uid_all eval_uid_parts)
qed

text \<open>Applied to the set of UIDs 7 and from 20 to the end, in a folder of four messages.\<close>

lemma uid_set_restriction_agrees_witness:
  "\<forall>E. (\<exists>r. HrSeqUidSetToRestriction [3, 7, 20, 31] ''7,*:20'' = Some r \<and>
      HrParseSeqUidSet [3, 7, 20, 31] ''7,*:20'' [] =
        (hrSuccess, sorted_list_of_set {x. unat x < length [3, 7, 20, 31 :: uint32] \<and>
           map_option fst (MatchRowRestrict E r (uid_row ([3, 7, 20, 31] ! unat x))) = Some (Inr True)})) \<and>
    snd (HrParseSeqUidSet [3, 7, 20, 31] ''7,*:20'' []) = [1, 2, 3]"
proof (intro allI conjI)
  show "snd (HrParseSeqUidSet [3, 7, 20, 31] ''7,*:20'' []) = [1, 2, 3]" by code_simp
  show "\<exists>r. HrSeqUidSetToRestriction [3, 7, 20, 31] ''7,*:20'' = Some r \<and>
      HrParseSeqUidSet [3, 7, 20, 31] ''7,*:20'' [] =
        (hrSuccess, sorted_list_of_set {x. unat x < length [3, 7, 20, 31 :: uint32] \<and>
           map_option fst (MatchRowRestrict E r (uid_row ([3, 7, 20, 31] ! unat x))) = Some (Inr True)})" for E
    by (rule uid_set_restriction_agrees) simp_all
qed

section \<open>Folder patterns\<close>

text \<open>
  What a pattern means: a star stands for any characters, a percent sign for characters without the
  hierarchy delimiter, every other character for itself.
\<close>

inductive folder_matches :: "widestring \<Rightarrow> widestring \<Rightarrow> bool" where
  at_end: "folder_matches [] []"
| literal: "c \<noteq> 42 \<Longrightarrow> c \<noteq> 37 \<Longrightarrow> folder_matches F P \<Longrightarrow> folder_matches (c # F) (c # P)"
| star: "folder_matches F P \<Longrightarrow> folder_matches (G @ F) (42 # P)"
| percent: "IMAP_HIERARCHY_DELIMITER \<notin> set G \<Longrightarrow> folder_matches F P \<Longrightarrow> folder_matches (G @ F) (37 # P)"

inductive_cases at_end_cases: "folder_matches F []"
inductive_cases literal_cases: "folder_matches F (c # P)"

lemma matches_end: "folder_matches F [] \<longleftrightarrow> F = []"
  by (auto elim: at_end_cases intro: folder_matches.intros)

lemma matches_star: "folder_matches F (42 # P) \<longleftrightarrow> (\<exists>i \<le> length F. folder_matches (drop i F) P)"
proof
  assume "folder_matches F (42 # P)"
  then obtain G F' where "F = G @ F'" "folder_matches F' P" by (auto elim: literal_cases)
  then show "\<exists>i \<le> length F. folder_matches (drop i F) P" by (intro exI [of _ "length G"]) simp
next
  assume "\<exists>i \<le> length F. folder_matches (drop i F) P"
  then obtain i where "folder_matches (drop i F) P" by blast
  then have "folder_matches (take i F @ drop i F) (42 # P)" by (rule star)
  then show "folder_matches F (42 # P)" by simp
qed

lemma matches_percent:
  "folder_matches F (37 # P) \<longleftrightarrow> (\<exists>i \<le> length (takeWhile (\<lambda>c. c \<noteq> 47) F). folder_matches (drop i F) P)"
proof
  assume "folder_matches F (37 # P)"
  then obtain G F' where F: "F = G @ F'" "47 \<notin> set G" "folder_matches F' P"
    by (auto elim!: literal_cases simp: IMAP_HIERARCHY_DELIMITER_def)
  then have "\<forall>c \<in> set G. c \<noteq> 47" by auto
  then show "\<exists>i \<le> length (takeWhile (\<lambda>c. c \<noteq> 47) F). folder_matches (drop i F) P"
    using F by (intro exI [of _ "length G"]) (simp add: takeWhile_append2)
next
  assume "\<exists>i \<le> length (takeWhile (\<lambda>c. c \<noteq> 47) F). folder_matches (drop i F) P"
  then obtain i where i: "i \<le> length (takeWhile (\<lambda>c. c \<noteq> 47) F)" "folder_matches (drop i F) P" by blast
  then have "take i F = take i (takeWhile (\<lambda>c. c \<noteq> 47) F)"
    by (subst takeWhile_eq_take) (simp add: min_absorb1)
  then have "\<forall>c \<in> set (take i F). c \<noteq> 47" by (auto dest!: in_set_takeD set_takeWhileD)
  then have "folder_matches (take i F @ drop i F) (37 # P)"
    using i(2) by (intro percent) (auto simp: IMAP_HIERARCHY_DELIMITER_def)
  then show "folder_matches F (37 # P)" by simp
qed

lemma matches_literal:
  "c \<noteq> 42 \<Longrightarrow> c \<noteq> 37 \<Longrightarrow> folder_matches F (c # P) \<longleftrightarrow> F \<noteq> [] \<and> hd F = c \<and> folder_matches (tl F) P"
  by (cases F) (auto elim: literal_cases intro: literal)

lemma match_sound:
  "0 \<notin> set F \<Longrightarrow> 0 \<notin> set P \<Longrightarrow> match_from F P = Some (folder_matches F P)"
  "0 \<notin> set F \<Longrightarrow> 0 \<notin> set P \<Longrightarrow> match_tries F P i = Some (\<exists>j \<le> i. folder_matches (drop j F) P)"
proof (induction F P and F P i rule: match_from_match_tries.induct)
  case step: (1 F P)
  show ?case
  proof (cases P)
    case Nil
    then show ?thesis
      using step(4) by (subst match_from.simps) (cases F; auto simp: matches_end)
  next
    case (Cons c P')
    consider "c = 42" | "c = 37" | "c \<noteq> 42" "c \<noteq> 37" by blast
    then show ?thesis
    proof cases
      case 1
      then show ?thesis using Cons step(1,4,5) by (subst match_from.simps) (simp add: matches_star)
    next
      case 2
      then show ?thesis using Cons step(2,4,5) by (subst match_from.simps) (simp add: matches_percent)
    next
      case 3
      then show ?thesis using Cons step(3,4,5) by (subst match_from.simps) (cases F; auto simp: matches_literal)
    qed
  qed
next
  case (2 F P i)
  have "0 \<notin> set (drop i F)" using 2(3) by (auto dest: in_set_dropD)
  then have "match_from (drop i F) P = Some (folder_matches (drop i F) P)" using 2(1,4) by blast
  then show ?case
    using 2 by (subst match_tries.simps) (auto simp: le_Suc_eq gr0_conv_Suc)
qed

text \<open>
  C34: For names and patterns without NUL characters, a folder name matches a pattern exactly when it can be
  read off the pattern, a star standing for any characters and a percent sign for any characters within one
  level of the hierarchy, letters of the name compared in upper case, and no character outside the strings
  is read. With a NUL in the pattern the end of the name is taken for a character that matches, and the
  comparison goes on behind it (\<open>nul_reads_outside\<close> below).
\<close>

theorem folder_pattern_matching:
  assumes "0 \<notin> set F" and "0 \<notin> set P"
  shows "MatchFolderPath F P = Some (folder_matches (map to_upper32 F) P)"
proof -
  have zero: "to_upper32 c = 0 \<Longrightarrow> c = 0" for c
    by (cases "97 \<le> c \<and> c \<le> 122") (auto simp: to_upper32_def simp flip: eq_iff_diff_eq_0)
  have "0 \<notin> set (map to_upper32 F)" using assms(1) by (auto dest: zero)
  from match_sound(1) [OF this assms(2)] show ?thesis unfolding MatchFolderPath_def .
qed

text \<open>A client can send a pattern with a NUL, encoded as \<open>INBOX&AAA-\<close>.\<close>

lemma nul_reads_outside:
  "MatchFolderPath (map (ucast \<circ> byte_of) ''INBOX'') (map (ucast \<circ> byte_of) ''INBOX'' @ [0]) = None \<and> MatchFolderPath [] [0] = None"
  by code_simp

text \<open>Applied to a subfolder of the inbox and the patterns that list one level and all levels.\<close>

lemma folder_pattern_matching_witness:
  "MatchFolderPath (map (ucast \<circ> byte_of) ''Inbox/Work'') (map (ucast \<circ> byte_of) ''INBOX/%'') =
      Some (folder_matches (map to_upper32 (map (ucast \<circ> byte_of) ''Inbox/Work'')) (map (ucast \<circ> byte_of) ''INBOX/%'')) \<and>
    MatchFolderPath (map (ucast \<circ> byte_of) ''Inbox/Work'') (map (ucast \<circ> byte_of) ''INBOX/%'') = Some True \<and>
    MatchFolderPath (map (ucast \<circ> byte_of) ''Inbox/Work'') (map (ucast \<circ> byte_of) ''%'') = Some False"
proof (intro conjI)
  show "MatchFolderPath (map (ucast \<circ> byte_of) ''Inbox/Work'') (map (ucast \<circ> byte_of) ''INBOX/%'') = Some True"
    by code_simp
  show "MatchFolderPath (map (ucast \<circ> byte_of) ''Inbox/Work'') (map (ucast \<circ> byte_of) ''%'') = Some False"
    by code_simp
  have "0 \<notin> set (map (ucast \<circ> byte_of) ''Inbox/Work'' :: widestring)" "0 \<notin> set (map (ucast \<circ> byte_of) ''INBOX/%'' :: widestring)"
    by code_simp+
  then show "MatchFolderPath (map (ucast \<circ> byte_of) ''Inbox/Work'') (map (ucast \<circ> byte_of) ''INBOX/%'') =
      Some (folder_matches (map to_upper32 (map (ucast \<circ> byte_of) ''Inbox/Work'')) (map (ucast \<circ> byte_of) ''INBOX/%''))"
    by (rule folder_pattern_matching)
qed

section \<open>Folder names\<close>

lemma wtokenize_unsplit:
  assumes "\<forall>p \<in> set ps. p \<noteq> [] \<and> d \<notin> set p \<and> 0 \<notin> set p" and "d = IMAP_HIERARCHY_DELIMITER"
  shows "wtokenize (HrUnsplitPath ps) d = ps"
  using assms(1)
proof (induction ps)
  case Nil
  then show ?case by (subst wtokenize.simps) simp
next
  case (Cons p ps)
  have d: "d \<noteq> 0" by (simp add: assms(2) IMAP_HIERARCHY_DELIMITER_def)
  have p: "\<forall>c \<in> set p. c \<noteq> d \<and> c \<noteq> 0" "p \<noteq> []" "hd p \<noteq> 0" using Cons(2) by (auto simp: neq_Nil_conv)
  show ?case
  proof (cases "ps = []")
    case True
    then show ?thesis using p by (subst wtokenize.simps) (simp add: takeWhile_eq_all_conv [THEN iffD2])
  next
    case False
    then show ?thesis
      using p Cons d by (subst wtokenize.simps) (simp add: takeWhile_append2 flip: assms(2))
  qed
qed

lemma split_unsplit:
  assumes "\<forall>p \<in> set ps. p \<noteq> [] \<and> IMAP_HIERARCHY_DELIMITER \<notin> set p \<and> 0 \<notin> set p" and "ps \<noteq> []"
  shows "HrSplitPath (HrUnsplitPath ps) = Some ps"
proof -
  let ?s = "HrUnsplitPath ps"
  have ne: "?s \<noteq> []" and first: "hd ?s \<noteq> IMAP_HIERARCHY_DELIMITER"
    using assms by (cases ps; force simp: neq_Nil_conv)+
  have "ps \<noteq> [] \<Longrightarrow> \<forall>p \<in> set ps. p \<noteq> [] \<and> IMAP_HIERARCHY_DELIMITER \<notin> set p \<Longrightarrow>
      HrUnsplitPath ps \<noteq> [] \<and> last (HrUnsplitPath ps) \<noteq> IMAP_HIERARCHY_DELIMITER" for ps
    by (induction ps rule: HrUnsplitPath.induct) (auto dest: last_in_set)
  then have "last ?s \<noteq> IMAP_HIERARCHY_DELIMITER" using assms by blast
  then show ?thesis
    using ne first wtokenize_unsplit [OF assms(1) refl] by (simp add: HrSplitPath_def)
qed

text \<open>
  What the conversions to and from UTF-7 do (RFC 2152): a run of characters outside ASCII becomes a plus
  sign, base64 digits and a minus sign, and reading the digits gives the characters again. \<open>ok\<close> tells the
  characters the conversion accepts and does not write as they are.
\<close>

definition utf7_conversion :: "(widestring \<Rightarrow> string option) \<Rightarrow> (string \<Rightarrow> widestring option) \<Rightarrow> (uint32 \<Rightarrow> bool) \<Rightarrow> bool" where
  "utf7_conversion to_utf7 from_utf7 ok \<longleftrightarrow>
     (\<forall>w. w \<noteq> [] \<and> (\<forall>c \<in> set w. outside_ascii c \<and> ok c) \<longrightarrow>
        (\<exists>b. b \<noteq> [] \<and> CHR ''-'' \<notin> set b \<and> CHR '','' \<notin> set b \<and> (\<forall>ch \<in> set b. \<not> sint (byte_of ch) < 0) \<and>
             to_utf7 w = Some (CHR ''+'' # b @ ''-'') \<and> from_utf7 (CHR ''+'' # b) = Some w))"

abbreviation comma_slash :: "char \<Rightarrow> char" where
  "comma_slash c \<equiv> (if c = CHR '','' then CHR ''/'' else c)"

abbreviation slash_comma :: "char \<Rightarrow> char" where
  "slash_comma c \<equiv> (if c = CHR ''/'' then CHR '','' else c)"

lemma slash_comma_back: "CHR '','' \<notin> set b \<Longrightarrow> map comma_slash (map slash_comma b) = b"
  by (induction b) auto

lemma up_to:
  "\<forall>c \<in> set b. c \<noteq> d \<Longrightarrow> takeWhile (\<lambda>c. c \<noteq> d) (b @ d # t) = b \<and> dropWhile (\<lambda>c. c \<noteq> d) (b @ d # t) = d # t"
  by (induction b) auto

lemma decode_amp:
  assumes "s \<noteq> []"
  shows "IMAP2MAPICharset from_utf7 (CHR ''&'' # s) =
    (if hd s = CHR ''-'' then apsnd (\<lambda>t. 0x26 # t) (IMAP2MAPICharset from_utf7 (tl s))
     else case from_utf7 (CHR ''+'' # map comma_slash (takeWhile (\<lambda>c. c \<noteq> CHR ''-'') s)) of
            None \<Rightarrow> (MAPI_E_BAD_CHARWIDTH, [])
          | Some w \<Rightarrow> apsnd (\<lambda>t. w @ t) (IMAP2MAPICharset from_utf7 (tl (dropWhile (\<lambda>c. c \<noteq> CHR ''-'') s))))"
proof -
  have "\<not> sint (byte_of CHR ''&'') < 0" by code_simp
  then show ?thesis using assms by (subst IMAP2MAPICharset.simps(2)) simp
qed

lemma decode_run:
  assumes "b \<noteq> []" "CHR ''-'' \<notin> set b" "CHR '','' \<notin> set b" "from_utf7 (CHR ''+'' # b) = Some w"
  shows "IMAP2MAPICharset from_utf7 (imap_utf7 (CHR ''+'' # b @ ''-'') @ t) = apsnd (\<lambda>r. w @ r) (IMAP2MAPICharset from_utf7 t)"
proof -
  let ?b = "map slash_comma b"
  have minus: "\<forall>c \<in> set ?b. c \<noteq> CHR ''-''" using assms(2) by auto
  have run: "imap_utf7 (CHR ''+'' # b @ ''-'') @ t = CHR ''&'' # (?b @ CHR ''-'' # t)" by (simp add: imap_utf7_def)
  have "hd (?b @ CHR ''-'' # t) \<noteq> CHR ''-''" using minus assms(1) by (cases b) auto
  moreover have "takeWhile (\<lambda>c. c \<noteq> CHR ''-'') (?b @ CHR ''-'' # t) = ?b"
    "dropWhile (\<lambda>c. c \<noteq> CHR ''-'') (?b @ CHR ''-'' # t) = CHR ''-'' # t"
    using up_to [OF minus] by simp_all
  ultimately show ?thesis
    unfolding run by (subst decode_amp) (simp_all only: slash_comma_back [OF assms(3)] assms(4), simp_all)
qed

lemma ascii_byte:
  fixes b :: byte
  assumes "b \<le> 0x7e"
  shows "\<not> sint b < 0"
proof -
  have "uint b \<le> 126" using assms by (simp add: word_le_def)
  then have "\<not> bit (uint b) 7" by (simp add: bit_iff_odd)
  then show ?thesis by (simp add: sint_uint signed_take_bit_eq_if_positive)
qed

lemma chr_of_char: "chr_of b = c \<longleftrightarrow> b = byte_of c"
  using chr_of_inj [of b "byte_of c"] by simp

lemma ascii_char:
  fixes c :: uint32
  assumes "direct_char c"
  obtains b :: byte where "c = ucast b" "ucast c = b" "b \<le> 0x7e" "b \<noteq> 0x26"
proof
  have c: "c \<le> 0x7e" "c \<noteq> 0x26" using assms by (auto simp: direct_char_def intro: order_trans)
  then have "unat c \<le> 126" by (simp add: word_le_nat_alt)
  then have u: "unat (ucast c :: byte) = unat c" by (simp add: unsigned_ucast_eq take_bit_nat_eq_self)
  then show "c = ucast (ucast c :: byte)"
    by (simp add: word_unat_eq_iff unsigned_ucast_eq unsigned_take_bit_eq take_bit_nat_eq_self)
  show "ucast c \<le> (0x7e :: byte)" using u c(1) by (simp add: word_le_nat_alt)
  show "ucast c \<noteq> (0x26 :: byte)" using u c(2) by (simp add: word_unat_eq_iff)
  show "ucast c = (ucast c :: byte)" ..
qed

lemma decode_escape:
  assumes "d = CHR 0x22 \<or> d = CHR 0x5C"
  shows "IMAP2MAPICharset from_utf7 (CHR 0x5C # d # t) = apsnd (\<lambda>r. ucast (byte_of d) # r) (IMAP2MAPICharset from_utf7 t)"
proof -
  have "\<not> sint (byte_of CHR 0x5C) < 0" by code_simp
  then show ?thesis using assms by (subst IMAP2MAPICharset.simps(2)) simp
qed

lemma decode_plain:
  assumes "\<not> sint (byte_of c) < 0" "c \<noteq> CHR ''&''" "c \<noteq> CHR 0x5C"
  shows "IMAP2MAPICharset from_utf7 (c # t) = apsnd (\<lambda>r. ucast (byte_of c) # r) (IMAP2MAPICharset from_utf7 t)"
  using assms by (subst IMAP2MAPICharset.simps(2)) (simp split: list.split)

lemma decode_direct:
  assumes "direct_char c"
  shows "IMAP2MAPICharset from_utf7 ((if c = 0x22 \<or> c = 0x5C then [CHR 0x5C] else []) @ chr_of (ucast c) # t) =
    apsnd (\<lambda>r. c # r) (IMAP2MAPICharset from_utf7 t)"
proof -
  obtain b :: byte where b: "c = ucast b" "ucast c = b" "b \<le> 0x7e" "b \<noteq> 0x26" using assms by (rule ascii_char)
  have bytes: "byte_of CHR 0x22 = 0x22" "byte_of CHR 0x5C = 0x5C" "byte_of CHR ''&'' = 0x26" by code_simp+
  have special: "c = 0x22 \<longleftrightarrow> b = 0x22" "c = 0x5C \<longleftrightarrow> b = 0x5C"
    using b(1,2) by auto
  show ?thesis
  proof (cases "b = 0x22 \<or> b = 0x5C")
    case True
    then have "chr_of b = CHR 0x22 \<or> chr_of b = CHR 0x5C" by (simp only: chr_of_char bytes)
    from decode_escape [OF this] show ?thesis using True by (simp add: special b(2) flip: b(1))
  next
    case False
    have "IMAP2MAPICharset from_utf7 (chr_of b # t) = apsnd (\<lambda>r. ucast (byte_of (chr_of b)) # r) (IMAP2MAPICharset from_utf7 t)"
      using False b(4) ascii_byte [OF b(3)] by (intro decode_plain) (simp_all add: chr_of_char bytes)
    then show ?thesis using False by (simp add: special b(2) flip: b(1))
  qed
qed

lemma decode_encode:
  assumes "utf7_conversion to_utf7 from_utf7 ok"
  shows "\<forall>c \<in> set w. outside_ascii c \<longrightarrow> ok c \<Longrightarrow>
    \<exists>t. MAPI2IMAPCharset to_utf7 w = (hrSuccess, t) \<and> IMAP2MAPICharset from_utf7 t = (hrSuccess, w)"
proof (induction "length w" arbitrary: w rule: less_induct)
  case less
  show ?case
  proof (cases w)
    case Nil
    then show ?thesis by simp
  next
    case (Cons c s)
    consider "direct_char c" | "c = 0x26" | "\<not> direct_char c" "c \<noteq> 0x26" by blast
    then show ?thesis
    proof cases
      case 1
      obtain t where "MAPI2IMAPCharset to_utf7 s = (hrSuccess, t)" "IMAP2MAPICharset from_utf7 t = (hrSuccess, s)"
        using less Cons by fastforce
      then show ?thesis using 1 Cons decode_direct [OF 1, of from_utf7 t] by (simp add: MAPI2IMAPCharset.simps(2))
    next
      case 2
      obtain t where "MAPI2IMAPCharset to_utf7 s = (hrSuccess, t)" "IMAP2MAPICharset from_utf7 t = (hrSuccess, s)"
        using less Cons by fastforce
      then show ?thesis using 2 Cons by (simp add: MAPI2IMAPCharset.simps(2) decode_amp direct_char_def)
    next
      case 3
      let ?run = "c # takeWhile outside_ascii s" and ?rest = "dropWhile outside_ascii s"
      have "outside_ascii c"
        using 3 by (simp add: direct_char_def outside_ascii_def word_le_nat_alt word_less_nat_alt word_unat_eq_iff) linarith
      then have "\<forall>d \<in> set ?run. outside_ascii d \<and> ok d" using less(2) Cons by (auto dest: set_takeWhileD)
      then obtain b where b: "b \<noteq> []" "CHR ''-'' \<notin> set b" "CHR '','' \<notin> set b" "to_utf7 ?run = Some (CHR ''+'' # b @ ''-'')"
          "from_utf7 (CHR ''+'' # b) = Some ?run"
        using assms unfolding utf7_conversion_def by blast
      have "length ?rest < length w" using length_dropWhile_le [of outside_ascii s] Cons by simp
      moreover have "\<forall>d \<in> set ?rest. outside_ascii d \<longrightarrow> ok d" using less(2) Cons by (auto dest: set_dropWhileD)
      ultimately obtain t where "MAPI2IMAPCharset to_utf7 ?rest = (hrSuccess, t)" "IMAP2MAPICharset from_utf7 t = (hrSuccess, ?rest)"
        using less(1) by blast
      then show ?thesis
        using 3 Cons b(4) decode_run [of b from_utf7 ?run t, OF b(1-3,5)] by (simp add: MAPI2IMAPCharset.simps(2))
    qed
  qed
qed

text \<open>
  C35: Folder paths survive the encoding for IMAP clients, for a path of at least one name, names that are
  not empty and contain neither a slash, which is the delimiter, nor NUL, and characters that are printable
  ASCII or that the converter writes in its encoded form and reads back. (Tab, carriage return and line feed,
  which UTF-7 converters write as they are, are not of this kind.) Joining the names with the delimiter, encoding the
  path, decoding it and splitting it again gives the names; no encoding error occurs, and no read in front of
  a string.
\<close>

theorem folder_path_round_trip:
  assumes "utf7_conversion to_utf7 from_utf7 ok" and "ps \<noteq> []"
    and "\<forall>p \<in> set ps. p \<noteq> [] \<and> IMAP_HIERARCHY_DELIMITER \<notin> set p \<and> 0 \<notin> set p \<and> (\<forall>c \<in> set p. outside_ascii c \<longrightarrow> ok c)"
  shows "\<exists>t. MAPI2IMAPCharset to_utf7 (HrUnsplitPath ps) = (hrSuccess, t) \<and>
    apsnd HrSplitPath (IMAP2MAPICharset from_utf7 t) = (hrSuccess, Some ps)"
proof -
  have "\<not> outside_ascii IMAP_HIERARCHY_DELIMITER" by code_simp
  then have "\<forall>p \<in> set ps. \<forall>c \<in> set p. outside_ascii c \<longrightarrow> ok c \<Longrightarrow> \<forall>c \<in> set (HrUnsplitPath ps). outside_ascii c \<longrightarrow> ok c" for ps
    by (induction ps) auto
  then have "\<forall>c \<in> set (HrUnsplitPath ps). outside_ascii c \<longrightarrow> ok c" using assms(3) by blast
  from decode_encode [OF assms(1) this] obtain t where
    t: "MAPI2IMAPCharset to_utf7 (HrUnsplitPath ps) = (hrSuccess, t)" "IMAP2MAPICharset from_utf7 t = (hrSuccess, HrUnsplitPath ps)" by blast
  moreover have "HrSplitPath (HrUnsplitPath ps) = Some ps" using assms(2,3) by (intro split_unsplit) auto
  ultimately show ?thesis by simp
qed

text \<open>
  Applied to a conversion that knows one letter, e with an acute accent, with runs of up to two of it, on
  the path \<open>R&D/\<close> followed by two of these letters.
\<close>

definition e_acute_to :: "widestring \<Rightarrow> string option" where
  "e_acute_to w = Some (CHR ''+'' # concat (map (\<lambda>_. ''AOk'') w) @ ''-'')"

definition e_acute_from :: "string \<Rightarrow> widestring option" where
  "e_acute_from s = Some (replicate ((length s - 1) div 3) 0xE9)"

lemma folder_path_round_trip_witness:
  "\<exists>t. MAPI2IMAPCharset e_acute_to (HrUnsplitPath [[0x52, 0x26, 0x44], [0xE9, 0xE9]]) = (hrSuccess, t) \<and>
    apsnd HrSplitPath (IMAP2MAPICharset e_acute_from t) = (hrSuccess, Some [[0x52, 0x26, 0x44], [0xE9, 0xE9]])"
proof -
  have digits: "set (concat (map (\<lambda>_. ''AOk'') w)) \<subseteq> set ''AOk''" and
    len: "length (concat (map (\<lambda>_. ''AOk'') w)) = 3 * length w" for w :: widestring
    by (induction w) auto
  have all: "\<forall>c \<in> set w. c = 0xE9 \<Longrightarrow> replicate (length w) 0xE9 = w" for w :: widestring
    by (induction w) auto
  have plain: "\<forall>ch \<in> set ''AOk''. ch \<noteq> CHR ''-'' \<and> ch \<noteq> CHR '','' \<and> \<not> sint (byte_of ch) < 0" by code_simp
  have "\<exists>b. b \<noteq> [] \<and> CHR ''-'' \<notin> set b \<and> CHR '','' \<notin> set b \<and> (\<forall>ch \<in> set b. \<not> sint (byte_of ch) < 0) \<and>
      e_acute_to w = Some (CHR ''+'' # b @ ''-'') \<and> e_acute_from (CHR ''+'' # b) = Some w"
    if "w \<noteq> [] \<and> (\<forall>c \<in> set w. outside_ascii c \<and> c = 0xE9)" for w
  proof (intro exI conjI)
    let ?b = "concat (map (\<lambda>_. ''AOk'') w)"
    show "e_acute_to w = Some (CHR ''+'' # ?b @ ''-'')" by (simp add: e_acute_to_def)
    show "e_acute_from (CHR ''+'' # ?b) = Some w" using that all [of w] len [of w] by (simp add: e_acute_from_def)
    show "?b \<noteq> []" using that by (cases w) auto
    show "CHR ''-'' \<notin> set ?b" "CHR '','' \<notin> set ?b" "\<forall>ch \<in> set ?b. \<not> sint (byte_of ch) < 0"
      using plain digits [of w] by blast+
  qed
  then have "utf7_conversion e_acute_to e_acute_from (\<lambda>c. c = 0xE9)" unfolding utf7_conversion_def by blast
  then show ?thesis
    by (rule folder_path_round_trip) (auto simp: outside_ascii_def IMAP_HIERARCHY_DELIMITER_def)
qed

end
