(* ===== verification/ImapView.thy ===== *)
theory ImapView
  imports ImapText
begin

text \<open>
  The selected folder of an IMAP session (gateway/IMAP.cpp): the list of its messages in the order of
  their sequence numbers, the commands SELECT, NOOP, CHECK, CLOSE, EXPUNGE, IDLE and DONE, the
  callback that reports changes during IDLE, and the untagged responses by which the client follows the
  list.

  What the mail server and the socket answer is the record \<open>imapenv\<close>, a parameter of every operation, so
  that it may differ from one to the next.
\<close>

section \<open>Messages and their flags\<close>

definition MSGFLAG_READ :: uint32 where "MSGFLAG_READ = 1"
definition MSGSTATUS_DELMARKED :: uint32 where "MSGSTATUS_DELMARKED = 0x8"
definition MSGSTATUS_ANSWERED :: uint32 where "MSGSTATUS_ANSWERED = 0x10000"
definition MSGSTATUS_DRAFT :: uint32 where "MSGSTATUS_DRAFT = 0x20000"
definition NOTEIVERB_OPEN :: uint32 where "NOTEIVERB_OPEN = 0"
definition NOTEIVERB_REPLYTOSENDER :: uint32 where "NOTEIVERB_REPLYTOSENDER = 102"
definition NOTEIVERB_REPLYTOALL :: uint32 where "NOTEIVERB_REPLYTOALL = 103"
definition NOTEIVERB_FORWARD :: uint32 where "NOTEIVERB_FORWARD = 104"

text \<open>The four properties the flags come from; \<open>None\<close> where a message lacks one.\<close>

record flagprops =
  message_flags :: "uint32 option"
  flag_status :: "uint32 option"
  msg_status :: "uint32 option"
  last_verb :: "uint32 option"

definition has_bits :: "uint32 option \<Rightarrow> uint32 \<Rightarrow> bool" where
  "has_bits v m = (case v of None \<Rightarrow> False | Some w \<Rightarrow> w AND m \<noteq> 0)"

definition bs_flag :: "string \<Rightarrow> string" where "bs_flag s = CHR 0x5C # s @ '' ''"

definition PropsToFlags :: "flagprops \<Rightarrow> bool \<Rightarrow> bool \<Rightarrow> string" where
  "PropsToFlags p bRecent bRead =
     butlast (
       (if has_bits (message_flags p) MSGFLAG_READ \<or> bRead then bs_flag ''Seen'' else []) @
       (if flag_status p \<noteq> None \<and> flag_status p \<noteq> Some 0 then bs_flag ''Flagged'' else []) @
       (case last_verb p of
          None \<Rightarrow> []
        | Some v \<Rightarrow>
            (if v = NOTEIVERB_REPLYTOSENDER \<or> v = NOTEIVERB_REPLYTOALL then bs_flag ''Answered'' else []) @
            (if v = NOTEIVERB_FORWARD then ''$Forwarded '' else [])) @
       (if has_bits (msg_status p) MSGSTATUS_DRAFT then bs_flag ''Draft'' else []) @
       (if last_verb p = None \<and> has_bits (msg_status p) MSGSTATUS_ANSWERED then bs_flag ''Answered'' else []) @
       (if has_bits (msg_status p) MSGSTATUS_DELMARKED then bs_flag ''Deleted'' else []) @
       (if bRecent then bs_flag ''Recent'' else []))"

record SMail =
  sEntryID :: bytes
  sInstanceKey :: bytes
  ulUid :: uint32
  bRecent :: bool
  strFlags :: string

text \<open>A row of the contents table; a column that is an error is \<open>None\<close>.\<close>

record mailrow = flagprops +
  c_EID :: "bytes option"
  c_IKEY :: "bytes option"
  c_IMAPID :: "uint32 option"

definition props_of :: "mailrow \<Rightarrow> flagprops" where "props_of r = flagprops.truncate r"

section \<open>The session and its surroundings\<close>

text \<open>Warnings are no failures.\<close>

definition FAILED :: "hresult \<Rightarrow> bool" where
  "FAILED hr = (hr \<notin> {hrSuccess, MAPI_W_ERRORS_RETURNED, MAPI_W_PARTIAL_COMPLETION, MAPI_W_POSITION_CHANGED})"

text \<open>The lines sent to the client. Numbers are those of messages, counted from one.\<close>

datatype response =
    EXPUNGE nat
  | EXISTS nat
  | RECENT nat
  | FETCH nat "uint32 option" string
  | Untagged string
  | Continue string
  | Tagged string string string

definition RESP_UNTAGGED :: string where "RESP_UNTAGGED = ''* ''"
definition RESP_CONTINUE :: string where "RESP_CONTINUE = ''+ ''"
definition RESP_TAGGED_OK :: string where "RESP_TAGGED_OK = '' OK ''"
definition RESP_TAGGED_NO :: string where "RESP_TAGGED_NO = '' NO ''"
definition RESP_TAGGED_BAD :: string where "RESP_TAGGED_BAD = '' BAD ''"

fun line_of :: "response \<Rightarrow> string" where
  "line_of (EXPUNGE n) = RESP_UNTAGGED @ udec n @ '' EXPUNGE''"
| "line_of (EXISTS n) = RESP_UNTAGGED @ udec n @ '' EXISTS''"
| "line_of (RECENT n) = RESP_UNTAGGED @ udec n @ '' RECENT''"
| "line_of (FETCH n (Some u) f) = RESP_UNTAGGED @ udec n @ '' FETCH (UID '' @ print_u u @ '' FLAGS ('' @ f @ ''))''"
| "line_of (FETCH n None f) = RESP_UNTAGGED @ udec n @ '' FETCH (FLAGS ('' @ f @ ''))''"
| "line_of (Untagged s) = RESP_UNTAGGED @ s"
| "line_of (Continue s) = RESP_CONTINUE @ s"
| "line_of (Tagged strResult strTag s) = strTag @ strResult @ s"

text \<open>
  \<open>query_rows\<close> are the answers of QueryRows up to the first one without rows; \<open>send_ok n\<close> tells whether the
  n-th line of the session is written; \<open>folder_ids\<close> are the result of reading PR_EC_IMAP_MAX_ID and
  PR_EC_HIERARCHYID; \<open>deleted_rows\<close> are the entry ids HrQueryAllRows gives for a restriction.
\<close>

record imapenv =
  imap_max_fail_commands :: string
  send_ok :: "nat \<Rightarrow> bool"
  HrFindFolder :: "widestring \<Rightarrow> bool \<Rightarrow> hresult"
  folder_ids :: "hresult \<times> uint32 option \<times> uint32 option"
  GetContentsTable :: hresult
  SetColumns :: hresult
  SortTable :: hresult
  query_rows :: "(hresult \<times> mailrow list) list"
  from_utf7 :: "string \<Rightarrow> widestring option"
  CreateMAPIRestriction :: hresult
  deleted_rows :: "restriction option \<Rightarrow> hresult \<times> bytes list"
  DeleteMessages :: hresult
  HrAllocAdviseSink :: hresult
  Advise :: "hresult \<times> uint32"

text \<open>
  \<open>sent\<close> are the lines written, \<open>writes_tried\<close> counts them; \<open>max_id_set\<close> are the values written to
  PR_EC_IMAP_MAX_ID, \<open>status_calls\<close> the calls of SetMessageStatus (entry id, new status, mask), \<open>deletions\<close> the lists
  given to DeleteMessages. Pointers are flags.
\<close>

record imap =
  lpSession :: bool
  strCurrentFolder :: widestring
  bCurrentFolderReadOnly :: bool
  lstFolderMailEIDs :: "SMail list"
  m_ulLastUid :: uint32
  m_ulErrors :: uint32
  m_bIdleMode :: bool
  m_strIdleTag :: string
  m_lpIdleTable :: bool
  m_lpIdleAdviseSink :: bool
  m_ulIdleAdviseConnection :: uint32
  sent :: "response list"
  writes_tried :: nat
  max_id_set :: "uint32 list"
  status_calls :: "(bytes \<times> uint32 \<times> uint32) list"
  deletions :: "bytes list list"

definition HrUntagged :: "imapenv \<Rightarrow> response \<Rightarrow> imap \<Rightarrow> hresult \<times> imap" where
  "HrUntagged e r c =
     (let c = c\<lparr>writes_tried := writes_tried c + 1\<rparr>
      in if send_ok e (writes_tried c) then (hrSuccess, c\<lparr>sent := sent c @ [r]\<rparr>) else (MAPI_E_CALL_FAILED, c))"

text \<open>A tagged response: every one that is no OK counts as an error, and too many end the session.\<close>

definition HrTagged :: "imapenv \<Rightarrow> string \<Rightarrow> string \<Rightarrow> string \<Rightarrow> imap \<Rightarrow> hresult \<times> imap" where
  "HrTagged e strResult strTag strResponse c =
     (let c = (if strResult = RESP_TAGGED_OK then c\<lparr>m_ulErrors := 0\<rparr> else c\<lparr>m_ulErrors := m_ulErrors c + 1\<rparr>)
      in if m_ulErrors c \<ge> strtoui0 (imap_max_fail_commands e) then (MAPI_E_END_OF_SESSION, c)
         else HrUntagged e (Tagged strResult strTag strResponse) c)"

text \<open>The pattern \<open>hr2 = HrResponse(...)\<close>: an error of the response takes precedence over \<open>hr\<close>.\<close>

definition tagged_or :: "imapenv \<Rightarrow> string \<Rightarrow> string \<Rightarrow> string \<Rightarrow> hresult \<Rightarrow> imap \<Rightarrow> hresult \<times> imap" where
  "tagged_or e strResult strTag strResponse hr c =
     (case HrTagged e strResult strTag strResponse c of (hr2, c) \<Rightarrow> (if hr2 \<noteq> hrSuccess then hr2 else hr, c))"

fun write_all :: "imapenv \<Rightarrow> response list \<Rightarrow> imap \<Rightarrow> hresult \<times> imap" where
  "write_all e [] c = (hrSuccess, c)"
| "write_all e (r # rs) c = (case HrUntagged e r c of (hr, c) \<Rightarrow> if hr \<noteq> hrSuccess then (hr, c) else write_all e rs c)"

section \<open>Following the folder\<close>

text \<open>The local variables of the scan over the rows: UID to index for messages not seen yet.\<close>

record scan =
  mapUIDs :: "uint32 \<Rightarrow> nat option"
  bNewMail :: bool
  ulUnseen :: nat

fun index_uids :: "nat \<Rightarrow> SMail list \<Rightarrow> (uint32 \<Rightarrow> nat option) \<Rightarrow> uint32 \<Rightarrow> nat option" where
  "index_uids n [] m = m"
| "index_uids n (mail # ms) m = index_uids (n + 1) ms (m(ulUid mail \<mapsto> n))"

definition new_mail :: "uint32 \<Rightarrow> mailrow \<Rightarrow> bytes \<Rightarrow> bytes \<Rightarrow> uint32 \<Rightarrow> SMail" where
  "new_mail ulMaxUID row eid ikey uid =
     (let recent = (uid > ulMaxUID)
      in \<lparr>sEntryID = eid, sInstanceKey = ikey, ulUid = uid, bRecent = recent,
          strFlags = PropsToFlags (props_of row) recent False\<rparr>)"

definition add_mail :: "uint32 \<Rightarrow> mailrow \<Rightarrow> bytes \<Rightarrow> bytes \<Rightarrow> uint32 \<Rightarrow> scan \<Rightarrow> imap \<Rightarrow> scan \<times> imap" where
  "add_mail ulMaxUID row eid ikey uid t c =
     (let c = c\<lparr>lstFolderMailEIDs := lstFolderMailEIDs c @ [new_mail ulMaxUID row eid ikey uid],
                m_ulLastUid := max uid (m_ulLastUid c)\<rparr>;
          unread = (case message_flags row of None \<Rightarrow> False | Some f \<Rightarrow> f AND MSGFLAG_READ = 0)
      in (t\<lparr>bNewMail := True, ulUnseen := (if ulUnseen t = 0 \<and> unread then length (lstFolderMailEIDs c) else ulUnseen t)\<rparr>, c))"

definition known_mail :: "imapenv \<Rightarrow> bool \<Rightarrow> mailrow \<Rightarrow> uint32 \<Rightarrow> nat \<Rightarrow> scan \<Rightarrow> imap \<Rightarrow> hresult \<times> scan \<times> imap" where
  "known_mail e bShowUID row uid i t c =
     (let mail = lstFolderMailEIDs c ! i;
          flags = PropsToFlags (props_of row) (bRecent mail) False;
          t' = t\<lparr>mapUIDs := (mapUIDs t)(uid := None)\<rparr>
      in if strFlags mail \<noteq> flags
         then (case HrUntagged e (FETCH (i + 1) (if bShowUID then Some uid else None) flags) c of (hr, c) \<Rightarrow>
                 if hr \<noteq> hrSuccess then (hr, t, c)
                 else (hrSuccess, t', c\<lparr>lstFolderMailEIDs := (lstFolderMailEIDs c)[i := mail\<lparr>strFlags := flags\<rparr>]\<rparr>))
         else (hrSuccess, t', c))"

fun scan_rows :: "imapenv \<Rightarrow> bool \<Rightarrow> uint32 \<Rightarrow> mailrow list \<Rightarrow> scan \<Rightarrow> imap \<Rightarrow> hresult \<times> scan \<times> imap" where
  "scan_rows e bShowUID ulMaxUID [] t c = (hrSuccess, t, c)"
| "scan_rows e bShowUID ulMaxUID (row # rows) t c =
     (case (c_EID row, c_IKEY row, c_IMAPID row) of
        (Some eid, Some ikey, Some uid) \<Rightarrow>
          (case mapUIDs t uid of
             None \<Rightarrow> (case add_mail ulMaxUID row eid ikey uid t c of (t, c) \<Rightarrow> scan_rows e bShowUID ulMaxUID rows t c)
           | Some i \<Rightarrow>
               (case known_mail e bShowUID row uid i t c of (hr, t, c) \<Rightarrow>
                  if hr \<noteq> hrSuccess then (hr, t, c) else scan_rows e bShowUID ulMaxUID rows t c))
      | _ \<Rightarrow> scan_rows e bShowUID ulMaxUID rows t c)"

fun scan_batches :: "imapenv \<Rightarrow> bool \<Rightarrow> uint32 \<Rightarrow> (hresult \<times> mailrow list) list \<Rightarrow> scan \<Rightarrow> imap \<Rightarrow> hresult \<times> scan \<times> imap" where
  "scan_batches e bShowUID ulMaxUID [] t c = (hrSuccess, t, c)"
| "scan_batches e bShowUID ulMaxUID ((hr, rows) # bs) t c =
     (if hr \<noteq> hrSuccess then (hr, t, c)
      else if rows = [] then (hrSuccess, t, c)
      else case scan_rows e bShowUID ulMaxUID rows t c of (hr, t, c) \<Rightarrow>
             if hr \<noteq> hrSuccess then (hr, t, c) else scan_batches e bShowUID ulMaxUID bs t c)"

text \<open>Messages left in the map are gone: they are reported and removed; the others may count as recent.\<close>

definition remove_at :: "nat \<Rightarrow> 'a list \<Rightarrow> 'a list" where "remove_at n xs = take n xs @ drop (n + 1) xs"

function expunge_loop :: "imapenv \<Rightarrow> (uint32 \<Rightarrow> nat option) \<Rightarrow> nat \<Rightarrow> nat \<Rightarrow> imap \<Rightarrow> hresult \<times> nat \<times> imap" where
  "expunge_loop e gone ulMailnr ulRecent c =
     (if ulMailnr < length (lstFolderMailEIDs c)
      then let mail = lstFolderMailEIDs c ! ulMailnr
           in if gone (ulUid mail) \<noteq> None
              then (case HrUntagged e (EXPUNGE (ulMailnr + 1)) c of (hr, c) \<Rightarrow>
                      if hr \<noteq> hrSuccess then (hr, ulRecent, c)
                      else expunge_loop e gone ulMailnr ulRecent (c\<lparr>lstFolderMailEIDs := remove_at ulMailnr (lstFolderMailEIDs c)\<rparr>))
              else expunge_loop e gone (ulMailnr + 1) (if bRecent mail then ulRecent + 1 else ulRecent) c
      else (hrSuccess, ulRecent, c))"
  by pat_completeness auto
termination
  by (relation "measure (\<lambda>(_, _, n, _, c). length (lstFolderMailEIDs c) - n)")
    (auto simp: HrUntagged_def Let_def remove_at_def split: if_splits)

declare expunge_loop.simps [simp del]

text \<open>
  The list is sorted by UID; messages with the same UID keep their order here, which the library does not
  promise. The values returned: the first unseen message, when the call succeeds, and the UIDVALIDITY, when it
  could be read.
\<close>

type_synonym refresh_result = "hresult \<times> nat option \<times> uint32 option \<times> imap"

definition refresh_end :: "imapenv \<Rightarrow> bool \<Rightarrow> bool \<Rightarrow> uint32 option \<Rightarrow> scan \<Rightarrow> imap \<Rightarrow> refresh_result" where
  "refresh_end e bInitialLoad bResetRecent validity t c =
     (case expunge_loop e (mapUIDs t) 0 0 c of (hr, ulRecent, c) \<Rightarrow>
        if hr \<noteq> hrSuccess then (hr, None, validity, c)
        else (case write_all e (if bNewMail t \<or> bInitialLoad then [EXISTS (length (lstFolderMailEIDs c)), RECENT ulRecent] else []) c of
                (hr, c) \<Rightarrow>
               if hr \<noteq> hrSuccess then (hr, None, validity, c)
               else let c = c\<lparr>lstFolderMailEIDs := sort_key ulUid (lstFolderMailEIDs c)\<rparr>;
                        c = (if bResetRecent \<and> ulRecent \<noteq> 0 then c\<lparr>max_id_set := max_id_set c @ [m_ulLastUid c]\<rparr> else c)
                    in (hrSuccess, Some (ulUnseen t), validity, c)))"

definition HrRefreshFolderMails :: "imapenv \<Rightarrow> bool \<Rightarrow> bool \<Rightarrow> bool \<Rightarrow> imap \<Rightarrow> refresh_result" where
  "HrRefreshFolderMails e bInitialLoad bResetRecent bShowUID c =
     (if strCurrentFolder c = [] \<or> \<not> lpSession c then (MAPI_E_CALL_FAILED, None, None, c)
      else let hr = HrFindFolder e (strCurrentFolder c) (bCurrentFolderReadOnly c) in
      if hr \<noteq> hrSuccess then (hr, None, None, c)
      else (case folder_ids e of (hr, max_id, validity) \<Rightarrow>
                if FAILED hr then (hr, None, None, c)
                else if GetContentsTable e \<noteq> hrSuccess then (GetContentsTable e, None, validity, c)
                else if SetColumns e \<noteq> hrSuccess then (SetColumns e, None, validity, c)
                else if SortTable e \<noteq> hrSuccess then (SortTable e, None, validity, c)
                else let ulMaxUID = (case max_id of None \<Rightarrow> 0 | Some u \<Rightarrow> u);
                         c = (if bInitialLoad then c\<lparr>lstFolderMailEIDs := []\<rparr> else c);
                         t = \<lparr>mapUIDs = index_uids 0 (lstFolderMailEIDs c) (\<lambda>_. None), bNewMail = False, ulUnseen = 0\<rparr>
                     in (case scan_batches e bShowUID ulMaxUID (query_rows e) t c of (hr, t, c) \<Rightarrow>
                           if hr \<noteq> hrSuccess then (hr, None, validity, c)
                           else refresh_end e bInitialLoad bResetRecent validity t c)))"

text \<open>The call most commands make, whose values are not used.\<close>

definition refresh :: "imapenv \<Rightarrow> imap \<Rightarrow> hresult \<times> imap" where
  "refresh e c = (case HrRefreshFolderMails e False (\<not> bCurrentFolderReadOnly c) False c of (hr, _, _, c) \<Rightarrow> (hr, c))"

section \<open>Commands\<close>

definition HrCmdNoop_imap :: "imapenv \<Rightarrow> string \<Rightarrow> imap \<Rightarrow> hresult \<times> imap" where
  "HrCmdNoop_imap e strTag c =
     (case (if strCurrentFolder c \<noteq> [] then refresh e c else (hrSuccess, c)) of (hr, c) \<Rightarrow>
        if hr \<noteq> hrSuccess then tagged_or e RESP_TAGGED_BAD strTag ''NOOP completed'' hr c
        else HrTagged e RESP_TAGGED_OK strTag ''NOOP completed'' c)"

definition HrCmdCheck :: "imapenv \<Rightarrow> string \<Rightarrow> imap \<Rightarrow> hresult \<times> imap" where
  "HrCmdCheck e strTag c =
     (case refresh e c of (hr, c) \<Rightarrow>
        if hr \<noteq> hrSuccess then tagged_or e RESP_TAGGED_NO strTag ''CHECK error reading folder messages'' hr c
        else HrTagged e RESP_TAGGED_OK strTag ''CHECK completed'' c)"

text \<open>SELECT and EXAMINE, with the flags a client may set.\<close>

definition all_flags :: string where
  "all_flags = ''('' @ bs_flag ''Seen'' @ bs_flag ''Draft'' @ bs_flag ''Deleted'' @ bs_flag ''Flagged'' @ bs_flag ''Answered'' @ ''$Forwarded)''"

definition HrCmdSelect :: "imapenv \<Rightarrow> string \<Rightarrow> string \<Rightarrow> bool \<Rightarrow> imap \<Rightarrow> hresult \<times> imap" where
  "HrCmdSelect e strTag strFolder bReadOnly c =
     (let command = (if bReadOnly then ''EXAMINE'' else ''SELECT'') in
      if \<not> lpSession c then tagged_or e RESP_TAGGED_NO strTag (command @ '' error no session'') MAPI_E_CALL_FAILED c
      else if strFolder = [] then tagged_or e RESP_TAGGED_NO strTag (command @ '' invalid folder name'') MAPI_E_CALL_FAILED c
      else (case IMAP2MAPICharset (from_utf7 e) strFolder of (hr, folder) \<Rightarrow>
              let c = c\<lparr>strCurrentFolder := folder\<rparr> in
              if hr \<noteq> hrSuccess then tagged_or e RESP_TAGGED_NO strTag (command @ '' invalid folder name'') hr c
              else
                (case HrRefreshFolderMails e True (\<not> bReadOnly) False (c\<lparr>bCurrentFolderReadOnly := bReadOnly\<rparr>) of
                   (hr, unseen, validity, c) \<Rightarrow>
                   if hr \<noteq> hrSuccess then tagged_or e RESP_TAGGED_NO strTag (command @ '' error getting mails in folder'') hr c
                   else (case write_all e (
                           [Untagged (''FLAGS '' @ all_flags), Untagged (''OK [PERMANENTFLAGS '' @ all_flags @ ''] Permanent flags''),
                            Untagged (''OK [UIDNEXT '' @ print_u (m_ulLastUid c + 1) @ ''] Predicted next UID'')] @
                           (case unseen of None \<Rightarrow> [] | Some n \<Rightarrow>
                              if n \<noteq> 0 then [Untagged (''OK [UNSEEN '' @ udec n @ ''] First unseen message'')] else []) @
                           [Untagged (''OK [UIDVALIDITY '' @ print_u (case validity of None \<Rightarrow> 1 | Some v \<Rightarrow> v) @
                                      ''] UIDVALIDITY value'')]) c of (hr, c) \<Rightarrow>
                     if hr \<noteq> hrSuccess then (hr, c)
                     else if bReadOnly then HrTagged e RESP_TAGGED_OK strTag ''[READ-ONLY] EXAMINE completed'' c
                     else HrTagged e RESP_TAGGED_OK strTag ''[READ-WRITE] SELECT completed'' c))))"

text \<open>The restriction is the root's children: the UID set, and the mark set.\<close>

definition PR_MSG_STATUS :: uint32 where "PR_MSG_STATUS = 0x0E170003"

definition deleted_restriction :: "restriction option \<Rightarrow> restriction" where
  "deleted_restriction uid_rst =
     RES_AND ((case uid_rst of None \<Rightarrow> [] | Some r \<Rightarrow> [r]) @
              [RES_EXIST PR_MSG_STATUS, RES_BITMASK False PR_MSG_STATUS MSGSTATUS_DELMARKED])"

definition HrExpungeDeleted :: "imapenv \<Rightarrow> string \<Rightarrow> string \<Rightarrow> restriction option \<Rightarrow> imap \<Rightarrow> hresult \<times> imap" where
  "HrExpungeDeleted e strTag strCommand uid_rst c =
     (let hr = HrFindFolder e (strCurrentFolder c) (bCurrentFolderReadOnly c) in
      if hr \<noteq> hrSuccess then tagged_or e RESP_TAGGED_NO strTag (strCommand @ '' error opening folder'') hr c
      else if GetContentsTable e \<noteq> hrSuccess
      then tagged_or e RESP_TAGGED_NO strTag (strCommand @ '' error opening folder contents'') (GetContentsTable e) c
      else if CreateMAPIRestriction e \<noteq> hrSuccess then (CreateMAPIRestriction e, c)
      else (case deleted_rows e (Some (deleted_restriction uid_rst)) of (hr, ids) \<Rightarrow>
              if hr \<noteq> hrSuccess then tagged_or e RESP_TAGGED_NO strTag (strCommand @ '' error queryring rows'') hr c
              else if ids = [] then (hrSuccess, c)
              else let c = c\<lparr>status_calls := status_calls c @ map (\<lambda>i. (i, 0, NOT MSGSTATUS_DELMARKED)) ids,
                             deletions := deletions c @ [ids]\<rparr>
                   in if DeleteMessages e \<noteq> hrSuccess
                      then tagged_or e RESP_TAGGED_NO strTag (strCommand @ '' error deleting messages'') (DeleteMessages e) c
                      else (hrSuccess, c)))"

definition HrCmdClose :: "imapenv \<Rightarrow> string \<Rightarrow> imap \<Rightarrow> hresult \<times> imap" where
  "HrCmdClose e strTag c =
     (case (if strCurrentFolder c = [] \<or> \<not> lpSession c
            then tagged_or e RESP_TAGGED_NO strTag ''CLOSE error no folder'' MAPI_E_CALL_FAILED c
            else if bCurrentFolderReadOnly c then HrTagged e RESP_TAGGED_OK strTag ''CLOSE completed'' c
            else case HrExpungeDeleted e strTag ''CLOSE'' None c of (hr, c) \<Rightarrow>
                   if hr \<noteq> hrSuccess then (hr, c) else HrTagged e RESP_TAGGED_OK strTag ''CLOSE completed'' c) of
       (hr, c) \<Rightarrow> (hr, c\<lparr>strCurrentFolder := []\<rparr>))"

definition HrCmdExpunge :: "imapenv \<Rightarrow> string \<Rightarrow> string \<Rightarrow> imap \<Rightarrow> hresult \<times> imap" where
  "HrCmdExpunge e strTag strSeqSet c =
     (let strCommand = (if strSeqSet = [] then ''EXPUNGE'' else ''UID EXPUNGE'') in
      if strCurrentFolder c = [] \<or> \<not> lpSession c
      then tagged_or e RESP_TAGGED_NO strTag (strCommand @ '' error no folder'') MAPI_E_CALL_FAILED c
      else if bCurrentFolderReadOnly c
      then tagged_or e RESP_TAGGED_NO strTag (strCommand @ '' error folder read only'') MAPI_E_CALL_FAILED c
      else case HrExpungeDeleted e strTag strCommand
                  (HrSeqUidSetToRestriction (map ulUid (lstFolderMailEIDs c)) strSeqSet) c of (hr, c) \<Rightarrow>
             if hr \<noteq> hrSuccess then (hr, c)
             else HrTagged e RESP_TAGGED_OK strTag (strCommand @ '' completed'') (snd (refresh e c)))"

section \<open>IDLE\<close>

text \<open>
  A notification. The row of one that adds a message comes with its instance key as index; each refresh
  meets surroundings of its own.
\<close>

datatype notification =
    TABLE_ROW_ADDED bytes mailrow
  | TABLE_ROW_DELETED "bytes option"
  | TABLE_ROW_MODIFIED mailrow
  | TABLE_CHANGED imapenv
  | TABLE_RELOAD imapenv
  | OTHER_EVENT

text \<open>
  One notification of a batch. \<open>uid\<close> is the UID the local variable sMail holds, which a row without the
  column leaves as it was; it is \<open>None\<close> as long as the variable is uninitialised, and a row that reads it
  then, or that lacks its entry id, makes the result undefined. The results of the writes are dropped.
\<close>

definition idle_event :: "imapenv \<Rightarrow> notification \<Rightarrow> uint32 option \<Rightarrow> nat \<Rightarrow> imap \<Rightarrow> (uint32 option \<times> nat \<times> imap) option" where
  "idle_event e n uid ulRecent c =
     (case n of
        TABLE_ROW_ADDED ikey row \<Rightarrow>
          (case (c_EID row, (case c_IMAPID row of None \<Rightarrow> uid | Some u \<Rightarrow> Some u)) of
             (Some eid, Some u) \<Rightarrow>
               Some (Some u, ulRecent + 1,
                     c\<lparr>lstFolderMailEIDs := lstFolderMailEIDs c @
                          [\<lparr>sEntryID = eid, sInstanceKey = ikey, ulUid = u, bRecent = True,
                            strFlags = PropsToFlags (props_of row) True False\<rparr>],
                       m_ulLastUid := max (m_ulLastUid c) u\<rparr>)
           | _ \<Rightarrow> None)
      | TABLE_ROW_DELETED ikey \<Rightarrow>
          Some (uid, ulRecent,
            (case ikey of None \<Rightarrow> c
             | Some k \<Rightarrow>
                 let i = length (takeWhile (\<lambda>m. sInstanceKey m \<noteq> k) (lstFolderMailEIDs c))
                 in if i < length (lstFolderMailEIDs c)
                    then (snd (HrUntagged e (EXPUNGE (i + 1)) c))\<lparr>lstFolderMailEIDs := remove_at i (lstFolderMailEIDs c)\<rparr>
                    else c))
      | TABLE_ROW_MODIFIED row \<Rightarrow>
          Some (uid, ulRecent,
            (case c_IMAPID row of None \<Rightarrow> c
             | Some u \<Rightarrow>
                 let i = length (takeWhile (\<lambda>m. ulUid m \<noteq> u) (lstFolderMailEIDs c))
                 in if i < length (lstFolderMailEIDs c)
                    then snd (HrUntagged e (FETCH (i + 1) None
                                (PropsToFlags (props_of row) (bRecent (lstFolderMailEIDs c ! i)) False)) c)
                    else c))
      | TABLE_CHANGED e' \<Rightarrow> Some (uid, ulRecent, snd (refresh e' c))
      | TABLE_RELOAD e' \<Rightarrow> Some (uid, ulRecent, snd (refresh e' c))
      | OTHER_EVENT \<Rightarrow> Some (uid, ulRecent, c))"

fun idle_events :: "imapenv \<Rightarrow> notification list \<Rightarrow> uint32 option \<Rightarrow> nat \<Rightarrow> imap \<Rightarrow> (nat \<times> imap) option" where
  "idle_events e [] uid ulRecent c = Some (ulRecent, c)"
| "idle_events e (n # ns) uid ulRecent c =
     (case idle_event e n uid ulRecent c of
        None \<Rightarrow> None
      | Some (uid, ulRecent, c) \<Rightarrow> idle_events e ns uid ulRecent c)"

definition IdleAdviseCallback :: "imapenv \<Rightarrow> notification list \<Rightarrow> imap \<Rightarrow> (hresult \<times> imap) option" where
  "IdleAdviseCallback e ns c =
     (if \<not> m_bIdleMode c then Some (MAPI_E_CALL_FAILED, c)
      else case idle_events e ns None 0 c of
             None \<Rightarrow> None
           | Some (ulRecent, c) \<Rightarrow>
               Some (hrSuccess,
                 (if ulRecent \<noteq> 0
                  then snd (HrUntagged e (EXISTS (length (lstFolderMailEIDs c))) (snd (HrUntagged e (RECENT ulRecent) c)))
                  else c)))"

definition idle_release :: "imap \<Rightarrow> imap" where
  "idle_release c =
     c\<lparr>m_ulIdleAdviseConnection := (if m_ulIdleAdviseConnection c \<noteq> 0 \<and> m_lpIdleTable c then 0 else m_ulIdleAdviseConnection c),
       m_lpIdleAdviseSink := False, m_lpIdleTable := False\<rparr>"

definition HrCmdIdle :: "imapenv \<Rightarrow> string \<Rightarrow> imap \<Rightarrow> hresult \<times> imap" where
  "HrCmdIdle e strTag c0 =
     (let c = c0\<lparr>m_strIdleTag := strTag, m_bIdleMode := True\<rparr>;
          fail = (\<lambda>text hr c. case HrUntagged e (Continue text) c of (hr2, c) \<Rightarrow>
                    (if hr2 \<noteq> hrSuccess then hr2 else hr, idle_release c)) in
      if strCurrentFolder c = [] \<or> \<not> lpSession c
      then (case HrUntagged e (Continue ''empty idle, nothing is going to happen'') c of (hr, c) \<Rightarrow>
              (hr, if hr \<noteq> hrSuccess then idle_release c else c))
      else let hr = HrFindFolder e (strCurrentFolder c) (bCurrentFolderReadOnly c) in
      if hr \<noteq> hrSuccess then fail ''Can't open selected folder to idle in'' hr c
      else if GetContentsTable e \<noteq> hrSuccess
      then fail ''Can't open selected contents table to idle in'' (GetContentsTable e) c
      else let c = c\<lparr>m_lpIdleTable := True\<rparr> in
      if SetColumns e \<noteq> hrSuccess
      then fail ''Cannot select columns on selected contents table for idle information'' (SetColumns e) c
      else if HrAllocAdviseSink e \<noteq> hrSuccess then fail ''Can't allocate memory to idle'' (HrAllocAdviseSink e) c
      else let c = c\<lparr>m_lpIdleAdviseSink := True\<rparr> in
      (case Advise e of (hr, conn) \<Rightarrow>
         if hr \<noteq> hrSuccess then fail ''Can't advise on current selected folder'' hr c
         else let c = c\<lparr>m_ulIdleAdviseConnection := conn\<rparr>
              in (case HrUntagged e (Continue ''waiting for notifications'') c of (hr, c) \<Rightarrow>
                    (hr, if hr \<noteq> hrSuccess then idle_release c else c))))"

definition HrDone :: "imapenv \<Rightarrow> bool \<Rightarrow> imap \<Rightarrow> hresult \<times> imap" where
  "HrDone e bSendResponse c =
     (case (if bSendResponse
            then (if m_bIdleMode c then HrTagged e RESP_TAGGED_OK (m_strIdleTag c) ''IDLE complete'' c
                  else HrTagged e RESP_TAGGED_BAD (m_strIdleTag c) ''was not idling'' c)
            else (hrSuccess, c)) of (hr, c) \<Rightarrow>
        (hr, c\<lparr>m_lpIdleAdviseSink := False, m_ulIdleAdviseConnection := 0, m_bIdleMode := False, m_strIdleTag := [],
               m_lpIdleTable := False\<rparr>))"

end
