(* ===== verification/ImapViewSpec.thy ===== *)
theory ImapViewSpec
  imports ImapView StringUtilSpec
begin

text \<open>
  What an IMAP client can rely on: a client that follows the untagged responses has, after a refresh of the
  selected folder, the same messages as the server, in the same places and with the same flags. Changes
  reported during IDLE keep the numbering, as long as a batch does not change a message it adds.
\<close>

section \<open>A client\<close>

text \<open>
  What a client knows: for each message, by number, its flags once it was told. A response that names no
  message, or takes messages away without naming them, leaves the client without a state.
\<close>

type_synonym client = "string option list"

fun client_step :: "client \<Rightarrow> response \<Rightarrow> client option" where
  "client_step cl (EXPUNGE n) = (if 1 \<le> n \<and> n \<le> length cl then Some (remove_at (n - 1) cl) else None)"
| "client_step cl (EXISTS n) = (if length cl \<le> n then Some (cl @ replicate (n - length cl) None) else None)"
| "client_step cl (FETCH n u f) = (if 1 \<le> n \<and> n \<le> length cl then Some (cl[n - 1 := Some f]) else None)"
| "client_step cl r = Some cl"

fun client_run :: "client \<Rightarrow> response list \<Rightarrow> client option" where
  "client_run cl [] = Some cl"
| "client_run cl (r # rs) = (case client_step cl r of None \<Rightarrow> None | Some cl \<Rightarrow> client_run cl rs)"

lemma client_run_append [simp]: "client_run cl (rs @ qs) = Option.bind (client_run cl rs) (\<lambda>cl. client_run cl qs)"
  by (induction rs arbitrary: cl) (auto split: option.splits)

definition knows :: "string option \<Rightarrow> SMail \<Rightarrow> bool" where
  "knows k m \<longleftrightarrow> k = None \<or> k = Some (strFlags m)"

definition agrees :: "client \<Rightarrow> SMail list \<Rightarrow> bool" where
  "agrees cl ms \<longleftrightarrow> list_all2 knows cl ms"

section \<open>Writing and removing\<close>

lemma write_cases:
  assumes "HrUntagged e r c = (hr, c')"
  obtains "hr = hrSuccess" "sent c' = sent c @ [r]" "lstFolderMailEIDs c' = lstFolderMailEIDs c"
  | "hr = MAPI_E_CALL_FAILED" "sent c' = sent c" "lstFolderMailEIDs c' = lstFolderMailEIDs c"
  using assms by (auto simp: HrUntagged_def Let_def split: if_splits)

lemma length_remove_at: "i < length xs \<Longrightarrow> length (remove_at i xs) = length xs - 1"
  by (simp add: remove_at_def)

lemma remove_at_append: "remove_at (length as) (as @ x # xs) = as @ xs"
  by (simp add: remove_at_def)

lemma remove_at_map: "map f (remove_at i xs) = remove_at i (map f xs)"
  by (simp add: remove_at_def take_map drop_map)

lemma remove_at_all2: "list_all2 P xs ys \<Longrightarrow> list_all2 P (remove_at i xs) (remove_at i ys)"
  by (auto simp: remove_at_def intro!: list_all2_appendI list_all2_takeI list_all2_dropI)

section \<open>The rows a refresh reads\<close>

fun read_rows :: "(hresult \<times> mailrow list) list \<Rightarrow> mailrow list" where
  "read_rows [] = []"
| "read_rows ((hr, rows) # bs) = (if rows = [] then [] else rows @ read_rows bs)"

definition complete :: "mailrow \<Rightarrow> bool" where
  "complete r \<longleftrightarrow> c_EID r \<noteq> None \<and> c_IKEY r \<noteq> None \<and> c_IMAPID r \<noteq> None"

definition folder_rows :: "imapenv \<Rightarrow> mailrow list" where
  "folder_rows e = filter complete (read_rows (query_rows e))"

definition row_uid :: "mailrow \<Rightarrow> uint32" where "row_uid r = the (c_IMAPID r)"

lemma scan_append:
  "scan_rows e s m (xs @ ys) t c =
     (case scan_rows e s m xs t c of (hr, t, c) \<Rightarrow> if hr \<noteq> hrSuccess then (hr, t, c) else scan_rows e s m ys t c)"
  by (induction xs arbitrary: t c) (auto simp: case_prod_beta split: option.split)

lemma scan_complete: "scan_rows e s m (filter complete xs) t c = scan_rows e s m xs t c"
  by (induction xs arbitrary: t c) (auto simp: complete_def case_prod_beta split: option.split)

lemma scan_batches_rows:
  "scan_batches e s m bs t c = (hrSuccess, t', c') \<Longrightarrow> scan_rows e s m (read_rows bs) t c = (hrSuccess, t', c')"
  by (induction bs arbitrary: t c) (auto simp: scan_append case_prod_beta split: if_splits)

section \<open>The scan\<close>

abbreviation uids_of :: "imap \<Rightarrow> uint32 list" where
  "uids_of c \<equiv> map ulUid (lstFolderMailEIDs c)"

definition shows_row :: "mailrow \<Rightarrow> SMail \<Rightarrow> bool" where
  "shows_row r m \<longleftrightarrow> (ulUid m = row_uid r \<longrightarrow> strFlags m = PropsToFlags (props_of r) (bRecent m) False)"

text \<open>
  After the rows \<open>D\<close>, with \<open>os\<close> the UIDs of the list before and \<open>cl0\<close> the client then, \<open>s0\<close> what was sent
  till then.
\<close>

definition scan_inv :: "client \<Rightarrow> response list \<Rightarrow> uint32 list \<Rightarrow> mailrow list \<Rightarrow> scan \<Rightarrow> imap \<Rightarrow> bool" where
  "scan_inv cl0 s0 os D t c \<longleftrightarrow>
     (\<exists>rs cl. sent c = s0 @ rs \<and> client_run cl0 rs = Some cl \<and> list_all2 knows cl (take (length os) (lstFolderMailEIDs c))) \<and>
     uids_of c = os @ filter (\<lambda>u. u \<notin> set os) (map row_uid D) \<and>
     (\<forall>u i. mapUIDs t u = Some i \<longleftrightarrow> i < length os \<and> os ! i = u \<and> u \<notin> row_uid ` set D) \<and>
     (\<forall>r \<in> set D. \<forall>m \<in> set (lstFolderMailEIDs c). shows_row r m) \<and>
     (bNewMail t \<longleftrightarrow> length os < length (lstFolderMailEIDs c))"

lemma known_mail_effect:
  assumes "known_mail e s r u i t c = (hrSuccess, t', c')"
  obtains rs where "t' = t\<lparr>mapUIDs := (mapUIDs t)(u := None)\<rparr>"
    and "lstFolderMailEIDs c' = (lstFolderMailEIDs c)[i := (lstFolderMailEIDs c ! i)\<lparr>strFlags :=
           PropsToFlags (props_of r) (bRecent (lstFolderMailEIDs c ! i)) False\<rparr>]"
    and "sent c' = sent c @ rs"
    and "rs = [] \<and> strFlags (lstFolderMailEIDs c ! i) = PropsToFlags (props_of r) (bRecent (lstFolderMailEIDs c ! i)) False \<or>
         (\<exists>v. rs = [FETCH (i + 1) v (PropsToFlags (props_of r) (bRecent (lstFolderMailEIDs c ! i)) False)])"
proof -
  let ?m = "lstFolderMailEIDs c ! i"
  let ?f = "PropsToFlags (props_of r) (bRecent ?m) False"
  show ?thesis
  proof (cases "strFlags ?m = ?f")
    case True
    have "?m\<lparr>strFlags := strFlags ?m\<rparr> = ?m" by simp
    then have "(lstFolderMailEIDs c)[i := ?m\<lparr>strFlags := ?f\<rparr>] = lstFolderMailEIDs c" by (simp flip: True)
    then show ?thesis using True assms that [of "[]"] by (auto simp: known_mail_def Let_def)
  next
    case False
    then show ?thesis
      using assms that [of "[FETCH (i + 1) (if s then Some u else None) ?f]"]
      by (auto simp: known_mail_def Let_def HrUntagged_def split: if_splits)
  qed
qed

lemma scan_known:
  assumes inv: "scan_inv cl0 s0 os D t c" and r: "row_uid r \<notin> row_uid ` set D" and d: "distinct os" "distinct (map row_uid D)"
    and i: "mapUIDs t (row_uid r) = Some i" and step: "known_mail e s r (row_uid r) i t c = (hrSuccess, t', c')"
  shows "scan_inv cl0 s0 os (D @ [r]) t' c'"
proof -
  let ?L = "lstFolderMailEIDs c" and ?u = "row_uid r"
  let ?m = "(?L ! i)\<lparr>strFlags := PropsToFlags (props_of r) (bRecent (?L ! i)) False\<rparr>"
  from inv obtain rs cl where cl: "sent c = s0 @ rs" "client_run cl0 rs = Some cl" "list_all2 knows cl (take (length os) ?L)"
    and uids: "uids_of c = os @ filter (\<lambda>u. u \<notin> set os) (map row_uid D)"
    and map: "\<And>u i. mapUIDs t u = Some i \<longleftrightarrow> i < length os \<and> os ! i = u \<and> u \<notin> row_uid ` set D"
    and shown: "\<And>r m. r \<in> set D \<Longrightarrow> m \<in> set ?L \<Longrightarrow> shows_row r m"
    and new: "bNewMail t \<longleftrightarrow> length os < length ?L"
    unfolding scan_inv_def by blast
  obtain rs' where t': "t' = t\<lparr>mapUIDs := (mapUIDs t)(?u := None)\<rparr>" and L': "lstFolderMailEIDs c' = ?L[i := ?m]"
    and rs': "sent c' = sent c @ rs'"
      "rs' = [] \<and> strFlags (?L ! i) = strFlags ?m \<or> (\<exists>v. rs' = [FETCH (i + 1) v (strFlags ?m)])"
    using step by (rule known_mail_effect) auto
  have i': "i < length os" "os ! i = ?u" using map i by auto
  have len: "length os \<le> length ?L" using uids by (metis length_append length_map le_add1)
  have "uids_of c ! i = ?u" by (simp add: uids nth_append i')
  then have ui: "ulUid (?L ! i) = ?u" using i' len by simp
  have dist: "distinct (uids_of c)" using uids d by auto
  have "uids_of c' = (uids_of c)[i := ?u]" using ui by (simp add: L' map_update)
  also have "\<dots> = uids_of c" using \<open>uids_of c ! i = ?u\<close> by (metis list_update_id)
  finally have uids': "uids_of c' = uids_of c" .
  have ino: "?u \<in> set os" using i' by (metis nth_mem)
  have "shows_row r' m" if "r' \<in> set (D @ [r])" and m: "m \<in> set (lstFolderMailEIDs c')" for r' m
  proof -
    obtain j where j: "j < length ?L" "m = ?L[i := ?m] ! j" using m unfolding L' by (metis in_set_conv_nth length_list_update)
    show ?thesis
    proof (cases "j = i")
      case True
      then have "m = ?m" using j by simp
      then show ?thesis using that(1) r ui by (auto simp: shows_row_def)
    next
      case False
      then have "m = ?L ! j" using j by simp
      moreover have "ulUid (?L ! j) \<noteq> ?u"
        using dist False i'(1) len ui j(1) by (metis nth_eq_iff_index_eq length_map nth_map order_less_le_trans)
      ultimately show ?thesis using that(1) shown [of r' "?L ! j"] j(1) by (auto simp: shows_row_def)
    qed
  qed
  moreover have "\<exists>rs cl. sent c' = s0 @ rs \<and> client_run cl0 rs = Some cl \<and> list_all2 knows cl (take (length os) (lstFolderMailEIDs c'))"
  proof -
    have n: "length cl = length os" using list_all2_lengthD [OF cl(3)] len by simp
    have L'': "take (length os) (lstFolderMailEIDs c') = (take (length os) ?L)[i := ?m]" by (simp add: L' take_update_swap)
    from rs'(2) show ?thesis
    proof (elim disjE exE conjE)
      assume "rs' = []" and same: "strFlags (?L ! i) = strFlags ?m"
      have "knows (cl ! i) (take (length os) ?L ! i)" using cl(3) i'(1) n by (simp add: list_all2_conv_all_nth)
      then have "knows (cl ! i) ?m" using same i'(1) by (simp add: knows_def)
      then have "list_all2 knows (cl[i := cl ! i]) (take (length os) (lstFolderMailEIDs c'))"
        unfolding L'' using cl(3) by (intro list_all2_update_cong)
      then show ?thesis using cl(1,2) rs'(1) \<open>rs' = []\<close> by auto
    next
      fix v assume rs: "rs' = [FETCH (i + 1) v (strFlags ?m)]"
      have "knows (Some (strFlags ?m)) ?m" by (simp add: knows_def)
      then have "list_all2 knows (cl[i := Some (strFlags ?m)]) (take (length os) (lstFolderMailEIDs c'))"
        unfolding L'' using cl(3) by (intro list_all2_update_cong)
      moreover have "client_run cl0 (rs @ rs') = Some (cl[i := Some (strFlags ?m)])" using cl(2) i'(1) n rs by simp
      moreover have "sent c' = s0 @ (rs @ rs')" using cl(1) rs'(1) by simp
      ultimately show ?thesis by blast
    qed
  qed
  ultimately show ?thesis
    unfolding scan_inv_def using uids uids' map new i' ino r
    by (auto simp: t' L')
qed

lemma scan_new:
  assumes inv: "scan_inv cl0 s0 os D t c" and r: "row_uid r \<notin> row_uid ` set D" and d: "distinct os" "distinct (map row_uid D)"
    and none: "mapUIDs t (row_uid r) = None" and step: "add_mail m r eid ikey (row_uid r) t c = (t', c')"
  shows "scan_inv cl0 s0 os (D @ [r]) t' c'"
proof -
  let ?new = "new_mail m r eid ikey (row_uid r)"
  have L: "lstFolderMailEIDs c' = lstFolderMailEIDs c @ [?new]" and s: "sent c' = sent c"
    and t': "mapUIDs t' = mapUIDs t" "bNewMail t'"
    using step by (auto simp: add_mail_def Let_def)
  from inv have uids: "uids_of c = os @ filter (\<lambda>u. u \<notin> set os) (map row_uid D)"
    and map: "\<And>u i. mapUIDs t u = Some i \<longleftrightarrow> i < length os \<and> os ! i = u \<and> u \<notin> row_uid ` set D"
    and shown: "\<And>r m. r \<in> set D \<Longrightarrow> m \<in> set (lstFolderMailEIDs c) \<Longrightarrow> shows_row r m"
    and cl: "\<exists>rs cl. sent c = s0 @ rs \<and> client_run cl0 rs = Some cl \<and> list_all2 knows cl (take (length os) (lstFolderMailEIDs c))"
    unfolding scan_inv_def by blast+
  have len: "length os \<le> length (lstFolderMailEIDs c)" using uids by (metis length_append length_map le_add1)
  have fresh: "row_uid r \<notin> set os"
  proof
    assume "row_uid r \<in> set os"
    then obtain i where "i < length os" "os ! i = row_uid r" by (auto simp: in_set_conv_nth)
    then have "mapUIDs t (row_uid r) = Some i" using map r by blast
    then show False using none by simp
  qed
  have uid: "ulUid ?new = row_uid r" by (simp add: new_mail_def Let_def)
  have "row_uid r \<notin> set (uids_of c)" using uids r fresh by auto
  then have "\<forall>m' \<in> set (lstFolderMailEIDs c). shows_row r m'" unfolding shows_row_def by (metis imageI list.set_map)
  moreover have "shows_row r ?new" by (simp add: shows_row_def new_mail_def Let_def)
  moreover have "\<forall>r' \<in> set D. shows_row r' ?new" using r unfolding shows_row_def uid by blast
  ultimately have "\<forall>r' \<in> set (D @ [r]). \<forall>m' \<in> set (lstFolderMailEIDs c'). shows_row r' m'" using shown by (simp add: L)
  moreover have "i < length os \<Longrightarrow> os ! i \<noteq> row_uid r" for i using fresh by (metis nth_mem)
  then have "mapUIDs t' u = Some i \<longleftrightarrow> i < length os \<and> os ! i = u \<and> u \<notin> row_uid ` set (D @ [r])" for u i
    using map [of u i] by (auto simp: t')
  ultimately show ?thesis
    unfolding scan_inv_def using cl uids fresh len by (simp add: s t' L uid)
qed

lemma scan_rows_inv:
  assumes "scan_rows e s m rows t c = (hrSuccess, t', c')" and "scan_inv cl0 s0 os D t c"
    and "distinct os" and "distinct (map row_uid (D @ rows))" and "\<forall>r \<in> set rows. complete r"
  shows "scan_inv cl0 s0 os (D @ rows) t' c'"
  using assms
proof (induction rows arbitrary: D t c)
  case (Cons r rows)
  then obtain eid ikey where r: "c_EID r = Some eid" "c_IKEY r = Some ikey" "c_IMAPID r = Some (row_uid r)"
    by (auto simp: complete_def row_uid_def)
  have fresh: "row_uid r \<notin> row_uid ` set D" "distinct (map row_uid D)" using Cons.prems(4) by auto
  show ?case
  proof (cases "mapUIDs t (row_uid r)")
    case None
    obtain t1 c1 where step: "add_mail m r eid ikey (row_uid r) t c = (t1, c1)" by fastforce
    then have "scan_rows e s m rows t1 c1 = (hrSuccess, t', c')" using Cons.prems(1) r None by simp
    then show ?thesis
      using Cons.IH [of t1 c1 "D @ [r]"] scan_new [OF Cons.prems(2) fresh(1) Cons.prems(3) fresh(2) None step] Cons.prems by simp
  next
    case (Some i)
    obtain hr t1 c1 where step: "known_mail e s r (row_uid r) i t c = (hr, t1, c1)" by (metis prod_cases3)
    then have hr: "hr = hrSuccess" and rest: "scan_rows e s m rows t1 c1 = (hrSuccess, t', c')"
      using Cons.prems(1) r Some by (auto split: if_splits)
    show ?thesis
      using Cons.IH [OF rest scan_known [OF Cons.prems(2) fresh(1) Cons.prems(3) fresh(2) Some step [unfolded hr]]] Cons.prems by simp
  qed
qed simp

section \<open>Removing messages\<close>

lemma expunge_effect:
  assumes "expunge_loop e gone nr ulRecent c = (hrSuccess, ulRecent', c')"
    and "length cl \<le> length (lstFolderMailEIDs c)" and "list_all2 knows cl (take (length cl) (lstFolderMailEIDs c))"
    and "\<forall>j < length (lstFolderMailEIDs c). length cl \<le> j \<longrightarrow> gone (ulUid (lstFolderMailEIDs c ! j)) = None"
  shows "\<exists>rs cl'. sent c' = sent c @ rs \<and> client_run cl rs = Some cl' \<and>
    list_all2 knows cl' (take (length cl') (lstFolderMailEIDs c')) \<and> length cl' \<le> length (lstFolderMailEIDs c') \<and>
    lstFolderMailEIDs c' = take nr (lstFolderMailEIDs c) @ filter (\<lambda>m. gone (ulUid m) = None) (drop nr (lstFolderMailEIDs c)) \<and>
    length (lstFolderMailEIDs c') - length cl' = length (lstFolderMailEIDs c) - length cl"
  using assms
proof (induction e gone nr ulRecent c arbitrary: cl rule: expunge_loop.induct)
  case (1 e gone nr ulRecent c)
  let ?L = "lstFolderMailEIDs c"
  show ?case
  proof (cases "nr < length ?L")
    case False
    then have "c' = c" using 1(3) by (subst (asm) expunge_loop.simps) simp
    then show ?thesis using False 1(4,5) by (intro exI [of _ "[]"] exI [of _ cl]) simp
  next
    case True
    show ?thesis
    proof (cases "gone (ulUid (?L ! nr)) = None")
      case keep: True
      then have "expunge_loop e gone (nr + 1) (if bRecent (?L ! nr) then ulRecent + 1 else ulRecent) c = (hrSuccess, ulRecent', c')"
        using 1(3) True by (subst (asm) expunge_loop.simps) (simp add: Let_def)
      moreover have "take (nr + 1) ?L @ filter (\<lambda>m. gone (ulUid m) = None) (drop (nr + 1) ?L) =
          take nr ?L @ filter (\<lambda>m. gone (ulUid m) = None) (drop nr ?L)"
        using True keep by (simp add: take_Suc_conv_app_nth Cons_nth_drop_Suc [symmetric])
      ultimately show ?thesis using 1(2) [OF True refl _ _ 1(4-6)] keep by simp
    next
      case gone: False
      define c1 where "c1 = snd (HrUntagged e (EXPUNGE (nr + 1)) c)"
      have ok: "fst (HrUntagged e (EXPUNGE (nr + 1)) c) = hrSuccess"
        and loop: "expunge_loop e gone nr ulRecent (c1\<lparr>lstFolderMailEIDs := remove_at nr (lstFolderMailEIDs c1)\<rparr>) = (hrSuccess, ulRecent', c')"
        using 1(3) True gone unfolding c1_def
        by (subst (asm) expunge_loop.simps, simp add: Let_def case_prod_beta split: if_splits)+
      have L1: "lstFolderMailEIDs (c1\<lparr>lstFolderMailEIDs := remove_at nr (lstFolderMailEIDs c1)\<rparr>) = remove_at nr ?L"
        and s1: "sent c1 = sent c @ [EXPUNGE (nr + 1)]"
        using ok unfolding c1_def by (auto simp: HrUntagged_def Let_def split: if_splits)
      have nr: "nr < length cl" using 1(6) True gone by (meson not_le)
      have len: "length (remove_at nr ?L) = length ?L - 1" "length (remove_at nr cl) = length cl - 1"
        using True nr by (simp_all add: length_remove_at)
      have cut: "take (length cl - 1) (remove_at nr ?L) = remove_at nr (take (length cl) ?L)"
      proof -
        obtain k where "length cl = Suc k" using nr by (cases "length cl") auto
        then show ?thesis using nr 1(4) by (auto simp: remove_at_def take_drop min_def not_le less_Suc_eq_le)
      qed
      have later: "\<forall>j < length (remove_at nr ?L). length (remove_at nr cl) \<le> j \<longrightarrow> gone (ulUid (remove_at nr ?L ! j)) = None"
      proof (intro allI impI)
        fix j assume "j < length (remove_at nr ?L)" "length (remove_at nr cl) \<le> j"
        then have "remove_at nr ?L ! j = ?L ! (j + 1)" "j + 1 < length ?L" "length cl \<le> j + 1"
          using nr len by (auto simp: remove_at_def nth_append)
        then show "gone (ulUid (remove_at nr ?L ! j)) = None" using 1(6) by metis
      qed
      have "list_all2 knows (remove_at nr cl) (take (length (remove_at nr cl)) (remove_at nr ?L))"
        unfolding len cut using 1(5) by (rule remove_at_all2)
      moreover have pair: "(hrSuccess, c1) = HrUntagged e (EXPUNGE (nr + 1)) c" using ok by (simp add: c1_def prod_eq_iff)
      moreover have "length (remove_at nr cl) \<le> length (remove_at nr ?L)" using len 1(4) by simp
      ultimately have "\<exists>rs cl'. sent c' = sent c1 @ rs \<and> client_run (remove_at nr cl) rs = Some cl' \<and>
          list_all2 knows cl' (take (length cl') (lstFolderMailEIDs c')) \<and> length cl' \<le> length (lstFolderMailEIDs c') \<and>
          lstFolderMailEIDs c' = take nr (remove_at nr ?L) @ filter (\<lambda>m. gone (ulUid m) = None) (drop nr (remove_at nr ?L)) \<and>
          length (lstFolderMailEIDs c') - length cl' = length (remove_at nr ?L) - length (remove_at nr cl)"
        using 1(1) [OF True refl gone pair _ loop, of "remove_at nr cl"] later unfolding L1 by simp
      then obtain rs cl' where ih: "sent c' = sent c1 @ rs" "client_run (remove_at nr cl) rs = Some cl'"
        "list_all2 knows cl' (take (length cl') (lstFolderMailEIDs c'))" "length cl' \<le> length (lstFolderMailEIDs c')"
        "lstFolderMailEIDs c' = take nr (remove_at nr ?L) @ filter (\<lambda>m. gone (ulUid m) = None) (drop nr (remove_at nr ?L))"
        "length (lstFolderMailEIDs c') - length cl' = length (remove_at nr ?L) - length (remove_at nr cl)" by blast
      have "client_run cl (EXPUNGE (nr + 1) # rs) = Some cl'" using ih(2) nr by simp
      moreover have "sent c' = sent c @ (EXPUNGE (nr + 1) # rs)" using ih(1) s1 by simp
      moreover have "take nr (remove_at nr ?L) = take nr ?L" "drop nr (remove_at nr ?L) = drop (nr + 1) ?L"
        using True by (simp_all add: remove_at_def)
      moreover have "filter (\<lambda>m. gone (ulUid m) = None) (drop (nr + 1) ?L) = filter (\<lambda>m. gone (ulUid m) = None) (drop nr ?L)"
        using True gone by (simp add: Cons_nth_drop_Suc [symmetric])
      ultimately show ?thesis using ih(3-6) len nr 1(4) by (intro exI conjI) (assumption | simp)+
    qed
  qed
qed

section \<open>A refresh\<close>

lemma write_all_ok: "write_all e rs c = (hrSuccess, c') \<Longrightarrow> sent c' = sent c @ rs \<and> lstFolderMailEIDs c' = lstFolderMailEIDs c"
  by (induction rs arbitrary: c) (auto simp: HrUntagged_def Let_def split: prod.splits if_splits)

lemma index_uids_eq:
  "distinct (map ulUid ms) \<Longrightarrow> \<forall>u \<in> ulUid ` set ms. m u = None \<Longrightarrow>
   index_uids n ms m u = Some i \<longleftrightarrow> m u = Some i \<or> n \<le> i \<and> i < n + length ms \<and> ulUid (ms ! (i - n)) = u"
proof (induction ms arbitrary: n m)
  case (Cons x ms)
  have "\<forall>u \<in> ulUid ` set ms. u \<noteq> ulUid x" using Cons.prems(1) by (metis distinct.simps(2) list.set_map list.simps(9))
  then have "\<forall>u \<in> ulUid ` set ms. (m(ulUid x \<mapsto> n)) u = None" using Cons.prems(2) by simp
  then have "index_uids (n + 1) ms (m(ulUid x \<mapsto> n)) u = Some i \<longleftrightarrow>
      (m(ulUid x \<mapsto> n)) u = Some i \<or> n + 1 \<le> i \<and> i < n + 1 + length ms \<and> ulUid (ms ! (i - (n + 1))) = u"
    using Cons.IH Cons.prems(1) by simp
  moreover have "n + 1 \<le> i \<Longrightarrow> (x # ms) ! (i - n) = ms ! (i - (n + 1))" by (simp add: nth_Cons')
  moreover have "m (ulUid x) = None" using Cons.prems(2) by simp
  moreover have "ulUid (ms ! (i - (n + 1))) \<noteq> ulUid x" if "n + 1 \<le> i" "i < n + 1 + length ms"
  proof -
    have "ms ! (i - (n + 1)) \<in> set ms" using that by (intro nth_mem) simp
    then show ?thesis using Cons.prems(1) by (metis distinct.simps(2) imageI list.set_map list.simps(9))
  qed
  ultimately show ?case by (cases "i = n") (auto split: if_splits)
qed auto

lemma knows_rest:
  assumes "list_all2 knows cl (take (length cl) ms)" "length cl \<le> length ms"
  shows "list_all2 knows (cl @ replicate (length ms - length cl) None) ms"
proof -
  have "list_all2 knows (replicate (length ms - length cl) None) (drop (length cl) ms)"
    by (simp add: list_all2_conv_all_nth knows_def)
  then have "list_all2 knows (cl @ replicate (length ms - length cl) None) (take (length cl) ms @ drop (length cl) ms)"
    using assms(1) by (intro list_all2_appendI)
  then show ?thesis by simp
qed

lemma left_over_uids:
  assumes "\<And>u. gone u = None \<longleftrightarrow> u \<notin> set os \<or> u \<in> set ds"
    and "sorted_wrt (<) os" and "sorted_wrt (<) ds" and "\<forall>u \<in> set ds - set os. \<forall>o' \<in> set os. o' < u"
  shows "filter (\<lambda>u. gone u = None) (os @ filter (\<lambda>u. u \<notin> set os) ds) = (ds :: uint32 list)"
proof (rule strict_sorted_equal)
  have "sorted_wrt (<) (os @ filter (\<lambda>u. u \<notin> set os) ds)"
    using assms(2-4) by (auto simp: sorted_wrt_append intro: sorted_wrt_filter)
  then show "sorted_wrt (<) (filter (\<lambda>u. gone u = None) (os @ filter (\<lambda>u. u \<notin> set os) ds))" by (rule sorted_wrt_filter)
  show "set (filter (\<lambda>u. gone u = None) (os @ filter (\<lambda>u. u \<notin> set os) ds)) = set ds" using assms(1) by auto
qed (rule assms(3))

lemma refresh_end_state:
  assumes "refresh_end e init reset v t c = (hrSuccess, x, v', c')"
  obtains n c2 where "expunge_loop e (mapUIDs t) 0 0 c = (hrSuccess, n, c2)"
    and "lstFolderMailEIDs c' = sort_key ulUid (lstFolderMailEIDs c2)"
    and "sent c' = sent c2 @ (if bNewMail t \<or> init then [EXISTS (length (lstFolderMailEIDs c2)), RECENT n] else [])"
proof -
  obtain hr n c2 where loop: "expunge_loop e (mapUIDs t) 0 0 c = (hr, n, c2)" by (metis prod_cases3)
  let ?rs = "if bNewMail t \<or> init then [EXISTS (length (lstFolderMailEIDs c2)), RECENT n] else []"
  obtain hr3 c3 where w: "write_all e ?rs c2 = (hr3, c3)" by fastforce
  have hr: "hr = hrSuccess" using assms loop by (auto simp: refresh_end_def split: if_splits)
  have hr3: "hr3 = hrSuccess" using assms unfolding refresh_end_def loop hr by (simp add: w split: if_splits)
  have "lstFolderMailEIDs c' = sort_key ulUid (lstFolderMailEIDs c3) \<and> sent c' = sent c3"
    using assms unfolding refresh_end_def loop hr by (auto simp: w hr3 Let_def)
  then show ?thesis using that loop write_all_ok [OF w [unfolded hr3]] unfolding hr by simp
qed

lemma refresh_end_effect:
  assumes "refresh_end e init reset v t c = (hrSuccess, x, v', c')" and "scan_inv cl0 s0 os D t c"
    and "sorted_wrt (<) os" and "sorted_wrt (<) (map row_uid D)"
    and "\<forall>u \<in> row_uid ` set D - set os. \<forall>o' \<in> set os. o' < u"
  shows "\<exists>rs cl. sent c' = s0 @ rs \<and> client_run cl0 rs = Some cl \<and> agrees cl (lstFolderMailEIDs c') \<and>
    list_all2 (\<lambda>r m. ulUid m = row_uid r \<and> shows_row r m) D (lstFolderMailEIDs c')"
proof -
  let ?gone = "mapUIDs t" and ?L = "lstFolderMailEIDs c"
  from assms(2) obtain rs1 cl1 where cl1: "sent c = s0 @ rs1" "client_run cl0 rs1 = Some cl1"
      "list_all2 knows cl1 (take (length os) ?L)"
    and uids: "uids_of c = os @ filter (\<lambda>u. u \<notin> set os) (map row_uid D)"
    and map: "\<And>u i. ?gone u = Some i \<longleftrightarrow> i < length os \<and> os ! i = u \<and> u \<notin> row_uid ` set D"
    and shown: "\<And>r m. r \<in> set D \<Longrightarrow> m \<in> set ?L \<Longrightarrow> shows_row r m"
    and new: "bNewMail t \<longleftrightarrow> length os < length ?L"
    unfolding scan_inv_def by blast
  have len: "length os \<le> length ?L" using uids by (metis length_append length_map le_add1)
  then have n: "length cl1 = length os" using list_all2_lengthD [OF cl1(3)] by simp
  have gone: "?gone u = None \<longleftrightarrow> u \<notin> set os \<or> u \<in> set (List.map row_uid D)" for u
    using map [of u] by (auto simp: in_set_conv_nth) (metis not_None_eq)+
  obtain k c2 where loop: "expunge_loop e ?gone 0 0 c = (hrSuccess, k, c2)"
    and L': "lstFolderMailEIDs c' = sort_key ulUid (lstFolderMailEIDs c2)"
    and s': "sent c' = sent c2 @ (if bNewMail t \<or> init then [EXISTS (length (lstFolderMailEIDs c2)), RECENT k] else [])"
    using assms(1) by (rule refresh_end_state)
  have "?gone (ulUid (?L ! j)) = None" if j: "j < length ?L" "length cl1 \<le> j" for j
  proof -
    have "ulUid (?L ! j) = (os @ filter (\<lambda>u. u \<notin> set os) (List.map row_uid D)) ! j" using j(1) by (simp flip: uids)
    also have "\<dots> = filter (\<lambda>u. u \<notin> set os) (List.map row_uid D) ! (j - length os)" using j n by (simp add: nth_append)
    also have "\<dots> \<in> set (filter (\<lambda>u. u \<notin> set os) (List.map row_uid D))"
      using j n arg_cong [OF uids, of length] by (intro nth_mem) simp
    finally show ?thesis using gone by auto
  qed
  then obtain rs2 cl2 where cl2: "sent c2 = sent c @ rs2" "client_run cl1 rs2 = Some cl2"
      "list_all2 knows cl2 (take (length cl2) (lstFolderMailEIDs c2))" "length cl2 \<le> length (lstFolderMailEIDs c2)"
    and L2: "lstFolderMailEIDs c2 = filter (\<lambda>m. ?gone (ulUid m) = None) ?L"
    and rest: "length (lstFolderMailEIDs c2) - length cl2 = length ?L - length cl1"
    using expunge_effect [OF loop, of cl1] len n cl1(3) by auto
  have "uids_of c2 = filter (\<lambda>u. ?gone u = None) (uids_of c)" by (simp add: L2 filter_map comp_def)
  also have "\<dots> = List.map row_uid D"
    unfolding uids using assms(3-5) by (intro left_over_uids gone) auto
  finally have uids2: "uids_of c2 = List.map row_uid D" .
  have L'2: "lstFolderMailEIDs c' = lstFolderMailEIDs c2"
    unfolding L' using assms(4) by (intro sort_key_id_if_sorted) (simp add: uids2 strict_sorted_imp_sorted)
  have "list_all2 (\<lambda>r m. ulUid m = row_uid r \<and> shows_row r m) D (lstFolderMailEIDs c')"
  proof (rule list_all2_all_nthI)
    show "length D = length (lstFolderMailEIDs c')" using arg_cong [OF uids2, of length] by (simp add: L'2)
    fix j assume j: "j < length D"
    then have j2: "j < length (lstFolderMailEIDs c2)" using arg_cong [OF uids2, of length] by simp
    then have "lstFolderMailEIDs c2 ! j \<in> set ?L" using nth_mem [OF j2] by (simp add: L2)
    moreover have "ulUid (lstFolderMailEIDs c2 ! j) = row_uid (D ! j)" using arg_cong [OF uids2, of "\<lambda>l. l ! j"] j j2 by simp
    ultimately show "ulUid (lstFolderMailEIDs c' ! j) = row_uid (D ! j) \<and> shows_row (D ! j) (lstFolderMailEIDs c' ! j)"
      using shown j by (simp add: L'2)
  qed
  moreover have "\<exists>rs cl. sent c' = s0 @ rs \<and> client_run cl0 rs = Some cl \<and> agrees cl (lstFolderMailEIDs c')"
  proof (cases "bNewMail t \<or> init")
    case True
    have "client_run cl0 (rs1 @ rs2 @ [EXISTS (length (lstFolderMailEIDs c2)), RECENT k]) =
        Some (cl2 @ replicate (length (lstFolderMailEIDs c2) - length cl2) None)"
      using cl1(2) cl2(2,4) by simp
    moreover have "sent c' = s0 @ rs1 @ rs2 @ [EXISTS (length (lstFolderMailEIDs c2)), RECENT k]"
      using True by (simp add: s' cl2(1) cl1(1))
    ultimately show ?thesis using knows_rest [OF cl2(3,4)] unfolding agrees_def L'2 by blast
  next
    case False
    then have "length cl2 = length (lstFolderMailEIDs c2)" using rest n new cl2(4) by simp
    then have "agrees cl2 (lstFolderMailEIDs c')" using cl2(3) by (simp add: agrees_def L'2)
    moreover have "sent c' = s0 @ rs1 @ rs2" "client_run cl0 (rs1 @ rs2) = Some cl2"
      using False by (simp_all add: s' cl2(1,2) cl1(1,2))
    ultimately show ?thesis by blast
  qed
  ultimately show ?thesis by blast
qed

lemma refresh_phases:
  assumes "HrRefreshFolderMails e init reset show c = (hrSuccess, unseen, validity, c')"
  obtains m t c1 where
    "scan_batches e show m (query_rows e)
       \<lparr>mapUIDs = index_uids 0 (lstFolderMailEIDs (if init then c\<lparr>lstFolderMailEIDs := []\<rparr> else c)) (\<lambda>_. None), bNewMail = False, ulUnseen = 0\<rparr>
       (if init then c\<lparr>lstFolderMailEIDs := []\<rparr> else c) = (hrSuccess, t, c1)"
    and "refresh_end e init reset validity t c1 = (hrSuccess, unseen, validity, c')"
proof -
  obtain hr0 max_id v where ids: "folder_ids e = (hr0, max_id, v)" by (metis prod_cases3)
  have "\<not> FAILED hrSuccess" by (simp add: FAILED_def)
  then have ok: "\<not> FAILED hr0"
    using assms by (auto simp: HrRefreshFolderMails_def Let_def ids split: if_splits)
  let ?c0 = "if init then c\<lparr>lstFolderMailEIDs := []\<rparr> else c"
  let ?t0 = "\<lparr>mapUIDs = index_uids 0 (lstFolderMailEIDs ?c0) (\<lambda>_. None), bNewMail = False, ulUnseen = 0\<rparr>"
  let ?m = "case max_id of None \<Rightarrow> 0 | Some u \<Rightarrow> u"
  obtain hr t c1 where scan: "scan_batches e show ?m (query_rows e) ?t0 ?c0 = (hr, t, c1)" by (metis prod_cases3)
  have fin: "(if hr \<noteq> hrSuccess then (hr, None, v, c1) else refresh_end e init reset v t c1) = (hrSuccess, unseen, validity, c')"
    using assms unfolding HrRefreshFolderMails_def Let_def ids prod.case scan using ok by (simp split: if_splits)
  then have "hr = hrSuccess" by (auto split: if_splits)
  moreover from this fin have "refresh_end e init reset v t c1 = (hrSuccess, unseen, validity, c')" by simp
  moreover from this have "v = validity"
    by (auto simp: refresh_end_def Let_def case_prod_beta split: if_splits)
  ultimately show ?thesis using that scan by blast
qed

text \<open>
  C36: After a refresh the client sees what the server has. The rows of the folder have ascending UIDs. On the
  initial load of SELECT the client starts without messages; otherwise it agrees with the list before, the
  list has ascending UIDs, and every UID that is new is larger than all in the list. Then the client, following
  the responses of a refresh that succeeds, ends with one entry for each message of the folder, each with
  the flags the rows show or none yet; the list itself holds the messages of the folder in the order of
  their UIDs. No response names a message the client does not know. Without the condition on new UIDs it
  fails: the list is sorted after the client was told the numbers (\<open>lower_uid_confuses\<close> below).
\<close>

theorem refresh_mirrors_folder:
  assumes "HrRefreshFolderMails e init reset show c = (hrSuccess, unseen, validity, c')"
    and "init \<or> agrees cl (lstFolderMailEIDs c) \<and> sorted_wrt (<) (map ulUid (lstFolderMailEIDs c)) \<and>
      (\<forall>u \<in> row_uid ` set (folder_rows e) - ulUid ` set (lstFolderMailEIDs c). \<forall>m \<in> set (lstFolderMailEIDs c). ulUid m < u)"
    and "sorted_wrt (<) (map row_uid (folder_rows e))"
  shows "\<exists>rs cl'. sent c' = sent c @ rs \<and> client_run (if init then [] else cl) rs = Some cl' \<and>
    agrees cl' (lstFolderMailEIDs c') \<and>
    list_all2 (\<lambda>r m. ulUid m = row_uid r \<and> strFlags m = PropsToFlags (props_of r) (bRecent m) False)
      (folder_rows e) (lstFolderMailEIDs c')"
proof -
  let ?c0 = "if init then c\<lparr>lstFolderMailEIDs := []\<rparr> else c"
  let ?cl = "if init then [] else cl"
  let ?t0 = "\<lparr>mapUIDs = index_uids 0 (lstFolderMailEIDs ?c0) (\<lambda>_. None), bNewMail = False, ulUnseen = 0\<rparr>"
  obtain m t c1 where scan: "scan_batches e show m (query_rows e) ?t0 ?c0 = (hrSuccess, t, c1)"
    and last: "refresh_end e init reset validity t c1 = (hrSuccess, unseen, validity, c')"
    using assms(1) by (rule refresh_phases)
  have s: "sorted_wrt (<) (uids_of ?c0)" using assms(2) by auto
  then have d: "distinct (uids_of ?c0)" by (simp add: strict_sorted_iff)
  have "agrees ?cl (lstFolderMailEIDs ?c0)" using assms(2) by (auto simp: agrees_def)
  then have "scan_inv ?cl (sent c) (uids_of ?c0) [] ?t0 ?c0"
    using d by (auto simp: scan_inv_def agrees_def index_uids_eq intro!: exI [of _ "[]"])
  moreover have "scan_rows e show m (folder_rows e) ?t0 ?c0 = (hrSuccess, t, c1)"
    unfolding folder_rows_def scan_complete using scan by (rule scan_batches_rows)
  moreover have "distinct (map row_uid ([] @ folder_rows e))" using assms(3) by (simp add: strict_sorted_iff)
  moreover have "\<forall>r \<in> set (folder_rows e). complete r" by (simp add: folder_rows_def)
  ultimately have "scan_inv ?cl (sent c) (uids_of ?c0) ([] @ folder_rows e) t c1"
    using d by (intro scan_rows_inv)
  then have "\<exists>rs cl'. sent c' = sent c @ rs \<and> client_run ?cl rs = Some cl' \<and> agrees cl' (lstFolderMailEIDs c') \<and>
      list_all2 (\<lambda>r m. ulUid m = row_uid r \<and> shows_row r m) (folder_rows e) (lstFolderMailEIDs c')"
    using assms(2,3) s by (intro refresh_end_effect [OF last, of _ _ "uids_of ?c0"]) auto
  moreover have "list_all2 (\<lambda>r m. ulUid m = row_uid r \<and> shows_row r m) ds ms \<Longrightarrow>
      list_all2 (\<lambda>r m. ulUid m = row_uid r \<and> strFlags m = PropsToFlags (props_of r) (bRecent m) False) ds ms" for ds ms
    by (erule list_all2_mono) (auto simp: shows_row_def)
  ultimately show ?thesis by blast
qed

text \<open>Surroundings without errors, a row with one message flag, and a session with a folder and no list.\<close>

definition quiet_env :: "mailrow list \<Rightarrow> imapenv" where
  "quiet_env rows =
     \<lparr>imap_max_fail_commands = ''10'', send_ok = (\<lambda>_. True), HrFindFolder = (\<lambda>_ _. hrSuccess),
      folder_ids = (hrSuccess, None, None), GetContentsTable = hrSuccess, SetColumns = hrSuccess, SortTable = hrSuccess,
      query_rows = [(hrSuccess, rows)], from_utf7 = (\<lambda>_. None), CreateMAPIRestriction = hrSuccess,
      deleted_rows = (\<lambda>_. (hrSuccess, [])), DeleteMessages = hrSuccess, HrAllocAdviseSink = hrSuccess,
      Advise = (hrSuccess, 1)\<rparr>"

definition mail_row :: "byte \<Rightarrow> uint32 \<Rightarrow> uint32 \<Rightarrow> mailrow" where
  "mail_row k uid fl = \<lparr>message_flags = Some fl, flag_status = None, msg_status = None, last_verb = None,
     c_EID = Some [k], c_IKEY = Some [k], c_IMAPID = Some uid\<rparr>"

definition open_session :: imap where
  "open_session =
     \<lparr>lpSession = True, strCurrentFolder = [0x49], bCurrentFolderReadOnly = False, lstFolderMailEIDs = [], m_ulLastUid = 0,
      m_ulErrors = 0, m_bIdleMode = False, m_strIdleTag = [], m_lpIdleTable = False, m_lpIdleAdviseSink = False,
      m_ulIdleAdviseConnection = 0, sent = [], writes_tried = 0, max_id_set = [], status_calls = [], deletions = []\<rparr>"

text \<open>
  Applied to a folder of three messages, after a load of which the first is deleted, the second read and a
  fourth delivered.
\<close>

definition three_mails :: imap where
  "three_mails = (case HrRefreshFolderMails (quiet_env [mail_row 1 7 0, mail_row 2 9 0, mail_row 3 10 1]) True False False open_session of
     (hr, unseen, validity, c) \<Rightarrow> c)"

lemma refresh_mirrors_folder_witness:
  "let e = quiet_env [mail_row 2 9 1, mail_row 3 10 1, mail_row 4 20 0]; c' = snd (refresh e three_mails)
   in (\<exists>rs cl'. sent c' = sent three_mails @ rs \<and> client_run [None, None, None] rs = Some cl' \<and>
         agrees cl' (lstFolderMailEIDs c') \<and>
         list_all2 (\<lambda>r m. ulUid m = row_uid r \<and> strFlags m = PropsToFlags (props_of r) (bRecent m) False)
           (folder_rows e) (lstFolderMailEIDs c')) \<and>
      map ulUid (lstFolderMailEIDs c') = [9, 10, 20] \<and> map line_of (drop (length (sent three_mails)) (sent c')) =
        [''* 2 FETCH (FLAGS ('' @ CHR 0x5C # ''Seen '' @ CHR 0x5C # ''Recent))'', ''* 1 EXPUNGE'', ''* 3 EXISTS'', ''* 3 RECENT'']"
proof -
  let ?e = "quiet_env [mail_row 2 9 1, mail_row 3 10 1, mail_row 4 20 0]"
  let ?r = "HrRefreshFolderMails ?e False True False three_mails"
  let ?c' = "snd (refresh ?e three_mails)"
  have r: "fst ?r = hrSuccess" "snd (snd (snd ?r)) = ?c'" by code_simp+
  have "?r = (hrSuccess, fst (snd ?r), fst (snd (snd ?r)), ?c')" using r by (metis prod.collapse)
  moreover have "agrees [None, None, None] (lstFolderMailEIDs three_mails)" by code_simp
  moreover have "sorted_wrt (<) (map ulUid (lstFolderMailEIDs three_mails))" "sorted_wrt (<) (map row_uid (folder_rows ?e))"
    "\<forall>u \<in> row_uid ` set (folder_rows ?e) - ulUid ` set (lstFolderMailEIDs three_mails). \<forall>m \<in> set (lstFolderMailEIDs three_mails). ulUid m < u"
    by code_simp+
  ultimately have "\<exists>rs cl'. sent ?c' = sent three_mails @ rs \<and> client_run (if False then [] else [None, None, None]) rs = Some cl' \<and>
         agrees cl' (lstFolderMailEIDs ?c') \<and>
         list_all2 (\<lambda>r m. ulUid m = row_uid r \<and> strFlags m = PropsToFlags (props_of r) (bRecent m) False)
           (folder_rows ?e) (lstFolderMailEIDs ?c')"
    by (intro refresh_mirrors_folder) auto
  moreover have "map ulUid (lstFolderMailEIDs ?c') = [9, 10, 20]"
    "map line_of (drop (length (sent three_mails)) (sent ?c')) =
       [''* 2 FETCH (FLAGS ('' @ CHR 0x5C # ''Seen '' @ CHR 0x5C # ''Recent))'', ''* 1 EXPUNGE'', ''* 3 EXISTS'', ''* 3 RECENT'']"
    by code_simp+
  ultimately show ?thesis by (simp add: Let_def)
qed

text \<open>A new message with a lower UID is put in front of the list, while the client counts it as the last one.\<close>

lemma lower_uid_confuses:
  "let e = quiet_env [mail_row 4 5 1, mail_row 1 7 0, mail_row 2 9 0, mail_row 3 10 1]; c' = snd (refresh e three_mails);
       cl = map (\<lambda>m. Some (strFlags m)) (lstFolderMailEIDs three_mails)
   in agrees cl (lstFolderMailEIDs three_mails) \<and> map ulUid (lstFolderMailEIDs c') = [5, 7, 9, 10] \<and>
      map_option (\<lambda>cl'. agrees cl' (lstFolderMailEIDs c')) (client_run cl (drop (length (sent three_mails)) (sent c'))) = Some False"
  by code_simp

end
