(* ===== verification/ImapIdleSpec.thy ===== *)
theory ImapIdleSpec
  imports ImapViewSpec
begin

text \<open>
  IDLE: the changes a client is told of keep the numbering of its messages, as long as no batch of
  notifications changes a message it adds; with such a batch the client is given the number of a message it
  does not know. A change of flags told during IDLE is not noted, so a client can be left with old flags.
\<close>

section \<open>Batches that keep the numbering\<close>

text \<open>The second notification does not concern the message the first one adds, and neither asks for a refresh.\<close>

fun separate :: "notification \<Rightarrow> notification \<Rightarrow> bool" where
  "separate (TABLE_ROW_ADDED ikey row) (TABLE_ROW_DELETED k) = (k \<noteq> Some ikey)"
| "separate (TABLE_ROW_ADDED ikey row) (TABLE_ROW_MODIFIED row') = (c_IMAPID row' \<noteq> c_IMAPID row)"
| "separate _ _ = True"

fun plain :: "notification \<Rightarrow> bool" where
  "plain (TABLE_ROW_ADDED ikey row) = (c_EID row \<noteq> None \<and> c_IMAPID row \<noteq> None)"
| "plain (TABLE_CHANGED e) = False"
| "plain (TABLE_RELOAD e) = False"
| "plain _ = True"

text \<open>
  The list while a batch runs: messages the client knows of, and the added ones, which no later notification
  concerns.
\<close>

definition untouched :: "SMail \<Rightarrow> notification \<Rightarrow> bool" where
  "untouched m n = (case n of
     TABLE_ROW_DELETED k \<Rightarrow> k \<noteq> Some (sInstanceKey m)
   | TABLE_ROW_MODIFIED row \<Rightarrow> c_IMAPID row \<noteq> Some (ulUid m)
   | _ \<Rightarrow> True)"

definition idle_inv :: "client \<Rightarrow> response list \<Rightarrow> notification list \<Rightarrow> nat \<Rightarrow> imap \<Rightarrow> bool" where
  "idle_inv cl0 s0 ns ulRecent c \<longleftrightarrow>
     (\<exists>rs cl added. sent c = s0 @ rs \<and> client_run cl0 rs = Some cl \<and>
        length cl + length added = length (lstFolderMailEIDs c) \<and> drop (length cl) (lstFolderMailEIDs c) = added \<and>
        ulRecent = length added \<and> (\<forall>m \<in> set added. \<forall>n \<in> set ns. untouched m n))"

lemma write_ok: "\<forall>n. send_ok e n \<Longrightarrow> sent (snd (HrUntagged e r c)) = sent c @ [r] \<and>
    lstFolderMailEIDs (snd (HrUntagged e r c)) = lstFolderMailEIDs c"
  by (simp add: HrUntagged_def Let_def)

lemma found_among_known:
  assumes "length (takeWhile P ms) < length ms" and "\<forall>m \<in> set (drop k ms). P m"
  shows "length (takeWhile P ms) < k"
proof (rule ccontr)
  assume "\<not> ?thesis"
  then have "ms ! length (takeWhile P ms) \<in> set (drop k ms)"
    using assms(1) by (metis Cons_nth_drop_Suc drop_drop in_set_dropD le_add_diff_inverse2 list.set_intros(1) not_less)
  then show False using assms nth_length_takeWhile by blast
qed

lemma drop_remove_at: "i < k \<Longrightarrow> k \<le> length ms \<Longrightarrow> drop (k - 1) (remove_at i ms) = drop k ms"
  by (simp add: remove_at_def)

lemma idle_event_inv:
  assumes inv: "idle_inv cl0 s0 (n # ns) ulRecent c" and sep: "\<forall>n' \<in> set ns. separate n n'" and pl: "plain n" "\<forall>n' \<in> set ns. plain n'"
    and ok: "\<forall>n. send_ok e n" and step: "idle_event e n uid ulRecent c = Some (uid', ulRecent', c')"
  shows "idle_inv cl0 s0 ns ulRecent' c'"
proof -
  let ?L = "lstFolderMailEIDs c"
  from inv obtain rs cl added where cl: "sent c = s0 @ rs" "client_run cl0 rs = Some cl"
    and len: "length cl + length added = length ?L" and added: "drop (length cl) ?L = added" "ulRecent = length added"
    and free: "\<forall>m \<in> set added. \<forall>n \<in> set (n # ns). untouched m n"
    unfolding idle_inv_def by blast
  show ?thesis
  proof (cases n)
    case (TABLE_ROW_ADDED ikey row)
    then obtain eid u where row: "c_EID row = Some eid" "c_IMAPID row = Some u" using pl(1) by auto
    let ?m = "\<lparr>sEntryID = eid, sInstanceKey = ikey, ulUid = u, bRecent = True, strFlags = PropsToFlags (props_of row) True False\<rparr>"
    have c': "lstFolderMailEIDs c' = ?L @ [?m]" "sent c' = sent c" "ulRecent' = ulRecent + 1"
      using step row by (auto simp: idle_event_def TABLE_ROW_ADDED)
    have "untouched ?m n'" if "n' \<in> set ns" for n'
    proof -
      have "separate n n'" using sep that by blast
      then show ?thesis by (cases n') (simp_all add: untouched_def TABLE_ROW_ADDED row)
    qed
    then have "\<forall>m \<in> set (added @ [?m]). \<forall>n \<in> set ns. untouched m n" using free by simp
    moreover have "drop (length cl) (lstFolderMailEIDs c') = added @ [?m]" using added(1) len by (simp add: c')
    moreover have "length cl + length (added @ [?m]) = length (lstFolderMailEIDs c')" using len by (simp add: c')
    ultimately show ?thesis
      unfolding idle_inv_def using cl added(2) by (intro exI [of _ rs] exI [of _ cl] exI [of _ "added @ [?m]"]) (simp add: c')
  next
    case (TABLE_ROW_DELETED k)
    show ?thesis
    proof (cases "sent c' = sent c \<and> lstFolderMailEIDs c' = ?L")
      case True
      then show ?thesis using step inv by (auto simp: idle_event_def idle_inv_def TABLE_ROW_DELETED)
    next
      case False
      then obtain x where k: "k = Some x" using step by (cases k) (auto simp: idle_event_def TABLE_ROW_DELETED)
      define i where "i = length (takeWhile (\<lambda>m. sInstanceKey m \<noteq> x) ?L)"
      have i: "i < length ?L"
        using step False unfolding i_def by (auto simp: idle_event_def TABLE_ROW_DELETED k Let_def split: if_splits)
      then have c': "lstFolderMailEIDs c' = remove_at i ?L" "sent c' = sent c @ [EXPUNGE (i + 1)]" "ulRecent' = ulRecent"
        using step write_ok [OF ok, of "EXPUNGE (i + 1)" c] unfolding i_def
        by (auto simp: idle_event_def TABLE_ROW_DELETED k Let_def)
      have "\<forall>m \<in> set (drop (length cl) ?L). sInstanceKey m \<noteq> x"
        using free unfolding added(1) by (auto simp: untouched_def TABLE_ROW_DELETED k)
      then have known: "i < length cl" using i unfolding i_def by (rule found_among_known [rotated])
      have "client_run cl0 (rs @ [EXPUNGE (i + 1)]) = Some (remove_at i cl)" using cl(2) known by simp
      moreover have "drop (length (remove_at i cl)) (lstFolderMailEIDs c') = added"
        using drop_remove_at [OF known, of ?L] known len added(1) by (simp add: c' length_remove_at)
      moreover have "length (remove_at i cl) + length added = length (lstFolderMailEIDs c')"
        using known len i by (simp add: c' length_remove_at)
      ultimately show ?thesis
        unfolding idle_inv_def using cl(1) added(2) free
        by (intro exI [of _ "rs @ [EXPUNGE (i + 1)]"] exI [of _ "remove_at i cl"] exI [of _ added]) (simp add: c')
    qed
  next
    case (TABLE_ROW_MODIFIED row)
    show ?thesis
    proof (cases "sent c' = sent c \<and> lstFolderMailEIDs c' = ?L")
      case True
      then show ?thesis using step inv by (auto simp: idle_event_def idle_inv_def TABLE_ROW_MODIFIED)
    next
      case False
      then obtain u where u: "c_IMAPID row = Some u" using step by (cases "c_IMAPID row") (auto simp: idle_event_def TABLE_ROW_MODIFIED)
      define i where "i = length (takeWhile (\<lambda>m. ulUid m \<noteq> u) ?L)"
      let ?f = "PropsToFlags (props_of row) (bRecent (?L ! i)) False"
      have i: "i < length ?L"
        using step False unfolding i_def by (auto simp: idle_event_def TABLE_ROW_MODIFIED u Let_def split: if_splits)
      then have c': "lstFolderMailEIDs c' = ?L" "sent c' = sent c @ [FETCH (i + 1) None ?f]" "ulRecent' = ulRecent"
        using step write_ok [OF ok, of "FETCH (i + 1) None ?f" c] unfolding i_def
        by (auto simp: idle_event_def TABLE_ROW_MODIFIED u Let_def)
      have "\<forall>m \<in> set (drop (length cl) ?L). ulUid m \<noteq> u"
        using free unfolding added(1) by (auto simp: untouched_def TABLE_ROW_MODIFIED u)
      then have "i < length cl" using i unfolding i_def by (rule found_among_known [rotated])
      then have "client_run cl0 (rs @ [FETCH (i + 1) None ?f]) = Some (cl[i := Some ?f])" using cl(2) by simp
      then show ?thesis
        unfolding idle_inv_def using cl(1) added len free
        by (intro exI [of _ "rs @ [FETCH (i + 1) None ?f]"] exI [of _ "cl[i := Some ?f]"] exI [of _ added]) (simp add: c')
    qed
  next
    case OTHER_EVENT
    then show ?thesis using step inv by (auto simp: idle_event_def idle_inv_def)
  qed (use pl(1) in auto)
qed

lemma idle_events_inv:
  assumes "idle_events e ns uid ulRecent c = Some (ulRecent', c')" and "idle_inv cl0 s0 ns ulRecent c"
    and "sorted_wrt separate ns" and "\<forall>n \<in> set ns. plain n" and "\<forall>n. send_ok e n"
  shows "idle_inv cl0 s0 [] ulRecent' c'"
  using assms
proof (induction ns arbitrary: uid ulRecent c)
  case (Cons n ns)
  then obtain uid1 r1 c1 where step: "idle_event e n uid ulRecent c = Some (uid1, r1, c1)"
    and rest: "idle_events e ns uid1 r1 c1 = Some (ulRecent', c')" by (auto split: option.splits)
  have "idle_inv cl0 s0 ns r1 c1" using Cons.prems by (intro idle_event_inv [OF Cons.prems(2) _ _ _ _ step]) auto
  then show ?case using Cons.IH [OF rest] Cons.prems by simp
qed simp

text \<open>
  C37: What a client is told during IDLE keeps its numbering. The client counts as many messages as the list,
  and every write succeeds. For a batch of notifications that add (with entry id and UID), delete and change
  messages, none of which deletes or changes a message the same batch adds before, and which says neither that
  the table changed as a whole nor that it is to be loaded again, the callback is defined, every number sent is
  one the client knows, and afterwards the client counts as many messages as the list has.
\<close>

theorem idle_keeps_numbering:
  assumes "m_bIdleMode c" and "length cl = length (lstFolderMailEIDs c)"
    and "sorted_wrt separate ns" and "\<forall>n \<in> set ns. plain n" and "\<forall>n. send_ok e n"
  shows "\<exists>c' rs cl'. IdleAdviseCallback e ns c = Some (hrSuccess, c') \<and> sent c' = sent c @ rs \<and>
    client_run cl rs = Some cl' \<and> length cl' = length (lstFolderMailEIDs c')"
proof -
  have "plain n \<Longrightarrow> idle_event e n uid r c \<noteq> None" for n uid r c
    by (cases n) (auto simp: idle_event_def)
  then have "\<forall>n \<in> set ns. plain n \<Longrightarrow> idle_events e ns uid r c \<noteq> None" for uid r c
    by (induction ns arbitrary: uid r c) (auto split: option.splits)
  then obtain ulRecent c1 where run: "idle_events e ns None 0 c = Some (ulRecent, c1)" using assms(4) by fastforce
  have "idle_inv cl (sent c) ns 0 c" unfolding idle_inv_def using assms(2) by (intro exI [of _ "[]"] exI [of _ cl]) simp
  from idle_events_inv [OF run this assms(3-5)] obtain rs cl1 where cl1: "sent c1 = sent c @ rs" "client_run cl rs = Some cl1"
      "length cl1 + ulRecent = length (lstFolderMailEIDs c1)"
    unfolding idle_inv_def by blast
  let ?n = "length (lstFolderMailEIDs c1)"
  define c' where "c' = (if ulRecent \<noteq> 0
     then snd (HrUntagged e (EXISTS ?n) (snd (HrUntagged e (RECENT ulRecent) c1))) else c1)"
  have cb: "IdleAdviseCallback e ns c = Some (hrSuccess, c')" using assms(1) run by (simp add: IdleAdviseCallback_def c'_def)
  show ?thesis
  proof (cases "ulRecent = 0")
    case True
    then show ?thesis using cb cl1 by (auto simp: c'_def)
  next
    case False
    then have c': "sent c' = sent c @ rs @ [RECENT ulRecent, EXISTS ?n]" "lstFolderMailEIDs c' = lstFolderMailEIDs c1"
      using cl1(1) write_ok [OF assms(5)] by (simp_all add: c'_def)
    moreover have "client_run cl (rs @ [RECENT ulRecent, EXISTS ?n]) = Some (cl1 @ replicate (?n - length cl1) None)"
      using cl1(2,3) by simp
    moreover have "length (cl1 @ replicate (?n - length cl1) None) = ?n" using cl1(3) by simp
    ultimately show ?thesis using cb by metis
  qed
qed

text \<open>Applied to three messages, of which one is deleted and one changed, and a new one.\<close>

definition idling :: imap where "idling = three_mails\<lparr>m_bIdleMode := True\<rparr>"

lemma idle_keeps_numbering_witness:
  "\<exists>c' rs cl'. IdleAdviseCallback (quiet_env []) [TABLE_ROW_ADDED [4] (mail_row 4 20 0), TABLE_ROW_DELETED (Some [1]),
      TABLE_ROW_MODIFIED (mail_row 3 10 0)] idling = Some (hrSuccess, c') \<and> sent c' = sent idling @ rs \<and>
    client_run [None, None, None] rs = Some cl' \<and> length cl' = length (lstFolderMailEIDs c')"
proof (rule idle_keeps_numbering)
  show "m_bIdleMode idling" "length [None, None, None :: string option] = length (lstFolderMailEIDs idling)" by code_simp+
  show "sorted_wrt separate [TABLE_ROW_ADDED [4] (mail_row 4 20 0), TABLE_ROW_DELETED (Some [1]), TABLE_ROW_MODIFIED (mail_row 3 10 0)]"
    by code_simp
  show "\<forall>n \<in> set [TABLE_ROW_ADDED [4] (mail_row 4 20 0), TABLE_ROW_DELETED (Some [1]), TABLE_ROW_MODIFIED (mail_row 3 10 0)]. plain n"
    by code_simp
  show "\<forall>n. send_ok (quiet_env []) n" by (simp add: quiet_env_def)
qed

section \<open>What goes wrong\<close>

text \<open>
  When one batch of notifications adds a message and deletes it again, the client is sent the number of
  a message it was never told of: from three messages, the number four.
\<close>

lemma idle_batch_can_confuse:
  "map_option (\<lambda>(hr, c'). (hr, drop (length (sent idling)) (sent c')))
     (IdleAdviseCallback (quiet_env []) [TABLE_ROW_ADDED [4] (mail_row 4 20 0), TABLE_ROW_DELETED (Some [4])] idling) =
     Some (hrSuccess, [EXPUNGE 4, RECENT 1, EXISTS 3]) \<and>
   length (lstFolderMailEIDs idling) = 3 \<and> client_run [None, None, None] [EXPUNGE 4, RECENT 1, EXISTS 3] = None"
proof (intro conjI)
  show "map_option (\<lambda>(hr, c'). (hr, drop (length (sent idling)) (sent c')))
     (IdleAdviseCallback (quiet_env []) [TABLE_ROW_ADDED [4] (mail_row 4 20 0), TABLE_ROW_DELETED (Some [4])] idling) =
     Some (hrSuccess, [EXPUNGE 4, RECENT 1, EXISTS 3])" by code_simp
qed code_simp+

text \<open>A client that idles while the first message is marked as read, and a refresh after that is undone.\<close>

definition told_seen :: imap where
  "told_seen = (case IdleAdviseCallback (quiet_env []) [TABLE_ROW_MODIFIED (mail_row 1 7 1)] idling of
     Some (hr, c) \<Rightarrow> snd (HrDone (quiet_env []) False c) | None \<Rightarrow> idling)"

definition refreshed :: imap where
  "refreshed = snd (refresh (quiet_env [mail_row 1 7 0, mail_row 2 9 0, mail_row 3 10 1]) told_seen)"

text \<open>
  A change of flags told during IDLE is not noted in the list. In this session the first message is
  unread when the client idles; it is told that the message is read, and after IDLE the message is marked
  unread again. The next refresh finds the flags it remembers and sends nothing, so the client is left
  with a message it takes for read, although the folder has it as unread.
\<close>

lemma idle_flags_go_stale:
  "agrees [None, None, None] (lstFolderMailEIDs idling) \<and>
   drop (length (sent idling)) (sent refreshed) = [FETCH 1 None (CHR 0x5C # ''Seen '' @ CHR 0x5C # ''Recent'')] \<and>
   client_run [None, None, None] [FETCH 1 None (CHR 0x5C # ''Seen '' @ CHR 0x5C # ''Recent'')] =
     Some [Some (CHR 0x5C # ''Seen '' @ CHR 0x5C # ''Recent''), None, None] \<and>
   map strFlags (lstFolderMailEIDs refreshed) =
     [CHR 0x5C # ''Recent'', CHR 0x5C # ''Recent'', CHR 0x5C # ''Seen '' @ CHR 0x5C # ''Recent''] \<and>
   \<not> agrees [Some (CHR 0x5C # ''Seen '' @ CHR 0x5C # ''Recent''), None, None] (lstFolderMailEIDs refreshed)"
  by code_simp

end
