(* ===== verification/ImapStore.thy ===== *)
theory ImapStore
  imports ImapView
begin

text \<open>
  Changing messages in the IMAP server (gateway/IMAP.cpp): the STORE command with the three ways to set
  flags, and COPY and XAOL-MOVE.

  A message is the properties the code reads and writes. An open message object has its own copy of them,
  which SaveChanges writes back; SetReadFlag acts on both at once. The record \<open>msgenv\<close> holds what the mail
  server answers: the n-th call on message objects has the result \<open>message_call n\<close>; \<open>fetched\<close> are the lines
  HrPropertyFetch sends for the messages changed. Memory allocation
  succeeds. The lists of positions come from the sequence set parsers, which give valid positions only.
\<close>

section \<open>Messages\<close>

record msgprops = flagprops +
  icon_index :: "uint32 option"
  verb_time :: "64 word option"

record msgenv =
  message_call :: "nat \<Rightarrow> hresult"
  OpenEntry :: "bytes \<Rightarrow> hresult"
  system_time :: "64 word"
  imap_expunge_on_delete :: string
  fetched :: "response list"
  CopyMessages :: hresult

record mailbox =
  messages :: "bytes \<Rightarrow> msgprops option"
  calls :: nat

definition ICON_FOLDER_DEFAULT :: uint32 where "ICON_FOLDER_DEFAULT = 0xFFFFFFFF"
definition ICON_MAIL_REPLIED :: uint32 where "ICON_MAIL_REPLIED = 0x105"
definition ICON_MAIL_FORWARDED :: uint32 where "ICON_MAIL_FORWARDED = 0x106"

definition or_zero :: "uint32 option \<Rightarrow> uint32" where
  "or_zero v = (case v of None \<Rightarrow> 0 | Some w \<Rightarrow> w)"

definition set_read :: "bool \<Rightarrow> msgprops \<Rightarrow> msgprops" where
  "set_read r p = p\<lparr>message_flags := Some (if r then or_zero (message_flags p) OR MSGFLAG_READ
                                             else or_zero (message_flags p) AND NOT MSGFLAG_READ)\<rparr>"

text \<open>An open object: the entry id, the object's properties, and the mailbox.\<close>

type_synonym 'a on_message = "msgenv \<Rightarrow> bytes \<Rightarrow> msgprops \<Rightarrow> mailbox \<Rightarrow> 'a \<times> msgprops \<times> mailbox"

text \<open>A call whose effect on the object happens when it does not fail; a warning is no failure.\<close>

definition obj_call :: "(msgprops \<Rightarrow> msgprops) \<Rightarrow> hresult on_message" where
  "obj_call f s eid p b =
     (let hr = message_call s (calls b); b = b\<lparr>calls := calls b + 1\<rparr>
      in if FAILED hr then (hr, p, b) else (hr, f p, b))"

definition SetReadFlag :: "bool \<Rightarrow> hresult on_message" where
  "SetReadFlag r s eid p b =
     (case obj_call (set_read r) s eid p b of (hr, p', b) \<Rightarrow>
        (hr, p', if FAILED hr then b else b\<lparr>messages := (messages b)(eid := map_option (set_read r) (messages b eid))\<rparr>))"

definition SaveChanges :: "hresult on_message" where
  "SaveChanges s eid p b =
     (case obj_call (\<lambda>p. p) s eid p b of (hr, p, b) \<Rightarrow>
        (hr, p, if FAILED hr then b else b\<lparr>messages := (messages b)(eid \<mapsto> p)\<rparr>))"

section \<open>FLAGS: replacing the flags\<close>

definition bs :: "string \<Rightarrow> string" where "bs s = CHR 0x5C # s"

text \<open>
  The values set, computed from those read: status, flag status, icon, verb, and how many of the five
  properties are written.
\<close>

definition replaced_props :: "string \<Rightarrow> 64 word \<Rightarrow> msgprops \<Rightarrow> msgprops" where
  "replaced_props v t p =
     (let status = or_zero (msg_status p);
          flagged = (if contains v (bs ''FLAGGED'') then 2 else 0);
          icon = (case icon_index p of None \<Rightarrow> ICON_FOLDER_DEFAULT | Some i \<Rightarrow> i);
          ans = contains v (bs ''ANSWERED'');
          fwd = contains v ''$FORWARDED'';
          cValues = (if \<not> ans then 5 - 2 else 5 :: nat);
          status = (if ans then status OR MSGSTATUS_ANSWERED else status AND NOT MSGSTATUS_ANSWERED);
          icon = (if ans then ICON_MAIL_REPLIED else icon);
          verb = (if ans then Some NOTEIVERB_REPLYTOSENDER else last_verb p);
          time = (if ans then Some t else verb_time p);
          cValues = (if \<not> fwd \<and> cValues = 5 then cValues - 2 else cValues);
          icon = (if fwd then ICON_MAIL_FORWARDED else icon);
          verb = (if fwd then Some NOTEIVERB_FORWARD else verb);
          time = (if fwd then Some t else time);
          status = (if contains v (bs ''DELETED'') then status OR MSGSTATUS_DELMARKED else status AND NOT MSGSTATUS_DELMARKED)
      in p\<lparr>msg_status := Some status, flag_status := Some flagged, icon_index := Some icon,
           last_verb := (if cValues = 5 then verb else None), verb_time := (if cValues = 5 then time else None)\<rparr>)"

text \<open>
  DeleteProps removes the five properties, SetProps writes the computed ones; a failure in between leaves
  the object without them.
\<close>

definition cleared_props :: "msgprops \<Rightarrow> msgprops" where
  "cleared_props p = p\<lparr>msg_status := None, flag_status := None, icon_index := None, last_verb := None, verb_time := None\<rparr>"

definition replace_flags :: "string \<Rightarrow> (hresult \<times> bool) on_message" where
  "replace_flags v s eid p b =
     (case SetReadFlag (contains v (bs ''SEEN'')) s eid p b of (hr, p, b) \<Rightarrow>
      if hr \<noteq> hrSuccess then ((hr, False), p, b)
      else case obj_call (\<lambda>p. p) s eid p b of (hr, p, b) \<Rightarrow>
      if FAILED hr then ((hr, False), p, b)
      else let new = replaced_props v (system_time s) p; del = contains v (bs ''DELETED'')
      in case obj_call cleared_props s eid p b of (hr, p, b) \<Rightarrow>
      if hr \<noteq> hrSuccess then ((hr, del), p, b)
      else case obj_call (\<lambda>_. new) s eid p b of (hr, p, b) \<Rightarrow>
      if hr \<noteq> hrSuccess then ((hr, del), p, b)
      else case SaveChanges s eid p b of (hr, p, b) \<Rightarrow> ((hr, del), p, b))"

section \<open>+FLAGS and -FLAGS: adding and removing flags\<close>

text \<open>
  One flag. The results of SetReadFlag, GetProps and SetProps end the command when they are errors; those of
  HrSetOneProp, HrGetOneProp and SaveChanges are not looked at, except that a status that cannot be read
  counts as zero.
\<close>

definition change_verb :: "(msgprops \<Rightarrow> msgprops) \<Rightarrow> hresult on_message" where
  "change_verb f s eid p b =
     (case obj_call (\<lambda>p. p) s eid p b of (hr, p, b) \<Rightarrow>
        if FAILED hr then (hr, p, b) else obj_call f s eid p b)"

definition change_status :: "(uint32 \<Rightarrow> uint32) \<Rightarrow> hresult on_message" where
  "change_status f s eid p b =
     (case obj_call (\<lambda>p. p) s eid p b of (hr, p, b) \<Rightarrow>
        let v = (if hr \<noteq> hrSuccess then 0 else or_zero (msg_status p))
        in case obj_call (\<lambda>p. p\<lparr>msg_status := Some (f v)\<rparr>) s eid p b of (_, p, b) \<Rightarrow> (hrSuccess, p, b))"

definition change_flagged :: "uint32 \<Rightarrow> hresult on_message" where
  "change_flagged v s eid p b =
     (case obj_call (\<lambda>p. p\<lparr>flag_status := Some v\<rparr>) s eid p b of (_, p, b) \<Rightarrow> (hrSuccess, p, b))"

definition with_verb :: "(uint32 \<Rightarrow> uint32) \<Rightarrow> uint32 \<Rightarrow> uint32 \<Rightarrow> 64 word \<Rightarrow> msgprops \<Rightarrow> msgprops" where
  "with_verb f icon verb t p =
     p\<lparr>msg_status := Some (f (or_zero (msg_status p))), icon_index := Some icon, last_verb := Some verb, verb_time := Some t\<rparr>"

definition add_flag :: "string \<Rightarrow> hresult on_message" where
  "add_flag flag s eid p b =
     (if flag = bs ''SEEN'' then SetReadFlag True s eid p b
      else if flag = bs ''DRAFT'' then (hrSuccess, p, b)
      else if flag = bs ''FLAGGED'' then change_flagged 2 s eid p b
      else if flag = bs ''ANSWERED''
      then change_verb (with_verb (\<lambda>w. w OR MSGSTATUS_ANSWERED) ICON_MAIL_REPLIED NOTEIVERB_REPLYTOSENDER (system_time s)) s eid p b
      else if flag = ''$FORWARDED''
      then change_verb (with_verb (\<lambda>w. w) ICON_MAIL_FORWARDED NOTEIVERB_FORWARD (system_time s)) s eid p b
      else if flag = bs ''DELETED'' then change_status (\<lambda>w. w OR MSGSTATUS_DELMARKED) s eid p b
      else (hrSuccess, p, b))"

definition remove_flag :: "string \<Rightarrow> hresult on_message" where
  "remove_flag flag s eid p b =
     (if flag = bs ''SEEN'' then SetReadFlag False s eid p b
      else if flag = bs ''DRAFT'' then (hrSuccess, p, b)
      else if flag = bs ''FLAGGED'' then change_flagged 0 s eid p b
      else if flag = bs ''ANSWERED'' \<or> flag = ''$FORWARDED''
      then change_verb (with_verb (\<lambda>w. w AND NOT MSGSTATUS_ANSWERED) ICON_FOLDER_DEFAULT NOTEIVERB_OPEN (system_time s)) s eid p b
      else if flag = bs ''DELETED'' then change_status (\<lambda>w. w AND NOT MSGSTATUS_DELMARKED) s eid p b
      else (hrSuccess, p, b))"

fun each_flag :: "(string \<Rightarrow> hresult on_message) \<Rightarrow> string list \<Rightarrow> hresult on_message" where
  "each_flag op [] s eid p b = (hrSuccess, p, b)"
| "each_flag op (f # fs) s eid p b =
     (case op f s eid p b of (hr, p, b) \<Rightarrow>
        if hr \<noteq> hrSuccess then (hr, p, b)
        else case SaveChanges s eid p b of (_, p, b) \<Rightarrow> each_flag op fs s eid p b)"

section \<open>STORE\<close>

definition HrGetMessageFlags :: "bool \<Rightarrow> string \<Rightarrow> (hresult \<times> string) on_message" where
  "HrGetMessageFlags recent strResponse s eid p b =
     (case obj_call (\<lambda>p. p) s eid p b of (hr, p, b) \<Rightarrow>
        if FAILED hr then ((hr, strResponse), p, b)
        else ((hrSuccess, strResponse @ ''FLAGS ('' @ PropsToFlags (flagprops.truncate p) recent False @ '')''), p, b))"

text \<open>The work on one message, by the name of the item.\<close>

definition change_flags :: "string \<Rightarrow> string \<Rightarrow> string list \<Rightarrow> (hresult \<times> bool) on_message" where
  "change_flags name v flags s eid p b =
     (if take 5 name = ''FLAGS'' then replace_flags v s eid p b
      else if take 6 name = ''+FLAGS''
      then (case each_flag add_flag flags s eid p b of (hr, p, b) \<Rightarrow> ((hr, bs ''DELETED'' \<in> set flags), p, b))
      else if take 6 name = ''-FLAGS''
      then (case each_flag remove_flag flags s eid p b of (hr, p, b) \<Rightarrow> ((hr, False), p, b))
      else ((hrSuccess, False), p, b))"

text \<open>The loop over the messages; the string with the new flags and the mark to delete go on from one to the next.\<close>

fun store_loop :: "string \<Rightarrow> string \<Rightarrow> string list \<Rightarrow> msgenv \<Rightarrow> nat list \<Rightarrow> string \<Rightarrow> bool \<Rightarrow> mailbox \<Rightarrow> SMail list
    \<Rightarrow> hresult \<times> bool \<times> mailbox \<times> SMail list" where
  "store_loop name v flags s [] strNewFlags bDelete b L = (hrSuccess, bDelete, b, L)"
| "store_loop name v flags s (i # is) strNewFlags bDelete b L =
     (let mail = L ! i; eid = sEntryID mail in
      if OpenEntry s eid \<noteq> hrSuccess then (OpenEntry s eid, bDelete, b, L)
      else case messages b eid of
        None \<Rightarrow> (MAPI_E_NOT_FOUND, bDelete, b, L)
      | Some p \<Rightarrow>
          (case change_flags name v flags s eid p b of ((hr, del), p, b) \<Rightarrow>
             if hr \<noteq> hrSuccess then (hr, bDelete, b, L)
             else case HrGetMessageFlags (bRecent mail) strNewFlags s eid p b of ((hr, strNewFlags), p, b) \<Rightarrow>
               if hr \<noteq> hrSuccess then (hr, bDelete, b, L)
               else store_loop name v flags s is strNewFlags (bDelete \<or> del) b (L[i := mail\<lparr>strFlags := strNewFlags\<rparr>])))"

definition strip_parens :: "string \<Rightarrow> string" where
  "strip_parens s = (if length s > 1 \<and> s ! 0 = CHR ''('' then butlast (tl s) else s)"

text \<open>\<open>lpbDoDelete\<close> is written at the end only; \<open>None\<close> is a value left as it was.\<close>

definition HrStore :: "msgenv \<Rightarrow> nat list \<Rightarrow> string \<Rightarrow> string \<Rightarrow> imap \<Rightarrow> mailbox \<Rightarrow> hresult \<times> bool option \<times> imap \<times> mailbox" where
  "HrStore s lstMails strMsgDataItemName strMsgDataItemValue c b =
     (if strCurrentFolder c = [] \<or> \<not> lpSession c then (MAPI_E_CALL_FAILED, None, c, b)
      else let name = strToUpper strMsgDataItemName; v = strip_parens (strToUpper strMsgDataItemValue)
      in case store_loop name v (HrSplitInput v []) s lstMails [] False b (lstFolderMailEIDs c) of (hr, del, b, L) \<Rightarrow>
           let c = c\<lparr>lstFolderMailEIDs := L\<rparr>
           in if hr \<noteq> hrSuccess then (hr, None, c, b)
              else (if length name > 7 \<and> drop (length name - 7) name = ''.SILENT'' then MAPI_E_NOT_ME else hrSuccess,
                    Some del, c, b))"

definition parse_set :: "bool \<Rightarrow> string \<Rightarrow> imap \<Rightarrow> hresult \<times> nat list" where
  "parse_set bUidMode strSeqSet c =
     (case (if bUidMode then HrParseSeqUidSet else HrParseSeqSet) (map ulUid (lstFolderMailEIDs c)) strSeqSet [] of
        (hr, ps) \<Rightarrow> (hr, map unat ps))"

definition HrCmdStore :: "imapenv \<Rightarrow> msgenv \<Rightarrow> string \<Rightarrow> string \<Rightarrow> string \<Rightarrow> string \<Rightarrow> bool \<Rightarrow> imap \<Rightarrow> mailbox \<Rightarrow> hresult \<times> imap \<times> mailbox" where
  "HrCmdStore e s strTag strSeqSet strMsgDataItemName strMsgDataItemValue bUidMode c b =
     (let strMode = (if bUidMode then ''UID'' else []) @ '' STORE'';
          no = (\<lambda>text hr c. case tagged_or e RESP_TAGGED_NO strTag (strMode @ text) hr c of (hr, c) \<Rightarrow> (hr, c, b)) in
      if strCurrentFolder c = [] \<or> \<not> lpSession c then no '' error no folder'' MAPI_E_CALL_FAILED c
      else if bCurrentFolderReadOnly c then no '' error folder read only'' MAPI_E_CALL_FAILED c
      else case parse_set bUidMode strSeqSet c of (hr, lstMails) \<Rightarrow>
      if hr \<noteq> hrSuccess then no ('' sequence parse error in: '' @ strSeqSet) hr c
      else case HrStore s lstMails strMsgDataItemName strMsgDataItemValue c b of (hr, del, c, b) \<Rightarrow>
      let c = (if hr \<noteq> MAPI_E_NOT_ME then snd (write_all e (fetched s) c) else c);
          hr = (if hr \<noteq> MAPI_E_NOT_ME then hrSuccess else hr)
      in if del = Some True \<and> parseBool (imap_expunge_on_delete s)
         then (case HrExpungeDeleted e strTag strMode
                      (if bUidMode then HrSeqUidSetToRestriction (map ulUid (lstFolderMailEIDs c)) strSeqSet else None) c of (hr1, c) \<Rightarrow>
                 if hr1 \<noteq> hrSuccess then (if bUidMode then hrSuccess else hr, c, b)
                 else case HrTagged e RESP_TAGGED_OK strTag (strMode @ '' completed'') (snd (refresh e c)) of (hr, c) \<Rightarrow> (hr, c, b))
         else (case HrTagged e RESP_TAGGED_OK strTag (strMode @ '' completed'') c of (hr, c) \<Rightarrow> (hr, c, b)))"

section \<open>COPY and XAOL-MOVE\<close>

text \<open>What CopyMessages is given, when it is reached: the entry ids, and whether to move the messages.\<close>

type_synonym copied = "(bytes list \<times> bool) option"

definition HrCopy :: "imapenv \<Rightarrow> msgenv \<Rightarrow> nat list \<Rightarrow> string \<Rightarrow> bool \<Rightarrow> imap \<Rightarrow> hresult \<times> copied" where
  "HrCopy e s lstMails strFolderParam bMove c =
     (if strCurrentFolder c = [] \<or> \<not> lpSession c then (MAPI_E_CALL_FAILED, None)
      else if HrFindFolder e (strCurrentFolder c) (bCurrentFolderReadOnly c) \<noteq> hrSuccess
      then (HrFindFolder e (strCurrentFolder c) (bCurrentFolderReadOnly c), None)
      else case IMAP2MAPICharset (from_utf7 e) strFolderParam of (hr, strFolder) \<Rightarrow>
      if hr \<noteq> hrSuccess then (hr, None)
      else if HrFindFolder e strFolder False \<noteq> hrSuccess then (HrFindFolder e strFolder False, None)
      else (CopyMessages s, Some (map (\<lambda>i. sEntryID (lstFolderMailEIDs c ! i)) lstMails, bMove)))"

text \<open>The common part of the two commands; \<open>fin\<close> is what follows a successful copy.\<close>

definition copy_command :: "imapenv \<Rightarrow> msgenv \<Rightarrow> string \<Rightarrow> string \<Rightarrow> string \<Rightarrow> string \<Rightarrow> bool \<Rightarrow> bool \<Rightarrow> (imap \<Rightarrow> imap) \<Rightarrow> imap
    \<Rightarrow> hresult \<times> imap \<times> copied" where
  "copy_command e s command strTag strSeqSet strFolder bUidMode bMove fin c =
     (let no = (\<lambda>text hr c ids. case tagged_or e RESP_TAGGED_NO strTag text hr c of (hr, c) \<Rightarrow> (hr, c, ids)) in
      if strCurrentFolder c = [] \<or> \<not> lpSession c then no (command @ '' error no folder'') MAPI_E_CALL_FAILED c None
      else case parse_set bUidMode strSeqSet c of (hr, lstMails) \<Rightarrow>
      if hr \<noteq> hrSuccess then no (command @ '' sequence parse error in: '' @ strSeqSet) hr c None
      else case HrCopy e s lstMails strFolder bMove c of (hr, ids) \<Rightarrow>
      if hr = MAPI_E_NOT_FOUND then no (''[TRYCREATE] '' @ command @ '' folder not found'') hr c ids
      else if hr \<noteq> hrSuccess then no (command @ '' error'') hr c ids
      else case HrTagged e RESP_TAGGED_OK strTag (command @ '' completed'') (fin c) of (hr, c) \<Rightarrow> (hr, c, ids))"

definition HrCmdCopy :: "imapenv \<Rightarrow> msgenv \<Rightarrow> string \<Rightarrow> string \<Rightarrow> string \<Rightarrow> bool \<Rightarrow> imap \<Rightarrow> hresult \<times> imap \<times> copied" where
  "HrCmdCopy e s strTag strSeqSet strFolder bUidMode c =
     copy_command e s ((if bUidMode then ''UID '' else []) @ ''COPY'') strTag strSeqSet strFolder bUidMode False (\<lambda>c. c) c"

definition HrCmdUidXaolMove :: "imapenv \<Rightarrow> msgenv \<Rightarrow> string \<Rightarrow> string \<Rightarrow> string \<Rightarrow> imap \<Rightarrow> hresult \<times> imap \<times> copied" where
  "HrCmdUidXaolMove e s strTag strSeqSet strFolder c =
     copy_command e s ''UID XAOL-MOVE'' strTag strSeqSet strFolder True True (\<lambda>c. snd (refresh e c)) c"

end
