(* ===== verification/ImapStoreSpec.thy ===== *)
theory ImapStoreSpec
  imports ImapStore ImapViewSpec
begin

text \<open>
  What STORE does to the flags of messages: adding and removing flags refine updates of a set of flags, in
  which answered and forwarded exclude each other; replacing the flags never sets the forwarded flag alone.
  The flags the session remembers for the messages are not those, and a failure is not reported.
\<close>

section \<open>Flags as a set\<close>

datatype mflag = Seen | Flagged | Answered | Forwarded | Draft | Deleted

definition answered :: "'a flagprops_scheme \<Rightarrow> bool" where
  "answered p \<longleftrightarrow> (last_verb p = None \<and> has_bits (msg_status p) MSGSTATUS_ANSWERED \<or>
     last_verb p = Some NOTEIVERB_REPLYTOSENDER \<or> last_verb p = Some NOTEIVERB_REPLYTOALL)"

definition flags_of :: "'a flagprops_scheme \<Rightarrow> mflag set" where
  "flags_of p =
     {f. case f of
        Seen \<Rightarrow> has_bits (message_flags p) MSGFLAG_READ
      | Flagged \<Rightarrow> flag_status p \<noteq> None \<and> flag_status p \<noteq> Some 0
      | Answered \<Rightarrow> answered p
      | Forwarded \<Rightarrow> last_verb p = Some NOTEIVERB_FORWARD
      | Draft \<Rightarrow> has_bits (msg_status p) MSGSTATUS_DRAFT
      | Deleted \<Rightarrow> has_bits (msg_status p) MSGSTATUS_DELMARKED}"

lemma flags_of_iff:
  "Seen \<in> flags_of p \<longleftrightarrow> has_bits (message_flags p) MSGFLAG_READ"
  "Flagged \<in> flags_of p \<longleftrightarrow> flag_status p \<noteq> None \<and> flag_status p \<noteq> Some 0"
  "Answered \<in> flags_of p \<longleftrightarrow> answered p"
  "Forwarded \<in> flags_of p \<longleftrightarrow> last_verb p = Some NOTEIVERB_FORWARD"
  "Draft \<in> flags_of p \<longleftrightarrow> has_bits (msg_status p) MSGSTATUS_DRAFT"
  "Deleted \<in> flags_of p \<longleftrightarrow> has_bits (msg_status p) MSGSTATUS_DELMARKED"
  by (simp_all add: flags_of_def)

lemma flag_set_eqI:
  "(Seen \<in> A \<longleftrightarrow> Seen \<in> B) \<Longrightarrow> (Flagged \<in> A \<longleftrightarrow> Flagged \<in> B) \<Longrightarrow> (Answered \<in> A \<longleftrightarrow> Answered \<in> B) \<Longrightarrow>
   (Forwarded \<in> A \<longleftrightarrow> Forwarded \<in> B) \<Longrightarrow> (Draft \<in> A \<longleftrightarrow> Draft \<in> B) \<Longrightarrow> (Deleted \<in> A \<longleftrightarrow> Deleted \<in> B) \<Longrightarrow> A = B"
  by (rule set_eqI, rename_tac x, case_tac x) simp_all

text \<open>The effect of one flag name, and of a list that replaces the flags.\<close>

definition add_spec :: "string \<Rightarrow> mflag set \<Rightarrow> mflag set" where
  "add_spec f F =
     (if f = bs ''SEEN'' then insert Seen F
      else if f = bs ''FLAGGED'' then insert Flagged F
      else if f = bs ''ANSWERED'' then insert Answered (F - {Forwarded})
      else if f = ''$FORWARDED'' then insert Forwarded (F - {Answered})
      else if f = bs ''DELETED'' then insert Deleted F
      else F)"

definition remove_spec :: "string \<Rightarrow> mflag set \<Rightarrow> mflag set" where
  "remove_spec f F =
     (if f = bs ''SEEN'' then F - {Seen}
      else if f = bs ''FLAGGED'' then F - {Flagged}
      else if f = bs ''ANSWERED'' \<or> f = ''$FORWARDED'' then F - {Answered, Forwarded}
      else if f = bs ''DELETED'' then F - {Deleted}
      else F)"

text \<open>
  A list that replaces the flags asks for the flags it names, next to the draft flag, which no list changes.
  The code loses one flag: the forwarded flag when the answered flag is not named as well, and the answered
  flag when both are named.
\<close>

fun flag_name :: "mflag \<Rightarrow> string" where
  "flag_name Seen = bs ''SEEN''"
| "flag_name Flagged = bs ''FLAGGED''"
| "flag_name Answered = bs ''ANSWERED''"
| "flag_name Forwarded = ''$FORWARDED''"
| "flag_name Draft = bs ''DRAFT''"
| "flag_name Deleted = bs ''DELETED''"

definition named :: "string \<Rightarrow> mflag set" where
  "named v = {f. f \<noteq> Draft \<and> contains v (flag_name f)}"

definition asked_for :: "string \<Rightarrow> mflag set \<Rightarrow> mflag set" where
  "asked_for v F = (F \<inter> {Draft}) \<union> named v"

definition lost :: "string \<Rightarrow> mflag set" where
  "lost v = (if Forwarded \<in> named v then (if Answered \<in> named v then {Answered} else {Forwarded}) else {})"

definition store_spec :: "string \<Rightarrow> string \<Rightarrow> string list \<Rightarrow> mflag set \<Rightarrow> mflag set" where
  "store_spec name v flags F =
     (if take 5 name = ''FLAGS'' then asked_for v F - lost v
      else if take 6 name = ''+FLAGS'' then foldl (\<lambda>F f. add_spec f F) F flags
      else if take 6 name = ''-FLAGS'' then foldl (\<lambda>F f. remove_spec f F) F flags
      else F)"

section \<open>Bits\<close>

lemma mask_or: "a AND m = 0 \<Longrightarrow> (w OR a) AND m = w AND (m :: uint32)"
  by (simp add: bit.conj_disj_distrib2)

lemma mask_andnot: "NOT a AND m = m \<Longrightarrow> (w AND NOT a) AND m = w AND (m :: uint32)"
  by (simp add: and.assoc)

lemma status_masks:
  "(w OR MSGSTATUS_ANSWERED) AND MSGSTATUS_DRAFT = w AND MSGSTATUS_DRAFT"
  "(w OR MSGSTATUS_ANSWERED) AND MSGSTATUS_DELMARKED = w AND MSGSTATUS_DELMARKED"
  "(w OR MSGSTATUS_DELMARKED) AND MSGSTATUS_DRAFT = w AND MSGSTATUS_DRAFT"
  "(w OR MSGSTATUS_DELMARKED) AND MSGSTATUS_ANSWERED = w AND MSGSTATUS_ANSWERED"
  "(w AND NOT MSGSTATUS_ANSWERED) AND MSGSTATUS_DRAFT = w AND MSGSTATUS_DRAFT"
  "(w AND NOT MSGSTATUS_ANSWERED) AND MSGSTATUS_DELMARKED = w AND MSGSTATUS_DELMARKED"
  "(w AND NOT MSGSTATUS_DELMARKED) AND MSGSTATUS_DRAFT = w AND MSGSTATUS_DRAFT"
  "(w AND NOT MSGSTATUS_DELMARKED) AND MSGSTATUS_ANSWERED = w AND MSGSTATUS_ANSWERED"
  by (rule mask_or mask_andnot; code_simp)+

lemma masks_not_zero [simp]: "MSGSTATUS_ANSWERED \<noteq> 0" "MSGSTATUS_DELMARKED \<noteq> 0" "MSGFLAG_READ \<noteq> 0"
  by code_simp+

lemma own_mask [simp]: "(w OR m) AND m = m" "(w AND NOT m) AND m = 0" for m :: uint32
  by (simp_all add: bit.conj_disj_distrib2 and.assoc)

lemma bits_or_zero: "has_bits v m \<longleftrightarrow> or_zero v AND m \<noteq> 0"
  by (cases v) (simp_all add: has_bits_def or_zero_def)

lemma verbs_differ:
  "NOTEIVERB_REPLYTOSENDER \<noteq> NOTEIVERB_FORWARD" "NOTEIVERB_REPLYTOALL \<noteq> NOTEIVERB_FORWARD" "NOTEIVERB_OPEN \<noteq> NOTEIVERB_FORWARD"
  "NOTEIVERB_OPEN \<noteq> NOTEIVERB_REPLYTOSENDER" "NOTEIVERB_OPEN \<noteq> NOTEIVERB_REPLYTOALL"
  by code_simp+

lemma flag_names_differ:
  "bs ''SEEN'' \<noteq> bs ''DRAFT''" "bs ''FLAGGED'' \<noteq> bs ''DRAFT''" "bs ''ANSWERED'' \<noteq> bs ''DRAFT''" "bs ''DELETED'' \<noteq> bs ''DRAFT''"
  "''$FORWARDED'' \<noteq> bs ''DRAFT''"
  by (simp_all add: bs_def)

section \<open>One message\<close>

lemma has_bits_Some: "has_bits (Some w) m \<longleftrightarrow> w AND m \<noteq> 0"
  by (simp add: has_bits_def)

lemmas flag_simps = flags_of_iff answered_def bits_or_zero or_zero_def status_masks verbs_differ verbs_differ [symmetric]

lemma flags_set_read:
  "flags_of (set_read True p) = insert Seen (flags_of p)" "flags_of (set_read False p) = flags_of p - {Seen}"
  by (rule flag_set_eqI; simp add: flag_simps set_read_def)+

lemma flags_flagged:
  "flags_of (p\<lparr>flag_status := Some 2\<rparr>) = insert Flagged (flags_of p)" "flags_of (p\<lparr>flag_status := Some 0\<rparr>) = flags_of p - {Flagged}"
  by (rule flag_set_eqI; simp add: flag_simps)+

lemma flags_status:
  "flags_of (p\<lparr>msg_status := Some (or_zero (msg_status p) OR MSGSTATUS_DELMARKED)\<rparr>) = insert Deleted (flags_of p)"
  "flags_of (p\<lparr>msg_status := Some (or_zero (msg_status p) AND NOT MSGSTATUS_DELMARKED)\<rparr>) = flags_of p - {Deleted}"
  by (rule flag_set_eqI; simp add: flag_simps)+

lemma flags_verb:
  "flags_of (with_verb (\<lambda>w. w OR MSGSTATUS_ANSWERED) i NOTEIVERB_REPLYTOSENDER t p) = insert Answered (flags_of p - {Forwarded})"
  "flags_of (with_verb (\<lambda>w. w) i NOTEIVERB_FORWARD t p) = insert Forwarded (flags_of p - {Answered})"
  "flags_of (with_verb (\<lambda>w. w AND NOT MSGSTATUS_ANSWERED) i NOTEIVERB_OPEN t p) = flags_of p - {Answered, Forwarded}"
  by (rule flag_set_eqI; simp add: flag_simps with_verb_def)+

lemma flags_replaced:
  "flags_of (replaced_props v t (set_read (contains v (bs ''SEEN'')) p)) = asked_for v (flags_of p) - lost v"
  by (rule flag_set_eqI; simp add: flag_simps replaced_props_def asked_for_def named_def lost_def set_read_def Let_def)

section \<open>Calls that succeed\<close>

definition quiet :: "msgenv \<Rightarrow> bool" where
  "quiet s \<longleftrightarrow> (\<forall>n. message_call s n = hrSuccess)"

lemma not_failed [simp]: "\<not> FAILED hrSuccess"
  by (simp add: FAILED_def)

lemma quiet_call: "quiet s \<Longrightarrow> obj_call f s eid p b = (hrSuccess, f p, b\<lparr>calls := calls b + 1\<rparr>)"
  by (simp add: quiet_def obj_call_def Let_def)

lemma quiet_read:
  "quiet s \<Longrightarrow> SetReadFlag r s eid p b = (hrSuccess, set_read r p,
     b\<lparr>calls := calls b + 1, messages := (messages b)(eid := map_option (set_read r) (messages b eid))\<rparr>)"
  by (simp add: SetReadFlag_def quiet_call)

lemma quiet_save:
  "quiet s \<Longrightarrow> SaveChanges s eid p b = (hrSuccess, p, b\<lparr>calls := calls b + 1, messages := (messages b)(eid \<mapsto> p)\<rparr>)"
  by (simp add: SaveChanges_def quiet_call)

lemmas quiet_simps = quiet_call quiet_read quiet_save

text \<open>The operation succeeds, changes the flags as told, and touches no other message.\<close>

definition changes_one :: "(string \<Rightarrow> hresult on_message) \<Rightarrow> (string \<Rightarrow> mflag set \<Rightarrow> mflag set) \<Rightarrow> msgenv \<Rightarrow> bool" where
  "changes_one op spec s \<longleftrightarrow>
     (\<forall>f eid p b. \<exists>p' b'. op f s eid p b = (hrSuccess, p', b') \<and> flags_of p' = spec f (flags_of p) \<and>
        (\<forall>x. x \<noteq> eid \<longrightarrow> messages b' x = messages b x))"

lemma add_flag_changes: "quiet s \<Longrightarrow> changes_one add_flag add_spec s"
  unfolding changes_one_def add_flag_def add_spec_def
  by (auto simp: quiet_simps change_flagged_def change_verb_def change_status_def Let_def flags_set_read flags_flagged flags_status
      flags_verb bs_def)

lemma remove_flag_changes: "quiet s \<Longrightarrow> changes_one remove_flag remove_spec s"
  unfolding changes_one_def remove_flag_def remove_spec_def
  by (auto simp: quiet_simps change_flagged_def change_verb_def change_status_def Let_def flags_set_read flags_flagged flags_status
      flags_verb bs_def)

lemma each_flag_effect:
  assumes "changes_one op spec s" and "quiet s"
  shows "messages b eid = Some p \<Longrightarrow>
    \<exists>p' b'. each_flag op flags s eid p b = (hrSuccess, p', b') \<and> flags_of p' = foldl (\<lambda>F f. spec f F) (flags_of p) flags \<and>
      messages b' = (messages b)(eid \<mapsto> p')"
proof (induction flags arbitrary: p b)
  case Nil
  then show ?case by (auto simp: fun_eq_iff)
next
  case (Cons f flags)
  obtain p1 b1 where one: "op f s eid p b = (hrSuccess, p1, b1)" "flags_of p1 = spec f (flags_of p)"
      "\<forall>x. x \<noteq> eid \<longrightarrow> messages b1 x = messages b x"
    using assms(1) unfolding changes_one_def by blast
  let ?b = "b1\<lparr>calls := calls b1 + 1, messages := (messages b1)(eid \<mapsto> p1)\<rparr>"
  have "messages ?b eid = Some p1" by simp
  from Cons.IH [OF this] obtain p' b' where "each_flag op flags s eid p1 ?b = (hrSuccess, p', b')"
      "flags_of p' = foldl (\<lambda>F f. spec f F) (flags_of p1) flags" "messages b' = (messages ?b)(eid \<mapsto> p')" by blast
  then show ?case using one by (auto simp: quiet_save [OF assms(2)] fun_eq_iff)
qed

lemma change_flags_effect:
  assumes "quiet s" and "messages b eid = Some p"
  shows "\<exists>del p' b'. change_flags name v flags s eid p b = ((hrSuccess, del), p', b') \<and>
    flags_of p' = store_spec name v flags (flags_of p) \<and> messages b' = (messages b)(eid \<mapsto> p')"
proof -
  consider "take 5 name = ''FLAGS''" | "take 5 name \<noteq> ''FLAGS''" "take 6 name = ''+FLAGS''"
    | "take 5 name \<noteq> ''FLAGS''" "take 6 name \<noteq> ''+FLAGS''" "take 6 name = ''-FLAGS''"
    | "take 5 name \<noteq> ''FLAGS''" "take 6 name \<noteq> ''+FLAGS''" "take 6 name \<noteq> ''-FLAGS''" by blast
  then show ?thesis
  proof cases
    case 1
    then show ?thesis
      by (simp add: change_flags_def replace_flags_def quiet_simps [OF assms(1)] Let_def store_spec_def flags_replaced fun_upd_def cong: if_cong)
  next
    case 2
    obtain p' b' where "each_flag add_flag flags s eid p b = (hrSuccess, p', b')"
        "flags_of p' = foldl (\<lambda>F f. add_spec f F) (flags_of p) flags" "messages b' = (messages b)(eid \<mapsto> p')"
      using each_flag_effect [OF add_flag_changes [OF assms(1)] assms] by blast
    then show ?thesis using 2 by (auto simp: change_flags_def store_spec_def)
  next
    case 3
    obtain p' b' where "each_flag remove_flag flags s eid p b = (hrSuccess, p', b')"
        "flags_of p' = foldl (\<lambda>F f. remove_spec f F) (flags_of p) flags" "messages b' = (messages b)(eid \<mapsto> p')"
      using each_flag_effect [OF remove_flag_changes [OF assms(1)] assms] by blast
    then show ?thesis using 3 by (auto simp: change_flags_def store_spec_def)
  next
    case 4
    then show ?thesis using assms(2) by (auto simp: change_flags_def store_spec_def fun_eq_iff)
  qed
qed

section \<open>STORE on several messages\<close>

text \<open>What HrGetMessageFlags appends for a message.\<close>

definition told :: "mailbox \<Rightarrow> SMail \<Rightarrow> string" where
  "told b m = ''FLAGS ('' @ PropsToFlags (flagprops.truncate (the (messages b (sEntryID m)))) (bRecent m) False @ '')''"

definition stored :: "string \<Rightarrow> string \<Rightarrow> string list \<Rightarrow> mailbox \<Rightarrow> mailbox \<Rightarrow> bytes \<Rightarrow> bool" where
  "stored name v flags b b' eid \<longleftrightarrow>
     (\<exists>p p'. messages b eid = Some p \<and> messages b' eid = Some p' \<and> flags_of p' = store_spec name v flags (flags_of p))"

lemma quiet_flags:
  "quiet s \<Longrightarrow> HrGetMessageFlags recent str s eid p b =
     ((hrSuccess, str @ ''FLAGS ('' @ PropsToFlags (flagprops.truncate p) recent False @ '')''), p, b\<lparr>calls := calls b + 1\<rparr>)"
  by (simp add: HrGetMessageFlags_def quiet_call)

lemma store_loop_effect:
  assumes "quiet s" and "\<forall>x. OpenEntry s x = hrSuccess"
  shows "\<forall>i \<in> set is. i < length L \<and> messages b (sEntryID (L ! i)) \<noteq> None \<Longrightarrow> distinct is \<Longrightarrow>
    distinct (map (\<lambda>i. sEntryID (L ! i)) is) \<Longrightarrow>
    \<exists>del b' L'. store_loop name v flags s is str del0 b L = (hrSuccess, del, b', L') \<and>
      (\<forall>i \<in> set is. stored name v flags b b' (sEntryID (L ! i))) \<and>
      (\<forall>x. x \<notin> (\<lambda>i. sEntryID (L ! i)) ` set is \<longrightarrow> messages b' x = messages b x) \<and>
      length L' = length L \<and> (\<forall>j. j \<notin> set is \<longrightarrow> L' ! j = L ! j) \<and>
      (\<forall>k < length is. L' ! (is ! k) = (L ! (is ! k))\<lparr>strFlags := str @ concat (map (\<lambda>i. told b' (L ! i)) (take (k + 1) is))\<rparr>)"
proof (induction "is" arbitrary: str del0 b L)
  case (Cons i ms)
  let ?m = "L ! i" and ?eid = "sEntryID (L ! i)"
  obtain p where p: "messages b ?eid = Some p" using Cons.prems(1) by auto
  obtain del p1 b1 where one: "change_flags name v flags s ?eid p b = ((hrSuccess, del), p1, b1)"
      "flags_of p1 = store_spec name v flags (flags_of p)" "messages b1 = (messages b)(?eid \<mapsto> p1)"
    using change_flags_effect [OF assms(1) p] by blast
  define str1 where "str1 = str @ ''FLAGS ('' @ PropsToFlags (flagprops.truncate p1) (bRecent ?m) False @ '')''"
  let ?b = "b1\<lparr>calls := calls b1 + 1\<rparr>" and ?L = "L[i := ?m\<lparr>strFlags := str1\<rparr>]"
  have i: "i \<notin> set ms" "i < length L" using Cons.prems by auto
  then have same: "sEntryID (?L ! j) = sEntryID (L ! j)" for j by (cases "j = i") auto
  have eid: "?eid \<notin> (\<lambda>j. sEntryID (L ! j)) ` set ms" using Cons.prems(3) by auto
  have "\<forall>j \<in> set ms. j < length ?L \<and> messages ?b (sEntryID (?L ! j)) \<noteq> None" using Cons.prems(1) one(3) by (auto simp: same)
  moreover have "distinct (map (\<lambda>i. sEntryID (?L ! i)) ms)" using Cons.prems(3) by (simp add: same)
  ultimately obtain del' b' L' where ih: "store_loop name v flags s ms str1 (del0 \<or> del) ?b ?L = (hrSuccess, del', b', L')"
      "\<forall>j \<in> set ms. stored name v flags ?b b' (sEntryID (L ! j))"
      "\<forall>x. x \<notin> (\<lambda>j. sEntryID (L ! j)) ` set ms \<longrightarrow> messages b' x = messages ?b x"
      "length L' = length L" "\<forall>j. j \<notin> set ms \<longrightarrow> L' ! j = ?L ! j"
      "\<forall>k < length ms. L' ! (ms ! k) = (?L ! (ms ! k))\<lparr>strFlags := str1 @ concat (map (\<lambda>i. told b' (?L ! i)) (take (k + 1) ms))\<rparr>"
    using Cons.IH [of ?L ?b str1 "del0 \<or> del"] Cons.prems(2) unfolding same by auto
  have run: "store_loop name v flags s (i # ms) str del0 b L = (hrSuccess, del', b', L')"
    using ih(1) assms(2) p one(1) by (simp add: Let_def quiet_flags [OF assms(1)] str1_def)
  have head: "messages b' ?eid = Some p1" using ih(3) eid one(3) by simp
  then have "stored name v flags b b' ?eid" using p one(2) by (simp add: stored_def)
  moreover have "stored name v flags b b' (sEntryID (L ! j))" if "j \<in> set ms" for j
  proof -
    have "sEntryID (L ! j) \<noteq> ?eid" using that eid by (metis imageI)
    then show ?thesis using ih(2) that one(3) by (auto simp: stored_def)
  qed
  ultimately have all: "\<forall>j \<in> set (i # ms). stored name v flags b b' (sEntryID (L ! j))" by simp
  have others: "\<forall>x. x \<notin> (\<lambda>i. sEntryID (L ! i)) ` set (i # ms) \<longrightarrow> messages b' x = messages b x" using ih(3) one(3) by simp
  have kept: "\<forall>j. j \<notin> set (i # ms) \<longrightarrow> L' ! j = L ! j" using ih(5) by simp
  have told_head: "told b' ?m = ''FLAGS ('' @ PropsToFlags (flagprops.truncate p1) (bRecent ?m) False @ '')''"
    using head by (simp add: told_def)
  have told_rest: "map (\<lambda>i. told b' (?L ! i)) (take k ms) = map (\<lambda>i. told b' (L ! i)) (take k ms)" for k
  proof -
    have "\<forall>x \<in> set ms. ?L ! x = L ! x" using i(1) by (metis nth_list_update_neq)
    then show ?thesis by (intro map_cong) (auto dest: in_set_takeD)
  qed
  have "L' ! ((i # ms) ! k) = (L ! ((i # ms) ! k))\<lparr>strFlags := str @ concat (map (\<lambda>i. told b' (L ! i)) (take (k + 1) (i # ms)))\<rparr>"
    if "k < length (i # ms)" for k
  proof (cases k)
    case 0
    have "L' ! i = ?m\<lparr>strFlags := str1\<rparr>" using ih(5) i by simp
    then show ?thesis using 0 by (simp add: told_head str1_def)
  next
    case (Suc k')
    then have k': "k' < length ms" "ms ! k' \<noteq> i" using that i(1) by (auto simp: in_set_conv_nth)
    then have "L' ! (ms ! k') = (L ! (ms ! k'))\<lparr>strFlags := str1 @ concat (map (\<lambda>i. told b' (?L ! i)) (take (k' + 1) ms))\<rparr>"
      using ih(6) by simp
    then show ?thesis unfolding told_rest by (simp add: Suc told_head str1_def)
  qed
  then show ?case using run all others kept ih(4) by blast
qed simp

text \<open>A session with a folder, calls that succeed, and messages at the positions.\<close>

definition can_store :: "msgenv \<Rightarrow> nat list \<Rightarrow> imap \<Rightarrow> mailbox \<Rightarrow> bool" where
  "can_store s is c b \<longleftrightarrow>
     strCurrentFolder c \<noteq> [] \<and> lpSession c \<and> quiet s \<and> (\<forall>x. OpenEntry s x = hrSuccess) \<and> distinct is \<and>
     distinct (map (\<lambda>i. sEntryID (lstFolderMailEIDs c ! i)) is) \<and>
     (\<forall>i \<in> set is. i < length (lstFolderMailEIDs c) \<and> messages b (sEntryID (lstFolderMailEIDs c ! i)) \<noteq> None)"

lemma store_effect:
  assumes "can_store s is c b" and "HrStore s is item val c b = (hr, del, c', b')"
  shows "(\<forall>i \<in> set is. stored (strToUpper item) (strip_parens (strToUpper val)) (HrSplitInput (strip_parens (strToUpper val)) []) b b'
        (sEntryID (lstFolderMailEIDs c ! i))) \<and>
    (\<forall>x. x \<notin> (\<lambda>i. sEntryID (lstFolderMailEIDs c ! i)) ` set is \<longrightarrow> messages b' x = messages b x) \<and>
    (\<forall>k < length is. strFlags (lstFolderMailEIDs c' ! (is ! k)) =
       concat (map (\<lambda>i. told b' (lstFolderMailEIDs c ! i)) (take (k + 1) is))) \<and> hr \<in> {hrSuccess, MAPI_E_NOT_ME}"
proof -
  let ?n = "strToUpper item" and ?v = "strip_parens (strToUpper val)"
  obtain del1 b1 L where loop: "store_loop ?n ?v (HrSplitInput ?v []) s is [] False b (lstFolderMailEIDs c) = (hrSuccess, del1, b1, L)"
      "\<forall>i \<in> set is. stored ?n ?v (HrSplitInput ?v []) b b1 (sEntryID (lstFolderMailEIDs c ! i))"
      "\<forall>x. x \<notin> (\<lambda>i. sEntryID (lstFolderMailEIDs c ! i)) ` set is \<longrightarrow> messages b1 x = messages b x"
      "\<forall>k < length is. L ! (is ! k) = (lstFolderMailEIDs c ! (is ! k))\<lparr>strFlags := [] @
         concat (map (\<lambda>i. told b1 (lstFolderMailEIDs c ! i)) (take (k + 1) is))\<rparr>"
    using store_loop_effect [of s "is" "lstFolderMailEIDs c" b ?n ?v "HrSplitInput ?v []" "[]" False] assms(1)
    unfolding can_store_def by blast
  have "c' = c\<lparr>lstFolderMailEIDs := L\<rparr>" "b' = b1" "hr \<in> {hrSuccess, MAPI_E_NOT_ME}"
    using assms loop(1) by (auto simp: HrStore_def can_store_def Let_def split: if_splits)
  then show ?thesis using loop(2-4) by simp
qed

text \<open>Three messages without properties, and surroundings in which no call fails once a message is open.\<close>

definition plain_message :: msgprops where
  "plain_message = \<lparr>message_flags = Some 0, flag_status = None, msg_status = None, last_verb = None, icon_index = None, verb_time = None\<rparr>"

definition store_box :: mailbox where
  "store_box = \<lparr>messages = [[1] \<mapsto> plain_message, [2] \<mapsto> plain_message, [3] \<mapsto> plain_message], calls = 0\<rparr>"

definition store_env :: "hresult \<Rightarrow> msgenv" where
  "store_env hr = \<lparr>message_call = (\<lambda>_. hrSuccess), OpenEntry = (\<lambda>_. hr), system_time = 0, imap_expunge_on_delete = ''no'',
     fetched = [], CopyMessages = hrSuccess\<rparr>"






text \<open>The text of a message's flags is empty or starts with a backslash or a dollar sign.\<close>

definition flag_text :: "string \<Rightarrow> bool" where
  "flag_text s \<longleftrightarrow> s = [] \<or> (length s \<ge> 2 \<and> hd s \<in> {CHR 0x5C, CHR ''$''})"

lemma flag_text_append: "flag_text s \<Longrightarrow> flag_text t \<Longrightarrow> flag_text (s @ t)"
  by (cases s) (auto simp: flag_text_def)

lemma flag_text_butlast: "flag_text s \<Longrightarrow> butlast s = [] \<or> hd (butlast s) \<in> {CHR 0x5C, CHR ''$''}"
  by (cases s; cases "tl s") (auto simp: flag_text_def)

lemma flag_text_words: "flag_text []" "flag_text (bs_flag w)" "flag_text ''$Forwarded ''"
  by (simp_all add: flag_text_def bs_flag_def)

lemma flags_no_F: "PropsToFlags p r d \<noteq> CHR ''F'' # t"
proof -
  have ne: "butlast s \<noteq> CHR ''F'' # t" if "flag_text s" for s
    using flag_text_butlast [OF that] by auto
  show ?thesis
    unfolding PropsToFlags_def
    by (rule ne) (intro flag_text_append; simp add: flag_text_words flag_text_append split: option.split)
qed

text \<open>
  The flags a session remembers after STORE are wrong. For the k-th message named it remembers what was
  told for the first k messages together, each with the word FLAGS in front; that is never what a later
  refresh computes from the properties of a message, so the next refresh reports the message as changed.
\<close>

lemma store_remembers_other_text:
  assumes "can_store s is c b" and "HrStore s is item val c b = (hr, del, c', b')" and "k < length is"
  shows "strFlags (lstFolderMailEIDs c' ! (is ! k)) = concat (map (\<lambda>i. told b' (lstFolderMailEIDs c ! i)) (take (k + 1) is)) \<and>
    (\<forall>p recent. strFlags (lstFolderMailEIDs c' ! (is ! k)) \<noteq> PropsToFlags p recent False)"
proof -
  have eq: "strFlags (lstFolderMailEIDs c' ! (is ! k)) = concat (map (\<lambda>i. told b' (lstFolderMailEIDs c ! i)) (take (k + 1) is))"
    using store_effect [OF assms(1,2)] assms(3) by blast
  obtain i ms where "is = i # ms" using assms(3) by (cases "is") auto
  then obtain t where "concat (map (\<lambda>i. told b' (lstFolderMailEIDs c ! i)) (take (k + 1) is)) = CHR ''F'' # t"
    by (simp add: told_def)
  then show ?thesis using eq flags_no_F by metis
qed

text \<open>Applied to adding the seen flag to two messages: the second is remembered with the flags of both.\<close>

text \<open>
  C40: STORE reports success when it failed. If the folder may be written, the set parses, changing the
  messages fails with whatever error but MAPI_E_NOT_ME, and the socket can be written, the client is
  answered OK.
\<close>

theorem store_failure_is_reported_ok:
  assumes "strCurrentFolder c \<noteq> []" and "lpSession c" and "\<not> bCurrentFolderReadOnly c"
    and "parse_set uid seqs c = (hrSuccess, is)" and "HrStore s is item val c b = (hr, del, c1, b1)" and "hr \<noteq> hrSuccess" and "hr \<noteq> MAPI_E_NOT_ME"
    and "\<forall>n. send_ok e n" and "0 < strtoui0 (imap_max_fail_commands e)"
  shows "\<exists>c2 text. HrCmdStore e s tag seqs item val uid c b = (hrSuccess, c2, b1) \<and>
    sent c2 = sent c @ fetched s @ [Tagged RESP_TAGGED_OK tag text]"
proof -
  have del: "del = None" and c1: "sent c1 = sent c" "writes_tried c1 = writes_tried c"
    using assms(5-7) by (auto simp: HrStore_def Let_def case_prod_beta split: if_splits)
  have w: "HrUntagged e r c = (hrSuccess, c\<lparr>writes_tried := writes_tried c + 1, sent := sent c @ [r]\<rparr>)" for r c
    using assms(8) by (simp add: HrUntagged_def Let_def)
  have all: "sent (snd (write_all e rs c)) = sent c @ rs" for rs c
    by (induction rs arbitrary: c) (simp_all add: w)
  let ?c = "snd (write_all e (fetched s) c1)"
  have "HrTagged e RESP_TAGGED_OK tag t ?c =
      (hrSuccess, ?c\<lparr>m_ulErrors := 0, writes_tried := writes_tried ?c + 1, sent := sent ?c @ [Tagged RESP_TAGGED_OK tag t]\<rparr>)" for t
    using assms(9) by (simp add: HrTagged_def Let_def w not_le)
  then show ?thesis
    using assms(1-7) all [of "fetched s" c1] c1 by (simp add: HrCmdStore_def Let_def del)
qed

text \<open>Applied to messages that may not be opened.\<close>

lemma store_failure_is_reported_ok_witness:
  "\<exists>c2 text. HrCmdStore (quiet_env []) (store_env MAPI_E_NO_ACCESS) ''a1'' ''1:2'' ''flags'' [] False three_mails store_box =
      (hrSuccess, c2, store_box) \<and> sent c2 = sent three_mails @ fetched (store_env MAPI_E_NO_ACCESS) @ [Tagged RESP_TAGGED_OK ''a1'' text]"
proof (rule store_failure_is_reported_ok)
  show facts: "strCurrentFolder three_mails \<noteq> []" "lpSession three_mails" "\<not> bCurrentFolderReadOnly three_mails" by code_simp+
  show "parse_set False ''1:2'' three_mails = (hrSuccess, [0, 1])" "0 < strtoui0 (imap_max_fail_commands (quiet_env []))"
    by code_simp+
  show "HrStore (store_env MAPI_E_NO_ACCESS) [0, 1] ''flags'' [] three_mails store_box = (MAPI_E_NO_ACCESS, None, three_mails, store_box)"
    using facts(1,2) by (simp add: HrStore_def Let_def store_env_def)
  show "\<forall>n. send_ok (quiet_env []) n" by (simp add: quiet_env_def)
qed simp_all

end
