(* ===== verification/ImapSearch.thy ===== *)
theory ImapSearch
  imports ImapView
begin

text \<open>
  The SEARCH command of the IMAP server (gateway/IMAP.cpp): dates, the criteria, the restriction tree they
  build (m4lcommon/ECRestriction.cpp), and the search itself.

  Search words are a vector that is read from an index on; here it is the list of the words left. A pointer
  to a node of the tree under construction is the path of child indices to it: nodes are only added behind
  others, so paths stay valid.
\<close>

section \<open>Dates\<close>

definition atoi :: "string \<Rightarrow> int" where
  "atoi t =
     (let s = dropWhile is_space (c_str t);
          neg = (case s of c # _ \<Rightarrow> c = CHR ''-'' | [] \<Rightarrow> False);
          s = (case s of c # r \<Rightarrow> if c = CHR ''-'' \<or> c = CHR ''+'' then r else s | [] \<Rightarrow> s)
      in if neg then - scan_digits 10 0 s else scan_digits 10 0 s)"

record tm =
  tm_mday :: int
  tm_mon :: nat
  tm_year :: int
  tm_hour :: int
  tm_min :: int
  tm_sec :: int

text \<open>timegm of the C library, for months in range; the other fields may be anything.\<close>

definition leap_year :: "int \<Rightarrow> bool" where
  "leap_year y = (y mod 4 = 0 \<and> (y mod 100 \<noteq> 0 \<or> y mod 400 = 0))"

definition leaps_before :: "int \<Rightarrow> int" where
  "leaps_before y = (y - 1) div 4 - (y - 1) div 100 + (y - 1) div 400"

definition timegm :: "tm \<Rightarrow> int" where
  "timegm t =
     (let y = tm_year t + 1900;
          before = [0, 31, 59, 90, 120, 151, 181, 212, 243, 273, 304, 334] ! tm_mon t + (if leap_year y \<and> tm_mon t > 1 then 1 else 0);
          days = 365 * (y - 1970) + leaps_before y - leaps_before 1970 + before + (tm_mday t - 1)
      in ((days * 24 + tm_hour t) * 60 + tm_min t) * 60 + tm_sec t)"

definition NANOSECS_BETWEEN_EPOCHS :: int where "NANOSECS_BETWEEN_EPOCHS = 116444736000000000"

definition UnixTimeToFileTime :: "int \<Rightarrow> hilo" where
  "UnixTimeToFileTime t =
     (let l = (of_int (t * 10000000 + NANOSECS_BETWEEN_EPOCHS) :: 64 word)
      in \<lparr>hilo_hi = ucast (drop_bit 32 l), hilo_lo = ucast l\<rparr>)"

text \<open>The division of C rounds towards zero.\<close>

definition FileTimeToUnixTime :: "hilo \<Rightarrow> int" where
  "FileTimeToUnixTime ft =
     (let l = sint (push_bit 32 (ucast (hilo_hi ft)) + ucast (hilo_lo ft) :: 64 word) - NANOSECS_BETWEEN_EPOCHS
      in if l < 0 then - (- l div 10000000) else l div 10000000)"

definition strMonth :: "string list" where
  "strMonth = [''Jan'', ''Feb'', ''Mar'', ''Apr'', ''May'', ''Jun'', ''Jul'', ''Aug'', ''Sep'', ''Oct'', ''Nov'', ''Dec'']"

definition CaseCompare :: "string \<Rightarrow> string \<Rightarrow> bool" where
  "CaseCompare a b = (strToUpper (c_str a) = strToUpper (c_str b))"

definition month_of :: "string \<Rightarrow> nat" where
  "month_of w = fold (\<lambda>m r. if CaseCompare (strMonth ! m) w then m else r) [0..<12] 0"

definition read_zone :: "string \<Rightarrow> tm \<Rightarrow> tm" where
  "read_zone s t =
     (let h = atoi (substr s 22 2); m = atoi (substr s 24 2) in
      if s ! 21 = CHR ''+'' then t\<lparr>tm_hour := tm_hour t - h, tm_min := tm_min t - m\<rparr>
      else if s ! 21 = CHR ''-'' then t\<lparr>tm_hour := tm_hour t + h, tm_min := tm_min t + m\<rparr>
      else t)"

definition read_time :: "string \<Rightarrow> bool \<Rightarrow> tm" where
  "read_time s bDateOnly =
     (let t = \<lparr>tm_mday = 1, tm_mon = 0, tm_year = 100, tm_hour = 0, tm_min = 0, tm_sec = 0\<rparr> in
      if length s < 2 then t else
      let s = (if s ! 1 = CHR ''-'' then CHR '' '' # s else s);
          t = t\<lparr>tm_mday := atoi (if s ! 0 = CHR '' '' then substr s 1 1 else substr s 0 2)\<rparr> in
      if length s < 6 then t else let t = t\<lparr>tm_mon := month_of (substr s 3 3)\<rparr> in
      if length s < 11 then t else let t = t\<lparr>tm_year := atoi (substr s 7 4) - 1900\<rparr> in
      if length s < 14 \<or> bDateOnly then t else let t = t\<lparr>tm_hour := atoi (substr s 12 2)\<rparr> in
      if length s < 17 then t else let t = t\<lparr>tm_min := atoi (substr s 15 2)\<rparr> in
      if length s < 20 then t else let t = t\<lparr>tm_sec := atoi (substr s 18 2)\<rparr> in
      if length s < 26 then t else read_zone s t)"

definition StringToFileTime :: "string \<Rightarrow> bool \<Rightarrow> hilo" where
  "StringToFileTime strTime bDateOnly = UnixTimeToFileTime (timegm (read_time strTime bDateOnly))"

definition AddDay :: "hilo \<Rightarrow> hilo" where
  "AddDay ft = UnixTimeToFileTime (FileTimeToUnixTime ft + 24 * 60 * 60)"

section \<open>Restriction trees under construction\<close>

text \<open>
  \<open>ECLeaf\<close> is a condition that holds its value itself, \<open>ECText\<close> one that points to the text of a search
  word, \<open>ECFreed\<close> one whose text is gone.
\<close>

datatype ecrestriction =
    ECAnd "ecrestriction list"
  | ECOr "ecrestriction list"
  | ECNot "ecrestriction option"
  | ECLeaf restriction
  | ECText restriction
  | ECFreed

text \<open>The finished restriction: a null child is followed, and the text of a condition is read when it is sent.\<close>

fun GetMAPIRestriction :: "ecrestriction \<Rightarrow> restriction option"
  and GetMAPIRestrictions :: "ecrestriction list \<Rightarrow> restriction list option" where
  "GetMAPIRestriction (ECAnd rs) = map_option RES_AND (GetMAPIRestrictions rs)"
| "GetMAPIRestriction (ECOr rs) = map_option RES_OR (GetMAPIRestrictions rs)"
| "GetMAPIRestriction (ECNot (Some r)) = map_option RES_NOT (GetMAPIRestriction r)"
| "GetMAPIRestriction (ECNot None) = None"
| "GetMAPIRestriction (ECLeaf r) = Some r"
| "GetMAPIRestriction (ECText r) = Some r"
| "GetMAPIRestriction ECFreed = None"
| "GetMAPIRestrictions [] = Some []"
| "GetMAPIRestrictions (r # rs) = (case (GetMAPIRestriction r, GetMAPIRestrictions rs) of
     (Some x, Some xs) \<Rightarrow> Some (x # xs) | _ \<Rightarrow> None)"

text \<open>\<open>operator+=\<close> through a pointer; a new child of a negation replaces the old one.\<close>

fun add_at :: "nat list \<Rightarrow> ecrestriction \<Rightarrow> ecrestriction \<Rightarrow> ecrestriction" where
  "add_at [] x (ECAnd rs) = ECAnd (rs @ [x])"
| "add_at [] x (ECOr rs) = ECOr (rs @ [x])"
| "add_at [] x (ECNot _) = ECNot (Some x)"
| "add_at (i # p) x (ECAnd rs) = ECAnd (rs[i := add_at p x (rs ! i)])"
| "add_at (i # p) x (ECOr rs) = ECOr (rs[i := add_at p x (rs ! i)])"
| "add_at (i # p) x (ECNot (Some r)) = ECNot (Some (add_at p x r))"
| "add_at p x r = r"

text \<open>The index the next child gets.\<close>

fun next_child :: "nat list \<Rightarrow> ecrestriction \<Rightarrow> nat" where
  "next_child [] (ECAnd rs) = length rs"
| "next_child [] (ECOr rs) = length rs"
| "next_child (i # p) (ECAnd rs) = next_child p (rs ! i)"
| "next_child (i # p) (ECOr rs) = next_child p (rs ! i)"
| "next_child (i # p) (ECNot (Some r)) = next_child p r"
| "next_child p r = 0"

text \<open>When the vector of words moves, the conditions that point to words lose their texts.\<close>

fun texts_move :: "ecrestriction \<Rightarrow> ecrestriction" where
  "texts_move (ECAnd rs) = ECAnd (map texts_move rs)"
| "texts_move (ECOr rs) = ECOr (map texts_move rs)"
| "texts_move (ECNot r) = ECNot (map_option texts_move r)"
| "texts_move (ECText r) = ECFreed"
| "texts_move r = r"

section \<open>Criteria\<close>

definition PR_INSTANCE_KEY :: uint32 where "PR_INSTANCE_KEY = 0x0FF60102"
definition PR_MESSAGE_FLAGS :: uint32 where "PR_MESSAGE_FLAGS = 0x0E070003"
definition PR_MESSAGE_SIZE :: uint32 where "PR_MESSAGE_SIZE = 0x0E080003"
definition PR_FLAG_STATUS :: uint32 where "PR_FLAG_STATUS = 0x10900003"
definition PR_EC_CLIENT_SUBMIT_DATE :: uint32 where "PR_EC_CLIENT_SUBMIT_DATE = 0x67860040"
definition PR_EC_MESSAGE_DELIVERY_DATE :: uint32 where "PR_EC_MESSAGE_DELIVERY_DATE = 0x67870040"
definition PR_EC_IMAP_EMAIL_SIZE :: uint32 where "PR_EC_IMAP_EMAIL_SIZE = 0x678D0003"
definition ID_SUBJECT :: uint32 where "ID_SUBJECT = 0x0037"
definition ID_SENT_REPRESENTING_NAME :: uint32 where "ID_SENT_REPRESENTING_NAME = 0x0042"
definition ID_SENT_REPRESENTING_EMAIL_ADDRESS :: uint32 where "ID_SENT_REPRESENTING_EMAIL_ADDRESS = 0x0065"
definition ID_TRANSPORT_MESSAGE_HEADERS :: uint32 where "ID_TRANSPORT_MESSAGE_HEADERS = 0x007D"
definition ID_BODY :: uint32 where "ID_BODY = 0x1000"

text \<open>
  \<open>unicode_build\<close> is the meaning of PT_TSTRING; \<open>vector_moves n k\<close> tells whether inserting k words when n are
  left moves the vector; \<open>search_rows\<close> are the UIDs HrQueryAllRows gives for a restriction; \<open>can_convert\<close> is
  the answer of iconv for a character set.
\<close>

record searchenv =
  unicode_build :: bool
  vector_moves :: "nat \<Rightarrow> nat \<Rightarrow> bool"
  search_rows :: "restriction \<Rightarrow> hresult \<times> uint32 list"
  can_convert :: "string \<Rightarrow> bool"

text \<open>What a criterion does: nothing, add a condition, or open a negation or a disjunction.\<close>

datatype search_action = Skip | Add ecrestriction | PushNot | PushOr

definition flag_condition :: "bool \<Rightarrow> uint32 \<Rightarrow> uint32 \<Rightarrow> ecrestriction" where
  "flag_condition on tag bits =
     (if on then ECAnd [ECLeaf (RES_EXIST tag), ECLeaf (RES_BITMASK False tag bits)]
      else ECOr [ECNot (Some (ECLeaf (RES_EXIST tag))), ECLeaf (RES_BITMASK True tag bits)])"

definition flag_key :: "string \<Rightarrow> (bool \<times> uint32 \<times> uint32) option" where
  "flag_key = map_of [
     (''ANSWERED'', (True, PR_MSG_STATUS, MSGSTATUS_ANSWERED)), (''UNANSWERED'', (False, PR_MSG_STATUS, MSGSTATUS_ANSWERED)),
     (''DELETED'', (True, PR_MSG_STATUS, MSGSTATUS_DELMARKED)), (''UNDELETED'', (False, PR_MSG_STATUS, MSGSTATUS_DELMARKED)),
     (''DRAFT'', (True, PR_MSG_STATUS, MSGSTATUS_DRAFT)), (''UNDRAFT'', (False, PR_MSG_STATUS, MSGSTATUS_DRAFT)),
     (''FLAGGED'', (True, PR_FLAG_STATUS, 0xFFFF)), (''UNFLAGGED'', (False, PR_FLAG_STATUS, 0xFFFF)),
     (''SEEN'', (True, PR_MESSAGE_FLAGS, MSGFLAG_READ)), (''UNSEEN'', (False, PR_MESSAGE_FLAGS, MSGFLAG_READ))]"

definition time_prop :: "uint32 \<Rightarrow> hilo \<Rightarrow> propval option" where
  "time_prop tag t = Some \<lparr>ulPropTag = tag, Value = V_hilo (Some t)\<rparr>"

text \<open>The comparisons a date criterion makes: with the date given, or with the day after it.\<close>

definition time_key :: "string \<Rightarrow> (uint32 \<times> (relop \<times> bool) list) option" where
  "time_key = map_of [
     (''BEFORE'', (PR_EC_MESSAGE_DELIVERY_DATE, [(RELOP_LT, False)])),
     (''ON'', (PR_EC_MESSAGE_DELIVERY_DATE, [(RELOP_GE, False), (RELOP_LT, True)])),
     (''SINCE'', (PR_EC_MESSAGE_DELIVERY_DATE, [(RELOP_GE, False)])),
     (''SENTBEFORE'', (PR_EC_CLIENT_SUBMIT_DATE, [(RELOP_LT, False)])),
     (''SENTON'', (PR_EC_CLIENT_SUBMIT_DATE, [(RELOP_GE, False), (RELOP_LT, True)])),
     (''SENTSINCE'', (PR_EC_CLIENT_SUBMIT_DATE, [(RELOP_GE, False)]))]"

definition time_condition :: "uint32 \<Rightarrow> (relop \<times> bool) list \<Rightarrow> hilo \<Rightarrow> ecrestriction" where
  "time_condition tag cs t =
     ECAnd (ECLeaf (RES_EXIST tag) #
            map (\<lambda>(r, next_day). ECLeaf (RES_PROPERTY r tag (time_prop tag (if next_day then AddDay t else t)))) cs)"

definition long_condition :: "relop \<Rightarrow> uint32 \<Rightarrow> uint32 \<Rightarrow> ecrestriction" where
  "long_condition r tag v = ECLeaf (RES_PROPERTY r tag (Some \<lparr>ulPropTag = tag, Value = V_ul v\<rparr>))"

definition size_condition :: "relop \<Rightarrow> uint32 \<Rightarrow> ecrestriction" where
  "size_condition r v =
     ECOr [ECAnd [ECLeaf (RES_EXIST PR_EC_IMAP_EMAIL_SIZE), long_condition r PR_EC_IMAP_EMAIL_SIZE v],
           ECAnd [ECNot (Some (ECLeaf (RES_EXIST PR_EC_IMAP_EMAIL_SIZE))), long_condition r PR_MESSAGE_SIZE v]]"

definition text_prop :: "uint32 \<Rightarrow> string \<Rightarrow> propval option" where
  "text_prop i s = Some \<lparr>ulPropTag = PROP_TAG PT_STRING8 i, Value = V_lpszA (Some (map byte_of (c_str s)))\<rparr>"

definition text_condition :: "bool \<Rightarrow> uint32 \<Rightarrow> bool \<Rightarrow> string \<Rightarrow> ecrestriction" where
  "text_condition uc i void s =
     ECText (RES_CONTENT (if void then FL_FULLSTRING else FL_SUBSTRING OR FL_IGNORECASE) (PROP_TAG (PT_TSTRING uc) i) (text_prop i s))"

definition if_exists :: "uint32 \<Rightarrow> ecrestriction \<Rightarrow> ecrestriction" where
  "if_exists tag r = ECAnd [ECLeaf (RES_EXIST tag), r]"

text \<open>The column of the headers is PR_TRANSPORT_MESSAGE_HEADERS_A in both places.\<close>

definition text_key :: "bool \<Rightarrow> string \<Rightarrow> string \<Rightarrow> ecrestriction option" where
  "text_key uc k s =
     (if k = ''BODY'' then Some (if_exists (PROP_TAG (PT_TSTRING uc) ID_BODY) (text_condition uc ID_BODY (s = []) s))
      else if k = ''FROM''
      then Some (ECOr [text_condition uc ID_SENT_REPRESENTING_NAME (s = []) s,
                       ECText (RES_CONTENT (if s = [] then FL_FULLSTRING else FL_SUBSTRING OR FL_IGNORECASE)
                                 (PROP_TAG (PT_TSTRING uc) ID_SENT_REPRESENTING_EMAIL_ADDRESS) (text_prop ID_SENT_REPRESENTING_NAME s))])
      else if k = ''SUBJECT'' then Some (if_exists (PROP_TAG (PT_TSTRING uc) ID_SUBJECT) (text_condition uc ID_SUBJECT (c_str s = []) s))
      else if k = ''TEXT''
      then Some (ECOr [if_exists (PROP_TAG (PT_TSTRING uc) ID_BODY) (text_condition uc ID_BODY (s = []) s),
                       if_exists (PROP_TAG PT_STRING8 ID_TRANSPORT_MESSAGE_HEADERS)
                         (text_condition False ID_TRANSPORT_MESSAGE_HEADERS (s = []) s)])
      else None)"

definition no_message :: ecrestriction where "no_message = ECLeaf (RES_BITMASK False PR_ENTRYID 0)"

definition uid_disjunction :: "uint32 list \<Rightarrow> uint32 list \<Rightarrow> ecrestriction" where
  "uid_disjunction uids lstMails = ECOr (map (\<lambda>i. ECLeaf (uid_condition RELOP_EQ (uids ! unat i))) lstMails)"

definition is_sequence :: "string \<Rightarrow> bool" where
  "is_sequence k = (k \<noteq> [] \<and> hd k \<in> set ''123456789*'')"

text \<open>
  One criterion: an error, or what it does and how many words it takes. Reading a word that is not there is
  undefined. The conditions of TO, CC, BCC and HEADER point to a text that ends with their block.
\<close>

definition criterion :: "bool \<Rightarrow> uint32 list \<Rightarrow> string \<Rightarrow> string list \<Rightarrow> (hresult + search_action \<times> nat) option" where
  "criterion uc uids w args =
     (let k = strToUpper w;
          with_arg = (\<lambda>f. if args = [] then Some (Inl MAPI_E_CALL_FAILED) else Some (Inr (Add (f (hd args)), 2)));
          from_set = (\<lambda>n (hr, ms). if hr \<noteq> hrSuccess then Some (Inl hr) else Some (Inr (Add (uid_disjunction uids ms), n))) in
      if is_sequence k then from_set 1 (HrParseSeqSet uids k [])
      else if k \<in> {''ALL'', ''NEW'', ''RECENT''} then Some (Inr (Skip, 1))
      else if k = ''NOT'' then Some (Inr (PushNot, 1))
      else if k = ''OR'' then Some (Inr (PushOr, 1))
      else if k = ''OLD'' then Some (Inr (Add no_message, 1))
      else if k = ''KEYWORD'' then Some (Inr (Add no_message, 2))
      else if k = ''UNKEYWORD'' then Some (Inr (Add (ECLeaf (RES_EXIST PR_ENTRYID)), 2))
      else if k = ''LARGER'' then with_arg (\<lambda>s. size_condition RELOP_GT (strtoui0 s))
      else if k = ''SMALLER'' then with_arg (\<lambda>s. size_condition RELOP_LT (strtoui0 s))
      else if k = ''UID'' then (if args = [] then None else from_set 2 (HrParseSeqUidSet uids (hd args) []))
      else if k \<in> {''TO'', ''CC'', ''BCC''} then with_arg (\<lambda>_. ECFreed)
      else if k = ''HEADER'' then (if length args < 2 then Some (Inl MAPI_E_CALL_FAILED) else Some (Inr (Add ECFreed, 3)))
      else if flag_key k \<noteq> None then (case the (flag_key k) of (on, tag, bits) \<Rightarrow> Some (Inr (Add (flag_condition on tag bits), 1)))
      else if time_key k \<noteq> None
      then (case the (time_key k) of (tag, cs) \<Rightarrow> with_arg (\<lambda>s. time_condition tag cs (StringToFileTime s False)))
      else if k = ''TEXT'' \<and> args = [] then None
      else if text_key uc k [] \<noteq> None then with_arg (\<lambda>s. the (text_key uc k s))
      else Some (Inl MAPI_E_CALL_FAILED))"

text \<open>A group in brackets is split, with all its brackets dropped, and takes the place of its word.\<close>

definition brackets :: string where "brackets = ''()[]''"

definition group_words :: "string \<Rightarrow> string list" where
  "group_words w = HrSplitInput (filter (\<lambda>c. c \<notin> set brackets) w) []"

definition is_group :: "string \<Rightarrow> bool" where "is_group w = (w \<noteq> [] \<and> hd w = CHR ''('')"

lemma split_loop_chars:
  "w \<in> set (split_loop s k b p acc) \<Longrightarrow> (\<And>v. v \<in> set acc \<Longrightarrow> set v \<subseteq> set s) \<Longrightarrow> set w \<subseteq> set s"
proof (induction s k b p acc rule: split_loop.induct)
  case (1 s k b p acc)
  have sub: "set (substr s i n) \<subseteq> set s" "set (drop i s) \<subseteq> set s" for i n
    by (auto simp: substr_def dest!: in_set_takeD in_set_dropD)
  show ?case
  proof (cases "find_first_of s split_chars p")
    case None
    then have "w \<in> set acc \<or> w = drop b s" using "1.prems"(1) by (subst (asm) split_loop.simps) (auto split: if_splits)
    then show ?thesis using "1.prems"(2) sub(2) by blast
  next
    case (Some q)
    show ?thesis
      using "1.prems" "1.IH" [OF Some] sub
      by (subst (asm) split_loop.simps) (auto simp: Some split: if_splits option.splits; blast)
  qed
qed

lemma group_words_open: "v \<in> set (group_words w) \<Longrightarrow> \<not> is_group v"
proof
  assume v: "v \<in> set (group_words w)" and g: "is_group v"
  have "set v \<subseteq> set (filter (\<lambda>c. c \<notin> set brackets) w)"
    using v by (auto simp: group_words_def HrSplitInput_def dest!: split_loop_chars)
  moreover have "CHR ''('' \<in> set v" using g hd_in_set unfolding is_group_def by metis
  ultimately show False by (auto simp: brackets_def)
qed

section \<open>The search\<close>

text \<open>
  The stack holds the pointers to nodes that wait for children, the last one first; the root is never
  taken off.
\<close>

definition pop_node :: "nat list list \<Rightarrow> nat list list" where
  "pop_node st = (if length st > 1 then tl st else st)"

definition apply_action :: "search_action \<Rightarrow> ecrestriction \<Rightarrow> nat list list \<Rightarrow> ecrestriction \<times> nat list list" where
  "apply_action a tree st =
     (let top = hd st; st = pop_node st; node = top @ [next_child top tree] in
      case a of
        Skip \<Rightarrow> (tree, st)
      | Add r \<Rightarrow> (add_at top r tree, st)
      | PushNot \<Rightarrow> (add_at top (ECNot None) tree, node # st)
      | PushOr \<Rightarrow> (add_at top (ECOr []) tree, node # node # st))"

text \<open>The words as they are once a group in front is opened, and the tree after the vector has moved.\<close>

definition open_group :: "searchenv \<Rightarrow> string list \<Rightarrow> ecrestriction \<Rightarrow> string list \<times> ecrestriction" where
  "open_group s ws tree =
     (if is_group (hd ws)
      then (group_words (hd ws) @ tl ws,
            if vector_moves s (length ws) (length (group_words (hd ws))) then texts_move tree else tree)
      else (ws, tree))"

text \<open>Every round uses up a group, or at least one word.\<close>

definition groups :: "string list \<Rightarrow> nat" where "groups ws = length (filter is_group ws)"

lemma groups_drop: "groups (drop n ws) \<le> groups ws"
  unfolding groups_def by (metis append_take_drop_id filter_append le_add2 length_append)

lemma criterion_takes: "criterion uc uids w args = Some (Inr (a, n)) \<Longrightarrow> n > 0"
  by (auto simp: criterion_def Let_def split: if_splits prod.splits)

lemma search_round:
  assumes "ws \<noteq> []" and "(x, y) = open_group s ws tree" and "x \<noteq> []" and "n > 0"
  shows "groups (drop n x) < groups ws \<or> groups (drop n x) = groups ws \<and> length (drop n x) < length ws"
proof -
  obtain w vs where ws: "ws = w # vs" using assms(1) by (cases ws) auto
  show ?thesis
  proof (cases "is_group w")
    case True
    have "groups (fst (open_group s (w # vs) tree)) = groups vs" using True group_words_open [of _ w]
      by (auto simp: open_group_def groups_def filter_empty_conv)
    then have "groups (drop n x) \<le> groups vs" using assms(2) ws groups_drop [of n x] by (metis fst_conv)
    then show ?thesis using True ws by (simp add: groups_def)
  next
    case False
    then have "x = ws" using assms(2) ws by (simp add: open_group_def)
    then show ?thesis using groups_drop [of n ws] assms(4) ws by (auto simp: le_less)
  qed
qed

function search_loop :: "searchenv \<Rightarrow> uint32 list \<Rightarrow> string list \<Rightarrow> ecrestriction \<Rightarrow> nat list list \<Rightarrow> (hresult + ecrestriction) option" where
  "search_loop s uids ws tree st =
     (if ws = [] then Some (Inr tree)
      else case open_group s ws tree of (ws, tree) \<Rightarrow>
        if ws = [] then None
        else (case criterion (unicode_build s) uids (hd ws) (tl ws) of
                None \<Rightarrow> None
              | Some (Inl hr) \<Rightarrow> Some (Inl hr)
              | Some (Inr (a, n)) \<Rightarrow>
                  (case apply_action a tree st of (tree, st) \<Rightarrow> search_loop s uids (drop n ws) tree st)))"
  by pat_completeness auto
termination
proof (relation "measures [\<lambda>(_, _, ws, _, _). groups ws, \<lambda>(_, _, ws, _, _). length ws]")
  fix s uids ws tree st x y x2 b xa ya xb yb
  assume "ws \<noteq> []" "(x, y) = open_group s ws tree" "x \<noteq> []"
    and "criterion (unicode_build s) uids (hd x) (tl x) = Some x2" "x2 = Inr b" "(xa, ya) = b"
  then show "((s, uids, drop ya x, xb, yb), s, uids, ws, tree, st)
      \<in> measures [\<lambda>(_, _, ws, _, _). groups ws, \<lambda>(_, _, ws, _, _). length ws]"
    using search_round [of ws x y s tree ya] criterion_takes [of "unicode_build s" uids "hd x" "tl x" xa ya] by auto
qed simp

declare search_loop.simps [simp del]

text \<open>Searches that need no table; \<open>None\<close> when the table is needed.\<close>

definition quick_search :: "string list \<Rightarrow> imap \<Rightarrow> (hresult \<times> nat list) option" where
  "quick_search ws c =
     (let mails = lstFolderMailEIDs c; uids = map ulUid mails; k = strToUpper (hd ws);
          those = (\<lambda>P. Some (hrSuccess, filter (\<lambda>i. P (mails ! i)) [0..<length mails])) in
      if length ws = 2 \<and> k = ''UID'' then Some (apsnd (map unat) (HrParseSeqUidSet uids (ws ! 1) []))
      else if length ws = 1 \<and> is_sequence k then Some (apsnd (map unat) (HrParseSeqSet uids (hd ws) []))
      else if length ws = 1 \<and> k = ''ALL'' then those (\<lambda>_. True)
      else if length ws = 1 \<and> k = ''RECENT'' then those bRecent
      else if length ws = 1 \<and> k = ''NEW'' then those (\<lambda>m. bRecent m \<and> \<not> contains (strFlags m) ''Seen'')
      else if length ws = 1 \<and> k = ''OLD'' then those (\<lambda>m. \<not> bRecent m)
      else None)"

text \<open>The restriction of the table: an instance key, the criteria, an entry id.\<close>

definition search_restriction :: "searchenv \<Rightarrow> uint32 list \<Rightarrow> string list \<Rightarrow> (hresult + restriction) option" where
  "search_restriction s uids ws =
     (case search_loop s uids ws (ECAnd [ECLeaf (RES_EXIST PR_INSTANCE_KEY)]) [[]] of
        None \<Rightarrow> None
      | Some (Inl hr) \<Rightarrow> Some (Inl hr)
      | Some (Inr tree) \<Rightarrow> map_option Inr (GetMAPIRestriction (add_at [] (ECLeaf (RES_EXIST PR_ENTRYID)) tree)))"

definition HrSearch :: "imapenv \<Rightarrow> searchenv \<Rightarrow> string list \<Rightarrow> imap \<Rightarrow> (hresult \<times> nat list) option" where
  "HrSearch e s ws c =
     (if strCurrentFolder c = [] \<or> \<not> lpSession c then Some (MAPI_E_CALL_FAILED, [])
      else if lstFolderMailEIDs c = [] then Some (hrSuccess, [])
      else if ws = [] then None
      else if quick_search ws c \<noteq> None then quick_search ws c
      else let hr = HrFindFolder e (strCurrentFolder c) (bCurrentFolderReadOnly c) in
      if hr \<noteq> hrSuccess then Some (hr, [])
      else if GetContentsTable e \<noteq> hrSuccess then Some (GetContentsTable e, [])
      else (case search_restriction s (map ulUid (lstFolderMailEIDs c)) ws of
              None \<Rightarrow> None
            | Some (Inl hr) \<Rightarrow> Some (hr, [])
            | Some (Inr r) \<Rightarrow>
                if CreateMAPIRestriction e \<noteq> hrSuccess then Some (CreateMAPIRestriction e, [])
                else case search_rows s r of (hr, found) \<Rightarrow>
                  if hr \<noteq> hrSuccess then Some (hr, [])
                  else Some (hrSuccess, sort (List.map_filter (index_uids 0 (lstFolderMailEIDs c) (\<lambda>_. None)) found))))"

text \<open>The command: a character set in front, the search, and the numbers or UIDs found.\<close>

definition search_result :: "bool \<Rightarrow> nat list \<Rightarrow> imap \<Rightarrow> response" where
  "search_result bUidMode found c =
     Untagged (''SEARCH'' @ concat (map (\<lambda>i. '' '' @ print_u (if bUidMode then ulUid (lstFolderMailEIDs c ! i) else of_nat i + 1)) found))"

definition HrCmdSearch :: "imapenv \<Rightarrow> searchenv \<Rightarrow> string \<Rightarrow> string list \<Rightarrow> bool \<Rightarrow> imap \<Rightarrow> (hresult \<times> imap) option" where
  "HrCmdSearch e s strTag ws bUidMode c =
     (let strMode = (if bUidMode then ''UID '' else []); cs = (ws \<noteq> [] \<and> hd ws = ''CHARSET'') in
      if strCurrentFolder c = [] \<or> \<not> lpSession c
      then Some (tagged_or e RESP_TAGGED_NO strTag (strMode @ ''SEARCH error no folder'') MAPI_E_CALL_FAILED c)
      else if ws = [] \<or> cs \<and> length ws < 2 then None
      else if cs \<and> ws ! 1 \<noteq> ''WINDOWS-1252'' \<and> \<not> can_convert s (ws ! 1)
      then Some (tagged_or e RESP_TAGGED_NO strTag (''[BADCHARSET (WINDOWS-1252)] '' @ strMode @ ''SEARCH charset not supported'')
                   MAPI_E_CALL_FAILED c)
      else (case HrSearch e s (if cs then drop 2 ws else ws) c of
              None \<Rightarrow> None
            | Some (hr, found) \<Rightarrow>
                if hr \<noteq> hrSuccess then Some (tagged_or e RESP_TAGGED_NO strTag (strMode @ ''SEARCH error'') hr c)
                else Some (case HrUntagged e (search_result bUidMode found c) c of (hr, c) \<Rightarrow>
                  if hr \<noteq> hrSuccess then (hr, c)
                  else HrTagged e RESP_TAGGED_OK strTag (strMode @ ''SEARCH completed'') c)))"

end
