(* ===== verification/ImapSearchSpec.thy ===== *)
theory ImapSearchSpec
  imports ImapSearch ImapViewSpec ImapTextSpec
begin

text \<open>
  SEARCH finds what its criteria mean: the restriction built from the words of a search, evaluated by the
  server on the rows of the folder (MatchRowRestrict), selects exactly the messages for which every
  criterion holds.
\<close>

section \<open>Points in time\<close>

text \<open>A FILETIME as a number: 100 nanoseconds from 1601 on.\<close>

definition hilo_value :: "hilo \<Rightarrow> int" where
  "hilo_value h = sint (hilo_hi h) * 2 ^ 32 + uint (hilo_lo h)"

lemma sint_halves: "sint (ucast (drop_bit 32 q) :: 32 word) * 2 ^ 32 + uint (ucast q :: 32 word) = sint q" for q :: "64 word"
proof -
  have "sint (ucast (drop_bit 32 q) :: 32 word) = drop_bit 32 (sint q)"
    by (rule bit_eqI) (auto simp: bit_simps min_def)
  moreover have "uint (ucast q :: 32 word) = take_bit 32 (sint q)"
    by (rule bit_eqI) (auto simp: bit_simps min_def)
  ultimately show ?thesis by (simp only: drop_bit_eq_div take_bit_eq_mod div_mult_mod_eq)
qed

lemma join_halves: "push_bit 32 (ucast (ucast (drop_bit 32 q) :: 32 word)) + ucast (ucast q :: 32 word) = q" for q :: "64 word"
proof -
  have "push_bit 32 (ucast (ucast (drop_bit 32 q) :: 32 word)) AND ucast (ucast q :: 32 word) = (0 :: 64 word)"
    by (rule bit_word_eqI) (auto simp: bit_simps)
  moreover have "push_bit 32 (ucast (ucast (drop_bit 32 q) :: 32 word)) OR ucast (ucast q :: 32 word) = q"
    by (rule bit_word_eqI) (auto simp: bit_simps)
  ultimately show ?thesis by (simp add: disjunctive_add_eq_or)
qed

text \<open>The seconds that a number of 64 bits can count in steps of 100 nanoseconds.\<close>

definition small_time :: "int \<Rightarrow> bool" where
  "small_time t \<longleftrightarrow> \<bar>t\<bar> < 400000000000"

lemma sint_of_int_small: "\<bar>x\<bar> < 2 ^ 63 \<Longrightarrow> sint (of_int x :: 64 word) = x"
  unfolding sint_uint unsigned_of_int
  by (simp add: signed_take_bit_take_bit, rule signed_take_bit_int_eq_self) auto

lemma small_units: "small_time t \<Longrightarrow> sint (of_int (t * 10000000 + NANOSECS_BETWEEN_EPOCHS) :: 64 word) = t * 10000000 + NANOSECS_BETWEEN_EPOCHS"
  by (rule sint_of_int_small) (simp add: small_time_def NANOSECS_BETWEEN_EPOCHS_def)

lemma file_time_value: "small_time t \<Longrightarrow> hilo_value (UnixTimeToFileTime t) = t * 10000000 + NANOSECS_BETWEEN_EPOCHS"
  by (simp only: UnixTimeToFileTime_def Let_def hilo_value_def hilo.simps small_units sint_halves)

lemma file_time_back: "small_time t \<Longrightarrow> FileTimeToUnixTime (UnixTimeToFileTime t) = t"
  by (simp only: FileTimeToUnixTime_def UnixTimeToFileTime_def Let_def hilo.simps join_halves small_units) (simp add: minus_mult_left del: mult_minus_left)

lemma AddDay_value:
  assumes "small_time t" and "small_time (t + 86400)"
  shows "hilo_value (AddDay (UnixTimeToFileTime t)) = hilo_value (UnixTimeToFileTime t) + 864000000000"
  using assms by (simp add: AddDay_def file_time_back file_time_value)

lemma scan_digits_bounds: "0 \<le> acc \<Longrightarrow> 0 \<le> scan_digits 10 acc s \<and> scan_digits 10 acc s < (acc + 1) * 10 ^ length s"
proof (induction s arbitrary: acc)
  case (Cons c s)
  show ?case
  proof (cases "\<exists>d. digit_value c = Some d \<and> d < 10")
    case True
    then obtain d where d: "digit_value c = Some d" "d < 10" by blast
    have "0 \<le> d" using d(1) by (auto simp: digit_value_def is_digit_def is_lower_def is_upper_def word_le_def split: if_splits)
    have "(acc * 10 + d + 1) * 10 ^ length s \<le> (acc + 1) * 10 * 10 ^ length s" using d(2) by (intro mult_right_mono) auto
    then show ?thesis using Cons.IH [of "acc * 10 + d"] Cons.prems \<open>0 \<le> d\<close> d by (simp add: mult.assoc, linarith)
  next
    case False
    have "(acc + 1) * 1 \<le> (acc + 1) * 10 ^ length (c # s)" using Cons.prems one_le_power [of "10 :: int" "length (c # s)"] by (intro mult_left_mono) simp_all
    then have "acc < (acc + 1) * 10 ^ length (c # s)" by simp
    then show ?thesis using False Cons.prems by (auto simp del: power_Suc split: option.splits)
  qed
qed simp

lemma atoi_bounds: "length s \<le> n \<Longrightarrow> \<bar>atoi s\<bar> < 10 ^ n"
proof -
  assume n: "length s \<le> n"
  have "\<bar>scan_digits 10 0 t\<bar> < 10 ^ n" if "length t \<le> n" for t
    using scan_digits_bounds [of 0 t] order_less_le_trans [OF _ power_increasing [OF that, of "10 :: int"]] by simp
  moreover have "length (dropWhile is_space (c_str s)) \<le> n"
    using n length_dropWhile_le [of is_space "c_str s"] length_takeWhile_le [of _ s] unfolding c_str_def by (meson le_trans)
  moreover obtain t where "dropWhile is_space (c_str s) = t" by blast
  ultimately show ?thesis unfolding atoi_def by (cases t) (simp_all del: scan_digits.simps dropWhile_eq_Nil_conv)
qed

lemma month_of_bound: "month_of w < 12"
proof -
  have "fold (\<lambda>m r. if CaseCompare (strMonth ! m) w then m else r) ms r < 12" if "set ms \<subseteq> {..<12}" "r < 12" for ms r
    using that by (induction ms arbitrary: r) auto
  from this [of "[0..<12]" 0] show ?thesis unfolding month_of_def by (simp add: atLeast0LessThan del: upt_rec_numeral)
qed

text \<open>The fields of a date that was read: four digits of a year, two of everything else, and a zone.\<close>

definition read_fields :: "tm \<Rightarrow> bool" where
  "read_fields t \<longleftrightarrow> \<bar>tm_mday t\<bar> < 100 \<and> tm_mon t < 12 \<and> \<bar>tm_year t\<bar> < 12000 \<and> \<bar>tm_hour t\<bar> < 200 \<and> \<bar>tm_min t\<bar> < 200 \<and> \<bar>tm_sec t\<bar> < 100"

lemma read_time_fields: "read_fields (read_time s b)"
proof -
  have n: "length (substr s i n) \<le> n" for s :: string and i n by (simp add: substr_def)
  have a1: "\<bar>atoi (substr s i (Suc 0))\<bar> < 100" and a2: "\<bar>atoi (substr s i 2)\<bar> < 100" and a4: "\<bar>atoi (substr s i 4)\<bar> < 10000" for s i
    using atoi_bounds [OF n, of s i 1] atoi_bounds [OF n, of s i 2] atoi_bounds [OF n, of s i 4] by simp_all
  have y: "\<bar>atoi (substr s i 4) - 1900\<bar> < 12000" for s i using a4 [of s i] by linarith
  have r: "\<bar>d\<bar> < 100 \<Longrightarrow> m < 12 \<Longrightarrow> \<bar>y\<bar> < 12000 \<Longrightarrow> \<bar>h\<bar> < 100 \<Longrightarrow> \<bar>i\<bar> < 100 \<Longrightarrow> \<bar>c\<bar> < 100 \<Longrightarrow>
      read_fields \<lparr>tm_mday = d, tm_mon = m, tm_year = y, tm_hour = h, tm_min = i, tm_sec = c\<rparr> \<and>
      read_fields (read_zone u \<lparr>tm_mday = d, tm_mon = m, tm_year = y, tm_hour = h, tm_min = i, tm_sec = c\<rparr>)" for d m y h i c u
    using a2 [of u 22] a2 [of u 24] by (auto simp: read_zone_def read_fields_def Let_def abs_less_iff)
  show ?thesis by (simp add: read_time_def Let_def r a1 a2 y month_of_bound)
qed

lemma timegm_small:
  assumes "read_fields t"
  shows "small_time (timegm t)" and "small_time (timegm t + 86400)"
proof -
  let ?y = "tm_year t + 1900"
  define before where "before = [0, 31, 59, 90, 120, 151, 181, 212, 243, 273, 304, 334] ! tm_mon t + (if leap_year ?y \<and> tm_mon t > 1 then 1 else 0 :: int)"
  define leaps where "leaps = leaps_before ?y - leaps_before 1970"
  have "tm_mon t < 12" using assms by (simp add: read_fields_def)
  then have b: "0 \<le> before" "before \<le> 335" unfolding before_def by (auto simp: less_Suc_eq numeral_eq_Suc)
  have l: "\<bar>leaps\<bar> < 9000"
    using assms unfolding leaps_def leaps_before_def read_fields_def abs_less_iff by (auto; linarith)
  have "timegm t = 31536000 * tm_year t + 86400 * leaps + 86400 * before + 86400 * tm_mday t + 3600 * tm_hour t + 60 * tm_min t + tm_sec t - 2207606400"
    by (simp add: timegm_def Let_def before_def leaps_def algebra_simps)
  moreover have "\<bar>tm_mday t\<bar> < 100" "\<bar>tm_year t\<bar> < 12000" "\<bar>tm_hour t\<bar> < 200" "\<bar>tm_min t\<bar> < 200" "\<bar>tm_sec t\<bar> < 100"
    using assms by (simp_all add: read_fields_def)
  ultimately have "\<bar>timegm t\<bar> < 390000000000" using b l unfolding abs_less_iff by linarith
  then show "small_time (timegm t)" "small_time (timegm t + 86400)" unfolding small_time_def by linarith+
qed

text \<open>The day after a date that was read is 24 hours later.\<close>

lemma next_day_value: "hilo_value (AddDay (StringToFileTime d b)) = hilo_value (StringToFileTime d b) + 864000000000"
  unfolding StringToFileTime_def by (rule AddDay_value) (rule timegm_small [OF read_time_fields])+

lemma a_date_as_number:
  "hilo_value (StringToFileTime ''01-Feb-1994'' False) = 760060800 * 10000000 + 116444736000000000"
  by code_simp

section \<open>Search criteria and their meaning\<close>

text \<open>
  The criteria that compare flags, dates, sizes, numbers and UIDs, with negation and disjunction, and the
  words a client writes for them.
\<close>

datatype skey =
    KSet string
  | KUid string
  | KFlag string
  | KTime string string
  | KLarger string
  | KSmaller string
  | KNot skey
  | KOr skey skey

fun words_of :: "skey \<Rightarrow> string list" where
  "words_of (KSet s) = [s]"
| "words_of (KUid s) = [''UID'', s]"
| "words_of (KFlag w) = [w]"
| "words_of (KTime w d) = [w, d]"
| "words_of (KLarger s) = [''LARGER'', s]"
| "words_of (KSmaller s) = [''SMALLER'', s]"
| "words_of (KNot k) = ''NOT'' # words_of k"
| "words_of (KOr a b) = ''OR'' # words_of a @ words_of b"

definition flag_words :: "string set" where
  "flag_words = {''ANSWERED'', ''UNANSWERED'', ''DELETED'', ''UNDELETED'', ''DRAFT'', ''UNDRAFT'', ''FLAGGED'', ''UNFLAGGED'', ''SEEN'', ''UNSEEN''}"

definition date_words :: "string set" where
  "date_words = {''BEFORE'', ''ON'', ''SINCE'', ''SENTBEFORE'', ''SENTON'', ''SENTSINCE''}"

text \<open>The words are in any case; the numbers of a set must exist.\<close>

fun proper :: "uint32 list \<Rightarrow> skey \<Rightarrow> bool" where
  "proper uids (KSet s) \<longleftrightarrow> is_sequence s \<and> strToUpper s = s \<and> (\<forall>w \<in> set (tokenize (strToUpper s) CHR '','' False). part_ok uids w)"
| "proper uids (KUid s) \<longleftrightarrow> True"
| "proper uids (KFlag w) \<longleftrightarrow> strToUpper w \<in> flag_words"
| "proper uids (KTime w d) \<longleftrightarrow> strToUpper w \<in> date_words"
| "proper uids (KLarger s) \<longleftrightarrow> True"
| "proper uids (KSmaller s) \<longleftrightarrow> True"
| "proper uids (KNot k) \<longleftrightarrow> proper uids k"
| "proper uids (KOr a b) \<longleftrightarrow> proper uids a \<and> proper uids b"

definition ul_of :: "row \<Rightarrow> uint32 \<Rightarrow> uint32 option" where
  "ul_of row tag = (case FindProp row tag of None \<Rightarrow> None | Some i \<Rightarrow> get_ul (Value (row ! i)))"

definition time_of :: "row \<Rightarrow> uint32 \<Rightarrow> hilo option" where
  "time_of row tag = (case FindProp row tag of None \<Rightarrow> None | Some i \<Rightarrow> get_hilo (Value (row ! i)))"

definition size_of_row :: "row \<Rightarrow> uint32 option" where
  "size_of_row row = (case ul_of row PR_EC_IMAP_EMAIL_SIZE of None \<Rightarrow> ul_of row PR_MESSAGE_SIZE | Some v \<Rightarrow> Some v)"

text \<open>
  The flags of a message in its row: read is bit 0 of the message flags; the message status has bit 3 for
  deleted, bit 16 for answered and bit 17 for draft; the flag status is the colour of the flag, 0 for none.
  A number that is not there has no bit set. The words with UN ask for the opposite.
\<close>

definition number_has :: "row \<Rightarrow> uint32 \<Rightarrow> nat \<Rightarrow> bool" where
  "number_has row tag n = (case ul_of row tag of None \<Rightarrow> False | Some v \<Rightarrow> bit v n)"

definition shows_flag :: "row \<Rightarrow> string \<Rightarrow> bool" where
  "shows_flag row w =
     (if w = ''SEEN'' then number_has row PR_MESSAGE_FLAGS 0
      else if w = ''DELETED'' then number_has row PR_MSG_STATUS 3
      else if w = ''ANSWERED'' then number_has row PR_MSG_STATUS 16
      else if w = ''DRAFT'' then number_has row PR_MSG_STATUS 17
      else w = ''FLAGGED'' \<and> (case ul_of row PR_FLAG_STATUS of None \<Rightarrow> False | Some v \<Rightarrow> unat v mod 65536 \<noteq> 0))"

definition flag_holds :: "row \<Rightarrow> string \<Rightarrow> bool" where
  "flag_holds row w = (if take 2 w = ''UN'' then \<not> shows_flag row (drop 2 w) else shows_flag row w)"

text \<open>
  The dates: that of delivery, or that of sending for the words with SENT, against a day that begins at
  \<open>d\<close>; a message without the date is in no period.
\<close>

definition day_units :: int where "day_units = 24 * 60 * 60 * 10000000"

definition in_period :: "string \<Rightarrow> int \<Rightarrow> int \<Rightarrow> bool" where
  "in_period w d t = (if w = ''BEFORE'' then t < d else if w = ''SINCE'' then d \<le> t else d \<le> t \<and> t < d + day_units)"

definition date_holds :: "row \<Rightarrow> string \<Rightarrow> int \<Rightarrow> bool" where
  "date_holds row w d =
     (let sent = take 4 w = ''SENT'' in
      case time_of row (if sent then PR_EC_CLIENT_SUBMIT_DATE else PR_EC_MESSAGE_DELIVERY_DATE) of
        None \<Rightarrow> False
      | Some t \<Rightarrow> in_period (if sent then drop 4 w else w) d (hilo_value t))"

text \<open>The size is that of the mail, or of the message when the mail was never stored.\<close>

fun means :: "uint32 list \<Rightarrow> row \<Rightarrow> skey \<Rightarrow> bool" where
  "means uids row (KSet s) \<longleftrightarrow>
     (\<exists>i < length uids. ul_of row PR_EC_IMAP_ID = Some (uids ! i) \<and>
        (\<exists>w \<in> set (tokenize (strToUpper s) CHR '','' False). in_part uids w (i + 1)))"
| "means uids row (KUid s) \<longleftrightarrow>
     (\<exists>i < length uids. ul_of row PR_EC_IMAP_ID = Some (uids ! i) \<and>
        (\<exists>w \<in> set (tokenize s CHR '','' False). uid_in_part uids w (uids ! i)))"
| "means uids row (KFlag w) \<longleftrightarrow> flag_holds row (strToUpper w)"
| "means uids row (KTime w d) \<longleftrightarrow> date_holds row (strToUpper w) (hilo_value (StringToFileTime d False))"
| "means uids row (KLarger s) \<longleftrightarrow> (case size_of_row row of None \<Rightarrow> False | Some v \<Rightarrow> v > strtoui0 s)"
| "means uids row (KSmaller s) \<longleftrightarrow> (case size_of_row row of None \<Rightarrow> False | Some v \<Rightarrow> v < strtoui0 s)"
| "means uids row (KNot k) \<longleftrightarrow> \<not> means uids row k"
| "means uids row (KOr a b) \<longleftrightarrow> means uids row a \<or> means uids row b"

text \<open>What the tables of the code make of the words.\<close>

lemma has_mask: "has_bits (Some v) (2 ^ n) \<longleftrightarrow> bit v n" if "n < 32" for v :: uint32
  using that by (simp add: has_bits_def and_exp_eq_0_iff_not_bit)

lemma number_mask: "n < 32 \<Longrightarrow> has_bits (ul_of row tag) (2 ^ n) \<longleftrightarrow> number_has row tag n"
  by (cases "ul_of row tag") (simp_all add: number_has_def has_mask, simp add: has_bits_def)

lemma flag_status_mask:
  "has_bits (ul_of row tag) 0xFFFF \<longleftrightarrow> (case ul_of row tag of None \<Rightarrow> False | Some v \<Rightarrow> unat v mod 65536 \<noteq> 0)"
proof -
  have "unat (take_bit 16 v) = unat v mod 65536" for v :: uint32 by (simp only: unsigned_take_bit_eq) (simp add: take_bit_eq_mod)
  moreover have "take_bit 16 v = v AND 0xFFFF" for v :: uint32 by (simp only: take_bit_eq_mask mask_eq_exp_minus_1) simp
  ultimately have "v AND 0xFFFF = 0 \<longleftrightarrow> unat v mod 65536 = 0" for v :: uint32 by (metis unat_eq_zero)
  then show ?thesis by (auto simp: has_bits_def split: option.split)
qed

lemma flag_masks:
  "MSGFLAG_READ = 2 ^ 0" "MSGSTATUS_DELMARKED = 2 ^ 3" "MSGSTATUS_ANSWERED = 2 ^ 16" "MSGSTATUS_DRAFT = 2 ^ 17"
  by code_simp+

lemma flag_key_meaning:
  assumes "w \<in> flag_words"
  obtains on tag bits where "flag_key w = Some (on, tag, bits)" and "tag \<in> {PR_MSG_STATUS, PR_FLAG_STATUS, PR_MESSAGE_FLAGS}"
    and "\<And>row. has_bits (ul_of row tag) bits = on \<longleftrightarrow> flag_holds row w"
proof -
  note masks = number_mask [of 0] number_mask [of 3] number_mask [of 16] number_mask [of 17]
  have "\<exists>on tag bits. flag_key w = Some (on, tag, bits) \<and> tag \<in> {PR_MSG_STATUS, PR_FLAG_STATUS, PR_MESSAGE_FLAGS} \<and>
      (\<forall>row. has_bits (ul_of row tag) bits = on \<longleftrightarrow> flag_holds row w)"
    using assms unfolding flag_words_def
    by (elim insertE emptyE) (simp_all only: flag_key_def flag_masks masks, simp_all add: masks [simplified] flag_holds_def shows_flag_def flag_status_mask, blast+)
  then show thesis using that by blast
qed

lemma time_key_meaning:
  assumes "w \<in> date_words"
  obtains tag cs where "time_key w = Some (tag, cs)"
    and "\<And>row d. date_holds row w (hilo_value (StringToFileTime d False)) \<longleftrightarrow>
      (case time_of row tag of None \<Rightarrow> False | Some t \<Rightarrow> \<forall>(r, next_day) \<in> set cs.
         match r (twcmp (hilo_value t) (hilo_value (if next_day then AddDay (StringToFileTime d False) else StringToFileTime d False))))"
proof -
  have m: "match RELOP_LT (twcmp x y) \<longleftrightarrow> x < y" "match RELOP_GE (twcmp x y) \<longleftrightarrow> y \<le> x" for x y :: int by (auto simp: twcmp_def)
  show thesis
    using assms unfolding date_words_def
    by (elim insertE emptyE; intro that; simp add: time_key_def; simp add: date_holds_def in_period_def day_units_def m next_day_value
        del: match.simps split: option.split)
qed

section \<open>The tree a search builds\<close>

fun tree_of :: "uint32 list \<Rightarrow> skey \<Rightarrow> ecrestriction" where
  "tree_of uids (KSet s) = uid_disjunction uids (snd (HrParseSeqSet uids (strToUpper s) []))"
| "tree_of uids (KUid s) = uid_disjunction uids (snd (HrParseSeqUidSet uids s []))"
| "tree_of uids (KFlag w) = (case the (flag_key (strToUpper w)) of (on, tag, bits) \<Rightarrow> flag_condition on tag bits)"
| "tree_of uids (KTime w d) = (case the (time_key (strToUpper w)) of (tag, cs) \<Rightarrow> time_condition tag cs (StringToFileTime d False))"
| "tree_of uids (KLarger s) = size_condition RELOP_GT (strtoui0 s)"
| "tree_of uids (KSmaller s) = size_condition RELOP_LT (strtoui0 s)"
| "tree_of uids (KNot k) = ECNot (Some (tree_of uids k))"
| "tree_of uids (KOr a b) = ECOr [tree_of uids a, tree_of uids b]"

text \<open>The nodes that can take children.\<close>

fun takes_child :: "ecrestriction \<Rightarrow> bool" where
  "takes_child (ECAnd _) = True"
| "takes_child (ECOr _) = True"
| "takes_child (ECNot _) = True"
| "takes_child _ = False"

fun node_at :: "nat list \<Rightarrow> ecrestriction \<Rightarrow> bool" where
  "node_at [] t = takes_child t"
| "node_at (i # p) (ECAnd rs) = (i < length rs \<and> node_at p (rs ! i))"
| "node_at (i # p) (ECOr rs) = (i < length rs \<and> node_at p (rs ! i))"
| "node_at (i # p) (ECNot (Some r)) = (i = 0 \<and> node_at p r)"
| "node_at p t = False"

lemma node_below: "node_at p t \<Longrightarrow> takes_child r \<Longrightarrow> node_at (p @ [next_child p t]) (add_at p r t)"
  by (induction p t rule: node_at.induct) (auto elim: takes_child.elims)

lemma add_below:
  "node_at p t \<Longrightarrow> add_at (p @ [next_child p t]) x (add_at p r t) = add_at p (add_at [] x r) t"
  by (induction p t rule: node_at.induct) (auto elim!: takes_child.elims)

lemma node_stays: "node_at p t \<Longrightarrow> takes_child r \<Longrightarrow> node_at p (add_at p r t)"
  by (induction p t rule: node_at.induct) (auto elim!: takes_child.elims)

text \<open>The criteria are recognised by their first word, which opens no group.\<close>

lemma to_upper_bracket: "to_upper c = CHR ''('' \<longleftrightarrow> c = CHR ''(''"
proof (cases "is_lower c")
  case True
  then have "byte_of c - 32 \<noteq> byte_of CHR ''(''"
  proof -
    have "97 \<le> byte_of c" using True by (simp add: is_lower_def)
    moreover have "byte_of CHR ''('' + 32 < 97" by code_simp
    ultimately show ?thesis by (metis diff_add_cancel not_le)
  qed
  moreover have "\<not> is_lower CHR ''(''" by code_simp
  then have "c \<noteq> CHR ''(''" using True by blast
  ultimately show ?thesis using True by (simp add: to_upper_def chr_of_char)
qed (simp add: to_upper_def)

lemma known_key:
  assumes "k \<in> flag_words \<or> k \<in> date_words \<or> is_sequence k"
  shows "k \<noteq> []" and "hd k \<noteq> CHR ''(''"
  using assms by (auto simp: flag_words_def date_words_def is_sequence_def)

lemma known_key_plain:
  assumes "strToUpper w \<in> flag_words \<or> strToUpper w \<in> date_words \<or> is_sequence (strToUpper w)"
  shows "\<not> is_group w"
  using known_key [OF assms] by (cases w) (auto simp: is_group_def strToUpper_def to_upper_bracket)

lemma flag_criterion:
  "flag_key (strToUpper w) = Some (on, tag, bits) \<Longrightarrow> criterion uc uids w args = Some (Inr (Add (flag_condition on tag bits), 1))"
  by (auto simp: criterion_def Let_def flag_key_def is_sequence_def split: if_splits)

lemma time_criterion:
  "time_key (strToUpper w) = Some (tag, cs) \<Longrightarrow>
   criterion uc uids w (d # args) = Some (Inr (Add (time_condition tag cs (StringToFileTime d False)), 2))"
  by (auto simp: criterion_def Let_def flag_key_def time_key_def is_sequence_def split: if_splits)

lemma upper_words:
  "strToUpper ''NOT'' = ''NOT''" "strToUpper ''OR'' = ''OR''" "strToUpper ''LARGER'' = ''LARGER''"
  "strToUpper ''SMALLER'' = ''SMALLER''" "strToUpper ''UID'' = ''UID''"
  by code_simp+

lemma word_criterion:
  "criterion uc uids ''NOT'' args = Some (Inr (PushNot, 1))"
  "criterion uc uids ''OR'' args = Some (Inr (PushOr, 1))"
  "criterion uc uids ''LARGER'' (s # args) = Some (Inr (Add (size_condition RELOP_GT (strtoui0 s)), 2))"
  "criterion uc uids ''SMALLER'' (s # args) = Some (Inr (Add (size_condition RELOP_LT (strtoui0 s)), 2))"
  "criterion uc uids ''UID'' (s # args) = Some (Inr (Add (uid_disjunction uids (snd (HrParseSeqUidSet uids s []))), 2))"
  by (simp_all add: criterion_def upper_words is_sequence_def HrParseSeqUidSet_def)

lemma set_criterion:
  assumes "is_sequence (strToUpper w)" and "fst (HrParseSeqSet uids (strToUpper w) []) = hrSuccess"
  shows "criterion uc uids w args = Some (Inr (Add (uid_disjunction uids (snd (HrParseSeqSet uids (strToUpper w) []))), 1))"
  using assms by (simp add: criterion_def case_prod_beta)

lemma set_parses:
  assumes "length uids < 2 ^ 32" and "uids \<noteq> []" and "\<forall>w \<in> set (tokenize s CHR '','' False). part_ok uids w"
  shows "HrParseSeqSet uids s [] = (hrSuccess, sorted_list_of_set {x. \<exists>w \<in> set (tokenize s CHR '','' False). in_part uids w (unat x + 1)})"
proof -
  have "(\<Union>w \<in> set (tokenize s CHR '','' False). set (part_list uids w)) =
      {x. \<exists>w \<in> set (tokenize s CHR '','' False). in_part uids w (unat x + 1)}"
    using assms(3) set_part_list by auto
  then show ?thesis using assms by (simp add: HrParseSeqSet_def seq_loop_good)
qed

lemma pop_below: "st \<noteq> [] \<Longrightarrow> pop_node (q # pop_node st) = pop_node st"
  by (cases st; cases "tl st") (auto simp: pop_node_def)

lemma loop_step:
  assumes "\<not> is_group w" and "criterion (unicode_build s) uids w args = Some (Inr (a, n))"
  shows "search_loop s uids (w # args) t st =
    (case apply_action a t st of (t, st) \<Rightarrow> search_loop s uids (drop n (w # args)) t st)"
  using assms by (subst search_loop.simps) (simp add: open_group_def split: prod.splits)

lemma loop_key:
  assumes "length uids < 2 ^ 32" and "uids \<noteq> []" and "proper uids k" and "node_at (hd st) t" and "st \<noteq> []"
  shows "search_loop s uids (words_of k @ rest) t st = search_loop s uids rest (add_at (hd st) (tree_of uids k) t) (pop_node st)"
  using assms(3-5)
proof (induction k arbitrary: t st rest)
  case (KNot k)
  let ?q = "hd st @ [next_child (hd st) t]" and ?t = "add_at (hd st) (ECNot None) t"
  have "search_loop s uids (words_of (KNot k) @ rest) t st = search_loop s uids (words_of k @ rest) ?t (?q # pop_node st)"
    by (subst words_of.simps, subst append_Cons, subst loop_step [OF _ word_criterion(1)]) (simp_all add: apply_action_def is_group_def Let_def)
  also have "\<dots> = search_loop s uids rest (add_at ?q (tree_of uids k) ?t) (pop_node (?q # pop_node st))"
    using KNot.prems KNot.IH [of "?q # pop_node st" ?t rest] node_below [of "hd st" t "ECNot None"] by simp
  finally show ?case using KNot.prems by (simp add: add_below pop_below)
next
  case (KOr a b)
  let ?q = "hd st @ [next_child (hd st) t]" and ?t = "add_at (hd st) (ECOr []) t"
  have "search_loop s uids (words_of (KOr a b) @ rest) t st =
      search_loop s uids (words_of a @ words_of b @ rest) ?t (?q # ?q # pop_node st)"
    by (subst words_of.simps, subst append_Cons, subst loop_step [OF _ word_criterion(2)]) (simp_all add: apply_action_def is_group_def Let_def)
  also have "\<dots> = search_loop s uids (words_of b @ rest) (add_at ?q (tree_of uids a) ?t) (?q # pop_node st)"
    using KOr.prems KOr.IH(1) [of "?q # ?q # pop_node st" ?t "words_of b @ rest"] node_below [of "hd st" t "ECOr []"]
    by (simp add: pop_node_def)
  also have "\<dots> = search_loop s uids rest (add_at ?q (tree_of uids b) (add_at ?q (tree_of uids a) ?t)) (pop_node (?q # pop_node st))"
    using KOr.prems KOr.IH(2) [of "?q # pop_node st" "add_at ?q (tree_of uids a) ?t" rest]
      node_below [of "hd st" t "ECOr [tree_of uids a]"] by (simp add: add_below)
  finally show ?case using KOr.prems by (simp add: add_below pop_below)
next
  case (KSet w)
  then have "fst (HrParseSeqSet uids (strToUpper w) []) = hrSuccess" using set_parses [OF assms(1,2)] by simp
  then show ?case
    using KSet loop_step [OF known_key_plain set_criterion] by (simp add: apply_action_def Let_def)
next
  case (KFlag w)
  then obtain on tag bits where f: "flag_key (strToUpper w) = Some (on, tag, bits)"
    using flag_key_meaning [of "strToUpper w"] by (metis proper.simps(3))
  show ?case using KFlag loop_step [OF known_key_plain flag_criterion [OF f]] by (simp add: apply_action_def Let_def f)
next
  case (KTime w d)
  then obtain tag cs where f: "time_key (strToUpper w) = Some (tag, cs)"
    using time_key_meaning [of "strToUpper w"] by (metis proper.simps(4))
  show ?case using KTime loop_step [OF known_key_plain time_criterion [OF f]] by (simp add: apply_action_def Let_def f)
qed (simp_all add: loop_step word_criterion is_group_def apply_action_def Let_def)

section \<open>What the server makes of it\<close>

text \<open>In a row of the server columns of numbers hold numbers and columns of times hold times.\<close>

definition typed_row :: "row \<Rightarrow> bool" where
  "typed_row row \<longleftrightarrow> (\<forall>p \<in> set row.
     (ptype (ulPropTag p) = T_LONG \<longrightarrow> get_ul (Value p) \<noteq> None) \<and>
     (ptype (ulPropTag p) = T_SYSTIME \<longrightarrow> get_hilo (Value p) \<noteq> None))"

lemma get_ul_some: "get_ul v \<noteq> None \<longleftrightarrow> (\<exists>x. v = V_ul x)"
  by (cases v) auto

lemma get_hilo_some: "get_hilo v \<noteq> None \<longleftrightarrow> (\<exists>t. v = V_hilo (Some t))"
  by (cases v) auto

text \<open>Tags that the functions on tags leave alone.\<close>

definition plain_tag :: "uint32 \<Rightarrow> bool" where
  "plain_tag tag \<longleftrightarrow> PROP_TYPE tag AND NOT MV_FLAG = PROP_TYPE tag \<and> tag AND MV_FLAG = 0 \<and> PROP_ID tag \<noteq> PR_ANR_ID \<and>
     PROP_TYPE tag \<noteq> PT_UNSPECIFIED \<and> PROP_TYPE tag \<noteq> PT_BINARY \<and> PROP_TYPE tag \<noteq> PT_STRING8 \<and>
     same_string_type True tag = tag \<and> same_string_type False tag = tag \<and>
     NormalizePropTag True tag = tag \<and> NormalizePropTag False tag = tag"

lemma plain_tags:
  "plain_tag PR_EC_IMAP_ID" "plain_tag PR_EC_IMAP_EMAIL_SIZE" "plain_tag PR_MESSAGE_SIZE"
  "plain_tag PR_EC_MESSAGE_DELIVERY_DATE" "plain_tag PR_EC_CLIENT_SUBMIT_DATE"
  by code_simp+

lemma tag_types:
  "ptype PR_EC_IMAP_ID = T_LONG" "ptype PR_EC_IMAP_EMAIL_SIZE = T_LONG" "ptype PR_MESSAGE_SIZE = T_LONG"
  "ptype PR_MSG_STATUS = T_LONG" "ptype PR_FLAG_STATUS = T_LONG" "ptype PR_MESSAGE_FLAGS = T_LONG"
  "ptype PR_EC_MESSAGE_DELIVERY_DATE = T_SYSTIME" "ptype PR_EC_CLIENT_SUBMIT_DATE = T_SYSTIME"
  "PROP_TYPE PR_MSG_STATUS = PT_LONG" "PROP_TYPE PR_FLAG_STATUS = PT_LONG" "PROP_TYPE PR_MESSAGE_FLAGS = PT_LONG"
  "PT_LONG \<noteq> PT_UNSPECIFIED"
  by code_simp+

lemma plain_tag_uc: "plain_tag tag \<Longrightarrow> same_string_type uc tag = tag \<and> NormalizePropTag uc tag = tag"
  by (cases uc) (simp_all add: plain_tag_def)

lemma ul_of_none: "FindProp row tag = None \<Longrightarrow> ul_of row tag = None"
  by (simp add: ul_of_def)

lemma typed_long:
  assumes "typed_row row" and "ptype tag = T_LONG" and "PROP_TYPE tag \<noteq> PT_UNSPECIFIED" and "FindProp row tag = Some i"
  obtains v where "Value (row ! i) = V_ul v" and "ul_of row tag = Some v"
proof -
  have "ulPropTag (row ! i) = tag" "row ! i \<in> set row" using FindProp_tag [OF assms(4,3)] by blast+
  then obtain v where "Value (row ! i) = V_ul v" using assms(1,2) unfolding typed_row_def get_ul_some by blast
  then show thesis using that assms(4) by (simp add: ul_of_def)
qed

lemma typed_time:
  assumes "typed_row row" and "ptype tag = T_SYSTIME" and "PROP_TYPE tag \<noteq> PT_UNSPECIFIED" and "FindProp row tag = Some i"
  obtains t where "Value (row ! i) = V_hilo (Some t)" and "time_of row tag = Some t"
proof -
  have "ulPropTag (row ! i) = tag" "row ! i \<in> set row" using FindProp_tag [OF assms(4,3)] by blast+
  then obtain t where "Value (row ! i) = V_hilo (Some t)" using assms(1,2) unfolding typed_row_def get_hilo_some by blast
  then show thesis using that assms(4) by (simp add: time_of_def)
qed

lemma lex_int:
  fixes a b c d :: int
  assumes "0 \<le> b" "b < 4294967296" "0 \<le> d" "d < 4294967296"
  shows "a * 4294967296 + b < c * 4294967296 + d \<longleftrightarrow> a < c \<or> a = c \<and> b < d"
    and "a * 4294967296 + b = c * 4294967296 + d \<longleftrightarrow> a = c \<and> b = d"
  using assms by (cases a c rule: linorder_cases; auto)+

lemma cmp_hilo_value: "cmp_hilo a b = twcmp (hilo_value a) (hilo_value b)"
proof -
  have lo: "0 \<le> uint (hilo_lo x)" "uint (hilo_lo x) < 4294967296" for x
    using uint_bounded [of "hilo_lo x"] by simp_all
  have hi: "hilo_hi a = hilo_hi b \<longleftrightarrow> sint (hilo_hi a) = sint (hilo_hi b)"
    by (rule iffI) (rule arg_cong, assumption, rule signed_word_eqI)
  have eq: "hilo_lo a = hilo_lo b \<longleftrightarrow> uint (hilo_lo a) = uint (hilo_lo b)" by (simp add: word_uint_eq_iff)
  have "twcmp (hilo_value a) (hilo_value b) =
      (if sint (hilo_hi a) < sint (hilo_hi b) \<or> hilo_hi a = hilo_hi b \<and> hilo_lo a < hilo_lo b then - 1
       else if hilo_hi a = hilo_hi b \<and> hilo_lo a = hilo_lo b then 0 else 1)"
    by (simp add: twcmp_def hilo_value_def hi eq word_less_def lex_int [OF lo lo])
  then show ?thesis unfolding cmp_hilo_def twcmp_def hi by auto
qed

lemma plain_tagD:
  assumes "plain_tag tag"
  shows "PROP_TYPE tag AND NOT MV_FLAG = PROP_TYPE tag" "tag AND MV_FLAG = 0" "PROP_ID tag \<noteq> PR_ANR_ID" "PROP_TYPE tag \<noteq> PT_UNSPECIFIED"
    "PROP_TYPE tag \<noteq> PT_BINARY" "PROP_TYPE tag \<noteq> PT_STRING8" "same_string_type uc tag = tag" "NormalizePropTag uc tag = tag"
  using assms plain_tag_uc [OF assms] by (simp_all add: plain_tag_def)

lemma eval_property:
  assumes "plain_tag tag" and "r \<noteq> RELOP_RE" and "r \<noteq> RELOP_NE"
  shows "MatchRowRestrict E (RES_PROPERTY r tag (Some \<lparr>ulPropTag = tag, Value = x\<rparr>)) row =
    pure_res row (case FindProp row tag of
       None \<Rightarrow> Some (Inr False)
     | Some i \<Rightarrow> (case CompareProp (unicode E) (u8 E) (row ! i) \<lparr>ulPropTag = tag, Value = x\<rparr> of
           None \<Rightarrow> None | Some (Inl _) \<Rightarrow> Some (Inr False) | Some (Inr c) \<Rightarrow> Some (Inr (match r c))))"
  using assms(2,3)
  by (cases "FindProp row tag") (simp_all add: match_property_def match_compare_def Let_def plain_tagD [OF assms(1)])

lemma compare_plain:
  assumes "plain_tag tag" and "ulPropTag p = tag" and "ulPropTag q = tag" and "PropCheck p = Some erSuccess" and "PropCheck q = Some erSuccess"
  shows "CompareProp uc U p q = compare_values U (ptype tag) False (Value p) (Value q)"
  using assms(2-5) by (simp add: CompareProp_def plain_tagD [OF assms(1)])

lemma eval_long:
  assumes "typed_row row" and "ptype tag = T_LONG" and "plain_tag tag" and "r \<noteq> RELOP_RE" and "r \<noteq> RELOP_NE"
  shows "MatchRowRestrict E (RES_PROPERTY r tag (Some \<lparr>ulPropTag = tag, Value = V_ul v\<rparr>)) row =
    Some (Inr (case ul_of row tag of None \<Rightarrow> False | Some u \<Rightarrow> match r (twcmp u v)), row)"
proof (cases "FindProp row tag")
  case None
  then show ?thesis unfolding eval_property [OF assms(3-5)] by (simp add: pure_res_def ul_of_none)
next
  case (Some i)
  obtain x where x: "Value (row ! i) = V_ul x" "ul_of row tag = Some x"
    using typed_long [OF assms(1,2) plain_tagD(4) [OF assms(3)] Some] by blast
  have t: "ulPropTag (row ! i) = tag" using FindProp_tag [OF Some plain_tagD(4) [OF assms(3)]] by blast
  have "PropCheck (row ! i) = Some erSuccess" "PropCheck \<lparr>ulPropTag = tag, Value = V_ul v\<rparr> = Some erSuccess"
    by (simp_all add: PropCheck_def assms(2) t x)
  from compare_plain [OF assms(3) t _ this] show ?thesis
    unfolding eval_property [OF assms(3-5)] Some by (simp add: assms(2) x pure_res_def compare_values_def)
qed

lemma eval_time:
  assumes "typed_row row" and "ptype tag = T_SYSTIME" and "plain_tag tag" and "r \<noteq> RELOP_RE" and "r \<noteq> RELOP_NE"
  shows "MatchRowRestrict E (RES_PROPERTY r tag (time_prop tag x)) row =
    Some (Inr (case time_of row tag of None \<Rightarrow> False | Some t \<Rightarrow> match r (twcmp (hilo_value t) (hilo_value x))), row)"
proof (cases "FindProp row tag")
  case None
  then show ?thesis unfolding time_prop_def eval_property [OF assms(3-5)] by (simp add: pure_res_def time_of_def)
next
  case (Some i)
  obtain y where y: "Value (row ! i) = V_hilo (Some y)" "time_of row tag = Some y"
    using typed_time [OF assms(1,2) plain_tagD(4) [OF assms(3)] Some] by blast
  have t: "ulPropTag (row ! i) = tag" using FindProp_tag [OF Some plain_tagD(4) [OF assms(3)]] by blast
  have "PropCheck (row ! i) = Some erSuccess" "PropCheck \<lparr>ulPropTag = tag, Value = V_hilo (Some x)\<rparr> = Some erSuccess"
    by (simp_all add: PropCheck_def assms(2) t y)
  from compare_plain [OF assms(3) t _ this] show ?thesis
    unfolding time_prop_def eval_property [OF assms(3-5)] Some
    by (simp add: assms(2) y pure_res_def compare_values_def cmp_hilo_value)
qed

lemma eval_bits:
  assumes "typed_row row" and "ptype tag = T_LONG" and "PROP_TYPE tag = PT_LONG"
  shows "MatchRowRestrict E (RES_BITMASK eqz tag bits) row =
    Some (Inr (FindProp row tag \<noteq> None \<and> has_bits (ul_of row tag) bits \<noteq> eqz), row)"
proof (cases "FindProp row tag")
  case None
  then show ?thesis using assms by (simp add: match_bitmask_def pure_res_def)
next
  case (Some i)
  have u: "PROP_TYPE tag \<noteq> PT_UNSPECIFIED" using assms(3) tag_types by simp
  obtain v where "Value (row ! i) = V_ul v" "ul_of row tag = Some v" using typed_long [OF assms(1,2) u Some] by blast
  then show ?thesis using Some assms(3) by (auto simp: match_bitmask_def pure_res_def has_bits_def word_greater_zero_iff)
qed

text \<open>What one criterion's condition gives.\<close>

definition decides :: "matchenv \<Rightarrow> ecrestriction \<Rightarrow> row \<Rightarrow> bool \<Rightarrow> bool" where
  "decides E t row b \<longleftrightarrow> (\<exists>r. GetMAPIRestriction t = Some r \<and> MatchRowRestrict E r row = Some (Inr b, row))"

lemma decides_leaf: "MatchRowRestrict E r row = Some (Inr b, row) \<Longrightarrow> decides E (ECLeaf r) row b"
  by (simp add: decides_def)

lemma decides_exist: "decides E (ECLeaf (RES_EXIST tag)) row (FindProp row tag \<noteq> None)"
  by (simp add: decides_def)

lemma decides_not: "decides E t row b \<Longrightarrow> decides E (ECNot (Some t)) row (\<not> b)"
  by (auto simp: decides_def)

lemma decides_all:
  "list_all2 (\<lambda>t b. decides E t row b) ts bs \<Longrightarrow>
   \<exists>rs. GetMAPIRestrictions ts = Some rs \<and> MatchAnd E rs row = Some (Inr (list_all id bs), row) \<and>
     MatchOr E rs row = Some (Inr (list_ex id bs), row)"
  by (induction rule: list_all2_induct) (auto simp: decides_def)

lemma decides_and: "list_all2 (\<lambda>t b. decides E t row b) ts bs \<Longrightarrow> decides E (ECAnd ts) row (list_all id bs)"
  by (drule decides_all) (auto simp: decides_def)

lemma decides_or: "list_all2 (\<lambda>t b. decides E t row b) ts bs \<Longrightarrow> decides E (ECOr ts) row (list_ex id bs)"
  by (drule decides_all) (auto simp: decides_def)

lemma decides_flag:
  assumes "typed_row row" and "ptype tag = T_LONG" and "PROP_TYPE tag = PT_LONG"
  shows "decides E (flag_condition on tag bits) row (has_bits (ul_of row tag) bits = on)"
proof -
  have b: "decides E (ECLeaf (RES_BITMASK eqz tag bits)) row (FindProp row tag \<noteq> None \<and> has_bits (ul_of row tag) bits \<noteq> eqz)" for eqz
    by (rule decides_leaf) (rule eval_bits [OF assms])
  have n: "FindProp row tag = None \<Longrightarrow> \<not> has_bits (ul_of row tag) bits" by (simp add: ul_of_none has_bits_def)
  show ?thesis
  proof (cases on)
    case True
    have "decides E (ECAnd [ECLeaf (RES_EXIST tag), ECLeaf (RES_BITMASK False tag bits)]) row
        (list_all id [FindProp row tag \<noteq> None, FindProp row tag \<noteq> None \<and> has_bits (ul_of row tag) bits \<noteq> False])"
      by (rule decides_and) (use b [of False] decides_exist [of E tag row] in simp)
    then show ?thesis using True n by (cases "FindProp row tag") (auto simp: flag_condition_def)
  next
    case False
    have "decides E (ECOr [ECNot (Some (ECLeaf (RES_EXIST tag))), ECLeaf (RES_BITMASK True tag bits)]) row
        (list_ex id [\<not> FindProp row tag \<noteq> None, FindProp row tag \<noteq> None \<and> has_bits (ul_of row tag) bits \<noteq> True])"
      by (rule decides_or) (use b [of True] decides_not [OF decides_exist [of E tag row]] in simp)
    then show ?thesis using False n by (cases "FindProp row tag") (auto simp: flag_condition_def)
  qed
qed
lemma decides_map: "(\<And>x. x \<in> set xs \<Longrightarrow> decides E (f x) row (g x)) \<Longrightarrow> list_all2 (\<lambda>t b. decides E t row b) (map f xs) (map g xs)"
  by (simp add: list_all2_map1 list_all2_map2 list_all2_same)

lemma decides_uids:
  assumes "typed_row row"
  shows "decides E (uid_disjunction uids ms) row (\<exists>x \<in> set ms. ul_of row PR_EC_IMAP_ID = Some (uids ! unat x))"
proof -
  let ?v = "\<lambda>x. (case ul_of row PR_EC_IMAP_ID of None \<Rightarrow> False | Some u \<Rightarrow> match RELOP_EQ (twcmp u (uids ! unat x)))"
  have "decides E (ECLeaf (uid_condition RELOP_EQ (uids ! unat x))) row (?v x)" for x
    unfolding uid_condition_def
    by (rule decides_leaf) (rule eval_long [OF assms tag_types(1) plain_tags(1)]; simp)
  then have "decides E (uid_disjunction uids ms) row (list_ex id (map ?v ms))"
    unfolding uid_disjunction_def by (intro decides_or decides_map) blast
  moreover have "list_ex id (map ?v ms) \<longleftrightarrow> (\<exists>x \<in> set ms. ul_of row PR_EC_IMAP_ID = Some (uids ! unat x))"
    by (cases "ul_of row PR_EC_IMAP_ID") (auto simp: list_ex_iff match_twcmp simp del: match.simps)
  ultimately show ?thesis by simp
qed

lemma twcmp_less: "match RELOP_LT (twcmp u v) \<longleftrightarrow> u < v" "match RELOP_GT (twcmp u v) \<longleftrightarrow> u > v"
  by (auto simp: twcmp_def)

lemma decides_size:
  assumes "typed_row row" and "r \<noteq> RELOP_RE" and "r \<noteq> RELOP_NE"
  shows "decides E (size_condition r v) row (case size_of_row row of None \<Rightarrow> False | Some u \<Rightarrow> match r (twcmp u v))"
proof -
  let ?x = "FindProp row PR_EC_IMAP_EMAIL_SIZE \<noteq> None"
  let ?in = "\<lambda>tag. (case ul_of row tag of None \<Rightarrow> False | Some u \<Rightarrow> match r (twcmp u v))"
  have l: "decides E (long_condition r PR_EC_IMAP_EMAIL_SIZE v) row (?in PR_EC_IMAP_EMAIL_SIZE)"
    "decides E (long_condition r PR_MESSAGE_SIZE v) row (?in PR_MESSAGE_SIZE)"
    unfolding long_condition_def
    by (rule decides_leaf, rule eval_long [OF assms(1) tag_types(2) plain_tags(2) assms(2,3)])
      (rule decides_leaf, rule eval_long [OF assms(1) tag_types(3) plain_tags(3) assms(2,3)])
  have "decides E (ECAnd [ECLeaf (RES_EXIST PR_EC_IMAP_EMAIL_SIZE), long_condition r PR_EC_IMAP_EMAIL_SIZE v]) row
      (list_all id [?x, ?in PR_EC_IMAP_EMAIL_SIZE])"
    by (rule decides_and) (simp only: list_all2_Cons list_all2_Nil decides_exist l simp_thms)
  moreover have "decides E (ECAnd [ECNot (Some (ECLeaf (RES_EXIST PR_EC_IMAP_EMAIL_SIZE))), long_condition r PR_MESSAGE_SIZE v]) row
      (list_all id [\<not> ?x, ?in PR_MESSAGE_SIZE])"
    by (rule decides_and) (use l(2) decides_not [OF decides_exist [of E PR_EC_IMAP_EMAIL_SIZE row]] in simp)
  ultimately have "decides E (size_condition r v) row
      (list_ex id [list_all id [?x, ?in PR_EC_IMAP_EMAIL_SIZE], list_all id [\<not> ?x, ?in PR_MESSAGE_SIZE]])"
    unfolding size_condition_def by (intro decides_or) (simp only: list_all2_Cons list_all2_Nil simp_thms)
  moreover have "?x \<longleftrightarrow> ul_of row PR_EC_IMAP_EMAIL_SIZE \<noteq> None"
    using typed_long [OF assms(1) tag_types(2) plain_tagD(4) [OF plain_tags(2)]] by (metis option.distinct(1) option.exhaust ul_of_none)
  then have "list_ex id [list_all id [?x, ?in PR_EC_IMAP_EMAIL_SIZE], list_all id [\<not> ?x, ?in PR_MESSAGE_SIZE]] =
      (case size_of_row row of None \<Rightarrow> False | Some u \<Rightarrow> match r (twcmp u v))"
    by (cases "ul_of row PR_EC_IMAP_EMAIL_SIZE") (simp_all add: size_of_row_def)
  ultimately show ?thesis by simp
qed

lemma time_key_cases:
  assumes "time_key k = Some (tag, cs)"
  shows "ptype tag = T_SYSTIME" and "plain_tag tag" and "(r, d) \<in> set cs \<Longrightarrow> r \<noteq> RELOP_RE \<and> r \<noteq> RELOP_NE"
  using assms by (auto simp: time_key_def tag_types plain_tags split: if_splits)

lemma decides_time:
  assumes "typed_row row" and "time_key k = Some (tag, cs)"
  shows "decides E (time_condition tag cs x) row (case time_of row tag of None \<Rightarrow> False
     | Some t \<Rightarrow> \<forall>(r, next_day) \<in> set cs. match r (twcmp (hilo_value t) (hilo_value (if next_day then AddDay x else x))))"
proof -
  let ?v = "\<lambda>(r, next_day). (case time_of row tag of None \<Rightarrow> False
     | Some t \<Rightarrow> match r (twcmp (hilo_value t) (hilo_value (if next_day then AddDay x else x))))"
  let ?l = "\<lambda>(r, next_day). ECLeaf (RES_PROPERTY r tag (time_prop tag (if next_day then AddDay x else x)))"
  note tk = time_key_cases [OF assms(2)]
  have "p \<in> set cs \<Longrightarrow> decides E (?l p) row (?v p)" for p
    using eval_time [OF assms(1) tk(1,2)] tk(3) [of "fst p" "snd p"] by (auto simp: decides_def split: prod.split)
  then have "list_all2 (\<lambda>t b. decides E t row b) (map ?l cs) (map ?v cs)" by (rule decides_map)
  then have "decides E (time_condition tag cs x) row (list_all id ((FindProp row tag \<noteq> None) # map ?v cs))"
    unfolding time_condition_def by (intro decides_and) (simp only: list_all2_Cons decides_exist simp_thms)
  moreover have "FindProp row tag \<noteq> None \<longleftrightarrow> time_of row tag \<noteq> None"
  proof (cases "FindProp row tag")
    case (Some i)
    then show ?thesis using typed_time [OF assms(1) tk(1) plain_tagD(4) [OF tk(2)] Some] by auto
  qed (simp add: time_of_def)
  then have "list_all id ((FindProp row tag \<noteq> None) # map ?v cs) = (case time_of row tag of None \<Rightarrow> False
     | Some t \<Rightarrow> \<forall>(r, next_day) \<in> set cs. match r (twcmp (hilo_value t) (hilo_value (if next_day then AddDay x else x))))"
    by (cases "time_of row tag") (auto simp: list_all_iff)
  ultimately show ?thesis by simp
qed
lemma index_word: "i < length uids \<Longrightarrow> length uids < 2 ^ 32 \<Longrightarrow> unat (of_nat i :: uint32) = i"
  by (simp add: unsigned_of_nat take_bit_nat_eq_self)

lemma decides_key:
  assumes "length uids < 2 ^ 32" and "uids \<noteq> []" and "sorted uids" and "distinct uids" and "typed_row row"
  shows "proper uids k \<Longrightarrow> decides E (tree_of uids k) row (means uids row k)"
proof (induction k)
  case (KSet s)
  let ?in = "\<lambda>n. \<exists>w \<in> set (tokenize (strToUpper s) CHR '','' False). in_part uids w n"
  have below: "?in n \<Longrightarrow> n \<le> length uids" for n
    using KSet by (auto simp: in_part_def part_ok_def intro: order_trans)
  have set: "set (snd (HrParseSeqSet uids (strToUpper s) [])) = {x. ?in (unat x + 1)}"
    using KSet set_parses [OF assms(1,2)] by simp
  have eq: "(\<exists>x \<in> set (snd (HrParseSeqSet uids (strToUpper s) [])). ul_of row PR_EC_IMAP_ID = Some (uids ! unat x)) \<longleftrightarrow> means uids row (KSet s)"
  proof
    assume "\<exists>x \<in> set (snd (HrParseSeqSet uids (strToUpper s) [])). ul_of row PR_EC_IMAP_ID = Some (uids ! unat x)"
    then obtain x where s: "x \<in> set (snd (HrParseSeqSet uids (strToUpper s) []))"
      and u: "ul_of row PR_EC_IMAP_ID = Some (uids ! unat x)" by blast
    from s have i: "?in (unat x + 1)" unfolding set mem_Collect_eq .
    have "unat x < length uids" using below [OF i] by simp
    then show "means uids row (KSet s)" using u i unfolding means.simps by blast
  next
    assume "means uids row (KSet s)"
    then obtain i where i: "i < length uids" "ul_of row PR_EC_IMAP_ID = Some (uids ! i)" "?in (i + 1)" by auto
    have "unat (of_nat i :: uint32) = i" using index_word [OF i(1) assms(1)] .
    then show "\<exists>x \<in> set (snd (HrParseSeqSet uids (strToUpper s) [])). ul_of row PR_EC_IMAP_ID = Some (uids ! unat x)"
      unfolding set using i(2,3) by (intro bexI [of _ "of_nat i"]) simp_all
  qed
  show ?case unfolding tree_of.simps eq [symmetric] by (rule decides_uids [OF assms(5)])
next
  case (KUid s)
  let ?in = "\<lambda>u. \<exists>w \<in> set (tokenize s CHR '','' False). uid_in_part uids w u"
  have set: "set (snd (HrParseSeqUidSet uids s [])) = {x. unat x < length uids \<and> ?in (uids ! unat x)}"
    using uid_list_set [OF assms(3,4,1)] by (auto simp: HrParseSeqUidSet_def seq_uid_all)
  have eq: "(\<exists>x \<in> set (snd (HrParseSeqUidSet uids s [])). ul_of row PR_EC_IMAP_ID = Some (uids ! unat x)) \<longleftrightarrow> means uids row (KUid s)"
  proof
    assume "means uids row (KUid s)"
    then obtain i where i: "i < length uids" "ul_of row PR_EC_IMAP_ID = Some (uids ! i)" "?in (uids ! i)" by auto
    have "unat (of_nat i :: uint32) = i" using index_word [OF i(1) assms(1)] .
    then show "\<exists>x \<in> set (snd (HrParseSeqUidSet uids s [])). ul_of row PR_EC_IMAP_ID = Some (uids ! unat x)"
      unfolding set using i by (intro bexI [of _ "of_nat i"]) simp_all
  qed (auto simp: set)
  show ?case unfolding tree_of.simps eq [symmetric] by (rule decides_uids [OF assms(5)])
next
  case (KFlag w)
  then have "strToUpper w \<in> flag_words" by simp
  then obtain on tag bits where f: "flag_key (strToUpper w) = Some (on, tag, bits)" "tag \<in> {PR_MSG_STATUS, PR_FLAG_STATUS, PR_MESSAGE_FLAGS}"
    "\<And>row. has_bits (ul_of row tag) bits = on \<longleftrightarrow> flag_holds row (strToUpper w)" using flag_key_meaning by blast
  then have "ptype tag = T_LONG" "PROP_TYPE tag = PT_LONG" using tag_types by auto
  then show ?case using decides_flag [OF assms(5), of tag E on bits] by (simp add: f(1,3))
next
  case (KTime w d)
  then have "strToUpper w \<in> date_words" by simp
  then obtain tag cs where f: "time_key (strToUpper w) = Some (tag, cs)"
    and m: "\<And>row d. date_holds row (strToUpper w) (hilo_value (StringToFileTime d False)) \<longleftrightarrow>
      (case time_of row tag of None \<Rightarrow> False | Some t \<Rightarrow> \<forall>(r, next_day) \<in> set cs.
         match r (twcmp (hilo_value t) (hilo_value (if next_day then AddDay (StringToFileTime d False) else StringToFileTime d False))))"
    using time_key_meaning by blast
  show ?case using decides_time [OF assms(5) f] by (simp add: f m)
next
  case (KLarger s)
  then show ?case using decides_size [OF assms(5), of RELOP_GT E "strtoui0 s", unfolded twcmp_less] by simp
next
  case (KSmaller s)
  then show ?case using decides_size [OF assms(5), of RELOP_LT E "strtoui0 s", unfolded twcmp_less] by simp
next
  case (KNot k)
  then show ?case by (simp add: decides_not)
next
  case (KOr a b)
  then have "decides E (ECOr [tree_of uids a, tree_of uids b]) row (list_ex id [means uids row a, means uids row b])"
    by (intro decides_or) simp
  then show ?case by simp
qed

text \<open>The restriction of a whole search.\<close>

lemma loop_keys:
  assumes "length uids < 2 ^ 32" and "uids \<noteq> []"
  shows "\<forall>k \<in> set ks. proper uids k \<Longrightarrow> search_loop s uids (concat (map words_of ks)) (ECAnd ts) [[]] =
    Some (Inr (ECAnd (ts @ map (tree_of uids) ks)))"
proof (induction ks arbitrary: ts)
  case Nil
  then show ?case by (simp add: search_loop.simps)
next
  case (Cons k ks)
  then show ?case
    using loop_key [OF assms, of k "[[]]" "ECAnd ts" s "concat (map words_of ks)"] by (simp add: pop_node_def)
qed

lemma restriction_means:
  assumes "length uids < 2 ^ 32" and "uids \<noteq> []" and "sorted uids" and "distinct uids" and "\<forall>k \<in> set ks. proper uids k"
  shows "\<exists>r. search_restriction s uids (concat (map words_of ks)) = Some (Inr r) \<and>
    (\<forall>row. typed_row row \<longrightarrow> FindProp row PR_INSTANCE_KEY \<noteq> None \<longrightarrow> FindProp row PR_ENTRYID \<noteq> None \<longrightarrow>
       MatchRowRestrict E r row = Some (Inr (\<forall>k \<in> set ks. means uids row k), row))"
proof -
  let ?x = "\<lambda>tag. ECLeaf (RES_EXIST tag)"
  let ?t = "ECAnd (?x PR_INSTANCE_KEY # map (tree_of uids) ks @ [?x PR_ENTRYID])"
  have all: "decides E ?t row (\<forall>k \<in> set ks. means uids row k)"
    if "typed_row row" "FindProp row PR_INSTANCE_KEY \<noteq> None" "FindProp row PR_ENTRYID \<noteq> None" for row
  proof -
    have "list_all2 (\<lambda>t b. decides E t row b) (?x PR_INSTANCE_KEY # map (tree_of uids) ks @ [?x PR_ENTRYID])
        (True # map (means uids row) ks @ [True])"
      using decides_map [of ks E "tree_of uids" row "means uids row"] decides_key [OF assms(1-4) that(1)] assms(5)
        decides_exist [of E PR_INSTANCE_KEY row] decides_exist [of E PR_ENTRYID row] that(2,3)
      by (simp add: list_all2_appendI)
    from decides_and [OF this] show ?thesis by (simp add: list_all_iff)
  qed
  have "search_restriction s uids (concat (map words_of ks)) = map_option Inr (GetMAPIRestriction ?t)"
    by (simp add: search_restriction_def loop_keys [OF assms(1,2,5)])
  moreover have "GetMAPIRestriction ?t \<noteq> None"
  proof -
    obtain row where "typed_row row" "FindProp row PR_INSTANCE_KEY \<noteq> None" "FindProp row PR_ENTRYID \<noteq> None"
    proof (rule that)
      let ?r = "[\<lparr>ulPropTag = PR_INSTANCE_KEY, Value = V_res\<rparr>, \<lparr>ulPropTag = PR_ENTRYID, Value = V_res\<rparr>]"
      show "typed_row ?r" "FindProp ?r PR_INSTANCE_KEY \<noteq> None" "FindProp ?r PR_ENTRYID \<noteq> None" by code_simp+
    qed
    then show ?thesis using all unfolding decides_def by blast
  qed
  ultimately obtain r where "search_restriction s uids (concat (map words_of ks)) = Some (Inr r)" "GetMAPIRestriction ?t = Some r"
    by auto
  then show ?thesis using all unfolding decides_def by auto
qed

section \<open>The messages found\<close>

lemma in_map_filter: "x \<in> set (List.map_filter f us) \<longleftrightarrow> (\<exists>u \<in> set us. f u = Some x)"
  by (force simp: map_filter_def)

lemma found_numbers:
  assumes "distinct (map ulUid ms)"
  shows "set (List.map_filter (index_uids 0 ms (\<lambda>_. None)) us) = {i. i < length ms \<and> ulUid (ms ! i) \<in> set us}"
proof -
  have "index_uids 0 ms (\<lambda>_. None) u = Some i \<longleftrightarrow> i < length ms \<and> ulUid (ms ! i) = u" for u i
    using index_uids_eq [OF assms] by simp
  then show ?thesis by (auto simp: in_map_filter)
qed

lemma found_distinct:
  assumes "distinct (map ulUid ms)" and "distinct us"
  shows "distinct (List.map_filter (index_uids 0 ms (\<lambda>_. None)) us)"
  using assms(2)
proof (induction us)
  case (Cons u us)
  have at: "index_uids 0 ms (\<lambda>_. None) v = Some i \<longleftrightarrow> i < length ms \<and> ulUid (ms ! i) = v" for v i
    using index_uids_eq [OF assms(1)] by simp
  then show ?case
    using Cons found_numbers [OF assms(1), of us] by (auto simp: List.map_filter_simps split: option.split)
qed (simp add: List.map_filter_simps)

lemma sorted_filter_upt: "filter P [0..<n] = sorted_list_of_set {i. i < n \<and> P i}"
proof -
  have "sorted_list_of_set (set (filter P [0..<n])) = filter P [0..<n]"
    by (rule sorted_list_of_set.idem_if_sorted_distinct) (simp_all add: sorted_wrt_filter)
  then show ?thesis by (simp add: Collect_conj_eq)
qed

text \<open>What the server answers: the UIDs of the rows its restriction accepts.\<close>

definition rows_found :: "matchenv \<Rightarrow> row list \<Rightarrow> restriction \<Rightarrow> hresult \<times> uint32 list" where
  "rows_found E folder r = (hrSuccess, List.map_filter (\<lambda>row. ul_of row PR_EC_IMAP_ID)
     (filter (\<lambda>row. fst (the (MatchRowRestrict E r row)) = Inr True) folder))"

definition folder_row :: "row \<Rightarrow> bool" where
  "folder_row row \<longleftrightarrow> typed_row row \<and> FindProp row PR_INSTANCE_KEY \<noteq> None \<and> FindProp row PR_ENTRYID \<noteq> None \<and>
     ul_of row PR_EC_IMAP_ID \<noteq> None"


text \<open>A search of one set needs no table; every other search of these criteria does.\<close>

lemma words_some: "words_of k \<noteq> []"
  by (cases k) auto

lemma first_word:
  assumes "proper uids k"
  shows "strToUpper (hd (words_of k)) = ''UID'' \<longleftrightarrow> (\<exists>s. k = KUid s)"
    and "is_sequence (strToUpper (hd (words_of k))) \<longleftrightarrow> (\<exists>s. k = KSet s)"
    and "strToUpper (hd (words_of k)) \<notin> {''ALL'', ''RECENT'', ''NEW'', ''OLD''}"
  using assms by (cases k; auto simp: upper_words is_sequence_def flag_words_def date_words_def)+

lemma no_quick_search:
  assumes "ks \<noteq> []" and "\<forall>k \<in> set ks. proper uids k" and "\<nexists>s. ks = [KSet s]" and "\<nexists>s. ks = [KUid s]"
  shows "quick_search (concat (map words_of ks)) c = None"
proof -
  obtain k l where ks: "ks = k # l" using assms(1) by (cases ks) auto
  have p: "proper uids k" using assms(2) ks by simp
  let ?ws = "concat (map words_of ks)"
  have h: "hd ?ws = hd (words_of k)" using words_some [of k] by (simp add: ks hd_append)
  have rest: "length (concat (map words_of l)) = 0 \<longleftrightarrow> l = []" using words_some by (cases l) auto
  have "\<not> (length ?ws = 2 \<and> strToUpper (hd ?ws) = ''UID'')"
  proof
    assume a: "length ?ws = 2 \<and> strToUpper (hd ?ws) = ''UID''"
    then obtain s where k: "k = KUid s" using first_word(1) [OF p] h by auto
    then have "l = []" using a rest by (simp add: ks del: length_concat)
    then show False using assms(4) k ks by simp
  qed
  moreover have "\<not> (length ?ws = 1 \<and> is_sequence (strToUpper (hd ?ws)))"
  proof
    assume a: "length ?ws = 1 \<and> is_sequence (strToUpper (hd ?ws))"
    then obtain s where k: "k = KSet s" using first_word(2) [OF p] h by auto
    then have "l = []" using a rest by (simp add: ks del: length_concat)
    then show False using assms(3) k ks by simp
  qed
  moreover have "strToUpper (hd ?ws) \<notin> {''ALL'', ''RECENT'', ''NEW'', ''OLD''}" using first_word(3) [OF p] h by simp
  ultimately show ?thesis unfolding quick_search_def by (simp add: Let_def) 
qed

lemma map_unat_sorted: "map unat (sorted_list_of_set (X :: uint32 set)) = sorted_list_of_set (unat ` X)"
proof -
  have "sorted (map unat (sorted_list_of_set X))"
    by (rule sorted_map_mono) (auto simp: mono_on_def word_le_nat_alt)
  moreover have "distinct (map unat (sorted_list_of_set X))" by (simp add: distinct_map inj_on_def word_unat_eq_iff)
  moreover have "set (map unat (sorted_list_of_set X)) = unat ` X" by simp
  ultimately show ?thesis by (metis sorted_list_of_set.idem_if_sorted_distinct)
qed

text \<open>The numbers of the messages every criterion holds for.\<close>

definition meant :: "uint32 list \<Rightarrow> row list \<Rightarrow> skey list \<Rightarrow> nat set" where
  "meant uids folder ks =
     {i. i < length uids \<and> (\<exists>row \<in> set folder. ul_of row PR_EC_IMAP_ID = Some (uids ! i) \<and> (\<forall>k \<in> set ks. means uids row k))}"

lemma meant_set:
  assumes "distinct uids" and "\<forall>u \<in> set uids. \<exists>row \<in> set folder. ul_of row PR_EC_IMAP_ID = Some u"
    and "\<And>row. means uids row k \<longleftrightarrow> (\<exists>j < length uids. ul_of row PR_EC_IMAP_ID = Some (uids ! j) \<and> P j)"
  shows "meant uids folder [k] = {i. i < length uids \<and> P i}"
proof -
  have "(\<exists>row \<in> set folder. ul_of row PR_EC_IMAP_ID = Some (uids ! i) \<and> means uids row k) \<longleftrightarrow> P i" if i: "i < length uids" for i
  proof
    assume "\<exists>row \<in> set folder. ul_of row PR_EC_IMAP_ID = Some (uids ! i) \<and> means uids row k"
    then obtain j where "j < length uids" "uids ! j = uids ! i" "P j" using assms(3) by auto
    then show "P i" using nth_eq_iff_index_eq [OF assms(1)] i by metis
  next
    assume "P i"
    moreover obtain row where "row \<in> set folder" "ul_of row PR_EC_IMAP_ID = Some (uids ! i)" using assms(2) i by (meson nth_mem)
    ultimately show "\<exists>row \<in> set folder. ul_of row PR_EC_IMAP_ID = Some (uids ! i) \<and> means uids row k" using assms(3) i by blast
  qed
  then show ?thesis by (auto simp: meant_def)
qed


lemma unat_image:
  assumes "n < 2 ^ 32" and "\<And>i. P i \<Longrightarrow> i < n"
  shows "unat ` {x :: uint32. P (unat x)} = {i. P i}"
proof (rule set_eqI, rule iffI)
  fix i
  assume "i \<in> {i. P i}"
  moreover have "i < 2 ^ 32" using calculation assms order_less_trans [of i n] by blast
  then have "unat (of_nat i :: uint32) = i" by (simp add: unsigned_of_nat take_bit_nat_eq_self)
  ultimately show "i \<in> unat ` {x :: uint32. P (unat x)}" by (intro image_eqI [of _ _ "of_nat i"]) simp_all
qed auto

lemma quick_set:
  assumes "length (lstFolderMailEIDs c) < 2 ^ 32" and "distinct (map ulUid (lstFolderMailEIDs c))" and "lstFolderMailEIDs c \<noteq> []"
    and "\<forall>u \<in> set (map ulUid (lstFolderMailEIDs c)). \<exists>row \<in> set folder. ul_of row PR_EC_IMAP_ID = Some u"
    and "proper (map ulUid (lstFolderMailEIDs c)) (KSet s)"
  shows "quick_search [s] c = Some (hrSuccess, sorted_list_of_set (meant (map ulUid (lstFolderMailEIDs c)) folder [KSet s]))"
proof -
  let ?uids = "map ulUid (lstFolderMailEIDs c)" and ?ws = "tokenize s CHR '','' False"
  let ?P = "\<lambda>i. \<exists>w \<in> set ?ws. in_part ?uids w (i + 1)"
  have p: "is_sequence s" "strToUpper s = s" "\<forall>w \<in> set ?ws. part_ok ?uids w" using assms(5) by auto
  have parsed: "HrParseSeqSet ?uids s [] = (hrSuccess, sorted_list_of_set {x. ?P (unat x)})"
    using set_parses [of ?uids s] assms(1,3) p(3) by simp
  have m: "meant ?uids folder [KSet s] = {i. i < length ?uids \<and> ?P i}"
    by (rule meant_set [OF assms(2,4)]) (simp only: means.simps p(2))
  have "?P i \<Longrightarrow> i < length ?uids" for i
    using p(3) by (auto simp: in_part_def part_ok_def)
  then have "unat ` {x :: uint32. ?P (unat x)} = {i. i < length ?uids \<and> ?P i}"
    using unat_image [of "length ?uids" ?P] assms(1) by auto
  then show ?thesis using parsed p(1,2) m map_unat_sorted [of "{x. ?P (unat x)}"] by (simp add: quick_search_def Let_def)
qed

lemma quick_uid:
  assumes "length (lstFolderMailEIDs c) < 2 ^ 32" and "sorted (map ulUid (lstFolderMailEIDs c))"
    and "distinct (map ulUid (lstFolderMailEIDs c))"
    and "\<forall>u \<in> set (map ulUid (lstFolderMailEIDs c)). \<exists>row \<in> set folder. ul_of row PR_EC_IMAP_ID = Some u"
  shows "quick_search [''UID'', s] c =
    Some (hrSuccess, sorted_list_of_set (meant (map ulUid (lstFolderMailEIDs c)) folder [KUid s]))"
proof -
  let ?uids = "map ulUid (lstFolderMailEIDs c)" and ?ws = "tokenize s CHR '','' False"
  let ?P = "\<lambda>i. \<exists>w \<in> set ?ws. uid_in_part ?uids w (?uids ! i)"
  have parsed: "HrParseSeqUidSet ?uids s [] = (hrSuccess, sorted_list_of_set {x. unat x < length ?uids \<and> ?P (unat x)})"
  proof -
    have "(\<Union>w \<in> set ?ws. set (uid_list ?uids w)) = {x. unat x < length ?uids \<and> ?P (unat x)}"
      using uid_list_set [OF assms(2,3)] assms(1) by auto
    then show ?thesis by (simp add: HrParseSeqUidSet_def seq_uid_all)
  qed
  have m: "meant ?uids folder [KUid s] = {i. i < length ?uids \<and> ?P i}"
    by (rule meant_set [OF assms(3,4)]) (simp only: means.simps)
  have "unat ` {x :: uint32. unat x < length ?uids \<and> ?P (unat x)} = {i. i < length ?uids \<and> ?P i}"
    using unat_image [of "length ?uids" "\<lambda>i. i < length ?uids \<and> ?P i"] assms(1) by simp
  then show ?thesis
    using parsed m map_unat_sorted [of "{x. unat x < length ?uids \<and> ?P (unat x)}"]
    by (simp add: quick_search_def Let_def upper_words)
qed


lemma table_search:
  assumes "strCurrentFolder c \<noteq> []" and "lpSession c" and "lstFolderMailEIDs c \<noteq> []" and "length (lstFolderMailEIDs c) < 2 ^ 32"
    and "sorted (uids_of c)" and "distinct (uids_of c)"
    and "HrFindFolder e (strCurrentFolder c) (bCurrentFolderReadOnly c) = hrSuccess" and "GetContentsTable e = hrSuccess"
    and "CreateMAPIRestriction e = hrSuccess" and "search_rows s = rows_found E folder"
    and "\<forall>row \<in> set folder. folder_row row" and "distinct (map (\<lambda>row. ul_of row PR_EC_IMAP_ID) folder)"
    and "\<forall>k \<in> set ks. proper (uids_of c) k" and "ks \<noteq> []" and "quick_search (concat (map words_of ks)) c = None"
  shows "HrSearch e s (concat (map words_of ks)) c = Some (hrSuccess, sorted_list_of_set (meant (uids_of c) folder ks))"
proof -
  let ?u = "\<lambda>row. ul_of row PR_EC_IMAP_ID"
  let ?hit = "\<lambda>row. \<forall>k \<in> set ks. means (uids_of c) row k"
  obtain r where r: "search_restriction s (uids_of c) (concat (map words_of ks)) = Some (Inr r)"
    and m: "\<And>row. folder_row row \<Longrightarrow> MatchRowRestrict E r row = Some (Inr (?hit row), row)"
    using restriction_means [of "uids_of c" ks s E] assms(3-6,13) by (auto simp: folder_row_def)
  have "filter (\<lambda>row. fst (the (MatchRowRestrict E r row)) = Inr True) folder = filter ?hit folder"
    using assms(11) by (intro filter_cong refl) (simp add: m)
  then have rows: "rows_found E folder r = (hrSuccess, List.map_filter ?u (filter ?hit folder))"
    by (simp add: rows_found_def)
  let ?us = "List.map_filter ?u (filter ?hit folder)"
  have d: "distinct ?us"
  proof -
    have "distinct (List.map_filter ?u xs)" if "distinct (map ?u xs)" for xs
      using that by (induction xs) (auto simp: List.map_filter_simps in_map_filter image_iff split: option.split)
    then show ?thesis using distinct_map_filter [OF assms(12)] by blast
  qed
  have "set (List.map_filter (index_uids 0 (lstFolderMailEIDs c) (\<lambda>_. None)) ?us) = meant (uids_of c) folder ks"
    using found_numbers [OF assms(6), of ?us] by (auto simp: meant_def in_map_filter)
  then have "sort (List.map_filter (index_uids 0 (lstFolderMailEIDs c) (\<lambda>_. None)) ?us) = sorted_list_of_set (meant (uids_of c) folder ks)"
    using sorted_list_of_set_sort_remdups [of "List.map_filter (index_uids 0 (lstFolderMailEIDs c) (\<lambda>_. None)) ?us"]
      found_distinct [OF assms(6) d] by (simp only: distinct_remdups_id)
  moreover obtain k l where "ks = k # l" using assms(14) by (cases ks) auto
  then have "concat (map words_of ks) \<noteq> []" using words_some by simp
  ultimately show ?thesis using assms(1-3,7-10,15) r rows by (simp add: HrSearch_def)
qed

text \<open>
  C38: SEARCH finds what its criteria mean, for ANSWERED, DELETED, DRAFT, FLAGGED, SEEN and their opposites,
  BEFORE, ON, SINCE, SENTBEFORE, SENTON, SENTSINCE, LARGER, SMALLER, sequence numbers, UID, and NOT and OR of
  these at any depth. (Not covered: ALL, NEW, RECENT, OLD, keywords, texts, groups in brackets.) The meaning is
  stated bit by bit and on points of time, without the tables of the code: SEEN is bit 0 of the message flags,
  ANSWERED, DRAFT and DELETED are bits 16, 17 and 3 of the message status alone (the verb that was executed
  last and the flag for unsent messages are not looked at), FLAGGED a flag status with low 16 bits other than 0; a day begins at
  the time read from the argument and lasts 24 hours. The tree of conditions that the words build (with the stack
  of open negations and disjunctions, the short cuts for one set of numbers or UIDs, the sizes with their two
  properties), turned into a restriction and evaluated by the server on the rows of the folder, gives in ascending
  order the numbers of the messages in the list for which every criterion holds. A folder is selected and the calls to
  the server succeed; the list has ascending UIDs and fewer than 2^32 messages, each with a row; the rows have
  different UIDs, an instance key and an entry id, and values of the types of their tags; there is at least one
  criterion, and sequence sets name messages that exist.
\<close>

theorem search_finds_meant:
  assumes "strCurrentFolder c \<noteq> []" and "lpSession c" and "length (lstFolderMailEIDs c) < 2 ^ 32"
    and "sorted (uids_of c)" and "distinct (uids_of c)"
    and "HrFindFolder e (strCurrentFolder c) (bCurrentFolderReadOnly c) = hrSuccess" and "GetContentsTable e = hrSuccess"
    and "CreateMAPIRestriction e = hrSuccess" and "search_rows s = rows_found E folder"
    and "\<forall>row \<in> set folder. folder_row row" and "distinct (map (\<lambda>row. ul_of row PR_EC_IMAP_ID) folder)"
    and "\<forall>u \<in> set (uids_of c). \<exists>row \<in> set folder. ul_of row PR_EC_IMAP_ID = Some u"
    and "\<forall>k \<in> set ks. proper (uids_of c) k" and "ks \<noteq> []"
  shows "HrSearch e s (concat (map words_of ks)) c = Some (hrSuccess, sorted_list_of_set (meant (uids_of c) folder ks))"
proof (cases "lstFolderMailEIDs c = []")
  case True
  then show ?thesis using assms(1,2) by (simp add: HrSearch_def meant_def)
next
  case False
  consider t where "ks = [KSet t]" | t where "ks = [KUid t]" | "\<nexists>t. ks = [KSet t]" "\<nexists>t. ks = [KUid t]" by blast
  then show ?thesis
  proof cases
    case 1
    then show ?thesis using quick_set [of c folder t] assms False by (simp add: HrSearch_def)
  next
    case 2
    then show ?thesis using quick_uid [of c folder t] assms False by (simp add: HrSearch_def)
  next
    case 3
    show ?thesis
      by (rule table_search [OF assms(1,2) False assms(3-11,13,14) no_quick_search [OF assms(14,13) 3]])
  qed
qed

text \<open>
  Applied to a search for messages that are not read, or larger than 1000 bytes, in a folder with the
  messages 7, 9 and 10.
\<close>

definition search_row :: "uint32 \<Rightarrow> uint32 \<Rightarrow> uint32 \<Rightarrow> row" where
  "search_row uid fl bytes =
     [\<lparr>ulPropTag = PR_INSTANCE_KEY, Value = V_res\<rparr>, \<lparr>ulPropTag = PR_ENTRYID, Value = V_res\<rparr>,
      \<lparr>ulPropTag = PR_EC_IMAP_ID, Value = V_ul uid\<rparr>, \<lparr>ulPropTag = PR_MESSAGE_FLAGS, Value = V_ul fl\<rparr>,
      \<lparr>ulPropTag = PR_MESSAGE_SIZE, Value = V_ul bytes\<rparr>]"

definition search_folder :: "row list" where
  "search_folder = [search_row 7 0 500, search_row 9 1 900, search_row 10 1 1500]"

definition demo_search :: searchenv where
  "demo_search = \<lparr>unicode_build = True, vector_moves = (\<lambda>_ _. False), search_rows = rows_found demo_match search_folder,
     can_convert = (\<lambda>_. False)\<rparr>"

lemma meant_filter:
  "sorted_list_of_set (meant uids folder ks) =
   filter (\<lambda>i. \<exists>row \<in> set folder. ul_of row PR_EC_IMAP_ID = Some (uids ! i) \<and> (\<forall>k \<in> set ks. means uids row k)) [0..<length uids]"
  by (simp only: sorted_filter_upt meant_def)

lemma search_finds_meant_witness:
  "HrSearch (quiet_env []) demo_search [''OR'', ''NOT'', ''Seen'', ''LARGER'', ''1000''] three_mails = Some (hrSuccess, [0, 2])"
proof -
  let ?k = "KOr (KNot (KFlag ''Seen'')) (KLarger ''1000'')"
  have "HrSearch (quiet_env []) demo_search (concat (map words_of [KOr (KNot (KFlag ''Seen'')) (KLarger ''1000'')])) three_mails =
      Some (hrSuccess, sorted_list_of_set (meant (uids_of three_mails) search_folder [?k]))"
  proof (rule search_finds_meant)
    have "length (lstFolderMailEIDs three_mails) = 3" by code_simp
    then show "length (lstFolderMailEIDs three_mails) < 2 ^ 32" by simp
    show "strCurrentFolder three_mails \<noteq> []" "lpSession three_mails"
      "sorted (uids_of three_mails)" "distinct (uids_of three_mails)"
      by code_simp+
    show "HrFindFolder (quiet_env []) (strCurrentFolder three_mails) (bCurrentFolderReadOnly three_mails) = hrSuccess"
      "GetContentsTable (quiet_env []) = hrSuccess" "CreateMAPIRestriction (quiet_env []) = hrSuccess"
      by (simp_all add: quiet_env_def)
    show "search_rows demo_search = rows_found demo_match search_folder" by (simp add: demo_search_def)
    show "\<forall>row \<in> set search_folder. folder_row row" "distinct (map (\<lambda>row. ul_of row PR_EC_IMAP_ID) search_folder)"
      "\<forall>u \<in> set (uids_of three_mails). \<exists>row \<in> set search_folder. ul_of row PR_EC_IMAP_ID = Some u"
      "\<forall>k \<in> set [?k]. proper (uids_of three_mails) k"
      by code_simp+
  qed simp
  moreover have "sorted_list_of_set (meant (uids_of three_mails) search_folder [?k]) = [0, 2]"
    unfolding meant_filter by code_simp
  ultimately show ?thesis by simp
qed

section \<open>Searches that go wrong\<close>

text \<open>
  NOT in front of a criterion that adds no condition leaves a negation without a condition, which is followed.
\<close>

lemma not_all_has_no_condition:
  "search_loop demo_search [7, 9, 10] [''NOT'', ''ALL''] (ECAnd []) [[]] = Some (Inr (ECAnd [ECNot None]))
   \<and> search_restriction demo_search [7, 9, 10] [''NOT'', ''ALL''] = None"
  by code_simp

text \<open>OLD next to another criterion is a condition the server refuses.\<close>

lemma old_is_refused:
  "(case search_restriction demo_search [7, 9, 10] [''OLD'', ''UNSEEN''] of
      Some (Inr r) \<Rightarrow> map_option fst (MatchRowRestrict demo_match r (search_row 7 0 500)) = Some (Inl KCERR_INVALID_TYPE)
    | _ \<Rightarrow> False)"
  by code_simp

end
