(* ===== verification/RestrictionTypes.thy ===== *)
theory RestrictionTypes
  imports RestrictionSpec
begin

text \<open>
  Type safety of restrictions: on a row whose values have the types their tags announce, a restriction
  whose search values do as well is evaluated without an undefined step (no null pointer, no other member of a
  union, nothing past a block), and the row keeps its types.
\<close>

section \<open>Values that have their types\<close>




section \<open>Restrictions that have their types\<close>




section \<open>Tags and their types\<close>













section \<open>Comparing sound values\<close>









section \<open>Comparison\<close>






lemma as_mvl_halves: "as_mvl (V_mvli xs) = Some ys \<Longrightarrow> length ys = 2 * length xs"
  by (auto simp: as_mvl_def length_concat sum_list_triv comp_def)






section \<open>Contents\<close>

























section \<open>The conditions\<close>












section \<open>Type safety\<close>





text \<open>
  Rule actions are taken for text: searching such a column for text reads the text of a value that has none.
\<close>

lemma actions_count_as_text:
  "MatchRowRestrict demo_match (RES_CONTENT FL_FULLSTRING 0x668000FE (Some \<lparr>ulPropTag = 0x6680001F, Value = V_lpszA (Some [66])\<rparr>))
     [\<lparr>ulPropTag = 0x668000FE, Value = V_actions\<rparr>] = None"
  by code_simp

text \<open>A search for a block without bytes reads past the block that is searched for.\<close>

lemma empty_block_search:
  "MatchRowRestrict demo_match (RES_CONTENT FL_SUBSTRING 0x0FFF0102 (Some \<lparr>ulPropTag = 0x0FFF0102, Value = V_bin (Some \<lparr>bin_ptr = None, bin_size = 0\<rparr>)\<rparr>))
     [\<lparr>ulPropTag = 0x0FFF0102, Value = V_bin (Some \<lparr>bin_ptr = Some [1], bin_size = 1\<rparr>)\<rparr>] = None"
  by code_simp

end
