(* ===== verification/Spec2Isabelle.thy ===== *)
theory Spec2Isabelle
  imports KeyTableSpec SecuritySpec RestrictionSpec RecurrenceSpec RtfStreamSpec LocksSpec FifoSpec Pop3Mail ImapTextSpec ImapIdleSpec ImapStoreSpec
    ImapSearchSpec RestrictionTypes
begin

text \<open>
  A verification development for kopano-core, a groupware server: a storage server that clients reach over
  SOAP, a MAPI client library, and gateways that offer the mailboxes over POP3, IMAP and other protocols.
  Paths below are relative to src/.

  \<^bold>\<open>The program.\<close> The server (provider/libserver) answers calls of its sessions. A table of messages or
  folders is an ECGenericObjectTable: it loads rows of properties from the database, keeps those that match a
  restriction, and orders them by binary sort keys in an ECKeyTable, which also holds the cursor and the
  bookmarks of the client. Whether a session may read or change an object is decided by ECSecurity from the
  acl and hierarchy tables, which it reads through ECCacheManager. Sessions can lock messages through the
  ECLockManager. The client library offers bodies and attachments as streams (ECMemStream), bodies in
  compressed RTF among them (rtf.cpp, mapiutil.cpp), and reads and writes the recurrence patterns of
  appointments (RecurrenceState.cpp). Threads that produce and consume data are joined by an ECFifoBuffer.
  The gateways (gateway/POP3.cpp, gateway/IMAP.cpp) read lines, call the client library and write
  responses; the IMAP gateway keeps a list of the messages of the selected folder and sends restrictions to the
  tables of the server.

  \<^bold>\<open>The theories.\<close> Each part has theories with its definitions and, with the suffix Spec or with a name that
  extends it, theories with its lemmas; their headers say more.

  \<^item> KPrelude: result codes (common/include/kopano/kcodes.h), byte and word types, shared lemmas. Bytes: memory as byte
    lists. Steps: runs of step relations and the contract of an invariant.
  \<^item> KeyTableRow, KeyTable, KeyTableOps: common/ECKeyTable.cpp and .h. A row object has an address in a heap,
    a map from addresses to records; parent and child pointers are addresses. KeyTableRep, KeyTableNav,
    KeyTableAvl, KeyTableIns, KeyTableLink and KeyTableQuery relate the pointers to trees and to the ordered list of
    rows, and KeyTableSpec holds the properties: adding a row refines insertion into an ordered list, seeking
    and querying gives a window of the visible rows, and a table built by adding rows is balanced and of
    logarithmic height.
  \<^item> Security, SecuritySpec: provider/libserver/ECSecurity.cpp and the reads of ECCacheManager.cpp; the database
    is a record of tables. Effective rights are those of the nearest ancestor with a grant, groups are
    transitive membership, and setting rights refines updates of a map.
  \<^item> PropVal, Restriction, RestrictionSpec, RestrictionTypes: values, their comparison and sizes (provider/common/SOAPUtils.cpp),
    restrictions and their evaluation, the columns they need, sort keys
    (provider/libserver/ECGenericObjectTable.cpp). The columns collected suffice, the sort keys of numbers,
    booleans and times agree with comparison, and the evaluation of typed rows is defined under stated conditions.
  \<^item> StringUtil, StringUtilSpec: common/stringutil.cpp, common/base64.cpp and the functions of the C library used
    with them; round trips of the encodings.
  \<^item> Recurrence, RecurrenceSpec: m4lcommon/RecurrenceState.cpp; a written pattern is read back, truncation is
    noticed, reading an appointment is defined for every input.
  \<^item> Rtf, RtfSpec: mapi4linux/src/rtf.cpp; the round trip of compression and the exact condition under which
    unpacking stays in its buffers. MemStream, MemStreamSpec: common/ECMemStream.cpp; streams implement files.
    RtfStream, RtfStreamSpec: the compressed body as a stream (mapi4linux/src/mapiutil.cpp), proved for any stream that
    keeps the contract of the locale \<open>stream_contract\<close>, which memory streams do.
  \<^item> Locks, LocksSpec: provider/libserver/ECLockManager.cpp, ECSession.cpp and two calls of cmd.cpp, as steps of any
    number of sessions; locks are exclusive. Fifo, FifoSpec: common/ECFifoBuffer.cpp, as steps of any number of
    threads; order, completeness and wake-ups.
  \<^item> Pop3, Pop3Spec, Pop3Mail: gateway/POP3.cpp, the loop of gateway/Gateway.cpp and the line functions of
    common/ECChannel.cpp, as steps of a connection.
  \<^item> ImapText, ImapTextSpec: the text functions of gateway/IMAP.cpp. ImapView with ImapViewSpec and ImapIdleSpec: the
    selected folder. ImapStore, ImapStoreSpec: changing flags. ImapSearch, ImapSearchSpec: SEARCH for flags,
    dates, sizes and numbers, down to the evaluation of its restriction by the server.

  \<^bold>\<open>How code is modelled.\<close> Records follow the classes, with the names of their members; an operation takes the
  state and returns the new one. An error code is a value; what C++ leaves undefined (following a null or dangling
  pointer, reading outside an array, reading the wrong member of a union) is \<open>None\<close>, so that a theorem that an
  operation returns \<open>Some\<close> says that this does not happen. Integers have the width of the code where they can wrap
  around. What the code gets from outside (the database of the mail server, iconv, ICU, regular expressions, sockets, TLS, the
  contents of fresh memory) is a parameter, usually a record of functions, that may answer anything unless a theorem
  says otherwise. Allocations succeed.

  \<^bold>\<open>Bounds and fuel.\<close> Loops along pointers in KeyTable take the number of addresses given out so far (\<open>nextptr\<close>), more
  than there are rows, and the lemmas on represented trees show that they end before it is used up. CopyTo of a memory
  stream may run forever; \<open>MemStreamSpec.copyto_returns\<close> says when it returns. The loop that commits a compressed
  body hands over 16384 bytes at a time; 32770 rounds are enough for bodies below 2 ^ 28 bytes, for which the round trip
  is proved.
  The round trip of RTF is for inputs below 2 ^ 31 bytes, because the sizes in its header are compared as such.
  Folders have fewer than 2 ^ 32 messages where positions are numbers of 32 bits. All other loops are
  terminating functions.

  \<^bold>\<open>Not modelled.\<close> In the parts above: logging, memory statistics, allocation failures, reference counts; in the
  IMAP gateway FETCH, APPEND, LIST and the other commands on folders, the login and the command dispatcher; in
  ECGenericObjectTable the loading of rows, categories and notifications; in SOAPUtils the copying of structures.
  Parts left out as a whole: the SOAP calls of the server (provider/libserver/cmd.cpp), which are mostly SQL and
  structure copying; user management and its plugins; the database layer; notifications, search folders, ICS
  synchronisation and attachment storage; the transport and the objects of the client library
  (provider/client); the address book provider; conversion of messages (inetmapi, libicalmapi, caldav); delivery
  (spooler); free/busy; the archiver and the administration tools (ECtools); the bindings for PHP and Python.
\<close>

end
